(* ===== verification/Prelude.thy ===== *)
theory Prelude
  imports Main "HOL-Library.Word" "HOL-Library.List_Lexorder" "HOL-Library.Char_ord"
begin

text \<open>
  Shared vocabulary of the development: the fragments of Rust's language and standard
  library that the modelled files use, and the lemmas the component theories need about them.

  \<^item> Fallible code: a \<open>Result<T, E>\<close> is a sum \<open>'e + 'a\<close> (\<open>Inl\<close> is \<open>Err\<close>, \<open>Inr\<close> is \<open>Ok\<close>) and
    the \<open>?\<close> operator is \<open>and_then\<close>; an \<open>Option<T>\<close> is an \<open>'a option\<close>.
  \<^item> A \<open>u64\<close>, \<open>u32\<close> or \<open>usize\<close> that is only counted, compared or saturated is a \<open>nat\<close>, with the
    saturation or the wrap-around written out; limbs and bytes are words.
  \<^item> A \<open>String\<close> is the list of its UTF-8 bytes (\<open>char\<close> is a byte), as in Rust; \<open>utf8_chars\<close> is
    \<open>str::chars\<close>.
  \<^item> A \<open>BTreeMap\<close> is an association list kept sorted by key, so that iteration order is the
    source's; a \<open>BTreeSet\<close> is a sorted list.
\<close>

named_theorems rust_simps \<open>unfolding rules for the Rust standard library fragments\<close>
named_theorems wf_intros \<open>preservation of well-formedness by the operations\<close>

section \<open>Results\<close>

type_synonym byte = "8 word"

type_synonym bytes = "byte list"

definition and_then :: "'e + 'a \<Rightarrow> ('a \<Rightarrow> 'e + 'b) \<Rightarrow> 'e + 'b" where
  "and_then r f = (case r of Inl e \<Rightarrow> Inl e | Inr x \<Rightarrow> f x)"

definition ok_or :: "'e \<Rightarrow> 'a option \<Rightarrow> 'e + 'a" where
  "ok_or e x = (case x of None \<Rightarrow> Inl e | Some y \<Rightarrow> Inr y)"

definition map_err :: "('e \<Rightarrow> 'f) \<Rightarrow> 'e + 'a \<Rightarrow> 'f + 'a" where
  "map_err f r = (case r of Inl e \<Rightarrow> Inl (f e) | Inr x \<Rightarrow> Inr x)"

lemma and_then_simps [simp]: "and_then (Inl e) f = Inl e" "and_then (Inr x) f = f x"
  by (simp_all add: and_then_def)

lemma ok_or_simps [simp]: "ok_or e None = Inl e" "ok_or e (Some x) = Inr x"
  by (simp_all add: ok_or_def)

lemma map_err_simps [simp]: "map_err f (Inl e) = Inl (f e)" "map_err f (Inr x) = Inr x"
  by (simp_all add: map_err_def)

lemma and_then_Inr_iff: "and_then r f = Inr y \<longleftrightarrow> (\<exists>x. r = Inr x \<and> f x = Inr y)"
  by (cases r) auto

lemma and_then_Inl_iff: "and_then r f = Inl e \<longleftrightarrow> r = Inl e \<or> (\<exists>x. r = Inr x \<and> f x = Inl e)"
  by (cases r) auto

lemma ok_or_Inr_iff [simp]: "ok_or e x = Inr y \<longleftrightarrow> x = Some y"
  by (cases x) auto

lemma map_err_Inr_iff [simp]: "map_err f r = Inr y \<longleftrightarrow> r = Inr y"
  by (cases r) auto

lemma if_Inl_eq_Inr [simp]:
  "(if c then Inl e else r) = Inr y \<longleftrightarrow> \<not> c \<and> r = Inr y"
  "(if c then r else Inl e) = Inr y \<longleftrightarrow> c \<and> r = Inr y"
  by auto

lemma and_then_Inr_cases [consumes 1, case_names ok]:
  assumes "and_then r f = Inr y"
  obtains x where "r = Inr x" "f x = Inr y"
  using assms by (auto simp: and_then_Inr_iff)

lemma and_then_pairE:
  assumes "and_then r (\<lambda>(a, b). f a b) = Inr y"
  obtains a b where "r = Inr (a, b)" "f a b = Inr y"
  using assms by (auto simp: and_then_Inr_iff)

lemma if_InlE:
  assumes "(if c then Inl e else r) = Inr y"
  obtains "\<not> c" "r = Inr y"
  using assms by simp

section \<open>Integers\<close>

definition u64_max :: nat where "u64_max = 2 ^ 64 - 1"

definition u32_max :: nat where "u32_max = 2 ^ 32 - 1"

text \<open>\<open>u64::saturating_add\<close>, \<open>u64::checked_add\<close>, and \<open>+= 1\<close> on a \<open>u64\<close> in a release build.\<close>

definition sat_add :: "nat \<Rightarrow> nat \<Rightarrow> nat" where
  "sat_add a b = min (a + b) u64_max"

definition checked_add :: "nat \<Rightarrow> nat \<Rightarrow> nat option" where
  "checked_add a b = (if a + b \<le> u64_max then Some (a + b) else None)"

definition wrap_inc :: "nat \<Rightarrow> nat" where
  "wrap_inc n = (n + 1) mod 2 ^ 64"

text \<open>\<open>u64 as i64\<close>, and two's complement wrap-around of an \<open>i64\<close> result.\<close>

definition as_i64 :: "nat \<Rightarrow> int" where
  "as_i64 n = (if n < 2 ^ 63 then int n else int n - 2 ^ 64)"

definition wrap_i64 :: "int \<Rightarrow> int" where
  "wrap_i64 x = (x + 2 ^ 63) mod 2 ^ 64 - 2 ^ 63"

lemma sat_add_exact: "a + b \<le> u64_max \<Longrightarrow> sat_add a b = a + b"
  by (simp add: sat_add_def)

lemma sat_add_ge: "a \<le> u64_max \<Longrightarrow> a \<le> sat_add a b"
  by (simp add: sat_add_def)

lemma sat_add_mono: "a \<le> a' \<Longrightarrow> sat_add a b \<le> sat_add a' b"
  by (simp add: sat_add_def)

lemma sat_add_le_max [simp]: "sat_add a b \<le> u64_max"
  by (simp add: sat_add_def)

lemma wrap_inc_exact: "n < u64_max \<Longrightarrow> wrap_inc n = Suc n"
  by (simp add: wrap_inc_def u64_max_def)

lemma as_i64_exact: "n < 2 ^ 63 \<Longrightarrow> as_i64 n = int n"
  by (simp add: as_i64_def)

lemma wrap_i64_exact: "- (2 ^ 63) \<le> x \<Longrightarrow> x < 2 ^ 63 \<Longrightarrow> wrap_i64 x = x"
  by (simp add: wrap_i64_def)

text \<open>Rust's \<open>/\<close> and \<open>%\<close> on signed integers truncate towards zero; on the non-negative
  arguments they are applied to here they agree with \<open>div\<close> and \<open>mod\<close>.\<close>

definition tdiv :: "int \<Rightarrow> int \<Rightarrow> int" where
  "tdiv a b = sgn a * sgn b * (\<bar>a\<bar> div \<bar>b\<bar>)"

lemma tdiv_nonneg: "0 \<le> a \<Longrightarrow> 0 < b \<Longrightarrow> tdiv a b = a div b"
  by (cases "a = 0") (auto simp: tdiv_def)

section \<open>Strings\<close>

definition code :: "char \<Rightarrow> nat" where "code c = of_char c"

definition is_ascii_digit :: "char \<Rightarrow> bool" where
  "is_ascii_digit c \<longleftrightarrow> 48 \<le> code c \<and> code c \<le> 57"

definition is_ascii_uppercase :: "char \<Rightarrow> bool" where
  "is_ascii_uppercase c \<longleftrightarrow> 65 \<le> code c \<and> code c \<le> 90"

definition is_ascii_lowercase :: "char \<Rightarrow> bool" where
  "is_ascii_lowercase c \<longleftrightarrow> 97 \<le> code c \<and> code c \<le> 122"

definition is_ascii_alphabetic :: "char \<Rightarrow> bool" where
  "is_ascii_alphabetic c \<longleftrightarrow> is_ascii_uppercase c \<or> is_ascii_lowercase c"

definition is_ascii_alphanumeric :: "char \<Rightarrow> bool" where
  "is_ascii_alphanumeric c \<longleftrightarrow> is_ascii_alphabetic c \<or> is_ascii_digit c"

definition is_ascii_hexdigit :: "char \<Rightarrow> bool" where
  "is_ascii_hexdigit c \<longleftrightarrow> is_ascii_digit c
     \<or> (65 \<le> code c \<and> code c \<le> 70) \<or> (97 \<le> code c \<and> code c \<le> 102)"

lemmas ascii_defs = is_ascii_digit_def is_ascii_uppercase_def is_ascii_lowercase_def
  is_ascii_alphabetic_def is_ascii_alphanumeric_def is_ascii_hexdigit_def

definition lower_char :: "char \<Rightarrow> char" where
  "lower_char c = (if is_ascii_uppercase c then char_of (code c + 32) else c)"

definition upper_char :: "char \<Rightarrow> char" where
  "upper_char c = (if is_ascii_lowercase c then char_of (code c - 32) else c)"

definition to_ascii_lowercase :: "string \<Rightarrow> string" where
  "to_ascii_lowercase s = map lower_char s"

definition eq_ignore_ascii_case :: "string \<Rightarrow> string \<Rightarrow> bool" where
  "eq_ignore_ascii_case a b \<longleftrightarrow> to_ascii_lowercase a = to_ascii_lowercase b"

lemma code_less [simp]: "code c < 256"
  unfolding code_def by (metis mod_less_divisor of_char_mod_256 zero_less_numeral)

lemma code_char_of: "n < 256 \<Longrightarrow> code (char_of n) = n"
  by (simp add: code_def)

lemma code_inj: "code c = code d \<longleftrightarrow> c = d"
  by (simp add: code_def)

lemma code_lower_char:
  "code (lower_char c) = (if 65 \<le> code c \<and> code c \<le> 90 then code c + 32 else code c)"
  by (simp add: lower_char_def is_ascii_uppercase_def code_char_of)

lemma lower_char_idem [simp]: "lower_char (lower_char c) = lower_char c"
  by (simp add: code_inj [symmetric] code_lower_char)

lemma code_upper_char:
  "code (upper_char c) = (if 97 \<le> code c \<and> code c \<le> 122 then code c - 32 else code c)"
  using code_less [of c] by (auto simp: upper_char_def is_ascii_lowercase_def code_char_of simp del: code_less)

lemma char_case_simps:
  "is_ascii_alphabetic (lower_char c) \<longleftrightarrow> is_ascii_alphabetic c"
  "\<not> is_ascii_uppercase c \<Longrightarrow> lower_char c = c"
  "is_ascii_uppercase c \<Longrightarrow> upper_char (lower_char c) = c"
  "lower_char (upper_char c) = lower_char c"
  by (auto simp: code_inj [symmetric] code_lower_char code_upper_char ascii_defs)

lemma to_ascii_lowercase_idem [simp]:
  "to_ascii_lowercase (to_ascii_lowercase s) = to_ascii_lowercase s"
  by (simp add: to_ascii_lowercase_def)

lemma length_to_ascii_lowercase [simp]: "length (to_ascii_lowercase s) = length s"
  by (simp add: to_ascii_lowercase_def)

lemma eq_ignore_ascii_case_refl [simp]: "eq_ignore_ascii_case s s"
  by (simp add: eq_ignore_ascii_case_def)

text \<open>Sub-string operations of \<open>str\<close>.\<close>

fun strip_prefix :: "string \<Rightarrow> string \<Rightarrow> string option" where
  "strip_prefix [] s = Some s"
| "strip_prefix (p # ps) [] = None"
| "strip_prefix (p # ps) (c # cs) = (if p = c then strip_prefix ps cs else None)"

definition starts_with :: "string \<Rightarrow> string \<Rightarrow> bool" where
  "starts_with p s \<longleftrightarrow> strip_prefix p s \<noteq> None"

definition strip_suffix :: "string \<Rightarrow> string \<Rightarrow> string option" where
  "strip_suffix p s = map_option rev (strip_prefix (rev p) (rev s))"

definition ends_with :: "string \<Rightarrow> string \<Rightarrow> bool" where
  "ends_with p s \<longleftrightarrow> strip_suffix p s \<noteq> None"

text \<open>\<open>str::split_once\<close>: around the first occurrence of the delimiter.\<close>

fun split_once :: "string \<Rightarrow> string \<Rightarrow> (string \<times> string) option" where
  "split_once d s =
     (case strip_prefix d s of
        Some r \<Rightarrow> Some ([], r)
      | None \<Rightarrow> (case s of
          [] \<Rightarrow> None
        | c # cs \<Rightarrow> map_option (\<lambda>(a, b). (c # a, b)) (split_once d cs)))"

declare split_once.simps [simp del]

text \<open>\<open>str::split\<close> on one byte: always at least one piece.\<close>

fun split_on :: "char \<Rightarrow> string \<Rightarrow> string list" where
  "split_on c [] = [[]]"
| "split_on c (x # xs) =
     (if x = c then [] # split_on c xs
      else (case split_on c xs of [] \<Rightarrow> [[x]] | l # ls \<Rightarrow> (x # l) # ls))"

fun join :: "string \<Rightarrow> string list \<Rightarrow> string" where
  "join sep [] = []"
| "join sep [l] = l"
| "join sep (l # ls) = l @ sep @ join sep ls"

lemma strip_prefix_Some_iff: "strip_prefix p s = Some r \<longleftrightarrow> s = p @ r"
  by (induction p s rule: strip_prefix.induct) auto

lemma strip_prefix_append [simp]: "strip_prefix p (p @ r) = Some r"
  by (simp add: strip_prefix_Some_iff)

lemma strip_prefix_None_iff: "strip_prefix p s = None \<longleftrightarrow> (\<forall>r. s \<noteq> p @ r)"
  by (metis not_None_eq strip_prefix_Some_iff)

lemma starts_with_iff: "starts_with p s \<longleftrightarrow> (\<exists>r. s = p @ r)"
  by (simp add: starts_with_def strip_prefix_Some_iff)

lemma strip_suffix_Some_iff: "strip_suffix p s = Some r \<longleftrightarrow> s = r @ p"
  by (auto simp: strip_suffix_def strip_prefix_Some_iff)
     (metis rev_append rev_rev_ident)

lemma strip_suffix_append [simp]: "strip_suffix p (r @ p) = Some r"
  by (simp add: strip_suffix_Some_iff)

lemma split_once_Some: "split_once d s = Some (a, b) \<Longrightarrow> s = a @ d @ b"
proof (induction d s arbitrary: a rule: split_once.induct)
  case (1 d s)
  show ?case
  proof (cases "strip_prefix d s")
    case (Some r)
    with "1.prems" show ?thesis
      by (auto simp: split_once.simps [of d s] strip_prefix_Some_iff)
  next
    case None
    with "1.prems" obtain c cs a' where s: "s = c # cs" "a = c # a'"
      and "split_once d cs = Some (a', b)"
      by (auto simp: split_once.simps [of d s] split: list.splits)
    with "1.IH" None show ?thesis by auto
  qed
qed

lemma split_once_None: "split_once d s = None \<Longrightarrow> s \<noteq> a @ d @ b"
proof (induction d s arbitrary: a rule: split_once.induct)
  case (1 d s)
  then have None: "strip_prefix d s = None"
    by (auto simp: split_once.simps [of d s] split: option.splits)
  show ?case
  proof (cases s)
    case Nil
    then show ?thesis using None by (cases d) auto
  next
    case (Cons c cs)
    with "1.prems" None have "split_once d cs = None"
      by (simp add: split_once.simps [of d "c # cs"])
    with "1.IH" None Cons have "\<And>a. cs \<noteq> a @ d @ b" by auto
    with None Cons show ?thesis
      by (cases a) (auto simp: strip_prefix_None_iff)
  qed
qed

lemma split_once_absent: "(\<And>a b. s \<noteq> a @ d @ b) \<Longrightarrow> split_once d s = None"
  by (metis not_None_eq split_once_Some surj_pair)

text \<open>A delimiter whose first byte does not occur in the front splits exactly there.\<close>

lemma split_once_first:
  "c \<notin> set a \<Longrightarrow> split_once (c # d) (a @ (c # d) @ b) = Some (a, b)"
proof (induction a)
  case Nil
  then show ?case by (simp add: split_once.simps)
next
  case (Cons x xs)
  then have "strip_prefix (c # d) ((x # xs) @ (c # d) @ b) = None" by auto
  moreover have "split_once (c # d) (xs @ (c # d) @ b) = Some (xs, b)"
    using Cons by auto
  ultimately show ?case
    by (simp add: split_once.simps [of "c # d" "x # xs @ c # d @ b"])
qed

lemma split_on_not_Nil [simp]: "split_on c s \<noteq> []"
  by (induction s) (auto split: list.splits)

lemma join_Cons: "ls \<noteq> [] \<Longrightarrow> join sep (l # ls) = l @ sep @ join sep ls"
  by (cases ls) auto

lemma join_split_on: "join [c] (split_on c s) = s"
proof (induction s)
  case Nil
  then show ?case by simp
next
  case (Cons x xs)
  obtain l ls where ls: "split_on c xs = l # ls" by (cases "split_on c xs") auto
  show ?case
  proof (cases "x = c")
    case True
    with Cons show ?thesis by (simp add: join_Cons)
  next
    case False
    with Cons ls show ?thesis by (cases ls) auto
  qed
qed

lemma split_on_no_sep: "l \<in> set (split_on c s) \<Longrightarrow> c \<notin> set l"
  by (induction s arbitrary: l) (auto split: list.splits if_splits)

lemma set_split_on: "l \<in> set (split_on c s) \<Longrightarrow> set l \<subseteq> set s"
  by (induction s arbitrary: l) (fastforce split: list.splits if_splits)+

lemma split_on_piece: "c \<notin> set l \<Longrightarrow> split_on c l = [l]"
  by (induction l) auto

lemma split_on_append: "c \<notin> set l \<Longrightarrow> split_on c (l @ c # s) = l # split_on c s"
  by (induction l) auto

lemma split_on_join:
  "ls \<noteq> [] \<Longrightarrow> (\<And>l. l \<in> set ls \<Longrightarrow> c \<notin> set l) \<Longrightarrow> split_on c (join [c] ls) = ls"
proof (induction ls)
  case Nil
  then show ?case by simp
next
  case (Cons l ls)
  show ?case
  proof (cases "ls = []")
    case True
    with Cons.prems show ?thesis by (simp add: split_on_piece)
  next
    case False
    with Cons show ?thesis by (simp add: join_Cons split_on_append)
  qed
qed

lemma set_join: "set (join sep ls) \<subseteq> (\<Union>l \<in> set ls. set l) \<union> set sep"
  by (induction sep ls rule: join.induct) auto

lemma join_append:
  "xs \<noteq> [] \<Longrightarrow> join sep (xs @ ys) = join sep xs @ concat (map (\<lambda>y. sep @ y) ys)"
proof (induction xs)
  case (Cons x xs)
  have "join sep (x # ys) = x @ concat (map (\<lambda>y. sep @ y) ys)" for x
    by (induction ys arbitrary: x) (auto simp: join_Cons)
  with Cons show ?case by (cases xs) (auto simp: join_Cons)
qed simp

lemma join_Cons_concat: "join sep (x # ys) = x @ concat (map (\<lambda>y. sep @ y) ys)"
  using join_append [of "[x]" sep ys] by simp

section \<open>Numbers as text\<close>

definition digit_val :: "nat \<Rightarrow> char \<Rightarrow> nat option" where
  "digit_val radix c =
     (let v = (if is_ascii_digit c then code c - 48
               else if is_ascii_lowercase c then code c - 87
               else if is_ascii_uppercase c then code c - 55
               else radix)
      in if v < radix then Some v else None)"

fun digits_val :: "nat \<Rightarrow> nat \<Rightarrow> string \<Rightarrow> nat option" where
  "digits_val radix acc [] = Some acc"
| "digits_val radix acc (c # cs) =
     (case digit_val radix c of
        None \<Rightarrow> None
      | Some d \<Rightarrow> digits_val radix (acc * radix + d) cs)"

text \<open>\<open>uN::from_str_radix\<close>, and \<open>str::parse::<uN>\<close> at radix 10: an optional \<open>+\<close>, then at least
  one digit, refused on overflow of \<open>bits\<close>.\<close>

definition from_str_radix :: "nat \<Rightarrow> nat \<Rightarrow> string \<Rightarrow> nat option" where
  "from_str_radix bits radix s =
     (let ds = (case s of c # cs \<Rightarrow> if c = CHR ''+'' then cs else s | [] \<Rightarrow> [])
      in if ds = [] then None
         else (case digits_val radix 0 ds of
                 None \<Rightarrow> None
               | Some v \<Rightarrow> if v < 2 ^ bits then Some v else None))"

abbreviation parse_u64 :: "string \<Rightarrow> nat option" where
  "parse_u64 \<equiv> from_str_radix 64 10"

definition digit_char :: "nat \<Rightarrow> char" where
  "digit_char d = char_of (48 + d)"

fun show_nat :: "nat \<Rightarrow> string" where
  "show_nat n = (if n < 10 then [digit_char n] else show_nat (n div 10) @ [digit_char (n mod 10)])"

declare show_nat.simps [simp del]

lemma code_digit_char [simp]: "d < 10 \<Longrightarrow> code (digit_char d) = 48 + d"
  by (simp add: digit_char_def code_char_of)

lemma digit_val_digit_char [simp]: "d < 10 \<Longrightarrow> digit_val 10 (digit_char d) = Some d"
  by (simp add: digit_val_def is_ascii_digit_def)

lemma is_ascii_digit_digit_char [simp]: "d < 10 \<Longrightarrow> is_ascii_digit (digit_char d)"
  by (simp add: is_ascii_digit_def)

lemma digits_val_append:
  "digits_val r acc (xs @ ys) =
     (case digits_val r acc xs of None \<Rightarrow> None | Some a \<Rightarrow> digits_val r a ys)"
  by (induction xs arbitrary: acc) (auto split: option.splits)

lemma digits_val_show_nat: "digits_val 10 0 (show_nat n) = Some n"
proof (induction n rule: show_nat.induct)
  case (1 n)
  show ?case
  proof (cases "n < 10")
    case True
    then show ?thesis by (simp add: show_nat.simps [of n])
  next
    case False
    with "1.IH" show ?thesis
      by (simp add: show_nat.simps [of n] digits_val_append)
  qed
qed

lemma show_nat_digits: "c \<in> set (show_nat n) \<Longrightarrow> is_ascii_digit c"
proof (induction n rule: show_nat.induct)
  case (1 n)
  show ?case
  proof (cases "n < 10")
    case True
    with "1.prems" show ?thesis by (simp add: show_nat.simps [of n])
  next
    case False
    with "1.prems" have "c \<in> set (show_nat (n div 10)) \<or> c = digit_char (n mod 10)"
      by (auto simp: show_nat.simps [of n])
    with "1.IH" False show ?thesis by auto
  qed
qed

lemma show_nat_not_Nil [simp]: "show_nat n \<noteq> []"
  by (subst show_nat.simps) simp

lemma from_str_radix_digits:
  assumes "s \<noteq> []" and "hd s \<noteq> CHR ''+''"
  shows "from_str_radix bits r s =
     (case digits_val r 0 s of None \<Rightarrow> None | Some v \<Rightarrow> if v < 2 ^ bits then Some v else None)"
  using assms by (cases s) (auto simp: from_str_radix_def Let_def)

lemma from_str_radix_bound: "from_str_radix bits r s = Some v \<Longrightarrow> v < 2 ^ bits"
  by (auto simp: from_str_radix_def Let_def split: if_splits option.splits)

lemma plus_not_digit: "is_ascii_digit c \<Longrightarrow> c \<noteq> CHR ''+''"
  by (auto simp: is_ascii_digit_def code_def)

lemma parse_u64_show_nat: "n < 2 ^ 64 \<Longrightarrow> parse_u64 (show_nat n) = Some n"
proof -
  assume n: "n < 2 ^ 64"
  have "hd (show_nat n) \<noteq> CHR ''+''"
    by (metis hd_in_set plus_not_digit show_nat_digits show_nat_not_Nil)
  with n show ?thesis
    by (simp add: from_str_radix_digits digits_val_show_nat)
qed

lemma show_nat_inj: "show_nat m = show_nat n \<longleftrightarrow> m = n"
  by (metis digits_val_show_nat option.inject)

lemma digits_val_bound: "digits_val 10 acc s = Some v \<Longrightarrow> v < (acc + 1) * 10 ^ length s"
proof (induction s arbitrary: acc)
  case (Cons c s)
  then obtain x where x: "digit_val 10 c = Some x" and v: "digits_val 10 (acc * 10 + x) s = Some v"
    by (auto split: option.splits)
  from x have "x < 10" by (auto simp: digit_val_def Let_def split: if_splits)
  then have "acc * 10 + x + 1 \<le> (acc + 1) * 10" by simp
  then have "(acc * 10 + x + 1) * 10 ^ length s \<le> (acc + 1) * 10 * 10 ^ length s"
    by (rule mult_le_mono1)
  with Cons.IH [OF v] have "v < (acc + 1) * 10 * 10 ^ length s" by simp
  then show ?case by (simp add: algebra_simps)
qed simp

section \<open>UTF-8\<close>

text \<open>\<open>str::chars\<close> on the bytes of a \<open>str\<close> (the decoder of \<open>core::str\<close>, which trusts the bytes
  to be valid), and the validity check of \<open>str::from_utf8\<close>.\<close>

fun utf8_chars :: "string \<Rightarrow> nat list" where
  "utf8_chars [] = []"
| "utf8_chars (a # s) =
     (if code a < 128 then code a # utf8_chars s
      else (case s of
        [] \<Rightarrow> [code a]
      | b # s2 \<Rightarrow>
        if code a < 224 then (code a mod 32 * 64 + code b mod 64) # utf8_chars s2
        else (case s2 of
          [] \<Rightarrow> [code a]
        | c # s3 \<Rightarrow>
          if code a < 240
          then (code a mod 16 * 4096 + code b mod 64 * 64 + code c mod 64) # utf8_chars s3
          else (case s3 of
            [] \<Rightarrow> [code a]
          | d # s4 \<Rightarrow>
            (code a mod 8 * 262144 + code b mod 64 * 4096 + code c mod 64 * 64 + code d mod 64)
              # utf8_chars s4))))"

lemma utf8_chars_ascii: "(\<And>c. c \<in> set s \<Longrightarrow> code c < 128) \<Longrightarrow> utf8_chars s = map code s"
  by (induction s) auto

definition is_cont :: "char \<Rightarrow> bool" where
  "is_cont c \<longleftrightarrow> 128 \<le> code c \<and> code c \<le> 191"

fun valid_utf8 :: "string \<Rightarrow> bool" where
  "valid_utf8 [] = True"
| "valid_utf8 (a # s) =
     (if code a < 128 then valid_utf8 s
      else if 194 \<le> code a \<and> code a \<le> 223 then
        (case s of b # s2 \<Rightarrow> is_cont b \<and> valid_utf8 s2 | [] \<Rightarrow> False)
      else if 224 \<le> code a \<and> code a \<le> 239 then
        (case s of b # c # s3 \<Rightarrow>
           is_cont b \<and> is_cont c \<and> (code a = 224 \<longrightarrow> 160 \<le> code b)
             \<and> (code a = 237 \<longrightarrow> code b \<le> 159) \<and> valid_utf8 s3 | _ \<Rightarrow> False)
      else if 240 \<le> code a \<and> code a \<le> 244 then
        (case s of b # c # d # s4 \<Rightarrow>
           is_cont b \<and> is_cont c \<and> is_cont d \<and> (code a = 240 \<longrightarrow> 144 \<le> code b)
             \<and> (code a = 244 \<longrightarrow> code b \<le> 143) \<and> valid_utf8 s4 | _ \<Rightarrow> False)
      else False)"

lemma valid_utf8_ascii: "(\<And>c. c \<in> set s \<Longrightarrow> code c < 128) \<Longrightarrow> valid_utf8 s"
  by (induction s) auto

text \<open>\<open>char::is_control\<close> (category Cc) and \<open>char::is_whitespace\<close> (property White\_Space).\<close>

definition is_control :: "nat \<Rightarrow> bool" where
  "is_control c \<longleftrightarrow> c \<le> 31 \<or> (127 \<le> c \<and> c \<le> 159)"

definition is_whitespace :: "nat \<Rightarrow> bool" where
  "is_whitespace c \<longleftrightarrow> (9 \<le> c \<and> c \<le> 13) \<or> c = 32 \<or> c = 133 \<or> c = 160 \<or> c = 5760
     \<or> (8192 \<le> c \<and> c \<le> 8202) \<or> c = 8232 \<or> c = 8233 \<or> c = 8239 \<or> c = 8287 \<or> c = 12288"

definition encode_bmp :: "nat \<Rightarrow> string" where
  "encode_bmp c =
     (if c < 128 then [char_of c]
      else if c < 2048 then [char_of (192 + c div 64), char_of (128 + c mod 64)]
      else [char_of (224 + c div 4096), char_of (128 + c div 64 mod 64), char_of (128 + c mod 64)])"

text \<open>The UTF-8 encodings of the white-space characters; \<open>str::trim\<close> removes them at both ends.\<close>

definition ws_encodings :: "string list" where
  "ws_encodings = map encode_bmp
     [9, 10, 11, 12, 13, 32, 133, 160, 5760, 8192, 8193, 8194, 8195, 8196, 8197, 8198, 8199,
      8200, 8201, 8202, 8232, 8233, 8239, 8287, 12288]"

fun strip_any :: "string list \<Rightarrow> string \<Rightarrow> string option" where
  "strip_any [] s = None"
| "strip_any (p # ps) s = (case strip_prefix p s of Some r \<Rightarrow> Some r | None \<Rightarrow> strip_any ps s)"

fun trim_with :: "string list \<Rightarrow> string \<Rightarrow> string" where
  "trim_with ps s =
     (case strip_any ps s of
        Some r \<Rightarrow> if length r < length s then trim_with ps r else s
      | None \<Rightarrow> s)"

declare trim_with.simps [simp del]

definition trim :: "string \<Rightarrow> string" where
  "trim s = rev (trim_with (map rev ws_encodings) (rev (trim_with ws_encodings s)))"

text \<open>\<open>str::lines\<close>: split on line feeds, a trailing empty piece dropped, one trailing carriage
  return per line removed.\<close>

definition chomp_cr :: "string \<Rightarrow> string" where
  "chomp_cr l = (if l \<noteq> [] \<and> last l = CHR 13 then butlast l else l)"

definition lines :: "string \<Rightarrow> string list" where
  "lines s = map chomp_cr
     (let ps = split_on (CHR 10) s in if last ps = [] then butlast ps else ps)"

text \<open>Bytes of a string, and the string a byte list spells.\<close>

definition as_bytes :: "string \<Rightarrow> bytes" where
  "as_bytes s = map (\<lambda>c. word_of_nat (code c)) s"

definition of_bytes :: "bytes \<Rightarrow> string" where
  "of_bytes bs = map (\<lambda>b. char_of (unat b)) bs"

lemma length_as_bytes [simp]: "length (as_bytes s) = length s"
  by (simp add: as_bytes_def)

lemma of_bytes_as_bytes [simp]: "of_bytes (as_bytes s) = s"
proof -
  have "char_of (unat (word_of_nat (code c) :: byte)) = c" for c
    by (simp add: unat_of_nat code_def)
  then show ?thesis by (simp add: of_bytes_def as_bytes_def map_idI)
qed

lemma as_bytes_inj: "as_bytes s = as_bytes t \<longleftrightarrow> s = t"
  by (metis of_bytes_as_bytes)

section \<open>Lists\<close>

fun max_by_key :: "('a \<Rightarrow> nat) \<Rightarrow> 'a list \<Rightarrow> 'a option" where
  "max_by_key f [] = None"
| "max_by_key f (x # xs) =
     (case max_by_key f xs of None \<Rightarrow> Some x | Some y \<Rightarrow> if f y < f x then Some x else Some y)"

fun min_by_key :: "('a \<Rightarrow> nat) \<Rightarrow> 'a list \<Rightarrow> 'a option" where
  "min_by_key f [] = None"
| "min_by_key f (x # xs) =
     (case min_by_key f xs of None \<Rightarrow> Some x | Some y \<Rightarrow> if f x \<le> f y then Some x else Some y)"

text \<open>\<open>iter_mut().find(p)\<close> followed by an assignment through the reference.\<close>

fun update_first :: "('a \<Rightarrow> bool) \<Rightarrow> ('a \<Rightarrow> 'a) \<Rightarrow> 'a list \<Rightarrow> 'a list" where
  "update_first p f [] = []"
| "update_first p f (x # xs) = (if p x then f x # xs else x # update_first p f xs)"

lemma max_by_key_None [simp]: "max_by_key f xs = None \<longleftrightarrow> xs = []"
  by (cases xs) (auto split: option.splits)

lemma max_by_key_Some:
  "max_by_key f xs = Some x \<Longrightarrow> x \<in> set xs \<and> (\<forall>y \<in> set xs. f y \<le> f x)"
proof (induction xs arbitrary: x)
  case (Cons a xs)
  show ?case
  proof (cases "max_by_key f xs")
    case None
    with Cons.prems show ?thesis by simp
  next
    case (Some y)
    with Cons.IH have "y \<in> set xs" and "\<forall>z \<in> set xs. f z \<le> f y" by auto
    with Some Cons.prems show ?thesis by (auto split: if_splits)
  qed
qed simp

lemma length_update_first [simp]: "length (update_first p f xs) = length xs"
  by (induction xs) auto

lemma map_update_first:
  "(\<And>x. g (f x) = g x) \<Longrightarrow> map g (update_first p f xs) = map g xs"
  by (induction xs) auto

lemma update_first_distinct:
  "distinct (map g xs) \<Longrightarrow>
   update_first (\<lambda>x. g x = k) f xs = map (\<lambda>x. if g x = k then f x else x) xs"
proof (induction xs)
  case (Cons x xs)
  show ?case
  proof (cases "g x = k")
    case True
    with Cons.prems have "map (\<lambda>x. if g x = k then f x else x) xs = xs"
      by (intro map_idI) (auto simp: image_iff)
    with True show ?thesis by simp
  next
    case False
    with Cons show ?thesis by simp
  qed
qed simp

lemma in_set_update_first:
  "y \<in> set (update_first p f xs) \<Longrightarrow> y \<in> set xs \<or> (\<exists>x \<in> set xs. p x \<and> y = f x)"
  by (induction xs) (auto split: if_splits)

lemma update_first_id: "(\<And>x. x \<in> set xs \<Longrightarrow> \<not> p x) \<Longrightarrow> update_first p f xs = xs"
  by (induction xs) auto

lemma last_map_nonempty: "xs \<noteq> [] \<Longrightarrow> last (map f xs) = f (last xs)"
  by (rule last_map)

lemma length_filter_le_imp:
  "(\<And>x. x \<in> set xs \<Longrightarrow> P x \<Longrightarrow> Q x) \<Longrightarrow> length (filter P xs) \<le> length (filter Q xs)"
  by (induction xs) (auto simp: le_SucI)

lemma find_Some_mem: "find P xs = Some x \<Longrightarrow> x \<in> set xs \<and> P x"
  by (induction xs) (auto split: if_splits)

section \<open>Ordered maps and bounded sets\<close>

text \<open>A \<open>BTreeMap\<close>: an association list in ascending key order.\<close>

fun bt_insert :: "'k::linorder \<Rightarrow> 'v \<Rightarrow> ('k \<times> 'v) list \<Rightarrow> ('k \<times> 'v) list" where
  "bt_insert k v [] = [(k, v)]"
| "bt_insert k v ((k', v') # m) =
     (if k < k' then (k, v) # (k', v') # m
      else if k = k' then (k, v) # m
      else (k', v') # bt_insert k v m)"

definition bt_get :: "'k \<Rightarrow> ('k \<times> 'v) list \<Rightarrow> 'v option" where
  "bt_get k m = map_of m k"

definition bt_remove :: "'k \<Rightarrow> ('k \<times> 'v) list \<Rightarrow> ('k \<times> 'v) list" where
  "bt_remove k m = filter (\<lambda>(k', v). k' \<noteq> k) m"

definition bt_wf :: "('k::linorder \<times> 'v) list \<Rightarrow> bool" where
  "bt_wf m \<longleftrightarrow> sorted_wrt (<) (map fst m)"

definition bt_keys :: "('k \<times> 'v) list \<Rightarrow> 'k list" where
  "bt_keys m = map fst m"

locale ordered_map =
  fixes empty :: "'m"
    and insert :: "'k \<Rightarrow> 'v \<Rightarrow> 'm \<Rightarrow> 'm"
    and remove :: "'k \<Rightarrow> 'm \<Rightarrow> 'm"
    and get :: "'k \<Rightarrow> 'm \<Rightarrow> 'v option"
    and invar :: "'m \<Rightarrow> bool"
  assumes get_empty: "get k empty = None"
    and get_insert: "invar m \<Longrightarrow> get k' (insert k v m) = (if k' = k then Some v else get k' m)"
    and get_remove: "get k' (remove k m) = (if k' = k then None else get k' m)"
    and invar_empty: "invar empty"
    and invar_insert: "invar m \<Longrightarrow> invar (insert k v m)"
    and invar_remove: "invar m \<Longrightarrow> invar (remove k m)"
begin

text \<open>Taking an entry out is single-use: a second take finds nothing, and other keys keep
  their entries.\<close>

definition take :: "'k \<Rightarrow> 'm \<Rightarrow> 'v option \<times> 'm" where
  "take k m = (get k m, remove k m)"

lemma take_twice: "fst (take k (snd (take k m))) = None"
  by (simp add: take_def get_remove)

lemma take_other: "k' \<noteq> k \<Longrightarrow> fst (take k' (snd (take k m))) = fst (take k' m)"
  by (simp add: take_def get_remove)

lemma get_reinsert: "invar m \<Longrightarrow> get k' (insert k v (remove k m)) = (if k' = k then Some v else get k' m)"
  by (simp add: get_insert get_remove invar_remove)

end

lemma bt_wf_Nil [simp]: "bt_wf []"
  by (simp add: bt_wf_def)

lemma bt_wf_distinct: "bt_wf m \<Longrightarrow> distinct (map fst m)"
  unfolding bt_wf_def by (simp add: strict_sorted_iff)

lemma fst_set_bt_insert: "fst ` set (bt_insert k v m) = insert k (fst ` set m)"
  by (induction k v m rule: bt_insert.induct) auto

lemma bt_wf_insert: "bt_wf m \<Longrightarrow> bt_wf (bt_insert k v m)"
proof (induction k v m rule: bt_insert.induct)
  case (2 k v k' v' m)
  then show ?case
    by (fastforce simp: bt_wf_def fst_set_bt_insert)
qed (simp add: bt_wf_def)

lemma bt_wf_filter: "bt_wf m \<Longrightarrow> bt_wf (filter P m)"
  unfolding bt_wf_def by (induction m) auto

lemma bt_wf_remove: "bt_wf m \<Longrightarrow> bt_wf (bt_remove k m)"
  unfolding bt_remove_def by (rule bt_wf_filter)

lemma bt_get_insert:
  "bt_wf m \<Longrightarrow> bt_get k' (bt_insert k v m) = (if k' = k then Some v else bt_get k' m)"
proof (induction k v m rule: bt_insert.induct)
  case (2 k v k'' v'' m)
  then show ?case by (auto simp: bt_get_def bt_wf_def)
qed (simp add: bt_get_def)

lemma bt_get_remove: "bt_get k' (bt_remove k m) = (if k' = k then None else bt_get k' m)"
  by (induction m) (auto simp: bt_get_def bt_remove_def)

interpretation bt: ordered_map "[]" bt_insert bt_remove bt_get bt_wf
  by unfold_locales (auto simp: bt_get_insert bt_get_remove bt_wf_insert bt_wf_remove, simp add: bt_get_def)

lemma bt_get_iff: "bt_wf m \<Longrightarrow> bt_get k m = Some v \<longleftrightarrow> (k, v) \<in> set m"
  using bt_wf_distinct [of m] by (simp add: bt_get_def)

lemma bt_get_None: "bt_get k m = None \<longleftrightarrow> k \<notin> fst ` set m"
  by (simp add: bt_get_def map_of_eq_None_iff)

lemma set_bt_insert: "set (bt_insert k v m) \<subseteq> insert (k, v) (set m)"
  by (induction k v m rule: bt_insert.induct) auto

lemma set_bt_remove: "set (bt_remove k m) \<subseteq> set m"
  by (auto simp: bt_remove_def)

lemma set_bt_insert_eq: "bt_wf m \<Longrightarrow> set (bt_insert k v m) = insert (k, v) {e \<in> set m. fst e \<noteq> k}"
proof -
  assume m: "bt_wf m"
  have "e \<in> set (bt_insert k v m) \<longleftrightarrow> e \<in> insert (k, v) {e \<in> set m. fst e \<noteq> k}" for e
    using bt_get_iff [OF bt_wf_insert [OF m], of "fst e" k v "snd e"] bt_get_iff [OF m, of "fst e" "snd e"]
      bt_get_insert [OF m, of "fst e" k v] by (cases e) (auto split: if_splits)
  then show ?thesis by blast
qed

lemma length_bt_insert:
  "bt_wf m \<Longrightarrow> length (bt_insert k v m) = (if k \<in> fst ` set m then length m else Suc (length m))"
proof -
  assume m: "bt_wf m"
  have len: "bt_wf n \<Longrightarrow> length n = card (fst ` set n)" for n :: "('a \<times> 'b) list"
    using bt_wf_distinct [of n] distinct_card [of "map fst n"] by simp
  show ?thesis
    using len [OF m] len [OF bt_wf_insert [OF m], of k v] by (simp add: fst_set_bt_insert card_insert_if)
qed

lemma length_bt_remove: "k \<in> fst ` set m \<Longrightarrow> length (bt_remove k m) < length m"
  unfolding bt_remove_def by (auto intro: length_filter_less)

lemma min_by_key_None [simp]: "min_by_key f xs = None \<longleftrightarrow> xs = []"
  by (cases xs) (auto split: option.splits)

lemma min_by_key_Some: "min_by_key f xs = Some x \<Longrightarrow> x \<in> set xs \<and> (\<forall>y\<in>set xs. f x \<le> f y)"
proof (induction xs arbitrary: x)
  case (Cons a xs)
  show ?case
  proof (cases "min_by_key f xs")
    case None
    with Cons.prems show ?thesis by simp
  next
    case (Some y)
    with Cons.IH have "y \<in> set xs" and "\<forall>z\<in>set xs. f y \<le> f z" by auto
    with Some Cons.prems show ?thesis by (auto split: if_splits)
  qed
qed simp

text \<open>A \<open>BTreeSet\<close> that keeps its largest \<open>cap\<close> elements: insert, then \<open>pop_first\<close> while it is
  longer than \<open>cap\<close>.\<close>

fun pop_first_to :: "nat \<Rightarrow> 'a list \<Rightarrow> 'a list" where
  "pop_first_to cap [] = []"
| "pop_first_to cap (x # xs) = (if cap < length (x # xs) then pop_first_to cap xs else x # xs)"

lemma pop_first_to_drop: "pop_first_to cap xs = drop (length xs - cap) xs"
  by (induction cap xs rule: pop_first_to.induct) (auto simp: Suc_diff_le not_less)

lemma length_pop_first_to: "length (pop_first_to cap xs) = min cap (length xs)"
  by (simp add: pop_first_to_drop)

lemma set_pop_first_to: "set (pop_first_to cap xs) \<subseteq> set xs"
  by (simp add: pop_first_to_drop set_drop_subset)

lemma sorted_pop_first_to: "sorted xs \<Longrightarrow> sorted (pop_first_to cap xs)"
  by (simp add: pop_first_to_drop sorted_wrt_drop)

lemma distinct_pop_first_to: "distinct xs \<Longrightarrow> distinct (pop_first_to cap xs)"
  by (simp add: pop_first_to_drop)

lemma pop_first_to_keeps_max:
  assumes "sorted xs" and "x \<in> set xs" and "\<And>y. y \<in> set xs \<Longrightarrow> y \<le> x" and "0 < cap"
  shows "x \<in> set (pop_first_to cap xs)"
proof -
  from assms(2) have ne: "xs \<noteq> []" by auto
  have "last xs = x"
    using assms(1-3) ne
    by (induction xs rule: rev_induct) (auto simp: sorted_append intro: order_antisym)
  moreover have "last (pop_first_to cap xs) = last xs" and "pop_first_to cap xs \<noteq> []"
    using ne assms(4) by (auto simp: pop_first_to_drop neq_Nil_conv)
  ultimately show ?thesis by (metis last_in_set)
qed

end
