(* ===== verification/Externals.thy ===== *)
theory Externals
  imports Prelude
begin

text \<open>
  The third-party crates the modelled files call, as one record of parameters: every definition
  that reaches \<open>hex\<close>, \<open>sha3\<close>, \<open>sha2\<close>, \<open>hmac\<close>, \<open>url\<close> or \<open>serde_json\<close> takes the record \<open>X\<close> and applies its
  field. What a theorem relies on of such a crate is one of the named predicates below
  (\<open>hex_law\<close>, \<open>digest_law\<close>, \<open>https_origin_law\<close>), which state documented behaviour.
  \<open>ref_with m\<close> is a concrete instance (extended by further parameters \<open>m\<close>) on which the laws hold; the witnesses use it.
\<close>

text \<open>The chain of this network, which several files name.\<close>

definition CITRATE_CHAIN_ID :: nat where "CITRATE_CHAIN_ID = 40204"

section \<open>Data of the crates\<close>

text \<open>\<open>serde_json::Value\<close>. A number is kept as the two things the code reads of it: its value as a
  \<open>u64\<close>, if it is one, and its text.\<close>

datatype Value =
    VNull
  | VBool bool
  | VNumber "nat option" string
  | VString string
  | VArray "Value list"
  | VObject "(string \<times> Value) list"

definition value_get :: "Value \<Rightarrow> string \<Rightarrow> Value option" where
  "value_get v k = (case v of VObject kvs \<Rightarrow> map_of kvs k | _ \<Rightarrow> None)"

definition as_str :: "Value \<Rightarrow> string option" where
  "as_str v = (case v of VString s \<Rightarrow> Some s | _ \<Rightarrow> None)"

definition as_array :: "Value \<Rightarrow> Value list option" where
  "as_array v = (case v of VArray vs \<Rightarrow> Some vs | _ \<Rightarrow> None)"

definition as_object :: "Value \<Rightarrow> (string \<times> Value) list option" where
  "as_object v = (case v of VObject kvs \<Rightarrow> Some kvs | _ \<Rightarrow> None)"

text \<open>\<open>url::Url\<close>, by the accessors the code calls.\<close>

datatype Host = Domain string | Ipv4 nat | Ipv6 nat

datatype Origin = OpaqueOrigin nat | TupleOrigin string Host nat

record Url =
  url_scheme :: string
  url_username :: string
  url_password :: "string option"
  url_path :: string
  url_query :: "string option"
  url_fragment :: "string option"
  url_host :: "Host option"
  url_port :: "nat option"
  url_origin :: Origin

section \<open>The parameters\<close>

record deps =
  hex_encode :: "bytes \<Rightarrow> string"
  hex_decode :: "string \<Rightarrow> bytes option"
  keccak :: "bytes \<Rightarrow> bytes"
  sha256 :: "bytes \<Rightarrow> bytes"
  hmac_sha256 :: "bytes \<Rightarrow> bytes \<Rightarrow> bytes option"
  url_parse :: "string \<Rightarrow> Url option"
  json_from_str :: "string \<Rightarrow> Value option"
  json_to_string :: "Value \<Rightarrow> string"

definition hex_law :: "'x deps_scheme \<Rightarrow> bool" where
  "hex_law X \<longleftrightarrow>
     (\<forall>bs. hex_decode X (hex_encode X bs) = Some bs) \<and>
     (\<forall>bs. length (hex_encode X bs) = 2 * length bs) \<and>
     (\<forall>s bs. hex_decode X s = Some bs \<longrightarrow> length s = 2 * length bs) \<and>
     (\<forall>s bs. hex_decode X s = Some bs \<longrightarrow> hex_encode X bs = to_ascii_lowercase s)"

definition digest_law :: "'x deps_scheme \<Rightarrow> bool" where
  "digest_law X \<longleftrightarrow> (\<forall>bs. length (keccak X bs) = 32) \<and> (\<forall>bs. length (sha256 X bs) = 32)"

text \<open>An https URL's origin is the tuple of its scheme, its host and its port, 443 by default.\<close>

definition https_origin_law :: "'x deps_scheme \<Rightarrow> bool" where
  "https_origin_law X \<longleftrightarrow>
     (\<forall>s u h. url_parse X s = Some u \<and> url_scheme u = ''https'' \<and> url_host u = Some h \<longrightarrow>
        url_origin u = TupleOrigin ''https'' h (case url_port u of Some p \<Rightarrow> p | None \<Rightarrow> 443))"

lemma hex_lawD:
  assumes "hex_law X"
  shows hex_roundtrip: "hex_decode X (hex_encode X bs) = Some bs"
    and hex_encode_length: "length (hex_encode X bs) = 2 * length bs"
    and hex_decode_length: "hex_decode X s = Some bs \<Longrightarrow> length s = 2 * length bs"
    and hex_decode_encode: "hex_decode X s = Some bs \<Longrightarrow> hex_encode X bs = to_ascii_lowercase s"
  using assms by (auto simp: hex_law_def)

lemma hex_encode_inj: "hex_law X \<Longrightarrow> hex_encode X a = hex_encode X b \<longleftrightarrow> a = b"
  by (metis hex_roundtrip option.inject)

section \<open>A concrete instance\<close>

definition nibble_char :: "nat \<Rightarrow> char" where
  "nibble_char n = (if n < 10 then char_of (48 + n) else char_of (87 + n))"

fun hex_encode_ref :: "bytes \<Rightarrow> string" where
  "hex_encode_ref [] = []"
| "hex_encode_ref (b # bs) =
     nibble_char (unat b div 16) # nibble_char (unat b mod 16) # hex_encode_ref bs"

fun hex_decode_ref :: "string \<Rightarrow> bytes option" where
  "hex_decode_ref [] = Some []"
| "hex_decode_ref [c] = None"
| "hex_decode_ref (c # d # s) =
     (case (digit_val 16 c, digit_val 16 d, hex_decode_ref s) of
        (Some h, Some l, Some bs) \<Rightarrow> Some (word_of_nat (h * 16 + l) # bs)
      | _ \<Rightarrow> None)"

text \<open>A stand-in digest: the first 32 bytes of the input behind its length, padded with zeros.\<close>

definition digest_ref :: "bytes \<Rightarrow> bytes" where
  "digest_ref bs = take 32 (word_of_nat (length bs) # bs @ replicate 32 0)"

text \<open>A stand-in for \<open>Url::parse\<close> that knows two URLs of one origin.\<close>

definition url_ref :: "string \<Rightarrow> Url" where
  "url_ref path =
     \<lparr>url_scheme = ''https'', url_username = [], url_password = None, url_path = path,
      url_query = None, url_fragment = None, url_host = Some (Domain ''app.example''),
      url_port = None, url_origin = TupleOrigin ''https'' (Domain ''app.example'') 443\<rparr>"

definition url_parse_ref :: "string \<Rightarrow> Url option" where
  "url_parse_ref s =
     (if s = ''https://app.example'' \<or> s = ''https://app.example/'' then Some (url_ref ''/'')
      else if s = ''https://app.example/login'' then Some (url_ref ''/login'')
      else None)"

fun json_to_string_ref :: "Value \<Rightarrow> string" where
  "json_to_string_ref VNull = ''null''"
| "json_to_string_ref (VBool b) = (if b then ''true'' else ''false'')"
| "json_to_string_ref (VNumber n t) = t"
| "json_to_string_ref (VString s) = CHR 34 # s @ [CHR 34]"
| "json_to_string_ref (VArray vs) = ''['' @ concat (map (\<lambda>v. json_to_string_ref v @ '','') vs) @ '']''"
| "json_to_string_ref (VObject kvs) = ''{}''"

definition ref_with :: "'x \<Rightarrow> 'x deps_scheme" where
  "ref_with m =
     \<lparr>hex_encode = hex_encode_ref, hex_decode = hex_decode_ref, keccak = digest_ref,
      sha256 = digest_ref, hmac_sha256 = (\<lambda>k b. Some (digest_ref (k @ b))),
      url_parse = url_parse_ref, json_from_str = (\<lambda>s. None), json_to_string = json_to_string_ref,
      \<dots> = m\<rparr>"

abbreviation ref_deps :: deps where "ref_deps \<equiv> ref_with ()"

lemma ref_deps_simps [simp]:
  "hex_encode (ref_with m) = hex_encode_ref" "hex_decode (ref_with m) = hex_decode_ref"
  "keccak (ref_with m) = digest_ref" "sha256 (ref_with m) = digest_ref"
  "hmac_sha256 (ref_with m) = (\<lambda>k b. Some (digest_ref (k @ b)))"
  "url_parse (ref_with m) = url_parse_ref"
  "json_from_str (ref_with m) = (\<lambda>s. None)" "json_to_string (ref_with m) = json_to_string_ref"
  "deps.more (ref_with m) = m"
  by (simp_all add: ref_with_def)

lemma digit_val_nibble: "n < 16 \<Longrightarrow> digit_val 16 (nibble_char n) = Some n"
  by (auto simp: nibble_char_def digit_val_def ascii_defs code_char_of Let_def)

lemma digit_val_16:
  assumes "digit_val 16 c = Some v"
  shows "v < 16 \<and> nibble_char v = lower_char c"
proof -
  from assms have v: "v < 16" by (auto simp: digit_val_def Let_def split: if_splits)
  from assms v have "code (nibble_char v) = code (lower_char c)"
    by (auto simp: digit_val_def Let_def nibble_char_def code_lower_char ascii_defs code_char_of
        split: if_splits)
  with v show ?thesis by (simp add: code_inj)
qed

lemma unat_byte: "n < 256 \<Longrightarrow> unat (word_of_nat n :: byte) = n"
  by (simp add: unat_of_nat)

lemma unat_byte_less: "unat (b :: byte) < 256"
  using unsigned_less [of b] by simp

lemma hex_decode_encode_ref: "hex_decode_ref (hex_encode_ref bs) = Some bs"
proof (induction bs)
  case (Cons b bs)
  have "unat b div 16 < 16" using unat_byte_less [of b] by simp
  then show ?case using Cons by (simp add: digit_val_nibble)
qed simp

lemma hex_decode_ref_lower:
  "hex_decode_ref s = Some bs \<Longrightarrow> hex_encode_ref bs = to_ascii_lowercase s \<and> length s = 2 * length bs"
proof (induction s arbitrary: bs rule: hex_decode_ref.induct)
  case (3 c d s)
  then obtain h l bs' where h: "digit_val 16 c = Some h" and l: "digit_val 16 d = Some l"
    and bs: "hex_decode_ref s = Some bs'" "bs = word_of_nat (h * 16 + l) # bs'"
    by (auto split: option.splits)
  have hl: "h < 16" "l < 16" "nibble_char h = lower_char c" "nibble_char l = lower_char d"
    using digit_val_16 h l by auto
  then have "h * 16 + l < 256" by simp
  with hl have "unat (word_of_nat (h * 16 + l) :: byte) div 16 = h"
    "unat (word_of_nat (h * 16 + l) :: byte) mod 16 = l"
    by (simp_all only: unat_byte) simp_all
  with "3.IH" h l bs hl show ?case
    by (auto simp: to_ascii_lowercase_def)
qed (auto simp: to_ascii_lowercase_def)

lemma length_hex_encode_ref: "length (hex_encode_ref bs) = 2 * length bs"
  by (induction bs) auto

lemma hex_law_ref: "hex_law (ref_with m)"
  by (auto simp: hex_law_def hex_decode_encode_ref length_hex_encode_ref dest: hex_decode_ref_lower)

lemma length_digest_ref [simp]: "length (digest_ref bs) = 32"
  by (simp add: digest_ref_def)

lemma digest_law_ref: "digest_law (ref_with m)"
  by (simp add: digest_law_def)

lemma https_origin_law_ref: "https_origin_law (ref_with m)"
  by (auto simp: https_origin_law_def url_parse_ref_def url_ref_def split: if_splits)

end
