(* ===== verification/Rfc3339.thy ===== *)
theory Rfc3339
  imports Prelude
begin

text \<open>
  The calendar arithmetic of \<open>kit/src/siwe.rs\<close> (\<open>parse_rfc3339_ms\<close>, \<open>is_leap\<close>, \<open>days_in_month\<close>,
  \<open>days_from_civil\<close>) and of \<open>kit/src/web_budget.rs\<close> (\<open>fmt_ms\<close>). The two files carry the two
  directions of the same day count, so they are proved against each other here: the day count
  advances by one from each calendar day to the next, stays in the range of a 64-bit count of
  milliseconds, and the formatter's date is the date the parser counted.
\<close>

section \<open>Day numbers\<close>

definition is_leap :: "int \<Rightarrow> bool" where
  "is_leap y \<longleftrightarrow> (y mod 4 = 0 \<and> y mod 100 \<noteq> 0) \<or> y mod 400 = 0"

definition days_in_month :: "int \<Rightarrow> int \<Rightarrow> int" where
  "days_in_month y m =
     (if m \<in> {1, 3, 5, 7, 8, 10, 12} then 31
      else if m \<in> {4, 6, 9, 11} then 30
      else if m = 2 \<and> is_leap y then 29
      else 28)"

text \<open>All quotients below are of non-negative numbers, except the era of a year before 0, where
  the source subtracts 399 first; \<open>tdiv\<close> is Rust's truncating \<open>/\<close>.\<close>

definition days_from_civil :: "int \<Rightarrow> int \<Rightarrow> int \<Rightarrow> int" where
  "days_from_civil y0 m d =
     (let y = (if m \<le> 2 then y0 - 1 else y0);
          era = tdiv (if y \<ge> 0 then y else y - 399) 400;
          yoe = y - era * 400;
          mp = (m + 9) mod 12;
          doy = tdiv (153 * mp + 2) 5 + d - 1;
          doe = yoe * 365 + tdiv yoe 4 - tdiv yoe 100 + doy
      in era * 146097 + doe - 719468)"

section \<open>Parsing\<close>

definition num :: "string \<Rightarrow> nat \<Rightarrow> nat \<Rightarrow> int option" where
  "num s a b =
     (if b \<le> length s then
        (let part = take (b - a) (drop a s) in
         if list_all is_ascii_digit part
         then map_option int (from_str_radix 63 10 part)
         else None)
      else None)"

definition parse_offset :: "string \<Rightarrow> nat \<Rightarrow> int option" where
  "parse_offset s idx =
     (if idx < length s \<and> (s ! idx = CHR ''Z'' \<or> s ! idx = CHR ''z'') \<and> idx + 1 = length s
      then Some 0
      else if idx < length s \<and> (s ! idx = CHR ''+'' \<or> s ! idx = CHR ''-'')
           \<and> idx + 6 = length s \<and> s ! (idx + 3) = CHR '':''
      then (case (num s (idx + 1) (idx + 3), num s (idx + 4) (idx + 6)) of
              (Some oh, Some om) \<Rightarrow>
                if oh > 23 \<or> om > 59 then None
                else (let m = oh * 60 + om in Some (if s ! idx = CHR ''+'' then m else - m))
            | _ \<Rightarrow> None)
      else None)"

definition parse_fraction :: "string \<Rightarrow> (nat \<times> int) option" where
  "parse_fraction s =
     (if 19 < length s \<and> s ! 19 = CHR ''.'' then
        (let frac = takeWhile is_ascii_digit (drop 20 s); digits = length frac in
         if digits = 0 \<or> digits > 9 then None
         else map_option (\<lambda>ms. (20 + digits, int ms))
                (from_str_radix 63 10 (take 3 (frac @ ''000''))))
      else Some (19, 0))"

text \<open>The instant, in milliseconds, of a day number, a time of day and an offset.\<close>

definition epoch_ms :: "int \<Rightarrow> int \<Rightarrow> int \<Rightarrow> int \<Rightarrow> int \<Rightarrow> int \<Rightarrow> int" where
  "epoch_ms days h mi se offset_min ms =
     (let secs = days * 86400 + h * 3600 + mi * 60 + se - offset_min * 60
      in secs * 1000 + ms)"

definition parse_rfc3339_ms :: "string \<Rightarrow> int option" where
  "parse_rfc3339_ms s =
     (if length s < 20 then None
      else if s ! 4 \<noteq> CHR ''-'' \<or> s ! 7 \<noteq> CHR ''-''
           \<or> (s ! 10 \<noteq> CHR ''T'' \<and> s ! 10 \<noteq> CHR ''t'')
           \<or> s ! 13 \<noteq> CHR '':'' \<or> s ! 16 \<noteq> CHR '':'' then None
      else (case (num s 0 4, num s 5 7, num s 8 10, num s 11 13, num s 14 16, num s 17 19) of
        (Some y, Some mo, Some d, Some h, Some mi, Some se) \<Rightarrow>
          if mo < 1 \<or> mo > 12 \<or> d < 1 \<or> d > days_in_month y mo \<or> h > 23 \<or> mi > 59 \<or> se > 59
          then None
          else (case parse_fraction s of
            None \<Rightarrow> None
          | Some (idx, ms) \<Rightarrow>
            (case parse_offset s idx of
              None \<Rightarrow> None
            | Some offset_min \<Rightarrow>
              Some (epoch_ms (days_from_civil y mo d) h mi se offset_min ms)))
      | _ \<Rightarrow> None))"

section \<open>Formatting\<close>

text \<open>The date part of \<open>fmt_ms\<close>: year, month and day of a day number (the inverse computation).\<close>

definition civil_from_days :: "int \<Rightarrow> int \<times> int \<times> int" where
  "civil_from_days days =
     (let z = days + 719468;
          era = z div 146097;
          doe = z - era * 146097;
          yoe = tdiv (doe - tdiv doe 1460 + tdiv doe 36524 - tdiv doe 146096) 365;
          doy = doe - (365 * yoe + tdiv yoe 4 - tdiv yoe 100);
          mp = tdiv (5 * doy + 2) 153;
          d = doy - tdiv (153 * mp + 2) 5 + 1;
          m = (if mp < 10 then mp + 3 else mp - 9);
          y = yoe + era * 400 + (if m \<le> 2 then 1 else 0)
      in (y, m, d))"

definition pad_left :: "nat \<Rightarrow> string \<Rightarrow> string" where
  "pad_left w s = replicate (w - length s) (CHR ''0'') @ s"

definition fmt_ms :: "nat \<Rightarrow> string" where
  "fmt_ms ms =
     (let secs = int (ms div 1000);
          days = secs div 86400;
          rem = secs mod 86400;
          (y, m, d) = civil_from_days days
      in pad_left 4 (show_nat (nat y)) @ ''-'' @ pad_left 2 (show_nat (nat m)) @ ''-''
         @ pad_left 2 (show_nat (nat d)) @ '' '' @ pad_left 2 (show_nat (nat (rem div 3600)))
         @ '':'' @ pad_left 2 (show_nat (nat (rem mod 3600 div 60))) @ '' UTC'')"

section \<open>Facts\<close>

definition valid_date :: "int \<Rightarrow> int \<Rightarrow> int \<Rightarrow> bool" where
  "valid_date y m d \<longleftrightarrow> 0 \<le> y \<and> 1 \<le> m \<and> m \<le> 12 \<and> 1 \<le> d \<and> d \<le> days_in_month y m"

text \<open>The calendar's own definition of the next day.\<close>

definition next_day :: "int \<times> int \<times> int \<Rightarrow> int \<times> int \<times> int" where
  "next_day = (\<lambda>(y, m, d).
     if d < days_in_month y m then (y, m, d + 1)
     else if m < 12 then (y, m + 1, 1)
     else (y + 1, 1, 1))"

lemma month_cases:
  "1 \<le> (m::int) \<Longrightarrow> m \<le> 12 \<Longrightarrow>
   m = 1 \<or> m = 2 \<or> m = 3 \<or> m = 4 \<or> m = 5 \<or> m = 6 \<or> m = 7 \<or> m = 8 \<or> m = 9 \<or> m = 10 \<or> m = 11 \<or> m = 12"
  by arith

lemma tdiv_era: "tdiv (if y \<ge> 0 then y else y - 399) 400 = y div 400"
proof (cases "y \<ge> 0")
  case True
  then show ?thesis by (simp add: tdiv_nonneg)
next
  case False
  then have "tdiv (y - 399) 400 = - ((399 - y) div 400)"
    by (simp add: tdiv_def)
  also have "399 - y = - (y div 400) * 400 + (399 - y mod 400)"
    by (simp add: algebra_simps minus_mod_eq_mult_div [symmetric])
  then have "399 - y = 400 * (- (y div 400)) + (399 - y mod 400)" by simp
  then have "(399 - y) div 400 = - (y div 400)"
    by (rule int_div_pos_eq) simp_all
  then have "- ((399 - y) div 400) = y div 400" by simp
  finally show ?thesis using False by simp
qed

lemma yoe_eq: "y - y div 400 * 400 = (y :: int) mod 400"
  by presburger

text \<open>The day number without the source's quotient tricks.\<close>

lemma days_from_civil_eq:
  assumes "1 \<le> m" and "m \<le> 12"
  shows "days_from_civil y0 m d =
    (let y = (if m \<le> 2 then y0 - 1 else y0) in
     y div 400 * 146097 + (y mod 400) * 365 + (y mod 400) div 4 - (y mod 400) div 100
       + (153 * ((m + 9) mod 12) + 2) div 5 + d - 1 - 719468)"
proof -
  have "0 \<le> (m + 9) mod 12" by simp
  then have "tdiv (153 * ((m + 9) mod 12) + 2) 5 = (153 * ((m + 9) mod 12) + 2) div 5"
    by (simp add: tdiv_nonneg)
  moreover have "tdiv (y mod 400) 4 = y mod 400 div 4" "tdiv (y mod 400) 100 = y mod 400 div 100" for y
    by (simp_all add: tdiv_nonneg)
  ultimately show ?thesis
    unfolding days_from_civil_def Let_def tdiv_era yoe_eq by simp
qed

lemma era_days_linear:
  "y div 400 * 146097 + (y mod 400) * 365 + (y mod 400) div 4 - (y mod 400) div 100
     = 365 * y + y div 4 - y div 100 + (y :: int) div 400"
proof -
  define e r where "e = y div 400" and "r = y mod 400"
  have y: "y = 400 * e + r" and r: "0 \<le> r" "r < 400"
    by (simp_all add: e_def r_def)
  have "y div 4 = 100 * e + r div 4" "y div 100 = 4 * e + r div 100" "y div 400 = e"
    using r unfolding y by simp_all
  with y show ?thesis unfolding e_def [symmetric] r_def [symmetric] by simp
qed

lemma days_from_civil_closed:
  assumes "1 \<le> m" and "m \<le> 12"
  shows "days_from_civil y0 m d =
    (let y = (if m \<le> 2 then y0 - 1 else y0) in
     365 * y + y div 4 - y div 100 + y div 400 + (153 * ((m + 9) mod 12) + 2) div 5 + d - 719469)"
  using days_from_civil_eq [OF assms] era_days_linear
  by (simp add: Let_def)

lemma leap_day_count_aux:
  assumes "(a4 :: int) = b4 + (if p4 then 1 else 0)" "a100 = b100 + (if p100 then 1 else 0)"
    "a400 = b400 + (if p400 then 1 else 0)" "p400 \<Longrightarrow> p100" "p100 \<Longrightarrow> p4"
  shows "a4 - a100 + a400 = b4 - b100 + b400 + (if p4 \<and> \<not> p100 \<or> p400 then 1 else 0)"
  using assms by auto

lemma leap_day_count:
  "(y :: int) div 4 - y div 100 + y div 400
     = (y - 1) div 4 - (y - 1) div 100 + (y - 1) div 400 + (if is_leap y then 1 else 0)"
proof -
  have q: "(y :: int) div n = (y - 1) div n + (if y mod n = 0 then 1 else 0)" if "0 < n" for n
  proof (cases "y mod n = 0")
    case True
    then have "y = n * (y div n)" by (metis mult_div_mod_eq add.right_neutral)
    then obtain k where k: "y = n * k" ..
    have "(n * k - 1) div n = k - 1"
      using that by (intro int_div_pos_eq [of _ _ _ "n - 1"]) (simp_all add: algebra_simps)
    with True k that show ?thesis by simp
  next
    case False
    have "y - 1 = n * (y div n) + (y mod n - 1)" by (simp add: algebra_simps)
    moreover have "0 \<le> y mod n - 1" "y mod n - 1 < n"
      using False pos_mod_bound [OF that, of y] pos_mod_sign [OF that, of y] by linarith+
    ultimately have "(y - 1) div n = y div n" by (metis int_div_pos_eq)
    with False show ?thesis by simp
  qed
  have "y mod 400 = 0 \<Longrightarrow> y mod 100 = 0" "y mod 100 = 0 \<Longrightarrow> y mod 4 = 0" by presburger+
  then show ?thesis
    unfolding is_leap_def
    by (intro leap_day_count_aux q) simp_all
qed


lemma days_from_civil_next_day:
  assumes "valid_date y m d" and "next_day (y, m, d) = (y', m', d')"
  shows "days_from_civil y' m' d' = days_from_civil y m d + 1"
proof -
  have m: "1 \<le> m" "m \<le> 12" using assms(1) by (auto simp: valid_date_def)
  from assms have dm: "d \<le> days_in_month y m" by (simp add: valid_date_def)
  consider "d < days_in_month y m" | "d = days_in_month y m" "m < 12" | "d = days_in_month y m" "m = 12"
    using dm m by linarith
  then show ?thesis
  proof cases
    case 1
    with assms(2) m show ?thesis
      by (auto simp: next_day_def days_from_civil_closed Let_def)
  next
    case 2
    with assms(2) have eq: "y' = y" "m' = m + 1" "d' = 1" by (auto simp: next_day_def)
    have c: "m = 1 \<or> m = 2 \<or> m = 3 \<or> m = 4 \<or> m = 5 \<or> m = 6 \<or> m = 7 \<or> m = 8 \<or> m = 9 \<or> m = 10 \<or> m = 11"
      using month_cases [OF m] 2 by auto
    show ?thesis
    proof (cases "m = 2")
      case True
      then show ?thesis
        unfolding eq 2(1) using leap_day_count [of y]
        by (simp add: days_from_civil_closed Let_def days_in_month_def algebra_simps)
    next
      case False
      with c show ?thesis
        unfolding eq 2(1)
        by (elim disjE) (simp_all add: days_from_civil_closed Let_def days_in_month_def)
    qed
  next
    case 3
    with assms(2) have "y' = y + 1" "m' = 1" "d' = 1" by (auto simp: next_day_def)
    with 3 show ?thesis
      by (simp add: days_from_civil_closed Let_def days_in_month_def)
  qed
qed

lemma days_from_civil_epoch: "days_from_civil 1970 1 1 = 0"
  by (simp add: days_from_civil_closed Let_def)

lemma days_in_month_le: "days_in_month y m \<le> 31"
  by (simp add: days_in_month_def)

lemma days_from_civil_bounds:
  assumes "valid_date y m d" and "y \<le> 9999"
  shows "\<bar>days_from_civil y m d\<bar> \<le> 4000000"
proof -
  have m: "1 \<le> m" "m \<le> 12" and d: "1 \<le> d" "d \<le> 31" and y: "0 \<le> y"
    using assms(1) days_in_month_le [of y m] by (auto simp: valid_date_def)
  define z where "z = (if m \<le> 2 then y - 1 else y)"
  have z: "- 1 \<le> z" "z \<le> 9999" using y assms(2) by (auto simp: z_def)
  have q: "0 \<le> (153 * ((m + 9) mod 12) + 2) div 5 \<and> (153 * ((m + 9) mod 12) + 2) div 5 \<le> 400"
    using pos_mod_bound [of 12 "m + 9"] pos_mod_sign [of 12 "m + 9"] by (simp, linarith)
  have eq: "days_from_civil y m d
      = 365 * z + z div 4 - z div 100 + z div 400 + (153 * ((m + 9) mod 12) + 2) div 5 + d - 719469"
    using days_from_civil_closed [OF m] by (simp add: z_def Let_def)
  have range: "- 1 \<le> z div n \<and> z div n \<le> 9999" if "1 < n" for n
  proof
    have "- 1 div n \<le> z div n" using z(1) that by (intro zdiv_mono1) auto
    then show "- 1 \<le> z div n" using that by (simp add: zdiv_eq_0_iff div_eq_minus1)
    have "z div n \<le> 9999 div n" using z(2) that by (intro zdiv_mono1) auto
    also have "\<dots> \<le> 9999" using zdiv_mono2 [of 9999 1 n] that by simp
    finally show "z div n \<le> 9999" .
  qed
  have sum: "\<bar>365 * z + a - b + c + q + d - 719469\<bar> \<le> 4000000"
    if "- 1 \<le> a \<and> a \<le> 9999" "- 1 \<le> b \<and> b \<le> 9999" "- 1 \<le> c \<and> c \<le> 9999" "0 \<le> q \<and> q \<le> 400"
    for a b c q :: int
    using that z d by linarith
  show ?thesis unfolding eq by (intro sum range q) simp_all
qed


text \<open>The formatter's year-of-era recovery: \<open>c\<close> centuries, \<open>q\<close> quadrennia and \<open>r\<close> years into an era,
  the corrections cancel the leap days exactly.\<close>

lemma year_of_era_recovered:
  fixes c q r doy doe :: int
  assumes "0 \<le> c" "c \<le> 3" "0 \<le> q" "q \<le> 24" "0 \<le> r" "r \<le> 3" "0 \<le> doy" "doy \<le> 365"
    and last: "doy = 365 \<Longrightarrow> r = 3 \<and> (q < 24 \<or> c = 3)"
    and doe: "doe = 36524 * c + 1461 * q + 365 * r + doy"
  shows "(doe - doe div 1460 + doe div 36524 - doe div 146096) div 365 = 100 * c + 4 * q + r"
proof -
  define e where "e = (24 * c + q + 365 * r + doy) div 1460"
  have e: "e = 0 \<or> e = 1" "doy = 365 \<Longrightarrow> e = 1" "doy = 0 \<Longrightarrow> e = 0"
    using assms(1-8) last unfolding e_def by (auto intro: div_pos_pos_trivial)
  have "doe = 1460 * (25 * c + q) + (24 * c + q + 365 * r + doy)" using doe by simp
  then have d1: "doe div 1460 = 25 * c + q + e"
    unfolding e_def by simp
  have d2: "doe div 36524 - doe div 146096 = c"
  proof (cases "doe = 146096")
    case True
    with assms doe show ?thesis by simp
  next
    case False
    have "1461 * q + 365 * r + doy < 36524 \<or> doe = 146096"
      using assms(1-8) last doe by (cases "doy = 365"; cases "q = 24") auto
    with False assms(1-8) doe have "doe div 36524 = c" "doe div 146096 = 0"
      by (auto intro!: int_div_pos_eq)
    then show ?thesis by simp
  qed
  have "doe - doe div 1460 + doe div 36524 - doe div 146096 = 365 * (100 * c + 4 * q + r) + (doy - e)"
    using d1 d2 doe by simp
  moreover have "0 \<le> doy - e" using e assms(7,8) by (cases "doy = 0") auto
  moreover have "doy - e < 365" using e assms(7,8) by (cases "doy = 365") auto
  ultimately show ?thesis by (intro int_div_pos_eq)
qed


lemma month_recovered:
  assumes "1 \<le> m" "m \<le> 12" "1 \<le> d" "d \<le> days_in_month y m"
    and doy: "doy = (153 * ((m + 9) mod 12) + 2) div 5 + d - 1"
  shows "(5 * doy + 2) div 153 = (m + 9) mod 12"
    and "0 \<le> doy" and "doy \<le> 365" and "doy = 365 \<Longrightarrow> m = 2 \<and> is_leap y"
  using month_cases [OF assms(1,2)] assms(3,4) unfolding doy
  by (auto simp: days_in_month_def split: if_splits)

text \<open>The parts of a date: the year of its era, counted from March, and the day of that year.\<close>

lemma civil_parts:
  assumes "valid_date y m d"
  obtains z yoe doy doe where "z = (if m \<le> 2 then y - 1 else y)" "days_from_civil y m d + 719468 = 146097 * (z div 400) + doe"
    "0 \<le> doe" "doe < 146097" "0 \<le> yoe" "0 \<le> doy" "doe = 365 * yoe + yoe div 4 - yoe div 100 + doy"
    "(doe - doe div 1460 + doe div 36524 - doe div 146096) div 365 = yoe" "(5 * doy + 2) div 153 = (m + 9) mod 12"
    "doy - (153 * ((m + 9) mod 12) + 2) div 5 + 1 = d"
    "(if (m + 9) mod 12 < 10 then (m + 9) mod 12 + 3 else (m + 9) mod 12 - 9) = m"
    "yoe + z div 400 * 400 + (if m \<le> 2 then 1 else 0) = y"
proof -
  have m: "1 \<le> m" "m \<le> 12" and d: "1 \<le> d" "d \<le> days_in_month y m"
    using assms by (auto simp: valid_date_def)
  define z where "z = (if m \<le> 2 then y - 1 else y)"
  define yoe where "yoe = z mod 400"
  define doy where "doy = (153 * ((m + 9) mod 12) + 2) div 5 + d - 1"
  define doe where "doe = 365 * yoe + yoe div 4 - yoe div 100 + doy"
  note month = month_recovered [OF m d doy_def]
  have yoe: "0 \<le> yoe" "yoe < 400" by (simp_all add: yoe_def)
  define c q r where "c = yoe div 100" and "q = yoe mod 100 div 4" and "r = yoe mod 100 mod 4"
  have cqr: "yoe = 100 * c + 4 * q + r"
    unfolding c_def q_def r_def by (simp add: add.assoc)
  have b: "0 \<le> c" "c \<le> 3" "0 \<le> q" "q \<le> 24" "0 \<le> r" "r \<le> 3"
    using yoe pos_mod_bound [of 100 yoe] pos_mod_bound [of 4 "yoe mod 100"] unfolding c_def q_def r_def
    by (auto simp: pos_imp_zdiv_nonneg_iff)
  have doe': "doe = 36524 * c + 1461 * q + 365 * r + doy"
  proof -
    have "yoe div 4 = 25 * c + q" "yoe div 100 = c"
      using cqr b by (auto intro!: int_div_pos_eq [of _ _ _ r] int_div_pos_eq [of _ _ _ "4 * q + r"])
    with cqr show ?thesis by (simp add: doe_def)
  qed
  have last: "r = 3 \<and> (q < 24 \<or> c = 3)" if "doy = 365"
  proof -
    have key: "(z mod 400 + 1) mod n = (z + 1) mod n" if "n dvd 400" for n
      by (metis mod_add_left_eq mod_mod_cancel that)
    from month(4) [OF that] have "z = y - 1" "is_leap (z + 1)" by (auto simp: z_def)
    then have "(yoe + 1) mod 4 = 0 \<and> (yoe + 1) mod 100 \<noteq> 0 \<or> (yoe + 1) mod 400 = 0"
      unfolding is_leap_def yoe_def using key [of 4] key [of 100] key [of 400] by simp
    moreover have "(yoe + 1) mod 400 = 0 \<Longrightarrow> (yoe + 1) mod 4 = 0" by presburger
    ultimately have leap: "(yoe + 1) mod 4 = 0" "(yoe + 1) mod 100 = 0 \<Longrightarrow> (yoe + 1) mod 400 = 0" by auto
    have "yoe + 1 = r + 1 + 4 * (25 * c + q)" using cqr by simp
    with leap(1) have "(r + 1) mod 4 = 0" by (simp only: mod_mult_self2)
    with b have r: "r = 3" using month_cases [of "r + 1"] by auto
    have "c = 3" if "q = 24"
    proof -
      have y1: "yoe + 1 = 100 * (c + 1)" using cqr r that by simp
      then have "100 * (c + 1) mod 400 = 0" using leap(2) by (simp add: add.commute)
      with b show ?thesis using month_cases [of "c + 1"] by auto
    qed
    with r b show ?thesis by (cases "q = 24") auto
  qed
  have doe_b: "0 \<le> doe" "doe < 146097"
    using doe' b month(2,3) by linarith+
  have days: "days_from_civil y m d + 719468 = 146097 * (z div 400) + doe"
    unfolding days_from_civil_eq [OF m] Let_def z_def [symmetric] yoe_def [symmetric] doe_def doy_def
    by algebra
  have yoe_eq: "(doe - doe div 1460 + doe div 36524 - doe div 146096) div 365 = yoe"
    unfolding cqr using year_of_era_recovered [OF b month(2,3) last doe'] by simp
  have mm: "(if (m + 9) mod 12 < 10 then (m + 9) mod 12 + 3 else (m + 9) mod 12 - 9) = m"
    using month_cases [OF m] by auto
  have yy: "yoe + z div 400 * 400 + (if m \<le> 2 then 1 else 0) = y"
    using mult_div_mod_eq [of 400 z] by (auto simp: yoe_def z_def)
  have dd: "doy - (153 * ((m + 9) mod 12) + 2) div 5 + 1 = d" by (simp add: doy_def)
  show thesis by (rule that [OF z_def days doe_b yoe(1) month(2) doe_def yoe_eq month(1) dd mm yy])
qed

lemma civil_from_days_inverse:
  assumes "valid_date y m d"
  shows "civil_from_days (days_from_civil y m d) = (y, m, d)"
  using assms
proof (rule civil_parts)
  fix z yoe doy doe
  assume days: "days_from_civil y m d + 719468 = 146097 * (z div 400) + doe" and doe_b: "0 \<le> doe" "doe < 146097"
    and yoe: "0 \<le> yoe" and doy: "0 \<le> doy" and doe: "doe = 365 * yoe + yoe div 4 - yoe div 100 + doy"
    and yoe_eq: "(doe - doe div 1460 + doe div 36524 - doe div 146096) div 365 = yoe"
    and mp: "(5 * doy + 2) div 153 = (m + 9) mod 12" and dd: "doy - (153 * ((m + 9) mod 12) + 2) div 5 + 1 = d"
    and mm: "(if (m + 9) mod 12 < 10 then (m + 9) mod 12 + 3 else (m + 9) mod 12 - 9) = m"
    and yy: "yoe + z div 400 * 400 + (if m \<le> 2 then 1 else 0) = y"
  have era: "(days_from_civil y m d + 719468) div 146097 = z div 400"
    unfolding days using doe_b by (simp add: div_pos_pos_trivial)
  have tq: "tdiv doe 1460 = doe div 1460" "tdiv doe 36524 = doe div 36524"
    "tdiv doe 146096 = doe div 146096" "tdiv yoe 4 = yoe div 4" "tdiv yoe 100 = yoe div 100"
    "tdiv (5 * doy + 2) 153 = (m + 9) mod 12"
    "tdiv (153 * ((m + 9) mod 12) + 2) 5 = (153 * ((m + 9) mod 12) + 2) div 5"
    using doe_b yoe doy mp by (simp_all add: tdiv_nonneg)
  have A: "0 \<le> doe - doe div 1460 + doe div 36524 - doe div 146096"
    using yoe_eq yoe by (metis div_neg_pos_less0 linorder_not_le zero_less_numeral)
  have doy_eq: "doe - (365 * yoe + yoe div 4 - yoe div 100) = doy" by (simp add: doe)
  have doe_eq: "days_from_civil y m d + 719468 - z div 400 * 146097 = doe"
    using days by simp
  have A': "tdiv (doe - doe div 1460 + doe div 36524 - doe div 146096) 365 = yoe"
    using yoe_eq tdiv_nonneg [OF A] by simp
  show ?thesis
    unfolding civil_from_days_def Let_def era doe_eq tq A' doy_eq mm yy dd by (rule refl)
qed

lemma num_bounds:
  assumes "num s a b = Some v"
  shows "0 \<le> v" and "v < 10 ^ (b - a)"
proof -
  from assms obtain n where n: "from_str_radix 63 10 (take (b - a) (drop a s)) = Some n"
    and v: "v = int n" and dig: "list_all is_ascii_digit (take (b - a) (drop a s))"
    by (auto simp: num_def Let_def split: if_splits)
  let ?p = "take (b - a) (drop a s)"
  from n have ne: "?p \<noteq> []" by (auto simp: from_str_radix_def Let_def split: list.splits)
  then have "is_ascii_digit (hd ?p)" using dig by (metis hd_in_set list_all_iff)
  then have "hd ?p \<noteq> CHR ''+''" by (rule plus_not_digit)
  with n ne have "digits_val 10 0 ?p = Some n"
    by (auto simp: from_str_radix_digits split: option.splits if_splits)
  then have "n < 10 ^ length ?p" using digits_val_bound by fastforce
  also have "\<dots> \<le> 10 ^ (b - a)" by (rule power_increasing) auto
  finally show "v < 10 ^ (b - a)" using v by simp
  show "0 \<le> v" using v by simp
qed


lemma parse_fraction_bounds:
  assumes "parse_fraction s = Some (idx, ms)"
  shows "0 \<le> ms" and "ms < 1000"
proof -
  have "v < 1000" if "from_str_radix 63 10 (take 3 (frac @ ''000'')) = Some v"
    and dig: "frac = takeWhile is_ascii_digit t" "frac \<noteq> []" for v frac t
  proof -
    let ?p = "take 3 (frac @ ''000'')"
    have "?p \<noteq> []" and "hd ?p = hd frac" using dig(2) by (cases frac; simp)+
    moreover have "is_ascii_digit (hd frac)"
      using dig by (metis hd_in_set set_takeWhileD)
    ultimately have "digits_val 10 0 ?p = Some v"
      using that(1) plus_not_digit by (fastforce simp: from_str_radix_digits split: option.splits if_splits)
    then have "v < 1 * 10 ^ length ?p" using digits_val_bound by fastforce
    also have "length ?p = 3" by simp
    finally show ?thesis by simp
  qed
  with assms show "0 \<le> ms" "ms < 1000"
    by (fastforce simp: parse_fraction_def Let_def split: if_splits)+
qed

lemma parse_offset_bounds: "parse_offset s idx = Some m \<Longrightarrow> \<bar>m\<bar> < 1440"
  by (auto simp: parse_offset_def Let_def split: if_splits option.splits dest!: num_bounds(1))

text \<open>
  Every timestamp \<open>parse_rfc3339_ms\<close> accepts is well inside the range of an \<open>i64\<close> of
  milliseconds (below \<open>10 ^ 15\<close> in magnitude), so the arithmetic of the parser and of the
  checks on its result cannot overflow.
\<close>

theorem parse_rfc3339_ms_in_range:
  "parse_rfc3339_ms s = Some t \<Longrightarrow> \<bar>t\<bar> < 10 ^ 15"
proof -
  assume p: "parse_rfc3339_ms s = Some t"
  then obtain y mo d h mi se idx ms off
    where f: "num s 0 4 = Some y" "num s 11 13 = Some h" "num s 14 16 = Some mi" "num s 17 19 = Some se"
      and fr: "parse_fraction s = Some (idx, ms)" and off: "parse_offset s idx = Some off"
      and v: "1 \<le> mo" "mo \<le> 12" "1 \<le> d" "d \<le> days_in_month y mo"
      and t: "t = epoch_ms (days_from_civil y mo d) h mi se off ms"
    by (auto simp: parse_rfc3339_ms_def not_less split: if_splits option.splits prod.splits)
  have "0 \<le> y" "y \<le> 9999" using num_bounds [OF f(1)] by simp_all
  then have "\<bar>days_from_civil y mo d\<bar> \<le> 4000000"
    using v by (intro days_from_civil_bounds) (auto simp: valid_date_def)
  moreover have "0 \<le> h" "h < 100" "0 \<le> mi" "mi < 100" "0 \<le> se" "se < 100"
    using num_bounds [OF f(2)] num_bounds [OF f(3)] num_bounds [OF f(4)] by simp_all
  ultimately show "\<bar>t\<bar> < 10 ^ 15"
    unfolding t epoch_ms_def Let_def using parse_fraction_bounds [OF fr] parse_offset_bounds [OF off] by (simp; linarith)
qed

theorem parse_rfc3339_ms_in_range_witness:
  "parse_rfc3339_ms ''2026-10-05T12:30:00.5+02:00'' = Some 1791196200500
   \<and> \<bar>1791196200500 :: int\<bar> < 10 ^ 15"
proof -
  have "parse_rfc3339_ms ''2026-10-05T12:30:00.5+02:00'' = Some 1791196200500"
    by (simp add: parse_rfc3339_ms_def num_def parse_fraction_def parse_offset_def Let_def
        from_str_radix_def digit_val_def ascii_defs code_def days_in_month_def epoch_ms_def
        days_from_civil_closed nth_Cons')
  then show ?thesis using parse_rfc3339_ms_in_range [of "''2026-10-05T12:30:00.5+02:00''"] by blast
qed

text \<open>
  The day count of the parser follows the calendar: it is 0 on 1970-01-01, advances by exactly
  one from each valid date to the next one, and the date the record formatter computes from a
  day number is the date that was counted.
\<close>

theorem day_count_follows_calendar:
  assumes "valid_date y m d" and "next_day (y, m, d) = (y', m', d')"
  shows "days_from_civil 1970 1 1 = 0
    \<and> days_from_civil y' m' d' = days_from_civil y m d + 1
    \<and> civil_from_days (days_from_civil y m d) = (y, m, d)"
  using assms days_from_civil_epoch days_from_civil_next_day civil_from_days_inverse by blast

theorem day_count_follows_calendar_witness:
  "valid_date 2024 2 29 \<and> next_day (2024, 2, 29) = (2024, 3, 1)
   \<and> civil_from_days (days_from_civil 2024 2 29) = (2024, 2, 29)"
proof -
  have "valid_date 2024 2 29" "next_day (2024, 2, 29) = (2024, 3, 1)"
    by (simp_all add: valid_date_def next_day_def days_in_month_def is_leap_def)
  then show ?thesis using day_count_follows_calendar [of 2024 2 29 2024 3 1] by simp
qed

end
