(* ===== verification/Siwe.thy ===== *)
theory Siwe
  imports Externals Rfc3339
begin

text \<open>
  \<open>kit/src/siwe.rs\<close>: the strict EIP-4361 (Sign-In with Ethereum) parser and the message checks of
  the web-signing budget. The parser's closures over the line index (\<open>next\<close>, \<open>tagged\<close>, \<open>optional\<close>)
  become functions on the lines that are left. The main results: the parser accepts exactly the
  serializations of well-formed fields (so what is checked is what is signed), an accepted
  message is bound to the attested origin, the wallet, the chain and a bounded life time, and
  the EIP-55 form of an address exists and is unique.
\<close>

section \<open>Constants and data\<close>

definition MAX_MESSAGE_BYTES :: nat where "MAX_MESSAGE_BYTES = 2048"

definition CHAIN_ALLOWLIST :: "nat list" where "CHAIN_ALLOWLIST = [CITRATE_CHAIN_ID]"

definition MIN_NONCE_LEN :: nat where "MIN_NONCE_LEN = 16"

definition ISSUED_AT_MAX_AGE_MS :: nat where "ISSUED_AT_MAX_AGE_MS = 5 * 60 * 1000"

definition CLOCK_SKEW_MS :: nat where "CLOCK_SKEW_MS = 60 * 1000"

definition MAX_MESSAGE_LIFETIME_MS :: nat where "MAX_MESSAGE_LIFETIME_MS = 24 * 60 * 60 * 1000"

definition MAX_STATEMENT_CHARS :: nat where "MAX_STATEMENT_CHARS = 280"

definition MAX_REQUEST_ID_CHARS :: nat where "MAX_REQUEST_ID_CHARS = 128"

definition HEADER_SUFFIX :: string where
  "HEADER_SUFFIX = '' wants you to sign in with your Ethereum account:''"

lemmas siwe_consts = MAX_MESSAGE_BYTES_def CITRATE_CHAIN_ID_def CHAIN_ALLOWLIST_def
  MIN_NONCE_LEN_def ISSUED_AT_MAX_AGE_MS_def CLOCK_SKEW_MS_def MAX_MESSAGE_LIFETIME_MS_def
  MAX_STATEMENT_CHARS_def MAX_REQUEST_ID_CHARS_def

record SiweFields =
  sf_scheme :: "string option"
  sf_domain :: string
  sf_address :: string
  sf_statement :: "string option"
  sf_uri :: string
  sf_version :: string
  sf_chain_id :: string
  sf_nonce :: string
  sf_issued_at :: string
  sf_expiration_time :: "string option"
  sf_not_before :: "string option"
  sf_request_id :: "string option"
  sf_resources :: "string list"

definition opt_line :: "string \<Rightarrow> string option \<Rightarrow> string" where
  "opt_line tag v = (case v of Some x \<Rightarrow> CHR 10 # tag @ x | None \<Rightarrow> [])"

definition to_message :: "SiweFields \<Rightarrow> string" where
  "to_message f =
     (case sf_scheme f of Some s \<Rightarrow> s @ ''://'' | None \<Rightarrow> [])
     @ sf_domain f @ HEADER_SUFFIX @ [CHR 10]
     @ sf_address f @ [CHR 10, CHR 10]
     @ (case sf_statement f of Some st \<Rightarrow> st @ [CHR 10] | None \<Rightarrow> [])
     @ [CHR 10]
     @ ''URI: '' @ sf_uri f
     @ CHR 10 # ''Version: '' @ sf_version f
     @ CHR 10 # ''Chain ID: '' @ sf_chain_id f
     @ CHR 10 # ''Nonce: '' @ sf_nonce f
     @ CHR 10 # ''Issued At: '' @ sf_issued_at f
     @ opt_line ''Expiration Time: '' (sf_expiration_time f)
     @ opt_line ''Not Before: '' (sf_not_before f)
     @ opt_line ''Request ID: '' (sf_request_id f)
     @ (if sf_resources f = [] then []
        else CHR 10 # ''Resources:'' @ concat (map (\<lambda>r. CHR 10 # ''- '' @ r) (sf_resources f)))"

datatype SiweReject =
    Malformed | TooLarge | DomainMismatch | UriMismatch | AddressMismatch | BadVersion
  | ChainNotAllowed | WeakNonce | IssuedAtOutOfRange | ExpirationMissing | ExpirationOutOfRange
  | NotBeforeOutOfRange | BadStatement | HasResources | BadRequestId

definition siwe_reject_text :: "SiweReject \<Rightarrow> string" where
  "siwe_reject_text r =
     (case r of
        Malformed \<Rightarrow> ''the message is not a well-formed Sign-In with Ethereum message''
      | TooLarge \<Rightarrow> ''the sign-in message is longer than 2048 bytes''
      | DomainMismatch \<Rightarrow> ''the sign-in domain does not match the page you are on''
      | UriMismatch \<Rightarrow> ''the sign-in URI does not match the page you are on''
      | AddressMismatch \<Rightarrow> ''the sign-in address is not your wallet address in checksummed form''
      | BadVersion \<Rightarrow> ''the sign-in message version is not 1''
      | ChainNotAllowed \<Rightarrow> ''the sign-in message is not for Citrate (chain 40204)''
      | WeakNonce \<Rightarrow> ''the sign-in nonce is shorter than 16 letters and digits''
      | IssuedAtOutOfRange \<Rightarrow> ''the sign-in message is too old or dated in the future''
      | ExpirationMissing \<Rightarrow> ''the sign-in message has no expiration time''
      | ExpirationOutOfRange \<Rightarrow> ''the sign-in message is expired or valid for more than 24 hours''
      | NotBeforeOutOfRange \<Rightarrow> ''the sign-in message is not valid yet''
      | BadStatement \<Rightarrow> ''the sign-in statement is too long or contains hidden control characters''
      | HasResources \<Rightarrow> ''the sign-in message asks for extra permissions (resources), which a budget never grants''
      | BadRequestId \<Rightarrow> ''the sign-in request id is too long or not printable'')"

record SiweCheckContext =
  cc_attested_origin :: string
  cc_wallet_address :: string
  cc_now_ms :: nat

record BudgetableSiwe =
  bs_nonce :: string
  bs_issued_at_ms :: nat
  bs_expiration_ms :: nat
  bs_statement :: "string option"
  bs_request_id :: "string option"

section \<open>Character classes\<close>

definition is_hex_address :: "string \<Rightarrow> bool" where
  "is_hex_address a \<longleftrightarrow>
     length a = 42 \<and> starts_with ''0x'' a \<and> list_all is_ascii_hexdigit (drop 2 a)"

definition is_token :: "string \<Rightarrow> bool" where
  "is_token v \<longleftrightarrow> v \<noteq> [] \<and> \<not> list_ex (\<lambda>c. is_whitespace c \<or> is_control c) (utf8_chars v)"

definition is_display_safe :: "nat \<Rightarrow> bool" where
  "is_display_safe c \<longleftrightarrow>
     \<not> is_control c \<and>
     \<not> (c = 0x200E \<or> c = 0x200F \<or> c = 0x061C \<or> (0x202A \<le> c \<and> c \<le> 0x202E)
        \<or> (0x2066 \<le> c \<and> c \<le> 0x2069))"

section \<open>The parser\<close>

definition next_line :: "string list \<Rightarrow> SiweReject + (string \<times> string list)" where
  "next_line ls = (case ls of [] \<Rightarrow> Inl Malformed | l # r \<Rightarrow> Inr (l, r))"

definition tagged :: "string \<Rightarrow> string list \<Rightarrow> SiweReject + (string \<times> string list)" where
  "tagged tag ls =
     (case ls of
        [] \<Rightarrow> Inl Malformed
      | l # r \<Rightarrow>
        and_then (ok_or Malformed (strip_prefix tag l))
          (\<lambda>v. if \<not> is_token v then Inl Malformed else Inr (v, r)))"

definition optional :: "string \<Rightarrow> string list \<Rightarrow> SiweReject + (string option \<times> string list)" where
  "optional tag ls =
     (case ls of
        l # r \<Rightarrow>
          if starts_with tag l then and_then (tagged tag ls) (\<lambda>(v, r). Inr (Some v, r))
          else Inr (None, ls)
      | [] \<Rightarrow> Inr (None, ls))"

definition scheme_ok :: "string \<Rightarrow> bool" where
  "scheme_ok s \<longleftrightarrow>
     s \<noteq> [] \<and> is_ascii_alphabetic (hd s)
     \<and> list_all (\<lambda>c. is_ascii_alphanumeric c \<or> c = CHR ''+'' \<or> c = CHR ''-'' \<or> c = CHR ''.'') s"

definition parse_header :: "string \<Rightarrow> SiweReject + (string option \<times> string)" where
  "parse_header header =
     and_then (ok_or Malformed (strip_suffix HEADER_SUFFIX header)) (\<lambda>authority.
       let (scheme, domain) =
             (case split_once ''://'' authority of
                Some (s, d) \<Rightarrow> (Some s, d)
              | None \<Rightarrow> (None, authority))
       in if (case scheme of Some s \<Rightarrow> \<not> scheme_ok s | None \<Rightarrow> False) then Inl Malformed
          else if \<not> is_token domain then Inl Malformed
          else Inr (scheme, domain))"

definition parse_statement :: "string list \<Rightarrow> SiweReject + (string option \<times> string list)" where
  "parse_statement ls =
     and_then (next_line ls) (\<lambda>(l, ls).
       if l = [] then Inr (None, ls)
       else and_then (next_line ls) (\<lambda>(e, ls).
              if e \<noteq> [] then Inl Malformed else Inr (Some l, ls)))"

definition chain_id_ok :: "string \<Rightarrow> bool" where
  "chain_id_ok c \<longleftrightarrow>
     \<not> (\<not> list_all is_ascii_digit c \<or> (length c > 1 \<and> starts_with ''0'' c) \<or> parse_u64 c = None)"

definition time_ok :: "string option \<Rightarrow> bool" where
  "time_ok t \<longleftrightarrow> (case t of Some x \<Rightarrow> parse_rfc3339_ms x \<noteq> None | None \<Rightarrow> True)"

definition parse_request_id :: "string list \<Rightarrow> SiweReject + (string option \<times> string list)" where
  "parse_request_id ls =
     (case ls of
        l # r \<Rightarrow>
          if starts_with ''Request ID: '' l then
            (let v = drop (length ''Request ID: '') l in
             if v = [] \<or> list_ex is_whitespace (utf8_chars v) then Inl Malformed
             else Inr (Some v, r))
          else Inr (None, ls)
      | [] \<Rightarrow> Inr (None, ls))"

text \<open>The \<open>while let\<close> over the resource lines: it ends at the last line or with an error.\<close>

fun resource_lines :: "string list \<Rightarrow> SiweReject + string list" where
  "resource_lines [] = Inr []"
| "resource_lines (l # ls) =
     and_then (ok_or Malformed (strip_prefix ''- '' l)) (\<lambda>r.
       if \<not> is_token r then Inl Malformed
       else and_then (resource_lines ls) (\<lambda>rs. Inr (r # rs)))"

definition parse_resources :: "string list \<Rightarrow> SiweReject + (string list \<times> string list)" where
  "parse_resources ls =
     (if ls \<noteq> [] \<and> hd ls = ''Resources:'' then
        and_then (resource_lines (tl ls)) (\<lambda>rs.
          if rs = [] then Inl Malformed else Inr (rs, []))
      else Inr ([], ls))"

definition parse_lines :: "string list \<Rightarrow> SiweReject + SiweFields" where
  "parse_lines ls =
     and_then (next_line ls) (\<lambda>(header, ls).
     and_then (parse_header header) (\<lambda>(scheme, domain).
     and_then (next_line ls) (\<lambda>(address, ls).
     if \<not> is_hex_address address then Inl Malformed else
     and_then (next_line ls) (\<lambda>(blank, ls).
     if blank \<noteq> [] then Inl Malformed else
     and_then (parse_statement ls) (\<lambda>(statement, ls).
     and_then (tagged ''URI: '' ls) (\<lambda>(uri, ls).
     and_then (tagged ''Version: '' ls) (\<lambda>(version, ls).
     if \<not> list_all is_ascii_digit version then Inl Malformed else
     and_then (tagged ''Chain ID: '' ls) (\<lambda>(chain_id, ls).
     if \<not> chain_id_ok chain_id then Inl Malformed else
     and_then (tagged ''Nonce: '' ls) (\<lambda>(nonce, ls).
     and_then (tagged ''Issued At: '' ls) (\<lambda>(issued_at, ls).
     if parse_rfc3339_ms issued_at = None then Inl Malformed else
     and_then (optional ''Expiration Time: '' ls) (\<lambda>(expiration_time, ls).
     and_then (optional ''Not Before: '' ls) (\<lambda>(not_before, ls).
     if \<not> time_ok expiration_time \<or> \<not> time_ok not_before then Inl Malformed else
     and_then (parse_request_id ls) (\<lambda>(request_id, ls).
     and_then (parse_resources ls) (\<lambda>(resources, ls).
     if ls \<noteq> [] then Inl Malformed else
     Inr \<lparr>sf_scheme = scheme, sf_domain = domain, sf_address = address, sf_statement = statement,
          sf_uri = uri, sf_version = version, sf_chain_id = chain_id, sf_nonce = nonce,
          sf_issued_at = issued_at, sf_expiration_time = expiration_time,
          sf_not_before = not_before, sf_request_id = request_id, sf_resources = resources\<rparr>))))))))))))))"

definition parse_strict :: "string \<Rightarrow> SiweReject + SiweFields" where
  "parse_strict text =
     (if length text > MAX_MESSAGE_BYTES then Inl TooLarge
      else if CHR 13 \<in> set text then Inl Malformed
      else and_then (parse_lines (split_on (CHR 10) text)) (\<lambda>fields.
             if to_message fields \<noteq> text then Inl Malformed else Inr fields))"

section \<open>EIP-55\<close>

text \<open>Digit \<open>i\<close> of the hash of the lower-case address, compared with 8. The digest has 32
  bytes and an address 40 digits, so the index is in range.\<close>

definition eip55_nibble :: "bytes \<Rightarrow> nat \<Rightarrow> nat" where
  "eip55_nibble hash i =
     (let byte = hash ! (i div 2)
      in if i mod 2 = 0 then unat (drop_bit 4 byte) else unat (and byte 0x0f))"

definition is_eip55 :: "'x deps_scheme \<Rightarrow> string \<Rightarrow> bool" where
  "is_eip55 X addr \<longleftrightarrow>
     is_hex_address addr \<and>
     (let body = drop 2 addr;
          lower = to_ascii_lowercase body;
          hash = keccak X (as_bytes lower)
      in list_all (\<lambda>(i, c).
           if \<not> is_ascii_alphabetic c then True
           else if eip55_nibble hash i \<ge> 8 then is_ascii_uppercase c
           else is_ascii_lowercase c) (enumerate 0 body))"

definition to_eip55 :: "'x deps_scheme \<Rightarrow> string \<Rightarrow> string option" where
  "to_eip55 X addr =
     (if \<not> is_hex_address addr then None
      else
        (let lower = to_ascii_lowercase (drop 2 addr);
             hash = keccak X (as_bytes lower);
             body = map (\<lambda>(i, c).
               if is_ascii_alphabetic c \<and> eip55_nibble hash i \<ge> 8 then upper_char c else c)
               (enumerate 0 lower)
         in Some (''0x'' @ body)))"

section \<open>The checks\<close>

definition check_origin :: "'x deps_scheme \<Rightarrow> SiweFields \<Rightarrow> SiweCheckContext \<Rightarrow> SiweReject + unit" where
  "check_origin X f ctx =
     and_then (ok_or DomainMismatch (url_parse X (cc_attested_origin ctx))) (\<lambda>attested.
     let attested_origin = url_origin attested in
     if (case sf_scheme f of Some s \<Rightarrow> s \<noteq> ''https'' | None \<Rightarrow> False) then Inl DomainMismatch else
     and_then (ok_or DomainMismatch (url_parse X (''https://'' @ sf_domain f @ ''/''))) (\<lambda>as_url.
     if url_username as_url \<noteq> [] \<or> url_password as_url \<noteq> None \<or> url_path as_url \<noteq> ''/''
        \<or> url_query as_url \<noteq> None \<or> url_fragment as_url \<noteq> None \<or> CHR ''/'' \<in> set (sf_domain f)
        \<or> url_origin as_url \<noteq> attested_origin
     then Inl DomainMismatch else
     and_then (ok_or UriMismatch (url_parse X (sf_uri f))) (\<lambda>uri.
     if url_scheme uri \<noteq> ''https'' \<or> url_origin uri \<noteq> attested_origin
     then Inl UriMismatch else Inr ())))"

definition check_times :: "SiweFields \<Rightarrow> SiweCheckContext \<Rightarrow> SiweReject + (int \<times> int)" where
  "check_times f ctx =
     (let now = as_i64 (cc_now_ms ctx) in
      and_then (ok_or Malformed (parse_rfc3339_ms (sf_issued_at f))) (\<lambda>iat.
      if iat < wrap_i64 (now - int ISSUED_AT_MAX_AGE_MS) \<or> iat > wrap_i64 (now + int CLOCK_SKEW_MS)
      then Inl IssuedAtOutOfRange else
      and_then (ok_or ExpirationMissing (sf_expiration_time f)) (\<lambda>exp_s.
      and_then (ok_or Malformed (parse_rfc3339_ms exp_s)) (\<lambda>exp.
      if exp \<le> now \<or> exp > wrap_i64 (iat + int MAX_MESSAGE_LIFETIME_MS)
      then Inl ExpirationOutOfRange else
      (case sf_not_before f of
         None \<Rightarrow> Inr (iat, exp)
       | Some nb \<Rightarrow>
           and_then (ok_or Malformed (parse_rfc3339_ms nb)) (\<lambda>nbf.
           if nbf > wrap_i64 (now + int CLOCK_SKEW_MS) then Inl NotBeforeOutOfRange
           else Inr (iat, exp)))))))"

definition check_budgetable ::
  "'x deps_scheme \<Rightarrow> string \<Rightarrow> SiweCheckContext \<Rightarrow> SiweReject + BudgetableSiwe" where
  "check_budgetable X text ctx =
     and_then (parse_strict text) (\<lambda>f.
     and_then (check_origin X f ctx) (\<lambda>_.
     if \<not> is_eip55 X (sf_address f) \<or> \<not> eq_ignore_ascii_case (sf_address f) (cc_wallet_address ctx)
     then Inl AddressMismatch else
     if sf_version f \<noteq> ''1'' then Inl BadVersion else
     and_then (ok_or Malformed (parse_u64 (sf_chain_id f))) (\<lambda>chain.
     if chain \<notin> set CHAIN_ALLOWLIST then Inl ChainNotAllowed else
     if length (utf8_chars (sf_nonce f)) < MIN_NONCE_LEN
        \<or> \<not> list_all is_ascii_alphanumeric (sf_nonce f)
     then Inl WeakNonce else
     and_then (check_times f ctx) (\<lambda>(iat, exp).
     if (case sf_statement f of
           Some st \<Rightarrow> length (utf8_chars st) > MAX_STATEMENT_CHARS
                      \<or> \<not> list_all is_display_safe (utf8_chars st)
         | None \<Rightarrow> False)
     then Inl BadStatement else
     if sf_resources f \<noteq> [] then Inl HasResources else
     if (case sf_request_id f of
           Some r \<Rightarrow> length (utf8_chars r) > MAX_REQUEST_ID_CHARS
                     \<or> \<not> list_all is_display_safe (utf8_chars r)
         | None \<Rightarrow> False)
     then Inl BadRequestId else
     Inr \<lparr>bs_nonce = sf_nonce f, bs_issued_at_ms = nat (max iat 0), bs_expiration_ms = nat (max exp 0),
          bs_statement = sf_statement f, bs_request_id = sf_request_id f\<rparr>))))"

definition normalize_allowlist_origin :: "'x deps_scheme \<Rightarrow> string \<Rightarrow> string + string" where
  "normalize_allowlist_origin X input =
     and_then (ok_or ''not a valid URL'' (url_parse X (trim input))) (\<lambda>u.
     if url_scheme u \<noteq> ''https'' then Inl ''only https origins can have a sign-in budget'' else
     if url_username u \<noteq> [] \<or> url_password u \<noteq> None
     then Inl ''an origin cannot carry a user name or password'' else
     if url_path u \<noteq> ''/'' \<and> url_path u \<noteq> []
     then Inl ''enter the site origin only, without a path'' else
     if url_query u \<noteq> None \<or> url_fragment u \<noteq> None
     then Inl ''enter the site origin only, without a query or fragment'' else
     and_then (case url_host u of
         Some (Domain d) \<Rightarrow> Inr (to_ascii_lowercase d)
       | Some _ \<Rightarrow> Inl ''IP addresses cannot have a sign-in budget''
       | None \<Rightarrow> Inl ''the origin has no host'') (\<lambda>host.
     if host = ''localhost'' \<or> ends_with ''.localhost'' host
     then Inl ''local addresses cannot have a sign-in budget'' else
     if CHR ''.'' \<notin> set host \<or> ends_with ''.'' host
     then Inl ''the host must be a full domain name'' else
     Inr (case url_port u of
            Some p \<Rightarrow> ''https://'' @ host @ '':'' @ show_nat p
          | None \<Rightarrow> ''https://'' @ host)))"

section \<open>What the parser accepts\<close>

text \<open>The lines of a message, and what the fields of an accepted message satisfy.\<close>

definition opt_lines :: "string \<Rightarrow> string option \<Rightarrow> string list" where
  "opt_lines tag v = (case v of Some x \<Rightarrow> [tag @ x] | None \<Rightarrow> [])"

definition message_lines :: "SiweFields \<Rightarrow> string list" where
  "message_lines f =
     ((case sf_scheme f of Some s \<Rightarrow> s @ ''://'' | None \<Rightarrow> []) @ sf_domain f @ HEADER_SUFFIX)
     # sf_address f # []
     # (case sf_statement f of Some st \<Rightarrow> [st] | None \<Rightarrow> []) @ []
     # (''URI: '' @ sf_uri f) # (''Version: '' @ sf_version f) # (''Chain ID: '' @ sf_chain_id f)
     # (''Nonce: '' @ sf_nonce f) # (''Issued At: '' @ sf_issued_at f)
     # opt_lines ''Expiration Time: '' (sf_expiration_time f)
     @ opt_lines ''Not Before: '' (sf_not_before f)
     @ opt_lines ''Request ID: '' (sf_request_id f)
     @ (if sf_resources f = [] then []
        else ''Resources:'' # map (\<lambda>r. ''- '' @ r) (sf_resources f))"

definition fields_ok :: "SiweFields \<Rightarrow> bool" where
  "fields_ok f \<longleftrightarrow>
     (case sf_scheme f of
        Some s \<Rightarrow> scheme_ok s
      | None \<Rightarrow> (\<forall>a b. sf_domain f \<noteq> a @ ''://'' @ b))
     \<and> is_token (sf_domain f)
     \<and> is_hex_address (sf_address f)
     \<and> sf_statement f \<noteq> Some []
     \<and> is_token (sf_uri f)
     \<and> is_token (sf_version f) \<and> list_all is_ascii_digit (sf_version f)
     \<and> is_token (sf_chain_id f) \<and> chain_id_ok (sf_chain_id f)
     \<and> is_token (sf_nonce f)
     \<and> is_token (sf_issued_at f) \<and> parse_rfc3339_ms (sf_issued_at f) \<noteq> None
     \<and> pred_option is_token (sf_expiration_time f) \<and> time_ok (sf_expiration_time f)
     \<and> pred_option is_token (sf_not_before f) \<and> time_ok (sf_not_before f)
     \<and> pred_option (\<lambda>v. v \<noteq> [] \<and> \<not> list_ex is_whitespace (utf8_chars v)) (sf_request_id f)
     \<and> list_all is_token (sf_resources f)"

definition single_line :: "string \<Rightarrow> bool" where
  "single_line s \<longleftrightarrow> CHR 10 \<notin> set s \<and> CHR 13 \<notin> set s"

text \<open>The well-formed messages: every field as the grammar wants it, and no line break inside a
  field.\<close>

definition siwe_wf :: "SiweFields \<Rightarrow> bool" where
  "siwe_wf f \<longleftrightarrow> fields_ok f \<and> list_all single_line (message_lines f)"

lemma next_line_iff: "next_line ls = Inr (l, r) \<longleftrightarrow> ls = l # r"
  by (cases ls) (auto simp: next_line_def)

lemma tagged_iff: "tagged tag ls = Inr (v, r) \<longleftrightarrow> ls = (tag @ v) # r \<and> is_token v"
  by (cases ls) (auto simp: tagged_def and_then_Inr_iff strip_prefix_Some_iff)

lemma optional_iff:
  "optional tag ls = Inr (x, r) \<longleftrightarrow>
     ls = opt_lines tag x @ r \<and> pred_option is_token x
     \<and> (x = None \<longrightarrow> ls = [] \<or> \<not> starts_with tag (hd ls))"
proof (cases ls)
  case Nil
  then show ?thesis by (auto simp: optional_def opt_lines_def split: option.splits)
next
  case (Cons l ls')
  then show ?thesis
    by (cases x) (auto simp: optional_def opt_lines_def and_then_Inr_iff tagged_iff starts_with_iff)
qed

lemma parse_statement_iff:
  "parse_statement ls = Inr (st, r) \<longleftrightarrow>
     ls = (case st of Some s \<Rightarrow> [s] | None \<Rightarrow> []) @ [] # r \<and> st \<noteq> Some []"
  by (cases st) (auto simp: parse_statement_def and_then_Inr_iff next_line_iff split: if_splits)

lemma parse_request_id_iff:
  "parse_request_id ls = Inr (x, r) \<longleftrightarrow>
     ls = opt_lines ''Request ID: '' x @ r
     \<and> pred_option (\<lambda>v. v \<noteq> [] \<and> \<not> list_ex is_whitespace (utf8_chars v)) x
     \<and> (x = None \<longrightarrow> ls = [] \<or> \<not> starts_with ''Request ID: '' (hd ls))"
proof (cases ls)
  case Nil
  then show ?thesis by (auto simp: parse_request_id_def opt_lines_def split: option.splits)
next
  case (Cons l ls')
  then show ?thesis
    by (cases x) (auto simp: parse_request_id_def opt_lines_def starts_with_iff Let_def)
qed

lemma resource_lines_iff:
  "resource_lines ls = Inr rs \<longleftrightarrow> ls = map (\<lambda>r. ''- '' @ r) rs \<and> list_all is_token rs"
proof (induction ls arbitrary: rs)
  case (Cons l ls)
  have "resource_lines (l # ls) = Inr rs \<longleftrightarrow>
      (\<exists>r rs'. l = ''- '' @ r \<and> is_token r \<and> resource_lines ls = Inr rs' \<and> rs = r # rs')"
    unfolding resource_lines.simps and_then_Inr_iff ok_or_Inr_iff if_Inl_eq_Inr strip_prefix_Some_iff
    by blast
  with Cons show ?case by (cases rs) auto
qed auto

lemma parse_resources_iff:
  "parse_resources ls = Inr (rs, []) \<longleftrightarrow>
     ls = (if rs = [] then [] else ''Resources:'' # map (\<lambda>r. ''- '' @ r) rs) \<and> list_all is_token rs"
proof (cases "ls \<noteq> [] \<and> hd ls = ''Resources:''")
  case True
  then obtain ls' where "ls = ''Resources:'' # ls'" by (cases ls) auto
  then show ?thesis
    by (cases "rs = []") (auto simp: parse_resources_def and_then_Inr_iff resource_lines_iff)
next
  case False
  then show ?thesis by (cases ls) (auto simp: parse_resources_def)
qed

lemma parse_resources_rest: "parse_resources ls = Inr (rs, r) \<Longrightarrow> r \<noteq> [] \<Longrightarrow> rs = [] \<and> r = ls"
  by (auto simp: parse_resources_def and_then_Inr_iff split: if_splits)

lemma colon_not_in_scheme: "scheme_ok s \<Longrightarrow> CHR '':'' \<notin> set s"
  by (auto simp: scheme_ok_def list_all_iff ascii_defs code_def)

lemma parse_header_iff:
  "parse_header h = Inr (sc, d) \<longleftrightarrow>
     h = (case sc of Some s \<Rightarrow> s @ ''://'' | None \<Rightarrow> []) @ d @ HEADER_SUFFIX \<and> is_token d
     \<and> (case sc of Some s \<Rightarrow> scheme_ok s | None \<Rightarrow> \<forall>a b. d \<noteq> a @ ''://'' @ b)"
    (is "?l \<longleftrightarrow> ?r")
proof
  assume ?l
  then obtain a where h: "h = a @ HEADER_SUFFIX"
    by (auto simp: parse_header_def and_then_Inr_iff strip_suffix_Some_iff)
  show ?r
  proof (cases "split_once ''://'' a")
    case None
    with \<open>?l\<close> h split_once_None [OF None] show ?thesis
      by (auto simp: parse_header_def split: if_splits)
  next
    case (Some p)
    then obtain s d' where p: "p = (s, d')" by (cases p)
    with \<open>?l\<close> h Some have "sc = Some s \<and> d = d' \<and> scheme_ok s \<and> is_token d"
      by (auto simp: parse_header_def)
    moreover from Some p have "a = s @ ''://'' @ d'" by (simp only: split_once_Some)
    ultimately show ?thesis using h by auto
  qed
next
  assume r: ?r
  show ?l
  proof (cases sc)
    case None
    with r have "split_once ''://'' d = None" by (intro split_once_absent) auto
    with r None show ?thesis by (simp add: parse_header_def)
  next
    case (Some s)
    with r have "scheme_ok s" by simp
    then have "split_once ''://'' (s @ ''://'' @ d) = Some (s, d)"
      by (intro split_once_first colon_not_in_scheme)
    moreover have "strip_suffix HEADER_SUFFIX (s @ ''://'' @ d @ HEADER_SUFFIX) = Some (s @ ''://'' @ d)"
      by (metis append.assoc strip_suffix_append)
    ultimately show ?thesis using r Some by (simp add: parse_header_def)
  qed
qed

lemma opt_lines_cases: "opt_lines tag x @ r = [] \<longleftrightarrow> x = None \<and> r = []"
  by (auto simp: opt_lines_def split: option.splits)

lemma starts_with_tag: "starts_with (c # t) (d # u) \<longleftrightarrow> c = d \<and> starts_with t u"
  "starts_with (c # t) [] \<longleftrightarrow> False"
  by (auto simp: starts_with_def)

lemma hd_opt_lines: "opt_lines tag x @ r \<noteq> [] \<Longrightarrow>
   hd (opt_lines tag x @ r) = (case x of Some v \<Rightarrow> tag @ v | None \<Rightarrow> hd r)"
  by (auto simp: opt_lines_def split: option.splits)

lemmas parse_iffs = next_line_iff tagged_iff optional_iff parse_statement_iff parse_request_id_iff
  parse_header_iff parse_resources_iff

lemma parse_lines_sound:
  assumes "parse_lines ls = Inr f"
  shows "ls = message_lines f \<and> fields_ok f"
  using assms unfolding parse_lines_def
  by (elim and_then_pairE if_InlE)
     (clarsimp simp only: parse_iffs message_lines_def fields_ok_def SiweFields.simps sum.inject
       append.simps append_assoc append_Nil2 simp_thms not_not)

lemma not_starts_with_opt_lines:
  assumes "\<And>v. \<not> starts_with t (tag @ v)" and "r = [] \<or> \<not> starts_with t (hd r)"
  shows "opt_lines tag x @ r = [] \<or> \<not> starts_with t (hd (opt_lines tag x @ r))"
  using assms by (cases x) (auto simp: opt_lines_def)

lemma parse_lines_complete:
  assumes "fields_ok f"
  shows "parse_lines (message_lines f) = Inr f"
proof -
  define rs where "rs = (if sf_resources f = [] then []
    else ''Resources:'' # map (\<lambda>r. ''- '' @ r) (sf_resources f))"
  have r0: "rs = [] \<or> \<not> starts_with t (hd rs)" if "\<not> starts_with t ''Resources:''" for t
    using that by (simp add: rs_def)
  have r1: "opt_lines ''Request ID: '' x @ rs = [] \<or> \<not> starts_with t (hd (opt_lines ''Request ID: '' x @ rs))"
    if "\<And>v. \<not> starts_with t (''Request ID: '' @ v)" "\<not> starts_with t ''Resources:''" for t x
    using that by (intro not_starts_with_opt_lines r0)
  have r2: "opt_lines ''Not Before: '' y @ opt_lines ''Request ID: '' x @ rs = []
      \<or> \<not> starts_with t (hd (opt_lines ''Not Before: '' y @ opt_lines ''Request ID: '' x @ rs))"
    if "\<And>v. \<not> starts_with t (''Not Before: '' @ v)" "\<And>v. \<not> starts_with t (''Request ID: '' @ v)"
      "\<not> starts_with t ''Resources:''" for t x y
    using that by (intro not_starts_with_opt_lines r1)
  have e: "optional ''Expiration Time: '' (opt_lines ''Expiration Time: '' (sf_expiration_time f)
      @ opt_lines ''Not Before: '' (sf_not_before f) @ opt_lines ''Request ID: '' (sf_request_id f) @ rs)
    = Inr (sf_expiration_time f, opt_lines ''Not Before: '' (sf_not_before f)
             @ opt_lines ''Request ID: '' (sf_request_id f) @ rs)"
    using assms r2 [of "''Expiration Time: ''"]
    by (auto simp: optional_iff fields_ok_def opt_lines_def starts_with_tag)
  have n: "optional ''Not Before: '' (opt_lines ''Not Before: '' (sf_not_before f)
      @ opt_lines ''Request ID: '' (sf_request_id f) @ rs)
    = Inr (sf_not_before f, opt_lines ''Request ID: '' (sf_request_id f) @ rs)"
    using assms r1 [of "''Not Before: ''"]
    by (auto simp: optional_iff fields_ok_def opt_lines_def starts_with_tag)
  have q: "parse_request_id (opt_lines ''Request ID: '' (sf_request_id f) @ rs)
    = Inr (sf_request_id f, rs)"
    using assms r0 [of "''Request ID: ''"]
    by (auto simp: parse_request_id_iff fields_ok_def opt_lines_def starts_with_tag)
  have s: "parse_resources rs = Inr (sf_resources f, [])"
    using assms unfolding parse_resources_iff by (simp add: rs_def fields_ok_def)
  have st: "parse_statement ((case sf_statement f of Some s \<Rightarrow> [s] | None \<Rightarrow> []) @ [] # r)
      = Inr (sf_statement f, r)" for r
    using assms by (simp add: parse_statement_iff fields_ok_def)
  have h: "parse_header ((case sf_scheme f of Some s \<Rightarrow> s @ ''://'' | None \<Rightarrow> []) @ sf_domain f
      @ HEADER_SUFFIX) = Inr (sf_scheme f, sf_domain f)"
    using assms unfolding parse_header_iff by (simp add: fields_ok_def)
  have t: "tagged tag ((tag @ v) # r) = Inr (v, r)" if "is_token v" for tag v r
    using that by (simp add: tagged_iff)
  have tok: "is_token (sf_uri f)" "is_token (sf_version f)" "is_token (sf_chain_id f)"
    "is_token (sf_nonce f)" "is_token (sf_issued_at f)"
    using assms by (simp_all add: fields_ok_def)
  show ?thesis
    unfolding parse_lines_def message_lines_def rs_def [symmetric]
    using assms tok
    by (simp only: next_line_def list.case and_then_simps prod.case h st t e n q s fields_ok_def
        if_True if_False simp_thms) simp
qed

lemma to_message_lines: "to_message f = join [CHR 10] (message_lines f)"
  unfolding message_lines_def join_Cons_concat to_message_def
  by (cases "sf_statement f"; cases "sf_expiration_time f"; cases "sf_not_before f"; cases "sf_request_id f")
     (simp_all add: opt_line_def opt_lines_def o_def)

text \<open>The re-serialization check at the end of \<open>parse_strict\<close> never rejects a message the line
  parser accepted.\<close>

lemma reserialization_agrees:
  assumes "parse_lines (split_on (CHR 10) text) = Inr f"
  shows "to_message f = text"
proof -
  from parse_lines_sound [OF assms] have "split_on (CHR 10) text = message_lines f" by simp
  then show ?thesis by (metis join_split_on to_message_lines)
qed

lemma parse_strict_iff:
  "parse_strict text = Inr f \<longleftrightarrow> siwe_wf f \<and> to_message f = text \<and> length text \<le> MAX_MESSAGE_BYTES"
    (is "?l \<longleftrightarrow> ?r")
proof
  assume ?l
  then have len: "length text \<le> MAX_MESSAGE_BYTES" and cr: "CHR 13 \<notin> set text"
    and p: "parse_lines (split_on (CHR 10) text) = Inr f" and m: "to_message f = text"
    by (auto simp: parse_strict_def and_then_Inr_iff)
  have ls: "message_lines f = split_on (CHR 10) text" and "fields_ok f"
    using parse_lines_sound [OF p] by simp_all
  moreover have "list_all single_line (message_lines f)"
    unfolding ls list_all_iff single_line_def
    using split_on_no_sep set_split_on cr by (metis subsetD)
  ultimately show ?r using len m by (simp add: siwe_wf_def)
next
  assume r: ?r
  then have ok: "fields_ok f" and sl: "\<And>l. l \<in> set (message_lines f) \<Longrightarrow> single_line l"
    by (auto simp: siwe_wf_def list_all_iff)
  have "message_lines f \<noteq> []" by (simp add: message_lines_def)
  then have "split_on (CHR 10) text = message_lines f"
    using r sl unfolding to_message_lines by (metis single_line_def split_on_join)
  moreover have "CHR 13 \<notin> set text"
    using r sl set_join [of "[CHR 10]" "message_lines f"] unfolding to_message_lines
    by (auto simp: single_line_def)
  ultimately show ?l using r parse_lines_complete [OF ok] by (simp add: parse_strict_def)
qed

section \<open>The EIP-55 form\<close>

lemma eq_ignore_hex:
  assumes "is_hex_address a" and "is_hex_address b" and "eq_ignore_ascii_case a b"
  shows "to_ascii_lowercase (drop 2 a) = to_ascii_lowercase (drop 2 b)"
  using assms(3) by (simp add: eq_ignore_ascii_case_def to_ascii_lowercase_def flip: drop_map)

lemma list_all_enumerate_iff:
  assumes "\<And>i c. P i c \<longleftrightarrow> g i (h c) = c"
  shows "list_all (\<lambda>(i, c). P i c) (enumerate n b) \<longleftrightarrow> map (\<lambda>(i, c). g i c) (enumerate n (map h b)) = b"
  by (induction b arbitrary: n) (simp_all add: assms)

lemma eip55_char_iff:
  "(if \<not> is_ascii_alphabetic c then True else if q then is_ascii_uppercase c else is_ascii_lowercase c)
    \<longleftrightarrow> (if is_ascii_alphabetic (lower_char c) \<and> q then upper_char (lower_char c) else lower_char c) = c"
  by (auto simp: code_inj [symmetric] code_lower_char code_upper_char ascii_defs)

lemma is_eip55_iff:
  assumes "is_hex_address a"
  shows "is_eip55 X a \<longleftrightarrow> to_eip55 X a = Some a"
proof -
  obtain b where a: "a = ''0x'' @ b" using assms by (auto simp: is_hex_address_def starts_with_iff)
  then have b: "drop 2 a = b" by simp
  have "is_eip55 X a \<longleftrightarrow> map (\<lambda>(i, c). if is_ascii_alphabetic c
        \<and> eip55_nibble (keccak X (as_bytes (to_ascii_lowercase b))) i \<ge> 8 then upper_char c else c)
        (enumerate 0 (map lower_char b)) = b"
    unfolding is_eip55_def Let_def b using assms
    by (simp only: simp_thms) (rule list_all_enumerate_iff, rule eip55_char_iff)
  moreover have "''0x'' @ c = a \<longleftrightarrow> c = b" for c by (simp add: a)
  ultimately show ?thesis
    using assms unfolding to_eip55_def Let_def b to_ascii_lowercase_def by (simp only: simp_thms if_False option.inject)
qed

lemma to_eip55_case_insensitive:
  "is_hex_address a \<Longrightarrow> is_hex_address b \<Longrightarrow> eq_ignore_ascii_case a b \<Longrightarrow> to_eip55 X a = to_eip55 X b"
  unfolding to_eip55_def by (frule (2) eq_ignore_hex) (simp only: if_False simp_thms)

lemma hexdigit_case: "is_ascii_hexdigit (lower_char c) \<longleftrightarrow> is_ascii_hexdigit c"
  "is_ascii_hexdigit (upper_char c) \<longleftrightarrow> is_ascii_hexdigit c"
  by (auto simp: code_lower_char code_upper_char ascii_defs)

lemma enumerate_map_rel:
  assumes "\<And>i c. c \<in> set b \<Longrightarrow> R (g i (h c)) c"
  shows "list_all2 R (map (\<lambda>(i, c). g i c) (enumerate n (map h b))) b"
  using assms by (induction b arbitrary: n) simp_all

lemma to_eip55_result:
  assumes "is_hex_address a"
  obtains c where "to_eip55 X a = Some c" "is_hex_address c" "eq_ignore_ascii_case c a"
proof -
  obtain b where a: "a = ''0x'' @ b" and b: "length b = 40" "list_all is_ascii_hexdigit b"
    using assms by (auto simp: is_hex_address_def starts_with_iff)
  let ?R = "\<lambda>d c. is_ascii_hexdigit d \<and> lower_char d = lower_char c"
  obtain c where c: "to_eip55 X a = Some (''0x'' @ c)" and R: "list_all2 ?R c b"
  proof -
    let ?h = "keccak X (as_bytes (to_ascii_lowercase b))"
    let ?g = "\<lambda>i c. if is_ascii_alphabetic c \<and> eip55_nibble ?h i \<ge> 8 then upper_char c else c"
    have "list_all2 ?R (map (\<lambda>(i, c). ?g i c) (enumerate 0 (map lower_char b))) b"
      using b(2) by (intro enumerate_map_rel) (auto simp: list_all_iff hexdigit_case char_case_simps)
    moreover have "to_eip55 X a = Some (''0x'' @ map (\<lambda>(i, c). ?g i c) (enumerate 0 (map lower_char b)))"
      using assms unfolding a by (simp add: to_eip55_def Let_def to_ascii_lowercase_def)
    ultimately show thesis using that by blast
  qed
  from R have "length c = 40" "list_all is_ascii_hexdigit c" "map lower_char c = map lower_char b"
    using b(1) by (auto simp: list_all2_conv_all_nth list_all_length list_eq_iff_nth_eq)
  then have "is_hex_address (''0x'' @ c)" "eq_ignore_ascii_case (''0x'' @ c) a"
    unfolding a by (simp_all add: is_hex_address_def starts_with_iff eq_ignore_ascii_case_def to_ascii_lowercase_def)
  then show thesis using c that by blast
qed

section \<open>Properties\<close>

text \<open>
  C11. Parser and signer agree: \<open>parse_strict\<close> accepts a text exactly when it is the serialization
  of well-formed fields of at most 2048 bytes, and returns those fields. In particular two
  accepted texts with the same fields are the same bytes, and every well-formed message of that
  size is accepted.
\<close>

theorem parse_strict_exact:
  "parse_strict text = Inr f \<longleftrightarrow> siwe_wf f \<and> to_message f = text \<and> length text \<le> 2048"
  by (simp add: parse_strict_iff MAX_MESSAGE_BYTES_def)

lemma check_times_sound:
  assumes "check_times f ctx = Inr (iat, exp)" and "cc_now_ms ctx < 2 ^ 62"
  shows "int (cc_now_ms ctx) - 300000 \<le> iat" and "iat \<le> int (cc_now_ms ctx) + 60000"
    and "int (cc_now_ms ctx) < exp" and "exp \<le> iat + 86400000"
    and "\<And>nb. sf_not_before f = Some nb \<Longrightarrow>
           \<exists>t. parse_rfc3339_ms nb = Some t \<and> t \<le> int (cc_now_ms ctx) + 60000"
proof -
  let ?now = "int (cc_now_ms ctx)"
  have now: "as_i64 (cc_now_ms ctx) = ?now" using assms(2) by (simp add: as_i64_def)
  have w: "wrap_i64 (?now - 300000) = ?now - 300000" "wrap_i64 (?now + 60000) = ?now + 60000"
    using assms(2) by (auto intro!: wrap_i64_exact)
  from assms(1) have i: "?now - 300000 \<le> iat" "iat \<le> ?now + 60000" and e: "?now < exp"
    and x: "exp \<le> wrap_i64 (iat + 86400000)"
    and n: "case sf_not_before f of None \<Rightarrow> True
            | Some nb \<Rightarrow> (\<exists>t. parse_rfc3339_ms nb = Some t \<and> t \<le> ?now + 60000)"
    by (auto simp: check_times_def Let_def now siwe_consts w and_then_Inr_iff not_less
        split: option.splits)
  have "wrap_i64 (iat + 86400000) = iat + 86400000"
    using i assms(2) by (auto intro!: wrap_i64_exact)
  with i e x n show "?now - 300000 \<le> iat" "iat \<le> ?now + 60000" "?now < exp" "exp \<le> iat + 86400000"
    "\<And>nb. sf_not_before f = Some nb \<Longrightarrow> \<exists>t. parse_rfc3339_ms nb = Some t \<and> t \<le> ?now + 60000"
    by simp_all
qed

lemma check_origin_sound:
  assumes "check_origin X f ctx = Inr u"
  shows "\<exists>att dom ur. url_parse X (cc_attested_origin ctx) = Some att
    \<and> url_parse X (''https://'' @ sf_domain f @ ''/'') = Some dom \<and> url_origin dom = url_origin att
    \<and> url_username dom = [] \<and> url_password dom = None
    \<and> url_parse X (sf_uri f) = Some ur \<and> url_scheme ur = ''https'' \<and> url_origin ur = url_origin att"
  using assms by (auto simp: check_origin_def Let_def and_then_Inr_iff)

lemma alnum_utf8: "list_all is_ascii_alphanumeric s \<Longrightarrow> utf8_chars s = map code s"
  by (rule utf8_chars_ascii) (auto simp: list_all_iff ascii_defs)

lemma check_budgetable_cases:
  assumes "check_budgetable X text ctx = Inr b"
  obtains f iat exp where "parse_strict text = Inr f" "check_origin X f ctx = Inr ()"
    "is_eip55 X (sf_address f)" "eq_ignore_ascii_case (sf_address f) (cc_wallet_address ctx)"
    "sf_version f = ''1''" "parse_u64 (sf_chain_id f) = Some CITRATE_CHAIN_ID"
    "16 \<le> length (sf_nonce f)" "list_all is_ascii_alphanumeric (sf_nonce f)"
    "check_times f ctx = Inr (iat, exp)" "sf_resources f = []"
    "pred_option (\<lambda>st. length (utf8_chars st) \<le> 280 \<and> list_all is_display_safe (utf8_chars st)) (sf_statement f)"
    "b = \<lparr>bs_nonce = sf_nonce f, bs_issued_at_ms = nat (max iat 0), bs_expiration_ms = nat (max exp 0),
          bs_statement = sf_statement f, bs_request_id = sf_request_id f\<rparr>"
proof -
  from assms obtain f iat exp where 1: "parse_strict text = Inr f" "check_origin X f ctx = Inr ()"
    "is_eip55 X (sf_address f)" "eq_ignore_ascii_case (sf_address f) (cc_wallet_address ctx)"
    "sf_version f = ''1''" "parse_u64 (sf_chain_id f) = Some CITRATE_CHAIN_ID"
    "\<not> length (utf8_chars (sf_nonce f)) < MIN_NONCE_LEN" "list_all is_ascii_alphanumeric (sf_nonce f)"
    "check_times f ctx = Inr (iat, exp)" "sf_resources f = []"
    "\<not> (case sf_statement f of
           Some st \<Rightarrow> length (utf8_chars st) > MAX_STATEMENT_CHARS \<or> \<not> list_all is_display_safe (utf8_chars st)
         | None \<Rightarrow> False)"
    "b = \<lparr>bs_nonce = sf_nonce f, bs_issued_at_ms = nat (max iat 0), bs_expiration_ms = nat (max exp 0),
          bs_statement = sf_statement f, bs_request_id = sf_request_id f\<rparr>"
    unfolding check_budgetable_def
    by (elim and_then_pairE and_then_Inr_cases if_InlE) (simp add: CHAIN_ALLOWLIST_def)
  moreover have "16 \<le> length (sf_nonce f)"
    using 1(7) alnum_utf8 [OF 1(8)] by (simp add: MIN_NONCE_LEN_def)
  moreover have "pred_option (\<lambda>st. length (utf8_chars st) \<le> 280 \<and> list_all is_display_safe (utf8_chars st)) (sf_statement f)"
    using 1(11) by (auto simp: MAX_STATEMENT_CHARS_def split: option.splits)
  ultimately show thesis using that by blast
qed

text \<open>
  C12. Soundness of the budget checks. A message \<open>check_budgetable\<close> accepts is a well-formed
  message whose domain and URI have the attested origin, whose address is the wallet's in EIP-55
  form, for chain 40204, with a nonce of at least 16 letters and digits, without resources, with
  a short statement free of control and direction characters, issued at most five
  minutes ago and at most one minute ahead, not expired, living at most 24 hours, and the
  summary it returns carries those values.
\<close>

theorem check_budgetable_sound:
  assumes "check_budgetable X text ctx = Inr b" and "cc_now_ms ctx < 2 ^ 62"
  shows "\<exists>f att dom ur. siwe_wf f \<and> text = to_message f \<and> length text \<le> 2048
    \<and> url_parse X (cc_attested_origin ctx) = Some att
    \<and> url_parse X (''https://'' @ sf_domain f @ ''/'') = Some dom \<and> url_origin dom = url_origin att
    \<and> url_parse X (sf_uri f) = Some ur \<and> url_scheme ur = ''https'' \<and> url_origin ur = url_origin att
    \<and> is_eip55 X (sf_address f) \<and> eq_ignore_ascii_case (sf_address f) (cc_wallet_address ctx)
    \<and> sf_version f = ''1'' \<and> parse_u64 (sf_chain_id f) = Some 40204
    \<and> bs_nonce b = sf_nonce f \<and> 16 \<le> length (bs_nonce b) \<and> list_all is_ascii_alphanumeric (bs_nonce b)
    \<and> cc_now_ms ctx \<le> bs_issued_at_ms b + 300000 \<and> bs_issued_at_ms b \<le> cc_now_ms ctx + 60000
    \<and> cc_now_ms ctx < bs_expiration_ms b \<and> bs_expiration_ms b \<le> bs_issued_at_ms b + 86400000
    \<and> sf_resources f = [] \<and> bs_statement b = sf_statement f
    \<and> pred_option (\<lambda>st. length (utf8_chars st) \<le> 280 \<and> list_all is_display_safe (utf8_chars st)) (bs_statement b)"
proof -
  from assms(1) obtain f iat exp where f: "parse_strict text = Inr f" "check_origin X f ctx = Inr ()"
    "is_eip55 X (sf_address f)" "eq_ignore_ascii_case (sf_address f) (cc_wallet_address ctx)"
    "sf_version f = ''1''" "parse_u64 (sf_chain_id f) = Some CITRATE_CHAIN_ID"
    "16 \<le> length (sf_nonce f)" "list_all is_ascii_alphanumeric (sf_nonce f)"
    "check_times f ctx = Inr (iat, exp)" "sf_resources f = []"
    "pred_option (\<lambda>st. length (utf8_chars st) \<le> 280 \<and> list_all is_display_safe (utf8_chars st)) (sf_statement f)"
    and b: "b = \<lparr>bs_nonce = sf_nonce f, bs_issued_at_ms = nat (max iat 0), bs_expiration_ms = nat (max exp 0),
          bs_statement = sf_statement f, bs_request_id = sf_request_id f\<rparr>"
    by (rule check_budgetable_cases)
  from check_origin_sound [OF f(2)] obtain att dom ur
    where "url_parse X (cc_attested_origin ctx) = Some att"
      "url_parse X (''https://'' @ sf_domain f @ ''/'') = Some dom" "url_origin dom = url_origin att"
      "url_parse X (sf_uri f) = Some ur" "url_scheme ur = ''https''" "url_origin ur = url_origin att"
    by blast
  note o = this
  note t = check_times_sound [OF f(9) assms(2)]
  have "siwe_wf f \<and> to_message f = text \<and> length text \<le> 2048"
    using f(1) by (simp add: parse_strict_iff MAX_MESSAGE_BYTES_def)
  moreover have "cc_now_ms ctx \<le> bs_issued_at_ms b + 300000 \<and> bs_issued_at_ms b \<le> cc_now_ms ctx + 60000
    \<and> cc_now_ms ctx < bs_expiration_ms b \<and> bs_expiration_ms b \<le> bs_issued_at_ms b + 86400000"
    unfolding b using t(1-4) by auto
  moreover have "parse_u64 (sf_chain_id f) = Some 40204"
    using f(6) by (simp add: CITRATE_CHAIN_ID_def)
  moreover have "bs_nonce b = sf_nonce f" "bs_statement b = sf_statement f" by (simp_all add: b)
  ultimately show ?thesis
    using o f(3,4,5,7,8,10,11)
    by (intro exI [of _ f] exI [of _ att] exI [of _ dom] exI [of _ ur]) (simp only: simp_thms)
qed

definition sample_fields :: SiweFields where
  "sample_fields =
     \<lparr>sf_scheme = None, sf_domain = ''app.example'',
      sf_address = ''0x1111111111111111111111111111111111111111'', sf_statement = Some ''Sign in.'',
      sf_uri = ''https://app.example/login'', sf_version = ''1'', sf_chain_id = ''40204'',
      sf_nonce = ''abcdefgh12345678'', sf_issued_at = ''2026-10-05T12:00:00Z'',
      sf_expiration_time = Some ''2026-10-05T13:00:00Z'', sf_not_before = None,
      sf_request_id = None, sf_resources = []\<rparr>"

definition sample_ctx :: SiweCheckContext where
  "sample_ctx = \<lparr>cc_attested_origin = ''https://app.example'',
     cc_wallet_address = ''0x1111111111111111111111111111111111111111'', cc_now_ms = 1791201630000\<rparr>"

lemmas text_eval = is_token_def is_whitespace_def is_control_def ascii_defs code_def starts_with_def
  digit_val_def from_str_radix_def Let_def num_def parse_fraction_def parse_offset_def
  parse_rfc3339_ms_def days_in_month_def epoch_ms_def days_from_civil_closed nth_Cons'

lemma sample_times:
  "parse_rfc3339_ms ''2026-10-05T12:00:00Z'' = Some 1791201600000"
  "parse_rfc3339_ms ''2026-10-05T13:00:00Z'' = Some 1791205200000"
  by (simp_all add: text_eval)

lemma sample_domain: "''app.example'' \<noteq> a @ ''://'' @ b"
proof
  assume "''app.example'' = a @ ''://'' @ b"
  then have "CHR ''/'' \<in> set ''app.example''" by simp
  then show False by simp
qed

lemma sample_fields_ok: "fields_ok sample_fields"
  unfolding fields_ok_def sample_fields_def
  by (simp add: sample_times time_ok_def chain_id_ok_def is_hex_address_def sample_domain [simplified])
     (simp add: text_eval)

lemma sample_parse: "parse_strict (to_message sample_fields) = Inr sample_fields"
  unfolding parse_strict_iff siwe_wf_def
  by (simp add: sample_fields_ok)
     (simp add: message_lines_def sample_fields_def opt_lines_def HEADER_SUFFIX_def single_line_def
        to_message_def opt_line_def MAX_MESSAGE_BYTES_def)

lemma sample_checks:
  "check_budgetable (ref_with m) (to_message sample_fields) sample_ctx =
     Inr \<lparr>bs_nonce = ''abcdefgh12345678'', bs_issued_at_ms = 1791201600000,
          bs_expiration_ms = 1791205200000, bs_statement = Some ''Sign in.'', bs_request_id = None\<rparr>"
proof -
  have o: "check_origin (ref_with m) sample_fields sample_ctx = Inr ()"
    by (simp add: check_origin_def sample_fields_def sample_ctx_def url_parse_ref_def url_ref_def)
  have t: "check_times sample_fields sample_ctx = Inr (1791201600000, 1791205200000)"
    by (simp add: check_times_def sample_fields_def sample_ctx_def sample_times as_i64_def
        wrap_i64_exact siwe_consts)
  have e: "is_eip55 (ref_with m) (sf_address sample_fields)"
    by (simp add: is_eip55_def sample_fields_def is_hex_address_def text_eval)
  show ?thesis
    unfolding check_budgetable_def sample_parse
    by (simp add: o t e)
       (simp add: t [unfolded sample_fields_def sample_ctx_def] sample_fields_def sample_ctx_def
         siwe_consts is_display_safe_def text_eval)
qed

theorem check_budgetable_sound_witness:
  "check_budgetable ref_deps (to_message sample_fields) sample_ctx =
     Inr \<lparr>bs_nonce = ''abcdefgh12345678'', bs_issued_at_ms = 1791201600000,
          bs_expiration_ms = 1791205200000, bs_statement = Some ''Sign in.'', bs_request_id = None\<rparr>
   \<and> (\<exists>f att. to_message sample_fields = to_message f \<and> siwe_wf f
        \<and> url_parse ref_deps (cc_attested_origin sample_ctx) = Some att)"
proof -
  have "cc_now_ms sample_ctx < 2 ^ 62" by (simp add: sample_ctx_def)
  from check_budgetable_sound [OF sample_checks [of "()"] this] sample_checks [of "()"]
  show ?thesis by blast
qed

text \<open>
  Every hex address has an EIP-55 form, which \<open>to_eip55\<close> computes, \<open>is_eip55\<close> accepts, and which
  is the only spelling of the address that \<open>is_eip55\<close> accepts, whatever the digest function.
\<close>

theorem eip55_form_unique:
  assumes "is_hex_address a"
  shows "\<exists>c. to_eip55 X a = Some c \<and> is_eip55 X c \<and> eq_ignore_ascii_case c a
    \<and> (\<forall>b. is_eip55 X b \<and> eq_ignore_ascii_case b a \<longrightarrow> b = c)"
proof -
  obtain c where c: "to_eip55 X a = Some c" "is_hex_address c" "eq_ignore_ascii_case c a"
    using to_eip55_result [OF assms] .
  have same: "to_eip55 X b = Some c" if "is_hex_address b" "eq_ignore_ascii_case b a" for b
    using to_eip55_case_insensitive [OF that(1) assms that(2)] c(1) by metis
  have "b = c" if "is_eip55 X b" "eq_ignore_ascii_case b a" for b
  proof -
    from that(1) have "is_hex_address b" by (simp add: is_eip55_def)
    with that same is_eip55_iff show ?thesis by (metis option.inject)
  qed
  moreover have "is_eip55 X c" using same [OF c(2,3)] is_eip55_iff [OF c(2), of X] by simp
  ultimately show ?thesis using c by blast
qed

theorem eip55_form_unique_witness:
  "is_hex_address ''0x1111111111111111111111111111111111111111''
   \<and> (\<exists>c. to_eip55 ref_deps ''0x1111111111111111111111111111111111111111'' = Some c
        \<and> is_eip55 ref_deps c)"
proof -
  have "is_hex_address ''0x1111111111111111111111111111111111111111''"
    by (simp add: is_hex_address_def text_eval)
  then show ?thesis using eip55_form_unique [of _ ref_deps] by blast
qed

text \<open>
  What \<open>normalize_allowlist_origin\<close> lets onto the allowlist: the origin of an https URL with a
  domain name of at least two labels that is not local, without credentials, query or fragment,
  written with its host in lower case and with its port when that is not the default one.
\<close>

theorem allowlist_origin_sound:
  assumes "https_origin_law X" and "normalize_allowlist_origin X input = Inr out"
  shows "\<exists>u h p. url_parse X (trim input) = Some u \<and> url_origin u = TupleOrigin ''https'' (Domain h) p
    \<and> url_username u = [] \<and> url_password u = None \<and> url_query u = None \<and> url_fragment u = None
    \<and> (url_path u = ''/'' \<or> url_path u = [])
    \<and> CHR ''.'' \<in> set (to_ascii_lowercase h) \<and> to_ascii_lowercase h \<noteq> ''localhost''
    \<and> \<not> ends_with ''.localhost'' (to_ascii_lowercase h) \<and> \<not> ends_with ''.'' (to_ascii_lowercase h)
    \<and> out = ''https://'' @ to_ascii_lowercase h @ (if url_port u = None then [] else '':'' @ show_nat p)"
proof -
  from assms(2) obtain u h where u: "url_parse X (trim input) = Some u" "url_scheme u = ''https''"
    "url_host u = Some (Domain h)" "url_username u = []" "url_password u = None" "url_query u = None"
    "url_fragment u = None" "url_path u = ''/'' \<or> url_path u = []"
    and host: "CHR ''.'' \<in> set (to_ascii_lowercase h)" "to_ascii_lowercase h \<noteq> ''localhost''"
      "\<not> ends_with ''.localhost'' (to_ascii_lowercase h)" "\<not> ends_with ''.'' (to_ascii_lowercase h)"
    and out: "out = (case url_port u of
            Some p \<Rightarrow> ''https://'' @ to_ascii_lowercase h @ '':'' @ show_nat p
          | None \<Rightarrow> ''https://'' @ to_ascii_lowercase h)"
    unfolding normalize_allowlist_origin_def
    by (elim and_then_Inr_cases if_InlE) (auto split: option.splits Host.splits)
  have "url_origin u = TupleOrigin ''https'' (Domain h) (case url_port u of Some p \<Rightarrow> p | None \<Rightarrow> 443)"
    using assms(1) u(1-3) by (simp add: https_origin_law_def)
  then show ?thesis using u host out by (auto split: option.splits)
qed

lemma strip_any_None: "(\<And>p. p \<in> set ps \<Longrightarrow> p \<noteq> [] \<and> s \<noteq> [] \<and> hd p \<noteq> hd s) \<Longrightarrow> strip_any ps s = None"
proof (induction ps)
  case (Cons p ps)
  have "p \<noteq> [] \<and> s \<noteq> [] \<and> hd p \<noteq> hd s" by (rule Cons.prems) simp
  then have "strip_prefix p s = None" by (cases p; cases s) auto
  moreover have "strip_any ps s = None" by (rule Cons.IH) (rule Cons.prems, simp)
  ultimately show ?case by simp
qed simp

lemma ws_ends:
  "p \<in> set ws_encodings \<Longrightarrow> p \<noteq> [] \<and> (code (hd p) \<le> 32 \<or> 127 \<le> code (hd p))
     \<and> (code (hd (rev p)) \<le> 32 \<or> 127 \<le> code (hd (rev p)))"
  by (auto simp: ws_encodings_def encode_bmp_def code_char_of)

lemma trim_printable:
  assumes "s \<noteq> []" "33 \<le> code (hd s)" "code (hd s) \<le> 126" "33 \<le> code (last s)" "code (last s) \<le> 126"
  shows "trim s = s"
proof -
  have "strip_any ws_encodings s = None"
    using assms ws_ends by (intro strip_any_None) fastforce
  moreover have "strip_any (map rev ws_encodings) (rev s) = None"
    using assms ws_ends by (intro strip_any_None) (fastforce simp: hd_rev)
  ultimately show ?thesis by (simp add: trim_def trim_with.simps)
qed

lemma sample_normalize:
  "normalize_allowlist_origin (ref_with m) ''https://app.example/'' = Inr ''https://app.example''"
  "normalize_allowlist_origin (ref_with m) ''https://app.example'' = Inr ''https://app.example''"
proof -
  have t: "trim ''https://app.example/'' = ''https://app.example/''"
    "trim ''https://app.example'' = ''https://app.example''"
    by (rule trim_printable; simp add: code_def)+
  show "normalize_allowlist_origin (ref_with m) ''https://app.example/'' = Inr ''https://app.example''"
    "normalize_allowlist_origin (ref_with m) ''https://app.example'' = Inr ''https://app.example''"
    by (simp_all add: normalize_allowlist_origin_def t url_parse_ref_def url_ref_def to_ascii_lowercase_def
        lower_char_def ascii_defs code_def ends_with_def strip_suffix_def)
qed

theorem allowlist_origin_sound_witness:
  "normalize_allowlist_origin ref_deps ''https://app.example/'' = Inr ''https://app.example''
   \<and> (\<exists>u h p. url_parse ref_deps (trim ''https://app.example/'') = Some u
        \<and> url_origin u = TupleOrigin ''https'' (Domain h) p)"
  using allowlist_origin_sound [OF https_origin_law_ref sample_normalize(1) [of "()"]]
    sample_normalize(1) [of "()"] by blast

end
