(* ===== verification/Bytes.thy ===== *)
theory Bytes
  imports Prelude
begin

text \<open>
  Big-endian numbers: \<open>to_be_bytes\<close> and \<open>from_be_bytes\<close> of the standard library as \<open>be_bytes\<close> and
  \<open>be_val\<close>, the value of a list of 64-bit limbs, and decimal digits. Shared by the EIP-712 hasher,
  the transaction encoder and the ABI decoder, which all read and print 256-bit words.
\<close>

section \<open>Big-endian bytes\<close>

fun be_bytes :: "nat \<Rightarrow> nat \<Rightarrow> bytes" where
  "be_bytes 0 v = []"
| "be_bytes (Suc n) v = be_bytes n (v div 256) @ [word_of_nat (v mod 256)]"

definition be_val :: "bytes \<Rightarrow> nat" where
  "be_val bs = foldl (\<lambda>a b. a * 256 + unat b) 0 bs"

lemma length_be_bytes [simp]: "length (be_bytes n v) = n"
  by (induction n arbitrary: v) auto

lemma be_val_append_one: "be_val (bs @ [b]) = be_val bs * 256 + unat b"
  by (simp add: be_val_def)

lemma be_val_Nil [simp]: "be_val [] = 0"
  by (simp add: be_val_def)

lemma foldl_be: "foldl (\<lambda>a b. a * 256 + unat (b :: byte)) a bs = a * 256 ^ length bs + be_val bs"
proof (induction bs rule: rev_induct)
  case (snoc b bs)
  then show ?case by (simp add: be_val_append_one algebra_simps)
qed simp

lemma be_val_append: "be_val (xs @ ys) = be_val xs * 256 ^ length ys + be_val ys"
  using foldl_be [of "be_val xs" ys] by (simp add: be_val_def)

lemma be_val_Cons: "be_val (b # bs) = unat b * 256 ^ length bs + be_val bs"
  using be_val_append [of "[b]" bs] by (simp add: be_val_def)

lemma byte_bound: "unat (b :: byte) < 256"
  using unsigned_less [of b] by simp

lemma be_val_bound: "be_val bs < 256 ^ length bs"
proof (induction bs rule: rev_induct)
  case (snoc b bs)
  then have "be_val bs * 256 + unat b < (be_val bs + 1) * 256" using byte_bound [of b] by simp
  also have "\<dots> \<le> 256 ^ length bs * 256" using snoc by (intro mult_le_mono1) simp
  finally show ?case by (simp add: be_val_append_one mult.commute)
qed simp

lemma be_val_be_bytes: "be_val (be_bytes n v) = v mod 256 ^ n"
proof (induction n arbitrary: v)
  case (Suc n)
  have "v div 256 mod 256 ^ n * 256 + v mod 256 = v mod 256 ^ Suc n"
    by (simp add: mod_mult2_eq algebra_simps)
  then show ?case using Suc by (simp add: be_val_append_one unat_of_nat mod_mod_cancel)
qed simp

lemma be_bytes_be_val: "be_bytes (length bs) (be_val bs) = bs"
proof (induction bs rule: rev_induct)
  case (snoc b bs)
  then show ?case using byte_bound [of b] by (simp add: be_val_append_one)
qed simp

lemma be_bytes_be_val': "length bs = n \<Longrightarrow> be_bytes n (be_val bs) = bs"
  using be_bytes_be_val by blast

lemma be_val_inj: "length xs = length ys \<Longrightarrow> be_val xs = be_val ys \<longleftrightarrow> xs = ys"
  by (metis be_bytes_be_val)

lemma be_bytes_append: "be_bytes (m + n) v = be_bytes m (v div 256 ^ n) @ be_bytes n v"
  by (induction n arbitrary: v) (simp_all add: div_mult2_eq)

lemma be_bytes_small: "v < 256 ^ n \<Longrightarrow> be_bytes (m + n) v = replicate m 0 @ be_bytes n v"
proof -
  assume "v < 256 ^ n"
  then have "v div 256 ^ n = 0" by simp
  moreover have "be_bytes m 0 = replicate m 0"
    by (induction m) (simp_all add: replicate_append_same)
  ultimately show ?thesis by (simp add: be_bytes_append)
qed

section \<open>Limbs\<close>

definition limbs_val :: "64 word list \<Rightarrow> nat" where
  "limbs_val ls = foldl (\<lambda>a l. a * 2 ^ 64 + unat l) 0 ls"

definition limb_bytes :: "64 word list \<Rightarrow> bytes" where
  "limb_bytes ls = concat (map (\<lambda>l. be_bytes 8 (unat l)) ls)"

text \<open>The four limbs of a 32-byte word (\<open>u64::from_be_bytes\<close> of each eight bytes).\<close>

definition word_limbs :: "bytes \<Rightarrow> 64 word list" where
  "word_limbs w = map (\<lambda>i. word_of_nat (be_val (take 8 (drop (i * 8) w)))) [0, 1, 2, 3]"

lemma limbs_val_append_one: "limbs_val (ls @ [l]) = limbs_val ls * 2 ^ 64 + unat l"
  by (simp add: limbs_val_def)

lemma limbs_val_Nil [simp]: "limbs_val [] = 0"
  by (simp add: limbs_val_def)

lemma foldl_limbs: "foldl (\<lambda>a l. a * 2 ^ 64 + unat (l :: 64 word)) a ls = a * 2 ^ (64 * length ls) + limbs_val ls"
proof (induction ls rule: rev_induct)
  case (snoc l ls)
  then show ?case by (simp add: limbs_val_append_one algebra_simps power_add)
qed simp

lemma limbs_val_Cons: "limbs_val (l # ls) = unat l * 2 ^ (64 * length ls) + limbs_val ls"
  using foldl_limbs [of "unat l" ls] by (simp add: limbs_val_def)

lemma limbs_val_zero_iff: "limbs_val ls = 0 \<longleftrightarrow> \<not> list_ex (\<lambda>l. l \<noteq> 0) ls"
  by (induction ls) (auto simp: limbs_val_Cons unat_eq_0)

lemma limb_bound: "unat (l :: 64 word) < 2 ^ 64"
  using unsigned_less [of l] by simp

lemma limbs_val_bound: "limbs_val ls < 2 ^ (64 * length ls)"
proof (induction ls rule: rev_induct)
  case (snoc l ls)
  have "limbs_val ls * 2 ^ 64 + unat l < (limbs_val ls + 1) * 2 ^ 64" using limb_bound [of l] by simp
  also have "\<dots> \<le> 2 ^ (64 * length ls) * 2 ^ 64" using snoc by (intro mult_le_mono1) simp
  finally show ?case by (simp add: limbs_val_append_one power_add mult.commute)
qed simp

lemma length_limb_bytes: "length (limb_bytes ls) = 8 * length ls"
  by (induction ls) (auto simp: limb_bytes_def)

lemma be_val_limb_bytes: "be_val (limb_bytes ls) = limbs_val ls"
proof (induction ls rule: rev_induct)
  case (snoc l ls)
  have "be_val (limb_bytes (ls @ [l])) = be_val (limb_bytes ls) * 256 ^ 8 + be_val (be_bytes 8 (unat l))"
    by (simp add: limb_bytes_def be_val_append)
  also have "be_val (be_bytes 8 (unat l)) = unat l"
    using limb_bound [of l] by (simp add: be_val_be_bytes)
  finally show ?case using snoc by (simp add: limbs_val_append_one)
qed (simp add: limb_bytes_def)

lemma limbs_val_word_limbs:
  assumes "length w = 32"
  shows "limbs_val (word_limbs w) = be_val w"
proof -
  have chunk: "unat (word_of_nat (be_val (take 8 (drop n w))) :: 64 word) = be_val (take 8 (drop n w))" for n
  proof -
    have "be_val (take 8 (drop n w)) < 256 ^ length (take 8 (drop n w))" by (rule be_val_bound)
    also have "\<dots> \<le> 256 ^ 8" by (intro power_increasing) auto
    finally show ?thesis by (simp add: unat_of_nat)
  qed
  have step: "be_val (take (n + 8) w) = be_val (take n w) * 256 ^ 8 + be_val (take 8 (drop n w))"
    if "n + 8 \<le> 32" for n
    using that assms unfolding take_add be_val_append by simp
  have "be_val w = be_val (take (24 + 8) w)" using assms by simp
  also have "\<dots> = ((be_val (take 8 w) * 256 ^ 8 + be_val (take 8 (drop 8 w))) * 256 ^ 8
      + be_val (take 8 (drop 16 w))) * 256 ^ 8 + be_val (take 8 (drop 24 w))"
    using step [of 24] step [of 16] step [of 8] by simp
  finally have "be_val w = ((be_val (take 8 w) * 256 ^ 8 + be_val (take 8 (drop 8 w))) * 256 ^ 8
      + be_val (take 8 (drop 16 w))) * 256 ^ 8 + be_val (take 8 (drop 24 w))" .
  then show ?thesis
    by (simp add: word_limbs_def limbs_val_def chunk chunk [of 0, simplified])
qed

section \<open>Decimal digits\<close>

lemma digit_val_ascii: "is_ascii_digit c \<Longrightarrow> digit_val 10 c = Some (code c - 48)"
  by (auto simp: digit_val_def is_ascii_digit_def Let_def)

lemma digits_val_digits: "list_all is_ascii_digit s \<Longrightarrow> \<exists>v. digits_val 10 acc s = Some v"
  by (induction s arbitrary: acc) (auto simp: digit_val_ascii)

text \<open>Dropping the last \<open>d\<close> digits of a decimal numeral divides it by \<open>10 ^ d\<close>.\<close>

lemma show_nat_take:
  "d < length (show_nat n) \<Longrightarrow> take (length (show_nat n) - d) (show_nat n) = show_nat (n div 10 ^ d)"
proof (induction d arbitrary: n)
  case (Suc d)
  then have "10 \<le> n" by (cases "n < 10") (auto simp: show_nat.simps [of n])
  then have s: "show_nat n = show_nat (n div 10) @ [digit_char (n mod 10)]"
    by (simp add: show_nat.simps [of n])
  with Suc.prems have "d < length (show_nat (n div 10))" by simp
  from Suc.IH [OF this] show ?case by (simp add: s div_mult2_eq)
qed simp

lemma digits_val_drop_show_nat:
  "d \<le> length (show_nat n) \<Longrightarrow>
   digits_val 10 0 (drop (length (show_nat n) - d) (show_nat n)) = Some (n mod 10 ^ d)"
proof (induction d arbitrary: n)
  case (Suc d)
  show ?case
  proof (cases "n < 10")
    case True
    then have "d = 0" "show_nat n = [digit_char n]" using Suc.prems by (auto simp: show_nat.simps [of n])
    with True show ?thesis by simp
  next
    case False
    then have s: "show_nat n = show_nat (n div 10) @ [digit_char (n mod 10)]"
      by (simp add: show_nat.simps [of n])
    with Suc.prems have "d \<le> length (show_nat (n div 10))" by simp
    from Suc.IH [OF this] show ?thesis
      by (simp add: s digits_val_append mod_mult2_eq algebra_simps)
  qed
qed simp

end
