(* ===== verification/Eip712.thy ===== *)
theory Eip712
  imports Externals Bytes
begin

unbundle bit_operations_syntax

text \<open>
  \<open>kit/src/eip712.rs\<close>: the EIP-712 hasher for the pinned \<open>TransferWithAuthorization\<close> template, the
  256-bit decimal conversions on four 64-bit limbs, and the numbers the approval card shows.
  Keccak-256, the hex codec and the operations of a \<open>k256\<close> signature are parameters. The results:
  the limb arithmetic computes the decimal value exactly (parse and print are inverse, overflow
  is refused), the amount on the card is the amount that is hashed, and the signing digest
  determines the authorization as far as the hash is injective.
\<close>

section \<open>Definitions\<close>

definition EIP712_DOMAIN_TYPE :: string where
  "EIP712_DOMAIN_TYPE =
     ''EIP712Domain(string name,string version,uint256 chainId,address verifyingContract)''"

definition TRANSFER_WITH_AUTHORIZATION_TYPE :: string where
  "TRANSFER_WITH_AUTHORIZATION_TYPE =
     ''TransferWithAuthorization(address from,address to,uint256 value,uint256 validAfter,uint256 validBefore,bytes32 nonce)''"

datatype Eip712Error = BadAddress | BadUint | EmptyWindow

definition eip712_error_text :: "Eip712Error \<Rightarrow> string" where
  "eip712_error_text e =
     (case e of
        BadAddress \<Rightarrow> ''not a 20-byte hex address''
      | BadUint \<Rightarrow> ''not a whole number in the uint256 range''
      | EmptyWindow \<Rightarrow> ''the validity window is empty (validBefore must be after validAfter)'')"

definition type_hash :: "'x deps_scheme \<Rightarrow> string \<Rightarrow> bytes" where
  "type_hash X encode_type = keccak X (as_bytes encode_type)"

definition hash_struct :: "'x deps_scheme \<Rightarrow> bytes \<Rightarrow> bytes list \<Rightarrow> bytes" where
  "hash_struct X th members = keccak X (th @ concat members)"

definition typed_data_digest :: "'x deps_scheme \<Rightarrow> bytes \<Rightarrow> bytes \<Rightarrow> bytes" where
  "typed_data_digest X domain_separator struct_hash =
     keccak X ([0x19, 0x01] @ domain_separator @ struct_hash)"

definition address_word :: "bytes \<Rightarrow> bytes" where
  "address_word addr = replicate 12 0 @ addr"

definition u64_word :: "nat \<Rightarrow> bytes" where
  "u64_word v = replicate 24 0 @ be_bytes 8 v"

definition string_word :: "'x deps_scheme \<Rightarrow> string \<Rightarrow> bytes" where
  "string_word X s = keccak X (as_bytes s)"

definition parse_address :: "'x deps_scheme \<Rightarrow> string \<Rightarrow> Eip712Error + bytes" where
  "parse_address X s =
     and_then (ok_or BadAddress (strip_prefix ''0x'' s)) (\<lambda>hex_part.
     if length hex_part \<noteq> 40 then Inl BadAddress else
     ok_or BadAddress (hex_decode X hex_part))"

text \<open>One digit of \<open>parse_u256_dec\<close>: the limbs times ten plus the carry, least significant limb
  first. \<open>v as u64\<close> keeps the low 64 bits of the 128-bit product, \<open>v >> 64\<close> carries on.\<close>

fun mul_limbs :: "64 word list \<Rightarrow> 128 word \<Rightarrow> 64 word list \<times> 128 word" where
  "mul_limbs [] carry = ([], carry)"
| "mul_limbs (limb # limbs) carry =
     (let v = ucast limb * 10 + carry;
          (limbs', carry') = mul_limbs limbs (drop_bit 64 v)
      in (ucast v # limbs', carry'))"

definition push_digit :: "64 word list \<Rightarrow> 128 word \<Rightarrow> 64 word list \<times> 128 word" where
  "push_digit limbs d = (let (ls, carry) = mul_limbs (rev limbs) d in (rev ls, carry))"

fun u256_digits :: "64 word list \<Rightarrow> string \<Rightarrow> Eip712Error + 64 word list" where
  "u256_digits limbs [] = Inr limbs"
| "u256_digits limbs (b # s) =
     (let (limbs', carry) = push_digit limbs (word_of_nat (code b - 48))
      in if carry \<noteq> 0 then Inl BadUint else u256_digits limbs' s)"

definition parse_u256_dec :: "string \<Rightarrow> Eip712Error + bytes" where
  "parse_u256_dec s =
     (if s = [] \<or> length s > 78 \<or> \<not> list_all is_ascii_digit s then Inl BadUint
      else and_then (u256_digits [0, 0, 0, 0] s) (\<lambda>limbs. Inr (limb_bytes limbs)))"

text \<open>One pass of the division loop of \<open>u256_to_dec\<close>, most significant limb first.\<close>

fun div_limbs :: "128 word \<Rightarrow> 64 word list \<Rightarrow> 64 word list \<times> 128 word" where
  "div_limbs rem [] = ([], rem)"
| "div_limbs rem (limb # limbs) =
     (let cur = push_bit 64 rem OR ucast limb;
          (limbs', rem') = div_limbs (cur mod 10) limbs
      in (ucast (cur div 10) # limbs', rem'))"

lemma limb_times_ten:
  fixes limb :: "64 word" and c :: "128 word"
  assumes "unat c \<le> 9"
  shows "unat (ucast limb * 10 + c :: 128 word) = unat limb * 10 + unat c"
proof -
  have u: "unat (ucast limb :: 128 word) = unat limb"
    using limb_bound [of limb] by (simp add: unsigned_ucast_eq take_bit_eq_mod)
  have "unat limb * 10 + unat c < 2 ^ 128" using limb_bound [of limb] assms by simp
  then show ?thesis using u by (simp add: unat_word_ariths)
qed

lemma unat_low64: "unat (ucast (v :: 128 word) :: 64 word) = unat v mod 2 ^ 64"
  by (simp add: unsigned_ucast_eq take_bit_eq_mod)

lemma unat_high64: "unat (drop_bit 64 (v :: 128 word)) = unat v div 2 ^ 64"
  by (simp add: drop_bit_eq_div unat_div)

lemma join_limb:
  fixes limb :: "64 word" and r :: "128 word"
  assumes "unat r < 10"
  shows "unat (push_bit 64 r OR ucast limb) = unat r * 2 ^ 64 + unat limb"
proof -
  have u: "unat (ucast limb :: 128 word) = unat limb"
    using limb_bound [of limb] by (simp add: unsigned_ucast_eq take_bit_eq_mod)
  have "push_bit 64 r AND (ucast limb :: 128 word) = 0"
    by (rule bit_word_eqI) (auto simp: bit_simps dest: bit_imp_le_length)
  then have "push_bit 64 r OR ucast limb = push_bit 64 r + (ucast limb :: 128 word)"
    by (simp add: disjunctive_add_eq_or)
  moreover have "unat r * 2 ^ 64 + unat limb < 2 ^ 128" using limb_bound [of limb] assms by simp
  ultimately show ?thesis using u
    by (simp add: push_bit_eq_mult unat_word_ariths)
qed

lemma div_limbs_spec:
  "unat r < 10 \<Longrightarrow> div_limbs r ls = (ls', r') \<Longrightarrow>
   length ls' = length ls \<and> unat r' < 10
   \<and> unat r * 2 ^ (64 * length ls) + limbs_val ls = 10 * limbs_val ls' + unat r'"
proof (induction ls arbitrary: r ls')
  case (Cons l ls)
  let ?cur = "push_bit 64 r OR ucast l :: 128 word"
  obtain qs where d: "div_limbs (?cur mod 10) ls = (qs, r')" and ls': "ls' = ucast (?cur div 10) # qs"
    using Cons.prems(2) by (auto simp: Let_def split: prod.splits)
  have cur: "unat ?cur = unat r * 2 ^ 64 + unat l" using Cons.prems(1) by (rule join_limb)
  have m: "unat (?cur mod 10) = unat ?cur mod 10" and q: "unat (?cur div 10) = unat ?cur div 10"
    by (simp_all add: unat_mod unat_div)
  have "unat ?cur < 10 * 2 ^ 64" using cur Cons.prems(1) limb_bound [of l] by simp
  then have "unat ?cur div 10 < 2 ^ 64" by (simp only: less_mult_imp_div_less mult.commute)
  then have q': "unat (ucast (?cur div 10) :: 64 word) = unat ?cur div 10"
    using q by (simp add: unat_low64)
  have IH: "length qs = length ls" "unat r' < 10"
    "unat (?cur mod 10) * 2 ^ (64 * length ls) + limbs_val ls = 10 * limbs_val qs + unat r'"
    using Cons.IH [OF _ d] m by simp_all
  have "unat r * 2 ^ (64 * length (l # ls)) + limbs_val (l # ls)
      = unat ?cur * 2 ^ (64 * length ls) + limbs_val ls"
    by (simp add: cur limbs_val_Cons power_add algebra_simps)
  also have "unat ?cur = 10 * (unat ?cur div 10) + unat (?cur mod 10)" unfolding m by simp
  also have "(10 * (unat ?cur div 10) + unat (?cur mod 10)) * 2 ^ (64 * length ls) + limbs_val ls
      = 10 * limbs_val ls' + unat r'"
    using IH by (simp add: ls' limbs_val_Cons q' algebra_simps)
  finally show ?case using IH ls' by simp
qed simp

function dec_digits :: "64 word list \<Rightarrow> string" where
  "dec_digits limbs =
     (if list_ex (\<lambda>l. l \<noteq> 0) limbs then
        (let (limbs', rem) = div_limbs 0 limbs
         in char_of (48 + unat rem) # dec_digits limbs')
      else [])"
  by pat_completeness auto
termination
proof (relation "measure limbs_val")
  fix limbs x limbs' rem
  assume ne: "list_ex (\<lambda>l. l \<noteq> 0) limbs" and x: "x = div_limbs 0 limbs" "(limbs', rem) = x"
  then have "limbs_val limbs = 10 * limbs_val limbs' + unat rem"
    using div_limbs_spec [of 0 limbs limbs' rem] by simp
  moreover have "limbs_val limbs \<noteq> 0" using ne by (simp add: limbs_val_zero_iff)
  ultimately show "(limbs', limbs) \<in> measure limbs_val" by (cases "limbs_val limbs'") auto
qed simp

declare dec_digits.simps [simp del]

text \<open>The digits come out least significant first and are reversed; zero is printed apart.\<close>

definition u256_to_dec :: "bytes \<Rightarrow> string" where
  "u256_to_dec w =
     (let limbs = word_limbs w in
      if list_all (\<lambda>l. l = 0) limbs then ''0'' else rev (dec_digits limbs))"

definition trim_end_matches :: "char \<Rightarrow> string \<Rightarrow> string" where
  "trim_end_matches c s = rev (dropWhile (\<lambda>x. x = c) (rev s))"

definition format_units :: "bytes \<Rightarrow> nat \<Rightarrow> string" where
  "format_units amount decimals =
     (let dec = u256_to_dec amount; d = decimals in
      if d = 0 then dec
      else
        (let padded = (if length dec \<le> d then replicate (d + 1 - length dec) (CHR ''0'') @ dec else dec);
             int = take (length padded - d) padded;
             frac = trim_end_matches (CHR ''0'') (drop (length padded - d) padded)
         in if frac = [] then int else int @ ''.'' @ frac))"

record Domain =
  dom_name :: string
  dom_version :: string
  dom_chain_id :: nat
  dom_verifying_contract :: bytes

definition separator :: "'x deps_scheme \<Rightarrow> Domain \<Rightarrow> bytes" where
  "separator X d =
     hash_struct X (type_hash X EIP712_DOMAIN_TYPE)
       [string_word X (dom_name d), string_word X (dom_version d), u64_word (dom_chain_id d),
        address_word (dom_verifying_contract d)]"

record TransferWithAuthorization =
  twa_from :: bytes
  twa_to :: bytes
  twa_value :: bytes
  twa_valid_after :: nat
  twa_valid_before :: nat
  twa_nonce :: bytes

definition twa_new ::
  "bytes \<Rightarrow> bytes \<Rightarrow> bytes \<Rightarrow> nat \<Rightarrow> nat \<Rightarrow> bytes \<Rightarrow> Eip712Error + TransferWithAuthorization" where
  "twa_new from to val valid_after valid_before nonce =
     (if valid_before \<le> valid_after then Inl EmptyWindow
      else Inr \<lparr>twa_from = from, twa_to = to, twa_value = val, twa_valid_after = valid_after,
                twa_valid_before = valid_before, twa_nonce = nonce\<rparr>)"

definition struct_hash :: "'x deps_scheme \<Rightarrow> TransferWithAuthorization \<Rightarrow> bytes" where
  "struct_hash X t =
     hash_struct X (type_hash X TRANSFER_WITH_AUTHORIZATION_TYPE)
       [address_word (twa_from t), address_word (twa_to t), twa_value t,
        u64_word (twa_valid_after t), u64_word (twa_valid_before t), twa_nonce t]"

definition digest :: "'x deps_scheme \<Rightarrow> TransferWithAuthorization \<Rightarrow> Domain \<Rightarrow> bytes" where
  "digest X t domain = typed_data_digest X (separator X domain) (struct_hash X t)"

record AuthorizationView =
  av_primary_type :: string
  av_asset_name :: string
  av_asset_contract :: string
  av_chain_id :: nat
  av_from :: string
  av_payee :: string
  av_amount_base_units :: string
  av_amount :: string
  av_valid_after :: nat
  av_valid_before :: nat
  av_nonce :: string

definition view :: "'x deps_scheme \<Rightarrow> TransferWithAuthorization \<Rightarrow> Domain \<Rightarrow> nat \<Rightarrow> AuthorizationView" where
  "view X t domain decimals =
     \<lparr>av_primary_type = ''TransferWithAuthorization'',
      av_asset_name = dom_name domain,
      av_asset_contract = ''0x'' @ hex_encode X (dom_verifying_contract domain),
      av_chain_id = dom_chain_id domain,
      av_from = ''0x'' @ hex_encode X (twa_from t),
      av_payee = ''0x'' @ hex_encode X (twa_to t),
      av_amount_base_units = u256_to_dec (twa_value t),
      av_amount = format_units (twa_value t) decimals,
      av_valid_after = twa_valid_after t,
      av_valid_before = twa_valid_before t,
      av_nonce = ''0x'' @ hex_encode X (twa_nonce t)\<rparr>"

text \<open>\<open>canonical_vrs\<close> over the two operations of a \<open>k256\<close> signature that it calls: \<open>normalize_s\<close>
  (\<open>None\<close> when \<open>s\<close> is already low) and \<open>to_bytes\<close> (\<open>r\<close> then \<open>s\<close>, 64 bytes).\<close>

definition canonical_vrs ::
  "('sig \<Rightarrow> 'sig option) \<Rightarrow> ('sig \<Rightarrow> bytes) \<Rightarrow> 'sig \<Rightarrow> bool \<Rightarrow> nat \<times> bytes \<times> bytes" where
  "canonical_vrs normalize_s to_bytes sig is_y_odd =
     (let (sig, y_odd) =
            (case normalize_s sig of
               Some low \<Rightarrow> (low, \<not> is_y_odd)
             | None \<Rightarrow> (sig, is_y_odd));
          bs = to_bytes sig
      in (27 + (if y_odd then 1 else 0), take 32 bs, drop 32 bs))"

section \<open>Limb arithmetic\<close>

definition le_val :: "64 word list \<Rightarrow> nat" where
  "le_val ls = limbs_val (rev ls)"

lemma le_val_Cons: "le_val (l # ls) = unat l + 2 ^ 64 * le_val ls"
  by (simp add: le_val_def limbs_val_append_one)

lemma mul_limbs_spec:
  "unat c \<le> 9 \<Longrightarrow> mul_limbs ls c = (ls', c') \<Longrightarrow>
   length ls' = length ls \<and> unat c' \<le> 9
   \<and> le_val ls' + 2 ^ (64 * length ls) * unat c' = 10 * le_val ls + unat c"
proof (induction ls arbitrary: c ls')
  case (Cons l ls)
  let ?v = "ucast l * 10 + c :: 128 word"
  obtain qs where d: "mul_limbs ls (drop_bit 64 ?v) = (qs, c')" and ls': "ls' = ucast ?v # qs"
    using Cons.prems(2) by (auto simp: Let_def split: prod.splits)
  have v: "unat ?v = unat l * 10 + unat c" using Cons.prems(1) by (rule limb_times_ten)
  have "unat ?v < 10 * 2 ^ 64" using v Cons.prems(1) limb_bound [of l] by simp
  then have "unat ?v div 2 ^ 64 < 10" by (simp only: less_mult_imp_div_less)
  then have IH: "length qs = length ls" "unat c' \<le> 9"
    "le_val qs + 2 ^ (64 * length ls) * unat c' = 10 * le_val ls + unat ?v div 2 ^ 64"
    using Cons.IH [OF _ d] by (simp_all add: unat_high64)
  have "le_val ls' + 2 ^ (64 * length (l # ls)) * unat c'
      = unat ?v mod 2 ^ 64 + 2 ^ 64 * (le_val qs + 2 ^ (64 * length ls) * unat c')"
    by (simp add: ls' le_val_Cons unat_low64 power_add algebra_simps)
  also have "\<dots> = unat ?v + 10 * 2 ^ 64 * le_val ls"
    unfolding IH(3) using mult_div_mod_eq [of "2 ^ 64" "unat ?v"] by (simp add: algebra_simps)
  also have "\<dots> = 10 * le_val (l # ls) + unat c" unfolding v by (simp add: le_val_Cons algebra_simps)
  finally show ?case using IH ls' by simp
qed (simp add: le_val_def)

lemma push_digit_spec:
  assumes "unat d \<le> 9" and "push_digit ls d = (ls', c)"
  shows "length ls' = length ls" and "limbs_val ls' + 2 ^ (64 * length ls) * unat c = 10 * limbs_val ls + unat d"
  using mul_limbs_spec [OF assms(1), of "rev ls" "rev ls'" c] assms(2)
  by (auto simp: push_digit_def le_val_def split: prod.splits)

lemma dec_digits_spec:
  "dec_digits ls = (if limbs_val ls = 0 then [] else rev (show_nat (limbs_val ls)))"
proof (induction ls rule: dec_digits.induct)
  case (1 ls)
  show ?case
  proof (cases "limbs_val ls = 0")
    case True
    then show ?thesis by (simp add: dec_digits.simps [of ls] limbs_val_zero_iff)
  next
    case False
    then have ne: "list_ex (\<lambda>l. l \<noteq> 0) ls" by (simp add: limbs_val_zero_iff)
    obtain qs r where d: "div_limbs 0 ls = (qs, r)" by (cases "div_limbs 0 ls")
    from div_limbs_spec [OF _ d] have v: "limbs_val ls = 10 * limbs_val qs + unat r" and r: "unat r < 10"
      by simp_all
    have q: "limbs_val ls div 10 = limbs_val qs" "limbs_val ls mod 10 = unat r"
      using v r by simp_all
    have "dec_digits ls = digit_char (unat r) # dec_digits qs"
      using ne d by (simp add: dec_digits.simps [of ls] digit_char_def)
    also have "dec_digits qs = (if limbs_val qs = 0 then [] else rev (show_nat (limbs_val qs)))"
      using "1.IH" [OF ne refl] d by simp
    finally have "dec_digits ls = digit_char (unat r) # (if limbs_val qs = 0 then [] else rev (show_nat (limbs_val qs)))" .
    moreover have "show_nat (limbs_val ls) = (if limbs_val qs = 0 then [] else show_nat (limbs_val qs)) @ [digit_char (unat r)]"
      unfolding show_nat.simps [of "limbs_val ls"] q using v r by (cases "limbs_val qs = 0") auto
    ultimately show ?thesis using False by simp
  qed
qed

lemma u256_to_dec_show: "length w = 32 \<Longrightarrow> u256_to_dec w = show_nat (be_val w)"
proof -
  assume w: "length w = 32"
  have "list_all (\<lambda>l. l = 0) (word_limbs w) \<longleftrightarrow> be_val w = 0"
    using limbs_val_zero_iff [of "word_limbs w"] limbs_val_word_limbs [OF w]
    by (auto simp: list_all_iff list_ex_iff)
  moreover have "show_nat 0 = ''0''" by (simp add: show_nat.simps digit_char_def) code_simp
  ultimately show ?thesis
    by (simp add: u256_to_dec_def Let_def dec_digits_spec limbs_val_word_limbs [OF w])
qed

lemma digits_val_ge: "digits_val 10 a s = Some v \<Longrightarrow> a \<le> v"
proof (induction s arbitrary: a)
  case (Cons c s)
  then obtain x where "digits_val 10 (a * 10 + x) s = Some v" by (auto split: option.splits)
  from Cons.IH [OF this] show ?case by simp
qed simp

lemma u256_digits_spec:
  "list_all is_ascii_digit s \<Longrightarrow> length ls = 4 \<Longrightarrow> digits_val 10 (limbs_val ls) s = Some v \<Longrightarrow>
   (if v < 2 ^ 256 then \<exists>ls'. u256_digits ls s = Inr ls' \<and> length ls' = 4 \<and> limbs_val ls' = v
    else u256_digits ls s = Inl BadUint)"
proof (induction s arbitrary: ls)
  case Nil
  then show ?case using limbs_val_bound [of ls] by simp
next
  case (Cons c s)
  obtain ls' carry where p: "push_digit ls (word_of_nat (code c - 48)) = (ls', carry)"
    by (cases "push_digit ls (word_of_nat (code c - 48))")
  have c: "code c - 48 \<le> 9" "is_ascii_digit c" using Cons.prems(1) by (auto simp: is_ascii_digit_def)
  then have d: "unat (word_of_nat (code c - 48) :: 128 word) = code c - 48"
    by (simp add: unat_of_nat)
  have step: "length ls' = 4" "limbs_val ls' + 2 ^ 256 * unat carry = 10 * limbs_val ls + (code c - 48)"
    using push_digit_spec [OF _ p] c d Cons.prems(2) by simp_all
  have dv: "digits_val 10 (10 * limbs_val ls + (code c - 48)) s = Some v"
    using Cons.prems(3) c(2) by (simp add: digit_val_ascii mult.commute)
  show ?case
  proof (cases "carry = 0")
    case True
    then have "digits_val 10 (limbs_val ls') s = Some v" using step(2) dv by simp
    from Cons.IH [OF _ step(1) this] Cons.prems(1) p True show ?thesis by simp
  next
    case False
    then have "1 \<le> unat carry" by (simp add: Suc_le_eq unat_gt_0)
    then have "2 ^ 256 * 1 \<le> (2 ^ 256 :: nat) * unat carry" by (rule mult_le_mono2)
    with step(2) have "2 ^ 256 \<le> 10 * limbs_val ls + (code c - 48)" by simp
    with digits_val_ge [OF dv] have "\<not> v < 2 ^ 256" by simp
    with False p show ?thesis by simp
  qed
qed

lemma length_show_nat: "n < 10 ^ k \<Longrightarrow> 0 < k \<Longrightarrow> length (show_nat n) \<le> k"
proof (induction k arbitrary: n)
  case (Suc k)
  show ?case
  proof (cases "n < 10")
    case True
    then show ?thesis by (simp add: show_nat.simps [of n])
  next
    case False
    with Suc.prems have "n div 10 < 10 ^ k" "0 < k" by (auto simp: less_mult_imp_div_less mult.commute intro: ccontr)
    with Suc.IH False show ?thesis by (simp add: show_nat.simps [of n])
  qed
qed simp

lemma parse_u256_dec_iff:
  "parse_u256_dec s = Inr w \<longleftrightarrow>
     s \<noteq> [] \<and> length s \<le> 78 \<and> list_all is_ascii_digit s
     \<and> (\<exists>v. v < 2 ^ 256 \<and> digits_val 10 0 s = Some v \<and> w = be_bytes 32 v)"
proof (cases "s \<noteq> [] \<and> length s \<le> 78 \<and> list_all is_ascii_digit s")
  case True
  then obtain v where v: "digits_val 10 0 s = Some v" using digits_val_digits by blast
  have bytes: "limb_bytes ls = be_bytes 32 v" if "length ls = 4" "limbs_val ls = v" for ls
    using that be_bytes_be_val' [of "limb_bytes ls" 32] by (simp add: length_limb_bytes be_val_limb_bytes)
  have z: "limbs_val [0, 0, 0, 0] = 0" by (simp add: limbs_val_def)
  have "parse_u256_dec s = (if v < 2 ^ 256 then Inr (be_bytes 32 v) else Inl BadUint)"
    using u256_digits_spec [of s "[0, 0, 0, 0]" v] True v z bytes
    by (auto simp: parse_u256_dec_def split: if_splits)
  then show ?thesis using True v by auto
next
  case False
  then show ?thesis by (auto simp: parse_u256_dec_def)
qed

section \<open>Properties\<close>

text \<open>
  C18. \<open>parse_u256_dec\<close> accepts exactly the non-empty strings of at most 78 decimal digits whose value
  fits 256 bits, and returns that value as a big-endian word: the four-limb multiplication with
  128-bit carries neither loses a carry nor accepts an overflow.
\<close>

theorem parse_u256_dec_exact:
  "parse_u256_dec s = Inr w \<longleftrightarrow>
     s \<noteq> [] \<and> length s \<le> 78 \<and> list_all is_ascii_digit s
     \<and> (\<exists>v. v < 2 ^ 256 \<and> digits_val 10 0 s = Some v \<and> w = be_bytes 32 v)"
  by (rule parse_u256_dec_iff)

text \<open>
  \<open>u256_to_dec\<close> prints the decimal numeral of a 32-byte word, and parsing what was printed gives
  the word back: the amount shown in base units is the amount that is hashed.
\<close>

theorem u256_dec_roundtrip:
  assumes "length w = 32"
  shows "u256_to_dec w = show_nat (be_val w) \<and> parse_u256_dec (u256_to_dec w) = Inr w"
proof -
  have v: "be_val w < 2 ^ 256" using be_val_bound [of w] assms by simp
  then have "be_val w < 10 ^ 78" by simp
  then have "length (show_nat (be_val w)) \<le> 78" by (rule length_show_nat) simp
  moreover have "be_bytes 32 (be_val w) = w" using assms by (rule be_bytes_be_val')
  ultimately show ?thesis
    using v unfolding u256_to_dec_show [OF assms] parse_u256_dec_iff
    by (auto simp: list_all_iff digits_val_show_nat dest: show_nat_digits)
qed

theorem u256_dec_roundtrip_witness:
  "length (be_bytes 32 1500000000000000000) = 32
   \<and> parse_u256_dec (u256_to_dec (be_bytes 32 1500000000000000000)) = Inr (be_bytes 32 1500000000000000000)"
  using u256_dec_roundtrip [of "be_bytes 32 1500000000000000000"] by (metis length_be_bytes)

lemma digits_val_zeros: "digits_val 10 a (replicate k (CHR ''0'')) = Some (a * 10 ^ k)"
proof (induction k arbitrary: a)
  case (Suc k)
  have "digit_val 10 (CHR ''0'') = Some 0" by (simp add: digit_val_def is_ascii_digit_def code_def)
  with Suc show ?case by simp
qed simp

lemma trim_end_matches_split:
  obtains k where "s = trim_end_matches c s @ replicate k c"
    and "trim_end_matches c s \<noteq> [] \<Longrightarrow> last (trim_end_matches c s) \<noteq> c"
proof
  let ?z = "takeWhile (\<lambda>x. x = c) (rev s)"
  have "?z = replicate (length ?z) c" by (rule replicate_length_same [symmetric]) (auto dest: set_takeWhileD)
  moreover have "rev s = ?z @ dropWhile (\<lambda>x. x = c) (rev s)" by simp
  ultimately show "s = trim_end_matches c s @ replicate (length ?z) c"
    unfolding trim_end_matches_def by (metis rev_append rev_replicate rev_rev_ident)
  show "trim_end_matches c s \<noteq> [] \<Longrightarrow> last (trim_end_matches c s) \<noteq> c"
    using hd_dropWhile [of "\<lambda>x. x = c" "rev s"] by (simp add: trim_end_matches_def last_rev)
qed

text \<open>The padded numeral: the integer part in front, exactly \<open>d\<close> digits behind.\<close>

lemma padded_split:
  fixes n d :: nat
  defines "dec \<equiv> show_nat n"
  defines "padded \<equiv> (if length dec \<le> d then replicate (d + 1 - length dec) (CHR ''0'') @ dec else dec)"
  shows "take (length padded - d) padded = show_nat (n div 10 ^ d)"
    and "digits_val 10 0 (drop (length padded - d) padded) = Some (n mod 10 ^ d)"
    and "length (drop (length padded - d) padded) = d"
    and "list_all is_ascii_digit (drop (length padded - d) padded)"
proof -
  have zero: "show_nat 0 = ''0''" by (simp add: show_nat.simps digit_char_def) code_simp
  have digits: "list_all is_ascii_digit padded"
    by (auto simp: padded_def dec_def list_all_iff is_ascii_digit_def code_def dest: show_nat_digits)
  then show "list_all is_ascii_digit (drop (length padded - d) padded)"
    by (auto simp: list_all_iff dest: in_set_dropD)
  have both: "take (length padded - d) padded = show_nat (n div 10 ^ d)
    \<and> digits_val 10 0 (drop (length padded - d) padded) = Some (n mod 10 ^ d)
    \<and> length (drop (length padded - d) padded) = d"
  proof (cases "length dec \<le> d")
    case True
    define k where "k = d - length dec"
    have p: "padded = CHR ''0'' # replicate k (CHR ''0'') @ dec"
      using True by (simp add: padded_def k_def Suc_diff_le)
    have "n < 1 * 10 ^ length dec"
      using digits_val_bound [OF digits_val_show_nat [of n]] by (simp add: dec_def)
    also have "\<dots> \<le> 10 ^ d" using True by (simp add: power_increasing)
    finally have n: "n < 10 ^ d" .
    have "length padded - d = 1" using True by (simp add: p k_def)
    moreover have "digits_val 10 0 (replicate k (CHR ''0'') @ dec) = Some n"
      by (simp add: digits_val_append digits_val_zeros dec_def digits_val_show_nat)
    ultimately show ?thesis using n True by (simp add: p zero k_def)
  next
    case False
    then have "padded = dec" by (simp add: padded_def)
    then show ?thesis using False show_nat_take [of d n] digits_val_drop_show_nat [of d n]
      by (simp add: dec_def)
  qed
  then show "take (length padded - d) padded = show_nat (n div 10 ^ d)"
    "digits_val 10 0 (drop (length padded - d) padded) = Some (n mod 10 ^ d)"
    "length (drop (length padded - d) padded) = d" by simp_all
qed

text \<open>
  The amount on the approval card is exact: \<open>format_units\<close> prints the integer part of the
  amount divided by \<open>10 ^ decimals\<close> as a plain numeral, then, when there is a fraction, a point and
  the fraction's digits without trailing zeros, which stand for exactly the rest.
\<close>

theorem format_units_exact:
  assumes "length w = 32"
  shows "\<exists>frac v. format_units w d =
      show_nat (be_val w div 10 ^ d) @ (if frac = [] then [] else ''.'' @ frac)
    \<and> length frac \<le> d \<and> (frac = [] \<or> last frac \<noteq> CHR ''0'') \<and> list_all is_ascii_digit frac
    \<and> digits_val 10 0 frac = Some v \<and> v * 10 ^ (d - length frac) = be_val w mod 10 ^ d"
proof (cases "d = 0")
  case True
  then show ?thesis
    by (intro exI [of _ "[]"] exI [of _ 0]) (simp add: format_units_def Let_def u256_to_dec_show assms)
next
  case False
  let ?dec = "show_nat (be_val w)"
  let ?padded = "if length ?dec \<le> d then replicate (d + 1 - length ?dec) (CHR ''0'') @ ?dec else ?dec"
  let ?tail = "drop (length ?padded - d) ?padded"
  define frac where "frac = trim_end_matches (CHR ''0'') ?tail"
  note p = padded_split [of "be_val w" d]
  obtain k where k: "?tail = frac @ replicate k (CHR ''0'')" and l: "frac \<noteq> [] \<Longrightarrow> last frac \<noteq> CHR ''0''"
    using trim_end_matches_split [of ?tail "CHR ''0''"] unfolding frac_def by metis
  have len: "length frac + k = d" using p(3) unfolding k by simp
  have dig: "list_all is_ascii_digit frac" using p(4) unfolding k by simp
  then obtain v where v: "digits_val 10 0 frac = Some v" using digits_val_digits by blast
  have "Some (v * 10 ^ k) = Some (be_val w mod 10 ^ d)"
    using p(2) unfolding k by (simp add: digits_val_append v digits_val_zeros)
  then have "v * 10 ^ (d - length frac) = be_val w mod 10 ^ d" using len by auto
  moreover have "format_units w d =
      show_nat (be_val w div 10 ^ d) @ (if frac = [] then [] else ''.'' @ frac)"
    unfolding format_units_def Let_def u256_to_dec_show [OF assms] frac_def [symmetric] p(1)
    using False by simp
  ultimately show ?thesis using len l dig v by (intro exI [of _ frac] exI [of _ v]) auto
qed

theorem format_units_exact_witness:
  "length (be_bytes 32 1500) = 32
   \<and> (\<exists>frac v. format_units (be_bytes 32 1500) 3 =
        show_nat (be_val (be_bytes 32 1500) div 10 ^ 3) @ (if frac = [] then [] else ''.'' @ frac)
      \<and> digits_val 10 0 frac = Some v \<and> v * 10 ^ (3 - length frac) = be_val (be_bytes 32 1500) mod 10 ^ 3)"
  using format_units_exact [of "be_bytes 32 1500" 3] by (metis length_be_bytes)

text \<open>The inputs the digest of an authorization hashes.\<close>

definition separator_input :: "'x deps_scheme \<Rightarrow> Domain \<Rightarrow> bytes" where
  "separator_input X d = type_hash X EIP712_DOMAIN_TYPE
     @ string_word X (dom_name d) @ string_word X (dom_version d) @ u64_word (dom_chain_id d)
     @ address_word (dom_verifying_contract d)"

definition struct_input :: "'x deps_scheme \<Rightarrow> TransferWithAuthorization \<Rightarrow> bytes" where
  "struct_input X t = type_hash X TRANSFER_WITH_AUTHORIZATION_TYPE
     @ address_word (twa_from t) @ address_word (twa_to t) @ twa_value t
     @ u64_word (twa_valid_after t) @ u64_word (twa_valid_before t) @ twa_nonce t"

definition digest_inputs :: "'x deps_scheme \<Rightarrow> TransferWithAuthorization \<Rightarrow> Domain \<Rightarrow> bytes list" where
  "digest_inputs X t d =
     [as_bytes (dom_name d), as_bytes (dom_version d), separator_input X d, struct_input X t,
      [0x19, 0x01] @ separator X d @ struct_hash X t]"

definition twa_wf :: "TransferWithAuthorization \<Rightarrow> bool" where
  "twa_wf t \<longleftrightarrow> length (twa_from t) = 20 \<and> length (twa_to t) = 20 \<and> length (twa_value t) = 32
     \<and> length (twa_nonce t) = 32 \<and> twa_valid_after t < 2 ^ 64 \<and> twa_valid_before t < 2 ^ 64"

definition domain_wf :: "Domain \<Rightarrow> bool" where
  "domain_wf d \<longleftrightarrow> length (dom_verifying_contract d) = 20 \<and> dom_chain_id d < 2 ^ 64"

lemma be_bytes_inj: "a < 256 ^ n \<Longrightarrow> b < 256 ^ n \<Longrightarrow> be_bytes n a = be_bytes n b \<longleftrightarrow> a = b"
  by (metis be_val_be_bytes mod_less)

lemma u64_word_inj: "a < 2 ^ 64 \<Longrightarrow> b < 2 ^ 64 \<Longrightarrow> u64_word a = u64_word b \<longleftrightarrow> a = b"
  using be_bytes_inj [of a 8 b] by (simp add: u64_word_def)

lemma word_lengths [simp]:
  "length (u64_word v) = 32" "length a = 20 \<Longrightarrow> length (address_word a) = 32"
  by (simp_all add: u64_word_def address_word_def)

lemma address_word_inj [simp]: "address_word a = address_word b \<longleftrightarrow> a = b"
  by (simp add: address_word_def)

lemma struct_input_inj:
  assumes "twa_wf t" "twa_wf t'" "struct_input X t = struct_input X t'"
  shows "t = t'"
  using assms by (simp add: struct_input_def twa_wf_def u64_word_inj)

lemma separator_input_inj:
  assumes "digest_law X" "domain_wf d" "domain_wf d'" "separator_input X d = separator_input X d'"
  shows "string_word X (dom_name d) = string_word X (dom_name d')
    \<and> string_word X (dom_version d) = string_word X (dom_version d')
    \<and> dom_chain_id d = dom_chain_id d' \<and> dom_verifying_contract d = dom_verifying_contract d'"
  using assms by (simp add: separator_input_def domain_wf_def u64_word_inj digest_law_def string_word_def)

lemma hash_inputs:
  "separator X d = keccak X (separator_input X d)" "struct_hash X t = keccak X (struct_input X t)"
  "digest X t d = keccak X ([0x19, 0x01] @ separator X d @ struct_hash X t)"
  by (simp_all add: separator_def separator_input_def struct_hash_def struct_input_def hash_struct_def
      digest_def typed_data_digest_def)

text \<open>
  C17. The signing digest binds every field: as long as Keccak-256 does not collide on the inputs
  hashed for the two, equal digests mean the same sender, payee, amount, validity window and
  nonce, and the same asset name, version, chain and contract. The fixed-width encoding leaves
  no two authorizations with the same bytes.
\<close>

theorem digest_binds_authorization:
  assumes "digest_law X" and "twa_wf t" "twa_wf t'" "domain_wf d" "domain_wf d'"
    and "inj_on (keccak X) (set (digest_inputs X t d) \<union> set (digest_inputs X t' d'))"
    and "digest X t d = digest X t' d'"
  shows "t = t' \<and> d = d'"
proof -
  let ?S = "set (digest_inputs X t d) \<union> set (digest_inputs X t' d')"
  have inj: "a = b" if "keccak X a = keccak X b" "a \<in> ?S" "b \<in> ?S" for a b
    using assms(6) that by (meson inj_onD)
  have len: "length (separator X e) = 32" "length (struct_hash X u) = 32" for e u
    using assms(1) by (simp_all add: hash_inputs(1,2) digest_law_def)
  have "[0x19, 0x01] @ separator X d @ struct_hash X t = [0x19, 0x01] @ separator X d' @ struct_hash X t'"
    by (rule inj) (use assms(7) in \<open>simp_all add: hash_inputs(3) digest_inputs_def\<close>)
  then have sep: "separator X d = separator X d'" and st: "struct_hash X t = struct_hash X t'"
    by (simp_all add: len)
  have "struct_input X t = struct_input X t'"
    by (rule inj) (use st in \<open>simp_all add: hash_inputs digest_inputs_def\<close>)
  then have "t = t'" using assms(2,3) struct_input_inj by blast
  moreover have "separator_input X d = separator_input X d'"
    by (rule inj) (use sep in \<open>simp_all add: hash_inputs digest_inputs_def\<close>)
  then have f: "string_word X (dom_name d) = string_word X (dom_name d')"
    "string_word X (dom_version d) = string_word X (dom_version d')"
    "dom_chain_id d = dom_chain_id d'" "dom_verifying_contract d = dom_verifying_contract d'"
    using separator_input_inj [OF assms(1,4,5)] by simp_all
  have "as_bytes (dom_name d) = as_bytes (dom_name d')"
    by (rule inj) (use f(1) in \<open>simp_all add: string_word_def digest_inputs_def\<close>)
  moreover have "as_bytes (dom_version d) = as_bytes (dom_version d')"
    by (rule inj) (use f(2) in \<open>simp_all add: string_word_def digest_inputs_def\<close>)
  ultimately show ?thesis using f(3,4) by (simp add: as_bytes_inj)
qed

definition sample_domain_712 :: Domain where
  "sample_domain_712 = \<lparr>dom_name = ''A'', dom_version = ''10'', dom_chain_id = 40204,
     dom_verifying_contract = replicate 20 7\<rparr>"

definition sample_twa :: TransferWithAuthorization where
  "sample_twa = \<lparr>twa_from = replicate 20 1, twa_to = replicate 20 2, twa_value = be_bytes 32 5,
     twa_valid_after = 0, twa_valid_before = 60, twa_nonce = replicate 32 9\<rparr>"

text \<open>The stand-in digest begins with the length of its input, so inputs of different lengths below
  256 do not collide.\<close>

lemma digest_ref_inj_on_lengths:
  assumes "distinct (map length xs)" and "\<And>x. x \<in> set xs \<Longrightarrow> length x < 256"
  shows "inj_on digest_ref (set xs)"
proof (rule inj_onI)
  fix a b assume ab: "a \<in> set xs" "b \<in> set xs" "digest_ref a = digest_ref b"
  then have "(word_of_nat (length a) :: byte) = word_of_nat (length b)"
    by (simp add: digest_ref_def)
  then have "length a = length b" using assms(2) ab by (metis unat_byte)
  with assms(1) ab show "a = b" by (metis distinct_map inj_onD)
qed

theorem digest_binds_authorization_witness:
  "twa_wf sample_twa \<and> domain_wf sample_domain_712 \<and> digest_law ref_deps
   \<and> inj_on (keccak ref_deps) (set (digest_inputs ref_deps sample_twa sample_domain_712)
        \<union> set (digest_inputs ref_deps sample_twa sample_domain_712))
   \<and> sample_twa = sample_twa \<and> sample_domain_712 = sample_domain_712"
proof -
  have wf: "twa_wf sample_twa" "domain_wf sample_domain_712"
    by (simp_all add: twa_wf_def domain_wf_def sample_twa_def sample_domain_712_def)
  let ?S = "set (digest_inputs ref_deps sample_twa sample_domain_712)"
  have "inj_on (keccak ref_deps) (?S \<union> ?S)"
    unfolding Un_absorb ref_deps_simps
    by (rule digest_ref_inj_on_lengths)
       (auto simp: digest_inputs_def separator_input_def struct_input_def hash_inputs type_hash_def
         string_word_def sample_twa_def sample_domain_712_def)
  with wf digest_law_ref [of "()"] show ?thesis
    using digest_binds_authorization [of ref_deps sample_twa sample_twa sample_domain_712 sample_domain_712]
    by blast
qed

end
