(* ===== verification/WebBudget.thy ===== *)
theory WebBudget
  imports Siwe Eip712
begin

text \<open>
  \<open>kit/src/web_budget.rs\<close>: the web-signing budget store. The gate (\<open>GateInner\<close>) is a record; the file
  system and the key ring it writes to are the record \<open>world\<close>, threaded through every operation
  that touches them, and the record \<open>faults\<close> says which of those accesses succeed in a call, so that
  every error path of the source is a branch here. The dedicated lock is held for a whole
  operation in the source, so operations are atomic state transformers. \<open>serde\<close>'s derived
  encodings of the two file types are parameters (\<open>wb_deps\<close>).
\<close>

section \<open>Constants\<close>

definition O3_SAME_ORIGIN_EXEMPT :: bool where "O3_SAME_ORIGIN_EXEMPT = True"

definition SIWE_MIN_GAP_MS :: nat where "SIWE_MIN_GAP_MS = 30000"

definition SIWE_WINDOW_MS :: nat where "SIWE_WINDOW_MS = 24 * 60 * 60 * 1000"

definition SIWE_WINDOW_MAX :: nat where "SIWE_WINDOW_MAX = 20"

definition MAX_COUNT_CEILING :: nat where "MAX_COUNT_CEILING = 50"

definition MAX_TTL_MS_CEILING :: nat where "MAX_TTL_MS_CEILING = 30 * 24 * 60 * 60 * 1000"

definition MIN_TTL_MS :: nat where "MIN_TTL_MS = 60 * 1000"

definition GENESIS_HASH :: string where
  "GENESIS_HASH = ''0x0000000000000000000000000000000000000000000000000000000000000000''"

definition SNAPSHOT_RECORDS :: nat where "SNAPSHOT_RECORDS = 200"

definition FILE_VERSION :: nat where "FILE_VERSION = 1"

definition X402_VALIDITY_MAX_S :: nat where "X402_VALIDITY_MAX_S = 600"

definition X402_VALID_AFTER_SKEW_S :: nat where "X402_VALID_AFTER_SKEW_S = 30"

lemmas budget_consts = SIWE_MIN_GAP_MS_def SIWE_WINDOW_MS_def SIWE_WINDOW_MAX_def
  MAX_COUNT_CEILING_def MAX_TTL_MS_CEILING_def MIN_TTL_MS_def

section \<open>Types\<close>

record WebSigningBudget =
  wb_id :: nat
  wb_origin :: string
  wb_principal :: string
  wb_chain_id :: nat
  wb_max_count :: nat
  wb_used_count :: nat
  wb_granted_at_ms :: nat
  wb_expires_at_ms :: nat
  wb_wallet_address :: string
  wb_granted_record_id :: nat
  wb_revoked_at_ms :: "nat option"

record X402Budget =
  xb_id :: nat
  xb_recipient :: string
  xb_asset :: string
  xb_per_signature_max :: string
  xb_per_recipient_window_max :: string
  xb_max_count :: nat
  xb_used_count :: nat
  xb_expires_at_ms :: nat
  xb_granted_record_id :: nat
  xb_revoked_at_ms :: "nat option"

record X402Asset =
  xa_chain_id :: nat
  xa_verifying_contract :: string
  xa_name :: string
  xa_version :: string

definition X402_ASSET_ALLOWLIST :: "X402Asset list" where "X402_ASSET_ALLOWLIST = []"

record X402Request =
  xr_recipient :: string
  xr_asset :: string
  xr_amount :: string

datatype X402BuildError =
    AssetMismatch | RecipientMismatch | XMalformed Eip712Error | ZeroAmount | Validity

datatype TaskTaint = Clean | Sources "string list" | TaintUnknown

datatype FrameKind = Top | Sub

datatype BrowserMode = Managed | Attach

record OriginAttestation =
  oa_origin :: string
  oa_frame :: FrameKind
  oa_mode :: BrowserMode

datatype RecordKind = RkBudgetGranted | RkBudgetRevoked | RkAllBudgetsRevoked | RkStoreReset | RkAutoSign

datatype RecordStatus = Reserved | Signed | NotSigned | OutcomeUnknown | Final

record RecordDraft =
  rd_kind :: RecordKind
  rd_budget_id :: "nat option"
  rd_principal :: string
  rd_origin :: string
  rd_payload_digest :: "string option"
  rd_statement :: "string option"
  rd_nonce :: "string option"
  rd_request_id :: "string option"
  rd_signer_address :: "string option"
  rd_at_ms :: nat
  rd_remaining_after :: "nat option"
  rd_note :: "string option"

text \<open>\<open>DecisionRecord\<close> repeats the fields of a draft; here it extends one.\<close>

record DecisionRecord = RecordDraft +
  dr_record_id :: nat
  dr_prev_hash :: string
  dr_hash :: string
  dr_status :: RecordStatus

definition draft_default :: RecordDraft where
  "draft_default =
     \<lparr>rd_kind = RkBudgetGranted, rd_budget_id = None, rd_principal = [], rd_origin = [],
      rd_payload_digest = None, rd_statement = None, rd_nonce = None, rd_request_id = None,
      rd_signer_address = None, rd_at_ms = 0, rd_remaining_after = None, rd_note = None\<rparr>"

record Reservation =
  rs_origin :: string
  rs_at_ms :: nat

record LedgerEntry =
  le_origin :: string
  le_nonce :: string
  le_keep_until_ms :: nat

record BudgetFile =
  bf_version :: nat
  bf_next_budget_id :: nat
  bf_budgets :: "WebSigningBudget list"
  bf_x402_budgets :: "X402Budget list"
  bf_ledger :: "LedgerEntry list"
  bf_reservations :: "Reservation list"
  bf_records :: "DecisionRecord list"
  bf_generation :: nat
  bf_exported_through :: nat

definition file_default :: BudgetFile where
  "file_default =
     \<lparr>bf_version = FILE_VERSION, bf_next_budget_id = 1, bf_budgets = [], bf_x402_budgets = [],
      bf_ledger = [], bf_reservations = [], bf_records = [], bf_generation = 0,
      bf_exported_through = 0\<rparr>"

record Envelope =
  env_v :: nat
  env_body :: string
  env_mac :: string

datatype StoreHealth = StoreOk | StoreFailed string

datatype BudgetError =
    BeBadOrigin string | BeOverCeiling | BeLiveBudgetExists | BeUnknownBudget
  | BeStoreUnavailable | BeStoreHealthy | BePersist

definition budget_error_text :: "BudgetError \<Rightarrow> string" where
  "budget_error_text e =
     (case e of
        BeBadOrigin r \<Rightarrow> ''this site cannot have a sign-in budget: '' @ r
      | BeOverCeiling \<Rightarrow> ''a sign-in budget allows 1 to '' @ show_nat MAX_COUNT_CEILING
                        @ '' sign-ins and lasts at most 30 days''
      | BeLiveBudgetExists \<Rightarrow> ''this site already has an active budget; revoke it first to grant a new one''
      | BeUnknownBudget \<Rightarrow> ''no budget with that id''
      | BeStoreUnavailable \<Rightarrow> ''budgets are off because the budget file could not be verified; every sign-in asks you''
      | BeStoreHealthy \<Rightarrow> ''the budget file is healthy; nothing to reset''
      | BePersist \<Rightarrow> ''the budget file could not be saved'')"

datatype FallThrough =
    FtStoreUnavailable | FtHicRequired | FtNotAttested | FtNotTopFrame | FtAttachMode | FtNoBudget
  | FtBudgetRevoked | FtBudgetExpired | FtBudgetExhausted | FtWalletChanged | FtNoWallet | FtTainted
  | FtTaintUnknown | FtMessage SiweReject | FtNonceReused | FtRateGap | FtRateWindow
  | FtWriteAheadFailed | FtExpiredBeforeSigning | FtSignerUnavailable | FtX402Inert
  | FtNetwork string

definition fall_through_text :: "FallThrough \<Rightarrow> string" where
  "fall_through_text f =
     (case f of
        FtStoreUnavailable \<Rightarrow> ''budgets are off because the budget file could not be verified''
      | FtHicRequired \<Rightarrow> ''this session read untrusted content, so this sign-in needs your explicit approval''
      | FtNotAttested \<Rightarrow> ''Citrate Core could not confirm which site asked, so it asks you''
      | FtNotTopFrame \<Rightarrow> ''the request came from an embedded frame, not the page itself''
      | FtAttachMode \<Rightarrow> ''budgets do not apply to an attached browser''
      | FtNoBudget \<Rightarrow> ''this site has no sign-in budget''
      | FtBudgetRevoked \<Rightarrow> ''the budget for this site was revoked''
      | FtBudgetExpired \<Rightarrow> ''the budget for this site has expired''
      | FtBudgetExhausted \<Rightarrow> ''the budget for this site is used up''
      | FtWalletChanged \<Rightarrow> ''the budget was granted for a different wallet than the one active now''
      | FtNoWallet \<Rightarrow> ''no wallet is available to sign with''
      | FtTainted \<Rightarrow> ''this task read content from another source, so sign-ins need your approval for the rest of it''
      | FtTaintUnknown \<Rightarrow> ''Citrate Core could not tell what this task has read, so it asks you''
      | FtMessage r \<Rightarrow> siwe_reject_text r
      | FtNonceReused \<Rightarrow> ''this sign-in nonce was already used for this site''
      | FtRateGap \<Rightarrow> ''another sign-in to this site happened less than 30 seconds ago''
      | FtRateWindow \<Rightarrow> ''this site reached 20 automatic sign-ins in the last 24 hours''
      | FtWriteAheadFailed \<Rightarrow> ''the decision record could not be saved, so nothing was signed automatically''
      | FtExpiredBeforeSigning \<Rightarrow> ''the budget or the message expired before signing''
      | FtSignerUnavailable \<Rightarrow> ''the wallet is locked or unavailable''
      | FtNetwork m \<Rightarrow> ''nothing can be signed: '' @ m
      | FtX402Inert \<Rightarrow> ''automatic payments are off until an allowlisted payment token exists'')"

record SiweEvalInput =
  ei_message :: string
  ei_attestation :: "OriginAttestation option"
  ei_taint :: TaskTaint
  ei_hic_required :: bool
  ei_principal :: string
  ei_wallet_address :: "string option"

record SiwePlan =
  sp_budget_id :: nat
  sp_origin :: string
  sp_principal :: string
  sp_signer_address :: string
  sp_payload_digest :: string
  sp_checked :: BudgetableSiwe
  sp_budget_expires_at_ms :: nat

record BudgetView =
  bv_id :: nat
  bv_origin :: string
  bv_principal :: string
  bv_chain_id :: nat
  bv_max_count :: nat
  bv_used_count :: nat
  bv_remaining :: nat
  bv_granted_at_ms :: nat
  bv_expires_at_ms :: nat
  bv_revoked_at_ms :: "nat option"
  bv_status :: string

record BudgetSnapshot =
  bn_health :: StoreHealth
  bn_budgets :: "BudgetView list"
  bn_records :: "DecisionRecord list"
  bn_head_hash :: string
  bn_record_count :: nat

record GateInner =
  g_file :: BudgetFile
  g_health :: StoreHealth
  g_mac_key :: "bytes option"

section \<open>The store's surroundings\<close>

text \<open>The budget file, the files renamed aside, and the two key-ring accounts.\<close>

record world =
  w_file :: "string option"
  w_aside :: "(string \<times> string) list"
  w_mac_key :: "bytes option"
  w_generation :: "bytes option"

text \<open>Which accesses succeed during one call.\<close>

record faults =
  fl_get_key :: bool
  fl_get_generation :: bool
  fl_set_key :: bool
  fl_set_generation :: bool
  fl_read :: bool
  fl_write :: bool
  fl_rename :: bool

record wb_deps = deps +
  file_to_json :: "BudgetFile \<Rightarrow> string option"
  file_from_json :: "string \<Rightarrow> BudgetFile option"
  envelope_to_json :: "Envelope \<Rightarrow> string option"
  envelope_from_json :: "string \<Rightarrow> Envelope option"

section \<open>The x402 budget type\<close>

definition x402_budgetable :: "X402Request \<Rightarrow> TaskTaint \<Rightarrow> FallThrough + unit" where
  "x402_budgetable req taint =
     (if taint \<noteq> Clean then Inl FtTainted
      else if \<not> list_ex (\<lambda>a. eq_ignore_ascii_case (xa_verifying_contract a) (xr_asset req))
                X402_ASSET_ALLOWLIST
      then Inl FtX402Inert
      else Inl FtX402Inert)"

definition x402_domain :: "'x deps_scheme \<Rightarrow> X402Asset \<Rightarrow> X402BuildError + Domain" where
  "x402_domain X a =
     and_then (map_err XMalformed (parse_address X (xa_verifying_contract a))) (\<lambda>c.
       Inr \<lparr>dom_name = xa_name a, dom_version = xa_version a, dom_chain_id = xa_chain_id a,
            dom_verifying_contract = c\<rparr>)"

definition build_x402_authorization ::
  "'x deps_scheme \<Rightarrow> X402Asset \<Rightarrow> string \<Rightarrow> X402Request \<Rightarrow> string \<Rightarrow> nat \<Rightarrow> nat \<Rightarrow> bytes
     \<Rightarrow> X402BuildError + TransferWithAuthorization" where
  "build_x402_authorization X asset approved_recipient req from now_s validity_s nonce =
     (if \<not> eq_ignore_ascii_case (xr_asset req) (xa_verifying_contract asset) then Inl AssetMismatch
      else if \<not> eq_ignore_ascii_case (xr_recipient req) approved_recipient then Inl RecipientMismatch
      else if validity_s = 0 \<or> validity_s > X402_VALIDITY_MAX_S then Inl Validity
      else
        and_then (map_err XMalformed (parse_u256_dec (xr_amount req))) (\<lambda>val.
        if val = replicate 32 0 then Inl ZeroAmount else
        and_then (map_err XMalformed (parse_address X (xr_recipient req))) (\<lambda>to.
        and_then (map_err XMalformed (parse_address X from)) (\<lambda>from.
        and_then (ok_or Validity (checked_add now_s validity_s)) (\<lambda>valid_before.
        map_err XMalformed
          (twa_new from to val (now_s - X402_VALID_AFTER_SKEW_S) valid_before nonce))))))"

section \<open>Records\<close>

definition kind_name :: "RecordKind \<Rightarrow> string" where
  "kind_name k =
     (case k of
        RkBudgetGranted \<Rightarrow> ''budget_granted''
      | RkBudgetRevoked \<Rightarrow> ''budget_revoked''
      | RkAllBudgetsRevoked \<Rightarrow> ''all_budgets_revoked''
      | RkStoreReset \<Rightarrow> ''store_reset''
      | RkAutoSign \<Rightarrow> ''auto_sign'')"

definition json_nat :: "nat \<Rightarrow> Value" where "json_nat n = VNumber (Some n) (show_nat n)"

definition json_opt :: "('a \<Rightarrow> Value) \<Rightarrow> 'a option \<Rightarrow> Value" where
  "json_opt f x = (case x of None \<Rightarrow> VNull | Some y \<Rightarrow> f y)"

definition record_body :: "DecisionRecord \<Rightarrow> Value" where
  "record_body r =
     VArray [json_nat (dr_record_id r), VString (kind_name (rd_kind r)), json_opt json_nat (rd_budget_id r),
       VString (rd_principal r), VString (rd_origin r), json_opt VString (rd_payload_digest r),
       json_opt VString (rd_statement r), json_opt VString (rd_nonce r),
       json_opt VString (rd_request_id r), json_opt VString (rd_signer_address r),
       json_nat (rd_at_ms r), json_opt json_nat (rd_remaining_after r), json_opt VString (rd_note r)]"

definition record_hash :: "'x deps_scheme \<Rightarrow> DecisionRecord \<Rightarrow> string" where
  "record_hash X r =
     ''0x'' @ hex_encode X (sha256 X (as_bytes (dr_prev_hash r) @ as_bytes (json_to_string X (record_body r))))"

definition head_hash :: "DecisionRecord list \<Rightarrow> string" where
  "head_hash rs = (if rs = [] then GENESIS_HASH else dr_hash (last rs))"

definition append_record ::
  "'x deps_scheme \<Rightarrow> BudgetFile \<Rightarrow> RecordDraft \<Rightarrow> RecordStatus \<Rightarrow> BudgetFile \<times> nat" where
  "append_record X file d status =
     (let rs = bf_records file;
          record_id = (if rs = [] then 1 else wrap_inc (dr_record_id (last rs)));
          prev_hash = head_hash rs;
          rec = RecordDraft.extend d
                  (DecisionRecord.fields record_id prev_hash [] status);
          rec = rec\<lparr>dr_hash := record_hash X rec\<rparr>
      in (file\<lparr>bf_records := rs @ [rec]\<rparr>, record_id))"

fun verify_chain_from :: "'x deps_scheme \<Rightarrow> string \<Rightarrow> DecisionRecord list \<Rightarrow> bool" where
  "verify_chain_from X prev [] = True"
| "verify_chain_from X prev (r # rs) =
     (if dr_prev_hash r \<noteq> prev \<or> record_hash X r \<noteq> dr_hash r then False
      else verify_chain_from X (dr_hash r) rs)"

definition verify_chain :: "'x deps_scheme \<Rightarrow> DecisionRecord list \<Rightarrow> bool" where
  "verify_chain X records = verify_chain_from X GENESIS_HASH records"

definition keccak_hex :: "'x deps_scheme \<Rightarrow> string \<Rightarrow> string" where
  "keccak_hex X s = ''0x'' @ hex_encode X (keccak X (as_bytes s))"

section \<open>Persistence\<close>

definition write_file :: "'x wb_deps_scheme \<Rightarrow> faults \<Rightarrow> bytes \<Rightarrow> BudgetFile \<Rightarrow> world \<Rightarrow> world option" where
  "write_file X fl key file W =
     (case file_to_json X file of
        None \<Rightarrow> None
      | Some body \<Rightarrow>
        (case hmac_sha256 X key (as_bytes body) of
           None \<Rightarrow> None
         | Some mac \<Rightarrow>
           (case envelope_to_json X \<lparr>env_v = FILE_VERSION, env_body = body, env_mac = hex_encode X mac\<rparr> of
              None \<Rightarrow> None
            | Some text \<Rightarrow> if fl_write fl then Some (W\<lparr>w_file := Some text\<rparr>) else None)))"

definition persist ::
  "'x wb_deps_scheme \<Rightarrow> faults \<Rightarrow> bytes option \<Rightarrow> BudgetFile \<Rightarrow> world \<Rightarrow> bool \<times> BudgetFile \<times> world" where
  "persist X fl key file W =
     (case key of
        None \<Rightarrow> (False, file, W)
      | Some k \<Rightarrow>
        (let next = file\<lparr>bf_generation := sat_add (bf_generation file) 1\<rparr> in
         case write_file X fl k next W of
           None \<Rightarrow> (False, file, W)
         | Some W' \<Rightarrow>
           (True, next,
            if fl_set_generation fl
            then W'\<lparr>w_generation := Some (as_bytes (show_nat (bf_generation next)))\<rparr> else W')))"

definition mac_verifies :: "'x deps_scheme \<Rightarrow> bytes \<Rightarrow> string \<Rightarrow> bytes \<Rightarrow> bool" where
  "mac_verifies X key body tag \<longleftrightarrow> hmac_sha256 X key (as_bytes body) = Some tag"

definition recover_record :: "DecisionRecord \<Rightarrow> DecisionRecord" where
  "recover_record r = (if dr_status r = Reserved then r\<lparr>dr_status := OutcomeUnknown\<rparr> else r)"

definition last_record_id :: "BudgetFile \<Rightarrow> nat" where
  "last_record_id file = (if bf_records file = [] then 0 else dr_record_id (last (bf_records file)))"

text \<open>The checks of \<open>load\<close> on an existing file, given the key and the sealed generation.\<close>

definition decode_file :: "'x wb_deps_scheme \<Rightarrow> bytes \<Rightarrow> nat \<Rightarrow> string \<Rightarrow> string + BudgetFile" where
  "decode_file X key sealed_generation raw =
     and_then (ok_or ''the budget file is damaged'' (envelope_from_json X raw)) (\<lambda>env.
     and_then (ok_or ''the budget file is damaged'' (hex_decode X (env_mac env))) (\<lambda>tag.
     if \<not> mac_verifies X key (env_body env) tag \<or> env_v env \<noteq> FILE_VERSION
     then Inl ''the budget file failed its integrity check'' else
     and_then (ok_or ''the budget file is damaged'' (file_from_json X (env_body env))) (\<lambda>file.
     if \<not> verify_chain X (bf_records file)
     then Inl ''the budget decision records failed their integrity check'' else
     if bf_generation file < sealed_generation
     then Inl ''the budget file is older than the last one saved on this device, so it may have been replaced'' else
     if bf_exported_through file > last_record_id file
     then Inl ''the budget file is damaged'' else
     Inr file)))"

definition load_failed :: "string \<Rightarrow> world \<Rightarrow> GateInner \<times> world" where
  "load_failed why W = (\<lparr>g_file = file_default, g_health = StoreFailed why, g_mac_key = None\<rparr>, W)"

definition sealed_generation :: "world \<Rightarrow> nat option" where
  "sealed_generation W =
     (case w_generation W of
        None \<Rightarrow> Some 0
      | Some raw \<Rightarrow> if valid_utf8 (of_bytes raw) then parse_u64 (of_bytes raw) else None)"

definition load_existing ::
  "'x wb_deps_scheme \<Rightarrow> faults \<Rightarrow> bytes option \<Rightarrow> nat \<Rightarrow> string \<Rightarrow> world \<Rightarrow> GateInner \<times> world" where
  "load_existing X fl key sealed raw W =
     (case key of
        None \<Rightarrow> load_failed ''the budget file's integrity key is missing from the keychain'' W
      | Some k \<Rightarrow>
        if length k \<noteq> 32 then load_failed ''the budget file's integrity key is missing from the keychain'' W
        else if \<not> fl_read fl \<or> \<not> valid_utf8 raw then load_failed ''the budget file could not be read'' W
        else
          (case decode_file X k sealed raw of
             Inl why \<Rightarrow> load_failed why W
           | Inr file \<Rightarrow>
             (let changed = list_ex (\<lambda>r. dr_status r = Reserved) (bf_records file);
                  file = file\<lparr>bf_records := map recover_record (bf_records file)\<rparr>;
                  (file, W) = (if changed then snd (persist X fl (Some k) file W) else (file, W))
              in (\<lparr>g_file = file, g_health = StoreOk, g_mac_key = Some k\<rparr>, W))))"

text \<open>\<open>fresh\<close> is what \<open>new_key\<close> draws from the operating system's generator.\<close>

definition load :: "'x wb_deps_scheme \<Rightarrow> faults \<Rightarrow> bytes \<Rightarrow> world \<Rightarrow> GateInner \<times> world" where
  "load X fl fresh W =
     (let unavailable = ''the OS keychain is unavailable, so budgets are off'' in
      if \<not> fl_get_key fl then load_failed unavailable W
      else
        (let key = w_mac_key W in
         if \<not> fl_get_generation fl then load_failed unavailable W
         else
           (case sealed_generation W of
              None \<Rightarrow> load_failed ''the budget file's saved version in the keychain is damaged'' W
            | Some sealed \<Rightarrow>
              (case w_file W of
                 None \<Rightarrow>
                   if sealed > 0
                   then load_failed ''the budget file is missing although this device saved one before'' W
                   else if (case key of Some k \<Rightarrow> length k = 32 | None \<Rightarrow> False)
                   then (\<lparr>g_file = file_default, g_health = StoreOk, g_mac_key = key\<rparr>, W)
                   else if \<not> fl_set_key fl then load_failed unavailable W
                   else (\<lparr>g_file = file_default, g_health = StoreOk, g_mac_key = Some fresh\<rparr>,
                         W\<lparr>w_mac_key := Some fresh\<rparr>)
               | Some raw \<Rightarrow> load_existing X fl key sealed raw W))))"

section \<open>Member actions\<close>

text \<open>The file with the new budget and its decision record, before it is saved.\<close>

definition granted_file ::
  "'x deps_scheme \<Rightarrow> string \<Rightarrow> string \<Rightarrow> nat \<Rightarrow> nat \<Rightarrow> string \<Rightarrow> nat \<Rightarrow> BudgetFile
     \<Rightarrow> WebSigningBudget \<times> BudgetFile" where
  "granted_file X origin princ max_count ttl_ms wallet_address now_ms next =
     (let bid = bf_next_budget_id next;
          next = next\<lparr>bf_next_budget_id := wrap_inc bid\<rparr>;
          (next, rid) = append_record X next
            (draft_default\<lparr>rd_kind := RkBudgetGranted, rd_budget_id := Some bid,
               rd_principal := princ, rd_origin := origin, rd_at_ms := now_ms,
               rd_remaining_after := Some max_count,
               rd_note := Some (show_nat max_count @ '' sign-ins until ''
                                @ fmt_ms (sat_add now_ms ttl_ms))\<rparr>) Final;
          budget =
            \<lparr>wb_id = bid, wb_origin = origin, wb_principal = princ,
             wb_chain_id = hd CHAIN_ALLOWLIST, wb_max_count = max_count, wb_used_count = 0,
             wb_granted_at_ms = now_ms, wb_expires_at_ms = sat_add now_ms ttl_ms,
             wb_wallet_address = to_ascii_lowercase wallet_address,
             wb_granted_record_id = rid, wb_revoked_at_ms = None\<rparr>
      in (budget, next\<lparr>bf_budgets := bf_budgets next @ [budget]\<rparr>))"

definition grant ::
  "'x wb_deps_scheme \<Rightarrow> faults \<Rightarrow> string \<Rightarrow> string \<Rightarrow> nat \<Rightarrow> nat \<Rightarrow> string \<Rightarrow> nat \<Rightarrow> GateInner \<Rightarrow> world
     \<Rightarrow> (BudgetError + WebSigningBudget) \<times> GateInner \<times> world" where
  "grant X fl origin_input princ max_count ttl_ms wallet_address now_ms g W =
     (if g_health g \<noteq> StoreOk then (Inl BeStoreUnavailable, g, W)
      else
        (case normalize_allowlist_origin X origin_input of
           Inl r \<Rightarrow> (Inl (BeBadOrigin r), g, W)
         | Inr origin \<Rightarrow>
           if max_count = 0 \<or> max_count > MAX_COUNT_CEILING
              \<or> \<not> (MIN_TTL_MS \<le> ttl_ms \<and> ttl_ms \<le> MAX_TTL_MS_CEILING)
           then (Inl BeOverCeiling, g, W)
           else if list_ex (\<lambda>b. wb_origin b = origin \<and> wb_principal b = princ
                     \<and> wb_revoked_at_ms b = None \<and> now_ms < wb_expires_at_ms b) (bf_budgets (g_file g))
           then (Inl BeLiveBudgetExists, g, W)
           else
             (let (budget, next) =
                    granted_file X origin princ max_count ttl_ms wallet_address now_ms (g_file g);
                  (ok, next, W) = persist X fl (g_mac_key g) next W
              in if ok then (Inr budget, g\<lparr>g_file := next\<rparr>, W) else (Inl BePersist, g, W))))"

definition revoke ::
  "'x wb_deps_scheme \<Rightarrow> faults \<Rightarrow> nat \<Rightarrow> nat \<Rightarrow> GateInner \<Rightarrow> world
     \<Rightarrow> (BudgetError + unit) \<times> GateInner \<times> world" where
  "revoke X fl bid now_ms g W =
     (case find (\<lambda>b. wb_id b = bid) (bf_budgets (g_file g)) of
        None \<Rightarrow> (Inl BeUnknownBudget, g, W)
      | Some b \<Rightarrow>
        if wb_revoked_at_ms b \<noteq> None then (Inr (), g, W)
        else
          (let file = (g_file g)\<lparr>bf_budgets := update_first (\<lambda>b. wb_id b = bid)
                         (\<lambda>b. b\<lparr>wb_revoked_at_ms := Some now_ms\<rparr>) (bf_budgets (g_file g))\<rparr>;
               file = fst (append_record X file
                 (draft_default\<lparr>rd_kind := RkBudgetRevoked, rd_budget_id := Some bid,
                    rd_principal := wb_principal b, rd_origin := wb_origin b, rd_at_ms := now_ms\<rparr>) Final)
           in if g_health g \<noteq> StoreOk then (Inr (), g\<lparr>g_file := file\<rparr>, W)
              else
                (let (ok, file, W) = persist X fl (g_mac_key g) file W
                 in (if ok then Inr () else Inl BePersist, g\<lparr>g_file := file\<rparr>, W))))"

text \<open>\<open>reason.chars().take(200).collect()\<close>: the first \<open>n\<close> characters of a string.\<close>

definition utf8_width :: "char \<Rightarrow> nat" where
  "utf8_width a = (if code a < 128 then 1 else if code a < 224 then 2 else if code a < 240 then 3 else 4)"

fun utf8_take :: "nat \<Rightarrow> string \<Rightarrow> string" where
  "utf8_take 0 s = []"
| "utf8_take (Suc n) [] = []"
| "utf8_take (Suc n) (a # s) =
     (let w = utf8_width a in take w (a # s) @ utf8_take n (drop (w - 1) s))"

definition revoke_all ::
  "'x wb_deps_scheme \<Rightarrow> faults \<Rightarrow> string \<Rightarrow> nat \<Rightarrow> GateInner \<Rightarrow> world
     \<Rightarrow> (BudgetError + nat) \<times> GateInner \<times> world" where
  "revoke_all X fl reason now_ms g W =
     (let budgets = bf_budgets (g_file g);
          n = length (filter (\<lambda>b. wb_revoked_at_ms b = None) budgets) mod 2 ^ 32;
          file = (g_file g)\<lparr>bf_budgets := map (\<lambda>b.
                   if wb_revoked_at_ms b = None then b\<lparr>wb_revoked_at_ms := Some now_ms\<rparr> else b) budgets\<rparr>;
          file = fst (append_record X file
            (draft_default\<lparr>rd_kind := RkAllBudgetsRevoked, rd_principal := ''member'', rd_at_ms := now_ms,
               rd_note := Some (utf8_take 200 reason)\<rparr>) Final)
      in if g_health g \<noteq> StoreOk then (Inr n, g\<lparr>g_file := file\<rparr>, W)
         else
           (let (ok, file, W) = persist X fl (g_mac_key g) file W
            in (if ok then Inr n else Inl BePersist, g\<lparr>g_file := file\<rparr>, W)))"

definition reset_after_integrity_failure ::
  "'x wb_deps_scheme \<Rightarrow> faults \<Rightarrow> bytes \<Rightarrow> nat \<Rightarrow> GateInner \<Rightarrow> world
     \<Rightarrow> (BudgetError + unit) \<times> GateInner \<times> world" where
  "reset_after_integrity_failure X fl fresh now_ms g W =
     (if g_health g = StoreOk then (Inl BeStoreHealthy, g, W)
      else if w_file W \<noteq> None \<and> \<not> fl_rename fl then (Inl BePersist, g, W)
      else
        (let W = (case w_file W of
                    None \<Rightarrow> W
                  | Some raw \<Rightarrow> W\<lparr>w_file := None,
                      w_aside := w_aside W @ [(''.corrupt-'' @ show_nat now_ms, raw)]\<rparr>)
         in if \<not> fl_set_key fl then (Inl BeStoreUnavailable, g, W)
            else
              (let W = W\<lparr>w_mac_key := Some fresh\<rparr>;
                   file = fst (append_record X file_default
                     (draft_default\<lparr>rd_kind := RkStoreReset, rd_principal := ''member'', rd_at_ms := now_ms,
                        rd_note := Some ''the previous budget file could not be verified and was kept aside''\<rparr>) Final);
                   (ok, file, W) = persist X fl (Some fresh) file W
               in if ok then (Inr (), \<lparr>g_file = file, g_health = StoreOk, g_mac_key = Some fresh\<rparr>, W)
                  else (Inl BePersist, g, W))))"

definition status_of :: "WebSigningBudget \<Rightarrow> nat \<Rightarrow> string option \<Rightarrow> string" where
  "status_of b now_ms wallet =
     (if wb_revoked_at_ms b \<noteq> None then ''revoked''
      else if now_ms \<ge> wb_expires_at_ms b then ''expired''
      else if (case wallet of Some w \<Rightarrow> \<not> eq_ignore_ascii_case w (wb_wallet_address b) | None \<Rightarrow> False)
      then ''wallet_changed''
      else if wb_used_count b \<ge> wb_max_count b then ''used_up''
      else ''active'')"

text \<open>The newest budget of an origin and principal (\<open>max_by_key\<close> on the id).\<close>

definition newest_budget :: "BudgetFile \<Rightarrow> string \<Rightarrow> string \<Rightarrow> WebSigningBudget option" where
  "newest_budget f origin princ =
     max_by_key wb_id (filter (\<lambda>b. wb_origin b = origin \<and> wb_principal b = princ) (bf_budgets f))"

definition live_budget_for ::
  "'x deps_scheme \<Rightarrow> string \<Rightarrow> string \<Rightarrow> string option \<Rightarrow> nat \<Rightarrow> GateInner \<Rightarrow> nat option" where
  "live_budget_for X origin_input princ wallet now_ms g =
     (case (wallet, normalize_allowlist_origin X origin_input) of
        (Some wallet, Inr origin) \<Rightarrow>
          if g_health g \<noteq> StoreOk then None
          else
            (case newest_budget (g_file g) origin princ of
               Some b \<Rightarrow> if status_of b now_ms (Some wallet) = ''active'' then Some (wb_id b) else None
             | None \<Rightarrow> None)
      | _ \<Rightarrow> None)"

definition records_to_export :: "nat \<Rightarrow> GateInner \<Rightarrow> DecisionRecord list" where
  "records_to_export limit g =
     (if g_health g \<noteq> StoreOk then []
      else take limit (takeWhile (\<lambda>r. dr_status r \<noteq> Reserved)
             (filter (\<lambda>r. dr_record_id r > bf_exported_through (g_file g)) (bf_records (g_file g)))))"

definition mark_exported ::
  "'x wb_deps_scheme \<Rightarrow> faults \<Rightarrow> nat \<Rightarrow> GateInner \<Rightarrow> world
     \<Rightarrow> (BudgetError + unit) \<times> GateInner \<times> world" where
  "mark_exported X fl through g W =
     (if g_health g \<noteq> StoreOk then (Inl BeStoreUnavailable, g, W)
      else if through > last_record_id (g_file g) then (Inl BeUnknownBudget, g, W)
      else if through \<le> bf_exported_through (g_file g) then (Inr (), g, W)
      else
        (let next = (g_file g)\<lparr>bf_exported_through := through\<rparr>;
             (ok, next, W) = persist X fl (g_mac_key g) next W
         in if ok then (Inr (), g\<lparr>g_file := next\<rparr>, W) else (Inl BePersist, g, W)))"

definition budget_view :: "nat \<Rightarrow> string option \<Rightarrow> WebSigningBudget \<Rightarrow> BudgetView" where
  "budget_view now_ms wallet b =
     \<lparr>bv_id = wb_id b, bv_origin = wb_origin b, bv_principal = wb_principal b,
      bv_chain_id = wb_chain_id b, bv_max_count = wb_max_count b, bv_used_count = wb_used_count b,
      bv_remaining = wb_max_count b - wb_used_count b, bv_granted_at_ms = wb_granted_at_ms b,
      bv_expires_at_ms = wb_expires_at_ms b, bv_revoked_at_ms = wb_revoked_at_ms b,
      bv_status = status_of b now_ms wallet\<rparr>"

text \<open>\<open>sort_by_key\<close> with \<open>Reverse(id)\<close> is a stable sort by descending id.\<close>

definition snapshot :: "nat \<Rightarrow> string option \<Rightarrow> GateInner \<Rightarrow> BudgetSnapshot" where
  "snapshot now_ms wallet g =
     \<lparr>bn_health = g_health g,
      bn_budgets = sort_key (\<lambda>b. - int (bv_id b)) (map (budget_view now_ms wallet) (bf_budgets (g_file g))),
      bn_records = take SNAPSHOT_RECORDS (rev (bf_records (g_file g))),
      bn_head_hash = head_hash (bf_records (g_file g)),
      bn_record_count = length (bf_records (g_file g))\<rparr>"

section \<open>The budgeted decision\<close>

definition taint_ok :: "'x deps_scheme \<Rightarrow> TaskTaint \<Rightarrow> string \<Rightarrow> FallThrough + unit" where
  "taint_ok X taint origin =
     (case taint of
        Clean \<Rightarrow> Inr ()
      | TaintUnknown \<Rightarrow> Inl FtTaintUnknown
      | Sources srcs \<Rightarrow>
          (let all_same = list_all (\<lambda>s. normalize_allowlist_origin X s = Inr origin) srcs
           in if srcs = [] \<or> (O3_SAME_ORIGIN_EXEMPT \<and> all_same) then Inr () else Inl FtTainted))"

definition in_window :: "nat \<Rightarrow> nat \<Rightarrow> bool" where
  "in_window t until \<longleftrightarrow> t \<le> until \<and> until < sat_add t SIWE_WINDOW_MS"

definition check_rate :: "BudgetFile \<Rightarrow> string \<Rightarrow> nat \<Rightarrow> FallThrough + unit" where
  "check_rate f origin now_ms =
     (let mine = filter (\<lambda>r. rs_origin r = origin) (bf_reservations f) in
      if list_ex (\<lambda>r. now_ms < sat_add (rs_at_ms r) SIWE_MIN_GAP_MS) mine then Inl FtRateGap
      else if length (filter (\<lambda>r. in_window (rs_at_ms r) now_ms) mine) \<ge> SIWE_WINDOW_MAX
      then Inl FtRateWindow
      else Inr ())"

definition check_budget :: "WebSigningBudget \<Rightarrow> string option \<Rightarrow> nat \<Rightarrow> FallThrough + string" where
  "check_budget budget wallet now_ms =
     (if wb_revoked_at_ms budget \<noteq> None then Inl FtBudgetRevoked
      else if now_ms \<ge> wb_expires_at_ms budget then Inl FtBudgetExpired
      else and_then (ok_or FtNoWallet wallet) (\<lambda>wallet.
        if \<not> eq_ignore_ascii_case wallet (wb_wallet_address budget) then Inl FtWalletChanged
        else if wb_used_count budget \<ge> wb_max_count budget then Inl FtBudgetExhausted
        else Inr wallet))"

definition evaluate_siwe ::
  "'x deps_scheme \<Rightarrow> SiweEvalInput \<Rightarrow> nat \<Rightarrow> GateInner \<Rightarrow> FallThrough + SiwePlan" where
  "evaluate_siwe X inp now_ms g =
     (let f = g_file g in
      if g_health g \<noteq> StoreOk then Inl FtStoreUnavailable
      else if ei_hic_required inp then Inl FtHicRequired
      else
        and_then (ok_or FtNotAttested (ei_attestation inp)) (\<lambda>att.
        if oa_mode att \<noteq> Managed then Inl FtAttachMode else
        if oa_frame att \<noteq> Top then Inl FtNotTopFrame else
        and_then (map_err (\<lambda>_. FtNoBudget) (normalize_allowlist_origin X (oa_origin att))) (\<lambda>origin.
        and_then (ok_or FtNoBudget (newest_budget f origin (ei_principal inp))) (\<lambda>budget.
        and_then (check_budget budget (ei_wallet_address inp) now_ms) (\<lambda>wallet.
        and_then (taint_ok X (ei_taint inp) origin) (\<lambda>_.
        and_then (map_err FtMessage (check_budgetable X (ei_message inp)
            \<lparr>cc_attested_origin = origin, cc_wallet_address = wallet, cc_now_ms = now_ms\<rparr>)) (\<lambda>checked.
        if list_ex (\<lambda>e. le_origin e = origin \<and> le_nonce e = bs_nonce checked) (bf_ledger f)
        then Inl FtNonceReused else
        and_then (check_rate f origin now_ms) (\<lambda>_.
        Inr \<lparr>sp_budget_id = wb_id budget, sp_origin = origin, sp_principal = ei_principal inp,
             sp_signer_address = to_ascii_lowercase wallet,
             sp_payload_digest = keccak_hex X (ei_message inp),
             sp_checked = checked, sp_budget_expires_at_ms = wb_expires_at_ms budget\<rparr>))))))))"

definition reserve ::
  "'x wb_deps_scheme \<Rightarrow> faults \<Rightarrow> SiwePlan \<Rightarrow> nat \<Rightarrow> GateInner \<Rightarrow> world
     \<Rightarrow> (FallThrough + nat) \<times> GateInner \<times> world" where
  "reserve X fl plan now_ms g W =
     (let next = g_file g in
      case find (\<lambda>b. wb_id b = sp_budget_id plan) (bf_budgets next) of
        None \<Rightarrow> (Inl FtNoBudget, g, W)
      | Some b \<Rightarrow>
        if wb_revoked_at_ms b \<noteq> None \<or> wb_used_count b \<ge> wb_max_count b
        then (Inl FtBudgetExhausted, g, W)
        else
          (let budgets = update_first (\<lambda>b. wb_id b = sp_budget_id plan)
                 (\<lambda>b. b\<lparr>wb_used_count := wb_used_count b + 1\<rparr>) (bf_budgets next);
               remaining = wb_max_count b - (wb_used_count b + 1);
               ledger = filter (\<lambda>e. le_keep_until_ms e \<ge> now_ms) (bf_ledger next);
               reservations = filter (\<lambda>r. in_window (rs_at_ms r) now_ms \<or> rs_at_ms r > now_ms)
                 (bf_reservations next);
               ledger = ledger @ [\<lparr>le_origin = sp_origin plan, le_nonce = bs_nonce (sp_checked plan),
                 le_keep_until_ms = sat_add (bs_expiration_ms (sp_checked plan)) CLOCK_SKEW_MS\<rparr>];
               reservations = reservations @ [\<lparr>rs_origin = sp_origin plan, rs_at_ms = now_ms\<rparr>];
               next = next\<lparr>bf_budgets := budgets, bf_ledger := ledger, bf_reservations := reservations\<rparr>;
               (next, rid) = append_record X next
                 \<lparr>rd_kind = RkAutoSign, rd_budget_id = Some (sp_budget_id plan),
                  rd_principal = sp_principal plan, rd_origin = sp_origin plan,
                  rd_payload_digest = Some (sp_payload_digest plan),
                  rd_statement = bs_statement (sp_checked plan),
                  rd_nonce = Some (bs_nonce (sp_checked plan)),
                  rd_request_id = bs_request_id (sp_checked plan),
                  rd_signer_address = Some (sp_signer_address plan), rd_at_ms = now_ms,
                  rd_remaining_after = Some remaining, rd_note = None\<rparr> Reserved;
               (ok, next, W) = persist X fl (g_mac_key g) next W
           in if ok then (Inr rid, g\<lparr>g_file := next\<rparr>, W) else (Inl FtWriteAheadFailed, g, W)))"

definition still_signable :: "SiwePlan \<Rightarrow> nat \<Rightarrow> GateInner \<Rightarrow> FallThrough + unit" where
  "still_signable plan now_ms g =
     (if list_ex (\<lambda>b. wb_id b = sp_budget_id plan \<and> wb_revoked_at_ms b \<noteq> None) (bf_budgets (g_file g))
      then Inl FtBudgetRevoked
      else if now_ms \<ge> sp_budget_expires_at_ms plan \<or> now_ms \<ge> bs_expiration_ms (sp_checked plan)
      then Inl FtExpiredBeforeSigning
      else Inr ())"

definition remaining_of :: "nat \<Rightarrow> GateInner \<Rightarrow> nat" where
  "remaining_of bid g =
     (case find (\<lambda>b. wb_id b = bid) (bf_budgets (g_file g)) of
        Some b \<Rightarrow> wb_max_count b - wb_used_count b
      | None \<Rightarrow> 0)"

definition close ::
  "'x wb_deps_scheme \<Rightarrow> faults \<Rightarrow> nat \<Rightarrow> RecordStatus \<Rightarrow> GateInner \<Rightarrow> world \<Rightarrow> GateInner \<times> world" where
  "close X fl record_id status g W =
     (let file = (g_file g)\<lparr>bf_records := update_first (\<lambda>r. dr_record_id r = record_id)
                    (\<lambda>r. r\<lparr>dr_status := status\<rparr>) (bf_records (g_file g))\<rparr>;
          (ok, file, W) = persist X fl (g_mac_key g) file W
      in (g\<lparr>g_file := file\<rparr>, W))"

end
