(* ===== verification/WebBudgetStore.thy ===== *)
theory WebBudgetStore
  imports WebBudget
begin

text \<open>
  Facts on single operations of the budget store: the hash chain of decision records (stated once
  for any chained log, as a locale, and interpreted on the store's records), the invariant of the
  budget file and its preservation by every operation, what a saved file loads back as, what a
  load refuses, and what a positive decision has checked.
\<close>

section \<open>Chained logs\<close>

locale hash_chain =
  fixes rhash :: "'r \<Rightarrow> 'h" and prev :: "'r \<Rightarrow> 'h" and stored :: "'r \<Rightarrow> 'h" and genesis :: 'h
    and verify :: "'r list \<Rightarrow> bool" and head :: "'r list \<Rightarrow> 'h"
  assumes verify_Nil: "verify []"
    and verify_snoc: "verify (rs @ [r]) \<longleftrightarrow> verify rs \<and> prev r = head rs \<and> rhash r = stored r"
    and head_Nil: "head [] = genesis"
    and head_snoc: "head (rs @ [r]) = stored r"
begin

lemma verify_prefix: "verify (xs @ ys) \<Longrightarrow> verify xs"
proof (induction ys rule: rev_induct)
  case (snoc y ys)
  then show ?case using verify_snoc [of "xs @ ys" y] by simp
qed simp

lemma verify_cong:
  assumes "list_all2 (\<lambda>a b. rhash a = rhash b \<and> prev a = prev b \<and> stored a = stored b) xs ys"
  shows "(verify xs \<longleftrightarrow> verify ys) \<and> head xs = head ys"
  using assms
proof (induction xs arbitrary: ys rule: rev_induct)
  case (snoc x xs)
  then obtain y ys' where "ys = ys' @ [y]" by (cases ys rule: rev_cases) (auto dest: list_all2_lengthD)
  moreover have "length xs = length ys'"
    using list_all2_lengthD [OF snoc.prems] calculation by simp
  ultimately show ?case using snoc.prems snoc.IH [of ys']
    by (auto simp: verify_snoc head_snoc list_all2_append)
qed simp

text \<open>Two verified logs of the same length with the same head have the same contents, unless the
  record hash collides on them.\<close>

lemma head_determines_content:
  assumes "\<And>r s. r \<in> set xs \<Longrightarrow> s \<in> set ys \<Longrightarrow> rhash r = rhash s \<Longrightarrow> prev r = prev s \<and> content r = content s"
    and "verify xs" "verify ys" "head xs = head ys" "length xs = length ys"
  shows "map content xs = map content ys"
  using assms
proof (induction xs arbitrary: ys rule: rev_induct)
  case (snoc x xs)
  then obtain y ys' where ys: "ys = ys' @ [y]" by (cases ys rule: rev_cases) auto
  have "rhash x = rhash y" using snoc.prems ys by (simp add: verify_snoc head_snoc)
  then have xy: "prev x = prev y" "content x = content y" using snoc.prems(1) [of x y] ys by auto
  have "map content xs = map content ys'"
    using snoc.prems xy ys by (intro snoc.IH) (auto simp: verify_snoc)
  then show ?case using xy ys by simp
qed simp

end

lemma verify_chain_from_snoc:
  "verify_chain_from X p (rs @ [r]) \<longleftrightarrow>
     verify_chain_from X p rs \<and> dr_prev_hash r = (if rs = [] then p else dr_hash (last rs))
     \<and> record_hash X r = dr_hash r"
  by (induction rs arbitrary: p) auto

interpretation chain: hash_chain "record_hash X" dr_prev_hash dr_hash GENESIS_HASH "verify_chain X" head_hash
  for X :: "'x deps_scheme"
  by unfold_locales (auto simp: verify_chain_def verify_chain_from_snoc head_hash_def)

section \<open>The file invariant\<close>

definition budget_ok :: "WebSigningBudget \<Rightarrow> bool" where
  "budget_ok b \<longleftrightarrow> 1 \<le> wb_max_count b \<and> wb_max_count b \<le> MAX_COUNT_CEILING
     \<and> wb_used_count b \<le> wb_max_count b \<and> wb_chain_id b = CITRATE_CHAIN_ID
     \<and> wb_expires_at_ms b \<le> wb_granted_at_ms b + MAX_TTL_MS_CEILING"

text \<open>A later budget of the same site and principal begins after an earlier unrevoked one ended.\<close>

definition exclusive :: "WebSigningBudget \<Rightarrow> WebSigningBudget \<Rightarrow> bool" where
  "exclusive a b \<longleftrightarrow> wb_origin a = wb_origin b \<longrightarrow> wb_principal a = wb_principal b \<longrightarrow>
     wb_revoked_at_ms a = None \<longrightarrow> wb_expires_at_ms a \<le> wb_granted_at_ms b"

definition file_inv :: "'x deps_scheme \<Rightarrow> BudgetFile \<Rightarrow> bool" where
  "file_inv X f \<longleftrightarrow>
     verify_chain X (bf_records f)
     \<and> map dr_record_id (bf_records f) = [1..<Suc (length (bf_records f))]
     \<and> bf_exported_through f \<le> length (bf_records f)
     \<and> list_all budget_ok (bf_budgets f)
     \<and> 1 \<le> bf_next_budget_id f \<and> map wb_id (bf_budgets f) = [1..<bf_next_budget_id f]
     \<and> sorted_wrt exclusive (bf_budgets f)"

text \<open>Room for one more record and budget number below \<open>2 ^ 64\<close>.\<close>

definition room :: "BudgetFile \<Rightarrow> bool" where
  "room f \<longleftrightarrow> length (bf_records f) < u64_max \<and> bf_next_budget_id f < u64_max"

lemma file_inv_default: "file_inv X file_default"
  by (simp add: file_inv_def file_default_def verify_chain_def)

lemma file_inv_generation [simp]: "file_inv X (f\<lparr>bf_generation := n\<rparr>) = file_inv X f"
  by (simp add: file_inv_def)

lemma last_id:
  assumes "map dr_record_id rs = [1..<Suc (length rs)]" and "rs \<noteq> []"
  shows "dr_record_id (last rs) = length rs"
  using assms by (cases rs rule: rev_cases) auto

lemma last_record_id_inv: "file_inv X f \<Longrightarrow> last_record_id f = length (bf_records f)"
  using last_id by (auto simp: last_record_id_def file_inv_def)

lemma append_record_eq:
  assumes "append_record X f d st = (f', rid)"
  obtains r where "f' = f\<lparr>bf_records := bf_records f @ [r]\<rparr>" "dr_prev_hash r = head_hash (bf_records f)"
    "dr_hash r = record_hash X r" "dr_status r = st" "dr_record_id r = rid"
    "rid = (if bf_records f = [] then 1 else wrap_inc (dr_record_id (last (bf_records f))))"
    "RecordDraft.truncate r = d"
proof -
  have h: "record_hash X (r\<lparr>dr_hash := h\<rparr>) = record_hash X r" for r h
    by (simp add: record_hash_def record_body_def)
  let ?rid = "if bf_records f = [] then 1 else wrap_inc (dr_record_id (last (bf_records f)))"
  let ?r0 = "RecordDraft.extend d (DecisionRecord.fields ?rid (head_hash (bf_records f)) [] st)"
  let ?r = "?r0\<lparr>dr_hash := record_hash X ?r0\<rparr>"
  have "f' = f\<lparr>bf_records := bf_records f @ [?r]\<rparr>" "rid = ?rid"
    using assms by (auto simp: append_record_def Let_def)
  moreover have "dr_prev_hash ?r = head_hash (bf_records f)" "dr_status ?r = st" "dr_record_id ?r = ?rid"
    "RecordDraft.truncate ?r = d"
    by (simp_all add: RecordDraft.extend_def DecisionRecord.fields_def RecordDraft.truncate_def)
  moreover have "dr_hash ?r = record_hash X ?r" by (simp add: h)
  ultimately show thesis using that by metis
qed

lemma record_hash_status [simp]: "record_hash X (r\<lparr>dr_status := s\<rparr>) = record_hash X r"
  by (simp add: record_hash_def record_body_def)

lemma file_inv_append_record:
  assumes "file_inv X f" "length (bf_records f) < u64_max" "append_record X f d st = (f', rid)"
  shows "file_inv X f'" and "rid = Suc (length (bf_records f))"
    and "bf_budgets f' = bf_budgets f" "bf_ledger f' = bf_ledger f"
    and "bf_reservations f' = bf_reservations f" "bf_next_budget_id f' = bf_next_budget_id f"
    and "bf_generation f' = bf_generation f" "bf_exported_through f' = bf_exported_through f"
proof -
  from assms(3) obtain r where f': "f' = f\<lparr>bf_records := bf_records f @ [r]\<rparr>"
    and r: "dr_prev_hash r = head_hash (bf_records f)" "dr_hash r = record_hash X r" "dr_record_id r = rid"
    and rid: "rid = (if bf_records f = [] then 1 else wrap_inc (dr_record_id (last (bf_records f))))"
    by (rule append_record_eq)
  have "bf_records f \<noteq> [] \<Longrightarrow> dr_record_id (last (bf_records f)) = length (bf_records f)"
    using assms(1) by (intro last_id) (auto simp only: file_inv_def)
  with assms(2) show rid': "rid = Suc (length (bf_records f))"
    unfolding rid by (auto simp: wrap_inc_exact)
  show "file_inv X f'" using assms(1) r rid' unfolding f' file_inv_def
    by (simp add: chain.verify_snoc)
qed (use assms(3) in \<open>auto simp: append_record_def Let_def\<close>)

text \<open>Changing record statuses keeps the invariant: the status is not covered by the hash.\<close>

lemma list_all2_update_first:
  "(\<And>x. P x x) \<Longrightarrow> (\<And>x. P x (f x)) \<Longrightarrow> list_all2 P xs (update_first p f xs)"
  by (induction xs) (auto intro: list_all2_refl)

lemma file_inv_same_records:
  assumes "file_inv X f"
    and "list_all2 (\<lambda>a b. record_hash X a = record_hash X b \<and> dr_prev_hash a = dr_prev_hash b \<and> dr_hash a = dr_hash b)
           (bf_records f) rs"
    and "map dr_record_id rs = map dr_record_id (bf_records f)"
  shows "file_inv X (f\<lparr>bf_records := rs\<rparr>)"
  using assms chain.verify_cong [OF assms(2)] list_all2_lengthD [OF assms(2)]
  by (simp add: file_inv_def)

lemma file_inv_close:
  "file_inv X f \<Longrightarrow> file_inv X (f\<lparr>bf_records := update_first p (\<lambda>r. r\<lparr>dr_status := s\<rparr>) (bf_records f)\<rparr>)"
  by (rule file_inv_same_records) (auto intro: list_all2_update_first simp: map_update_first)

lemma file_inv_recover:
  "file_inv X f \<Longrightarrow> file_inv X (f\<lparr>bf_records := map recover_record (bf_records f)\<rparr>)"
  by (rule file_inv_same_records)
     (auto simp: list_all2_map2 recover_record_def intro!: list_all2_refl)

lemma file_inv_exported:
  "file_inv X f \<Longrightarrow> n \<le> length (bf_records f) \<Longrightarrow> file_inv X (f\<lparr>bf_exported_through := n\<rparr>)"
  by (simp add: file_inv_def)

text \<open>Budgets rewritten in place: identity and grant stay, revocation only goes up, the count
  stays within the maximum.\<close>

definition refines_budget :: "WebSigningBudget \<Rightarrow> WebSigningBudget \<Rightarrow> bool" where
  "refines_budget a b \<longleftrightarrow> wb_id a = wb_id b \<and> wb_origin a = wb_origin b \<and> wb_principal a = wb_principal b
     \<and> wb_chain_id a = wb_chain_id b \<and> wb_max_count a = wb_max_count b
     \<and> wb_granted_at_ms a = wb_granted_at_ms b \<and> wb_expires_at_ms a = wb_expires_at_ms b
     \<and> (wb_revoked_at_ms a \<noteq> None \<longrightarrow> wb_revoked_at_ms b \<noteq> None)
     \<and> (wb_used_count a \<le> wb_max_count a \<longrightarrow> wb_used_count b \<le> wb_max_count b)"

lemma exclusive_refines: "refines_budget a a' \<Longrightarrow> refines_budget b b' \<Longrightarrow> exclusive a b \<Longrightarrow> exclusive a' b'"
  by (auto simp: refines_budget_def exclusive_def)

lemma file_inv_budgets:
  assumes "file_inv X f" and "list_all2 refines_budget (bf_budgets f) bs"
  shows "file_inv X (f\<lparr>bf_budgets := bs\<rparr>)"
proof -
  have "map wb_id bs = map wb_id (bf_budgets f)"
    using assms(2) by (induction rule: list_all2_induct) (auto simp: refines_budget_def)
  moreover have "list_all budget_ok bs" if "list_all budget_ok (bf_budgets f)"
    using assms(2) that
    by (induction rule: list_all2_induct) (auto simp: refines_budget_def budget_ok_def)
  moreover have "sorted_wrt exclusive bs" if "sorted_wrt exclusive (bf_budgets f)"
    unfolding sorted_wrt_iff_nth_less
  proof (intro allI impI)
    fix i j assume ij: "i < j" "j < length bs"
    then have r: "refines_budget (bf_budgets f ! i) (bs ! i)" "refines_budget (bf_budgets f ! j) (bs ! j)"
      and len: "length (bf_budgets f) = length bs"
      using assms(2) by (simp_all add: list_all2_conv_all_nth)
    have "exclusive (bf_budgets f ! i) (bf_budgets f ! j)"
      using that ij len by (simp add: sorted_wrt_iff_nth_less)
    with r show "exclusive (bs ! i) (bs ! j)" using exclusive_refines by blast
  qed
  ultimately show ?thesis using assms(1) by (simp add: file_inv_def)
qed

lemma file_inv_ledger [simp]:
  "file_inv X (f\<lparr>bf_ledger := l\<rparr>) = file_inv X f" "file_inv X (f\<lparr>bf_reservations := r\<rparr>) = file_inv X f"
  by (simp_all add: file_inv_def)

lemma append_record_budgets:
  "append_record X (f\<lparr>bf_budgets := bs\<rparr>) d st =
     ((fst (append_record X f d st))\<lparr>bf_budgets := bs\<rparr>, snd (append_record X f d st))"
  by (simp add: append_record_def Let_def)

lemma file_inv_granted:
  assumes inv: "file_inv X f" and room: "room f"
    and g: "granted_file X origin who n ttl wallet now f = (b, f')"
    and n: "1 \<le> n" "n \<le> MAX_COUNT_CEILING" "ttl \<le> MAX_TTL_MS_CEILING"
    and live: "\<not> list_ex (\<lambda>b. wb_origin b = origin \<and> wb_principal b = who
                     \<and> wb_revoked_at_ms b = None \<and> now < wb_expires_at_ms b) (bf_budgets f)"
  shows "file_inv X f'" and "bf_budgets f' = bf_budgets f @ [b]" "wb_id b = bf_next_budget_id f"
    and "wb_used_count b = 0" "bf_next_budget_id f' = Suc (bf_next_budget_id f)"
    and "bf_ledger f' = bf_ledger f" "bf_reservations f' = bf_reservations f" "bf_generation f' = bf_generation f"
proof -
  define bid where "bid = bf_next_budget_id f"
  have bid: "wrap_inc bid = Suc bid" using room by (simp add: wrap_inc_exact bid_def room_def)
  define f0 where "f0 = f\<lparr>bf_next_budget_id := wrap_inc bid\<rparr>"
  obtain d rid f1 where a: "append_record X f0 d Final = (f1, rid)"
    and b: "b = \<lparr>wb_id = bid, wb_origin = origin, wb_principal = who,
             wb_chain_id = hd CHAIN_ALLOWLIST, wb_max_count = n, wb_used_count = 0,
             wb_granted_at_ms = now, wb_expires_at_ms = sat_add now ttl,
             wb_wallet_address = to_ascii_lowercase wallet, wb_granted_record_id = rid, wb_revoked_at_ms = None\<rparr>"
    and f': "f' = f1\<lparr>bf_budgets := bf_budgets f1 @ [b]\<rparr>"
    using g by (auto simp: granted_file_def Let_def bid_def f0_def split: prod.splits)
  have f1: "bf_budgets f1 = bf_budgets f"
    using a by (auto simp: append_record_def Let_def f0_def)
  let ?g = "f0\<lparr>bf_budgets := bf_budgets f @ [b]\<rparr>"
  have "append_record X ?g d Final = (f', rid)" unfolding append_record_budgets a using f' f1 by simp
  note a2 = this
  have "sat_add now ttl \<le> now + MAX_TTL_MS_CEILING" using n(3) by (simp add: sat_add_def)
  then have "budget_ok b" using n by (simp add: b budget_ok_def CHAIN_ALLOWLIST_def)
  moreover have "exclusive x b" if "x \<in> set (bf_budgets f)" for x
    using live that by (auto simp: exclusive_def b list_ex_iff not_less)
  ultimately have gi: "file_inv X ?g"
    using inv bid by (simp add: file_inv_def f0_def sorted_wrt_append b bid_def)
  have "length (bf_records ?g) < u64_max" using room by (simp add: f0_def room_def)
  note i = file_inv_append_record [OF gi this a2]
  show "file_inv X f'" "bf_budgets f' = bf_budgets f @ [b]" "wb_id b = bf_next_budget_id f"
    "wb_used_count b = 0" "bf_next_budget_id f' = Suc (bf_next_budget_id f)"
    "bf_ledger f' = bf_ledger f" "bf_reservations f' = bf_reservations f" "bf_generation f' = bf_generation f"
    using i bid by (simp_all add: f0_def b bid_def)
qed

section \<open>Saving and loading\<close>

definition serde_law :: "'x wb_deps_scheme \<Rightarrow> bool" where
  "serde_law X \<longleftrightarrow>
     (\<forall>f t. file_to_json X f = Some t \<longrightarrow> file_from_json X t = Some f)
     \<and> (\<forall>e t. envelope_to_json X e = Some t \<longrightarrow> envelope_from_json X t = Some e \<and> valid_utf8 t)"

definition sealed_text :: "'x wb_deps_scheme \<Rightarrow> bytes \<Rightarrow> BudgetFile \<Rightarrow> string option" where
  "sealed_text X key file =
     (case file_to_json X file of
        None \<Rightarrow> None
      | Some body \<Rightarrow>
        (case hmac_sha256 X key (as_bytes body) of
           None \<Rightarrow> None
         | Some mac \<Rightarrow>
             envelope_to_json X \<lparr>env_v = FILE_VERSION, env_body = body, env_mac = hex_encode X mac\<rparr>))"

lemma write_file_eq:
  "write_file X fl key file W =
     (case sealed_text X key file of
        None \<Rightarrow> None
      | Some text \<Rightarrow> if fl_write fl then Some (W\<lparr>w_file := Some text\<rparr>) else None)"
  by (simp add: write_file_def sealed_text_def split: option.splits)

lemma persist_cases:
  assumes "persist X fl key f W = (ok, f', W')"
  obtains (saved) k t where "ok" "key = Some k" "f' = f\<lparr>bf_generation := sat_add (bf_generation f) 1\<rparr>"
      "sealed_text X k f' = Some t" "w_file W' = Some t" "w_mac_key W' = w_mac_key W"
      "w_generation W' = Some (as_bytes (show_nat (bf_generation f'))) \<or> w_generation W' = w_generation W"
  | (not_saved) "\<not> ok" "f' = f" "W' = W"
  using assms
  by (auto simp: persist_def write_file_eq Let_def split: option.splits if_splits)

lemma decode_sealed:
  assumes "serde_law X" "hex_law X" "sealed_text X k f = Some t" "file_inv X f" "n \<le> bf_generation f"
  shows "decode_file X k n t = Inr f \<and> valid_utf8 t"
proof -
  obtain body mac where body: "file_to_json X f = Some body" "hmac_sha256 X k (as_bytes body) = Some mac"
    and env: "envelope_to_json X \<lparr>env_v = FILE_VERSION, env_body = body, env_mac = hex_encode X mac\<rparr> = Some t"
    using assms(3) by (auto simp: sealed_text_def split: option.splits)
  have "file_from_json X body = Some f" "valid_utf8 t"
    "envelope_from_json X t = Some \<lparr>env_v = FILE_VERSION, env_body = body, env_mac = hex_encode X mac\<rparr>"
    using assms(1) body(1) env by (auto simp: serde_law_def)
  moreover have "verify_chain X (bf_records f)" "\<not> bf_exported_through f > last_record_id f"
    using assms(4) last_record_id_inv [OF assms(4)] by (auto simp: file_inv_def)
  ultimately show ?thesis
    using assms(5) body(2)
    by (simp add: decode_file_def hex_roundtrip [OF assms(2)] mac_verifies_def)
qed

lemma decode_file_sound:
  assumes "decode_file X k n raw = Inr f"
  obtains env tag where "envelope_from_json X raw = Some env" "hex_decode X (env_mac env) = Some tag"
    "hmac_sha256 X k (as_bytes (env_body env)) = Some tag" "env_v env = FILE_VERSION"
    "file_from_json X (env_body env) = Some f" "verify_chain X (bf_records f)" "n \<le> bf_generation f"
    "bf_exported_through f \<le> last_record_id f"
  using assms unfolding decode_file_def
  by (elim and_then_Inr_cases if_InlE) (auto simp: mac_verifies_def not_less)

definition recovered :: "BudgetFile \<Rightarrow> BudgetFile" where
  "recovered f = f\<lparr>bf_records := map recover_record (bf_records f)\<rparr>"

lemma recovered_no_reserved: "r \<in> set (bf_records (recovered f)) \<Longrightarrow> dr_status r \<noteq> Reserved"
  by (auto simp: recovered_def recover_record_def)

text \<open>The file in memory after a load: the recovered file, with the next generation if recovery
  was saved.\<close>

lemma load_existing_file:
  assumes "load_existing X fl (Some k) n raw W = (g, W')" "length k = 32" "fl_read fl" "valid_utf8 raw"
    and "decode_file X k n raw = Inr f"
  shows "g_health g = StoreOk" and "g_mac_key g = Some k"
    and "(g_file g = recovered f \<and> W' = W)
      \<or> (\<exists>t. g_file g = (recovered f)\<lparr>bf_generation := sat_add (bf_generation f) 1\<rparr>
           \<and> sealed_text X k (g_file g) = Some t \<and> w_file W' = Some t \<and> w_mac_key W' = w_mac_key W
           \<and> (w_generation W' = Some (as_bytes (show_nat (bf_generation (g_file g))))
              \<or> w_generation W' = w_generation W))"
proof -
  let ?r = "f\<lparr>bf_records := map recover_record (bf_records f)\<rparr>"
  obtain ok f2 W2 where p: "persist X fl (Some k) ?r W = (ok, f2, W2)"
    by (cases "persist X fl (Some k) ?r W") auto
  have "(g, W') = (let (file, W) = (if list_ex (\<lambda>r. dr_status r = Reserved) (bf_records f)
            then (f2, W2) else (?r, W)) in (\<lparr>g_file = file, g_health = StoreOk, g_mac_key = Some k\<rparr>, W))"
    using assms p by (auto simp: load_existing_def Let_def split: if_splits)
  then have g: "g_health g = StoreOk" "g_mac_key g = Some k"
    "(g_file g = f2 \<and> W' = W2) \<or> (g_file g = ?r \<and> W' = W)"
    by (auto split: if_splits)
  then show "g_health g = StoreOk" "g_mac_key g = Some k" by simp_all
  from p show "(g_file g = recovered f \<and> W' = W)
      \<or> (\<exists>t. g_file g = (recovered f)\<lparr>bf_generation := sat_add (bf_generation f) 1\<rparr>
           \<and> sealed_text X k (g_file g) = Some t \<and> w_file W' = Some t \<and> w_mac_key W' = w_mac_key W
           \<and> (w_generation W' = Some (as_bytes (show_nat (bf_generation (g_file g))))
              \<or> w_generation W' = w_generation W))"
    by (cases rule: persist_cases) (use g(3) in \<open>auto simp: recovered_def\<close>)
qed

lemma load_failed_health: "load_failed why W = (g, W') \<Longrightarrow>
   g_health g \<noteq> StoreOk \<and> g_file g = file_default \<and> g_mac_key g = None \<and> W' = W"
  by (auto simp: load_failed_def)

lemma load_existing_cases:
  assumes "load_existing X fl key n raw W = (g, W')"
  shows "(g_health g \<noteq> StoreOk \<and> g_file g = file_default \<and> g_mac_key g = None \<and> W' = W)
    \<or> (\<exists>k f. key = Some k \<and> length k = 32 \<and> fl_read fl \<and> valid_utf8 raw \<and> decode_file X k n raw = Inr f)"
  using assms
  by (auto simp: load_existing_def dest!: load_failed_health split: option.splits if_splits sum.splits)

lemma load_cases:
  assumes "load X fl fresh W = (g, W')"
  obtains (failed) "g_health g \<noteq> StoreOk" "g_file g = file_default" "g_mac_key g = None" "W' = W"
  | (fresh_store) k where "w_file W = None" "sealed_generation W = Some 0" "g_health g = StoreOk"
      "g_file g = file_default" "g_mac_key g = Some k" "w_mac_key W' = Some k"
      "\<And>k'. w_mac_key W = Some k' \<Longrightarrow> length k' = 32 \<Longrightarrow> k = k'" "length fresh = 32 \<Longrightarrow> length k = 32"
      "w_file W' = None" "w_generation W' = w_generation W"
  | (existing) k n raw f where "w_file W = Some raw" "w_mac_key W = Some k" "length k = 32"
      "sealed_generation W = Some n" "fl_read fl" "valid_utf8 raw" "decode_file X k n raw = Inr f"
      "load_existing X fl (Some k) n raw W = (g, W')"
proof -
  consider "g_health g \<noteq> StoreOk \<and> g_file g = file_default \<and> g_mac_key g = None \<and> W' = W"
    | "w_file W = None" "sealed_generation W = Some 0"
       "(\<exists>k. w_mac_key W = Some k \<and> length k = 32
          \<and> (g, W') = (\<lparr>g_file = file_default, g_health = StoreOk, g_mac_key = Some k\<rparr>, W))
        \<or> (\<forall>k. w_mac_key W = Some k \<longrightarrow> length k \<noteq> 32)
          \<and> (g, W') = (\<lparr>g_file = file_default, g_health = StoreOk, g_mac_key = Some fresh\<rparr>,
                       W\<lparr>w_mac_key := Some fresh\<rparr>)"
    | raw n where "w_file W = Some raw" "sealed_generation W = Some n"
       "load_existing X fl (w_mac_key W) n raw W = (g, W')"
    using assms
    by (auto simp: load_def Let_def dest!: load_failed_health split: if_splits option.splits)
  then show thesis
  proof cases
    case 1
    then show ?thesis using failed by blast
  next
    case 2
    then show ?thesis using fresh_store by (elim disjE exE conjE) auto
  next
    case 3
    from load_existing_cases [OF 3(3)] show ?thesis
      using failed existing 3 by (elim disjE exE conjE) auto
  qed
qed

section \<open>Decisions\<close>

lemma check_budget_Inr:
  "check_budget b wallet now = Inr w \<longleftrightarrow>
     wallet = Some w \<and> wb_revoked_at_ms b = None \<and> now < wb_expires_at_ms b
     \<and> eq_ignore_ascii_case w (wb_wallet_address b) \<and> wb_used_count b < wb_max_count b"
  by (auto simp: check_budget_def and_then_Inr_iff)

lemma newest_budget_Some:
  assumes "newest_budget f o' p = Some b"
  shows "b \<in> set (bf_budgets f)" "wb_origin b = o'" "wb_principal b = p"
    and "\<And>a. a \<in> set (bf_budgets f) \<Longrightarrow> wb_origin a = o' \<Longrightarrow> wb_principal a = p \<Longrightarrow> wb_id a \<le> wb_id b"
  using max_by_key_Some [OF assms [unfolded newest_budget_def]] by auto

lemma evaluate_siwe_cases:
  assumes "evaluate_siwe X inp now g = Inr plan"
  obtains att budget wallet where "g_health g = StoreOk" "\<not> ei_hic_required inp"
    "ei_attestation inp = Some att" "oa_mode att = Managed" "oa_frame att = Top"
    "normalize_allowlist_origin X (oa_origin att) = Inr (sp_origin plan)"
    "newest_budget (g_file g) (sp_origin plan) (ei_principal inp) = Some budget"
    "check_budget budget (ei_wallet_address inp) now = Inr wallet"
    "taint_ok X (ei_taint inp) (sp_origin plan) = Inr ()"
    "check_budgetable X (ei_message inp) \<lparr>cc_attested_origin = sp_origin plan, cc_wallet_address = wallet,
       cc_now_ms = now\<rparr> = Inr (sp_checked plan)"
    "\<not> list_ex (\<lambda>e. le_origin e = sp_origin plan \<and> le_nonce e = bs_nonce (sp_checked plan)) (bf_ledger (g_file g))"
    "check_rate (g_file g) (sp_origin plan) now = Inr ()"
    "sp_budget_id plan = wb_id budget" "sp_budget_expires_at_ms plan = wb_expires_at_ms budget"
    "sp_principal plan = ei_principal inp" "sp_payload_digest plan = keccak_hex X (ei_message inp)"
    "sp_signer_address plan = to_ascii_lowercase wallet"
  using assms unfolding evaluate_siwe_def Let_def
  by (elim and_then_Inr_cases if_InlE)
     (simp only: ok_or_Inr_iff map_err_Inr_iff sum.inject, clarsimp)

lemma check_rate_Inr:
  assumes "check_rate f o' now = Inr ()" and "now < 2 ^ 62"
  shows "\<And>r. r \<in> set (bf_reservations f) \<Longrightarrow> rs_origin r = o' \<Longrightarrow> rs_at_ms r + 30000 \<le> now"
    and "length (filter (\<lambda>r. rs_origin r = o' \<and> in_window (rs_at_ms r) now) (bf_reservations f)) < 20"
proof -
  have *: "\<not> list_ex (\<lambda>r. now < sat_add (rs_at_ms r) SIWE_MIN_GAP_MS) (filter (\<lambda>r. rs_origin r = o') (bf_reservations f))"
    "length (filter (\<lambda>r. in_window (rs_at_ms r) now) (filter (\<lambda>r. rs_origin r = o') (bf_reservations f))) < SIWE_WINDOW_MAX"
    using assms(1) by (auto simp: check_rate_def Let_def not_le split: if_splits)
  show "rs_at_ms r + 30000 \<le> now" if "r \<in> set (bf_reservations f)" "rs_origin r = o'" for r
  proof -
    have "sat_add (rs_at_ms r) SIWE_MIN_GAP_MS \<le> now"
      using *(1) that by (auto simp: list_ex_iff not_less)
    then show ?thesis using assms(2) by (simp add: sat_add_def SIWE_MIN_GAP_MS_def u64_max_def min_def split: if_splits)
  qed
  have "filter (\<lambda>r. in_window (rs_at_ms r) now) (filter (\<lambda>r. rs_origin r = o') (bf_reservations f))
      = filter (\<lambda>r. rs_origin r = o' \<and> in_window (rs_at_ms r) now) (bf_reservations f)"
    by (simp add: conj_commute)
  with *(2) show "length (filter (\<lambda>r. rs_origin r = o' \<and> in_window (rs_at_ms r) now) (bf_reservations f)) < 20"
    by (simp add: SIWE_WINDOW_MAX_def)
qed

text \<open>The file \<open>reserve\<close> is about to save, before its decision record is appended.\<close>

definition reserved_file :: "SiwePlan \<Rightarrow> nat \<Rightarrow> BudgetFile \<Rightarrow> BudgetFile" where
  "reserved_file plan now f =
     f\<lparr>bf_budgets := update_first (\<lambda>b. wb_id b = sp_budget_id plan)
          (\<lambda>b. b\<lparr>wb_used_count := wb_used_count b + 1\<rparr>) (bf_budgets f),
       bf_ledger := filter (\<lambda>e. le_keep_until_ms e \<ge> now) (bf_ledger f)
          @ [\<lparr>le_origin = sp_origin plan, le_nonce = bs_nonce (sp_checked plan),
              le_keep_until_ms = sat_add (bs_expiration_ms (sp_checked plan)) CLOCK_SKEW_MS\<rparr>],
       bf_reservations := filter (\<lambda>r. in_window (rs_at_ms r) now \<or> rs_at_ms r > now) (bf_reservations f)
          @ [\<lparr>rs_origin = sp_origin plan, rs_at_ms = now\<rparr>]\<rparr>"

lemma reserve_cases:
  assumes "reserve X fl plan now g W = (res, g', W')"
  obtains (refused) e where "res = Inl e" "g' = g" "W' = W"
  | (reserved) rid b d f1 f2 where "res = Inr rid"
      "find (\<lambda>b. wb_id b = sp_budget_id plan) (bf_budgets (g_file g)) = Some b"
      "wb_revoked_at_ms b = None" "wb_used_count b < wb_max_count b"
      "append_record X (reserved_file plan now (g_file g)) d Reserved = (f1, rid)"
      "rd_kind d = RkAutoSign" "rd_payload_digest d = Some (sp_payload_digest plan)"
      "rd_nonce d = Some (bs_nonce (sp_checked plan))" "rd_at_ms d = now" "rd_origin d = sp_origin plan"
      "rd_budget_id d = Some (sp_budget_id plan)"
      "persist X fl (g_mac_key g) f1 W = (True, f2, W')" "g' = g\<lparr>g_file := f2\<rparr>"
proof (cases "find (\<lambda>b. wb_id b = sp_budget_id plan) (bf_budgets (g_file g))")
  case None
  then show thesis using assms refused by (auto simp: reserve_def Let_def)
next
  case (Some b)
  show thesis
  proof (cases "wb_revoked_at_ms b \<noteq> None \<or> wb_used_count b \<ge> wb_max_count b")
    case True
    then show thesis using assms Some refused by (auto simp: reserve_def Let_def)
  next
    case False
    define d where "d = \<lparr>rd_kind = RkAutoSign, rd_budget_id = Some (sp_budget_id plan),
                  rd_principal = sp_principal plan, rd_origin = sp_origin plan,
                  rd_payload_digest = Some (sp_payload_digest plan),
                  rd_statement = bs_statement (sp_checked plan),
                  rd_nonce = Some (bs_nonce (sp_checked plan)),
                  rd_request_id = bs_request_id (sp_checked plan),
                  rd_signer_address = Some (sp_signer_address plan), rd_at_ms = now,
                  rd_remaining_after = Some (wb_max_count b - (wb_used_count b + 1)), rd_note = None\<rparr>"
    obtain f1 rid where a: "append_record X (reserved_file plan now (g_file g)) d Reserved = (f1, rid)"
      by (cases "append_record X (reserved_file plan now (g_file g)) d Reserved")
    obtain ok f2 W2 where p: "persist X fl (g_mac_key g) f1 W = (ok, f2, W2)"
      by (cases "persist X fl (g_mac_key g) f1 W") auto
    have eq: "reserve X fl plan now g W =
        (if ok then (Inr rid, g\<lparr>g_file := f2\<rparr>, W2) else (Inl FtWriteAheadFailed, g, W2))"
      using Some False a p persist_cases [OF p]
      by (auto simp: reserve_def Let_def reserved_file_def d_def)
    show thesis
    proof (cases ok)
      case True
      with eq assms p have "res = Inr rid" "g' = g\<lparr>g_file := f2\<rparr>" "W' = W2"
        "persist X fl (g_mac_key g) f1 W = (True, f2, W2)" by auto
      with Some False a show thesis
        by (intro reserved [of rid b d f1 f2]) (auto simp: d_def)
    next
      case False
      with p have "W2 = W" by (cases rule: persist_cases) auto
      with False eq assms show thesis using refused by auto
    qed
  qed
qed

end
