(* ===== verification/WebBudgetRun.thy ===== *)
theory WebBudgetRun
  imports WebBudgetStore
begin

text \<open>
  Runs of the budget store: any sequence of grants, revocations, automatic sign-in decisions,
  record closings, export marks and restarts, with any of their file and key-ring accesses
  failing, under a clock that does not go backwards. The log of automatic approvals is a ghost
  component; the invariant says that both the file in memory and the file on disk remember enough
  of it. From it follow the limits the budget promises across restarts and failed saves.
\<close>

section \<open>The transition system\<close>

record approval =
  ap_message :: string
  ap_origin :: string
  ap_nonce :: string
  ap_expiration :: nat
  ap_at :: nat
  ap_budget :: nat

datatype gate_op =
    OpGrant string string nat nat string
  | OpRevoke nat
  | OpRevokeAll string
  | OpMarkExported nat
  | OpClose nat RecordStatus
  | OpSign SiweEvalInput
  | OpRestart bytes

text \<open>\<open>OpSign\<close> is the part of \<open>request_siwe_budgeted\<close> under the budget lock up to the write-ahead:
  evaluate, then reserve at the same clock reading.\<close>

definition exec_op ::
  "'x wb_deps_scheme \<Rightarrow> faults \<Rightarrow> nat \<Rightarrow> gate_op \<Rightarrow> approval list \<times> GateInner \<times> world
     \<Rightarrow> approval list \<times> GateInner \<times> world" where
  "exec_op X fl now op = (\<lambda>(H, g, W).
     case op of
       OpGrant orig who n ttl wallet \<Rightarrow> (H, snd (grant X fl orig who n ttl wallet now g W))
     | OpRevoke bid \<Rightarrow> (H, snd (revoke X fl bid now g W))
     | OpRevokeAll reason \<Rightarrow> (H, snd (revoke_all X fl reason now g W))
     | OpMarkExported n \<Rightarrow> (H, snd (mark_exported X fl n g W))
     | OpClose rid st \<Rightarrow> (H, close X fl rid st g W)
     | OpRestart fresh \<Rightarrow> (H, load X fl fresh W)
     | OpSign inp \<Rightarrow>
         (case evaluate_siwe X inp now g of
            Inl _ \<Rightarrow> (H, g, W)
          | Inr plan \<Rightarrow>
            (case reserve X fl plan now g W of
               (Inl _, g', W') \<Rightarrow> (H, g', W')
             | (Inr _, g', W') \<Rightarrow>
                 (H @ [\<lparr>ap_message = ei_message inp, ap_origin = sp_origin plan,
                        ap_nonce = bs_nonce (sp_checked plan),
                        ap_expiration = bs_expiration_ms (sp_checked plan),
                        ap_at = now, ap_budget = sp_budget_id plan\<rparr>], g', W'))))"

inductive budget_run :: "'x wb_deps_scheme \<Rightarrow> approval list \<Rightarrow> nat \<Rightarrow> GateInner \<Rightarrow> world \<Rightarrow> bool"
  for X :: "'x wb_deps_scheme" where
  start: "w_file W\<^sub>0 = None \<Longrightarrow> w_generation W\<^sub>0 = None \<Longrightarrow> length fresh = 32 \<Longrightarrow>
     load X fl fresh W\<^sub>0 = (g, W) \<Longrightarrow> g_health g = StoreOk \<Longrightarrow> budget_run X [] 0 g W"
| step: "budget_run X H now g W \<Longrightarrow> now \<le> now' \<Longrightarrow> now' < 2 ^ 62 \<Longrightarrow> room (g_file g) \<Longrightarrow>
     exec_op X fl now' op (H, g, W) = (H', g', W') \<Longrightarrow> budget_run X H' now' g' W'"

section \<open>What a file remembers\<close>

definition covers :: "approval list \<Rightarrow> nat \<Rightarrow> LedgerEntry list \<Rightarrow> Reservation list \<Rightarrow> bool" where
  "covers H now L R \<longleftrightarrow> (\<forall>h \<in> set H.
     ap_at h \<le> now
     \<and> ((\<exists>e \<in> set L. le_origin e = ap_origin h \<and> le_nonce e = ap_nonce h
           \<and> le_keep_until_ms e = sat_add (ap_expiration h) CLOCK_SKEW_MS)
        \<or> sat_add (ap_expiration h) CLOCK_SKEW_MS < now)
     \<and> ((\<exists>r \<in> set R. rs_origin r = ap_origin h \<and> rs_at_ms r = ap_at h)
        \<or> ap_at h + SIWE_WINDOW_MS \<le> now))"

definition spent :: "approval list \<Rightarrow> nat \<Rightarrow> nat" where
  "spent H bid = length (filter (\<lambda>h. ap_budget h = bid) H)"

definition tracks :: "'x deps_scheme \<Rightarrow> approval list \<Rightarrow> nat \<Rightarrow> BudgetFile \<Rightarrow> bool" where
  "tracks X H now f \<longleftrightarrow>
     file_inv X f \<and> covers H now (bf_ledger f) (bf_reservations f)
     \<and> (\<forall>h \<in> set H. ap_budget h < bf_next_budget_id f)
     \<and> (\<forall>b \<in> set (bf_budgets f). wb_used_count b = spent H (wb_id b))"

definition log_ok :: "approval list \<Rightarrow> bool" where
  "log_ok H \<longleftrightarrow>
     sorted_wrt (\<lambda>a b. ap_origin a = ap_origin b \<longrightarrow> ap_at a + 30000 \<le> ap_at b) H
     \<and> (\<forall>site t. length (filter (\<lambda>h. ap_origin h = site \<and> ap_at h \<le> t \<and> t < ap_at h + SIWE_WINDOW_MS) H) \<le> 20)"

lemma coversD:
  assumes "covers H now L R" "h \<in> set H"
  shows "ap_at h \<le> now"
    and "(\<exists>e \<in> set L. le_origin e = ap_origin h \<and> le_nonce e = ap_nonce h
           \<and> le_keep_until_ms e = sat_add (ap_expiration h) CLOCK_SKEW_MS)
      \<or> sat_add (ap_expiration h) CLOCK_SKEW_MS < now"
    and "(\<exists>r \<in> set R. rs_origin r = ap_origin h \<and> rs_at_ms r = ap_at h) \<or> ap_at h + SIWE_WINDOW_MS \<le> now"
  using assms by (auto simp: covers_def)

lemma covers_later: "covers H now L R \<Longrightarrow> now \<le> now' \<Longrightarrow> covers H now' L R"
  by (fastforce simp: covers_def)

lemma tracks_later: "tracks X H now f \<Longrightarrow> now \<le> now' \<Longrightarrow> tracks X H now' f"
  by (auto simp: tracks_def intro: covers_later)

lemma tracks_file:
  assumes "tracks X H now f" "file_inv X f'" "bf_ledger f' = bf_ledger f"
    "bf_reservations f' = bf_reservations f" "bf_next_budget_id f' = bf_next_budget_id f"
    "map (\<lambda>b. (wb_id b, wb_used_count b)) (bf_budgets f') = map (\<lambda>b. (wb_id b, wb_used_count b)) (bf_budgets f)"
  shows "tracks X H now f'"
proof -
  have "wb_used_count b = spent H (wb_id b)" if "b \<in> set (bf_budgets f')" for b
  proof -
    have "(wb_id b, wb_used_count b) \<in> set (map (\<lambda>b. (wb_id b, wb_used_count b)) (bf_budgets f'))"
      using that by simp
    then obtain a where "a \<in> set (bf_budgets f)" "wb_id a = wb_id b" "wb_used_count a = wb_used_count b"
      unfolding assms(6) by auto
    with assms(1) show ?thesis by (force simp: tracks_def)
  qed
  with assms show ?thesis by (simp add: tracks_def)
qed

lemma tracks_generation [simp]: "tracks X H now (f\<lparr>bf_generation := n\<rparr>) = tracks X H now f"
  by (simp add: tracks_def)

lemma tracks_append_record:
  assumes "tracks X H now f" "length (bf_records f) < u64_max"
  shows "tracks X H now (fst (append_record X f d st))"
    and "bf_generation (fst (append_record X f d st)) = bf_generation f"
proof -
  obtain f' rid where a: "append_record X f d st = (f', rid)" by (cases "append_record X f d st")
  note i = file_inv_append_record [OF _ assms(2) a]
  have "file_inv X f" using assms(1) by (simp add: tracks_def)
  from i [OF this] a show "tracks X H now (fst (append_record X f d st))"
    "bf_generation (fst (append_record X f d st)) = bf_generation f"
    by (auto intro: tracks_file [OF assms(1)])
qed

lemma tracks_default: "tracks X [] now file_default"
  by (simp add: tracks_def covers_def file_inv_default) (simp add: file_default_def)

lemma tracks_recovered: "tracks X H now f \<Longrightarrow> tracks X H now (recovered f)"
  by (rule tracks_file) (auto simp: tracks_def recovered_def intro: file_inv_recover)

section \<open>One approval more\<close>

lemma window_count:
  assumes log: "log_ok H" and cov: "covers H now L R" and now: "now < 2 ^ 62"
    and few: "length (filter (\<lambda>r. rs_origin r = site \<and> in_window (rs_at_ms r) now) R) < 20"
  shows "length (filter (\<lambda>h. ap_origin h = site \<and> now < ap_at h + SIWE_WINDOW_MS) H) < 20"
proof -
  let ?F = "filter (\<lambda>h. ap_origin h = site \<and> now < ap_at h + SIWE_WINDOW_MS) H"
  let ?R = "filter (\<lambda>r. rs_origin r = site \<and> in_window (rs_at_ms r) now) R"
  have "sorted_wrt (\<lambda>a b. ap_origin a = ap_origin b \<longrightarrow> ap_at a + 30000 \<le> ap_at b) ?F"
    using log by (simp add: log_ok_def sorted_wrt_filter)
  then have "sorted_wrt (\<lambda>a b. ap_at a < ap_at b) ?F"
    by (rule sorted_wrt_mono_rel [rotated]) auto
  then have "sorted_wrt (<) (map ap_at ?F)" by (simp add: sorted_wrt_map)
  then have dist: "distinct (map ap_at ?F)" by (simp add: strict_sorted_iff)
  have "set (map ap_at ?F) \<subseteq> set (map rs_at_ms ?R)"
  proof
    fix t assume "t \<in> set (map ap_at ?F)"
    then obtain h where h: "h \<in> set H" "ap_origin h = site" "now < ap_at h + SIWE_WINDOW_MS" "t = ap_at h"
      by auto
    with coversD(1,3) [OF cov h(1)] obtain r
      where "r \<in> set R" "rs_origin r = site" "rs_at_ms r = ap_at h" "ap_at h \<le> now"
      by auto
    moreover have "in_window (ap_at h) now"
      using h(3) \<open>ap_at h \<le> now\<close> now by (simp add: in_window_def sat_add_def u64_max_def)
    ultimately show "t \<in> set (map rs_at_ms ?R)" using h(4) by force
  qed
  then have "card (set (map ap_at ?F)) \<le> card (set (map rs_at_ms ?R))" by (rule card_mono [rotated]) simp
  also have "\<dots> \<le> length (map rs_at_ms ?R)" by (rule card_length)
  also have "card (set (map ap_at ?F)) = length (map ap_at ?F)" using dist by (rule distinct_card)
  finally have "length (map ap_at ?F) \<le> length (map rs_at_ms ?R)" .
  with few show ?thesis by simp
qed

lemma log_ok_snoc:
  assumes log: "log_ok H" and cov: "covers H now L R" and now: "now < 2 ^ 62"
    and rate: "\<And>r. r \<in> set R \<Longrightarrow> rs_origin r = ap_origin h \<Longrightarrow> rs_at_ms r + 30000 \<le> now"
    and few: "length (filter (\<lambda>r. rs_origin r = ap_origin h \<and> in_window (rs_at_ms r) now) R) < 20"
    and at: "ap_at h = now"
  shows "log_ok (H @ [h])"
proof -
  have "ap_at a + 30000 \<le> now" if "a \<in> set H" "ap_origin a = ap_origin h" for a
  proof -
    from coversD(3) [OF cov that(1)] show ?thesis
    proof
      assume "\<exists>r \<in> set R. rs_origin r = ap_origin a \<and> rs_at_ms r = ap_at a"
      then show ?thesis using rate that(2) by fastforce
    qed (simp add: SIWE_WINDOW_MS_def)
  qed
  then have gap: "sorted_wrt (\<lambda>a b. ap_origin a = ap_origin b \<longrightarrow> ap_at a + 30000 \<le> ap_at b) (H @ [h])"
    using log at by (auto simp: log_ok_def sorted_wrt_append)
  have "length (filter (\<lambda>h. ap_origin h = site \<and> ap_at h \<le> t \<and> t < ap_at h + SIWE_WINDOW_MS) (H @ [h])) \<le> 20"
    for site t
  proof (cases "ap_origin h = site \<and> now \<le> t \<and> t < now + SIWE_WINDOW_MS")
    case True
    have "length (filter (\<lambda>h. ap_origin h = site \<and> ap_at h \<le> t \<and> t < ap_at h + SIWE_WINDOW_MS) H)
        \<le> length (filter (\<lambda>h. ap_origin h = site \<and> now < ap_at h + SIWE_WINDOW_MS) H)"
    proof (rule length_filter_le_imp)
      fix x assume "x \<in> set H" "ap_origin x = site \<and> ap_at x \<le> t \<and> t < ap_at x + SIWE_WINDOW_MS"
      then show "ap_origin x = site \<and> now < ap_at x + SIWE_WINDOW_MS" using True by linarith
    qed
    also have "\<dots> < 20" using window_count [OF log cov now] few True by blast
    finally show ?thesis by simp
  next
    case False
    then show ?thesis using log at by (auto simp: log_ok_def)
  qed
  with gap show ?thesis by (simp add: log_ok_def)
qed

section \<open>The system invariant\<close>

definition sealed_le :: "world \<Rightarrow> nat \<Rightarrow> bool" where
  "sealed_le W n \<longleftrightarrow> (\<exists>s. sealed_generation W = Some s \<and> s \<le> n)"

definition disk_ok :: "'x wb_deps_scheme \<Rightarrow> bytes \<Rightarrow> approval list \<Rightarrow> nat \<Rightarrow> world \<Rightarrow> bool" where
  "disk_ok X k H now W \<longleftrightarrow> w_mac_key W = Some k \<and>
     (case w_file W of
        None \<Rightarrow> H = [] \<and> sealed_generation W = Some 0
      | Some t \<Rightarrow> \<exists>D. sealed_text X k D = Some t \<and> tracks X H now D
                    \<and> sealed_le W (bf_generation D) \<and> bf_generation D \<le> u64_max)"

definition file_ok :: "'x wb_deps_scheme \<Rightarrow> approval list \<Rightarrow> nat \<Rightarrow> world \<Rightarrow> BudgetFile \<Rightarrow> bool" where
  "file_ok X H now W f \<longleftrightarrow> tracks X H now f \<and> sealed_le W (bf_generation f) \<and> bf_generation f \<le> u64_max"

definition sys_inv ::
  "'x wb_deps_scheme \<Rightarrow> bytes \<Rightarrow> approval list \<Rightarrow> nat \<Rightarrow> GateInner \<Rightarrow> world \<Rightarrow> bool" where
  "sys_inv X k H now g W \<longleftrightarrow>
     length k = 32 \<and> log_ok H \<and> disk_ok X k H now W
     \<and> (if g_health g = StoreOk then g_mac_key g = Some k \<and> file_ok X H now W (g_file g)
        else g_mac_key g = None)"

lemma sys_inv_later: "sys_inv X k H now g W \<Longrightarrow> now \<le> now' \<Longrightarrow> sys_inv X k H now' g W"
  by (fastforce simp: sys_inv_def disk_ok_def file_ok_def intro: tracks_later split: option.splits)

lemma sealed_generation_show:
  assumes "n \<le> u64_max" "w_generation W = Some (as_bytes (show_nat n))"
  shows "sealed_generation W = Some n"
proof -
  have "valid_utf8 (show_nat n)"
    by (rule valid_utf8_ascii) (auto dest: show_nat_digits simp: is_ascii_digit_def)
  moreover have "n < 2 ^ 64" using assms(1) by (simp add: u64_max_def)
  ultimately show ?thesis using assms(2) by (simp add: sealed_generation_def parse_u64_show_nat)
qed

lemma saved_file_ok:
  assumes f': "f' = f\<lparr>bf_generation := sat_add (bf_generation f) 1\<rparr>"
    and t: "sealed_text X k f' = Some t" "w_file W' = Some t" "w_mac_key W' = w_mac_key W"
    and gen: "w_generation W' = Some (as_bytes (show_nat (bf_generation f'))) \<or> w_generation W' = w_generation W"
    and f: "tracks X H now f" "sealed_le W (bf_generation f)" "bf_generation f \<le> u64_max" "w_mac_key W = Some k"
  shows "disk_ok X k H now W'" and "file_ok X H now W' f'"
proof -
  have b: "bf_generation f' \<le> u64_max" "bf_generation f \<le> bf_generation f'"
    using f(3) by (simp_all add: f' sat_add_ge)
  have "sealed_le W' (bf_generation f')"
    using gen
  proof
    assume "w_generation W' = Some (as_bytes (show_nat (bf_generation f')))"
    with b(1) show ?thesis by (auto simp: sealed_le_def dest: sealed_generation_show)
  next
    assume "w_generation W' = w_generation W"
    with f(2) b(2) show ?thesis by (auto simp: sealed_le_def sealed_generation_def)
  qed
  with f t b f' show "disk_ok X k H now W'" "file_ok X H now W' f'"
    by (auto simp: disk_ok_def file_ok_def)
qed

lemma persist_file_ok:
  assumes "persist X fl (Some k) f W = (True, f', W')" "tracks X H now f"
    and "sealed_le W (bf_generation f)" "bf_generation f \<le> u64_max" "w_mac_key W = Some k"
  shows "disk_ok X k H now W'" and "file_ok X H now W' f'"
proof -
  from assms(1) obtain t where p: "f' = f\<lparr>bf_generation := sat_add (bf_generation f) 1\<rparr>"
    "sealed_text X k f' = Some t" "w_file W' = Some t" "w_mac_key W' = w_mac_key W"
    "w_generation W' = Some (as_bytes (show_nat (bf_generation f'))) \<or> w_generation W' = w_generation W"
    by (cases rule: persist_cases) auto
  from saved_file_ok [OF p assms(2-5)] show "disk_ok X k H now W'" "file_ok X H now W' f'" .
qed

text \<open>Saving a file that remembers the log; a failed save leaves the disk as it was.\<close>

lemma sys_inv_persist:
  assumes inv: "sys_inv X k H now g W" and ok: "g_health g = StoreOk"
    and p: "persist X fl (g_mac_key g) f1 W = (saved, f2, W')"
    and f1: "tracks X H' now f1" "bf_generation f1 = bf_generation (g_file g)" and log: "log_ok H'"
  shows "saved \<Longrightarrow> sys_inv X k H' now (g\<lparr>g_file := f2\<rparr>) W'"
    and "\<not> saved \<Longrightarrow> W' = W \<and> (H' = H \<longrightarrow> sys_inv X k H now (g\<lparr>g_file := f2\<rparr>) W')"
proof -
  from inv ok have k: "g_mac_key g = Some k" "length k = 32" "w_mac_key W = Some k"
    and f: "sealed_le W (bf_generation f1)" "bf_generation f1 \<le> u64_max"
    using f1(2) by (auto simp: sys_inv_def disk_ok_def file_ok_def)
  show "sys_inv X k H' now (g\<lparr>g_file := f2\<rparr>) W'" if saved
    using persist_file_ok [OF _ f1(1) f k(3)] p that k ok log by (simp add: sys_inv_def)
  show "W' = W \<and> (H' = H \<longrightarrow> sys_inv X k H now (g\<lparr>g_file := f2\<rparr>) W')" if "\<not> saved"
    using p that inv ok f f1(1)
    by (cases rule: persist_cases) (auto simp: sys_inv_def file_ok_def)
qed

lemma sys_invD:
  assumes "sys_inv X k H now g W" "g_health g = StoreOk"
  shows "tracks X H now (g_file g)" "file_inv X (g_file g)" "log_ok H"
  using assms by (auto simp: sys_inv_def file_ok_def tracks_def)

section \<open>Each operation keeps it\<close>

lemma step_grant:
  assumes inv: "sys_inv X k H now g W" and room: "room (g_file g)"
    and r: "grant X fl orig who n ttl wallet now g W = (res, g', W')"
  shows "sys_inv X k H now g' W'"
proof (cases "g' = g \<and> W' = W")
  case False
  let ?f = "g_file g"
  have health: "g_health g = StoreOk" using r False by (auto simp: grant_def split: if_splits)
  obtain origin where o': "normalize_allowlist_origin X orig = Inr origin"
    using r False health by (cases "normalize_allowlist_origin X orig") (auto simp: grant_def)
  have n: "1 \<le> n" "n \<le> MAX_COUNT_CEILING" "ttl \<le> MAX_TTL_MS_CEILING"
    and live: "\<not> list_ex (\<lambda>b. wb_origin b = origin \<and> wb_principal b = who
                     \<and> wb_revoked_at_ms b = None \<and> now < wb_expires_at_ms b) (bf_budgets ?f)"
    using r False health o' by (auto simp: grant_def split: if_splits)
  obtain b f1 where g1: "granted_file X origin who n ttl wallet now ?f = (b, f1)"
    by (cases "granted_file X origin who n ttl wallet now ?f")
  obtain ok f2 W2 where p: "persist X fl (g_mac_key g) f1 W = (ok, f2, W2)"
    by (cases "persist X fl (g_mac_key g) f1 W") auto
  have eq: "g' = (if ok then g\<lparr>g_file := f2\<rparr> else g) \<and> W' = W2"
    using r health o' n live g1 p False by (auto simp: grant_def split: if_splits)
  note t = sys_invD [OF inv health]
  note i = file_inv_granted [OF t(2) room g1 n live]
  have fresh: "spent H (bf_next_budget_id ?f) = 0"
    using t(1) by (auto simp: spent_def tracks_def filter_empty_conv)
  have "tracks X H now f1"
    using t(1) i fresh by (auto simp: tracks_def less_Suc_eq)
  note s = sys_inv_persist [OF inv health p this i(8) t(3)]
  show ?thesis using s eq inv by (cases ok) auto
qed (use inv in simp)

lemma step_revoke:
  assumes inv: "sys_inv X k H now g W" and room: "room (g_file g)"
    and r: "revoke X fl bid now g W = (res, g', W')"
  shows "sys_inv X k H now g' W'"
proof (cases "\<exists>b. find (\<lambda>b. wb_id b = bid) (bf_budgets (g_file g)) = Some b \<and> wb_revoked_at_ms b = None")
  case False
  then have "g' = g \<and> W' = W" using r by (auto simp: revoke_def split: option.splits)
  with inv show ?thesis by simp
next
  case True
  then obtain b where b: "find (\<lambda>b. wb_id b = bid) (bf_budgets (g_file g)) = Some b" "wb_revoked_at_ms b = None"
    by blast
  let ?f = "(g_file g)\<lparr>bf_budgets := update_first (\<lambda>b. wb_id b = bid)
     (\<lambda>b. b\<lparr>wb_revoked_at_ms := Some now\<rparr>) (bf_budgets (g_file g))\<rparr>"
  define d where "d = draft_default\<lparr>rd_kind := RkBudgetRevoked, rd_budget_id := Some bid,
     rd_principal := wb_principal b, rd_origin := wb_origin b, rd_at_ms := now\<rparr>"
  define f1 where f1: "f1 = fst (append_record X ?f d Final)"
  have r': "(if g_health g \<noteq> StoreOk then (Inr (), g\<lparr>g_file := f1\<rparr>, W)
       else (let (ok, file, W) = persist X fl (g_mac_key g) f1 W
             in (if ok then Inr () else Inl BePersist, g\<lparr>g_file := file\<rparr>, W))) = (res, g', W')"
    using r unfolding revoke_def b(1) option.case b(2) Let_def f1 d_def by (simp only: simp_thms if_False)
  show ?thesis
  proof (cases "g_health g = StoreOk")
    case False
    then show ?thesis using r' inv by (auto simp: sys_inv_def)
  next
    case True
    obtain ok f2 W2 where p: "persist X fl (g_mac_key g) f1 W = (ok, f2, W2)"
      by (cases "persist X fl (g_mac_key g) f1 W") auto
    have eq: "g' = g\<lparr>g_file := f2\<rparr> \<and> W' = W2" using r' p True by auto
    note t = sys_invD [OF inv True]
    have "file_inv X ?f"
      using t(2) by (intro file_inv_budgets list_all2_update_first) (auto simp: refines_budget_def)
    then have "tracks X H now ?f"
      by (rule tracks_file [OF t(1)]) (simp_all add: map_update_first)
    from tracks_append_record [OF this, of d Final] room
    have "tracks X H now f1" "bf_generation f1 = bf_generation (g_file g)"
      by (simp_all add: f1 room_def)
    from sys_inv_persist [OF inv True p this t(3)] show ?thesis using eq by (cases ok) auto
  qed
qed

lemma step_revoke_all:
  assumes inv: "sys_inv X k H now g W" and room: "room (g_file g)"
    and r: "revoke_all X fl reason now g W = (res, g', W')"
  shows "sys_inv X k H now g' W'"
proof -
  let ?f = "(g_file g)\<lparr>bf_budgets := map (\<lambda>b.
     if wb_revoked_at_ms b = None then b\<lparr>wb_revoked_at_ms := Some now\<rparr> else b) (bf_budgets (g_file g))\<rparr>"
  define d where "d = draft_default\<lparr>rd_kind := RkAllBudgetsRevoked, rd_principal := ''member'',
     rd_at_ms := now, rd_note := Some (utf8_take 200 reason)\<rparr>"
  define f1 where f1: "f1 = fst (append_record X ?f d Final)"
  define n where "n = length (filter (\<lambda>b. wb_revoked_at_ms b = None) (bf_budgets (g_file g))) mod 2 ^ 32"
  have r': "(if g_health g \<noteq> StoreOk then (Inr n, g\<lparr>g_file := f1\<rparr>, W)
       else (let (ok, file, W) = persist X fl (g_mac_key g) f1 W
             in (if ok then Inr n else Inl BePersist, g\<lparr>g_file := file\<rparr>, W))) = (res, g', W')"
    using r unfolding revoke_all_def Let_def f1 d_def n_def .
  show ?thesis
  proof (cases "g_health g = StoreOk")
    case False
    then show ?thesis using r' inv by (auto simp: sys_inv_def)
  next
    case True
    obtain ok f2 W2 where p: "persist X fl (g_mac_key g) f1 W = (ok, f2, W2)"
      by (cases "persist X fl (g_mac_key g) f1 W") auto
    have eq: "g' = g\<lparr>g_file := f2\<rparr> \<and> W' = W2" using r' p True by auto
    note t = sys_invD [OF inv True]
    have "file_inv X ?f"
      using t(2) by (intro file_inv_budgets) (auto simp: refines_budget_def list_all2_map2 intro!: list_all2_refl)
    then have "tracks X H now ?f"
      by (rule tracks_file [OF t(1)]) simp_all
    from tracks_append_record [OF this, of d Final] room
    have "tracks X H now f1" "bf_generation f1 = bf_generation (g_file g)"
      by (simp_all add: f1 room_def)
    from sys_inv_persist [OF inv True p this t(3)] show ?thesis using eq by (cases ok) auto
  qed
qed

lemma step_mark_exported:
  assumes inv: "sys_inv X k H now g W" and r: "mark_exported X fl n g W = (res, g', W')"
  shows "sys_inv X k H now g' W'"
proof (cases "g' = g \<and> W' = W")
  case False
  let ?f = "(g_file g)\<lparr>bf_exported_through := n\<rparr>"
  have health: "g_health g = StoreOk" and n: "n \<le> last_record_id (g_file g)"
    using r False by (auto simp: mark_exported_def split: if_splits)
  obtain ok f2 W2 where p: "persist X fl (g_mac_key g) ?f W = (ok, f2, W2)"
    by (cases "persist X fl (g_mac_key g) ?f W") auto
  have eq: "g' = (if ok then g\<lparr>g_file := f2\<rparr> else g) \<and> W' = W2"
    using r False p by (auto simp: mark_exported_def Let_def split: if_splits)
  note t = sys_invD [OF inv health]
  have "file_inv X ?f" using t(2) n last_record_id_inv [OF t(2)] by (intro file_inv_exported) auto
  then have "tracks X H now ?f" by (rule tracks_file [OF t(1)]) simp_all
  from sys_inv_persist [OF inv health p this _ t(3)] show ?thesis using eq inv by (cases ok) auto
qed (use inv in simp)

lemma step_close:
  assumes inv: "sys_inv X k H now g W" and r: "close X fl rid st g W = (g', W')"
  shows "sys_inv X k H now g' W'"
proof -
  let ?f = "(g_file g)\<lparr>bf_records := update_first (\<lambda>r. dr_record_id r = rid)
                    (\<lambda>r. r\<lparr>dr_status := st\<rparr>) (bf_records (g_file g))\<rparr>"
  obtain ok f2 W2 where p: "persist X fl (g_mac_key g) ?f W = (ok, f2, W2)"
    by (cases "persist X fl (g_mac_key g) ?f W") auto
  have eq: "g' = g\<lparr>g_file := f2\<rparr>" "W' = W2" using r p by (auto simp: close_def Let_def)
  show ?thesis
  proof (cases "g_health g = StoreOk")
    case False
    then have "W2 = W" using p inv by (auto simp: sys_inv_def persist_def)
    with False eq inv show ?thesis by (simp add: sys_inv_def)
  next
    case True
    note t = sys_invD [OF inv True]
    have "file_inv X ?f" using t(2) by (rule file_inv_close)
    then have "tracks X H now ?f" by (rule tracks_file [OF t(1)]) simp_all
    from sys_inv_persist [OF inv True p this _ t(3)] show ?thesis using eq by (cases ok) auto
  qed
qed

lemma step_restart:
  assumes laws: "serde_law X" "hex_law X" and inv: "sys_inv X k H now g W"
    and r: "load X fl fresh W = (g', W')"
  shows "sys_inv X k H now g' W'"
  using r
proof (cases rule: load_cases)
  case failed
  with inv show ?thesis by (auto simp: sys_inv_def)
next
  case (fresh_store k')
  from inv fresh_store(1) have k: "w_mac_key W = Some k" "length k = 32" "H = []"
    by (auto simp: sys_inv_def disk_ok_def)
  then have "k' = k" using fresh_store(7) by blast
  moreover have "sealed_generation W' = Some 0" "sealed_le W' 0"
    using fresh_store(2,10) by (auto simp: sealed_generation_def sealed_le_def)
  ultimately show ?thesis
    using inv fresh_store k
    by (simp add: sys_inv_def disk_ok_def file_ok_def tracks_default) (simp add: file_default_def)
next
  case (existing k' n raw f)
  then have k: "k' = k" "w_mac_key W = Some k" using inv by (auto simp: sys_inv_def disk_ok_def)
  obtain D where D: "sealed_text X k D = Some raw" "tracks X H now D" "sealed_le W (bf_generation D)"
    "bf_generation D \<le> u64_max"
    using inv existing(1) by (auto simp: sys_inv_def disk_ok_def)
  have "n \<le> bf_generation D" using D(3) existing(4) by (simp add: sealed_le_def)
  then have f: "f = D"
    using decode_sealed [OF laws D(1)] D(2) existing(7) k by (simp add: tracks_def)
  note l = load_existing_file [OF existing(8,3,5,6,7)]
  have tr: "tracks X H now (recovered D)" "bf_generation (recovered D) = bf_generation D"
    using D(2) by (simp_all add: tracks_recovered) (simp add: recovered_def)
  from l(3) show ?thesis
  proof (elim disjE exE conjE)
    assume "g_file g' = recovered f" "W' = W"
    with l k f D tr inv show ?thesis by (simp add: sys_inv_def file_ok_def)
  next
    fix t
    assume a: "g_file g' = (recovered f)\<lparr>bf_generation := sat_add (bf_generation f) 1\<rparr>"
      "sealed_text X k' (g_file g') = Some t" "w_file W' = Some t" "w_mac_key W' = w_mac_key W"
      and gen: "w_generation W' = Some (as_bytes (show_nat (bf_generation (g_file g'))))"
    have "disk_ok X k H now W'" "file_ok X H now W' (g_file g')"
      using saved_file_ok [of "g_file g'" "recovered f" X k t W' W H now] a gen k f D tr by simp_all
    then show ?thesis using l(1,2) k inv by (simp add: sys_inv_def)
  next
    fix t
    assume a: "g_file g' = (recovered f)\<lparr>bf_generation := sat_add (bf_generation f) 1\<rparr>"
      "sealed_text X k' (g_file g') = Some t" "w_file W' = Some t" "w_mac_key W' = w_mac_key W"
      and gen: "w_generation W' = w_generation W"
    have "disk_ok X k H now W'" "file_ok X H now W' (g_file g')"
      using saved_file_ok [of "g_file g'" "recovered f" X k t W' W H now] a gen k f D tr by simp_all
    then show ?thesis using l(1,2) k inv by (simp add: sys_inv_def)
  qed
qed

lemma window_left: "now < 2 ^ 62 \<Longrightarrow> \<not> (in_window t now \<or> t > now) \<Longrightarrow> t + SIWE_WINDOW_MS \<le> now"
  by (auto simp: in_window_def sat_add_def u64_max_def min_def split: if_splits)

lemma covers_reserved:
  assumes "covers H now (bf_ledger f) (bf_reservations f)" "now < 2 ^ 62"
    and h: "ap_at h = now" "ap_origin h = sp_origin plan" "ap_nonce h = bs_nonce (sp_checked plan)"
      "ap_expiration h = bs_expiration_ms (sp_checked plan)"
  shows "covers (H @ [h]) now (bf_ledger (reserved_file plan now f)) (bf_reservations (reserved_file plan now f))"
proof -
  let ?f = "reserved_file plan now f"
  have "(\<exists>e \<in> set (bf_ledger ?f). le_origin e = ap_origin a \<and> le_nonce e = ap_nonce a
           \<and> le_keep_until_ms e = sat_add (ap_expiration a) CLOCK_SKEW_MS)
      \<or> sat_add (ap_expiration a) CLOCK_SKEW_MS < now" if "a \<in> set H" for a
    using coversD(2) [OF assms(1) that] by (auto simp: reserved_file_def not_less)
  moreover have "(\<exists>r \<in> set (bf_reservations ?f). rs_origin r = ap_origin a \<and> rs_at_ms r = ap_at a)
      \<or> ap_at a + SIWE_WINDOW_MS \<le> now" if "a \<in> set H" for a
    using coversD(3) [OF assms(1) that]
  proof (elim disjE bexE conjE)
    fix r assume r: "r \<in> set (bf_reservations f)" "rs_origin r = ap_origin a" "rs_at_ms r = ap_at a"
    show ?thesis
    proof (cases "in_window (ap_at a) now \<or> ap_at a > now")
      case True
      with r have "r \<in> set (bf_reservations ?f)" by (simp add: reserved_file_def)
      with r show ?thesis by blast
    next
      case False
      with window_left [OF assms(2)] show ?thesis by blast
    qed
  qed simp
  ultimately show ?thesis
    using coversD(1) [OF assms(1)] h by (auto simp: covers_def reserved_file_def)
qed

lemma used_count_step:
  assumes "distinct (map wb_id bs)" "b \<in> set bs" "wb_id b = bid"
  shows "update_first (\<lambda>b. wb_id b = bid) (\<lambda>b. b\<lparr>wb_used_count := wb_used_count b + 1\<rparr>) bs
      = map (\<lambda>x. if x = b then x\<lparr>wb_used_count := wb_used_count x + 1\<rparr> else x) bs"
proof -
  have "wb_id x = bid \<longleftrightarrow> x = b" if "x \<in> set bs" for x
    using assms that by (auto simp: distinct_map dest: inj_onD)
  then show ?thesis
    unfolding update_first_distinct [OF assms(1)] by (intro map_cong) auto
qed

lemma tracks_reserved:
  assumes tr: "tracks X H now f" and now: "now < 2 ^ 62"
    and b: "find (\<lambda>b. wb_id b = sp_budget_id plan) (bf_budgets f) = Some b" "wb_used_count b < wb_max_count b"
    and h: "ap_at h = now" "ap_origin h = sp_origin plan" "ap_nonce h = bs_nonce (sp_checked plan)"
      "ap_expiration h = bs_expiration_ms (sp_checked plan)" "ap_budget h = sp_budget_id plan"
  shows "tracks X (H @ [h]) now (reserved_file plan now f)"
proof -
  let ?f = "reserved_file plan now f"
  have ids: "map wb_id (bf_budgets f) = [1..<bf_next_budget_id f]" and inv: "file_inv X f"
    using tr by (simp_all add: tracks_def file_inv_def)
  then have dist: "distinct (map wb_id (bf_budgets f))" by simp
  from b(1) have bm: "b \<in> set (bf_budgets f)" "wb_id b = sp_budget_id plan" by (auto dest: find_Some_mem)
  have bud: "bf_budgets ?f = map (\<lambda>x. if x = b then x\<lparr>wb_used_count := wb_used_count x + 1\<rparr> else x) (bf_budgets f)"
    using used_count_step [OF dist bm] by (simp add: reserved_file_def)
  have "list_all2 refines_budget (bf_budgets f) (bf_budgets ?f)"
    unfolding bud using b(2) by (auto simp: list_all2_map2 refines_budget_def intro!: list_all2_refl)
  from file_inv_budgets [OF inv this] have "file_inv X ?f" by (simp add: reserved_file_def)
  moreover have "covers (H @ [h]) now (bf_ledger ?f) (bf_reservations ?f)"
    using tr now h by (intro covers_reserved) (auto simp: tracks_def)
  moreover have "ap_budget h < bf_next_budget_id ?f"
  proof -
    have "wb_id b \<in> set (map wb_id (bf_budgets f))" using bm(1) by simp
    then show ?thesis unfolding ids using bm(2) h(5) by (simp add: reserved_file_def)
  qed
  moreover have "wb_used_count x = spent (H @ [h]) (wb_id x)" if x: "x \<in> set (bf_budgets ?f)" for x
  proof -
    from x bud obtain y where y: "y \<in> set (bf_budgets f)"
      and xy: "x = (if y = b then y\<lparr>wb_used_count := wb_used_count y + 1\<rparr> else y)" by auto
    have used: "wb_used_count y = spent H (wb_id y)" using tr y by (simp add: tracks_def)
    have same: "wb_id y = wb_id b \<longleftrightarrow> y = b" using dist y bm(1) by (metis distinct_map inj_onD)
    have snoc: "spent (H @ [h]) i = spent H i + (if i = wb_id b then 1 else 0)" for i
      using h(5) bm(2) by (auto simp: spent_def)
    show ?thesis using xy used same by (cases "y = b") (simp_all add: snoc)
  qed
  moreover have "\<forall>a \<in> set H. ap_budget a < bf_next_budget_id ?f"
    using tr by (simp add: tracks_def reserved_file_def)
  ultimately show ?thesis by (simp add: tracks_def)
qed

lemma step_sign:
  assumes inv: "sys_inv X k H now g W" and room: "room (g_file g)" and now: "now < 2 ^ 62"
    and r: "exec_op X fl now (OpSign inp) (H, g, W) = (H', g', W')"
  shows "sys_inv X k H' now g' W'"
proof (cases "evaluate_siwe X inp now g")
  case (Inl e)
  with r inv show ?thesis by (simp add: exec_op_def)
next
  case (Inr plan)
  then have health: "g_health g = StoreOk"
    and rate: "check_rate (g_file g) (sp_origin plan) now = Inr ()"
    by (auto elim: evaluate_siwe_cases)
  obtain res g2 W2 where rs: "reserve X fl plan now g W = (res, g2, W2)"
    by (cases "reserve X fl plan now g W") auto
  note t = sys_invD [OF inv health]
  from rs show ?thesis
  proof (cases rule: reserve_cases)
    case (refused e)
    with Inr rs r inv show ?thesis by (simp add: exec_op_def)
  next
    case (reserved rid b d f1 f2)
    define h where "h = \<lparr>ap_message = ei_message inp, ap_origin = sp_origin plan,
      ap_nonce = bs_nonce (sp_checked plan), ap_expiration = bs_expiration_ms (sp_checked plan),
      ap_at = now, ap_budget = sp_budget_id plan\<rparr>"
    have eq: "H' = H @ [h]" "g' = g\<lparr>g_file := f2\<rparr>" "W' = W2"
      using Inr rs r reserved by (simp_all add: exec_op_def h_def)
    have "tracks X (H @ [h]) now (reserved_file plan now (g_file g))"
      by (rule tracks_reserved [OF t(1) now reserved(2,4)]) (simp_all add: h_def)
    from tracks_append_record [OF this, of d Reserved] room reserved(5)
    have tr: "tracks X (H @ [h]) now f1" "bf_generation f1 = bf_generation (g_file g)"
      by (simp_all add: reserved_file_def room_def)
    have "covers H now (bf_ledger (g_file g)) (bf_reservations (g_file g))"
      using t(1) by (simp add: tracks_def)
    then have "log_ok (H @ [h])"
      using check_rate_Inr [OF rate now] by (intro log_ok_snoc [OF t(3) _ now]) (simp_all add: h_def)
    from sys_inv_persist(1) [OF inv health reserved(12) tr this] show ?thesis by (simp add: eq)
  qed
qed

lemma step_inv:
  assumes "serde_law X" "hex_law X" "sys_inv X k H now g W" "now < 2 ^ 62" "room (g_file g)"
    and "exec_op X fl now op (H, g, W) = (H', g', W')"
  shows "sys_inv X k H' now g' W'"
proof (cases op)
  case (OpSign inp)
  with step_sign assms show ?thesis by blast
next
  case (OpGrant a b c d e)
  with assms(6) have "H' = H" "snd (grant X fl a b c d e now g W) = (g', W')" by (auto simp: exec_op_def)
  with step_grant [OF assms(3,5)] show ?thesis by (metis prod.collapse)
next
  case (OpRevoke x)
  with assms(6) have "H' = H" "snd (revoke X fl x now g W) = (g', W')" by (auto simp: exec_op_def)
  with step_revoke [OF assms(3,5)] show ?thesis by (metis prod.collapse)
next
  case (OpRevokeAll x)
  with assms(6) have "H' = H" "snd (revoke_all X fl x now g W) = (g', W')" by (auto simp: exec_op_def)
  with step_revoke_all [OF assms(3,5)] show ?thesis by (metis prod.collapse)
next
  case (OpMarkExported x)
  with assms(6) have "H' = H" "snd (mark_exported X fl x g W) = (g', W')" by (auto simp: exec_op_def)
  with step_mark_exported [OF assms(3)] show ?thesis by (metis prod.collapse)
next
  case (OpClose x y)
  with assms(6) have "H' = H" "close X fl x y g W = (g', W')" by (auto simp: exec_op_def)
  with step_close [OF assms(3)] show ?thesis by blast
next
  case (OpRestart x)
  with assms(6) have "H' = H" "load X fl x W = (g', W')" by (auto simp: exec_op_def)
  with step_restart [OF assms(1-3)] show ?thesis by blast
qed

lemma run_inv:
  assumes "serde_law X" "hex_law X" "budget_run X H now g W"
  shows "\<exists>k. sys_inv X k H now g W"
  using assms(3)
proof (induction rule: budget_run.induct)
  case (start W\<^sub>0 fresh fl g W)
  from start(4) show ?case
  proof (cases rule: load_cases)
    case failed
    with start show ?thesis by simp
  next
    case (fresh_store k)
    moreover have "sealed_generation W = Some 0" using start fresh_store by (simp add: sealed_generation_def)
    ultimately have "sys_inv X k [] 0 g W"
      using start
      by (simp add: sys_inv_def disk_ok_def file_ok_def tracks_default sealed_le_def log_ok_def)
         (simp add: file_default_def)
    then show ?thesis ..
  next
    case (existing k n raw f)
    with start show ?thesis by simp
  qed
next
  case (step H now g W now' fl op H' g' W')
  then obtain k where "sys_inv X k H now g W" by blast
  then have "sys_inv X k H now' g W" using step.hyps(2) by (rule sys_inv_later)
  from step_inv [OF assms(1,2) this step.hyps(3-5)] show ?case ..
qed

end
