(* ===== verification/WebBudgetProps.thy ===== *)
theory WebBudgetProps
  imports WebBudgetRun "HOL-Library.Countable"
begin

text \<open>
  The properties of the web-signing budget: the limits every run keeps, refusal of replays, what a
  load and a decision have checked, the write-ahead order, revocation, tamper evidence of the
  decision records, export, reset, and the inert x402 kind. A concrete store, with an encoding
  of files as text given by countability, witnesses that the assumptions can be met.
\<close>

section \<open>Messages in the log\<close>

definition message_nonce :: "string \<Rightarrow> string \<Rightarrow> nat \<Rightarrow> bool" where
  "message_nonce text nonce expiration \<longleftrightarrow>
     (\<exists>f e x. parse_strict text = Inr f \<and> sf_nonce f = nonce \<and> sf_expiration_time f = Some e
        \<and> parse_rfc3339_ms e = Some x \<and> expiration = nat (max x 0))"

lemma message_nonce_unique:
  "message_nonce text n e \<Longrightarrow> message_nonce text n' e' \<Longrightarrow> n = n' \<and> e = e'"
  by (auto simp: message_nonce_def)

lemma check_times_exp:
  assumes "check_times f ctx = Inr (iat, exp)"
  shows "\<exists>e. sf_expiration_time f = Some e \<and> parse_rfc3339_ms e = Some exp"
  using assms by (auto simp: check_times_def Let_def and_then_Inr_iff split: option.splits)

lemma check_budgetable_nonce:
  assumes "check_budgetable X text ctx = Inr b"
  shows "message_nonce text (bs_nonce b) (bs_expiration_ms b)"
  using assms
proof (rule check_budgetable_cases)
  fix f iat exp
  assume "parse_strict text = Inr f" "check_times f ctx = Inr (iat, exp)"
    "b = \<lparr>bs_nonce = sf_nonce f, bs_issued_at_ms = nat (max iat 0), bs_expiration_ms = nat (max exp 0),
          bs_statement = sf_statement f, bs_request_id = sf_request_id f\<rparr>"
  then show ?thesis using check_times_exp by (fastforce simp: message_nonce_def)
qed

lemma evaluate_message:
  assumes "evaluate_siwe X inp now g = Inr plan"
  shows "message_nonce (ei_message inp) (bs_nonce (sp_checked plan)) (bs_expiration_ms (sp_checked plan))"
  using assms by (rule evaluate_siwe_cases) (rule check_budgetable_nonce)

lemma exec_log_cases:
  assumes "exec_op X fl now op (H, g, W) = (H', g', W')"
  shows "H' = H \<or> (\<exists>h. H' = H @ [h] \<and> message_nonce (ap_message h) (ap_nonce h) (ap_expiration h))"
proof (cases op)
  case (OpSign inp)
  with assms show ?thesis
    by (auto simp: exec_op_def dest: evaluate_message split: sum.splits prod.splits)
qed (use assms in \<open>auto simp: exec_op_def\<close>)

lemma run_messages:
  "budget_run X H now g W \<Longrightarrow> h \<in> set H \<Longrightarrow> message_nonce (ap_message h) (ap_nonce h) (ap_expiration h)"
proof (induction rule: budget_run.induct)
  case (step H now g W now' fl op H' g' W')
  from exec_log_cases [OF step.hyps(5)] step show ?case by auto
qed simp

section \<open>Limits\<close>


text \<open>
  C9. A budget is never overspent. In every history, the number of automatic approvals under a
  budget is exactly its used count, which is at most the count the member granted, which is at
  most 50; restarts and failed saves included.
\<close>

theorem budget_never_overspent:
  assumes "serde_law X" and "hex_law X" and "budget_run X H now g W" and "g_health g = StoreOk"
    and "b \<in> set (bf_budgets (g_file g))"
  shows "length (filter (\<lambda>h. ap_budget h = wb_id b) H) = wb_used_count b
    \<and> wb_used_count b \<le> wb_max_count b \<and> wb_max_count b \<le> 50"
proof -
  from run_inv [OF assms(1-3)] obtain k where "sys_inv X k H now g W" ..
  note t = sys_invD [OF this assms(4)]
  have "wb_used_count b = spent H (wb_id b)" using t(1) assms(5) by (simp add: tracks_def)
  moreover have "budget_ok b" using t(2) assms(5) by (simp add: file_inv_def list_all_iff)
  ultimately show ?thesis by (simp add: spent_def budget_ok_def MAX_COUNT_CEILING_def)
qed


text \<open>
  C16. The file invariant holds in every history: the decision records form a verified hash chain
  with record numbers 1, 2, 3 and so on, budget numbers are unique, and two budgets of the same
  site and principal never live at the same time (an earlier one that was not revoked ended
  before a later one was granted).
\<close>

theorem store_invariant:
  assumes "serde_law X" and "hex_law X" and "budget_run X H now g W" and "g_health g = StoreOk"
  shows "verify_chain X (bf_records (g_file g))
    \<and> map dr_record_id (bf_records (g_file g)) = [1..<Suc (length (bf_records (g_file g)))]
    \<and> distinct (map wb_id (bf_budgets (g_file g)))
    \<and> sorted_wrt (\<lambda>a b. wb_origin a = wb_origin b \<longrightarrow> wb_principal a = wb_principal b \<longrightarrow>
        wb_revoked_at_ms a = None \<longrightarrow> wb_expires_at_ms a \<le> wb_granted_at_ms b) (bf_budgets (g_file g))"
proof -
  from run_inv [OF assms(1-3)] obtain k where "sys_inv X k H now g W" ..
  then have "file_inv X (g_file g)" using assms(4) by (rule sys_invD)
  moreover have "(\<lambda>a b. wb_origin a = wb_origin b \<longrightarrow> wb_principal a = wb_principal b \<longrightarrow>
        wb_revoked_at_ms a = None \<longrightarrow> wb_expires_at_ms a \<le> wb_granted_at_ms b) = exclusive"
    by (intro ext) (simp add: exclusive_def)
  ultimately show ?thesis by (simp add: file_inv_def del: upt_Suc)
qed

section \<open>Loading\<close>


text \<open>
  Fail closed. When anything about the file or the key ring does not verify, the store holds
  no budget, and every budget path refuses: no decision is made, no address is shared without
  asking, no grant is possible.
\<close>

theorem unverified_store_refuses:
  assumes "load X fl fresh W = (g, W')" and "g_health g \<noteq> StoreOk"
  shows "bf_budgets (g_file g) = [] \<and> W' = W
    \<and> evaluate_siwe X inp now g = Inl FtStoreUnavailable
    \<and> live_budget_for X site who wallet now g = None
    \<and> fst (grant X fl' site who n ttl addr now g W') = Inl BeStoreUnavailable
    \<and> records_to_export limit g = []"
  using assms(1)
proof (cases rule: load_cases)
  case failed
  then show ?thesis using assms(2)
    by (auto simp: file_default_def evaluate_siwe_def live_budget_for_def grant_def records_to_export_def
        split: option.splits sum.splits)
next
  case (existing k n raw f)
  from load_existing_file(1) [OF existing(8,3,5,6,7)] assms(2) show ?thesis by simp
qed (use assms(2) in simp)

section \<open>Decisions\<close>


lemma find_update_first:
  "(\<And>x. p (f x) = p x) \<Longrightarrow> find p (update_first p f xs) = map_option f (find p xs)"
  by (induction xs) auto

text \<open>
  C14. Write-ahead. \<open>reserve\<close> either fails and leaves the store and the disk as they were, or it has
  already saved a file in which one sign-in less remains, the nonce is in the ledger, and the
  last decision record is the open automatic sign-in with the digest of the message. A signature
  is only made after it succeeded.
\<close>

theorem reserve_write_ahead:
  assumes "reserve X fl plan now g W = (res, g', W')"
  shows "case res of
      Inl e \<Rightarrow> g' = g \<and> W' = W
    | Inr rid \<Rightarrow> \<exists>k t. g_mac_key g = Some k \<and> sealed_text X k (g_file g') = Some t \<and> w_file W' = Some t
        \<and> remaining_of (sp_budget_id plan) g' + 1 = remaining_of (sp_budget_id plan) g
        \<and> list_ex (\<lambda>e. le_origin e = sp_origin plan \<and> le_nonce e = bs_nonce (sp_checked plan)) (bf_ledger (g_file g'))
        \<and> (let r = last (bf_records (g_file g')) in dr_record_id r = rid \<and> dr_status r = Reserved
            \<and> rd_kind r = RkAutoSign \<and> rd_payload_digest r = Some (sp_payload_digest plan) \<and> rd_at_ms r = now)"
  using assms
proof (cases rule: reserve_cases)
  case (reserved rid b d f1 f2)
  from reserved(5) obtain r where f1: "f1 = (reserved_file plan now (g_file g))
      \<lparr>bf_records := bf_records (reserved_file plan now (g_file g)) @ [r]\<rparr>"
    and r: "dr_status r = Reserved" "dr_record_id r = rid" "RecordDraft.truncate r = d"
    by (rule append_record_eq)
  from reserved(12) obtain k t where p: "g_mac_key g = Some k" "sealed_text X k f2 = Some t" "w_file W' = Some t"
    and f2: "f2 = f1\<lparr>bf_generation := sat_add (bf_generation f1) 1\<rparr>"
    by (cases rule: persist_cases) auto
  have "rd_kind r = rd_kind d" "rd_payload_digest r = rd_payload_digest d" "rd_at_ms r = rd_at_ms d"
    using r(3) by (auto simp: RecordDraft.truncate_def)
  moreover have "find (\<lambda>b. wb_id b = sp_budget_id plan) (bf_budgets f2)
      = Some (b\<lparr>wb_used_count := wb_used_count b + 1\<rparr>)"
    using reserved(2) by (simp add: f2 f1 reserved_file_def find_update_first)
  ultimately show ?thesis
    using reserved p r by (simp add: remaining_of_def f2 f1 Let_def) (simp add: reserved_file_def)
qed simp

section \<open>Revocation\<close>

definition revoked_in :: "nat \<Rightarrow> BudgetFile \<Rightarrow> bool" where
  "revoked_in bid f \<longleftrightarrow>
     (\<exists>b \<in> set (bf_budgets f). wb_id b = bid) \<and>
     (\<forall>b \<in> set (bf_budgets f). wb_id b = bid \<longrightarrow> wb_revoked_at_ms b \<noteq> None)"

lemma revoked_refuses:
  assumes "revoked_in bid (g_file g)"
  shows "evaluate_siwe X inp now g = Inr plan \<Longrightarrow> sp_budget_id plan \<noteq> bid"
    and "sp_budget_id plan' = bid \<Longrightarrow> fst (reserve X' fl plan' now g W) \<noteq> Inr rid"
    and "sp_budget_id plan' = bid \<Longrightarrow> still_signable plan' now g = Inl FtBudgetRevoked"
proof -
  show "sp_budget_id plan \<noteq> bid" if "evaluate_siwe X inp now g = Inr plan"
    using that
  proof (rule evaluate_siwe_cases)
    fix b wallet
    assume "newest_budget (g_file g) (sp_origin plan) (ei_principal inp) = Some b"
      "check_budget b (ei_wallet_address inp) now = Inr wallet" "sp_budget_id plan = wb_id b"
    then show ?thesis using assms newest_budget_Some(1) by (fastforce simp: revoked_in_def check_budget_Inr)
  qed
  show "fst (reserve X' fl plan' now g W) \<noteq> Inr rid" if "sp_budget_id plan' = bid"
  proof
    assume "fst (reserve X' fl plan' now g W) = Inr rid"
    then obtain g' W' where "reserve X' fl plan' now g W = (Inr rid, g', W')" by (metis prod.collapse)
    then show False
      by (cases rule: reserve_cases) (use assms that in \<open>auto simp: revoked_in_def dest!: find_Some_mem\<close>)
  qed
  show "still_signable plan' now g = Inl FtBudgetRevoked" if "sp_budget_id plan' = bid"
    using assms that by (auto simp: still_signable_def revoked_in_def list_ex_iff)
qed

lemma persist_budgets: "persist X fl k f W = (ok, f', W') \<Longrightarrow> bf_budgets f' = bf_budgets f"
  by (erule persist_cases) auto

lemma append_budgets: "bf_budgets (fst (append_record X f d st)) = bf_budgets f"
  by (simp add: append_record_def Let_def)

lemma revoke_budgets:
  assumes "revoke X fl bid now g W = (res, g', W')" "distinct (map wb_id (bf_budgets (g_file g)))"
    and "res \<noteq> Inl BeUnknownBudget"
  shows "revoked_in bid (g_file g')"
proof -
  obtain b where b: "find (\<lambda>b. wb_id b = bid) (bf_budgets (g_file g)) = Some b"
    using assms by (cases "find (\<lambda>b. wb_id b = bid) (bf_budgets (g_file g))") (auto simp: revoke_def)
  then have mem: "b \<in> set (bf_budgets (g_file g))" "wb_id b = bid" by (auto dest: find_Some_mem)
  show ?thesis
  proof (cases "wb_revoked_at_ms b = None")
    case False
    then have g': "g' = g" using assms(1) b by (simp add: revoke_def)
    have u: "x = b" if "x \<in> set (bf_budgets (g_file g))" "wb_id x = bid" for x
      using assms(2) that mem by (metis distinct_map inj_onD)
    show ?thesis unfolding revoked_in_def g' 
    proof (intro conjI ballI impI)
      show "\<exists>b \<in> set (bf_budgets (g_file g)). wb_id b = bid" using mem by blast
      fix x assume "x \<in> set (bf_budgets (g_file g))" "wb_id x = bid"
      then have "x = b" by (rule u)
      with False show "wb_revoked_at_ms x \<noteq> None" by simp
    qed
  next
    case True
    have "bf_budgets (g_file g') = update_first (\<lambda>b. wb_id b = bid)
        (\<lambda>b. b\<lparr>wb_revoked_at_ms := Some now\<rparr>) (bf_budgets (g_file g))"
      using assms(1) b True
      by (auto simp: revoke_def Let_def append_budgets dest!: persist_budgets split: prod.splits if_splits)
    then have "bf_budgets (g_file g') = map (\<lambda>x. if wb_id x = bid then x\<lparr>wb_revoked_at_ms := Some now\<rparr> else x)
        (bf_budgets (g_file g))"
      using update_first_distinct [OF assms(2)] by simp
    note bs = this
    have 1: "b\<lparr>wb_revoked_at_ms := Some now\<rparr> \<in> set (bf_budgets (g_file g'))"
      unfolding bs using mem by force
    have 2: "wb_revoked_at_ms x \<noteq> None" if "x \<in> set (bf_budgets (g_file g'))" "wb_id x = bid" for x
    proof -
      from that(1) obtain y where y: "x = (if wb_id y = bid then y\<lparr>wb_revoked_at_ms := Some now\<rparr> else y)"
        unfolding bs set_map by blast
      with that(2) show ?thesis by (cases "wb_id y = bid") simp_all
    qed
    show ?thesis unfolding revoked_in_def
    proof (intro conjI ballI impI)
      show "\<exists>x \<in> set (bf_budgets (g_file g')). wb_id x = bid" by (rule bexI [OF _ 1]) (simp add: mem(2))
    qed (rule 2)
  qed
qed

text \<open>
  Revocation is immediate. After \<open>revoke\<close>, whether or not the file could be saved, no decision
  uses the budget, no reservation succeeds under it, and a reservation that is about to sign is
  stopped.
\<close>

theorem revoke_takes_effect:
  assumes "revoke X fl bid now g W = (res, g', W')" and "distinct (map wb_id (bf_budgets (g_file g)))"
    and "res \<noteq> Inl BeUnknownBudget"
  shows "(\<forall>inp t plan. evaluate_siwe X inp t g' = Inr plan \<longrightarrow> sp_budget_id plan \<noteq> bid)
    \<and> (\<forall>plan t fl' V rid. sp_budget_id plan = bid \<longrightarrow> fst (reserve X fl' plan t g' V) \<noteq> Inr rid)
    \<and> (\<forall>plan t. sp_budget_id plan = bid \<longrightarrow> still_signable plan t g' = Inl FtBudgetRevoked)"
  using revoked_refuses [OF revoke_budgets [OF assms]] by blast

text \<open>
  Stop all autonomy. After \<open>revoke_all\<close>, whether or not the file could be saved, no sign-in is
  decided automatically, for any site, until the member grants a new budget.
\<close>

theorem revoke_all_stops_everything:
  assumes "revoke_all X fl reason now g W = (res, g', W')"
  shows "evaluate_siwe X inp t g' \<noteq> Inr plan"
proof
  assume "evaluate_siwe X inp t g' = Inr plan"
  moreover have "bf_budgets (g_file g') = map (\<lambda>b.
      if wb_revoked_at_ms b = None then b\<lparr>wb_revoked_at_ms := Some now\<rparr> else b) (bf_budgets (g_file g))"
    using assms
    by (auto simp: revoke_all_def Let_def append_budgets dest!: persist_budgets split: prod.splits if_splits)
  then have all: "b \<in> set (bf_budgets (g_file g')) \<Longrightarrow> wb_revoked_at_ms b \<noteq> None" for b by auto
  ultimately show False
  proof (elim evaluate_siwe_cases)
    fix b wallet
    assume "newest_budget (g_file g') (sp_origin plan) (ei_principal inp) = Some b"
      "check_budget b (ei_wallet_address inp) t = Inr wallet"
    then show False using all newest_budget_Some(1) by (fastforce simp: check_budget_Inr)
  qed
qed

section \<open>Decision records\<close>

definition record_input :: "'x deps_scheme \<Rightarrow> DecisionRecord \<Rightarrow> bytes" where
  "record_input X r = as_bytes (dr_prev_hash r) @ as_bytes (json_to_string X (record_body r))"

lemma verified_prev_length:
  assumes "digest_law X" "hex_law X" "verify_chain_from X p rs" "length p = 66" "r \<in> set rs"
  shows "length (dr_prev_hash r) = 66"
  using assms(3-5)
proof (induction rs arbitrary: p)
  case (Cons a rs)
  then have "dr_prev_hash a = p" "dr_hash a = record_hash X a" "verify_chain_from X (dr_hash a) rs"
    by (auto split: if_splits)
  moreover have "length (record_hash X a) = 66"
    using assms(1,2) by (simp add: record_hash_def hex_encode_length digest_law_def)
  ultimately show ?case using Cons by auto
qed simp

text \<open>
  The head hash commits to the whole log. Two verified record chains of the same length with the
  same head hash agree on every hashed field of every record, as long as SHA-256 does not
  collide on the inputs hashed for them and the JSON text determines the record body.
\<close>

theorem head_hash_commits:
  assumes "digest_law X" and "hex_law X"
    and "verify_chain X rs" and "verify_chain X rs'" and "head_hash rs = head_hash rs'" and "length rs = length rs'"
    and "inj_on (sha256 X) (record_input X ` (set rs \<union> set rs'))"
    and "inj_on (json_to_string X) (record_body ` (set rs \<union> set rs'))"
  shows "map record_body rs = map record_body rs'"
proof (rule chain.head_determines_content [OF _ assms(3-6)])
  fix r s assume rs: "r \<in> set rs" "s \<in> set rs'" and eq: "record_hash X r = record_hash X s"
  have len: "length (dr_prev_hash q) = 66" if "q \<in> set rs \<union> set rs'" for q
    using that assms(3,4) verified_prev_length [OF assms(1,2)]
    by (auto simp: verify_chain_def GENESIS_HASH_def)
  have "sha256 X (record_input X r) = sha256 X (record_input X s)"
    using eq hex_encode_inj [OF assms(2)] by (simp add: record_hash_def record_input_def)
  with assms(7) rs have "record_input X r = record_input X s" by (auto dest: inj_onD)
  then have "dr_prev_hash r = dr_prev_hash s \<and> json_to_string X (record_body r) = json_to_string X (record_body s)"
    using len [of r] len [of s] rs by (auto simp: record_input_def as_bytes_inj)
  with assms(8) rs show "dr_prev_hash r = dr_prev_hash s \<and> record_body r = record_body s"
    by (auto dest: inj_onD)
qed

lemma takeWhile_filter_gt:
  assumes "map dr_record_id rs = [1..<Suc (length rs)]" "e \<le> length rs"
  shows "filter (\<lambda>r. dr_record_id r > e) rs = drop e rs"
proof -
  have nth: "dr_record_id (rs ! i) = Suc i" if "i < length rs" for i
  proof -
    have "map dr_record_id rs ! i = Suc i" unfolding assms(1) using that by (simp del: upt_Suc)
    with that show ?thesis by simp
  qed
  have "filter (\<lambda>r. dr_record_id r > e) (take e rs) = []"
    using nth by (auto simp: filter_empty_conv in_set_conv_nth)
  moreover have "filter (\<lambda>r. dr_record_id r > e) (drop e rs) = drop e rs"
    using nth assms(2) by (auto simp: filter_id_conv in_set_conv_nth)
  ultimately show ?thesis by (metis append_Nil append_take_drop_id filter_append)
qed

text \<open>
  Export is complete and in order. On a healthy store that keeps its invariant, the records
  offered for export are the next ones after those exported before, with consecutive numbers, none
  of them open; marking never moves back, and never past the newest record.
\<close>

theorem export_in_order:
  assumes "file_inv X (g_file g)" and "g_health g = StoreOk"
    and "mark_exported X fl n g W = (res, g', W')"
  shows "map dr_record_id (records_to_export limit g)
      = [Suc (bf_exported_through (g_file g))..<Suc (bf_exported_through (g_file g)) + length (records_to_export limit g)]
    \<and> list_all (\<lambda>r. dr_status r \<noteq> Reserved) (records_to_export limit g)
    \<and> bf_exported_through (g_file g) \<le> bf_exported_through (g_file g')
    \<and> bf_exported_through (g_file g') \<le> length (bf_records (g_file g'))"
proof -
  let ?f = "g_file g" and ?e = "bf_exported_through (g_file g)"
  have ids: "map dr_record_id (bf_records ?f) = [1..<Suc (length (bf_records ?f))]" and e: "?e \<le> length (bf_records ?f)"
    using assms(1) by (auto simp: file_inv_def simp del: upt_Suc)
  have rx: "records_to_export limit g = take limit (takeWhile (\<lambda>r. dr_status r \<noteq> Reserved) (drop ?e (bf_records ?f)))"
    using assms(2) takeWhile_filter_gt [OF ids e] by (simp add: records_to_export_def)
  then obtain m where m: "records_to_export limit g = take m (drop ?e (bf_records ?f))"
    by (metis takeWhile_eq_take take_take)
  have "map dr_record_id (records_to_export limit g) = take m (drop ?e [1..<Suc (length (bf_records ?f))])"
    unfolding m take_map drop_map ids [symmetric] by (simp add: take_map drop_map)
  also have "\<dots> = [Suc ?e..<Suc ?e + length (records_to_export limit g)]"
  proof -
    have "length (records_to_export limit g) = min m (length (bf_records ?f) - ?e)" unfolding m by simp
    then show ?thesis using e
      by (intro nth_equalityI) (auto simp del: upt_Suc simp: nth_upt)
  qed
  finally have 1: "map dr_record_id (records_to_export limit g)
      = [Suc ?e..<Suc ?e + length (records_to_export limit g)]" .
  have 2: "list_all (\<lambda>r. dr_status r \<noteq> Reserved) (records_to_export limit g)"
    unfolding rx by (auto simp: list_all_iff dest!: in_set_takeD set_takeWhileD)
  have "(g' = g) \<or> (?e < n \<and> n \<le> length (bf_records ?f)
      \<and> bf_exported_through (g_file g') = n \<and> bf_records (g_file g') = bf_records ?f)"
    using assms(2,3) last_record_id_inv [OF assms(1)]
    by (auto simp: mark_exported_def Let_def elim!: persist_cases split: prod.splits if_splits)
  with 1 2 e show ?thesis by auto
qed

section \<open>Reset\<close>

text \<open>
  A reset cannot wipe a healthy store, and never loses the old file: on a store that verifies it
  is refused without effect; when it succeeds, the file that could not be verified has been kept
  aside unchanged, the new store has no budget and a one-record verified chain.
\<close>

theorem reset_only_when_broken:
  assumes "reset_after_integrity_failure X fl fresh now g W = (res, g', W')"
  shows "(g_health g = StoreOk \<longrightarrow> res = Inl BeStoreHealthy \<and> g' = g \<and> W' = W)
    \<and> (res = Inr () \<longrightarrow> g_health g \<noteq> StoreOk \<and> g_health g' = StoreOk \<and> bf_budgets (g_file g') = []
        \<and> verify_chain X (bf_records (g_file g')) \<and> length (bf_records (g_file g')) = 1
        \<and> g_mac_key g' = Some fresh \<and> w_mac_key W' = Some fresh
        \<and> (\<forall>raw. w_file W = Some raw \<longrightarrow> raw \<in> snd ` set (w_aside W')))"
proof (cases "g_health g = StoreOk")
  case True
  then show ?thesis using assms by (auto simp: reset_after_integrity_failure_def)
next
  case False
  show ?thesis
  proof (cases "res = Inr ()")
    case True
    define W1 where "W1 = (case w_file W of None \<Rightarrow> W
      | Some raw \<Rightarrow> W\<lparr>w_file := None, w_aside := w_aside W @ [(''.corrupt-'' @ show_nat now, raw)]\<rparr>)
      \<lparr>w_mac_key := Some fresh\<rparr>"
    define d where "d = draft_default\<lparr>rd_kind := RkStoreReset, rd_principal := ''member'', rd_at_ms := now,
      rd_note := Some ''the previous budget file could not be verified and was kept aside''\<rparr>"
    define f1 where "f1 = fst (append_record X file_default d Final)"
    obtain ok f2 W2 where p: "persist X fl (Some fresh) f1 W1 = (ok, f2, W2)"
      by (cases "persist X fl (Some fresh) f1 W1") auto
    have "g' = \<lparr>g_file = f2, g_health = StoreOk, g_mac_key = Some fresh\<rparr> \<and> W' = W2 \<and> ok"
      using assms False True p
      by (simp add: reset_after_integrity_failure_def Let_def W1_def [symmetric] d_def [symmetric]
          f1_def [symmetric] split: if_splits)
    moreover have "file_inv X f1" "length (bf_records f1) = 1" "bf_budgets f1 = []"
    proof -
      obtain r where a: "append_record X file_default d Final = (f1, r)"
        unfolding f1_def by (metis prod.collapse)
      show "file_inv X f1" by (rule file_inv_append_record(1) [OF file_inv_default _ a])
        (simp add: file_default_def u64_max_def)
      show "length (bf_records f1) = 1" "bf_budgets f1 = []"
        by (simp_all add: f1_def append_record_def Let_def file_default_def)
    qed
    moreover have "w_mac_key W1 = Some fresh" "\<forall>raw. w_file W = Some raw \<longrightarrow> raw \<in> snd ` set (w_aside W1)"
      by (auto simp: W1_def split: option.splits)
    moreover have "w_aside W2 = w_aside W1"
      using p by (auto simp: persist_def write_file_eq Let_def split: option.splits if_splits)
    ultimately show ?thesis
      using False True p by (auto simp: file_inv_def simp del: upt_Suc elim!: persist_cases)
  next
    case nres: False
    then show ?thesis using False by simp
  qed
qed

section \<open>The x402 kind\<close>

text \<open>
  The x402 kind is inert, and what core would build is bounded: no x402 request is ever
  budgetable, and an authorization that is built pays the recipient the member approved, from the
  member's address, a non-zero amount equal to the request's decimal text, and is valid for at
  most ten minutes from now, never before 30 seconds ago, with core's nonce.
\<close>

theorem x402_inert_and_bounded:
  assumes "build_x402_authorization X asset recipient req from now validity nonce = Inr t"
  shows "(\<exists>e. x402_budgetable req taint = Inl e)
    \<and> eq_ignore_ascii_case (xr_recipient req) recipient
    \<and> eq_ignore_ascii_case (xr_asset req) (xa_verifying_contract asset)
    \<and> parse_address X (xr_recipient req) = Inr (twa_to t) \<and> parse_address X from = Inr (twa_from t)
    \<and> digits_val 10 0 (xr_amount req) = Some (be_val (twa_value t)) \<and> 0 < be_val (twa_value t)
    \<and> twa_valid_before t \<le> now + 600 \<and> now < twa_valid_before t
    \<and> now \<le> twa_valid_after t + 30 \<and> twa_valid_after t \<le> now \<and> twa_nonce t = nonce"
proof -
  have ft: "\<exists>e. x402_budgetable req taint = Inl e" by (simp add: x402_budgetable_def)
  from assms obtain val where e: "eq_ignore_ascii_case (xr_asset req) (xa_verifying_contract asset)"
    "eq_ignore_ascii_case (xr_recipient req) recipient" "validity \<noteq> 0" "validity \<le> 600"
    and v: "parse_u256_dec (xr_amount req) = Inr val" "val \<noteq> replicate 32 0"
    and t: "parse_address X (xr_recipient req) = Inr (twa_to t)" "parse_address X from = Inr (twa_from t)"
      "twa_value t = val" "twa_valid_before t = now + validity" "twa_valid_after t = now - 30" "twa_nonce t = nonce"
    unfolding build_x402_authorization_def
    by (elim if_InlE and_then_Inr_cases)
       (auto simp: twa_new_def checked_add_def X402_VALIDITY_MAX_S_def X402_VALID_AFTER_SKEW_S_def
         split: if_splits)
  from v(1) obtain m where m: "m < 2 ^ 256" "digits_val 10 0 (xr_amount req) = Some m" "val = be_bytes 32 m"
    by (auto simp: parse_u256_dec_iff)
  then have bv: "be_val val = m" by (simp add: be_val_be_bytes)
  have "m \<noteq> 0"
  proof
    assume "m = 0"
    then have "val = replicate 32 0" using m(3) be_bytes_small [of 0 0 32] by simp
    with v(2) show False by simp
  qed
  with ft e t m bv show ?thesis by auto
qed

section \<open>A concrete store\<close>

text \<open>Files and envelopes are finite data over numbers and strings, so they can be numbered; the text
  of a file is a row of as many letters as its number says.\<close>

instance WebSigningBudget_ext :: (countable) countable
  by (rule countable_classI [of "\<lambda>r. to_nat ((wb_id r, wb_origin r, wb_principal r, wb_chain_id r, wb_max_count r),
       (wb_used_count r, wb_granted_at_ms r, wb_expires_at_ms r, wb_wallet_address r, wb_granted_record_id r,
        wb_revoked_at_ms r, WebSigningBudget.more r))"]) simp

instance X402Budget_ext :: (countable) countable
  by (rule countable_classI [of "\<lambda>r. to_nat ((xb_id r, xb_recipient r, xb_asset r, xb_per_signature_max r,
       xb_per_recipient_window_max r), (xb_max_count r, xb_used_count r, xb_expires_at_ms r,
       xb_granted_record_id r, xb_revoked_at_ms r, X402Budget.more r))"]) simp

instance RecordKind :: countable by countable_datatype

instance RecordStatus :: countable by countable_datatype

instance RecordDraft_ext :: (countable) countable
  by (rule countable_classI [of "\<lambda>r. to_nat ((rd_kind r, rd_budget_id r, rd_principal r, rd_origin r,
       rd_payload_digest r, rd_statement r), (rd_nonce r, rd_request_id r, rd_signer_address r, rd_at_ms r,
       rd_remaining_after r, rd_note r, RecordDraft.more r))"]) simp

instance DecisionRecord_ext :: (countable) countable
proof (rule countable_classI [of "\<lambda>m. let r = RecordDraft.extend draft_default m
     in to_nat (dr_record_id r, dr_prev_hash r, dr_hash r, dr_status r, DecisionRecord.more r)"])
  fix m n :: "'a DecisionRecord_ext"
  let ?r = "RecordDraft.extend draft_default m" and ?s = "RecordDraft.extend draft_default n"
  assume "(let r = ?r in to_nat (dr_record_id r, dr_prev_hash r, dr_hash r, dr_status r, DecisionRecord.more r))
    = (let r = ?s in to_nat (dr_record_id r, dr_prev_hash r, dr_hash r, dr_status r, DecisionRecord.more r))"
  then have "dr_record_id ?r = dr_record_id ?s" "dr_prev_hash ?r = dr_prev_hash ?s"
    "dr_hash ?r = dr_hash ?s" "dr_status ?r = dr_status ?s" "DecisionRecord.more ?r = DecisionRecord.more ?s"
    by (simp_all add: Let_def)
  then have "?r = ?s" by (intro DecisionRecord.equality) (simp_all add: RecordDraft.extend_def)
  then have "RecordDraft.more ?r = RecordDraft.more ?s" by simp
  then show "m = n" by (simp add: RecordDraft.extend_def)
qed

instance Reservation_ext :: (countable) countable
  by (rule countable_classI [of "\<lambda>r. to_nat (rs_origin r, rs_at_ms r, Reservation.more r)"]) simp

instance LedgerEntry_ext :: (countable) countable
  by (rule countable_classI [of "\<lambda>r. to_nat (le_origin r, le_nonce r, le_keep_until_ms r, LedgerEntry.more r)"]) simp

instance BudgetFile_ext :: (countable) countable
  by (rule countable_classI [of "\<lambda>r. to_nat ((bf_version r, bf_next_budget_id r, bf_budgets r, bf_x402_budgets r,
       bf_ledger r), (bf_reservations r, bf_records r, bf_generation r, bf_exported_through r,
       BudgetFile.more r))"]) simp

instance Envelope_ext :: (countable) countable
  by (rule countable_classI [of "\<lambda>r. to_nat (env_v r, env_body r, env_mac r, Envelope.more r)"]) simp

definition letters :: "nat \<Rightarrow> string" where "letters n = replicate n (CHR ''a'')"

definition ref_wb :: wb_deps where
  "ref_wb = ref_with
     \<lparr>file_to_json = (\<lambda>f. Some (letters (to_nat f))), file_from_json = (\<lambda>t. Some (from_nat (length t))),
      envelope_to_json = (\<lambda>e. Some (letters (to_nat e))),
      envelope_from_json = (\<lambda>t. Some (from_nat (length t)))\<rparr>"

lemma ref_wb_laws: "serde_law ref_wb" "hex_law ref_wb" "digest_law ref_wb"
proof -
  have "valid_utf8 (letters n)" for n by (rule valid_utf8_ascii) (auto simp: letters_def code_def)
  then show "serde_law ref_wb" by (simp add: serde_law_def ref_wb_def ref_with_def letters_def)
  show "hex_law ref_wb" "digest_law ref_wb" unfolding ref_wb_def by (rule hex_law_ref digest_law_ref)+
qed

definition fl_ok :: faults where
  "fl_ok = \<lparr>fl_get_key = True, fl_get_generation = True, fl_set_key = True, fl_set_generation = True,
     fl_read = True, fl_write = True, fl_rename = True\<rparr>"

definition sample_key :: bytes where "sample_key = replicate 32 1"

lemma sealed_text_ref: "\<exists>t. sealed_text ref_wb k f = Some t"
  by (simp add: sealed_text_def ref_wb_def ref_with_def)

lemma persist_ref:
  obtains W' where "persist ref_wb fl_ok (Some k) f W = (True, f\<lparr>bf_generation := sat_add (bf_generation f) 1\<rparr>, W')"
  using sealed_text_ref [of k "f\<lparr>bf_generation := sat_add (bf_generation f) 1\<rparr>"]
  by (auto simp: persist_def write_file_eq Let_def fl_ok_def)

definition sample_world :: world where
  "sample_world = \<lparr>w_file = None, w_aside = [], w_mac_key = None, w_generation = None\<rparr>"

definition sample_gate :: GateInner where
  "sample_gate = \<lparr>g_file = file_default, g_health = StoreOk, g_mac_key = Some sample_key\<rparr>"

lemma sample_load:
  "load ref_wb fl_ok sample_key sample_world = (sample_gate, sample_world\<lparr>w_mac_key := Some sample_key\<rparr>)"
  by (simp add: load_def fl_ok_def sample_world_def sample_gate_def sealed_generation_def)

lemma sample_start: "budget_run ref_wb [] 0 sample_gate (sample_world\<lparr>w_mac_key := Some sample_key\<rparr>)"
  by (rule budget_run.start [OF _ _ _ sample_load])
     (simp_all add: sample_world_def sample_key_def sample_gate_def)

definition sample_budget :: WebSigningBudget where
  "sample_budget =
     \<lparr>wb_id = 1, wb_origin = ''https://app.example'', wb_principal = ''hermes'', wb_chain_id = 40204,
      wb_max_count = 10, wb_used_count = 0, wb_granted_at_ms = 1791201600000,
      wb_expires_at_ms = 1791288000000,
      wb_wallet_address = to_ascii_lowercase ''0x1111111111111111111111111111111111111111'',
      wb_granted_record_id = 1, wb_revoked_at_ms = None\<rparr>"

lemma sample_grant:
  obtains g W where "budget_run ref_wb [] 1791201600000 g W" "g_health g = StoreOk" "g_mac_key g = Some sample_key"
    "bf_budgets (g_file g) = [sample_budget]" "bf_ledger (g_file g) = []" "bf_reservations (g_file g) = []"
    "room (g_file g)"
proof -
  let ?W = "sample_world\<lparr>w_mac_key := Some sample_key\<rparr>"
  define op where "op = OpGrant ''https://app.example/'' ''hermes'' 10 86400000 ''0x1111111111111111111111111111111111111111''"
  obtain b f where gf: "granted_file ref_wb ''https://app.example'' ''hermes'' 10 86400000
      ''0x1111111111111111111111111111111111111111'' 1791201600000 file_default = (b, f)"
    by (cases "granted_file ref_wb ''https://app.example'' ''hermes'' 10 86400000
      ''0x1111111111111111111111111111111111111111'' 1791201600000 file_default")
  have f: "bf_budgets f = [sample_budget]" "bf_ledger f = []" "bf_reservations f = []" "room f"
    using gf by (auto simp: granted_file_def append_record_def Let_def file_default_def sample_budget_def
        CHAIN_ALLOWLIST_def CITRATE_CHAIN_ID_def sat_add_def u64_max_def room_def wrap_inc_def)
  obtain W' where p: "persist ref_wb fl_ok (Some sample_key) f ?W
      = (True, f\<lparr>bf_generation := sat_add (bf_generation f) 1\<rparr>, W')"
    by (rule persist_ref)
  have "normalize_allowlist_origin ref_wb ''https://app.example/'' = Inr ''https://app.example''"
    unfolding ref_wb_def by (rule sample_normalize)
  then have "exec_op ref_wb fl_ok 1791201600000 op ([], sample_gate, ?W)
      = ([], sample_gate\<lparr>g_file := f\<lparr>bf_generation := sat_add (bf_generation f) 1\<rparr>\<rparr>, W')"
    using gf p by (simp add: exec_op_def op_def grant_def sample_gate_def budget_consts
        file_default_def [THEN arg_cong [where f = bf_budgets]])
  from budget_run.step [OF sample_start _ _ _ this]
  have "budget_run ref_wb [] 1791201600000 (sample_gate\<lparr>g_file := f\<lparr>bf_generation := sat_add (bf_generation f) 1\<rparr>\<rparr>) W'"
    by (simp add: sample_gate_def room_def file_default_def u64_max_def)
  then show thesis using f that by (simp add: sample_gate_def room_def)
qed

definition sample_input :: SiweEvalInput where
  "sample_input =
     \<lparr>ei_message = to_message sample_fields,
      ei_attestation = Some \<lparr>oa_origin = ''https://app.example'', oa_frame = Top, oa_mode = Managed\<rparr>,
      ei_taint = Clean, ei_hic_required = False, ei_principal = ''hermes'',
      ei_wallet_address = Some ''0x1111111111111111111111111111111111111111''\<rparr>"

definition sample_plan :: SiwePlan where
  "sample_plan =
     \<lparr>sp_budget_id = 1, sp_origin = ''https://app.example'', sp_principal = ''hermes'',
      sp_signer_address = to_ascii_lowercase ''0x1111111111111111111111111111111111111111'',
      sp_payload_digest = keccak_hex ref_wb (to_message sample_fields),
      sp_checked = \<lparr>bs_nonce = ''abcdefgh12345678'', bs_issued_at_ms = 1791201600000,
          bs_expiration_ms = 1791205200000, bs_statement = Some ''Sign in.'', bs_request_id = None\<rparr>,
      sp_budget_expires_at_ms = 1791288000000\<rparr>"

lemma sample_evaluate:
  assumes "g_health g = StoreOk" "bf_budgets (g_file g) = [sample_budget]" "bf_ledger (g_file g) = []"
    "bf_reservations (g_file g) = []"
  shows "evaluate_siwe ref_wb sample_input 1791201630000 g = Inr sample_plan"
proof -
  have n: "normalize_allowlist_origin ref_wb ''https://app.example'' = Inr ''https://app.example''"
    unfolding ref_wb_def by (rule sample_normalize)
  have c: "check_budgetable ref_wb (to_message sample_fields) \<lparr>cc_attested_origin = ''https://app.example'',
      cc_wallet_address = ''0x1111111111111111111111111111111111111111'', cc_now_ms = 1791201630000\<rparr>
    = Inr (sp_checked sample_plan)"
    using sample_checks unfolding ref_wb_def sample_ctx_def sample_plan_def by simp
  have b: "check_budget sample_budget (Some ''0x1111111111111111111111111111111111111111'') 1791201630000
    = Inr ''0x1111111111111111111111111111111111111111''"
    unfolding check_budget_Inr by (simp add: sample_budget_def eq_ignore_ascii_case_def)
  have w: "newest_budget (g_file g) ''https://app.example'' ''hermes'' = Some sample_budget"
    using assms(2) by (simp add: newest_budget_def) (simp add: sample_budget_def)
  show ?thesis
    unfolding evaluate_siwe_def sample_input_def
    using assms n c b w
    by (simp add: Let_def taint_ok_def check_rate_def SIWE_WINDOW_MAX_def)
       (simp add: sample_plan_def sample_budget_def)
qed

definition sample_approval :: approval where
  "sample_approval =
     \<lparr>ap_message = to_message sample_fields, ap_origin = ''https://app.example'',
      ap_nonce = ''abcdefgh12345678'', ap_expiration = 1791205200000, ap_at = 1791201630000, ap_budget = 1\<rparr>"

lemma sample_reserve:
  assumes "g_mac_key g = Some sample_key" "bf_budgets (g_file g) = [sample_budget]" "bf_ledger (g_file g) = []"
    "bf_reservations (g_file g) = []"
  obtains rid g' W' where "reserve ref_wb fl_ok sample_plan 1791201630000 g W = (Inr rid, g', W')"
    "g_health g' = g_health g" "bf_budgets (g_file g') = [sample_budget\<lparr>wb_used_count := 1\<rparr>]"
    "bf_ledger (g_file g') = [\<lparr>le_origin = ''https://app.example'', le_nonce = ''abcdefgh12345678'',
       le_keep_until_ms = 1791205260000\<rparr>]"
    "bf_reservations (g_file g') = [\<lparr>rs_origin = ''https://app.example'', rs_at_ms = 1791201630000\<rparr>]"
proof -
  obtain res g' W' where r: "reserve ref_wb fl_ok sample_plan 1791201630000 g W = (res, g', W')"
    by (cases "reserve ref_wb fl_ok sample_plan 1791201630000 g W") auto
  have ok: "res \<noteq> Inl e" for e
  proof -
    have "fst (persist ref_wb fl_ok (Some sample_key) f W)" for f by (rule persist_ref [of sample_key f W]) simp
    then show ?thesis
      using r assms by (auto simp: reserve_def Let_def sample_plan_def sample_budget_def split: prod.splits if_splits)
         (metis fst_conv)+
  qed
  from r show thesis
  proof (cases rule: reserve_cases)
    case (refused e)
    with ok show thesis by blast
  next
    case (reserved rid b d f1 f2)
    have f2: "bf_budgets f2 = bf_budgets f1" "bf_ledger f2 = bf_ledger f1" "bf_reservations f2 = bf_reservations f1"
      using reserved(12) by (auto elim: persist_cases)
    have f1: "bf_budgets f1 = bf_budgets (reserved_file sample_plan 1791201630000 (g_file g))"
      "bf_ledger f1 = bf_ledger (reserved_file sample_plan 1791201630000 (g_file g))"
      "bf_reservations f1 = bf_reservations (reserved_file sample_plan 1791201630000 (g_file g))"
      using reserved(5) by (auto elim: append_record_eq)
    show thesis
      by (rule that [of rid g' W'])
         (use r reserved(1,13) f1 f2 assms in \<open>simp_all add: reserved_file_def sample_plan_def sample_budget_def
           CLOCK_SKEW_MS_def sat_add_def u64_max_def\<close>)
  qed
qed

lemma sample_run:
  obtains g W where "budget_run ref_wb [sample_approval] 1791201630000 g W" "g_health g = StoreOk"
    "bf_budgets (g_file g) = [sample_budget\<lparr>wb_used_count := 1\<rparr>]"
    "bf_ledger (g_file g) = [\<lparr>le_origin = ''https://app.example'', le_nonce = ''abcdefgh12345678'',
       le_keep_until_ms = 1791205260000\<rparr>]"
    "bf_reservations (g_file g) = [\<lparr>rs_origin = ''https://app.example'', rs_at_ms = 1791201630000\<rparr>]"
proof -
  obtain g W where g: "budget_run ref_wb [] 1791201600000 g W" "g_health g = StoreOk" "g_mac_key g = Some sample_key"
    "bf_budgets (g_file g) = [sample_budget]" "bf_ledger (g_file g) = []" "bf_reservations (g_file g) = []"
    "room (g_file g)" by (rule sample_grant)
  obtain rid g' W' where r: "reserve ref_wb fl_ok sample_plan 1791201630000 g W = (Inr rid, g', W')"
    "g_health g' = g_health g" "bf_budgets (g_file g') = [sample_budget\<lparr>wb_used_count := 1\<rparr>]"
    "bf_ledger (g_file g') = [\<lparr>le_origin = ''https://app.example'', le_nonce = ''abcdefgh12345678'',
       le_keep_until_ms = 1791205260000\<rparr>]"
    "bf_reservations (g_file g') = [\<lparr>rs_origin = ''https://app.example'', rs_at_ms = 1791201630000\<rparr>]"
    by (rule sample_reserve [OF g(3-6)])
  have "exec_op ref_wb fl_ok 1791201630000 (OpSign sample_input) ([], g, W) = ([sample_approval], g', W')"
    using sample_evaluate [OF g(2,4-6)] r(1)
    by (simp add: exec_op_def sample_approval_def) (simp add: sample_input_def sample_plan_def)
  from budget_run.step [OF g(1) _ _ g(7) this]
  have "budget_run ref_wb [sample_approval] 1791201630000 g' W'" by simp
  then show thesis using r g(2) that by simp
qed


theorem budget_never_overspent_witness:
  "\<exists>g W b. budget_run ref_wb [sample_approval] 1791201630000 g W \<and> b \<in> set (bf_budgets (g_file g))
     \<and> wb_used_count b = 1 \<and> wb_max_count b \<le> 50
     \<and> length (filter (\<lambda>h. ap_budget h = wb_id b) [sample_approval]) = wb_used_count b"
proof (rule sample_run)
  fix g W assume g: "budget_run ref_wb [sample_approval] 1791201630000 g W" "g_health g = StoreOk"
    and b: "bf_budgets (g_file g) = [sample_budget\<lparr>wb_used_count := 1\<rparr>]"
  then have "sample_budget\<lparr>wb_used_count := 1\<rparr> \<in> set (bf_budgets (g_file g))" by simp
  from budget_never_overspent [OF ref_wb_laws(1,2) g this] g this show ?thesis
    by (intro exI [of _ g] exI [of _ W] exI [of _ "sample_budget\<lparr>wb_used_count := 1\<rparr>"]) simp
qed

theorem store_invariant_witness:
  "\<exists>g W. budget_run ref_wb [sample_approval] 1791201630000 g W
     \<and> verify_chain ref_wb (bf_records (g_file g)) \<and> distinct (map wb_id (bf_budgets (g_file g)))"
proof (rule sample_run)
  fix g W assume "budget_run ref_wb [sample_approval] 1791201630000 g W" "g_health g = StoreOk"
  with store_invariant [OF ref_wb_laws(1,2) this] show ?thesis by blast
qed

definition sample_fields2 :: SiweFields where
  "sample_fields2 = sample_fields\<lparr>sf_nonce := ''zyxwvuts87654321''\<rparr>"

definition sample_input2 :: SiweEvalInput where
  "sample_input2 = sample_input\<lparr>ei_message := to_message sample_fields2\<rparr>"

lemma sample_checks2:
  "check_budgetable ref_wb (to_message sample_fields2) \<lparr>cc_attested_origin = ''https://app.example'',
      cc_wallet_address = ''0x1111111111111111111111111111111111111111'', cc_now_ms = 1791201690000\<rparr>
    = Inr \<lparr>bs_nonce = ''zyxwvuts87654321'', bs_issued_at_ms = 1791201600000,
          bs_expiration_ms = 1791205200000, bs_statement = Some ''Sign in.'', bs_request_id = None\<rparr>"
proof -
  let ?ctx = "\<lparr>cc_attested_origin = ''https://app.example'',
      cc_wallet_address = ''0x1111111111111111111111111111111111111111'', cc_now_ms = 1791201690000\<rparr>"
  have "is_token ''zyxwvuts87654321''" by (simp add: text_eval)
  then have ok: "fields_ok sample_fields2"
    using sample_fields_ok unfolding fields_ok_def sample_fields2_def by (simp split: option.splits)
  have p: "parse_strict (to_message sample_fields2) = Inr sample_fields2"
    unfolding parse_strict_iff siwe_wf_def
    by (simp add: ok)
       (simp add: sample_fields2_def message_lines_def sample_fields_def opt_lines_def HEADER_SUFFIX_def
          single_line_def to_message_def opt_line_def MAX_MESSAGE_BYTES_def)
  have o: "check_origin ref_wb sample_fields2 ?ctx = Inr ()"
    by (simp add: check_origin_def sample_fields2_def sample_fields_def ref_wb_def url_parse_ref_def url_ref_def)
  have t: "check_times sample_fields2 ?ctx = Inr (1791201600000, 1791205200000)"
    by (simp add: check_times_def sample_fields2_def sample_fields_def sample_times as_i64_def
        wrap_i64_exact siwe_consts)
  have e: "is_eip55 ref_wb (sf_address sample_fields2)"
    by (simp add: is_eip55_def sample_fields2_def sample_fields_def is_hex_address_def text_eval)
  show ?thesis
    unfolding check_budgetable_def p
    by (simp add: o t e)
       (simp add: t [unfolded sample_fields2_def sample_fields_def SiweFields.simps] sample_fields2_def sample_fields_def
         siwe_consts is_display_safe_def text_eval)
qed

lemma sample_evaluate2:
  assumes "g_health g = StoreOk" "bf_budgets (g_file g) = [sample_budget\<lparr>wb_used_count := 1\<rparr>]"
    "bf_ledger (g_file g) = [\<lparr>le_origin = ''https://app.example'', le_nonce = ''abcdefgh12345678'',
       le_keep_until_ms = 1791205260000\<rparr>]"
    "bf_reservations (g_file g) = [\<lparr>rs_origin = ''https://app.example'', rs_at_ms = 1791201630000\<rparr>]"
  obtains plan where "evaluate_siwe ref_wb sample_input2 1791201690000 g = Inr plan"
    "sp_origin plan = ''https://app.example''"
proof -
  let ?b = "sample_budget\<lparr>wb_used_count := 1\<rparr>"
  have n: "normalize_allowlist_origin ref_wb ''https://app.example'' = Inr ''https://app.example''"
    unfolding ref_wb_def by (rule sample_normalize)
  have b: "check_budget ?b (Some ''0x1111111111111111111111111111111111111111'') 1791201690000
    = Inr ''0x1111111111111111111111111111111111111111''"
    unfolding check_budget_Inr by (simp add: sample_budget_def eq_ignore_ascii_case_def)
  have w: "newest_budget (g_file g) ''https://app.example'' ''hermes'' = Some ?b"
    using assms(2) by (simp add: newest_budget_def) (simp add: sample_budget_def)
  have r: "check_rate (g_file g) ''https://app.example'' 1791201690000 = Inr ()"
    using assms(4) by (simp add: check_rate_def budget_consts sat_add_def u64_max_def in_window_def)
  show thesis
    using assms n b w r sample_checks2
    by (intro that [of "\<lparr>sp_budget_id = wb_id ?b, sp_origin = ''https://app.example'', sp_principal = ''hermes'',
      sp_signer_address = to_ascii_lowercase ''0x1111111111111111111111111111111111111111'',
      sp_payload_digest = keccak_hex ref_wb (to_message sample_fields2),
      sp_checked = \<lparr>bs_nonce = ''zyxwvuts87654321'', bs_issued_at_ms = 1791201600000,
          bs_expiration_ms = 1791205200000, bs_statement = Some ''Sign in.'', bs_request_id = None\<rparr>,
      sp_budget_expires_at_ms = wb_expires_at_ms ?b\<rparr>"])
       (simp_all add: evaluate_siwe_def sample_input2_def sample_input_def Let_def taint_ok_def)
qed


definition failed_gate :: GateInner where
  "failed_gate = \<lparr>g_file = file_default, g_health = StoreFailed ''damaged'', g_mac_key = None\<rparr>"

definition saved_world :: "string \<Rightarrow> world" where
  "saved_world t = sample_world\<lparr>w_file := Some t, w_mac_key := Some sample_key\<rparr>"

lemma sample_load_saved:
  obtains t g W' where "load ref_wb fl_ok sample_key (saved_world t) = (g, W')" "g_health g = StoreOk"
proof -
  obtain t where t: "sealed_text ref_wb sample_key file_default = Some t" using sealed_text_ref by blast
  from decode_sealed [OF ref_wb_laws(1,2) t file_inv_default, of 0]
  have d: "decode_file ref_wb sample_key 0 t = Inr file_default" "valid_utf8 t" by simp_all
  obtain g W' where l: "load_existing ref_wb fl_ok (Some sample_key) 0 t (saved_world t) = (g, W')"
    by (cases "load_existing ref_wb fl_ok (Some sample_key) 0 t (saved_world t)")
  have "load ref_wb fl_ok sample_key (saved_world t) = (g, W')"
    using l by (simp add: load_def saved_world_def sample_world_def fl_ok_def sealed_generation_def)
  moreover have "g_health g = StoreOk"
    by (rule load_existing_file(1) [OF l _ _ d(2) d(1)]) (simp_all add: sample_key_def fl_ok_def)
  ultimately show thesis using that by blast
qed


theorem unverified_store_refuses_witness:
  "load ref_wb (fl_ok\<lparr>fl_get_key := False\<rparr>) sample_key sample_world
     = (failed_gate\<lparr>g_health := StoreFailed ''the OS keychain is unavailable, so budgets are off''\<rparr>, sample_world)
   \<and> evaluate_siwe ref_wb sample_input 5
       (failed_gate\<lparr>g_health := StoreFailed ''the OS keychain is unavailable, so budgets are off''\<rparr>)
     = Inl FtStoreUnavailable"
proof -
  have l: "load ref_wb (fl_ok\<lparr>fl_get_key := False\<rparr>) sample_key sample_world
     = (failed_gate\<lparr>g_health := StoreFailed ''the OS keychain is unavailable, so budgets are off''\<rparr>, sample_world)"
    by (simp add: load_def fl_ok_def load_failed_def failed_gate_def)
  then show ?thesis using unverified_store_refuses [OF l] by simp
qed


theorem reserve_write_ahead_witness:
  "\<exists>g W rid g' W'. reserve ref_wb fl_ok sample_plan 1791201630000 g W = (Inr rid, g', W')
     \<and> remaining_of 1 g' + 1 = remaining_of 1 g"
proof (rule sample_grant)
  fix g :: GateInner and W :: world assume g: "g_mac_key g = Some sample_key" "bf_budgets (g_file g) = [sample_budget]" "bf_ledger (g_file g) = []"
    "bf_reservations (g_file g) = []"
  show ?thesis
  proof (rule sample_reserve [OF g, of W])
    fix rid g' W' assume r: "reserve ref_wb fl_ok sample_plan 1791201630000 g W = (Inr rid, g', W')"
    have "sp_budget_id sample_plan = 1" by (simp add: sample_plan_def)
    with reserve_write_ahead [OF r] have "remaining_of 1 g' + 1 = remaining_of 1 g" by auto
    with r show ?thesis by blast
  qed
qed

theorem revoke_takes_effect_witness:
  "\<exists>g W res g' W'. revoke ref_wb fl_ok 1 1791201640000 g W = (res, g', W')
     \<and> bf_budgets (g_file g) = [sample_budget]
     \<and> still_signable sample_plan 1791201640000 g' = Inl FtBudgetRevoked"
proof (rule sample_grant)
  fix g :: GateInner and W :: world assume g: "bf_budgets (g_file g) = [sample_budget]"
  obtain res g' W' where r: "revoke ref_wb fl_ok 1 1791201640000 g W = (res, g', W')"
    by (cases "revoke ref_wb fl_ok 1 1791201640000 g W") auto
  have "wb_id sample_budget = 1" "wb_revoked_at_ms sample_budget = None" by (simp_all add: sample_budget_def)
  with g r have "res \<noteq> Inl BeUnknownBudget"
    by (auto simp: revoke_def Let_def split: prod.splits if_splits)
  moreover have "distinct (map wb_id (bf_budgets (g_file g)))" using g by simp
  moreover have "sp_budget_id sample_plan = 1" by (simp add: sample_plan_def)
  ultimately have "still_signable sample_plan 1791201640000 g' = Inl FtBudgetRevoked"
    using revoke_takes_effect [OF r] by blast
  with r g show ?thesis by blast
qed

theorem revoke_all_stops_everything_witness:
  "\<exists>g W res g' W'. bf_budgets (g_file g) = [sample_budget]
     \<and> revoke_all ref_wb fl_ok ''stop'' 1791201640000 g W = (res, g', W')
     \<and> evaluate_siwe ref_wb sample_input 1791201640000 g' \<noteq> Inr sample_plan"
proof (rule sample_grant)
  fix g :: GateInner and W :: world assume g: "bf_budgets (g_file g) = [sample_budget]"
  obtain res g' W' where r: "revoke_all ref_wb fl_ok ''stop'' 1791201640000 g W = (res, g', W')"
    by (cases "revoke_all ref_wb fl_ok ''stop'' 1791201640000 g W") auto
  from revoke_all_stops_everything [OF r] r g show ?thesis by blast
qed

definition sample_file :: BudgetFile where
  "sample_file = fst (append_record ref_wb file_default draft_default Final)"

lemma sample_file_inv: "file_inv ref_wb sample_file" "length (bf_records sample_file) = 1"
proof -
  obtain rid where "append_record ref_wb file_default draft_default Final = (sample_file, rid)"
    unfolding sample_file_def by (metis prod.collapse)
  from file_inv_append_record(1) [OF file_inv_default _ this]
  show "file_inv ref_wb sample_file" by (simp add: file_default_def u64_max_def)
  show "length (bf_records sample_file) = 1"
    by (simp add: sample_file_def append_record_def Let_def file_default_def)
qed

theorem head_hash_commits_witness:
  "verify_chain ref_wb (bf_records sample_file) \<and> length (bf_records sample_file) = 1
   \<and> map record_body (bf_records sample_file) = map record_body (bf_records sample_file)"
proof -
  have v: "verify_chain ref_wb (bf_records sample_file)" using sample_file_inv(1) by (simp add: file_inv_def)
  obtain r where r: "bf_records sample_file = [r]"
    using sample_file_inv(2) by (cases "bf_records sample_file") auto
  from head_hash_commits [OF ref_wb_laws(3,2) v v refl refl] v sample_file_inv(2) show ?thesis by (simp add: r)
qed

theorem export_in_order_witness:
  "\<exists>res g' W'. mark_exported ref_wb fl_ok 1 (sample_gate\<lparr>g_file := sample_file\<rparr>) sample_world = (res, g', W')
     \<and> bf_exported_through (g_file g') \<le> length (bf_records (g_file g'))"
proof -
  let ?g = "sample_gate\<lparr>g_file := sample_file\<rparr>"
  obtain res g' W' where m: "mark_exported ref_wb fl_ok 1 ?g sample_world = (res, g', W')"
    by (cases "mark_exported ref_wb fl_ok 1 ?g sample_world") auto
  have "file_inv ref_wb (g_file ?g)" "g_health ?g = StoreOk"
    using sample_file_inv by (simp_all add: sample_gate_def)
  from export_in_order [OF this m] m show ?thesis by blast
qed

theorem reset_only_when_broken_witness:
  "\<exists>g' W'. reset_after_integrity_failure ref_wb fl_ok sample_key 7 failed_gate (saved_world ''junk'')
       = (Inr (), g', W')
     \<and> bf_budgets (g_file g') = [] \<and> ''junk'' \<in> snd ` set (w_aside W')"
proof -
  obtain res g' W' where r: "reset_after_integrity_failure ref_wb fl_ok sample_key 7 failed_gate (saved_world ''junk'')
      = (res, g', W')"
    by (cases "reset_after_integrity_failure ref_wb fl_ok sample_key 7 failed_gate (saved_world ''junk'')") auto
  have "fst (persist ref_wb fl_ok (Some sample_key) f W)" for f W by (rule persist_ref [of sample_key f W]) simp
  then have "res = Inr ()"
    using r by (auto simp: reset_after_integrity_failure_def failed_gate_def saved_world_def fl_ok_def Let_def
        split: prod.splits if_splits) (metis fst_conv)+
  with reset_only_when_broken [OF r] r show ?thesis by (simp add: saved_world_def)
qed

definition addr_of :: "char \<Rightarrow> string" where "addr_of c = ''0x'' @ replicate 40 c"

lemma parse_addr_of: "parse_address ref_deps (addr_of (CHR ''2'')) = Inr (replicate 20 0x22)"
  "parse_address ref_deps (addr_of (CHR ''3'')) = Inr (replicate 20 0x33)"
  by (simp_all add: parse_address_def addr_of_def numeral_eq_Suc digit_val_def is_ascii_digit_def code_def)

theorem x402_inert_and_bounded_witness:
  "\<exists>t. build_x402_authorization ref_deps
        \<lparr>xa_chain_id = 40204, xa_verifying_contract = addr_of (CHR ''2''), xa_name = ''A'', xa_version = ''1''\<rparr>
        (addr_of (CHR ''3'')) \<lparr>xr_recipient = addr_of (CHR ''3''), xr_asset = addr_of (CHR ''2''), xr_amount = ''5''\<rparr>
        (addr_of (CHR ''2'')) 1000 600 (replicate 32 9) = Inr t
     \<and> be_val (twa_value t) = 5 \<and> twa_valid_before t \<le> 1600"
proof -
  have amt: "parse_u256_dec ''5'' = Inr (be_bytes 32 5)"
    unfolding parse_u256_dec_iff by (simp add: digit_val_def is_ascii_digit_def code_def)
  have nz: "be_bytes 32 5 \<noteq> replicate 32 0"
  proof
    assume "be_bytes 32 5 = replicate 32 0"
    then have "be_val (be_bytes 32 5) = be_val (be_bytes 32 0)" using be_bytes_small [of 0 0 32] by simp
    then show False by (simp add: be_val_be_bytes)
  qed
  let ?a = "\<lparr>xa_chain_id = 40204, xa_verifying_contract = addr_of (CHR ''2''), xa_name = ''A'', xa_version = ''1''\<rparr>"
  let ?r = "\<lparr>xr_recipient = addr_of (CHR ''3''), xr_asset = addr_of (CHR ''2''), xr_amount = ''5''\<rparr>"
  obtain t where t: "build_x402_authorization ref_deps ?a (addr_of (CHR ''3'')) ?r (addr_of (CHR ''2'')) 1000 600
      (replicate 32 9) = Inr t"
    using amt nz parse_addr_of
    by (simp add: build_x402_authorization_def X402_VALIDITY_MAX_S_def X402_VALID_AFTER_SKEW_S_def
        checked_add_def u64_max_def twa_new_def)
  have "digits_val 10 0 ''5'' = Some 5" by (simp add: digit_val_def is_ascii_digit_def code_def)
  with x402_inert_and_bounded [OF t, of Clean] t show ?thesis by (intro exI [of _ t]) simp
qed

end
