(* ===== verification/SubmittedLog.thy ===== *)
theory SubmittedLog
  imports Prelude
begin

text \<open>
  \<open>kit/src/submitted_log.rs\<close>: the durable record of the signed transactions handed to
  \<open>eth_sendRawTransaction\<close>, one section per network. A \<open>VecDeque\<close> is a list, a \<open>BTreeMap\<close> a sorted
  association list. The app data directory is an association list from file names to file
  nodes, threaded through every operation that touches it, and \<open>log_faults\<close> says which of the
  accesses of one call succeed, so that each error path of the source is a branch. The derived
  serde encodings of the file types are the parameters \<open>log_codec\<close>. The temporary file of an
  atomic write, which nothing reads back, is left out.
\<close>

section \<open>Data\<close>

definition CAPACITY :: nat where "CAPACITY = 256"

definition RECORD_FILE :: string where "RECORD_FILE = ''submitted-tx-networks.json''"

definition LEGACY_FILE :: string where "LEGACY_FILE = ''submitted-tx.json''"

definition LEGACY_GENESIS :: string where
  "LEGACY_GENESIS = ''0x1dcfc4909dd9fdcb0f03c823d627e4b2032cc86bef5fc4561030d6c64b9775f1''"

definition ENVELOPE_FILE :: string where "ENVELOPE_FILE = ''custody.enc''"

definition FORMAT :: nat where "FORMAT = 3"

record CallMeta =
  cm_to :: string
  cm_selector :: string

record RecordedCall =
  rc_hash :: string
  rc_nonce :: "nat option"
  rc_at_ms :: "nat option"

datatype NonceSource = Fetched | Supplied

record Entry =
  e_hash :: string
  e_sender :: "string option"
  e_nonce :: "nat option"
  e_to :: "string option"
  e_selector :: "string option"
  e_at_ms :: "nat option"
  e_forgotten :: bool

definition entry_bare :: "string \<Rightarrow> Entry" where
  "entry_bare hash =
     \<lparr>e_hash = hash, e_sender = None, e_nonce = None, e_to = None, e_selector = None,
      e_at_ms = None, e_forgotten = False\<rparr>"

definition lowercased :: "Entry \<Rightarrow> Entry" where
  "lowercased e =
     e\<lparr>e_hash := to_ascii_lowercase (e_hash e),
       e_sender := map_option to_ascii_lowercase (e_sender e),
       e_to := map_option to_ascii_lowercase (e_to e),
       e_selector := map_option to_ascii_lowercase (e_selector e)\<rparr>"

type_synonym marks = "(string \<times> nat) list"

text \<open>\<open>*map.entry(k).or_insert(v)\<close> raised to the maximum with \<open>v\<close>.\<close>

definition raise_mark :: "string \<Rightarrow> nat \<Rightarrow> marks \<Rightarrow> marks" where
  "raise_mark k v m = bt_insert k (case bt_get k m of None \<Rightarrow> v | Some hw \<Rightarrow> max hw v) m"

definition lower_keys :: "marks \<Rightarrow> marks" where
  "lower_keys m = foldl (\<lambda>out (k, v). raise_mark (to_ascii_lowercase k) v out) [] m"

record Section =
  sec_entries :: "Entry list"
  sec_evicted :: marks
  sec_uncertain :: bool
  sec_upgrade :: "marks option"

definition section_default :: Section where
  "section_default =
     \<lparr>sec_entries = [], sec_evicted = [], sec_uncertain = False, sec_upgrade = None\<rparr>"

definition damaged :: Section where
  "damaged = section_default\<lparr>sec_uncertain := True\<rparr>"

section \<open>One section\<close>

definition contains :: "Section \<Rightarrow> string \<Rightarrow> bool" where
  "contains s hash \<longleftrightarrow> list_ex (\<lambda>e. e_hash e = hash) (sec_entries s)"

definition above_bound :: "marks \<Rightarrow> (string \<times> nat) option \<Rightarrow> NonceSource \<Rightarrow> bool" where
  "above_bound bound origin source =
     (case (origin, source) of
        (Some (sender, nonce), Fetched) \<Rightarrow>
          (case bt_get sender bound of Some b \<Rightarrow> b < nonce | None \<Rightarrow> False)
      | _ \<Rightarrow> False)"

definition absent_is_first :: "Section \<Rightarrow> (string \<times> nat) option \<Rightarrow> NonceSource \<Rightarrow> bool" where
  "absent_is_first s origin source =
     (if sec_uncertain s then False
      else if (case sec_upgrade s of
                 None \<Rightarrow> False
               | Some bound \<Rightarrow> \<not> above_bound bound origin source) then False
      else case origin of
             Some (sender, nonce) \<Rightarrow>
               (case bt_get sender (sec_evicted s) of None \<Rightarrow> True | Some hw \<Rightarrow> hw < nonce)
           | None \<Rightarrow> sec_evicted s = [])"

text \<open>What dropping the oldest entry leaves behind: its sender's high-water mark is raised, or the
  section becomes uncertain when the entry cannot be bounded.\<close>

definition evict_entry :: "Entry \<Rightarrow> Section \<Rightarrow> Section" where
  "evict_entry e s =
     (case (e_sender e, e_nonce e) of
        (Some sender, Some n) \<Rightarrow> s\<lparr>sec_evicted := raise_mark sender n (sec_evicted s)\<rparr>
      | _ \<Rightarrow> s\<lparr>sec_uncertain := True\<rparr>)"

lemma sec_entries_evict_entry [simp]: "sec_entries (evict_entry e s) = sec_entries s"
  by (simp add: evict_entry_def split: option.splits)

function evict_to_capacity :: "Section \<Rightarrow> Section" where
  "evict_to_capacity s =
     (if CAPACITY < length (sec_entries s)
      then evict_to_capacity
             (evict_entry (hd (sec_entries s)) (s\<lparr>sec_entries := tl (sec_entries s)\<rparr>))
      else s)"
  by pat_completeness auto
termination
  by (relation "measure (\<lambda>s. length (sec_entries s))") auto

declare evict_to_capacity.simps [simp del]

definition absorb_entries :: "Entry list \<Rightarrow> Section \<Rightarrow> Section" where
  "absorb_entries es s =
     foldl (\<lambda>s e. if contains s (e_hash e) then s
                  else s\<lparr>sec_entries := sec_entries s @ [e]\<rparr>) s es"

definition merge_marks :: "marks \<Rightarrow> marks \<Rightarrow> marks" where
  "merge_marks other m = foldl (\<lambda>m (k, v). raise_mark k v m) m other"

definition merge_bounds :: "marks \<Rightarrow> marks \<Rightarrow> marks" where
  "merge_bounds a b =
     List.map_filter (\<lambda>(s, n). map_option (\<lambda>m. (s, max n m)) (bt_get s b)) a"

definition absorb :: "Section \<Rightarrow> Section \<Rightarrow> Section" where
  "absorb s other =
     (let s1 = absorb_entries (sec_entries other) s;
          s2 = s1\<lparr>sec_evicted := merge_marks (sec_evicted other) (sec_evicted s1)\<rparr>;
          s3 = s2\<lparr>sec_uncertain := sec_uncertain s2 \<or> sec_uncertain other\<rparr>;
          s4 = s3\<lparr>sec_upgrade :=
                    (case (sec_upgrade s3, sec_upgrade other) of
                       (None, b) \<Rightarrow> b
                     | (a, None) \<Rightarrow> a
                     | (Some a, Some b) \<Rightarrow> Some (merge_bounds a b))\<rparr>
      in evict_to_capacity s4)"

section \<open>Files\<close>

record SectionDisk =
  sd_genesis :: string
  sd_entries :: "Entry list"
  sd_evicted :: marks
  sd_uncertain :: bool
  sd_upgrade_bound :: "marks option"

record RecordDisk =
  rd_format :: nat
  rd_current :: SectionDisk
  rd_previous_networks :: "SectionDisk list"
  rd_history_lost :: bool

record LegacyDisk =
  ld_entries :: "Entry list"
  ld_evicted :: marks
  ld_uncertain :: bool
  ld_upgrade_bound :: "marks option"

record LegacyDiskV2 =
  l2_hashes :: "string list"
  l2_uncertain :: bool

record log_codec =
  record_to_json :: "RecordDisk \<Rightarrow> string option"
  record_from_json :: "string \<Rightarrow> RecordDisk option"
  legacy_from_json :: "string \<Rightarrow> LegacyDisk option"
  legacy_v2_from_json :: "string \<Rightarrow> LegacyDiskV2 option"
  list_from_json :: "string \<Rightarrow> string list option"

definition from_legacy :: "log_codec \<Rightarrow> string \<Rightarrow> Section" where
  "from_legacy C bytes =
     evict_to_capacity
       (case legacy_from_json C bytes of
          Some d \<Rightarrow>
            (let (uncertain, upgrade) =
               (case ld_upgrade_bound d of
                  Some bound \<Rightarrow> if ld_uncertain d then (False, Some (lower_keys bound))
                                else (ld_uncertain d, None)
                | None \<Rightarrow> (ld_uncertain d, None))
             in \<lparr>sec_entries = map lowercased (ld_entries d),
                 sec_evicted = lower_keys (ld_evicted d),
                 sec_uncertain = uncertain, sec_upgrade = upgrade\<rparr>)
        | None \<Rightarrow>
          (case legacy_v2_from_json C bytes of
             Some d \<Rightarrow>
               section_default\<lparr>sec_entries := map (\<lambda>h. lowercased (entry_bare h)) (l2_hashes d),
                               sec_uncertain := l2_uncertain d\<rparr>
           | None \<Rightarrow>
             (case list_from_json C bytes of
                Some l \<Rightarrow>
                  section_default\<lparr>sec_uncertain := CAPACITY \<le> length l,
                                  sec_entries := map (\<lambda>h. lowercased (entry_bare h)) l\<rparr>
              | None \<Rightarrow> damaged)))"

definition section_from_disk :: "SectionDisk \<Rightarrow> string \<times> Section" where
  "section_from_disk d =
     (to_ascii_lowercase (sd_genesis d),
      evict_to_capacity
        \<lparr>sec_entries = map lowercased (sd_entries d), sec_evicted = lower_keys (sd_evicted d),
         sec_uncertain = sd_uncertain d,
         sec_upgrade = map_option lower_keys (sd_upgrade_bound d)\<rparr>)"

definition section_to_disk :: "string \<Rightarrow> Section \<Rightarrow> SectionDisk" where
  "section_to_disk genesis s =
     \<lparr>sd_genesis = genesis, sd_entries = sec_entries s, sd_evicted = sec_evicted s,
      sd_uncertain = sec_uncertain s, sd_upgrade_bound = sec_upgrade s\<rparr>"

record Inner =
  in_genesis :: string
  in_current :: Section
  in_previous :: "(string \<times> Section) list"
  in_history_lost :: bool

definition inner_new :: "Section \<Rightarrow> Inner" where
  "inner_new current =
     \<lparr>in_genesis = [], in_current = current, in_previous = [], in_history_lost = False\<rparr>"

definition sent_on_a_previous_network :: "Inner \<Rightarrow> string \<Rightarrow> bool" where
  "sent_on_a_previous_network I hash \<longleftrightarrow>
     list_ex (\<lambda>(g, s). contains s hash) (in_previous I)"

definition inner_to_disk :: "Inner \<Rightarrow> RecordDisk" where
  "inner_to_disk I =
     \<lparr>rd_format = FORMAT, rd_current = section_to_disk (in_genesis I) (in_current I),
      rd_previous_networks = map (\<lambda>(g, s). section_to_disk g s) (in_previous I),
      rd_history_lost = in_history_lost I\<rparr>"

text \<open>A file node: readable bytes, or a file that exists and cannot be read.\<close>

datatype fnode = Content string | NoAccess

type_synonym dir = "(string \<times> fnode) list"

record log_faults =
  lf_read :: bool
  lf_read_legacy :: bool
  lf_list_dir :: bool
  lf_link :: bool
  lf_copy :: bool
  lf_sync_aside :: bool
  lf_rename_legacy :: bool
  lf_sync_legacy :: bool
  lf_write :: bool
  lf_sync_dir :: bool
  lf_error :: string

datatype Found = Missing | Record Inner | Unparsable | Unreadable

definition add_section :: "SectionDisk \<Rightarrow> Inner \<Rightarrow> Inner" where
  "add_section p I =
     (let (g, s) = section_from_disk p in
      if g = in_genesis I then I\<lparr>in_current := absorb (in_current I) s\<rparr>
      else I\<lparr>in_previous :=
               bt_insert g
                 (absorb (case bt_get g (in_previous I) of None \<Rightarrow> section_default | Some s0 \<Rightarrow> s0) s)
                 (in_previous I)\<rparr>)"

definition parse_record :: "log_codec \<Rightarrow> string \<Rightarrow> Inner option" where
  "parse_record C bytes =
     (case record_from_json C bytes of
        None \<Rightarrow> None
      | Some d \<Rightarrow>
        if rd_format d \<noteq> FORMAT then None
        else
          (let (genesis, current) = section_from_disk (rd_current d);
               inner = (inner_new current)\<lparr>in_genesis := genesis, in_history_lost := rd_history_lost d\<rparr>
           in Some (foldl (\<lambda>I p. add_section p I) inner (rd_previous_networks d))))"

definition read_record :: "log_codec \<Rightarrow> log_faults \<Rightarrow> string \<Rightarrow> dir \<Rightarrow> Found" where
  "read_record C F path D =
     (case bt_get path D of
        None \<Rightarrow> Missing
      | Some NoAccess \<Rightarrow> Unreadable
      | Some (Content bytes) \<Rightarrow>
        if \<not> lf_read F then Unreadable
        else case parse_record C bytes of None \<Rightarrow> Unparsable | Some I \<Rightarrow> Record I)"

definition aside_name :: "string \<Rightarrow> string \<Rightarrow> nat \<Rightarrow> string" where
  "aside_name path tag n = path @ ''.'' @ tag @ (if n = 1 then [] else ''-'' @ show_nat n)"

definition free_aside_name :: "string \<Rightarrow> string \<Rightarrow> dir \<Rightarrow> string option" where
  "free_aside_name path tag D =
     find (\<lambda>p. bt_get p D = None) (map (aside_name path tag) [1..<1001])"

definition set_aside :: "log_faults \<Rightarrow> string \<Rightarrow> string \<Rightarrow> dir \<Rightarrow> (string + string) \<times> dir" where
  "set_aside F path tag D =
     (case free_aside_name path tag D of
        None \<Rightarrow> (Inl ''no free name to set the file aside'', D)
      | Some free \<Rightarrow>
        (case bt_get path D of
           None \<Rightarrow> (Inl (lf_error F), D)
         | Some node \<Rightarrow>
           if \<not> lf_rename_legacy F then (Inl (lf_error F), D)
           else
             (let D' = bt_insert free node (bt_remove path D) in
              if lf_sync_legacy F then (Inr free, D') else (Inl (lf_error F), D'))))"

definition keep_aside :: "log_faults \<Rightarrow> string \<Rightarrow> string \<Rightarrow> dir \<Rightarrow> (string + string) \<times> dir" where
  "keep_aside F path tag D =
     (case free_aside_name path tag D of
        None \<Rightarrow> (Inl ''no free name to set the file aside'', D)
      | Some free \<Rightarrow>
        (case bt_get path D of
           None \<Rightarrow> (Inl (lf_error F), D)
         | Some node \<Rightarrow>
           if \<not> lf_link F \<and> \<not> (lf_copy F \<and> node \<noteq> NoAccess) then (Inl (lf_error F), D)
           else
             (let D' = bt_insert free node D in
              if lf_sync_aside F then (Inr free, D') else (Inl (lf_error F), D'))))"

definition has_unreadable_sibling :: "log_faults \<Rightarrow> string \<Rightarrow> dir \<Rightarrow> bool" where
  "has_unreadable_sibling F path D \<longleftrightarrow>
     lf_list_dir F \<and> list_ex (\<lambda>(n, node). starts_with (path @ ''.unreadable'') n) D"

text \<open>A failure before the rename leaves the old file; a failure of the directory sync comes
  after it.\<close>

definition write_atomic ::
  "log_codec \<Rightarrow> log_faults \<Rightarrow> string \<Rightarrow> RecordDisk \<Rightarrow> dir \<Rightarrow> (string + unit) \<times> dir" where
  "write_atomic C F path disk D =
     (case record_to_json C disk of
        None \<Rightarrow> (Inl (lf_error F), D)
      | Some body \<Rightarrow>
        if \<not> lf_write F then (Inl (lf_error F), D)
        else
          (let D' = bt_insert path (Content body) D in
           if lf_sync_dir F then (Inr (), D') else (Inl (lf_error F), D')))"

section \<open>The record\<close>

record SubmittedTxLog =
  sl_path :: "string option"
  sl_inner :: Inner
  sl_attempts :: "(string \<times> nat) list"
  sl_blocked :: "string option"

definition unpersisted :: SubmittedTxLog where
  "unpersisted =
     \<lparr>sl_path = None, sl_inner = inner_new damaged, sl_attempts = [], sl_blocked = None\<rparr>"

text \<open>The sections \<open>open_with\<close> starts from, whether history was lost, and the genesis the file was
  last open on.\<close>

definition found_sections ::
  "log_faults \<Rightarrow> string \<Rightarrow> dir \<Rightarrow> Found \<Rightarrow> (string \<times> Section) list \<times> bool \<times> string option" where
  "found_sections F path D found =
     (case found of
        Record I \<Rightarrow>
          (bt_insert (in_genesis I) (in_current I) (in_previous I), in_history_lost I,
           Some (in_genesis I))
      | Missing \<Rightarrow> ([], has_unreadable_sibling F path D, None)
      | _ \<Rightarrow> ([], True, None))"

definition read_legacy :: "log_codec \<Rightarrow> log_faults \<Rightarrow> string \<Rightarrow> dir \<Rightarrow> Section option" where
  "read_legacy C F path D =
     (if LEGACY_FILE = path then None
      else case bt_get LEGACY_FILE D of
             None \<Rightarrow> None
           | Some NoAccess \<Rightarrow> Some damaged
           | Some (Content bytes) \<Rightarrow>
             if lf_read_legacy F then Some (from_legacy C bytes) else Some damaged)"

definition merge_legacy :: "Section option \<Rightarrow> (string \<times> Section) list \<Rightarrow> (string \<times> Section) list" where
  "merge_legacy legacy sections =
     (case legacy of
        None \<Rightarrow> sections
      | Some l \<Rightarrow>
        bt_insert LEGACY_GENESIS
          (absorb (case bt_get LEGACY_GENESIS sections of
                     None \<Rightarrow> section_default | Some s \<Rightarrow> s) l)
          sections)"

definition is_unsure :: "Section \<Rightarrow> bool" where
  "is_unsure s \<longleftrightarrow> sec_uncertain s \<or> sec_upgrade s \<noteq> None \<or> sec_evicted s \<noteq> []"

text \<open>The sections after the legacy file is merged, a damaged history marked and an upgraded profile
  bounded, with \<open>history_lost\<close>, \<open>upgraded\<close> and \<open>opened_on\<close>.\<close>

definition open_sections ::
  "log_codec \<Rightarrow> log_faults \<Rightarrow> string \<Rightarrow> dir \<Rightarrow> Found
     \<Rightarrow> (string \<times> Section) list \<times> bool \<times> bool \<times> string option" where
  "open_sections C F path D found =
     (let (sections0, history_lost, opened_on) = found_sections F path D found;
          legacy = read_legacy C F path D;
          migrating = legacy \<noteq> None;
          sections1 = merge_legacy legacy sections0;
          is_record = (case found of Record I \<Rightarrow> True | _ \<Rightarrow> False);
          dmg = found = Unparsable \<or> found = Unreadable \<or> history_lost;
          sections2 = (if dmg \<and> \<not> is_record
                       then map (\<lambda>(g, s). (g, s\<lparr>sec_uncertain := True\<rparr>)) sections1
                       else sections1);
          upgraded = found = Missing \<and> \<not> migrating \<and> \<not> history_lost
                       \<and> bt_get ENVELOPE_FILE D \<noteq> None;
          sections3 = (if upgraded
                       then bt_insert LEGACY_GENESIS (section_default\<lparr>sec_upgrade := Some []\<rparr>) sections2
                       else sections2)
      in (sections3, history_lost, upgraded, opened_on))"

text \<open>The in-memory record that \<open>open_with\<close> builds, before it is written.\<close>

definition open_inner ::
  "log_codec \<Rightarrow> log_faults \<Rightarrow> string \<Rightarrow> string \<Rightarrow> dir \<Rightarrow> Found \<Rightarrow> Inner" where
  "open_inner C F path genesis D found =
     (let (sections, history_lost, upgraded, opened_on) = open_sections C F path D found;
          made_current = opened_on \<noteq> Some genesis;
          current = (case bt_get genesis sections of
                       Some s \<Rightarrow> s
                     | None \<Rightarrow> section_default\<lparr>sec_uncertain := history_lost,
                                 sec_upgrade := if upgraded then Some [] else None\<rparr>);
          others = bt_remove genesis sections;
          other_unsure = list_ex (\<lambda>(g, s). is_unsure s) others;
          current' = (if made_current \<and> other_unsure \<and> \<not> sec_uncertain current
                         \<and> sec_upgrade current = None
                      then current\<lparr>sec_upgrade := Some []\<rparr> else current)
      in \<lparr>in_genesis = genesis, in_current = current', in_previous = others,
          in_history_lost = history_lost\<rparr>)"

definition open_with ::
  "log_codec \<Rightarrow> log_faults \<Rightarrow> string \<Rightarrow> string \<Rightarrow> dir \<Rightarrow> SubmittedTxLog \<times> dir" where
  "open_with C F path genesis0 D =
     (let genesis = to_ascii_lowercase genesis0;
          found = read_record C F path D;
          inner = open_inner C F path genesis D found;
          migrating = read_legacy C F path D \<noteq> None;
          broken = found = Unparsable \<or> found = Unreadable;
          (blocked, D1) =
            (if broken
             then case keep_aside F path ''unreadable'' D of
                    (Inr free, D') \<Rightarrow> (None, D')
                  | (Inl e, D') \<Rightarrow>
                      (Some (path @ '' could not be read or set aside, so it is not overwritten''), D')
             else (None, D));
          switched = (case found of Record I \<Rightarrow> in_genesis I \<noteq> genesis | _ \<Rightarrow> False);
          is_record = (case found of Record I \<Rightarrow> True | _ \<Rightarrow> False);
          write = \<not> is_record \<or> migrating \<or> switched;
          (inner', D2) =
            (if write \<and> blocked = None
             then case write_atomic C F path (inner_to_disk inner) D1 of
                    (Inr _, D') \<Rightarrow>
                      (inner, if migrating then snd (set_aside F LEGACY_FILE ''migrated'' D') else D')
                  | (Inl e, D') \<Rightarrow>
                      (if found = Missing
                       then inner\<lparr>in_current := (in_current inner)\<lparr>sec_uncertain := True\<rparr>\<rparr>
                       else inner, D')
             else (inner, D1))
      in (\<lparr>sl_path = Some path, sl_inner = inner', sl_attempts = [], sl_blocked = blocked\<rparr>, D2))"

definition log_persist ::
  "log_codec \<Rightarrow> log_faults \<Rightarrow> SubmittedTxLog \<Rightarrow> Inner \<Rightarrow> dir \<Rightarrow> (string + unit) \<times> dir" where
  "log_persist C F L next D =
     (case sl_blocked L of
        Some why \<Rightarrow> (Inl why, D)
      | None \<Rightarrow>
        (case sl_path L of
           None \<Rightarrow> (Inr (), D)
         | Some path \<Rightarrow>
           (case write_atomic C F path (inner_to_disk next) D of
              (Inl e, D') \<Rightarrow> (Inl (''could not write '' @ path @ '': '' @ e), D')
            | (Inr u, D') \<Rightarrow> (Inr (), D'))))"

definition count_attempt :: "string \<Rightarrow> SubmittedTxLog \<Rightarrow> SubmittedTxLog" where
  "count_attempt hash L =
     L\<lparr>sl_attempts :=
         bt_insert hash
           (((case bt_get hash (sl_attempts L) of None \<Rightarrow> 0 | Some n \<Rightarrow> n) + 1) mod 2 ^ 32)
           (sl_attempts L)\<rparr>"

definition sole_attempt :: "SubmittedTxLog \<Rightarrow> string \<Rightarrow> bool" where
  "sole_attempt L hash \<longleftrightarrow> bt_get (to_ascii_lowercase hash) (sl_attempts L) = Some 1"

text \<open>A re-send of forgotten bytes brings their entry back as the latest one.\<close>

definition revive :: "string \<Rightarrow> CallMeta option \<Rightarrow> nat option \<Rightarrow> Inner \<Rightarrow> Inner" where
  "revive hash call now I =
     (let es = sec_entries (in_current I) in
      case find (\<lambda>e. e_hash e = hash) es of
        None \<Rightarrow> I
      | Some e \<Rightarrow>
        (let e1 = e\<lparr>e_forgotten := False\<rparr>;
             e2 = (case call of
                     None \<Rightarrow> e1
                   | Some c \<Rightarrow> e1\<lparr>e_to := Some (to_ascii_lowercase (cm_to c)),
                                  e_selector := Some (to_ascii_lowercase (cm_selector c))\<rparr>);
             e3 = e2\<lparr>e_at_ms := (case now of Some t \<Rightarrow> Some t | None \<Rightarrow> e_at_ms e2)\<rparr>;
             rest = takeWhile (\<lambda>e. e_hash e \<noteq> hash) es @ tl (dropWhile (\<lambda>e. e_hash e \<noteq> hash) es)
         in I\<lparr>in_current := (in_current I)\<lparr>sec_entries := rest @ [e3]\<rparr>\<rparr>))"

definition new_entry ::
  "string \<Rightarrow> (string \<times> nat) option \<Rightarrow> CallMeta option \<Rightarrow> nat option \<Rightarrow> Entry" where
  "new_entry hash origin call now =
     \<lparr>e_hash = hash, e_sender = map_option fst origin, e_nonce = map_option snd origin,
      e_to = map_option (\<lambda>c. to_ascii_lowercase (cm_to c)) call,
      e_selector = map_option (\<lambda>c. to_ascii_lowercase (cm_selector c)) call,
      e_at_ms = (case call of None \<Rightarrow> None | Some c \<Rightarrow> now), e_forgotten = False\<rparr>"

text \<open>\<open>bound.entry(sender).or_insert(nonce)\<close> for the first fetched-nonce send of a sender.\<close>

definition set_bound :: "(string \<times> nat) option \<Rightarrow> NonceSource \<Rightarrow> Section \<Rightarrow> Section" where
  "set_bound origin source s =
     (case (sec_upgrade s, origin, source) of
        (Some bound, Some (sender, nonce), Fetched) \<Rightarrow>
          (case bt_get sender bound of
             Some b \<Rightarrow> s
           | None \<Rightarrow> s\<lparr>sec_upgrade := Some (bt_insert sender nonce bound)\<rparr>)
      | _ \<Rightarrow> s)"

definition push_entry :: "Entry \<Rightarrow> Section \<Rightarrow> Section" where
  "push_entry e s = evict_to_capacity (s\<lparr>sec_entries := sec_entries s @ [e]\<rparr>)"

definition record_entry ::
  "log_codec \<Rightarrow> log_faults \<Rightarrow> string \<Rightarrow> (string \<times> nat) option \<Rightarrow> NonceSource \<Rightarrow> CallMeta option
     \<Rightarrow> nat option \<Rightarrow> SubmittedTxLog \<Rightarrow> dir \<Rightarrow> (string + bool) \<times> SubmittedTxLog \<times> dir" where
  "record_entry C F hash0 origin0 source call now L D =
     (let hash = to_ascii_lowercase hash0;
          origin = map_option (\<lambda>(s, n). (to_ascii_lowercase s, n)) origin0;
          g = sl_inner L
      in
      if contains (in_current g) hash then
        (if list_ex (\<lambda>e. e_hash e = hash \<and> e_forgotten e) (sec_entries (in_current g)) then
           (let next = revive hash call now g in
            case log_persist C F L next D of
              (Inl e, D') \<Rightarrow> (Inl e, L, D')
            | (Inr u, D') \<Rightarrow> (Inr False, count_attempt hash (L\<lparr>sl_inner := next\<rparr>), D'))
         else (Inr False, count_attempt hash L, D))
      else
        (let first = absent_is_first (in_current g) origin source
                       \<and> \<not> sent_on_a_previous_network g hash;
             next = g\<lparr>in_current :=
                        push_entry (new_entry hash origin call now)
                          (set_bound origin source (in_current g))\<rparr>
         in case log_persist C F L next D of
              (Inl e, D') \<Rightarrow> (Inl e, L, D')
            | (Inr u, D') \<Rightarrow> (Inr first, count_attempt hash (L\<lparr>sl_inner := next\<rparr>), D')))"

definition try_record_for ::
  "log_codec \<Rightarrow> log_faults \<Rightarrow> string \<Rightarrow> string \<Rightarrow> nat \<Rightarrow> nat option \<Rightarrow> SubmittedTxLog \<Rightarrow> dir
     \<Rightarrow> (string + bool) \<times> SubmittedTxLog \<times> dir" where
  "try_record_for C F hash sender nonce now L D =
     record_entry C F hash (Some (sender, nonce)) Supplied None now L D"

definition try_record_call ::
  "log_codec \<Rightarrow> log_faults \<Rightarrow> string \<Rightarrow> string \<Rightarrow> nat \<Rightarrow> NonceSource \<Rightarrow> CallMeta option \<Rightarrow> nat option
     \<Rightarrow> SubmittedTxLog \<Rightarrow> dir \<Rightarrow> (string + bool) \<times> SubmittedTxLog \<times> dir" where
  "try_record_call C F hash sender nonce source call now L D =
     record_entry C F hash (Some (sender, nonce)) source call now L D"

definition latest_call :: "SubmittedTxLog \<Rightarrow> string \<Rightarrow> CallMeta \<Rightarrow> RecordedCall option" where
  "latest_call L sender call =
     (case find (\<lambda>e. e_sender e = Some (to_ascii_lowercase sender)
                   \<and> e_to e = Some (to_ascii_lowercase (cm_to call))
                   \<and> e_selector e = Some (to_ascii_lowercase (cm_selector call)))
             (rev (sec_entries (in_current (sl_inner L)))) of
        None \<Rightarrow> None
      | Some e \<Rightarrow>
        if e_forgotten e then None
        else Some \<lparr>rc_hash = e_hash e, rc_nonce = e_nonce e, rc_at_ms = e_at_ms e\<rparr>)"

definition forget ::
  "log_codec \<Rightarrow> log_faults \<Rightarrow> string \<Rightarrow> SubmittedTxLog \<Rightarrow> dir
     \<Rightarrow> (string + bool) \<times> SubmittedTxLog \<times> dir" where
  "forget C F hash0 L D =
     (let hash = to_ascii_lowercase hash0; g = sl_inner L in
      if contains (in_current g) hash then
        (let next = g\<lparr>in_current := (in_current g)
                        \<lparr>sec_entries := update_first (\<lambda>e. e_hash e = hash) (\<lambda>e. e\<lparr>e_forgotten := True\<rparr>)
                                          (sec_entries (in_current g))\<rparr>\<rparr>
         in case log_persist C F L next D of
              (Inl e, D') \<Rightarrow> (Inl e, L, D')
            | (Inr u, D') \<Rightarrow> (Inr True, L\<lparr>sl_inner := next\<rparr>, D'))
      else (Inr False, L, D))"

definition log_len :: "SubmittedTxLog \<Rightarrow> nat" where
  "log_len L = length (sec_entries (in_current (sl_inner L)))"

definition log_is_empty :: "SubmittedTxLog \<Rightarrow> bool" where
  "log_is_empty L \<longleftrightarrow> log_len L = 0"

definition is_uncertain :: "SubmittedTxLog \<Rightarrow> bool" where
  "is_uncertain L \<longleftrightarrow>
     sec_uncertain (in_current (sl_inner L)) \<or> sec_upgrade (in_current (sl_inner L)) \<noteq> None"

end
