(* ===== verification/SubmittedLogStore.thy ===== *)
theory SubmittedLogStore
  imports SubmittedLog
begin

text \<open>
  Facts on the sections and files of the submitted-transaction record. \<open>orig\<close> gives the sender and
  nonce that the signed bytes behind a hash fix. \<open>known\<close> says that a section remembers a sent hash
  for good, \<open>bounded\<close> that an upgrade bound covers one sent before records were kept; both survive
  every operation, eviction and merging included, and both rule out a first submission. What is
  written to the file is read back unchanged.
\<close>

type_synonym origins = "string \<Rightarrow> string \<times> nat"

section \<open>What a section remembers\<close>

definition known :: "origins \<Rightarrow> Section \<Rightarrow> string \<Rightarrow> bool" where
  "known orig s h \<longleftrightarrow>
     contains s h \<or> sec_uncertain s \<or>
     (\<exists>hw. bt_get (fst (orig h)) (sec_evicted s) = Some hw \<and> snd (orig h) \<le> hw)"

definition bounded :: "origins \<Rightarrow> Section \<Rightarrow> string \<Rightarrow> bool" where
  "bounded orig s h \<longleftrightarrow>
     known orig s h \<or>
     (\<exists>bound. sec_upgrade s = Some bound \<and>
        (\<forall>b. bt_get (fst (orig h)) bound = Some b \<longrightarrow> snd (orig h) \<le> b))"

lemma known_bounded: "known orig s h \<Longrightarrow> bounded orig s h"
  by (simp add: bounded_def)

lemma bounded_not_first:
  assumes "bounded orig s h" and "\<not> contains s h"
  shows "\<not> absent_is_first s (Some (orig h)) source"
  using assms
  by (cases "orig h"; cases source)
    (auto simp: bounded_def known_def absent_is_first_def above_bound_def split: option.splits)

text \<open>The entries agree with the signed bytes; names are lower case; the maps are ordered; the
  capacity is kept.\<close>

definition marks_wf :: "marks \<Rightarrow> bool" where
  "marks_wf m \<longleftrightarrow> bt_wf m \<and> (\<forall>k\<in>fst ` set m. to_ascii_lowercase k = k)"

definition entry_wf :: "origins \<Rightarrow> Entry \<Rightarrow> bool" where
  "entry_wf orig e \<longleftrightarrow>
     lowercased e = e \<and>
     (\<forall>s n. e_sender e = Some s \<and> e_nonce e = Some n \<longrightarrow> orig (e_hash e) = (s, n))"

definition section_wf :: "origins \<Rightarrow> Section \<Rightarrow> bool" where
  "section_wf orig s \<longleftrightarrow>
     list_all (entry_wf orig) (sec_entries s) \<and> marks_wf (sec_evicted s) \<and>
     pred_option marks_wf (sec_upgrade s)"

definition section_ok :: "origins \<Rightarrow> Section \<Rightarrow> bool" where
  "section_ok orig s \<longleftrightarrow>
     section_wf orig s \<and> length (sec_entries s) \<le> CAPACITY \<and>
     distinct (map e_hash (sec_entries s))"

lemma CAPACITY_pos [simp]: "0 < CAPACITY"
  by (simp add: CAPACITY_def)

section \<open>Marks\<close>

lemma marks_wf_Nil [simp]: "marks_wf []"
  by (simp add: marks_wf_def)

lemma raise_mark_wf: "marks_wf m \<Longrightarrow> to_ascii_lowercase k = k \<Longrightarrow> marks_wf (raise_mark k v m)"
  by (auto simp: marks_wf_def raise_mark_def bt_wf_insert fst_set_bt_insert)

lemma insert_mark_wf: "marks_wf m \<Longrightarrow> to_ascii_lowercase k = k \<Longrightarrow> marks_wf (bt_insert k v m)"
  by (auto simp: marks_wf_def bt_wf_insert fst_set_bt_insert)

lemma get_raise_mark:
  "bt_wf m \<Longrightarrow> bt_get k' (raise_mark k v m) =
     (if k' = k then Some (case bt_get k m of None \<Rightarrow> v | Some hw \<Rightarrow> max hw v) else bt_get k' m)"
  by (simp add: raise_mark_def bt_get_insert)

lemma raise_mark_mono:
  assumes "bt_wf m" and "bt_get k' m = Some a"
  shows "\<exists>b. bt_get k' (raise_mark k v m) = Some b \<and> a \<le> b"
  using assms by (auto simp: get_raise_mark)

lemma raise_mark_get: "bt_wf m \<Longrightarrow> \<exists>b. bt_get k (raise_mark k v m) = Some b \<and> v \<le> b"
  by (auto simp: get_raise_mark split: option.splits)

lemma merge_marks_wf: "marks_wf m \<Longrightarrow> marks_wf other \<Longrightarrow> marks_wf (merge_marks other m)"
proof (induction other arbitrary: m)
  case Nil
  then show ?case by (simp add: merge_marks_def)
next
  case (Cons kv other)
  obtain k v where kv: "kv = (k, v)" by force
  from Cons.prems kv have "to_ascii_lowercase k = k" and o: "marks_wf other"
    by (auto simp: marks_wf_def bt_wf_def)
  then have "marks_wf (merge_marks other (raise_mark k v m))"
    using Cons by (simp add: raise_mark_wf)
  then show ?case by (simp add: merge_marks_def kv)
qed

lemma merge_marks_left:
  "bt_wf m \<Longrightarrow> bt_get k m = Some a \<Longrightarrow> \<exists>b. bt_get k (merge_marks other m) = Some b \<and> a \<le> b"
proof (induction other arbitrary: m a)
  case Nil
  then show ?case by (simp add: merge_marks_def)
next
  case (Cons kv other)
  obtain k' v where kv: "kv = (k', v)" by force
  obtain a' where "bt_get k (raise_mark k' v m) = Some a'" and "a \<le> a'"
    using raise_mark_mono Cons.prems by blast
  moreover have "bt_wf (raise_mark k' v m)" using Cons.prems by (simp add: raise_mark_def bt_wf_insert)
  ultimately obtain b where "bt_get k (merge_marks other (raise_mark k' v m)) = Some b" and "a' \<le> b"
    using Cons.IH by blast
  with \<open>a \<le> a'\<close> show ?case by (auto simp: merge_marks_def kv)
qed

lemma merge_marks_right:
  "bt_wf m \<Longrightarrow> bt_get k other = Some a \<Longrightarrow> \<exists>b. bt_get k (merge_marks other m) = Some b \<and> a \<le> b"
proof (induction other arbitrary: m)
  case Nil
  then show ?case by (simp add: bt_get_def)
next
  case (Cons kv other)
  obtain k' v where kv: "kv = (k', v)" by force
  have wf: "bt_wf (raise_mark k' v m)" using Cons.prems by (simp add: raise_mark_def bt_wf_insert)
  show ?case
  proof (cases "k = k'")
    case True
    with Cons.prems kv have "a = v" by (simp add: bt_get_def)
    with True raise_mark_get [of m k' v] Cons.prems obtain a' where
      "bt_get k (raise_mark k' v m) = Some a'" "a \<le> a'" by auto
    from merge_marks_left [OF wf this(1), of other] this(2) show ?thesis
      by (auto simp: merge_marks_def kv)
  next
    case False
    with Cons.prems kv have "bt_get k other = Some a" by (simp add: bt_get_def)
    with Cons.IH wf show ?thesis by (auto simp: merge_marks_def kv)
  qed
qed

lemma merge_bounds_get:
  "bt_get k (merge_bounds a b) =
     (case (bt_get k a, bt_get k b) of (Some n, Some m) \<Rightarrow> Some (max n m) | _ \<Rightarrow> None)"
  if "distinct (map fst a)" for a
  using that
proof (induction a)
  case (Cons x a)
  obtain s n where x: "x = (s, n)" by force
  from Cons show ?case
    by (auto simp: merge_bounds_def List.map_filter_simps bt_get_def x split: option.splits)
qed (simp add: merge_bounds_def List.map_filter_simps bt_get_def)

lemma merge_bounds_sorted: "bt_wf a \<Longrightarrow> bt_wf (merge_bounds a b) \<and> fst ` set (merge_bounds a b) \<subseteq> fst ` set a"
proof (induction a)
  case (Cons x a)
  obtain s n where x: "x = (s, n)" by force
  from Cons have "bt_wf a" by (simp add: bt_wf_def)
  with Cons.IH have IH: "bt_wf (merge_bounds a b)" "fst ` set (merge_bounds a b) \<subseteq> fst ` set a"
    by auto
  have lt: "\<forall>k\<in>fst ` set a. s < k" using Cons.prems by (auto simp: bt_wf_def x)
  have "merge_bounds (x # a) b =
      (case bt_get s b of None \<Rightarrow> merge_bounds a b | Some m \<Rightarrow> (s, max n m) # merge_bounds a b)"
    by (simp add: merge_bounds_def List.map_filter_simps x split: option.splits)
  moreover have "\<forall>k\<in>fst ` set (merge_bounds a b). s < k" using lt IH(2) by blast
  ultimately show ?case using IH by (auto simp: bt_wf_def x split: option.splits)
qed (simp add: merge_bounds_def List.map_filter_simps)

lemma merge_bounds_wf: "marks_wf a \<Longrightarrow> marks_wf (merge_bounds a b)"
  using merge_bounds_sorted [of a b] unfolding marks_wf_def by blast

lemma bt_insert_last: "(\<And>k'. k' \<in> fst ` set m \<Longrightarrow> k' < k) \<Longrightarrow> bt_insert k v m = m @ [(k, v)]"
proof (induction m)
  case (Cons x m)
  then show ?case by (cases x) (auto dest: less_asym)
qed simp

lemma bt_get_absent: "(\<And>k'. k' \<in> fst ` set m \<Longrightarrow> k' < k) \<Longrightarrow> bt_get k m = None" for k :: "'k::linorder"
  by (auto simp: bt_get_def map_of_eq_None_iff)

lemma raise_mark_last: "(\<And>k'. k' \<in> fst ` set m \<Longrightarrow> k' < k) \<Longrightarrow> raise_mark k v m = m @ [(k, v)]"
  by (simp add: raise_mark_def bt_get_absent bt_insert_last)

lemma merge_marks_snoc: "merge_marks (xs @ [(k, v)]) m = raise_mark k v (merge_marks xs m)"
  by (simp add: merge_marks_def)

lemma merge_marks_Nil: "bt_wf m \<Longrightarrow> merge_marks m [] = m"
proof (induction m rule: rev_induct)
  case (snoc x m)
  obtain k v where x: "x = (k, v)" by force
  from snoc.prems have "bt_wf m" by (simp add: bt_wf_def sorted_wrt_append)
  moreover from snoc.prems x have "\<And>k'. k' \<in> fst ` set m \<Longrightarrow> k' < k"
    by (auto simp: bt_wf_def sorted_wrt_append)
  ultimately show ?case using snoc.IH by (simp add: x merge_marks_snoc raise_mark_last)
qed (simp add: merge_marks_def)

lemma lower_keys_merge: "lower_keys m = merge_marks (map (\<lambda>(k, v). (to_ascii_lowercase k, v)) m) []"
  by (simp add: lower_keys_def merge_marks_def foldl_map case_prod_unfold)

lemma lower_keys_id: "marks_wf m \<Longrightarrow> lower_keys m = m"
proof -
  assume m: "marks_wf m"
  have "map (\<lambda>(k, v). (to_ascii_lowercase k, v)) m = m"
    using m by (intro map_idI) (force simp: marks_wf_def)
  with m show ?thesis by (simp add: lower_keys_merge merge_marks_Nil marks_wf_def)
qed

lemma foldl_marks_wf:
  "marks_wf m \<Longrightarrow> marks_wf (foldl (\<lambda>out (k, v). raise_mark (to_ascii_lowercase k) v out) m xs)"
  by (induction xs arbitrary: m) (auto simp: raise_mark_wf)

lemma lower_keys_wf: "marks_wf (lower_keys m)"
  by (simp add: lower_keys_def foldl_marks_wf)

section \<open>Sections that are less sure\<close>

text \<open>\<open>less_sure t s\<close>: nothing that \<open>s\<close> leaves open is settled by \<open>t\<close>. Marks and bounds only grow,
  and a bound that is there stays there.\<close>

definition marks_le :: "marks \<Rightarrow> marks \<Rightarrow> bool" where
  "marks_le m m' \<longleftrightarrow>
     (\<forall>k a. bt_get k m = Some a \<longrightarrow> (\<exists>b. bt_get k m' = Some b \<and> a \<le> b)) \<and> (m' = [] \<longrightarrow> m = [])"

definition bound_le :: "marks option \<Rightarrow> marks option \<Rightarrow> bool" where
  "bound_le u u' \<longleftrightarrow>
     (\<forall>m. u = Some m \<longrightarrow>
        (\<exists>m'. u' = Some m' \<and>
           (\<forall>k b'. bt_get k m' = Some b' \<longrightarrow> (\<exists>b. bt_get k m = Some b \<and> b \<le> b'))))"

definition less_sure :: "Section \<Rightarrow> Section \<Rightarrow> bool" where
  "less_sure t s \<longleftrightarrow>
     (sec_uncertain s \<longrightarrow> sec_uncertain t) \<and> marks_le (sec_evicted s) (sec_evicted t) \<and>
     bound_le (sec_upgrade s) (sec_upgrade t)"

lemma marks_le_refl [simp]: "marks_le m m"
  by (auto simp: marks_le_def)

lemma marks_le_trans: "marks_le a b \<Longrightarrow> marks_le b c \<Longrightarrow> marks_le a c"
  unfolding marks_le_def by (meson order_trans)

lemma bound_le_refl [simp]: "bound_le u u"
  by (auto simp: bound_le_def)

lemma bound_le_trans:
  assumes "bound_le a b" and "bound_le b c"
  shows "bound_le a c"
  unfolding bound_le_def
proof (intro allI impI)
  fix m assume "a = Some m"
  with assms(1) obtain m' where b: "b = Some m'"
    and le: "\<forall>k b'. bt_get k m' = Some b' \<longrightarrow> (\<exists>b. bt_get k m = Some b \<and> b \<le> b')"
    by (auto simp: bound_le_def)
  with assms(2) obtain m'' where c: "c = Some m''"
    and le': "\<forall>k b'. bt_get k m'' = Some b' \<longrightarrow> (\<exists>b. bt_get k m' = Some b \<and> b \<le> b')"
    by (auto simp: bound_le_def)
  have "\<exists>b. bt_get k m = Some b \<and> b \<le> b'" if "bt_get k m'' = Some b'" for k b'
  proof -
    obtain d where "bt_get k m' = Some d" "d \<le> b'" using le' \<open>bt_get k m'' = Some b'\<close> by blast
    moreover obtain e where "bt_get k m = Some e" "e \<le> d" using le calculation(1) by blast
    ultimately show ?thesis by simp
  qed
  with c show "\<exists>m'. c = Some m' \<and>
      (\<forall>k b'. bt_get k m' = Some b' \<longrightarrow> (\<exists>b. bt_get k m = Some b \<and> b \<le> b'))"
    by blast
qed

lemma less_sure_refl [simp]: "less_sure s s"
  by (simp add: less_sure_def)

lemma less_sure_trans: "less_sure u t \<Longrightarrow> less_sure t s \<Longrightarrow> less_sure u s"
  unfolding less_sure_def by (blast intro: marks_le_trans bound_le_trans)

lemma less_sure_first:
  assumes "less_sure t s" and "absent_is_first t origin source"
  shows "absent_is_first s origin source"
proof -
  have "\<not> sec_uncertain s" using assms by (auto simp: less_sure_def absent_is_first_def)
  moreover have "above_bound m origin source" if "sec_upgrade s = Some m" for m
    using assms that
    by (fastforce simp: less_sure_def bound_le_def absent_is_first_def above_bound_def
        split: option.splits prod.splits NonceSource.splits if_splits)
  moreover have "case origin of
      Some (sender, nonce) \<Rightarrow> (case bt_get sender (sec_evicted s) of None \<Rightarrow> True | Some hw \<Rightarrow> hw < nonce)
    | None \<Rightarrow> sec_evicted s = []"
    using assms
    by (fastforce simp: less_sure_def marks_le_def absent_is_first_def
        split: option.splits prod.splits if_splits)
  ultimately show ?thesis by (auto simp: absent_is_first_def split: option.splits)
qed

lemma less_sure_known:
  assumes "less_sure t s" and "known orig s h"
  shows "known orig t h \<or> contains s h"
  using assms unfolding known_def less_sure_def marks_le_def by (meson order_trans)

lemma less_sure_bounded:
  assumes "less_sure t s" and "bounded orig s h"
  shows "bounded orig t h \<or> contains s h"
proof (cases "known orig s h")
  case True
  with less_sure_known [OF assms(1)] show ?thesis by (auto simp: bounded_def)
next
  case False
  with assms(2) obtain m where m: "sec_upgrade s = Some m"
    and "\<forall>b. bt_get (fst (orig h)) m = Some b \<longrightarrow> snd (orig h) \<le> b"
    by (auto simp: bounded_def)
  moreover from assms(1) m obtain m' where "sec_upgrade t = Some m'"
    and "\<forall>k b'. bt_get k m' = Some b' \<longrightarrow> (\<exists>b. bt_get k m = Some b \<and> b \<le> b')"
    by (auto simp: less_sure_def bound_le_def)
  ultimately have "\<forall>b. bt_get (fst (orig h)) m' = Some b \<longrightarrow> snd (orig h) \<le> b"
    by (metis order_trans)
  with \<open>sec_upgrade t = Some m'\<close> show ?thesis by (simp add: bounded_def)
qed

lemma raise_mark_not_Nil [simp]: "raise_mark k v m \<noteq> []"
  by (cases "(k, v, m)" rule: bt_insert.cases) (auto simp: raise_mark_def)

lemma raise_mark_le: "bt_wf m \<Longrightarrow> marks_le m (raise_mark k v m)"
  using raise_mark_mono by (auto simp: marks_le_def)

lemma merge_marks_Cons: "merge_marks ((k, v) # other) m = merge_marks other (raise_mark k v m)"
  by (simp add: merge_marks_def)

lemma merge_marks_not_Nil: "m \<noteq> [] \<Longrightarrow> merge_marks other m \<noteq> []"
proof (induction other arbitrary: m)
  case (Cons kv other)
  then show ?case by (cases kv) (simp only: merge_marks_Cons raise_mark_not_Nil not_False_eq_True)
qed (simp add: merge_marks_def)

lemma merge_marks_le_left: "bt_wf m \<Longrightarrow> marks_le m (merge_marks other m)"
proof -
  assume wf: "bt_wf m"
  have "m = []" if "merge_marks other m = []"
    using that merge_marks_not_Nil [of m other] by (cases "m = []") auto
  then show ?thesis
    unfolding marks_le_def using merge_marks_left [OF wf] by auto
qed

lemma merge_marks_le_right: "bt_wf m \<Longrightarrow> marks_le other (merge_marks other m)"
  unfolding marks_le_def
proof (intro conjI allI impI)
  show "\<exists>b. bt_get k (merge_marks other m) = Some b \<and> a \<le> b"
    if "bt_wf m" and "bt_get k other = Some a" for k a
    using that by (rule merge_marks_right)
  show "other = []" if "merge_marks other m = []"
  proof (cases other)
    case (Cons kv xs)
    have "merge_marks other m = merge_marks xs (raise_mark (fst kv) (snd kv) m)"
      by (simp add: merge_marks_def Cons case_prod_unfold)
    with that merge_marks_not_Nil [of "raise_mark (fst kv) (snd kv) m" xs] show ?thesis by simp
  qed
qed

section \<open>Eviction\<close>

lemma evict_entry_wf:
  assumes "section_wf orig s" and "entry_wf orig e"
  shows "section_wf orig (evict_entry e s)"
proof -
  have "to_ascii_lowercase k = k" if "e_sender e = Some k" for k
    using assms(2) that by (cases e) (auto simp: entry_wf_def lowercased_def)
  with assms show ?thesis
    by (auto simp: evict_entry_def section_wf_def raise_mark_wf split: option.splits)
qed

lemma evict_entry_known:
  assumes "section_wf orig s" and "known orig s h"
  shows "known orig (evict_entry e s) h"
proof -
  have wf: "bt_wf (sec_evicted s)" using assms(1) by (simp add: section_wf_def marks_wf_def)
  show ?thesis
    using assms(2) raise_mark_mono [OF wf]
    by (fastforce simp: known_def evict_entry_def contains_def split: option.splits)
qed

lemma evict_entry_self:
  assumes "section_wf orig s" and "entry_wf orig e"
  shows "known orig (evict_entry e s) (e_hash e)"
proof -
  have wf: "bt_wf (sec_evicted s)" using assms(1) by (simp add: section_wf_def marks_wf_def)
  show ?thesis
    using assms(2) raise_mark_get [OF wf]
    by (auto simp: known_def evict_entry_def entry_wf_def split: option.splits)
qed

lemma evict_entry_upgrade [simp]: "sec_upgrade (evict_entry e s) = sec_upgrade s"
  by (simp add: evict_entry_def split: option.splits)

lemma evict_entry_less_sure: "bt_wf (sec_evicted s) \<Longrightarrow> less_sure (evict_entry e s) s"
  by (auto simp: less_sure_def evict_entry_def raise_mark_le split: option.splits)

lemma evict_to_capacity_small [simp]: "length (sec_entries s) \<le> CAPACITY \<Longrightarrow> evict_to_capacity s = s"
  by (subst evict_to_capacity.simps) simp

lemma evict_step:
  "CAPACITY < length (sec_entries s) \<Longrightarrow>
   evict_to_capacity s =
     evict_to_capacity (evict_entry (hd (sec_entries s)) (s\<lparr>sec_entries := tl (sec_entries s)\<rparr>))"
  by (subst evict_to_capacity.simps) simp

lemma evict_to_capacity_rule:
  assumes keep: "\<And>e s. Q (s\<lparr>sec_entries := e # sec_entries s\<rparr>) \<Longrightarrow> Q (evict_entry e s)"
  shows "Q s \<Longrightarrow> Q (evict_to_capacity s)"
proof (induction s rule: evict_to_capacity.induct)
  case (1 s)
  show ?case
  proof (cases "CAPACITY < length (sec_entries s)")
    case True
    then have ne: "sec_entries s = hd (sec_entries s) # tl (sec_entries s)"
      by (cases "sec_entries s") auto
    have "Q ((s\<lparr>sec_entries := tl (sec_entries s)\<rparr>)
            \<lparr>sec_entries := hd (sec_entries s) # sec_entries (s\<lparr>sec_entries := tl (sec_entries s)\<rparr>)\<rparr>)"
      using "1.prems" ne by simp
    from keep [OF this] show ?thesis
      using "1.IH" True by (simp add: evict_step)
  qed (use "1.prems" in simp)
qed

lemma section_wf_Cons:
  "section_wf orig (s\<lparr>sec_entries := e # sec_entries s\<rparr>) \<longleftrightarrow> entry_wf orig e \<and> section_wf orig s"
  by (auto simp: section_wf_def)

lemma absent_is_first_entries [simp]:
  "absent_is_first (s\<lparr>sec_entries := es\<rparr>) origin source = absent_is_first s origin source"
  by (auto simp: absent_is_first_def split: option.splits)

lemma evict_wf: "section_wf orig s \<Longrightarrow> section_wf orig (evict_to_capacity s)"
  by (rule evict_to_capacity_rule [where Q = "section_wf orig"])
    (auto intro: evict_entry_wf simp only: section_wf_Cons)

lemma evict_known:
  assumes "section_wf orig s" and "known orig s h"
  shows "known orig (evict_to_capacity s) h"
proof -
  have "section_wf orig (evict_to_capacity s) \<and> known orig (evict_to_capacity s) h"
  proof (rule evict_to_capacity_rule [where Q = "\<lambda>s. section_wf orig s \<and> known orig s h"])
    fix e s
    assume a: "section_wf orig (s\<lparr>sec_entries := e # sec_entries s\<rparr>) \<and>
               known orig (s\<lparr>sec_entries := e # sec_entries s\<rparr>) h"
    then have wf: "section_wf orig s" "entry_wf orig e" by (auto simp: section_wf_def)
    have "known orig s h \<or> h = e_hash e" using a by (auto simp: known_def contains_def)
    then show "section_wf orig (evict_entry e s) \<and> known orig (evict_entry e s) h"
      using wf evict_entry_wf evict_entry_known evict_entry_self by blast
  qed (use assms in simp)
  then show ?thesis by simp
qed

lemma evict_upgrade [simp]: "sec_upgrade (evict_to_capacity s) = sec_upgrade s"
  by (rule evict_to_capacity_rule [where Q = "\<lambda>t. sec_upgrade t = sec_upgrade s"]) auto

lemma evict_less_sure:
  assumes "section_wf orig s"
  shows "less_sure (evict_to_capacity s) s"
proof -
  have "section_wf orig (evict_to_capacity s) \<and> less_sure (evict_to_capacity s) s"
  proof (rule evict_to_capacity_rule [where Q = "\<lambda>t. section_wf orig t \<and> less_sure t s"])
    fix e and t :: Section
    assume a: "section_wf orig (t\<lparr>sec_entries := e # sec_entries t\<rparr>) \<and>
      less_sure (t\<lparr>sec_entries := e # sec_entries t\<rparr>) s"
    then have wf: "section_wf orig t" "entry_wf orig e" and "less_sure t s"
      by (auto simp: section_wf_Cons less_sure_def)
    then show "section_wf orig (evict_entry e t) \<and> less_sure (evict_entry e t) s"
      using evict_entry_wf [OF wf] evict_entry_less_sure [of t e] less_sure_trans
      by (auto simp: section_wf_def marks_wf_def)
  qed (use assms in simp)
  then show ?thesis by simp
qed

lemma evict_entries: "\<exists>k. sec_entries (evict_to_capacity s) = drop k (sec_entries s)"
proof (rule evict_to_capacity_rule [where Q = "\<lambda>t. \<exists>k. sec_entries t = drop k (sec_entries s)"])
  fix e and t :: Section
  assume "\<exists>k. sec_entries (t\<lparr>sec_entries := e # sec_entries t\<rparr>) = drop k (sec_entries s)"
  then obtain k where "e # sec_entries t = drop k (sec_entries s)" by auto
  then have "sec_entries t = drop (Suc k) (sec_entries s)"
    by (metis drop_Suc drop_tl list.sel(3))
  then show "\<exists>k. sec_entries (evict_entry e t) = drop k (sec_entries s)"
    by (intro exI [of _ "Suc k"]) simp
qed (intro exI [of _ 0], simp)

lemma evict_length: "length (sec_entries (evict_to_capacity s)) \<le> CAPACITY"
proof (induction s rule: evict_to_capacity.induct)
  case (1 s)
  then show ?case by (cases "CAPACITY < length (sec_entries s)") (simp_all add: evict_step)
qed

lemma evict_ok:
  assumes "section_wf orig s" and "distinct (map e_hash (sec_entries s))"
  shows "section_ok orig (evict_to_capacity s)"
proof -
  obtain k where "sec_entries (evict_to_capacity s) = drop k (sec_entries s)"
    using evict_entries by blast
  then have "distinct (map e_hash (sec_entries (evict_to_capacity s)))"
    using assms(2) by (simp add: drop_map [symmetric])
  then show ?thesis
    using assms(1) unfolding section_ok_def by (simp add: evict_wf evict_length)
qed

lemma evict_keeps_last:
  assumes "sec_entries s = es @ [e]"
  shows "e \<in> set (sec_entries (evict_to_capacity s))"
proof -
  have "sec_entries s \<noteq> [] \<and> last (sec_entries s) = e \<longrightarrow>
     e \<in> set (sec_entries (evict_to_capacity s))"
  proof (induction s rule: evict_to_capacity.induct)
    case (1 s)
    show ?case
    proof (cases "CAPACITY < length (sec_entries s)")
      case True
      then have "tl (sec_entries s) \<noteq> []" by (cases "sec_entries s") (auto simp: CAPACITY_def)
      then have "last (tl (sec_entries s)) = last (sec_entries s)" by (simp add: last_tl)
      with "1" True \<open>tl (sec_entries s) \<noteq> []\<close> show ?thesis by (auto simp: evict_step)
    qed (auto simp: not_less)
  qed
  with assms show ?thesis by simp
qed

section \<open>Merging\<close>

lemma contains_append [simp]:
  "contains (s\<lparr>sec_entries := sec_entries s @ [e]\<rparr>) h \<longleftrightarrow> contains s h \<or> e_hash e = h"
  by (auto simp: contains_def)

lemma contains_iff: "contains s h \<longleftrightarrow> h \<in> e_hash ` set (sec_entries s)"
  by (auto simp: contains_def list_ex_iff)

lemma absorb_entries_Cons:
  "absorb_entries (e # es) s =
     absorb_entries es (if contains s (e_hash e) then s
                        else s\<lparr>sec_entries := sec_entries s @ [e]\<rparr>)"
  by (simp add: absorb_entries_def)

lemma absorb_entries_other [simp]:
  "sec_evicted (absorb_entries es s) = sec_evicted s"
  "sec_uncertain (absorb_entries es s) = sec_uncertain s"
  "sec_upgrade (absorb_entries es s) = sec_upgrade s"
  by (induction es arbitrary: s; simp add: absorb_entries_Cons absorb_entries_def [of "[]"])+

lemma absorb_entries_contains:
  "contains (absorb_entries es s) h \<longleftrightarrow> contains s h \<or> h \<in> e_hash ` set es"
proof (induction es arbitrary: s)
  case (Cons e es)
  then show ?case by (auto simp: absorb_entries_Cons)
qed (simp add: absorb_entries_def)

lemma absorb_entries_set: "set (sec_entries (absorb_entries es s)) \<subseteq> set (sec_entries s) \<union> set es"
proof (induction es arbitrary: s)
  case (Cons e es)
  show ?case
    using Cons [of s] Cons [of "s\<lparr>sec_entries := sec_entries s @ [e]\<rparr>"]
    by (auto simp: absorb_entries_Cons split: if_splits)
qed (simp add: absorb_entries_def)

lemma absorb_entries_distinct:
  "distinct (map e_hash (sec_entries s)) \<Longrightarrow> distinct (map e_hash (sec_entries (absorb_entries es s)))"
proof (induction es arbitrary: s)
  case (Cons e es)
  then show ?case by (simp add: absorb_entries_Cons contains_iff)
qed (simp add: absorb_entries_def)

lemma absorb_entries_fresh:
  "distinct (map e_hash (sec_entries s @ es)) \<Longrightarrow>
   sec_entries (absorb_entries es s) = sec_entries s @ es"
proof (induction es arbitrary: s)
  case (Cons e es)
  then show ?case by (auto simp: absorb_entries_Cons contains_iff)
qed (simp add: absorb_entries_def)

text \<open>The merged section before eviction.\<close>

definition joined :: "Section \<Rightarrow> Section \<Rightarrow> Section" where
  "joined s other =
     \<lparr>sec_entries = sec_entries (absorb_entries (sec_entries other) s),
      sec_evicted = merge_marks (sec_evicted other) (sec_evicted s),
      sec_uncertain = (sec_uncertain s \<or> sec_uncertain other),
      sec_upgrade =
        (case (sec_upgrade s, sec_upgrade other) of
           (None, b) \<Rightarrow> b
         | (a, None) \<Rightarrow> a
         | (Some a, Some b) \<Rightarrow> Some (merge_bounds a b))\<rparr>"

lemma absorb_joined: "absorb s other = evict_to_capacity (joined s other)"
  unfolding absorb_def joined_def Let_def
  by (rule arg_cong [of _ _ evict_to_capacity])
    (rule Section.equality; simp split: option.splits)

lemma joined_wf:
  assumes "section_wf orig s" and "section_wf orig other"
  shows "section_wf orig (joined s other)"
proof -
  have "list_all (entry_wf orig) (sec_entries (absorb_entries (sec_entries other) s))"
    using assms absorb_entries_set [of "sec_entries other" s]
    by (auto simp: section_wf_def list_all_iff)
  moreover have "pred_option marks_wf (sec_upgrade (joined s other))"
    using assms
    by (auto simp: joined_def section_wf_def merge_bounds_wf split: option.splits)
  ultimately show ?thesis
    using assms by (simp add: section_wf_def joined_def merge_marks_wf)
qed

lemma bound_le_joined:
  assumes "section_wf orig s" and "section_wf orig other"
  shows "bound_le (sec_upgrade s) (sec_upgrade (joined s other))"
    and "bound_le (sec_upgrade other) (sec_upgrade (joined s other))"
proof -
  have "distinct (map fst a)" if "sec_upgrade s = Some a" for a
    using assms(1) that by (intro bt_wf_distinct) (simp add: section_wf_def marks_wf_def)
  then show "bound_le (sec_upgrade s) (sec_upgrade (joined s other))"
    and "bound_le (sec_upgrade other) (sec_upgrade (joined s other))"
    by (auto simp: bound_le_def joined_def merge_bounds_get split: option.splits)
qed

lemma joined_less_sure:
  assumes "section_wf orig s" and "section_wf orig other"
  shows "less_sure (joined s other) s" and "less_sure (joined s other) other"
proof -
  have "bt_wf (sec_evicted s)" using assms by (simp add: section_wf_def marks_wf_def)
  then show "less_sure (joined s other) s" and "less_sure (joined s other) other"
    using bound_le_joined [OF assms]
    by (auto simp: less_sure_def joined_def merge_marks_le_left merge_marks_le_right)
qed

lemma joined_contains: "contains (joined s other) h \<longleftrightarrow> contains s h \<or> contains other h"
  using absorb_entries_contains [of "sec_entries other" s h]
  by (simp add: joined_def contains_iff)

lemma absorb_less_sure:
  assumes "section_wf orig s" and "section_wf orig other"
  shows "less_sure (absorb s other) s" and "less_sure (absorb s other) other"
  using evict_less_sure [OF joined_wf [OF assms]] joined_less_sure [OF assms] less_sure_trans
  by (auto simp: absorb_joined)

lemma absorb_wf:
  "section_wf orig s \<Longrightarrow> section_wf orig other \<Longrightarrow> section_wf orig (absorb s other)"
  by (simp add: absorb_joined evict_wf joined_wf)

lemma absorb_ok:
  assumes "section_ok orig s" and "section_wf orig other"
  shows "section_ok orig (absorb s other)"
proof -
  have "distinct (map e_hash (sec_entries (joined s other)))"
    using assms(1) by (simp add: joined_def section_ok_def absorb_entries_distinct)
  moreover have "section_wf orig (joined s other)"
    using assms by (simp add: joined_wf section_ok_def)
  ultimately show ?thesis by (simp add: absorb_joined evict_ok)
qed

lemma absorb_known:
  assumes "section_wf orig s" and "section_wf orig other"
    and "known orig s h \<or> known orig other h"
  shows "known orig (absorb s other) h"
proof -
  have "known orig (joined s other) h"
    using assms(3) joined_less_sure [OF assms(1,2)] less_sure_known joined_contains
    unfolding known_def by blast
  then show ?thesis by (simp add: absorb_joined evict_known joined_wf assms)
qed

lemma evict_bounded:
  assumes "section_wf orig s" and "bounded orig s h"
  shows "bounded orig (evict_to_capacity s) h"
  using assms evict_known by (auto simp: bounded_def)

lemma absorb_bounded:
  assumes "section_wf orig s" and "section_wf orig other"
    and "bounded orig s h \<or> bounded orig other h"
  shows "bounded orig (absorb s other) h"
proof -
  have "bounded orig (joined s other) h"
    using assms(3) joined_less_sure [OF assms(1,2)] less_sure_bounded joined_contains
    unfolding bounded_def known_def by blast
  then show ?thesis by (simp add: absorb_joined evict_bounded joined_wf assms)
qed

lemma section_default_simps [simp]:
  "sec_entries section_default = []" "sec_evicted section_default = []"
  "sec_uncertain section_default = False" "sec_upgrade section_default = None"
  by (simp_all add: section_default_def)

lemma section_default_ok [simp]: "section_ok orig section_default"
  by (simp add: section_ok_def section_wf_def)

lemma section_ok_wf: "section_ok orig s \<Longrightarrow> section_wf orig s"
  by (simp add: section_ok_def)

lemma absorb_default: "section_ok orig s \<Longrightarrow> absorb section_default s = s"
  by (cases s)
    (simp add: absorb_joined joined_def absorb_entries_fresh section_ok_def section_wf_def marks_wf_def
       merge_marks_Nil)

end
