(* ===== verification/SubmittedLogRun.thy ===== *)
theory SubmittedLogRun
  imports SubmittedLogStore
begin

text \<open>
  The submitted-transaction record over whole histories: opening, recording, forgetting, crashes,
  switches of the network, damaged files and files of older builds, with any file access failing.
  The ghost state is the set of hashes handed to the node, per network. The main result: an answer
  \<open>Ok(true)\<close> means that these bytes were never sent on this network before.
\<close>

section \<open>Files\<close>

definition section_disk_wf :: "SectionDisk \<Rightarrow> bool" where
  "section_disk_wf d \<longleftrightarrow> bt_wf (sd_evicted d) \<and> pred_option bt_wf (sd_upgrade_bound d)"

definition disk_wf :: "RecordDisk \<Rightarrow> bool" where
  "disk_wf d \<longleftrightarrow> section_disk_wf (rd_current d) \<and> list_all section_disk_wf (rd_previous_networks d)"

text \<open>serde: what was encoded decodes to the same value.\<close>

definition log_codec_law :: "log_codec \<Rightarrow> bool" where
  "log_codec_law C \<longleftrightarrow>
     (\<forall>d b. disk_wf d \<and> record_to_json C d = Some b \<longrightarrow> record_from_json C b = Some d)"

definition inner_ok :: "origins \<Rightarrow> Inner \<Rightarrow> bool" where
  "inner_ok orig I \<longleftrightarrow>
     to_ascii_lowercase (in_genesis I) = in_genesis I \<and> section_ok orig (in_current I) \<and>
     bt_wf (in_previous I) \<and>
     (\<forall>(g, s)\<in>set (in_previous I). to_ascii_lowercase g = g \<and> section_ok orig s) \<and>
     in_genesis I \<notin> fst ` set (in_previous I)"

lemma entries_lowercased: "list_all (entry_wf orig) es \<Longrightarrow> map lowercased es = es"
  by (induction es) (auto simp: entry_wf_def)

lemma section_roundtrip:
  assumes "section_ok orig s" and "to_ascii_lowercase g = g"
  shows "section_from_disk (section_to_disk g s) = (g, s)"
proof -
  have wf: "list_all (entry_wf orig) (sec_entries s)" "marks_wf (sec_evicted s)"
    "pred_option marks_wf (sec_upgrade s)" "length (sec_entries s) \<le> CAPACITY"
    using assms(1) by (auto simp: section_ok_def section_wf_def)
  have "map_option lower_keys (sec_upgrade s) = sec_upgrade s"
    using wf(3) by (cases "sec_upgrade s") (simp_all add: lower_keys_id)
  then show ?thesis
    using assms wf entries_lowercased [OF wf(1)]
    by (cases s) (simp add: section_from_disk_def section_to_disk_def lower_keys_id)
qed

lemma section_to_disk_wf: "section_ok orig s \<Longrightarrow> section_disk_wf (section_to_disk g s)"
  by (cases "sec_upgrade s")
    (simp_all add: section_disk_wf_def section_to_disk_def section_ok_def section_wf_def marks_wf_def)

lemma inner_to_disk_wf: "inner_ok orig I \<Longrightarrow> disk_wf (inner_to_disk I)"
  by (auto simp: disk_wf_def inner_to_disk_def inner_ok_def list_all_iff
      intro: section_to_disk_wf [of orig])

lemma add_sections:
  assumes "bt_wf (ps @ qs)" and "in_genesis I \<notin> fst ` set qs" and "in_previous I = ps"
    and "\<forall>(g, s)\<in>set qs. to_ascii_lowercase g = g \<and> section_ok orig s"
  shows "foldl (\<lambda>I p. add_section p I) I (map (\<lambda>(g, s). section_to_disk g s) qs)
           = I\<lparr>in_previous := ps @ qs\<rparr>"
  using assms
proof (induction qs arbitrary: ps I)
  case (Cons q qs)
  obtain g s where q: "q = (g, s)" by force
  have ok: "section_ok orig s" "to_ascii_lowercase g = g" and ne: "g \<noteq> in_genesis I"
    using Cons.prems q by auto
  have lt: "\<And>k. k \<in> fst ` set ps \<Longrightarrow> k < g"
    using Cons.prems(1) by (auto simp: bt_wf_def sorted_wrt_append q)
  have "add_section (section_to_disk g s) I = I\<lparr>in_previous := ps @ [(g, s)]\<rparr>"
  proof -
    have "bt_get g ps = None" by (rule bt_get_absent) (rule lt)
    moreover have "bt_insert g s ps = ps @ [(g, s)]" by (rule bt_insert_last) (rule lt)
    ultimately show ?thesis
      using ne Cons.prems(3) section_roundtrip [OF ok]
      by (simp add: add_section_def absorb_default [OF ok(1)])
  qed
  moreover have "foldl (\<lambda>I p. add_section p I) (I\<lparr>in_previous := ps @ [(g, s)]\<rparr>)
      (map (\<lambda>(g, s). section_to_disk g s) qs) = I\<lparr>in_previous := (ps @ [(g, s)]) @ qs\<rparr>"
    using Cons.IH [of "ps @ [(g, s)]" "I\<lparr>in_previous := ps @ [(g, s)]\<rparr>"] Cons.prems by (simp add: q)
  ultimately show ?case by (simp add: q)
qed (cases I, simp)

lemma parse_written:
  assumes "log_codec_law C" and "inner_ok orig I" and "record_to_json C (inner_to_disk I) = Some b"
  shows "parse_record C b = Some I"
proof -
  have "record_from_json C b = Some (inner_to_disk I)"
    using assms inner_to_disk_wf by (auto simp: log_codec_law_def)
  moreover have "section_from_disk (section_to_disk (in_genesis I) (in_current I))
      = (in_genesis I, in_current I)"
    using assms(2) by (intro section_roundtrip [of orig]) (auto simp: inner_ok_def)
  ultimately show ?thesis
    using assms(2) add_sections [of "[]" "in_previous I" _ orig]
    by (simp add: parse_record_def inner_to_disk_def inner_new_def inner_ok_def)
qed

section \<open>What is remembered\<close>

type_synonym sends = "string \<Rightarrow> string set"

text \<open>The section a network would get: a network the record does not hold is uncertain once
  history was lost.\<close>

definition section_of :: "Inner \<Rightarrow> string \<Rightarrow> Section" where
  "section_of I g =
     (if g = in_genesis I then in_current I
      else case bt_get g (in_previous I) of
             Some s \<Rightarrow> s
           | None \<Rightarrow> section_default\<lparr>sec_uncertain := in_history_lost I\<rparr>)"

definition remembers :: "origins \<Rightarrow> Inner \<Rightarrow> sends \<Rightarrow> sends \<Rightarrow> bool" where
  "remembers orig I S P \<longleftrightarrow>
     (\<forall>g h. (h \<in> S g \<longrightarrow> known orig (section_of I g) h) \<and>
            (h \<in> P g \<longrightarrow> bounded orig (section_of I g) h))"

definition legacy_has :: "log_codec \<Rightarrow> dir \<Rightarrow> (Section \<Rightarrow> bool) \<Rightarrow> bool" where
  "legacy_has C D Q \<longleftrightarrow>
     (case bt_get LEGACY_FILE D of
        None \<Rightarrow> False | Some NoAccess \<Rightarrow> True | Some (Content b) \<Rightarrow> Q (from_legacy C b))"

definition dir_remembers :: "log_codec \<Rightarrow> origins \<Rightarrow> dir \<Rightarrow> sends \<Rightarrow> sends \<Rightarrow> bool" where
  "dir_remembers C orig D S P \<longleftrightarrow>
     (case bt_get RECORD_FILE D of
        None \<Rightarrow>
          (\<forall>g h. (h \<in> S g \<longrightarrow> g = LEGACY_GENESIS \<and> legacy_has C D (\<lambda>s. known orig s h)) \<and>
                 (h \<in> P g \<longrightarrow> g = LEGACY_GENESIS \<and>
                    (legacy_has C D (\<lambda>s. bounded orig s h) \<or>
                     bt_get LEGACY_FILE D = None \<and> bt_get ENVELOPE_FILE D \<noteq> None)))
      | Some NoAccess \<Rightarrow> True
      | Some (Content b) \<Rightarrow>
          (case parse_record C b of
             None \<Rightarrow> True
           | Some I \<Rightarrow>
               inner_ok orig I \<and>
               (\<forall>g h. (h \<in> S g \<longrightarrow> known orig (section_of I g) h \<or>
                         g = LEGACY_GENESIS \<and> legacy_has C D (\<lambda>s. known orig s h)) \<and>
                      (h \<in> P g \<longrightarrow> bounded orig (section_of I g) h \<or>
                         g = LEGACY_GENESIS \<and> legacy_has C D (\<lambda>s. bounded orig s h)))))"

text \<open>A record whose history was lost and that holds no section for the network of the older builds:
  merging a legacy file into it would start that section as certain. The histories below exclude a
  legacy file that claims certainty at such a moment.\<close>

definition holds_legacy :: "Inner \<Rightarrow> bool" where
  "holds_legacy I \<longleftrightarrow>
     in_genesis I = LEGACY_GENESIS \<or> bt_get LEGACY_GENESIS (in_previous I) \<noteq> None"

definition legacy_gap :: "log_codec \<Rightarrow> dir \<Rightarrow> bool" where
  "legacy_gap C D \<longleftrightarrow>
     (case bt_get RECORD_FILE D of
        Some (Content b) \<Rightarrow>
          (case parse_record C b of
             Some I \<Rightarrow> in_history_lost I \<and> \<not> holds_legacy I | None \<Rightarrow> False)
      | _ \<Rightarrow> False)"

definition dir_ok :: "log_codec \<Rightarrow> origins \<Rightarrow> dir \<Rightarrow> sends \<Rightarrow> sends \<Rightarrow> bool" where
  "dir_ok C orig D S P \<longleftrightarrow>
     bt_wf D \<and> (bt_get LEGACY_FILE D \<noteq> None \<longrightarrow> legacy_has C D (section_wf orig)) \<and>
     (legacy_gap C D \<and> bt_get LEGACY_FILE D \<noteq> None \<longrightarrow> legacy_has C D sec_uncertain) \<and>
     dir_remembers C orig D S P"

section \<open>Opening\<close>

definition sections_ok :: "origins \<Rightarrow> (string \<times> Section) list \<Rightarrow> bool" where
  "sections_ok orig secs \<longleftrightarrow>
     bt_wf secs \<and> (\<forall>(g, s)\<in>set secs. to_ascii_lowercase g = g \<and> section_ok orig s)"

definition lookup :: "(string \<times> Section) list \<Rightarrow> bool \<Rightarrow> string \<Rightarrow> Section" where
  "lookup secs lost g =
     (case bt_get g secs of Some s \<Rightarrow> s | None \<Rightarrow> section_default\<lparr>sec_uncertain := lost\<rparr>)"

definition all_remembered :: "origins \<Rightarrow> (string \<Rightarrow> Section) \<Rightarrow> sends \<Rightarrow> sends \<Rightarrow> bool" where
  "all_remembered orig f S P \<longleftrightarrow>
     (\<forall>g h. (h \<in> S g \<longrightarrow> known orig (f g) h) \<and> (h \<in> P g \<longrightarrow> bounded orig (f g) h))"

lemma remembers_all: "remembers orig I S P \<longleftrightarrow> all_remembered orig (section_of I) S P"
  by (simp add: remembers_def all_remembered_def)

lemma uncertain_known [simp]: "sec_uncertain s \<Longrightarrow> known orig s h"
  by (simp add: known_def)

lemma uncertain_bounded [simp]: "sec_uncertain s \<Longrightarrow> bounded orig s h"
  by (simp add: bounded_def)

lemma sections_ok_Nil [simp]: "sections_ok orig []"
  by (simp add: sections_ok_def)

lemma sections_ok_insert:
  assumes "sections_ok orig secs" and "to_ascii_lowercase g = g" and "section_ok orig s"
  shows "sections_ok orig (bt_insert g s secs)"
  using assms set_bt_insert [of g s secs] by (fastforce simp: sections_ok_def bt_wf_insert)

lemma sections_ok_remove: "sections_ok orig secs \<Longrightarrow> sections_ok orig (bt_remove g secs)"
  using set_bt_remove [of g secs] by (auto simp: sections_ok_def bt_wf_remove)

lemma sections_ok_get: "sections_ok orig secs \<Longrightarrow> bt_get g secs = Some s \<Longrightarrow> section_ok orig s"
  by (auto simp: sections_ok_def bt_get_def dest: map_of_SomeD)

lemma section_ok_uncertain [simp]:
  "section_ok orig (s\<lparr>sec_uncertain := u\<rparr>) = section_ok orig s"
  by (simp add: section_ok_def section_wf_def)

lemma section_ok_bounded: "section_ok orig s \<Longrightarrow> section_ok orig (s\<lparr>sec_upgrade := Some []\<rparr>)"
  by (simp add: section_ok_def section_wf_def)

lemma section_ok_no_bound: "section_ok orig s \<Longrightarrow> section_ok orig (s\<lparr>sec_upgrade := None\<rparr>)"
  by (simp add: section_ok_def section_wf_def)

lemma bt_wf_map_snd: "bt_wf (map (\<lambda>(g, s). (g, f s)) m) = bt_wf m"
  by (simp add: bt_wf_def comp_def case_prod_unfold)

lemma bt_get_map_snd: "bt_get g (map (\<lambda>(g, s). (g, f s)) m) = map_option f (bt_get g m)"
  by (induction m) (auto simp: bt_get_def)

lemma sections_ok_mark:
  "sections_ok orig secs \<Longrightarrow>
   sections_ok orig (map (\<lambda>(g, s). (g, s\<lparr>sec_uncertain := True\<rparr>)) secs)"
  by (auto simp: sections_ok_def bt_wf_map_snd)

lemma LEGACY_GENESIS_lower [simp]: "to_ascii_lowercase LEGACY_GENESIS = LEGACY_GENESIS"
  by code_simp

lemma merge_legacy_ok:
  assumes "sections_ok orig secs" and "pred_option (section_wf orig) legacy"
  shows "sections_ok orig (merge_legacy legacy secs)"
proof (cases legacy)
  case (Some l)
  have "section_ok orig (case bt_get LEGACY_GENESIS secs of None \<Rightarrow> section_default | Some s \<Rightarrow> s)"
    using sections_ok_get [OF assms(1)] by (auto split: option.splits)
  with Some assms show ?thesis
    by (auto simp: merge_legacy_def intro!: sections_ok_insert absorb_ok)
qed (simp add: merge_legacy_def assms)

lemma merge_legacy_keeps:
  assumes ok: "sections_ok orig secs" and l: "pred_option (section_wf orig) legacy"
    and gap: "\<And>m. legacy = Some m \<Longrightarrow> lost \<Longrightarrow> bt_get LEGACY_GENESIS secs = None \<Longrightarrow> sec_uncertain m"
  shows "known orig (lookup secs lost g) h \<Longrightarrow> known orig (lookup (merge_legacy legacy secs) lost g) h"
    and "bounded orig (lookup secs lost g) h \<Longrightarrow> bounded orig (lookup (merge_legacy legacy secs) lost g) h"
    and "legacy = Some m \<Longrightarrow> known orig m h \<Longrightarrow> known orig (lookup (merge_legacy legacy secs) lost LEGACY_GENESIS) h"
    and "legacy = Some m \<Longrightarrow> bounded orig m h \<Longrightarrow> bounded orig (lookup (merge_legacy legacy secs) lost LEGACY_GENESIS) h"
proof -
  define d where "d = (case bt_get LEGACY_GENESIS secs of None \<Rightarrow> section_default | Some s \<Rightarrow> s)"
  have wf: "section_wf orig d"
    using sections_ok_get [OF ok] by (auto simp: d_def section_ok_wf split: option.splits)
  have bt: "bt_wf secs" using ok by (simp add: sections_ok_def)
  have look: "lookup (merge_legacy legacy secs) lost g =
      (case legacy of Some m \<Rightarrow> if g = LEGACY_GENESIS then absorb d m else lookup secs lost g
       | None \<Rightarrow> lookup secs lost g)" for g
    by (auto simp: lookup_def merge_legacy_def bt_get_insert [OF bt] d_def split: option.splits)
  have new: "known orig (absorb d m) h" if "legacy = Some m" "known orig m h" for m h
    using that absorb_known [OF wf, of m] l by simp
  have old: "known orig (absorb d m) h" if "legacy = Some m" "known orig (lookup secs lost LEGACY_GENESIS) h" for m h
  proof (cases "bt_get LEGACY_GENESIS secs")
    case None
    with that have lost by (cases lost) (auto simp: lookup_def known_def contains_def bt_get_def section_default_def)
    with that gap None new show ?thesis by auto
  next
    case (Some a)
    with that show ?thesis using absorb_known [OF wf, of m] l by (simp add: lookup_def d_def)
  qed
  have newb: "bounded orig (absorb d m) h" if "legacy = Some m" "bounded orig m h" for m h
    using that absorb_bounded [OF wf, of m] l by simp
  have oldb: "bounded orig (absorb d m) h" if "legacy = Some m" "bounded orig (lookup secs lost LEGACY_GENESIS) h" for m h
  proof (cases "bt_get LEGACY_GENESIS secs")
    case None
    with that have lost
      by (cases lost) (auto simp: lookup_def bounded_def known_def contains_def bt_get_def section_default_def)
    with that gap None new show ?thesis by (auto intro: known_bounded)
  next
    case (Some a)
    with that show ?thesis using absorb_bounded [OF wf, of m] l by (simp add: lookup_def d_def)
  qed
  show "known orig (lookup (merge_legacy legacy secs) lost g) h" if "known orig (lookup secs lost g) h"
    using that old by (auto simp: look split: option.splits)
  show "bounded orig (lookup (merge_legacy legacy secs) lost g) h" if "bounded orig (lookup secs lost g) h"
    using that oldb by (auto simp: look split: option.splits)
  show "known orig (lookup (merge_legacy legacy secs) lost LEGACY_GENESIS) h"
    if "legacy = Some m" and "known orig m h" using new [OF that] look [of LEGACY_GENESIS] that(1) by simp
  show "bounded orig (lookup (merge_legacy legacy secs) lost LEGACY_GENESIS) h"
    if "legacy = Some m" and "bounded orig m h" using newb [OF that] look [of LEGACY_GENESIS] that(1) by simp
qed

lemma read_legacy_has:
  assumes "bt_get LEGACY_FILE D \<noteq> None \<longrightarrow> legacy_has C D (section_wf orig)"
  shows "pred_option (section_wf orig) (read_legacy C F RECORD_FILE D)"
    and "bt_get LEGACY_FILE D \<noteq> None \<longleftrightarrow> read_legacy C F RECORD_FILE D \<noteq> None"
    and "legacy_has C D Q \<Longrightarrow> Q damaged \<Longrightarrow> \<exists>l. read_legacy C F RECORD_FILE D = Some l \<and> Q l"
  using assms
  by (auto simp: read_legacy_def legacy_has_def LEGACY_FILE_def RECORD_FILE_def damaged_def
      section_wf_def split: option.splits fnode.splits)

lemma damaged_uncertain [simp]: "sec_uncertain damaged"
  by (simp add: damaged_def)

lemma lookup_uncertain_all:
  assumes "secs = (if c then map (\<lambda>(g, s). (g, s\<lparr>sec_uncertain := True\<rparr>)) secs0 else secs0)" and c
  shows "sec_uncertain (lookup secs True g)"
  using assms by (auto simp: lookup_def bt_get_map_snd split: option.splits)

text \<open>Stage one: the sections found, merged and marked hold everything that was remembered.\<close>

lemma open_sections_ok:
  assumes dir: "dir_ok C orig D S P"
    and found: "found = read_record C F RECORD_FILE D"
    and res: "open_sections C F RECORD_FILE D found = (secs, lost, upgraded, opened_on)"
  shows "sections_ok orig secs \<and> all_remembered orig (lookup secs lost) S P"
proof -
  let ?l = "read_legacy C F RECORD_FILE D"
  have leg: "bt_get LEGACY_FILE D \<noteq> None \<longrightarrow> legacy_has C D (section_wf orig)"
    and rem: "dir_remembers C orig D S P"
    using dir by (auto simp: dir_ok_def)
  note l = read_legacy_has [OF leg, where F = F]
  have lk: "\<exists>m. ?l = Some m \<and> known orig m h" if "legacy_has C D (\<lambda>s. known orig s h)" for h
    using l(3) [OF that] by simp
  have lb: "\<exists>m. ?l = Some m \<and> bounded orig m h" if "legacy_has C D (\<lambda>s. bounded orig s h)" for h
    using l(3) [OF that] by simp
  consider (parsed) I b where "found = Record I" "bt_get RECORD_FILE D = Some (Content b)" "parse_record C b = Some I"
    | (broken) "found = Unparsable \<or> found = Unreadable"
    | (missing) "found = Missing" "bt_get RECORD_FILE D = None"
    using found by (auto simp: read_record_def split: option.splits fnode.splits if_splits)
  then show ?thesis
  proof cases
    case parsed
    have I: "inner_ok orig I" and r: "\<And>g h. (h \<in> S g \<longrightarrow> known orig (section_of I g) h \<or>
                 g = LEGACY_GENESIS \<and> legacy_has C D (\<lambda>s. known orig s h)) \<and>
              (h \<in> P g \<longrightarrow> bounded orig (section_of I g) h \<or>
                 g = LEGACY_GENESIS \<and> legacy_has C D (\<lambda>s. bounded orig s h))"
      using rem parsed by (auto simp: dir_remembers_def)
    let ?s0 = "bt_insert (in_genesis I) (in_current I) (in_previous I)"
    have s0: "sections_ok orig ?s0"
      using I by (intro sections_ok_insert) (auto simp: inner_ok_def sections_ok_def)
    have secs: "secs = merge_legacy ?l ?s0" "lost = in_history_lost I"
      using res parsed by (auto simp: open_sections_def found_sections_def Let_def)
    have look: "lookup ?s0 lost g = section_of I g" for g
      using I by (auto simp: lookup_def section_of_def inner_ok_def bt_get_insert secs)
    have gap: "sec_uncertain m"
      if "?l = Some m" "lost" "bt_get LEGACY_GENESIS ?s0 = None" for m
    proof -
      have "legacy_gap C D"
        using that(2,3) I parsed
        by (auto simp: legacy_gap_def holds_legacy_def secs inner_ok_def bt_get_insert split: if_splits)
      with dir that(1) l(2) have "legacy_has C D sec_uncertain" by (auto simp: dir_ok_def)
      then obtain m' where "?l = Some m'" "sec_uncertain m'" using l(3) [of sec_uncertain] by auto
      with that(1) show ?thesis by simp
    qed
    note keep = merge_legacy_keeps [OF s0 l(1) gap]
    have "all_remembered orig (lookup secs lost) S P"
      unfolding all_remembered_def secs(1)
    proof (intro allI conjI impI)
      fix g h assume "h \<in> S g"
      then consider "known orig (lookup ?s0 lost g) h"
        | "g = LEGACY_GENESIS" "legacy_has C D (\<lambda>s. known orig s h)"
        using r look by auto
      then show "known orig (lookup (merge_legacy ?l ?s0) lost g) h"
        by cases (use keep(1,3) lk in blast)+
    next
      fix g h assume "h \<in> P g"
      then consider "bounded orig (lookup ?s0 lost g) h"
        | "g = LEGACY_GENESIS" "legacy_has C D (\<lambda>s. bounded orig s h)"
        using r look by auto
      then show "bounded orig (lookup (merge_legacy ?l ?s0) lost g) h"
        by cases (use keep(2,4) lb in blast)+
    qed
    with merge_legacy_ok [OF s0 l(1)] show ?thesis by (simp add: secs(1))
  next
    case broken
    then have "lost" and "secs = map (\<lambda>(g, s). (g, s\<lparr>sec_uncertain := True\<rparr>)) (merge_legacy ?l [])"
      using res by (auto simp: open_sections_def found_sections_def Let_def)
    then show ?thesis
      using lookup_uncertain_all [of secs True "merge_legacy ?l []"] merge_legacy_ok [OF _ l(1)]
      by (auto simp: all_remembered_def intro: sections_ok_mark)
  next
    case missing
    show ?thesis
    proof (cases "has_unreadable_sibling F RECORD_FILE D")
      case True
      then have "lost" and "secs = map (\<lambda>(g, s). (g, s\<lparr>sec_uncertain := True\<rparr>)) (merge_legacy ?l [])"
        using res missing by (auto simp: open_sections_def found_sections_def Let_def)
      then show ?thesis
        using lookup_uncertain_all [of secs True "merge_legacy ?l []"] merge_legacy_ok [OF _ l(1)]
        by (auto simp: all_remembered_def intro: sections_ok_mark)
    next
      case False
      have r: "h \<in> S g \<Longrightarrow> g = LEGACY_GENESIS \<and> legacy_has C D (\<lambda>s. known orig s h)"
        "h \<in> P g \<Longrightarrow> g = LEGACY_GENESIS \<and> (legacy_has C D (\<lambda>s. bounded orig s h) \<or>
           bt_get LEGACY_FILE D = None \<and> bt_get ENVELOPE_FILE D \<noteq> None)" for g h
        using rem missing(2) by (auto simp: dir_remembers_def)
      show ?thesis
      proof (cases ?l)
        case None
        then have noleg: "bt_get LEGACY_FILE D = None" using l(2) by auto
        then have "\<not> legacy_has C D Q" for Q by (simp add: legacy_has_def)
        then have S: "S g = {}" for g using r(1) by blast
        let ?new = "[(LEGACY_GENESIS, section_default\<lparr>sec_upgrade := Some []\<rparr>)]"
        have secs: "\<not> lost" "secs = (if bt_get ENVELOPE_FILE D \<noteq> None then ?new else [])"
          using res missing False None
          by (auto simp: open_sections_def found_sections_def Let_def merge_legacy_def)
        have "P g = {}" if "bt_get ENVELOPE_FILE D = None \<or> g \<noteq> LEGACY_GENESIS" for g
          using r(2) [of _ g] that \<open>\<And>Q. \<not> legacy_has C D Q\<close> by blast
        moreover have "bounded orig (section_default\<lparr>sec_upgrade := Some []\<rparr>) h" for h
          by (simp add: bounded_def bt_get_def)
        ultimately show ?thesis
          using S secs
          by (auto simp: all_remembered_def lookup_def bt_get_def sections_ok_def bt_wf_def
              intro!: section_ok_bounded)
      next
        case (Some m)
        then have leg': "bt_get LEGACY_FILE D \<noteq> None" using l(2) by auto
        have secs: "\<not> lost" "secs = merge_legacy ?l []"
          using res missing False Some by (auto simp: open_sections_def found_sections_def Let_def)
        have gap: "sec_uncertain m" if "?l = Some m" "lost" "bt_get LEGACY_GENESIS [] = None" for m
          using that(2) secs(1) by simp
        note keep = merge_legacy_keeps [OF sections_ok_Nil l(1) gap]
        have "all_remembered orig (lookup secs lost) S P"
          unfolding all_remembered_def secs(2)
        proof (intro allI conjI impI)
          fix g h assume "h \<in> S g"
          with r(1) lk obtain m' where "g = LEGACY_GENESIS" "?l = Some m'" "known orig m' h" by blast
          then show "known orig (lookup (merge_legacy ?l []) lost g) h" using keep(3) by blast
        next
          fix g h assume "h \<in> P g"
          from r(2) [OF this] leg' have g: "g = LEGACY_GENESIS"
            and "legacy_has C D (\<lambda>s. bounded orig s h)" by auto
          from lb [OF this(2)] obtain m' where "?l = Some m'" "bounded orig m' h" by blast
          with g show "bounded orig (lookup (merge_legacy ?l []) lost g) h" using keep(4) by blast
        qed
        then show ?thesis using merge_legacy_ok [OF _ l(1)] secs(2) by simp
      qed
    qed
  qed
qed

text \<open>Stage two: one section becomes current, the others the archive.\<close>

lemma open_inner_ok:
  assumes dir: "dir_ok C orig D S P" and low: "to_ascii_lowercase genesis = genesis"
    and found: "found = read_record C F RECORD_FILE D"
    and I: "I = open_inner C F RECORD_FILE genesis D found"
  shows "inner_ok orig I \<and> remembers orig I S P \<and> in_genesis I = genesis"
proof -
  obtain secs lost upgraded opened_on where
    os: "open_sections C F RECORD_FILE D found = (secs, lost, upgraded, opened_on)"
    by (cases "open_sections C F RECORD_FILE D found") auto
  have ok: "sections_ok orig secs" and rem: "all_remembered orig (lookup secs lost) S P"
    using open_sections_ok [OF dir found os] by auto
  define c where "c = (case bt_get genesis secs of
      Some s \<Rightarrow> s
    | None \<Rightarrow> section_default\<lparr>sec_uncertain := lost, sec_upgrade := if upgraded then Some [] else None\<rparr>)"
  define c' where "c' = (if opened_on \<noteq> Some genesis \<and> list_ex (\<lambda>(g, s). is_unsure s) (bt_remove genesis secs)
      \<and> \<not> sec_uncertain c \<and> sec_upgrade c = None then c\<lparr>sec_upgrade := Some []\<rparr> else c)"
  have I': "I = \<lparr>in_genesis = genesis, in_current = c', in_previous = bt_remove genesis secs,
      in_history_lost = lost\<rparr>"
    unfolding I open_inner_def os c'_def c_def by (simp add: Let_def)
  have "section_ok orig c"
    using sections_ok_get [OF ok] section_ok_bounded [of orig "section_default\<lparr>sec_uncertain := lost\<rparr>"]
      section_ok_no_bound [of orig "section_default\<lparr>sec_uncertain := lost\<rparr>"]
    by (auto simp: c_def split: option.splits)
  then have c': "section_ok orig c'" by (simp add: c'_def section_ok_bounded)
  have kn: "known orig c' h = known orig c h" for h
    by (simp add: c'_def known_def contains_def)
  have bd: "bounded orig c h \<Longrightarrow> bounded orig c' h" for h
    using kn by (auto simp: c'_def bounded_def)
  have "known orig (lookup secs lost genesis) h \<Longrightarrow> known orig c h"
    "bounded orig (lookup secs lost genesis) h \<Longrightarrow> bounded orig c h" for h
    by (auto simp: lookup_def c_def bounded_def known_def contains_def split: option.splits)
  moreover have "section_of I g = (if g = genesis then c' else lookup secs lost g)" for g
    by (simp add: section_of_def I' bt_get_remove lookup_def split: option.splits)
  ultimately have "all_remembered orig (section_of I) S P"
    using kn bd rem by (auto simp: all_remembered_def)
  moreover have "inner_ok orig I"
    using sections_ok_remove [OF ok, of genesis] c' low
    by (auto simp: inner_ok_def I' sections_ok_def bt_remove_def)
  ultimately show ?thesis by (simp add: remembers_all I')
qed

lemma open_holds_legacy:
  assumes leg: "read_legacy C F RECORD_FILE D \<noteq> None" and dir: "dir_ok C orig D S P"
    and found: "found = read_record C F RECORD_FILE D"
  shows "holds_legacy (open_inner C F RECORD_FILE genesis D found)"
proof -
  obtain secs lost upgraded opened_on where
    os: "open_sections C F RECORD_FILE D found = (secs, lost, upgraded, opened_on)"
    by (cases "open_sections C F RECORD_FILE D found") auto
  obtain s0 l o1 where fs: "found_sections F RECORD_FILE D found = (s0, l, o1)"
    by (cases "found_sections F RECORD_FILE D found") auto
  have "bt_wf s0"
    using fs dir found
    by (auto simp: found_sections_def dir_ok_def dir_remembers_def read_record_def inner_ok_def
        bt_wf_insert split: option.splits fnode.splits if_splits)
  then have "bt_get LEGACY_GENESIS (merge_legacy (read_legacy C F RECORD_FILE D) s0) \<noteq> None"
    using leg by (auto simp: merge_legacy_def bt_get_insert)
  then have "bt_get LEGACY_GENESIS secs \<noteq> None"
    using os leg
    by (auto simp: open_sections_def fs Let_def bt_get_map_snd split: if_splits)
  then show ?thesis
    by (auto simp: open_inner_def os Let_def holds_legacy_def bt_get_remove)
qed

section \<open>Writing\<close>

lemma file_names [simp]:
  "LEGACY_FILE \<noteq> RECORD_FILE" "ENVELOPE_FILE \<noteq> RECORD_FILE" "ENVELOPE_FILE \<noteq> LEGACY_FILE"
  "RECORD_FILE \<noteq> LEGACY_FILE" "RECORD_FILE \<noteq> ENVELOPE_FILE" "LEGACY_FILE \<noteq> ENVELOPE_FILE"
  by (simp_all add: LEGACY_FILE_def RECORD_FILE_def ENVELOPE_FILE_def)

lemma aside_names:
  "free_aside_name RECORD_FILE tag D = Some f \<Longrightarrow>
     f \<noteq> RECORD_FILE \<and> f \<noteq> LEGACY_FILE \<and> f \<noteq> ENVELOPE_FILE"
  "free_aside_name LEGACY_FILE tag D = Some f \<Longrightarrow>
     f \<noteq> RECORD_FILE \<and> f \<noteq> LEGACY_FILE \<and> f \<noteq> ENVELOPE_FILE"
  by (auto simp: free_aside_name_def aside_name_def RECORD_FILE_def LEGACY_FILE_def ENVELOPE_FILE_def
      dest!: find_Some_mem)

text \<open>A directory that agrees on the three files the record reads.\<close>

definition same_files :: "dir \<Rightarrow> dir \<Rightarrow> bool" where
  "same_files D D' \<longleftrightarrow>
     bt_wf D' \<and> bt_get RECORD_FILE D' = bt_get RECORD_FILE D \<and>
     bt_get LEGACY_FILE D' = bt_get LEGACY_FILE D \<and>
     (bt_get ENVELOPE_FILE D \<noteq> None \<longrightarrow> bt_get ENVELOPE_FILE D' \<noteq> None)"

lemma same_files_ok:
  assumes "same_files D D'" and "dir_ok C orig D S P"
  shows "dir_ok C orig D' S P"
proof -
  have leg: "legacy_has C D' Q = legacy_has C D Q" for Q
    using assms(1) by (simp add: legacy_has_def same_files_def)
  have "dir_remembers C orig D' S P"
    using assms unfolding dir_ok_def dir_remembers_def leg
    by (cases "bt_get RECORD_FILE D") (auto simp: same_files_def)
  then show ?thesis
    using assms by (simp add: dir_ok_def leg legacy_gap_def same_files_def)
qed

lemma keep_aside_same:
  assumes "bt_wf D"
  shows "same_files D (snd (keep_aside F RECORD_FILE tag D))"
  using assms aside_names(1) [of tag D]
  by (auto simp: keep_aside_def same_files_def bt_wf_insert bt_get_insert Let_def
      split: option.splits)

lemma written_ok:
  assumes law: "log_codec_law C" and wf: "bt_wf D" and I: "inner_ok orig I" "remembers orig I S P"
    and leg: "bt_get LEGACY_FILE D \<noteq> None \<longrightarrow> legacy_has C D (section_wf orig) \<and> holds_legacy I"
    and body: "record_to_json C (inner_to_disk I) = Some body"
  shows "dir_ok C orig (bt_insert RECORD_FILE (Content body) D) S P"
proof -
  let ?D = "bt_insert RECORD_FILE (Content body) D"
  have get: "bt_get RECORD_FILE ?D = Some (Content body)" "bt_get LEGACY_FILE ?D = bt_get LEGACY_FILE D"
    using wf by (simp_all add: bt_get_insert)
  then have lh: "legacy_has C ?D Q = legacy_has C D Q" for Q by (simp add: legacy_has_def)
  have p: "parse_record C body = Some I" by (rule parse_written [OF law I(1) body])
  show ?thesis
    unfolding dir_ok_def dir_remembers_def legacy_gap_def get lh
    using wf I leg p by (auto simp: bt_wf_insert remembers_def)
qed

lemma write_atomic_ok:
  assumes "log_codec_law C" and dir: "dir_ok C orig D S P" and "inner_ok orig I" "remembers orig I S' P"
    and "bt_get LEGACY_FILE D \<noteq> None \<longrightarrow> holds_legacy I" and sub: "\<And>g. S g \<subseteq> S' g"
    and w: "write_atomic C F RECORD_FILE (inner_to_disk I) D = (r, D')"
  shows "dir_ok C orig D' S P" and "r = Inr () \<Longrightarrow> dir_ok C orig D' S' P"
    and "bt_get LEGACY_FILE D' = bt_get LEGACY_FILE D"
proof -
  have wf: "bt_wf D" and leg: "bt_get LEGACY_FILE D \<noteq> None \<longrightarrow> legacy_has C D (section_wf orig)"
    using dir by (auto simp: dir_ok_def)
  have rS: "remembers orig I S P" using assms(4) sub by (auto simp: remembers_def)
  have "D' = D \<and> r \<noteq> Inr () \<or>
      (\<exists>body. record_to_json C (inner_to_disk I) = Some body \<and> D' = bt_insert RECORD_FILE (Content body) D)"
    using w by (auto simp: write_atomic_def Let_def split: option.splits if_splits)
  then show "dir_ok C orig D' S P" "r = Inr () \<Longrightarrow> dir_ok C orig D' S' P"
    "bt_get LEGACY_FILE D' = bt_get LEGACY_FILE D"
    using assms(1,3,4,5) dir rS wf leg by (auto intro: written_ok simp: bt_get_insert)
qed

lemma set_aside_ok:
  assumes dir: "dir_ok C orig D S P" and I: "bt_get RECORD_FILE D = Some (Content body)"
    "parse_record C body = Some I" "remembers orig I S P"
  shows "dir_ok C orig (snd (set_aside F LEGACY_FILE tag D)) S P"
proof -
  let ?D = "snd (set_aside F LEGACY_FILE tag D)"
  have "?D = D \<or> (bt_wf ?D \<and> bt_get RECORD_FILE ?D = bt_get RECORD_FILE D \<and> bt_get LEGACY_FILE ?D = None)"
    using dir aside_names(2) [of tag D]
    by (auto simp: set_aside_def dir_ok_def bt_wf_insert bt_wf_remove bt_get_insert bt_get_remove Let_def
        split: option.splits)
  moreover have "inner_ok orig I" using dir I by (auto simp: dir_ok_def dir_remembers_def)
  ultimately show ?thesis
    using dir I by (auto simp: dir_ok_def dir_remembers_def remembers_def)
qed

text \<open>The hashes an open record holds for its network are remembered by the files too.\<close>

definition held :: "Inner \<Rightarrow> sends" where
  "held I g = {h. g = in_genesis I \<and> contains (in_current I) h}"

definition log_ok :: "log_codec \<Rightarrow> origins \<Rightarrow> SubmittedTxLog \<Rightarrow> dir \<Rightarrow> sends \<Rightarrow> sends \<Rightarrow> bool" where
  "log_ok C orig L D S P \<longleftrightarrow>
     sl_path L = Some RECORD_FILE \<and> inner_ok orig (sl_inner L) \<and> remembers orig (sl_inner L) S P \<and>
     (bt_get LEGACY_FILE D \<noteq> None \<longrightarrow> holds_legacy (sl_inner L)) \<and>
     dir_ok C orig D (held (sl_inner L)) (\<lambda>_. {})"

lemma held_remembered: "remembers orig I (held I) (\<lambda>_. {})"
  by (simp add: remembers_def held_def section_of_def known_def)

lemma contains_evict: "contains (evict_to_capacity s) h \<Longrightarrow> contains s h"
proof -
  obtain k where "sec_entries (evict_to_capacity s) = drop k (sec_entries s)"
    using evict_entries by blast
  then have "set (sec_entries (evict_to_capacity s)) \<subseteq> set (sec_entries s)"
    by (simp add: set_drop_subset)
  then show "contains (evict_to_capacity s) h \<Longrightarrow> contains s h" by (auto simp: contains_iff)
qed

lemma contains_absorb: "contains (absorb a b) h \<Longrightarrow> contains a h \<or> contains b h"
  unfolding absorb_joined joined_contains [symmetric] by (rule contains_evict)

lemma contains_default [simp]: "\<not> contains section_default h" "\<not> contains damaged h"
  by (simp_all add: contains_def damaged_def)

lemma contains_updates [simp]:
  "contains (s\<lparr>sec_uncertain := u\<rparr>) h = contains s h" "contains (s\<lparr>sec_upgrade := b\<rparr>) h = contains s h"
  by (simp_all add: contains_def)

lemma contains_merge_legacy:
  assumes "contains (lookup (merge_legacy legacy secs) lost g) h" and "bt_wf secs"
  shows "contains (lookup secs lost g) h \<or> (\<exists>m. legacy = Some m \<and> g = LEGACY_GENESIS \<and> contains m h)"
  using assms
  by (auto simp: merge_legacy_def lookup_def bt_get_insert dest!: contains_absorb
      split: option.splits if_splits)

text \<open>Whatever the opened record holds was in the record file or in the legacy file.\<close>

lemma open_held:
  assumes dir: "dir_ok C orig D S P" and found: "found = read_record C F RECORD_FILE D"
    and I: "I = open_inner C F RECORD_FILE genesis D found" and h: "contains (in_current I) h"
  shows "(\<exists>J. found = Record J \<and> contains (section_of J genesis) h) \<or>
         (\<exists>m. read_legacy C F RECORD_FILE D = Some m \<and> genesis = LEGACY_GENESIS \<and> contains m h)"
proof -
  obtain secs lost upgraded opened_on where
    os: "open_sections C F RECORD_FILE D found = (secs, lost, upgraded, opened_on)"
    by (cases "open_sections C F RECORD_FILE D found") auto
  obtain s0 l o1 where fs: "found_sections F RECORD_FILE D found = (s0, l, o1)"
    by (cases "found_sections F RECORD_FILE D found") auto
  have wf: "bt_wf s0"
    using fs dir found
    by (auto simp: found_sections_def dir_ok_def dir_remembers_def read_record_def inner_ok_def
        bt_wf_insert split: option.splits fnode.splits if_splits)
  let ?leg = "read_legacy C F RECORD_FILE D"
  have "contains (lookup secs lost genesis) h"
    using h by (auto simp: I open_inner_def os Let_def lookup_def split: option.splits if_splits)
  moreover have "bt_wf (merge_legacy ?leg s0)"
    using wf by (auto simp: merge_legacy_def bt_wf_insert split: option.splits)
  ultimately have "contains (lookup (merge_legacy ?leg s0) lost genesis) h"
    using os
    by (auto simp: open_sections_def fs Let_def lookup_def bt_get_map_snd bt_get_insert bt_wf_map_snd
        split: option.splits if_splits)
  then have "contains (lookup s0 lost genesis) h \<or>
      (\<exists>m. ?leg = Some m \<and> genesis = LEGACY_GENESIS \<and> contains m h)"
    using contains_merge_legacy wf by blast
  moreover have "\<exists>J. found = Record J \<and> contains (section_of J genesis) h"
    if c: "contains (lookup s0 lost genesis) h"
  proof (cases found)
    case (Record J)
    then have "s0 = bt_insert (in_genesis J) (in_current J) (in_previous J)" and "bt_wf (in_previous J)"
      using fs found dir
      by (auto simp: found_sections_def dir_ok_def dir_remembers_def read_record_def inner_ok_def
          split: option.splits fnode.splits if_splits)
    with c Record show ?thesis
      by (auto simp: lookup_def section_of_def bt_get_insert split: option.splits if_splits)
  qed (use fs c in \<open>auto simp: found_sections_def lookup_def bt_get_def\<close>)
  ultimately show ?thesis by blast
qed

lemma open_held_dir:
  assumes dir: "dir_ok C orig D S P" and found: "found = read_record C F RECORD_FILE D"
    and I: "I = open_inner C F RECORD_FILE genesis D found"
    and low: "to_ascii_lowercase genesis = genesis"
  shows "dir_ok C orig D (held I) (\<lambda>_. {})"
proof -
  have g: "in_genesis I = genesis" using open_inner_ok [OF dir low found I] by simp
  have lh: "legacy_has C D (\<lambda>s. known orig s h)"
    if "read_legacy C F RECORD_FILE D = Some m" "contains m h" for m h
    using that
    by (auto simp: read_legacy_def legacy_has_def known_def split: option.splits fnode.splits if_splits)
  have h: "(\<exists>J. found = Record J \<and> known orig (section_of J genesis) h) \<or>
      genesis = LEGACY_GENESIS \<and> legacy_has C D (\<lambda>s. known orig s h)" if "contains (in_current I) h" for h
    using open_held [OF dir found I that] lh by (auto simp: known_def)
  have "dir_remembers C orig D (held I) (\<lambda>_. {})"
    using dir h found
    by (fastforce simp: dir_remembers_def dir_ok_def held_def g read_record_def
        split: option.splits fnode.splits if_splits)
  then show ?thesis using dir by (simp add: dir_ok_def)
qed

lemma section_of_current [simp]:
  "section_of (I\<lparr>in_current := c\<rparr>) g = (if g = in_genesis I then c else section_of I g)"
  by (simp add: section_of_def split: option.splits)

lemma remembers_uncertain:
  "remembers orig I S P \<Longrightarrow>
   remembers orig (I\<lparr>in_current := (in_current I)\<lparr>sec_uncertain := True\<rparr>\<rparr>) S P"
  by (simp add: remembers_def)

lemma inner_ok_uncertain:
  "inner_ok orig I \<Longrightarrow> inner_ok orig (I\<lparr>in_current := (in_current I)\<lparr>sec_uncertain := True\<rparr>\<rparr>)"
  by (simp add: inner_ok_def)

lemma open_with_ok:
  assumes law: "log_codec_law C" and dir: "dir_ok C orig D S P"
    and op: "open_with C F RECORD_FILE genesis D = (L, D')"
  shows "dir_ok C orig D' S P \<and> log_ok C orig L D' S P"
proof -
  define found where "found = read_record C F RECORD_FILE D"
  define I where "I = open_inner C F RECORD_FILE (to_ascii_lowercase genesis) D found"
  have I: "inner_ok orig I" "remembers orig I S P"
    using open_inner_ok [OF dir _ found_def I_def] by auto
  have heldD: "dir_ok C orig D (held I) (\<lambda>_. {})"
    using open_held_dir [OF dir found_def I_def] by simp
  have hl: "bt_get LEGACY_FILE D \<noteq> None \<longrightarrow> holds_legacy I"
    using open_holds_legacy [OF _ dir found_def] read_legacy_has(2) [of D C orig F] dir
    by (auto simp: I_def dir_ok_def)
  define ka where "ka = keep_aside F RECORD_FILE ''unreadable'' D"
  define broken where "broken = (found = Unparsable \<or> found = Unreadable)"
  define D1 where "D1 = (if broken then snd ka else D)"
  have "same_files D D1"
    using keep_aside_same [of D F "''unreadable''"] dir
    by (auto simp: D1_def ka_def dir_ok_def same_files_def)
  then have d1: "dir_ok C orig D1 S P" and l1: "bt_get LEGACY_FILE D1 = bt_get LEGACY_FILE D"
    and h1: "dir_ok C orig D1 (held I) (\<lambda>_. {})"
    by (rule same_files_ok [OF _ dir], simp add: same_files_def, rule same_files_ok [OF _ heldD])
  obtain r D2 where w: "write_atomic C F RECORD_FILE (inner_to_disk I) D1 = (r, D2)" by force
  have hl1: "bt_get LEGACY_FILE D1 \<noteq> None \<longrightarrow> holds_legacy I" using hl l1 by simp
  note wr = write_atomic_ok [OF law d1 I hl1 subset_refl w]
  note wh = write_atomic_ok [OF law h1 I(1) held_remembered hl1 subset_refl w]
  have sa: "dir_ok C orig (snd (set_aside F LEGACY_FILE tag D2)) S P \<and>
      dir_ok C orig (snd (set_aside F LEGACY_FILE tag D2)) (held I) (\<lambda>_. {})" if r: "r = Inr ()" for tag
  proof -
    obtain body where b: "record_to_json C (inner_to_disk I) = Some body"
      and "D2 = bt_insert RECORD_FILE (Content body) D1"
      using w r by (auto simp: write_atomic_def Let_def split: option.splits if_splits)
    then show ?thesis
      using wr(1) wh(1) d1 I parse_written [OF law I(1) b] held_remembered
      by (intro conjI set_aside_ok [where body = body and I = I]) (auto simp: bt_get_insert dir_ok_def)
  qed
  have keep_leg: "bt_get LEGACY_FILE (snd (set_aside F LEGACY_FILE tag D2)) \<noteq> None \<longrightarrow> holds_legacy I" for tag
    using hl1 wr(3)
    by (auto simp: set_aside_def Let_def split: option.splits)
  have "(L, D') = open_with C F RECORD_FILE genesis D" using op by simp
  then have "sl_path L = Some RECORD_FILE"
    and "(sl_inner L, D') \<in> {(I, D1), (I, D2), (I\<lparr>in_current := (in_current I)\<lparr>sec_uncertain := True\<rparr>\<rparr>, D2)} \<or>
         (r = Inr () \<and> sl_inner L = I \<and> D' = snd (set_aside F LEGACY_FILE ''migrated'' D2))"
    unfolding open_with_def Let_def found_def [symmetric] I_def [symmetric] ka_def [symmetric]
    using w
    by (auto simp: D1_def broken_def split: prod.splits sum.splits if_splits)
  moreover have "held (I\<lparr>in_current := (in_current I)\<lparr>sec_uncertain := True\<rparr>\<rparr>) = held I"
    by (auto simp: held_def)
  ultimately show ?thesis
    using I d1 h1 wr wh sa hl1 keep_leg remembers_uncertain [OF I(2)] inner_ok_uncertain [OF I(1)]
    by (auto simp: log_ok_def holds_legacy_def)
qed

section \<open>Recording\<close>

lemma persist_ok:
  assumes law: "log_codec_law C" and dir: "dir_ok C orig D S P"
    and path: "sl_path L = Some RECORD_FILE"
    and I: "inner_ok orig I" "remembers orig I S' P" and sub: "\<And>g. S g \<subseteq> S' g"
    and hl': "bt_get LEGACY_FILE D \<noteq> None \<longrightarrow> holds_legacy I"
    and p: "log_persist C F L I D = (r, D')"
  shows "dir_ok C orig D' S P" and "r = Inr () \<Longrightarrow> dir_ok C orig D' S' P"
    and "bt_get LEGACY_FILE D' = bt_get LEGACY_FILE D"
    and "r = Inr () \<Longrightarrow>
      \<exists>body. bt_get RECORD_FILE D' = Some (Content body) \<and> parse_record C body = Some I"
proof -
  obtain r0 D0 where w: "write_atomic C F RECORD_FILE (inner_to_disk I) D = (r0, D0)" by force
  note wr = write_atomic_ok [OF law dir I hl' sub w]
  have *: "(D' = D \<and> (\<exists>e. r = Inl e)) \<or> (D' = D0 \<and> (r = Inr () \<longrightarrow> r0 = Inr ()))"
    using p w path by (auto simp: log_persist_def split: option.splits sum.splits prod.splits)
  show "dir_ok C orig D' S P" and "r = Inr () \<Longrightarrow> dir_ok C orig D' S' P"
    and "bt_get LEGACY_FILE D' = bt_get LEGACY_FILE D"
    using * wr dir by auto
  show "\<exists>body. bt_get RECORD_FILE D' = Some (Content body) \<and> parse_record C body = Some I"
    if ok: "r = Inr ()"
  proof -
    have eq: "D' = D0" "r0 = Inr ()" using * ok by auto
    obtain body where "record_to_json C (inner_to_disk I) = Some body"
      and "D' = bt_insert RECORD_FILE (Content body) D"
      using w eq by (auto simp: write_atomic_def Let_def split: option.splits if_splits)
    then show ?thesis
      using parse_written [OF law I(1)] dir by (auto simp: dir_ok_def bt_get_insert)
  qed
qed

lemma count_attempt_simps [simp]:
  "sl_path (count_attempt h L) = sl_path L" "sl_inner (count_attempt h L) = sl_inner L"
  "sl_blocked (count_attempt h L) = sl_blocked L"
  by (simp_all add: count_attempt_def)

text \<open>Recording a send.\<close>

definition add_send :: "string \<Rightarrow> string \<Rightarrow> sends \<Rightarrow> sends" where
  "add_send g h S = S(g := insert h (S g))"

definition origin_of :: "origins \<Rightarrow> string \<Rightarrow> string \<Rightarrow> nat \<Rightarrow> bool" where
  "origin_of orig hash sender nonce \<longleftrightarrow>
     orig (to_ascii_lowercase hash) = (to_ascii_lowercase sender, nonce)"

text \<open>A nonce read from the node is not below a nonce the sender used before records were kept.\<close>

definition fetched_ok :: "origins \<Rightarrow> string set \<Rightarrow> NonceSource \<Rightarrow> string \<Rightarrow> nat \<Rightarrow> bool" where
  "fetched_ok orig prior source sender nonce \<longleftrightarrow>
     (source = Fetched \<longrightarrow>
        (\<forall>h\<in>prior. fst (orig h) = to_ascii_lowercase sender \<longrightarrow> snd (orig h) \<le> nonce))"

lemma set_bound_simps [simp]:
  "sec_entries (set_bound origin source s) = sec_entries s"
  "sec_evicted (set_bound origin source s) = sec_evicted s"
  "sec_uncertain (set_bound origin source s) = sec_uncertain s"
  by (auto simp: set_bound_def split: option.splits prod.splits NonceSource.splits)

lemma set_bound_wf:
  assumes "section_ok orig s"
  shows "section_ok orig (set_bound (Some (to_ascii_lowercase sender, nonce)) source s)"
proof -
  have "pred_option marks_wf (sec_upgrade (set_bound (Some (to_ascii_lowercase sender, nonce)) source s))"
    using assms
    by (auto simp: set_bound_def section_ok_def section_wf_def insert_mark_wf
        split: option.splits NonceSource.splits)
  with assms show ?thesis by (simp add: section_ok_def section_wf_def)
qed

lemma set_bound_known [simp]: "known orig (set_bound origin source s) h = known orig s h"
  by (simp add: known_def contains_def)

lemma set_bound_bounded:
  assumes "bounded orig s h" and "section_ok orig s"
    and "source = Fetched \<Longrightarrow> fst (orig h) = sender \<Longrightarrow> snd (orig h) \<le> nonce"
  shows "bounded orig (set_bound (Some (sender, nonce)) source s) h"
proof (cases "known orig s h")
  case True
  then show ?thesis by (simp add: bounded_def)
next
  case False
  with assms(1) obtain m where m: "sec_upgrade s = Some m"
    and le: "\<And>b. bt_get (fst (orig h)) m = Some b \<Longrightarrow> snd (orig h) \<le> b"
    by (auto simp: bounded_def)
  have wf: "bt_wf m" using assms(2) m by (simp add: section_ok_def section_wf_def marks_wf_def)
  show ?thesis
    using m le assms(3)
    by (auto simp: bounded_def set_bound_def bt_get_insert [OF wf] split: option.splits
        NonceSource.splits if_splits)
qed

lemma new_entry_wf:
  assumes "orig hash = (to_ascii_lowercase sender, nonce)" and "to_ascii_lowercase hash = hash"
  shows "entry_wf orig (new_entry hash (Some (to_ascii_lowercase sender, nonce)) call now)"
  using assms by (cases call) (auto simp: entry_wf_def new_entry_def lowercased_def)

lemma push_entry_facts:
  assumes ok: "section_ok orig s" and e: "entry_wf orig e" and new: "\<not> contains s (e_hash e)"
  shows "section_ok orig (push_entry e s)"
    and "known orig s h \<or> h = e_hash e \<Longrightarrow> known orig (push_entry e s) h"
    and "bounded orig s h \<Longrightarrow> bounded orig (push_entry e s) h"
proof -
  let ?s = "s\<lparr>sec_entries := sec_entries s @ [e]\<rparr>"
  have wf: "section_wf orig ?s" using ok e by (auto simp: section_ok_def section_wf_def)
  have "distinct (map e_hash (sec_entries ?s))"
    using ok new by (auto simp: section_ok_def contains_iff)
  then show "section_ok orig (push_entry e s)" using wf by (simp add: push_entry_def evict_ok)
  have k: "known orig ?s h" if "known orig s h \<or> h = e_hash e" for h
    using that by (auto simp: known_def)
  then show "known orig s h \<or> h = e_hash e \<Longrightarrow> known orig (push_entry e s) h"
    using wf by (simp add: push_entry_def evict_known)
  show "bounded orig s h \<Longrightarrow> bounded orig (push_entry e s) h"
    using wf k evict_bounded [OF wf, of h] by (auto simp: push_entry_def bounded_def)
qed

lemma find_split:
  assumes "find P xs = Some x"
  shows "xs = takeWhile (\<lambda>y. \<not> P y) xs @ x # tl (dropWhile (\<lambda>y. \<not> P y) xs)" and "P x"
  using assms by (induction xs) (auto split: if_splits)

lemma revive_facts:
  assumes ok: "section_ok orig (in_current I)" and low: "to_ascii_lowercase hash = hash"
  shows "\<exists>es. revive hash call now I = I\<lparr>in_current := (in_current I)\<lparr>sec_entries := es\<rparr>\<rparr> \<and>
     section_ok orig ((in_current I)\<lparr>sec_entries := es\<rparr>) \<and>
     e_hash ` set es = e_hash ` set (sec_entries (in_current I))"
proof (cases "find (\<lambda>e. e_hash e = hash) (sec_entries (in_current I))")
  case None
  then show ?thesis using ok by (intro exI [of _ "sec_entries (in_current I)"]) (simp add: revive_def)
next
  case (Some e)
  let ?es = "sec_entries (in_current I)"
  let ?pre = "takeWhile (\<lambda>e. e_hash e \<noteq> hash) ?es"
  let ?post = "tl (dropWhile (\<lambda>e. e_hash e \<noteq> hash) ?es)"
  have split: "?es = ?pre @ e # ?post" "e_hash e = hash" using find_split [OF Some] by simp_all
  obtain e3 where r: "revive hash call now I = I\<lparr>in_current := (in_current I)\<lparr>sec_entries := (?pre @ ?post) @ [e3]\<rparr>\<rparr>"
    and e3: "e_hash e3 = hash" "e_sender e3 = e_sender e" "e_nonce e3 = e_nonce e"
      "lowercased e = e \<longrightarrow> lowercased e3 = e3"
    using Some split(2)
    by (cases e; cases call) (auto simp: revive_def Let_def lowercased_def)
  have wf: "list_all (entry_wf orig) ?es" "distinct (map e_hash ?es)" "length ?es \<le> CAPACITY"
    using ok by (auto simp: section_ok_def section_wf_def)
  have "list_all (entry_wf orig) (?pre @ ?post @ [e3])"
    using wf(1) e3 split(2) by (subst (asm) split(1)) (auto simp: entry_wf_def)
  moreover have "distinct (map e_hash (?pre @ ?post @ [e3]))"
    using wf(2) e3(1) split(2) by (subst (asm) split(1)) auto
  moreover have "length (?pre @ ?post @ [e3]) \<le> CAPACITY"
    using wf(3) by (subst (asm) split(1)) simp
  moreover have "e_hash ` set (?pre @ ?post @ [e3]) = e_hash ` set ?es"
    using e3(1) split(2) by (subst (3) split(1)) auto
  ultimately show ?thesis
    using ok r by (intro exI [of _ "(?pre @ ?post) @ [e3]"]) (simp add: section_ok_def section_wf_def)
qed

end
