(* ===== verification/SubmittedLogProps.thy ===== *)
theory SubmittedLogProps
  imports SubmittedLogRun
begin

text \<open>
  The properties of the submitted-transaction record: a positive first-submission answer is right
  in every history, a send is on disk before it is answered, merging never adds certainty, what a
  fresh profile answers, what Forget and the activation lookup do, and the gap in the migration of
  an older build's file.
\<close>

section \<open>Steps\<close>

lemma inner_ok_current:
  "inner_ok orig I \<Longrightarrow> section_ok orig c \<Longrightarrow> inner_ok orig (I\<lparr>in_current := c\<rparr>)"
  by (simp add: inner_ok_def)

lemma holds_legacy_current [simp]: "holds_legacy (I\<lparr>in_current := c\<rparr>) = holds_legacy I"
  by (simp add: holds_legacy_def)

lemma remembers_current:
  assumes "remembers orig I S P"
    and "\<And>h. known orig (in_current I) h \<Longrightarrow> known orig c h"
    and "\<And>h. h \<in> P (in_genesis I) \<Longrightarrow> bounded orig (in_current I) h \<Longrightarrow> bounded orig c h"
  shows "remembers orig (I\<lparr>in_current := c\<rparr>) S P"
proof -
  have "section_of I (in_genesis I) = in_current I" by (simp add: section_of_def)
  with assms show ?thesis unfolding remembers_def by (metis section_of_current)
qed

lemma remembers_add:
  "remembers orig I (add_send g h S) P \<longleftrightarrow> remembers orig I S P \<and> known orig (section_of I g) h"
  by (auto simp: remembers_def add_send_def)

lemma add_send_mono: "S g \<subseteq> add_send g' h S g"
  by (auto simp: add_send_def)

definition sends_after :: "(string + bool) \<Rightarrow> string \<Rightarrow> string \<Rightarrow> sends \<Rightarrow> sends" where
  "sends_after r g h S = (case r of Inl e \<Rightarrow> S | Inr b \<Rightarrow> add_send g h S)"

lemma dir_ok_mono:
  assumes "dir_ok C orig D S P" and "\<And>g. S' g \<subseteq> S g" and "\<And>g. P' g \<subseteq> P g"
  shows "dir_ok C orig D S' P'"
proof -
  have "dir_remembers C orig D S' P'"
    using assms unfolding dir_ok_def dir_remembers_def
    by (fastforce split: option.splits fnode.splits)
  then show ?thesis using assms(1) by (simp add: dir_ok_def)
qed

lemma dir_ok_add:
  assumes "dir_ok C orig D S P" and "dir_ok C orig D T (\<lambda>_. {})" and "h \<in> T g"
  shows "dir_ok C orig D (add_send g h S) P"
proof -
  have "dir_remembers C orig D (add_send g h S) P"
    using assms unfolding dir_ok_def dir_remembers_def add_send_def
    by (auto split: option.splits fnode.splits if_splits)
  then show ?thesis using assms(1) by (simp add: dir_ok_def)
qed

lemma replace_current_ok:
  assumes law: "log_codec_law C" and dir: "dir_ok C orig D S P" and log: "log_ok C orig L D S P"
    and c: "section_ok orig c" "\<And>h. known orig (in_current (sl_inner L)) h \<Longrightarrow> known orig c h"
      "\<And>h. h \<in> P (in_genesis (sl_inner L)) \<Longrightarrow> bounded orig (in_current (sl_inner L)) h \<Longrightarrow> bounded orig c h"
    and S': "S' = S \<or> (\<exists>h. S' = add_send (in_genesis (sl_inner L)) h S \<and> known orig c h)"
    and p: "log_persist C F L ((sl_inner L)\<lparr>in_current := c\<rparr>) D = (r, D')"
  shows "dir_ok C orig D' S P \<and> log_ok C orig L D' S P"
    and "r = Inr () \<Longrightarrow>
      dir_ok C orig D' S' P \<and> log_ok C orig (L\<lparr>sl_inner := (sl_inner L)\<lparr>in_current := c\<rparr>\<rparr>) D' S' P"
proof -
  let ?I = "(sl_inner L)\<lparr>in_current := c\<rparr>"
  have path: "sl_path L = Some RECORD_FILE" and hl: "bt_get LEGACY_FILE D \<noteq> None \<longrightarrow> holds_legacy ?I"
    and held: "dir_ok C orig D (held (sl_inner L)) (\<lambda>_. {})"
    using log by (simp_all add: log_ok_def)
  have I: "inner_ok orig ?I" using log c(1) by (simp add: log_ok_def inner_ok_current)
  have "remembers orig ?I S P" using log c by (intro remembers_current) (auto simp: log_ok_def)
  then have R: "remembers orig ?I S' P" using S' by (auto simp: remembers_add)
  have sub: "S g \<subseteq> S' g" for g using S' add_send_mono [of S g] by blast
  note ps = persist_ok [OF law dir path I R sub hl p]
  let ?H = "\<lambda>g. held (sl_inner L) g \<union> held ?I g"
  have RH: "remembers orig ?I ?H (\<lambda>_. {})"
    using held_remembered [of orig ?I] c(2)
    by (auto simp: remembers_def held_def known_def)
  have "held (sl_inner L) g \<subseteq> ?H g" for g by blast
  note ph = persist_ok [OF law held path I RH this hl p]
  have down: "dir_ok C orig D' ?H (\<lambda>_. {}) \<Longrightarrow> dir_ok C orig D' (held ?I) (\<lambda>_. {})"
    by (rule dir_ok_mono) auto
  show "dir_ok C orig D' S P \<and> log_ok C orig L D' S P"
    using ps(1,3) ph(1) log by (simp add: log_ok_def)
  show "dir_ok C orig D' S' P \<and> log_ok C orig (L\<lparr>sl_inner := ?I\<rparr>) D' S' P" if "r = Inr ()"
    using ps(2,3) ph(2) down that log I R by (simp add: log_ok_def)
qed

lemma log_ok_count [simp]: "log_ok C orig (count_attempt h L) D S P = log_ok C orig L D S P"
  by (simp add: log_ok_def)

lemma record_entry_ok:
  assumes law: "log_codec_law C" and dir: "dir_ok C orig D S P" and log: "log_ok C orig L D S P"
    and o: "origin_of orig hash sender nonce"
    and f: "fetched_ok orig (P (in_genesis (sl_inner L))) source sender nonce"
    and r: "record_entry C F hash (Some (sender, nonce)) source call now L D = (r, L', D')"
    and S': "S' = sends_after r (in_genesis (sl_inner L)) (to_ascii_lowercase hash) S"
  shows "dir_ok C orig D' S' P \<and> log_ok C orig L' D' S' P"
proof -
  let ?g = "sl_inner L" and ?h = "to_ascii_lowercase hash"
  let ?o = "Some (to_ascii_lowercase sender, nonce)"
  have cur: "section_ok orig (in_current ?g)" using log by (simp add: log_ok_def inner_ok_def)
  show ?thesis
  proof (cases "contains (in_current ?g) ?h")
    case True
    then have k: "known orig (in_current ?g) ?h" by (simp add: known_def)
    have same: "dir_ok C orig D (add_send (in_genesis ?g) ?h S) P"
      using dir log True by (intro dir_ok_add [where T = "held ?g"]) (auto simp: log_ok_def held_def)
    have here: "log_ok C orig L D (add_send (in_genesis ?g) ?h S) P"
      using log k by (auto simp: log_ok_def remembers_add section_of_def)
    show ?thesis
    proof (cases "list_ex (\<lambda>e. e_hash e = ?h \<and> e_forgotten e) (sec_entries (in_current ?g))")
      case False
      then have "r = Inr False" "L' = count_attempt ?h L" "D' = D"
        using r True by (auto simp: record_entry_def Let_def)
      then show ?thesis using same here S' by (simp add: sends_after_def)
    next
      case forgotten: True
      obtain es where es: "revive ?h call now ?g = ?g\<lparr>in_current := (in_current ?g)\<lparr>sec_entries := es\<rparr>\<rparr>"
        "section_ok orig ((in_current ?g)\<lparr>sec_entries := es\<rparr>)"
        "e_hash ` set es = e_hash ` set (sec_entries (in_current ?g))"
        using revive_facts [OF cur, of ?h call now] by auto
      let ?c = "(in_current ?g)\<lparr>sec_entries := es\<rparr>"
      have kc: "known orig ?c h = known orig (in_current ?g) h" for h
        using es(3) by (simp add: known_def contains_iff)
      then have bc: "bounded orig ?c h = bounded orig (in_current ?g) h" for h
        by (simp add: bounded_def)
      obtain p D1 where p: "log_persist C F L (?g\<lparr>in_current := ?c\<rparr>) D = (p, D1)" by force
      note rc = replace_current_ok [OF law dir log es(2) _ _ _ p, unfolded kc bc]
      show ?thesis
      proof (cases p)
        case (Inl e)
        then have "r = Inl e" "L' = L" "D' = D1"
          using r True forgotten p es(1) by (auto simp: record_entry_def Let_def)
        then show ?thesis using rc(1) [of S] S' by (simp add: sends_after_def)
      next
        case (Inr u)
        then have "r = Inr False" "L' = count_attempt ?h (L\<lparr>sl_inner := ?g\<lparr>in_current := ?c\<rparr>\<rparr>)" "D' = D1"
          using r True forgotten p es(1) by (auto simp: record_entry_def Let_def)
        moreover have "dir_ok C orig D1 (add_send (in_genesis ?g) ?h S) P \<and>
            log_ok C orig (L\<lparr>sl_inner := ?g\<lparr>in_current := ?c\<rparr>\<rparr>) D1 (add_send (in_genesis ?g) ?h S) P"
          by (rule rc(2)) (use k Inr in \<open>auto\<close>)
        ultimately show ?thesis using S' by (auto simp: sends_after_def)
      qed
    qed
  next
    case False
    let ?c = "push_entry (new_entry ?h ?o call now) (set_bound ?o source (in_current ?g))"
    have e: "entry_wf orig (new_entry ?h ?o call now)"
      using o by (intro new_entry_wf) (auto simp: origin_of_def)
    have new: "\<not> contains (set_bound ?o source (in_current ?g)) (e_hash (new_entry ?h ?o call now))"
      using False by (simp add: contains_def new_entry_def)
    note pf = push_entry_facts [OF set_bound_wf [OF cur] e new]
    have b: "bounded orig ?c h" if "h \<in> P (in_genesis ?g)" "bounded orig (in_current ?g) h" for h
      using pf(3) set_bound_bounded [OF that(2) cur] f that(1) by (auto simp: fetched_ok_def)
    have kh: "known orig ?c ?h" using pf(2) [of ?h] by (simp add: new_entry_def)
    obtain p D1 where p: "log_persist C F L (?g\<lparr>in_current := ?c\<rparr>) D = (p, D1)" by force
    have k: "known orig ?c h" if "known orig (in_current ?g) h" for h
      using pf(2) [of h] that by simp
    note rc = replace_current_ok [OF law dir log pf(1) k b _ p]
    show ?thesis
    proof (cases p)
      case (Inl e)
      then have "r = Inl e" "L' = L" "D' = D1"
        using r False p by (auto simp: record_entry_def Let_def)
      then show ?thesis using rc(1) [of S] S' by (simp add: sends_after_def)
    next
      case (Inr u)
      then have "\<exists>b. r = Inr b" "L' = count_attempt ?h (L\<lparr>sl_inner := ?g\<lparr>in_current := ?c\<rparr>\<rparr>)" "D' = D1"
        using r False p by (auto simp: record_entry_def Let_def)
      moreover have "dir_ok C orig D1 (add_send (in_genesis ?g) ?h S) P \<and>
          log_ok C orig (L\<lparr>sl_inner := ?g\<lparr>in_current := ?c\<rparr>\<rparr>) D1 (add_send (in_genesis ?g) ?h S) P"
        using kh Inr by (intro rc(2) disjI2 exI [of _ ?h]) simp_all
      ultimately show ?thesis using S' by (auto simp: sends_after_def)
    qed
  qed
qed

lemma forget_ok:
  assumes law: "log_codec_law C" and dir: "dir_ok C orig D S P" and log: "log_ok C orig L D S P"
    and f: "forget C F hash L D = (r, L', D')"
  shows "dir_ok C orig D' S P \<and> log_ok C orig L' D' S P"
proof -
  let ?g = "sl_inner L" and ?h = "to_ascii_lowercase hash"
  let ?es = "update_first (\<lambda>e. e_hash e = ?h) (\<lambda>e. e\<lparr>e_forgotten := True\<rparr>) (sec_entries (in_current ?g))"
  let ?c = "(in_current ?g)\<lparr>sec_entries := ?es\<rparr>"
  have cur: "section_ok orig (in_current ?g)" using log by (simp add: log_ok_def inner_ok_def)
  have hs: "map e_hash ?es = map e_hash (sec_entries (in_current ?g))"
    by (rule map_update_first) simp
  then have hs': "e_hash ` set ?es = e_hash ` set (sec_entries (in_current ?g))"
    by (metis list.set_map)
  have "entry_wf orig (e\<lparr>e_forgotten := True\<rparr>) = entry_wf orig e" for e
    by (cases e) (simp add: entry_wf_def lowercased_def)
  then have "list_all (entry_wf orig) ?es"
    using cur by (auto simp: section_ok_def section_wf_def list_all_iff dest!: in_set_update_first)
  then have c: "section_ok orig ?c" using cur hs by (simp add: section_ok_def section_wf_def)
  have k: "known orig ?c h = known orig (in_current ?g) h" for h
    using hs' by (simp add: known_def contains_iff)
  then have b: "bounded orig ?c h = bounded orig (in_current ?g) h" for h by (simp add: bounded_def)
  obtain p D1 where p: "log_persist C F L (?g\<lparr>in_current := ?c\<rparr>) D = (p, D1)" by force
  note rc = replace_current_ok [OF law dir log c _ _ _ p, unfolded k b, of S]
  show ?thesis
  proof (cases "contains (in_current ?g) ?h")
    case False
    with f dir log show ?thesis by (auto simp: forget_def Let_def)
  next
    case True
    with f p rc show ?thesis by (cases p) (auto simp: forget_def Let_def)
  qed
qed

section \<open>Histories\<close>

record log_sys =
  ls_log :: "SubmittedTxLog option"
  ls_dir :: dir
  ls_sent :: sends

text \<open>The files of a profile that never ran this build: no record; \<open>P\<close> are the sends of builds that
  kept no record at all, which exist only next to a wallet.\<close>

definition first_files :: "dir \<Rightarrow> sends \<Rightarrow> bool" where
  "first_files D P \<longleftrightarrow>
     bt_wf D \<and> bt_get RECORD_FILE D = None \<and> bt_get LEGACY_FILE D = None \<and>
     (\<forall>g h. h \<in> P g \<longrightarrow> g = LEGACY_GENESIS \<and> bt_get ENVELOPE_FILE D \<noteq> None)"

text \<open>One step of a history. The steps of the record itself run while it is open, the others between
  two runs: a build that wrote the legacy file, a file that is damaged, and changes of other files.\<close>

inductive log_step :: "log_codec \<Rightarrow> origins \<Rightarrow> sends \<Rightarrow> log_sys \<Rightarrow> log_sys \<Rightarrow> bool"
  for C orig P where
  open_log: "open_with C F RECORD_FILE genesis D = (L, D') \<Longrightarrow>
    log_step C orig P \<lparr>ls_log = None, ls_dir = D, ls_sent = S\<rparr>
      \<lparr>ls_log = Some L, ls_dir = D', ls_sent = S\<rparr>"
| record_send: "record_entry C F hash (Some (sender, nonce)) source call now L D = (r, L', D') \<Longrightarrow>
    origin_of orig hash sender nonce \<Longrightarrow>
    fetched_ok orig (P (in_genesis (sl_inner L))) source sender nonce \<Longrightarrow>
    log_step C orig P \<lparr>ls_log = Some L, ls_dir = D, ls_sent = S\<rparr>
      \<lparr>ls_log = Some L', ls_dir = D',
       ls_sent = sends_after r (in_genesis (sl_inner L)) (to_ascii_lowercase hash) S\<rparr>"
| forget_send: "forget C F hash L D = (r, L', D') \<Longrightarrow>
    log_step C orig P \<lparr>ls_log = Some L, ls_dir = D, ls_sent = S\<rparr>
      \<lparr>ls_log = Some L', ls_dir = D', ls_sent = S\<rparr>"
| stop: "log_step C orig P \<lparr>ls_log = Some L, ls_dir = D, ls_sent = S\<rparr>
      \<lparr>ls_log = None, ls_dir = D, ls_sent = S\<rparr>"
| older_build: "section_wf orig (from_legacy C b) \<Longrightarrow>
    (\<forall>h\<in>H. known orig (from_legacy C b) h) \<Longrightarrow>
    (\<forall>h. legacy_has C D (\<lambda>s. known orig s h) \<longrightarrow> known orig (from_legacy C b) h) \<Longrightarrow>
    (\<forall>h\<in>P LEGACY_GENESIS. bt_get LEGACY_FILE D = None \<or> legacy_has C D (\<lambda>s. bounded orig s h) \<longrightarrow>
        bounded orig (from_legacy C b) h) \<Longrightarrow>
    (legacy_gap C D \<longrightarrow> sec_uncertain (from_legacy C b)) \<Longrightarrow>
    log_step C orig P \<lparr>ls_log = None, ls_dir = D, ls_sent = S\<rparr>
      \<lparr>ls_log = None, ls_dir = bt_insert LEGACY_FILE (Content b) D,
       ls_sent = S(LEGACY_GENESIS := S LEGACY_GENESIS \<union> H)\<rparr>"
| damage: "bt_get RECORD_FILE D \<noteq> None \<Longrightarrow>
    (\<forall>b. node = Content b \<longrightarrow> parse_record C b = None) \<Longrightarrow>
    log_step C orig P \<lparr>ls_log = None, ls_dir = D, ls_sent = S\<rparr>
      \<lparr>ls_log = None, ls_dir = bt_insert RECORD_FILE node D, ls_sent = S\<rparr>"
| other_files: "same_files D D' \<Longrightarrow>
    log_step C orig P \<lparr>ls_log = None, ls_dir = D, ls_sent = S\<rparr>
      \<lparr>ls_log = None, ls_dir = D', ls_sent = S\<rparr>"

inductive log_run :: "log_codec \<Rightarrow> origins \<Rightarrow> sends \<Rightarrow> log_sys \<Rightarrow> bool" for C orig P where
  start: "first_files D P \<Longrightarrow> log_run C orig P \<lparr>ls_log = None, ls_dir = D, ls_sent = (\<lambda>_. {})\<rparr>"
| step: "log_run C orig P st \<Longrightarrow> log_step C orig P st st' \<Longrightarrow> log_run C orig P st'"

definition sys_ok :: "log_codec \<Rightarrow> origins \<Rightarrow> sends \<Rightarrow> log_sys \<Rightarrow> bool" where
  "sys_ok C orig P st \<longleftrightarrow>
     dir_ok C orig (ls_dir st) (ls_sent st) P \<and>
     pred_option (\<lambda>L. log_ok C orig L (ls_dir st) (ls_sent st) P) (ls_log st)"

lemma older_build_ok:
  assumes dir: "dir_ok C orig D S P" and wf: "section_wf orig (from_legacy C b)"
    and H: "\<forall>h\<in>H. known orig (from_legacy C b) h"
    and old: "\<forall>h. legacy_has C D (\<lambda>s. known orig s h) \<longrightarrow> known orig (from_legacy C b) h"
    and prior: "\<forall>h\<in>P LEGACY_GENESIS. bt_get LEGACY_FILE D = None \<or> legacy_has C D (\<lambda>s. bounded orig s h) \<longrightarrow>
        bounded orig (from_legacy C b) h"
    and gap: "legacy_gap C D \<longrightarrow> sec_uncertain (from_legacy C b)"
  shows "dir_ok C orig (bt_insert LEGACY_FILE (Content b) D) (S(LEGACY_GENESIS := S LEGACY_GENESIS \<union> H)) P"
proof -
  let ?D = "bt_insert LEGACY_FILE (Content b) D"
  have bt: "bt_wf D" using dir by (simp add: dir_ok_def)
  have get: "bt_get LEGACY_FILE ?D = Some (Content b)" "bt_get RECORD_FILE ?D = bt_get RECORD_FILE D"
    "bt_get ENVELOPE_FILE ?D = bt_get ENVELOPE_FILE D"
    using bt by (simp_all add: bt_get_insert)
  have lh: "legacy_has C ?D Q = Q (from_legacy C b)" for Q by (simp add: legacy_has_def get)
  have "dir_remembers C orig ?D (S(LEGACY_GENESIS := S LEGACY_GENESIS \<union> H)) P"
  proof (cases "bt_get RECORD_FILE D")
    case None
    then show ?thesis
      using dir H old prior unfolding dir_ok_def dir_remembers_def lh get by auto
  next
    case (Some node)
    show ?thesis
    proof (cases node)
      case (Content c)
      show ?thesis
      proof (cases "parse_record C c")
        case (Some I)
        have r: "h \<in> S g \<Longrightarrow> known orig (section_of I g) h \<or> g = LEGACY_GENESIS \<and> legacy_has C D (\<lambda>s. known orig s h)"
          "h \<in> P g \<Longrightarrow> bounded orig (section_of I g) h \<or> g = LEGACY_GENESIS \<and> legacy_has C D (\<lambda>s. bounded orig s h)"
          and I: "inner_ok orig I" for g h
          using dir Some Content \<open>bt_get RECORD_FILE D = Some node\<close>
          by (auto simp: dir_ok_def dir_remembers_def)
        show ?thesis
          using r old prior H I by (auto simp: dir_remembers_def get lh Some Content
              \<open>bt_get RECORD_FILE D = Some node\<close>) blast+
      qed (simp add: dir_remembers_def get Some Content)
    qed (simp add: dir_remembers_def get Some)
  qed
  then show ?thesis
    using bt wf gap by (simp add: dir_ok_def lh legacy_gap_def get bt_wf_insert)
qed

lemma damage_ok:
  assumes "dir_ok C orig D S P" and "\<forall>b. node = Content b \<longrightarrow> parse_record C b = None"
  shows "dir_ok C orig (bt_insert RECORD_FILE node D) S P"
  using assms
  by (auto simp: dir_ok_def dir_remembers_def legacy_gap_def legacy_has_def bt_get_insert bt_wf_insert
      split: fnode.splits)

lemma first_files_ok: "first_files D P \<Longrightarrow> dir_ok C orig D (\<lambda>_. {}) P"
  by (auto simp: first_files_def dir_ok_def dir_remembers_def legacy_gap_def)

lemma log_step_ok:
  assumes "log_codec_law C" and "sys_ok C orig P st" and "log_step C orig P st st'"
  shows "sys_ok C orig P st'"
  using assms(3)
proof cases
  case (open_log F genesis D L D' S)
  then show ?thesis using assms open_with_ok [of C orig D S P] by (simp add: sys_ok_def)
next
  case (record_send F hash sender nonce source call now L D r L' D' S)
  then show ?thesis using assms record_entry_ok [of C orig D S P L] by (simp add: sys_ok_def)
next
  case (forget_send F hash L D r L' D' S)
  then show ?thesis using assms forget_ok [of C orig D S P L] by (simp add: sys_ok_def)
next
  case (older_build b H D S)
  then show ?thesis using assms older_build_ok [of C orig D S P b H] by (simp add: sys_ok_def)
qed (use assms damage_ok same_files_ok in \<open>auto simp: sys_ok_def\<close>)

lemma log_run_ok:
  assumes "log_run C orig P st" and "log_codec_law C"
  shows "sys_ok C orig P st"
  using assms
proof (induction rule: log_run.induct)
  case (start D)
  then show ?case by (simp add: sys_ok_def first_files_ok)
qed (rule log_step_ok)

section \<open>First submissions\<close>

lemma record_first:
  assumes "record_entry C F hash (Some (sender, nonce)) source call now L D = (Inr True, L', D')"
  shows "\<not> contains (in_current (sl_inner L)) (to_ascii_lowercase hash)"
    and "absent_is_first (in_current (sl_inner L)) (Some (to_ascii_lowercase sender, nonce)) source"
    and "\<not> sent_on_a_previous_network (sl_inner L) (to_ascii_lowercase hash)"
  using assms
  by (auto simp: record_entry_def Let_def split: if_splits prod.splits sum.splits)

lemma first_never_sent:
  assumes "log_codec_law C"
    and "log_run C orig P \<lparr>ls_log = Some L, ls_dir = D, ls_sent = S\<rparr>"
    and "origin_of orig hash sender nonce"
    and "record_entry C F hash (Some (sender, nonce)) source call now L D = (Inr True, L', D')"
  shows "to_ascii_lowercase hash \<notin> S (in_genesis (sl_inner L))"
    and "to_ascii_lowercase hash \<notin> P (in_genesis (sl_inner L))"
    and "(g, s) \<in> set (in_previous (sl_inner L)) \<Longrightarrow> \<not> contains s (to_ascii_lowercase hash)"
proof -
  let ?h = "to_ascii_lowercase hash" and ?s = "in_current (sl_inner L)"
  note f = record_first [OF assms(4)]
  have "log_ok C orig L D S P"
    using log_run_ok [OF assms(2,1)] by (simp add: sys_ok_def)
  then have "remembers orig (sl_inner L) S P" by (simp add: log_ok_def)
  moreover have "section_of (sl_inner L) (in_genesis (sl_inner L)) = ?s" by (simp add: section_of_def)
  moreover have "\<not> bounded orig ?s ?h"
    using f(1,2) bounded_not_first [of orig ?s ?h source] assms(3) by (auto simp: origin_of_def)
  ultimately show "?h \<notin> S (in_genesis (sl_inner L))" "?h \<notin> P (in_genesis (sl_inner L))"
    unfolding remembers_def using known_bounded by metis+
  show "\<not> contains s ?h" if "(g, s) \<in> set (in_previous (sl_inner L))"
    using f(3) that by (auto simp: sent_on_a_previous_network_def list_ex_iff)
qed


text \<open>
  C23. Write-ahead. When a send of new bytes is answered, the record file already holds its hash:
  decoding the file gives the record in memory, with the hash in the current network's section. When
  it is refused, the record in memory is unchanged and nothing is to be sent.
\<close>

theorem recorded_before_send:
  assumes "log_codec_law C"
    and "log_run C orig P \<lparr>ls_log = Some L, ls_dir = D, ls_sent = S\<rparr>"
    and "origin_of orig hash sender nonce"
    and "fetched_ok orig (P (in_genesis (sl_inner L))) source sender nonce"
    and "\<not> contains (in_current (sl_inner L)) (to_ascii_lowercase hash)"
    and "try_record_call C F hash sender nonce source call now L D = (r, L', D')"
  shows "case r of
      Inr first \<Rightarrow>
        contains (in_current (sl_inner L')) (to_ascii_lowercase hash) \<and>
        (\<exists>body. bt_get RECORD_FILE D' = Some (Content body) \<and> parse_record C body = Some (sl_inner L'))
    | Inl e \<Rightarrow> L' = L"
proof -
  let ?h = "to_ascii_lowercase hash" and ?g = "sl_inner L"
  let ?o = "Some (to_ascii_lowercase sender, nonce)"
  let ?e = "new_entry ?h ?o call now"
  let ?c = "push_entry ?e (set_bound ?o source (in_current ?g))"
  have ok: "log_ok C orig L D S P" "dir_ok C orig D S P"
    using log_run_ok [OF assms(2,1)] by (auto simp: sys_ok_def)
  obtain p D1 where p: "log_persist C F L (?g\<lparr>in_current := ?c\<rparr>) D = (p, D1)" by force
  show ?thesis
  proof (cases p)
    case (Inl e)
    then show ?thesis
      using assms(5,6) p by (auto simp: try_record_call_def record_entry_def Let_def)
  next
    case (Inr u)
    have r: "\<exists>b. r = Inr b" "sl_inner L' = ?g\<lparr>in_current := ?c\<rparr>" "D' = D1"
      using assms(5,6) p Inr by (auto simp: try_record_call_def record_entry_def Let_def)
    have "e_hash ?e = ?h" by (simp add: new_entry_def)
    then have "contains ?c ?h"
      using evict_keeps_last [of "(set_bound ?o source (in_current ?g))\<lparr>sec_entries :=
          sec_entries (set_bound ?o source (in_current ?g)) @ [?e]\<rparr>"]
      by (force simp: contains_iff push_entry_def)
    moreover have "\<exists>body. bt_get RECORD_FILE D1 = Some (Content body) \<and>
        parse_record C body = Some (?g\<lparr>in_current := ?c\<rparr>)"
    proof -
      have e: "entry_wf orig ?e" using assms(3) by (intro new_entry_wf) (auto simp: origin_of_def)
      have new: "\<not> contains (set_bound ?o source (in_current ?g)) (e_hash ?e)"
        using assms(5) by (simp add: contains_def new_entry_def)
      have "section_ok orig ?c"
        using push_entry_facts(1) [OF set_bound_wf e new] ok by (simp add: log_ok_def inner_ok_def)
      then have I: "inner_ok orig (?g\<lparr>in_current := ?c\<rparr>)"
        using ok by (simp add: log_ok_def inner_ok_current)
      have "remembers orig (?g\<lparr>in_current := ?c\<rparr>) (\<lambda>_. {}) (\<lambda>_. {})" by (simp add: remembers_def)
      moreover have "dir_ok C orig D (\<lambda>_. {}) (\<lambda>_. {})" by (rule dir_ok_mono [OF ok(2)]) auto
      ultimately show ?thesis
        using persist_ok(4) [OF assms(1) _ _ I _ _ _ p] Inr ok by (simp add: log_ok_def)
    qed
    ultimately show ?thesis using r by auto
  qed
qed

text \<open>
  C24. Merging two histories of a network only withholds: whatever the merged section calls a first
  submission, each of the two would have called one, and every hash that one of them holds is held,
  or covered by its sender's nonce mark, or the merged section is uncertain.
\<close>

theorem merge_only_withholds:
  assumes "section_wf orig a" and "section_wf orig b"
  shows "(absent_is_first (absorb a b) origin source \<longrightarrow>
            absent_is_first a origin source \<and> absent_is_first b origin source) \<and>
    (contains a h \<or> contains b h \<longrightarrow> known orig (absorb a b) h)"
proof -
  have "known orig a h \<or> known orig b h" if "contains a h \<or> contains b h"
    using that by (auto simp: known_def)
  then show ?thesis
    using less_sure_first absorb_less_sure [OF assms] absorb_known [OF assms] by blast
qed

text \<open>
  C25. The answer is not always negative: bytes that the record does not hold, on a network whose
  history is certain, with a nonce above the evicted mark of their sender, and that no archived
  section holds, are a first submission as soon as they are recorded; and this process has then
  attempted them once.
\<close>

theorem new_bytes_are_first:
  assumes "\<not> sec_uncertain (in_current (sl_inner L))" and "sec_upgrade (in_current (sl_inner L)) = None"
    and "\<not> contains (in_current (sl_inner L)) (to_ascii_lowercase hash)"
    and "\<not> sent_on_a_previous_network (sl_inner L) (to_ascii_lowercase hash)"
    and "\<forall>hw. bt_get (to_ascii_lowercase sender) (sec_evicted (in_current (sl_inner L))) = Some hw \<longrightarrow> hw < nonce"
    and "bt_get (to_ascii_lowercase hash) (sl_attempts L) = None" and "bt_wf (sl_attempts L)"
    and "try_record_call C F hash sender nonce source call now L D = (Inr b, L', D')"
  shows "b \<and> sole_attempt L' hash"
proof -
  have "set_bound (Some (to_ascii_lowercase sender, nonce)) source (in_current (sl_inner L)) = in_current (sl_inner L)"
    using assms(2) by (simp add: set_bound_def)
  moreover have "absent_is_first (in_current (sl_inner L)) (Some (to_ascii_lowercase sender, nonce)) source"
    using assms(1,2,5) by (auto simp: absent_is_first_def split: option.splits)
  ultimately show ?thesis
    using assms(3,4,6,7,8)
    by (auto simp: try_record_call_def record_entry_def Let_def sole_attempt_def count_attempt_def bt_get_insert
        split: prod.splits sum.splits)
qed

lemma open_broken:
  assumes "read_record C F RECORD_FILE D = Unparsable \<or> read_record C F RECORD_FILE D = Unreadable"
    and "open_with C F RECORD_FILE genesis D = (L, D')"
  shows "sec_uncertain (in_current (sl_inner L))" and "in_history_lost (sl_inner L)"
    and "\<forall>(g, s)\<in>set (in_previous (sl_inner L)). sec_uncertain s"
proof -
  let ?found = "read_record C F RECORD_FILE D"
  let ?I = "open_inner C F RECORD_FILE (to_ascii_lowercase genesis) D ?found"
  obtain secs lost upgraded opened_on where
    os: "open_sections C F RECORD_FILE D ?found = (secs, lost, upgraded, opened_on)"
    by (cases "open_sections C F RECORD_FILE D ?found") auto
  have lost: "lost" and secs: "secs = map (\<lambda>(g, s). (g, s\<lparr>sec_uncertain := True\<rparr>))
      (merge_legacy (read_legacy C F RECORD_FILE D) [])"
    using os assms(1) by (auto simp: open_sections_def found_sections_def Let_def)
  have all: "\<forall>(g, s)\<in>set secs. sec_uncertain s" by (auto simp: secs)
  have "sec_uncertain s" if "bt_get g secs = Some s" for g s
    using that all by (auto simp: bt_get_def dest: map_of_SomeD)
  with all lost have I: "sec_uncertain (in_current ?I)" "in_history_lost ?I"
    "\<forall>(g, s)\<in>set (in_previous ?I). sec_uncertain s"
    by (auto simp: open_inner_def os Let_def bt_remove_def split: option.splits)
  have "sl_inner L = ?I"
    using assms by (auto simp: open_with_def Let_def split: prod.splits sum.splits if_splits)
  with I show "sec_uncertain (in_current (sl_inner L))" "in_history_lost (sl_inner L)"
    "\<forall>(g, s)\<in>set (in_previous (sl_inner L)). sec_uncertain s" by simp_all
qed

lemma keep_aside_kept:
  assumes "keep_aside F path tag D = (Inr free, D')" and "bt_wf D"
  shows "bt_get free D' = bt_get path D \<and> starts_with (path @ ''.'' @ tag) free"
  using assms
  by (auto simp: keep_aside_def Let_def free_aside_name_def bt_get_insert aside_name_def starts_with_iff
      dest!: find_Some_mem split: option.splits if_splits)

text \<open>
  A record that cannot be read or parsed fails closed and is not lost. After opening on it no
  send is a first submission, whatever its nonce and its source, every archived section is uncertain
  and networks seen later will start uncertain. The bytes of the damaged file are still in place or
  under a second name.
\<close>

theorem unreadable_record_fails_closed:
  assumes "read_record C F RECORD_FILE D = Unparsable \<or> read_record C F RECORD_FILE D = Unreadable"
    and "bt_wf D" and "open_with C F RECORD_FILE genesis D = (L, D')"
  shows "fst (try_record_call C F' hash sender nonce source call now L D'') \<noteq> Inr True \<and>
    in_history_lost (sl_inner L) \<and> (\<forall>(g, s)\<in>set (in_previous (sl_inner L)). sec_uncertain s) \<and>
    (bt_get RECORD_FILE D' = bt_get RECORD_FILE D \<or>
     (\<exists>f. starts_with (RECORD_FILE @ ''.unreadable'') f \<and> bt_get f D' = bt_get RECORD_FILE D))"
proof -
  note b = open_broken [OF assms(1,3)]
  have first: "fst (try_record_call C F' hash sender nonce source call now L D'') \<noteq> Inr True"
  proof
    assume "fst (try_record_call C F' hash sender nonce source call now L D'') = Inr True"
    then obtain L1 D1 where "record_entry C F' hash (Some (sender, nonce)) source call now L D'' = (Inr True, L1, D1)"
      unfolding try_record_call_def by (metis prod.collapse)
    from record_first(2) [OF this] b(1) show False by (simp add: absent_is_first_def)
  qed
  have kept: "bt_get RECORD_FILE D' = bt_get RECORD_FILE D \<or>
     (\<exists>f. starts_with (RECORD_FILE @ ''.unreadable'') f \<and> bt_get f D' = bt_get RECORD_FILE D)"
  proof -
    obtain k D1 where k: "keep_aside F RECORD_FILE ''unreadable'' D = (k, D1)" by force
    have D1: "bt_wf D1" "bt_get RECORD_FILE D1 = bt_get RECORD_FILE D"
      using keep_aside_same [OF assms(2), of F "''unreadable''"] k by (auto simp: same_files_def)
    show ?thesis
    proof (cases k)
      case (Inl e)
      then have "D' = D1"
        using assms(1,3) k by (auto simp: open_with_def Let_def split: prod.splits sum.splits if_splits)
      with D1 show ?thesis by simp
    next
      case (Inr f)
      with k assms(2) have f: "bt_get f D1 = bt_get RECORD_FILE D" "starts_with (RECORD_FILE @ ''.unreadable'') f"
        using keep_aside_kept [of F RECORD_FILE "''unreadable''" D f D1] by auto
      then have fne: "f \<noteq> RECORD_FILE" "f \<noteq> LEGACY_FILE"
        by (auto simp: starts_with_iff RECORD_FILE_def LEGACY_FILE_def)
      let ?m = "\<lambda>D. snd (set_aside F LEGACY_FILE ''migrated'' D)"
      have mig: "bt_get f (?m E) = bt_get f E" if "bt_wf E" "bt_get f E \<noteq> None" for E
        using that fne(2)
        by (auto simp: set_aside_def Let_def free_aside_name_def bt_get_insert bt_get_remove bt_wf_remove
            dest!: find_Some_mem split: option.splits)
      have some: "bt_get RECORD_FILE D \<noteq> None"
        using assms(1) by (cases "bt_get RECORD_FILE D") (auto simp: read_record_def)
      have "D' \<in> {D1, ?m D1} \<or> (\<exists>body. D' \<in> {bt_insert RECORD_FILE (Content body) D1, ?m (bt_insert RECORD_FILE (Content body) D1)})"
        using assms(1,3) k Inr
        by (auto simp: open_with_def write_atomic_def Let_def split: prod.splits sum.splits if_splits option.splits)
      moreover have "bt_get f (bt_insert RECORD_FILE node D1) = bt_get f D1" for node
        using D1 fne by (simp add: bt_get_insert)
      ultimately have "bt_get f D' = bt_get f D1"
        using mig [of D1] mig [of "bt_insert RECORD_FILE (Content body) D1" for body] D1 f some
        by (auto simp: bt_wf_insert)
      with f show ?thesis by auto
    qed
  qed
  from first b kept show ?thesis by blast
qed

lemma latest_call_snoc:
  assumes "sec_entries (in_current (sl_inner L)) = es @ [e]"
    and "e_sender e = Some (to_ascii_lowercase sender)" and "e_to e = Some (to_ascii_lowercase (cm_to c))"
    and "e_selector e = Some (to_ascii_lowercase (cm_selector c))"
  shows "latest_call L sender c =
    (if e_forgotten e then None else Some \<lparr>rc_hash = e_hash e, rc_nonce = e_nonce e, rc_at_ms = e_at_ms e\<rparr>)"
  using assms by (simp add: latest_call_def)

lemma evict_snoc:
  assumes "sec_entries s = es @ [e]"
  shows "\<exists>fs. sec_entries (evict_to_capacity s) = fs @ [e] \<and> set fs \<subseteq> set es"
proof -
  obtain k where k: "sec_entries (evict_to_capacity s) = drop k (es @ [e])"
    using evict_entries [of s] assms by auto
  have "e \<in> set (sec_entries (evict_to_capacity s))" using evict_keeps_last assms by blast
  then have "k \<le> length es" using k by (cases "k \<le> length es") auto
  then show ?thesis using k set_drop_subset [of k es] by auto
qed

lemma update_first_last:
  "(\<And>x. x \<in> set xs \<Longrightarrow> \<not> p x) \<Longrightarrow> p y \<Longrightarrow> update_first p f (xs @ [y]) = xs @ [f y]"
  by (induction xs) auto

text \<open>
  Recovery after a restart: once a call has been recorded, \<open>latest_call\<close> finds it, with its nonce
  and time; once it is forgotten, \<open>latest_call\<close> finds nothing for it (never an older send of the same
  call), and the hash is still recorded.
\<close>

theorem forgotten_call_stays_forgotten:
  assumes "\<not> contains (in_current (sl_inner L)) (to_ascii_lowercase hash)"
    and "try_record_call C F hash sender nonce source (Some c) now L D = (Inr b, L1, D1)"
    and "forget C F' hash L1 D1 = (Inr b', L2, D2)"
  shows "latest_call L1 sender c =
      Some \<lparr>rc_hash = to_ascii_lowercase hash, rc_nonce = Some nonce, rc_at_ms = now\<rparr> \<and>
    b' \<and> latest_call L2 sender c = None \<and> contains (in_current (sl_inner L2)) (to_ascii_lowercase hash)"
proof -
  let ?h = "to_ascii_lowercase hash" and ?g = "sl_inner L"
  let ?o = "Some (to_ascii_lowercase sender, nonce)"
  let ?e = "new_entry ?h ?o (Some c) now"
  let ?s = "set_bound ?o source (in_current ?g)"
  have e: "e_hash ?e = ?h" "e_sender ?e = Some (to_ascii_lowercase sender)" "e_nonce ?e = Some nonce"
    "e_to ?e = Some (to_ascii_lowercase (cm_to c))" "e_selector ?e = Some (to_ascii_lowercase (cm_selector c))"
    "e_at_ms ?e = now" "\<not> e_forgotten ?e"
    by (simp_all add: new_entry_def)
  obtain fs where fs: "sec_entries (push_entry ?e ?s) = fs @ [?e]"
    and sub: "set fs \<subseteq> set (sec_entries (in_current ?g))"
    using evict_snoc [of "?s\<lparr>sec_entries := sec_entries ?s @ [?e]\<rparr>" "sec_entries ?s" ?e]
    by (auto simp: push_entry_def)
  have L1: "sec_entries (in_current (sl_inner L1)) = fs @ [?e]"
    using assms(1,2) fs
    by (auto simp: try_record_call_def record_entry_def Let_def split: prod.splits sum.splits)
  then have c1: "contains (in_current (sl_inner L1)) ?h" using e(1) by (simp add: contains_iff)
  have "\<not> e_hash x = ?h" if "x \<in> set fs" for x
    using that sub assms(1) unfolding contains_iff by (metis image_eqI subsetD)
  then have "update_first (\<lambda>e. e_hash e = ?h) (\<lambda>e. e\<lparr>e_forgotten := True\<rparr>) (fs @ [?e]) = fs @ [?e\<lparr>e_forgotten := True\<rparr>]"
    using e(1) by (intro update_first_last) auto
  then have L2: "sec_entries (in_current (sl_inner L2)) = fs @ [?e\<lparr>e_forgotten := True\<rparr>]" "b'"
    using assms(3) c1 L1 by (auto simp: forget_def Let_def split: prod.splits sum.splits)
  show ?thesis
    using latest_call_snoc [OF L1 e(2,4,5)] latest_call_snoc [OF L2(1), of sender c] e L2
    by (simp add: contains_iff)
qed

section \<open>A concrete record\<close>

text \<open>A codec that knows a list of documents, by their position.\<close>

fun doc_index :: "'a list \<Rightarrow> 'a \<Rightarrow> nat option" where
  "doc_index [] d = None"
| "doc_index (x # xs) d = (if d = x then Some 0 else map_option Suc (doc_index xs d))"

lemma doc_index_nth: "doc_index ds d = Some n \<Longrightarrow> n < length ds \<and> ds ! n = d"
  by (induction ds arbitrary: n) (auto split: if_splits)

definition docs_codec :: "RecordDisk list \<Rightarrow> log_codec" where
  "docs_codec ds =
     \<lparr>record_to_json = (\<lambda>d. map_option (\<lambda>n. replicate n CHR ''x'') (doc_index ds d)),
      record_from_json = (\<lambda>s. if length s < length ds then Some (ds ! length s) else None),
      legacy_from_json = (\<lambda>s. None), legacy_v2_from_json = (\<lambda>s. None),
      list_from_json = (\<lambda>s. None)\<rparr>"

lemma docs_codec_law: "log_codec_law (docs_codec ds)"
  by (auto simp: log_codec_law_def docs_codec_def dest: doc_index_nth)

definition demo_faults :: log_faults where
  "demo_faults =
     \<lparr>lf_read = True, lf_read_legacy = True, lf_list_dir = True, lf_link = True, lf_copy = True,
      lf_sync_aside = True, lf_rename_legacy = True, lf_sync_legacy = True, lf_write = True,
      lf_sync_dir = True, lf_error = []\<rparr>"

definition demo_inner :: "Entry list \<Rightarrow> Inner" where
  "demo_inner es =
     \<lparr>in_genesis = ''0x01'', in_current = section_default\<lparr>sec_entries := es\<rparr>, in_previous = [],
      in_history_lost = False\<rparr>"

definition demo_call :: CallMeta where "demo_call = \<lparr>cm_to = ''0xc'', cm_selector = ''0xd''\<rparr>"

definition demo_entry :: "bool \<Rightarrow> Entry" where
  "demo_entry f =
     \<lparr>e_hash = ''0xab'', e_sender = Some ''0xcd'', e_nonce = Some 7, e_to = Some ''0xc'',
      e_selector = Some ''0xd'', e_at_ms = Some 5, e_forgotten = f\<rparr>"

definition demo_docs :: "RecordDisk list" where
  "demo_docs = map inner_to_disk
     [demo_inner [], demo_inner [demo_entry False], demo_inner [demo_entry True]]"

abbreviation demo_codec :: log_codec where "demo_codec \<equiv> docs_codec demo_docs"

definition demo_log :: SubmittedTxLog where
  "demo_log = \<lparr>sl_path = Some RECORD_FILE, sl_inner = demo_inner [], sl_attempts = [], sl_blocked = None\<rparr>"

definition demo_dir :: dir where "demo_dir = [(RECORD_FILE, Content [])]"

lemma demo_lower [simp]:
  "to_ascii_lowercase ''0x01'' = ''0x01''" "to_ascii_lowercase ''0xab'' = ''0xab''"
  "to_ascii_lowercase ''0xcd'' = ''0xcd''" "to_ascii_lowercase ''0xc'' = ''0xc''"
  "to_ascii_lowercase ''0xd'' = ''0xd''"
  by code_simp+

lemma demo_encode:
  "record_to_json demo_codec (inner_to_disk (demo_inner [])) = Some []"
  "record_to_json demo_codec (inner_to_disk (demo_inner [demo_entry False])) = Some ''x''"
  "record_to_json demo_codec (inner_to_disk (demo_inner [demo_entry True])) = Some ''xx''"
  by (simp_all add: docs_codec_def demo_docs_def inner_to_disk_def section_to_disk_def demo_inner_def
      demo_entry_def numeral_2_eq_2)

lemma demo_open: "open_with demo_codec demo_faults RECORD_FILE ''0x01'' [] = (demo_log, demo_dir)"
proof -
  have found: "read_record demo_codec demo_faults RECORD_FILE [] = Missing"
    by (simp add: read_record_def bt_get_def)
  have leg: "read_legacy demo_codec demo_faults RECORD_FILE [] = None"
    by (simp add: read_legacy_def bt_get_def)
  have "open_inner demo_codec demo_faults RECORD_FILE ''0x01'' [] Missing = demo_inner []"
    by (simp add: open_inner_def open_sections_def found_sections_def has_unreadable_sibling_def leg
        merge_legacy_def bt_get_def bt_remove_def demo_inner_def section_default_def)
  then show ?thesis
    by (simp add: open_with_def found leg write_atomic_def demo_encode)
      (simp add: demo_log_def demo_dir_def demo_faults_def)
qed

definition demo_sent_log :: "bool \<Rightarrow> SubmittedTxLog" where
  "demo_sent_log f =
     \<lparr>sl_path = Some RECORD_FILE, sl_inner = demo_inner [demo_entry f], sl_attempts = [(''0xab'', 1)],
      sl_blocked = None\<rparr>"

lemma demo_record:
  "try_record_call demo_codec demo_faults ''0xab'' ''0xcd'' 7 Fetched (Some demo_call) (Some 5) demo_log demo_dir
     = (Inr True, demo_sent_log False, [(RECORD_FILE, Content ''x'')])"
proof -
  have push: "push_entry (new_entry ''0xab'' (Some (''0xcd'', 7)) (Some demo_call) (Some 5))
      (set_bound (Some (''0xcd'', 7)) Fetched section_default) = section_default\<lparr>sec_entries := [demo_entry False]\<rparr>"
    by (simp add: push_entry_def set_bound_def new_entry_def demo_call_def demo_entry_def CAPACITY_def)
  have first: "absent_is_first section_default (Some (''0xcd'', 7)) Fetched"
    by (simp add: absent_is_first_def bt_get_def)
  have cur: "in_current (demo_inner []) = section_default"
    by (simp add: demo_inner_def section_default_def)
  have next': "demo_inner []\<lparr>in_current := section_default\<lparr>sec_entries := [demo_entry False]\<rparr>\<rparr>
      = demo_inner [demo_entry False]"
    by (simp add: demo_inner_def)
  show ?thesis
    unfolding try_record_call_def record_entry_def Let_def
    by (simp add: demo_log_def cur push first next' contains_def sent_on_a_previous_network_def
        log_persist_def write_atomic_def demo_encode demo_dir_def demo_faults_def demo_sent_log_def
        count_attempt_def bt_get_def)
      (simp add: demo_inner_def)
qed

abbreviation demo_orig :: origins where "demo_orig \<equiv> (\<lambda>h. (''0xcd'', 7))"

lemma demo_run: "log_run demo_codec demo_orig (\<lambda>_. {}) \<lparr>ls_log = Some demo_log, ls_dir = demo_dir, ls_sent = \<lambda>_. {}\<rparr>"
proof -
  have "log_run demo_codec demo_orig (\<lambda>_. {}) \<lparr>ls_log = None, ls_dir = [], ls_sent = \<lambda>_. {}\<rparr>"
    by (rule log_run.start) (simp add: first_files_def bt_get_def)
  then show ?thesis
    by (rule log_run.step) (rule log_step.open_log [OF demo_open])
qed

lemma demo_origin: "origin_of demo_orig ''0xab'' ''0xcd'' 7"
  by (simp add: origin_of_def)


theorem recorded_before_send_witness:
  "contains (in_current (sl_inner (demo_sent_log False))) (to_ascii_lowercase ''0xab'') \<and>
   (\<exists>body. bt_get RECORD_FILE [(RECORD_FILE, Content ''x'')] = Some (Content body) \<and>
      parse_record demo_codec body = Some (sl_inner (demo_sent_log False)))"
proof -
  have "fetched_ok demo_orig {} Fetched ''0xcd'' 7" by (simp add: fetched_ok_def)
  moreover have "\<not> contains (in_current (sl_inner demo_log)) (to_ascii_lowercase ''0xab'')"
    by (simp add: contains_def demo_log_def demo_inner_def)
  ultimately show ?thesis
    using recorded_before_send [OF docs_codec_law demo_run demo_origin _ _ demo_record] by simp
qed

theorem merge_only_withholds_witness:
  "section_wf demo_orig (section_default\<lparr>sec_entries := [demo_entry False]\<rparr>) \<and>
   known demo_orig (absorb (section_default\<lparr>sec_entries := [demo_entry False]\<rparr>) damaged) ''0xab''"
proof -
  have wf: "section_wf demo_orig (section_default\<lparr>sec_entries := [demo_entry False]\<rparr>)" "section_wf demo_orig damaged"
    by (simp_all add: section_wf_def entry_wf_def demo_entry_def lowercased_def damaged_def)
  then show ?thesis
    using merge_only_withholds [OF wf, of _ _ "''0xab''"]
    by (simp add: contains_def demo_entry_def)
qed

theorem new_bytes_are_first_witness:
  "sole_attempt (demo_sent_log False) ''0xab''"
  using new_bytes_are_first [OF _ _ _ _ _ _ _ demo_record]
  by (simp add: demo_log_def demo_inner_def contains_def sent_on_a_previous_network_def bt_get_def)

theorem unreadable_record_fails_closed_witness:
  "read_record demo_codec demo_faults RECORD_FILE [(RECORD_FILE, NoAccess)] = Unreadable \<and>
   in_history_lost (sl_inner (fst (open_with demo_codec demo_faults RECORD_FILE ''0x01'' [(RECORD_FILE, NoAccess)])))"
proof -
  have r: "read_record demo_codec demo_faults RECORD_FILE [(RECORD_FILE, NoAccess)] = Unreadable"
    by (simp add: read_record_def bt_get_def)
  have wf: "bt_wf [(RECORD_FILE, NoAccess)]" by (simp add: bt_wf_def)
  obtain L D' where "open_with demo_codec demo_faults RECORD_FILE ''0x01'' [(RECORD_FILE, NoAccess)] = (L, D')"
    by force
  with r unreadable_record_fails_closed [OF disjI2 [OF r] wf this] show ?thesis by simp
qed

lemma demo_forget:
  "forget demo_codec demo_faults ''0xab'' (demo_sent_log False) [(RECORD_FILE, Content ''x'')]
     = (Inr True, demo_sent_log True, [(RECORD_FILE, Content ''xx'')])"
proof -
  have es: "e_hash (demo_entry False) = ''0xab''" "demo_entry False\<lparr>e_forgotten := True\<rparr> = demo_entry True"
    by (simp_all add: demo_entry_def)
  have cur: "sec_entries (in_current (demo_inner [demo_entry False])) = [demo_entry False]"
    by (simp add: demo_inner_def)
  have next': "demo_inner [demo_entry False]\<lparr>in_current := in_current (demo_inner [demo_entry False])
      \<lparr>sec_entries := [demo_entry True]\<rparr>\<rparr> = demo_inner [demo_entry True]"
    by (simp add: demo_inner_def section_default_def)
  have con: "contains (in_current (demo_inner [demo_entry False])) ''0xab''"
    by (simp add: contains_def demo_inner_def demo_entry_def)
  have inner: "sl_inner (demo_sent_log False) = demo_inner [demo_entry False]"
    by (simp add: demo_sent_log_def)
  have p: "log_persist demo_codec demo_faults (demo_sent_log False) (demo_inner [demo_entry True])
      [(RECORD_FILE, Content ''x'')] = (Inr (), [(RECORD_FILE, Content ''xx'')])"
  proof -
    have "write_atomic demo_codec demo_faults RECORD_FILE (inner_to_disk (demo_inner [demo_entry True]))
        [(RECORD_FILE, Content ''x'')] = (Inr (), [(RECORD_FILE, Content ''xx'')])"
      by (simp add: write_atomic_def demo_encode) (simp add: demo_faults_def)
    then show ?thesis by (simp add: log_persist_def demo_sent_log_def)
  qed
  show ?thesis
    by (simp add: forget_def Let_def inner con cur es next' p) (simp add: demo_sent_log_def)
qed

theorem forgotten_call_stays_forgotten_witness:
  "latest_call (demo_sent_log False) ''0xcd'' demo_call =
     Some \<lparr>rc_hash = to_ascii_lowercase ''0xab'', rc_nonce = Some 7, rc_at_ms = Some 5\<rparr> \<and>
   latest_call (demo_sent_log True) ''0xcd'' demo_call = None"
  using forgotten_call_stays_forgotten [OF _ demo_record demo_forget]
  by (simp add: contains_def demo_log_def demo_inner_def)

section \<open>A gap\<close>

text \<open>
  A record that lost its history marks every section it creates later as uncertain, but not the
  section of the older builds' network when a legacy file creates it: with a legacy file of an empty
  list, the network whose history was lost is at most upgrade-bounded.
\<close>

theorem lost_history_not_uncertain_after_migration:
  assumes "parse_record C body = Some I" and "in_history_lost I" and "\<not> holds_legacy I"
    and "bt_wf (in_previous I)" and "lf_read F" and "lf_read_legacy F"
    and "from_legacy C b = section_default"
    and "D = [(RECORD_FILE, Content body), (LEGACY_FILE, Content b)]"
  shows "\<not> sec_uncertain (in_current (open_inner C F RECORD_FILE LEGACY_GENESIS D (Record I)))"
proof -
  have leg: "read_legacy C F RECORD_FILE D = Some section_default"
    using assms by (simp add: read_legacy_def bt_get_def)
  let ?s0 = "bt_insert (in_genesis I) (in_current I) (in_previous I)"
  have "bt_get LEGACY_GENESIS (merge_legacy (Some section_default) ?s0) = Some section_default"
    using assms absorb_default [OF section_default_ok]
    by (auto simp: merge_legacy_def bt_get_insert bt_wf_insert holds_legacy_def)
  then show ?thesis
    by (simp add: open_inner_def open_sections_def found_sections_def leg Let_def)
qed

end
