(* ===== verification/Rpc.thy ===== *)
theory Rpc
  imports Externals
begin

text \<open>
  \<open>kit/src/rpc.rs\<close>: the network gate and the JSON-RPC client. A client is its request counter and the
  request bodies that went out on the wire; the node is a function from everything sent so far to
  its next answer, so that an answer may depend on the whole history. The transport is
  \<open>HttpTransport\<close>, with \<open>ureq\<close>'s outcome as a datatype. \<open>{:?}\<close> of a string (it needs Unicode tables)
  is the parameter \<open>dbg\<close>. The results: nothing reaches \<open>eth_sendRawTransaction\<close> through a gated send
  unless the endpoint's chain id and block-0 hash were read and match, a gate refusal means that
  nothing was sent, and polling is bounded.
\<close>

section \<open>The network gate\<close>

record ExpectedNetwork =
  en_name :: string
  en_chain_id :: "nat option"
  en_genesis_hash :: "string option"

text \<open>The process-wide gate (a \<open>OnceLock\<close>) and the gates added for the current thread.\<close>

record NetGates =
  ng_installed :: "ExpectedNetwork option"
  ng_added :: "ExpectedNetwork list"

definition install_network_gate :: "ExpectedNetwork \<Rightarrow> NetGates \<Rightarrow> bool \<times> NetGates" where
  "install_network_gate expected G =
     (case ng_installed G of
        None \<Rightarrow> (True, G\<lparr>ng_installed := Some expected\<rparr>)
      | Some g \<Rightarrow> (False, G))"

definition is_nonzero_block_hash :: "string \<Rightarrow> bool" where
  "is_nonzero_block_hash s \<longleftrightarrow>
     length s = 66 \<and> starts_with ''0x'' s \<and> list_all is_ascii_hexdigit (drop 2 s)
       \<and> \<not> list_all (\<lambda>b. b = CHR ''0'') (drop 2 s)"

definition is_set :: "ExpectedNetwork \<Rightarrow> bool" where
  "is_set g \<longleftrightarrow>
     (case en_chain_id g of Some c \<Rightarrow> c \<noteq> 0 | None \<Rightarrow> False) \<and>
     (case en_genesis_hash g of Some h \<Rightarrow> is_nonzero_block_hash (to_ascii_lowercase h) | None \<Rightarrow> False)"

datatype SignatureScope = Unbound | Chain nat

datatype RpcError =
    Transport string
  | BadResponse string
  | NodeError string
  | MissingField string
  | ReceiptTimeout
  | RpcWrongNetwork string
  | NetworkUnverified string
  | RateLimited

fun rpc_error_text :: "RpcError \<Rightarrow> string" where
  "rpc_error_text (Transport m) = ''rpc transport error: '' @ m"
| "rpc_error_text (BadResponse m) = ''rpc bad response: '' @ m"
| "rpc_error_text (NodeError m) = ''rpc node error: '' @ m"
| "rpc_error_text (MissingField m) = ''rpc missing/invalid field: '' @ m"
| "rpc_error_text ReceiptTimeout = ''rpc receipt not found within poll budget''"
| "rpc_error_text (RpcWrongNetwork m) = ''network check refused: '' @ m"
| "rpc_error_text (NetworkUnverified m) =
     ''the network could not be checked before sending, so nothing was sent: '' @ m"
| "rpc_error_text RateLimited = ''rpc rate limited (HTTP 429)''"

definition check_one :: "(string \<Rightarrow> string) \<Rightarrow> ExpectedNetwork \<Rightarrow> SignatureScope \<Rightarrow> RpcError + unit" where
  "check_one dbg gate scope =
     (if \<not> is_set gate then
        Inl (RpcWrongNetwork (''this build has no network set (profile '' @ dbg (en_name gate)
          @ ''), so the wallet signs nothing; update Citrate Core''))
      else
        (case scope of
           Chain c \<Rightarrow>
             (let want = (case en_chain_id gate of Some w \<Rightarrow> w | None \<Rightarrow> 0) in
              if c \<noteq> want then
                Inl (RpcWrongNetwork (''the signature is for chain '' @ show_nat c
                  @ '', this build targets chain '' @ show_nat want @ '' ('' @ en_name gate @ '')''))
              else Inr ())
         | Unbound \<Rightarrow> Inr ()))"

text \<open>The installed gate, then the added ones in order; the first refusal is returned.\<close>

definition gates_of :: "NetGates \<Rightarrow> ExpectedNetwork list" where
  "gates_of G = (case ng_installed G of None \<Rightarrow> [] | Some g \<Rightarrow> [g]) @ ng_added G"

fun check_gates :: "(ExpectedNetwork \<Rightarrow> RpcError + unit) \<Rightarrow> ExpectedNetwork list \<Rightarrow> RpcError + unit" where
  "check_gates one [] = Inr ()"
| "check_gates one (g # gs) = and_then (one g) (\<lambda>_. check_gates one gs)"

definition check_wallet_signing ::
  "(string \<Rightarrow> string) \<Rightarrow> NetGates \<Rightarrow> SignatureScope \<Rightarrow> RpcError + unit" where
  "check_wallet_signing dbg G scope = check_gates (\<lambda>g. check_one dbg g scope) (gates_of G)"

definition check_rpc_allowed :: "(string \<Rightarrow> string) \<Rightarrow> NetGates \<Rightarrow> RpcError + unit" where
  "check_rpc_allowed dbg G =
     check_gates (\<lambda>g. if is_set g then Inr ()
        else Inl (RpcWrongNetwork (''this build has no network set (profile '' @ dbg (en_name g)
          @ ''), so no RPC request is made; update Citrate Core''))) (gates_of G)"

text \<open>\<open>f\<close> runs with one more gate on this thread; the guard takes it off again.\<close>

definition with_added_network_gate :: "ExpectedNetwork \<Rightarrow> (NetGates \<Rightarrow> 'r) \<Rightarrow> NetGates \<Rightarrow> 'r" where
  "with_added_network_gate extra f G = f (G\<lparr>ng_added := ng_added G @ [extra]\<rparr>)"

section \<open>The client\<close>

record Receipt =
  r_tx_hash :: string
  r_block_number :: nat
  r_status :: "nat option"
  r_gas_used :: "nat option"
  r_effective_gas_price :: "nat option"

record LogEntry =
  lg_topics :: "string list"
  lg_data :: string
  lg_block_number :: nat

text \<open>What \<open>ureq\<close> answers: an error status with its text, another failure, a body that is not JSON,
  or a JSON body.\<close>

datatype http_answer = HttpStatus nat string | HttpFailed string | HttpBadJson string | HttpOk Value

record RpcClient =
  rc_next_id :: nat
  rc_wire :: "Value list"

text \<open>The environment of a call: the gates, \<open>{:?}\<close>, and the node behind the wire.\<close>

record rpc_env =
  re_gates :: NetGates
  re_debug :: "string \<Rightarrow> string"
  re_node :: "Value list \<Rightarrow> http_answer"

definition map_ureq_error :: "nat option \<Rightarrow> string \<Rightarrow> RpcError" where
  "map_ureq_error status text = (if status = Some 429 then RateLimited else Transport text)"

definition http_call :: "rpc_env \<Rightarrow> Value \<Rightarrow> RpcClient \<Rightarrow> (RpcError + Value) \<times> RpcClient" where
  "http_call R body c =
     (case check_rpc_allowed (re_debug R) (re_gates R) of
        Inl e \<Rightarrow> (Inl e, c)
      | Inr u \<Rightarrow>
        (let c' = c\<lparr>rc_wire := rc_wire c @ [body]\<rparr> in
         (case re_node R (rc_wire c') of
            HttpStatus n t \<Rightarrow> Inl (map_ureq_error (Some n) t)
          | HttpFailed t \<Rightarrow> Inl (map_ureq_error None t)
          | HttpBadJson t \<Rightarrow> Inl (BadResponse t)
          | HttpOk v \<Rightarrow> Inr v, c')))"

definition with_transport :: RpcClient where
  "with_transport = \<lparr>rc_next_id = 1, rc_wire = []\<rparr>"

definition build_request :: "string \<Rightarrow> Value \<Rightarrow> RpcClient \<Rightarrow> Value \<times> RpcClient" where
  "build_request method params c =
     (VObject [(''id'', VNumber (Some (rc_next_id c)) (show_nat (rc_next_id c))), (''jsonrpc'', VString ''2.0''),
        (''method'', VString method), (''params'', params)],
      c\<lparr>rc_next_id := wrap_inc (rc_next_id c)\<rparr>)"

definition result_of :: "Value \<Rightarrow> RpcError + Value" where
  "result_of resp =
     (case value_get resp ''error'' of
        Some err \<Rightarrow>
          Inl (NodeError (case value_get err ''message'' of
                            Some m \<Rightarrow> (case as_str m of Some s \<Rightarrow> s | None \<Rightarrow> ''unknown node error'')
                          | None \<Rightarrow> ''unknown node error''))
      | None \<Rightarrow> ok_or (MissingField ''result'') (value_get resp ''result''))"

text \<open>The rest of a call after its answer, with \<open>?\<close> on the answer.\<close>

definition rpc_then :: "('e + 'a) \<times> 's \<Rightarrow> ('a \<Rightarrow> 's \<Rightarrow> ('e + 'b) \<times> 's) \<Rightarrow> ('e + 'b) \<times> 's" where
  "rpc_then r f = (case r of (Inl e, s) \<Rightarrow> (Inl e, s) | (Inr x, s) \<Rightarrow> f x s)"

definition rpc_map :: "('e + 'a) \<times> 's \<Rightarrow> ('a \<Rightarrow> 'e + 'b) \<Rightarrow> ('e + 'b) \<times> 's" where
  "rpc_map r f = (and_then (fst r) f, snd r)"

definition rpc_request :: "rpc_env \<Rightarrow> string \<Rightarrow> Value \<Rightarrow> RpcClient \<Rightarrow> (RpcError + Value) \<times> RpcClient" where
  "rpc_request R method params c =
     (let (body, c1) = build_request method params c in rpc_map (http_call R body c1) result_of)"

definition parse_quantity :: "nat \<Rightarrow> Value \<Rightarrow> string \<Rightarrow> RpcError + nat" where
  "parse_quantity bits v field =
     and_then (ok_or (MissingField (field @ '': not a string'')) (as_str v)) (\<lambda>s.
     and_then (ok_or (MissingField (field @ '': missing 0x prefix'')) (strip_prefix ''0x'' s)) (\<lambda>stripped.
     ok_or (MissingField (field @ '': not hex ('' @ s @ '')'')) (from_str_radix bits 16 stripped)))"

definition parse_hex_quantity :: "Value \<Rightarrow> string \<Rightarrow> RpcError + nat" where
  "parse_hex_quantity v field = parse_quantity 64 v field"

definition parse_hex_quantity_u128 :: "Value \<Rightarrow> string \<Rightarrow> RpcError + nat" where
  "parse_hex_quantity_u128 v field = parse_quantity 128 v field"

definition pending_nonce :: "rpc_env \<Rightarrow> string \<Rightarrow> RpcClient \<Rightarrow> (RpcError + nat) \<times> RpcClient" where
  "pending_nonce R address c =
     rpc_map (rpc_request R ''eth_getTransactionCount'' (VArray [VString address, VString ''pending'']) c)
       (\<lambda>v. parse_hex_quantity v ''eth_getTransactionCount'')"

definition latest_nonce :: "rpc_env \<Rightarrow> string \<Rightarrow> RpcClient \<Rightarrow> (RpcError + nat) \<times> RpcClient" where
  "latest_nonce R address c =
     rpc_map (rpc_request R ''eth_getTransactionCount'' (VArray [VString address, VString ''latest'']) c)
       (\<lambda>v. parse_hex_quantity v ''eth_getTransactionCount'')"

definition transaction_known :: "rpc_env \<Rightarrow> string \<Rightarrow> RpcClient \<Rightarrow> (RpcError + bool) \<times> RpcClient" where
  "transaction_known R tx_hash c =
     rpc_map (rpc_request R ''eth_getTransactionByHash'' (VArray [VString tx_hash]) c) (\<lambda>v. Inr (v \<noteq> VNull))"

definition gas_price :: "rpc_env \<Rightarrow> RpcClient \<Rightarrow> (RpcError + nat) \<times> RpcClient" where
  "gas_price R c =
     rpc_map (rpc_request R ''eth_gasPrice'' (VArray []) c) (\<lambda>v. parse_hex_quantity v ''eth_gasPrice'')"

definition estimate_gas :: "rpc_env \<Rightarrow> Value \<Rightarrow> RpcClient \<Rightarrow> (RpcError + nat) \<times> RpcClient" where
  "estimate_gas R call c =
     rpc_map (rpc_request R ''eth_estimateGas'' (VArray [call]) c)
       (\<lambda>v. parse_hex_quantity v ''eth_estimateGas'')"

definition eth_call :: "'x deps_scheme \<Rightarrow> rpc_env \<Rightarrow> Value \<Rightarrow> RpcClient \<Rightarrow> (RpcError + bytes) \<times> RpcClient" where
  "eth_call X R call c =
     rpc_map (rpc_request R ''eth_call'' (VArray [call, VString ''latest'']) c) (\<lambda>v.
       and_then (ok_or (MissingField ''eth_call: result not a string'') (as_str v)) (\<lambda>s.
       and_then (ok_or (MissingField ''eth_call: missing 0x prefix'') (strip_prefix ''0x'' s)) (\<lambda>stripped.
       ok_or (MissingField (''eth_call: result not hex ('' @ s @ '')'')) (hex_decode X stripped))))"

fun collect_topics :: "Value list \<Rightarrow> RpcError + string list" where
  "collect_topics [] = Inr []"
| "collect_topics (t # ts) =
     and_then (ok_or (MissingField ''log.topics[]: not a string'') (as_str t)) (\<lambda>s.
     and_then (collect_topics ts) (\<lambda>ss. Inr (s # ss)))"

definition parse_log :: "Value \<Rightarrow> RpcError + LogEntry" where
  "parse_log entry =
     and_then (ok_or (MissingField ''log.topics'')
       (case value_get entry ''topics'' of Some t \<Rightarrow> as_array t | None \<Rightarrow> None)) (\<lambda>ts.
     and_then (collect_topics ts) (\<lambda>topics.
     and_then (ok_or (MissingField ''log.data'')
       (case value_get entry ''data'' of Some d \<Rightarrow> as_str d | None \<Rightarrow> None)) (\<lambda>data.
     and_then (ok_or (MissingField ''log.blockNumber'') (value_get entry ''blockNumber'')) (\<lambda>b.
     and_then (parse_hex_quantity b ''log.blockNumber'') (\<lambda>block_number.
     Inr \<lparr>lg_topics = topics, lg_data = data, lg_block_number = block_number\<rparr>)))))"

fun parse_log_list :: "Value list \<Rightarrow> RpcError + LogEntry list" where
  "parse_log_list [] = Inr []"
| "parse_log_list (e # es) =
     and_then (parse_log e) (\<lambda>l. and_then (parse_log_list es) (\<lambda>ls. Inr (l # ls)))"

definition parse_logs :: "Value \<Rightarrow> RpcError + LogEntry list" where
  "parse_logs result =
     and_then (ok_or (MissingField ''eth_getLogs: result not an array'') (as_array result)) parse_log_list"

definition get_logs :: "rpc_env \<Rightarrow> Value \<Rightarrow> RpcClient \<Rightarrow> (RpcError + LogEntry list) \<times> RpcClient" where
  "get_logs R filt c = rpc_map (rpc_request R ''eth_getLogs'' (VArray [filt]) c) parse_logs"

definition block_number :: "rpc_env \<Rightarrow> RpcClient \<Rightarrow> (RpcError + nat) \<times> RpcClient" where
  "block_number R c =
     rpc_map (rpc_request R ''eth_blockNumber'' (VArray []) c) (\<lambda>v. parse_hex_quantity v ''eth_blockNumber'')"

definition chain_id :: "rpc_env \<Rightarrow> RpcClient \<Rightarrow> (RpcError + nat) \<times> RpcClient" where
  "chain_id R c =
     rpc_map (rpc_request R ''eth_chainId'' (VArray []) c) (\<lambda>v. parse_hex_quantity v ''eth_chainId'')"

definition genesis_hash :: "rpc_env \<Rightarrow> RpcClient \<Rightarrow> (RpcError + string) \<times> RpcClient" where
  "genesis_hash R c =
     rpc_map (rpc_request R ''eth_getBlockByNumber'' (VArray [VString ''0x0'', VBool False]) c) (\<lambda>v.
       and_then (ok_or (MissingField ''block 0 hash'')
         (case value_get v ''hash'' of Some h \<Rightarrow> as_str h | None \<Rightarrow> None)) (\<lambda>h.
       let hash = to_ascii_lowercase h in
       if \<not> is_nonzero_block_hash hash then Inl (MissingField (''block 0 hash: '' @ hash)) else Inr hash))"

definition verify_network :: "rpc_env \<Rightarrow> ExpectedNetwork \<Rightarrow> RpcClient \<Rightarrow> (RpcError + unit) \<times> RpcClient" where
  "verify_network R expected c =
     (let name = re_debug R (en_name expected);
          genesis = (case en_genesis_hash expected of
                       None \<Rightarrow> None
                     | Some g \<Rightarrow>
                       if is_nonzero_block_hash (to_ascii_lowercase g) then Some (to_ascii_lowercase g) else None)
      in case en_chain_id expected of
           None \<Rightarrow> (Inl (RpcWrongNetwork (''this build has no chain id set for network '' @ name)), c)
         | Some want_id \<Rightarrow>
           (case genesis of
              None \<Rightarrow> (Inl (RpcWrongNetwork (''this build has no genesis hash set for network '' @ name)), c)
            | Some want_genesis \<Rightarrow>
              rpc_then (chain_id R c) (\<lambda>got_id c1.
              if got_id \<noteq> want_id then
                (Inl (RpcWrongNetwork (''the endpoint is chain '' @ show_nat got_id
                   @ '', this build targets chain '' @ show_nat want_id @ '' ('' @ en_name expected @ '')'')), c1)
              else
                rpc_then (genesis_hash R c1) (\<lambda>got_genesis c2.
                if got_genesis \<noteq> want_genesis then
                  (Inl (RpcWrongNetwork (''the endpoint's block 0 is '' @ got_genesis
                     @ '', this build targets '' @ want_genesis @ '' ('' @ en_name expected
                     @ ''); update Citrate Core'')), c2)
                else (Inr (), c2)))))"

definition gate_error :: "RpcError \<Rightarrow> RpcError" where
  "gate_error e =
     (case e of RpcWrongNetwork m \<Rightarrow> RpcWrongNetwork m | other \<Rightarrow> NetworkUnverified (rpc_error_text other))"

definition send_raw_transaction_gated ::
  "'x deps_scheme \<Rightarrow> rpc_env \<Rightarrow> bytes \<Rightarrow> ExpectedNetwork option \<Rightarrow> RpcClient
     \<Rightarrow> (RpcError + string) \<times> RpcClient" where
  "send_raw_transaction_gated X R raw gate c =
     (case (case gate of
              None \<Rightarrow> (Inr (), c)
            | Some expected \<Rightarrow>
              (case verify_network R expected c of
                 (Inl e, c') \<Rightarrow> (Inl (gate_error e), c')
               | (Inr u, c') \<Rightarrow> (Inr (), c'))) of
        (Inl e, c1) \<Rightarrow> (Inl e, c1)
      | (Inr u, c1) \<Rightarrow>
        rpc_map (rpc_request R ''eth_sendRawTransaction'' (VArray [VString (''0x'' @ hex_encode X raw)]) c1)
          (\<lambda>v. ok_or (MissingField ''sendRawTransaction hash'') (as_str v)))"

definition send_raw_transaction ::
  "'x deps_scheme \<Rightarrow> rpc_env \<Rightarrow> bytes \<Rightarrow> RpcClient \<Rightarrow> (RpcError + string) \<times> RpcClient" where
  "send_raw_transaction X R raw c = send_raw_transaction_gated X R raw (ng_installed (re_gates R)) c"

definition peer_count :: "rpc_env \<Rightarrow> RpcClient \<Rightarrow> (RpcError + nat) \<times> RpcClient" where
  "peer_count R c =
     rpc_map (rpc_request R ''net_peerCount'' (VArray []) c) (\<lambda>v. parse_hex_quantity v ''net_peerCount'')"

definition get_balance :: "rpc_env \<Rightarrow> string \<Rightarrow> RpcClient \<Rightarrow> (RpcError + nat) \<times> RpcClient" where
  "get_balance R address c =
     rpc_map (rpc_request R ''eth_getBalance'' (VArray [VString address, VString ''latest'']) c)
       (\<lambda>v. parse_hex_quantity_u128 v ''eth_getBalance'')"

text \<open>\<open>.ok()\<close> of an optional field.\<close>

definition quantity_field :: "(Value \<Rightarrow> string \<Rightarrow> RpcError + nat) \<Rightarrow> Value \<Rightarrow> string \<Rightarrow> nat option" where
  "quantity_field parse v key =
     (case value_get v key of
        None \<Rightarrow> None
      | Some x \<Rightarrow> (case parse x (''receipt.'' @ key) of Inl e \<Rightarrow> None | Inr n \<Rightarrow> Some n))"

definition transaction_receipt ::
  "rpc_env \<Rightarrow> string \<Rightarrow> RpcClient \<Rightarrow> (RpcError + Receipt option) \<times> RpcClient" where
  "transaction_receipt R tx_hash c =
     rpc_map (rpc_request R ''eth_getTransactionReceipt'' (VArray [VString tx_hash]) c) (\<lambda>v.
       if v = VNull then Inr None
       else
         and_then (ok_or (MissingField ''receipt.blockNumber'') (value_get v ''blockNumber'')) (\<lambda>b.
         and_then (parse_hex_quantity b ''receipt.blockNumber'') (\<lambda>block.
         Inr (Some \<lparr>r_tx_hash = tx_hash, r_block_number = block,
                    r_status = quantity_field parse_hex_quantity v ''status'',
                    r_gas_used = quantity_field parse_hex_quantity v ''gasUsed'',
                    r_effective_gas_price = quantity_field parse_hex_quantity_u128 v ''effectiveGasPrice''\<rparr>))))"

text \<open>The loop of \<open>poll_receipt\<close>, by the number of attempts that are left. The sleep between two
  attempts changes nothing the client sees.\<close>

fun poll_receipt :: "rpc_env \<Rightarrow> string \<Rightarrow> nat \<Rightarrow> RpcClient \<Rightarrow> (RpcError + Receipt) \<times> RpcClient" where
  "poll_receipt R tx_hash 0 c = (Inl ReceiptTimeout, c)"
| "poll_receipt R tx_hash (Suc n) c =
     rpc_then (transaction_receipt R tx_hash c) (\<lambda>r c1.
       case r of Some receipt \<Rightarrow> (Inr receipt, c1) | None \<Rightarrow> poll_receipt R tx_hash n c1)"


section \<open>What the gate lets through\<close>

lemma check_gates_Inr: "check_gates one gs = Inr u \<longleftrightarrow> (\<forall>g\<in>set gs. one g = Inr ())"
  by (induction gs) (auto simp: and_then_Inr_iff)

lemma check_gates_Inl: "check_gates one gs = Inl e \<Longrightarrow> \<exists>g\<in>set gs. one g = Inl e"
  by (induction gs) (auto simp: and_then_Inl_iff)

lemma check_one_Inr:
  "check_one dbg g scope = Inr u \<longleftrightarrow> is_set g \<and> (\<forall>c. scope = Chain c \<longrightarrow> en_chain_id g = Some c)"
  by (auto simp: check_one_def is_set_def Let_def split: SignatureScope.splits option.splits)

lemma check_wallet_signing_Inr:
  "check_wallet_signing dbg G scope = Inr u \<longleftrightarrow>
     (\<forall>g\<in>set (gates_of G). is_set g \<and> (\<forall>c. scope = Chain c \<longrightarrow> en_chain_id g = Some c))"
  by (simp add: check_wallet_signing_def check_gates_Inr check_one_Inr)

lemma check_one_Inl: "check_one dbg g scope = Inl e \<Longrightarrow> \<exists>m. e = RpcWrongNetwork m"
  unfolding check_one_def Let_def by (cases scope; cases "is_set g") (auto split: if_split_asm)

lemma check_wallet_signing_Inl: "check_wallet_signing dbg G scope = Inl e \<Longrightarrow> \<exists>m. e = RpcWrongNetwork m"
  unfolding check_wallet_signing_def using check_gates_Inl check_one_Inl by blast

lemma check_rpc_allowed_Inl: "check_rpc_allowed dbg G = Inl e \<Longrightarrow> \<exists>m. e = RpcWrongNetwork m"
  unfolding check_rpc_allowed_def by (drule check_gates_Inl) (auto split: if_splits)

lemma check_rpc_allowed_Inr: "check_rpc_allowed dbg G = Inr u \<longleftrightarrow> (\<forall>g\<in>set (gates_of G). is_set g)"
  by (auto simp: check_rpc_allowed_def check_gates_Inr)

text \<open>An added gate never loosens signing.\<close>

lemma added_gate_only_refuses:
  assumes "with_added_network_gate extra (\<lambda>G. check_wallet_signing dbg G scope) G = Inr u"
  shows "check_wallet_signing dbg G scope = Inr u"
  using assms by (auto simp: with_added_network_gate_def check_wallet_signing_Inr gates_of_def)

section \<open>What went out on the wire\<close>

text \<open>The parameters of the \<open>eth_sendRawTransaction\<close> requests among the bodies sent.\<close>

definition sent_raw :: "Value list \<Rightarrow> Value list" where
  "sent_raw bodies =
     map (\<lambda>b. the (value_get b ''params''))
       (filter (\<lambda>b. value_get b ''method'' = Some (VString ''eth_sendRawTransaction'')) bodies)"

lemma sent_raw_append [simp]: "sent_raw (as @ bs) = sent_raw as @ sent_raw bs"
  by (simp add: sent_raw_def)

lemma rpc_request_cases:
  assumes "rpc_request R m p c = (r, c')"
  obtains (refused) msg where "rc_wire c' = rc_wire c" "r = Inl (RpcWrongNetwork msg)"
    | (sent) body where "rc_wire c' = rc_wire c @ [body]" "value_get body ''method'' = Some (VString m)"
        "value_get body ''params'' = Some p"
        "\<And>msg. r \<noteq> Inl (RpcWrongNetwork msg)" "\<And>msg. r \<noteq> Inl (NetworkUnverified msg)" "r \<noteq> Inl ReceiptTimeout"
proof (cases "check_rpc_allowed (re_debug R) (re_gates R)")
  case (Inl e)
  with check_rpc_allowed_Inl obtain msg where "e = RpcWrongNetwork msg" by blast
  with Inl assms refused show ?thesis
    by (auto simp: rpc_request_def build_request_def http_call_def rpc_map_def)
next
  case (Inr u)
  let ?b = "fst (build_request m p c)"
  have "rc_wire c' = rc_wire c @ [?b]" "value_get ?b ''method'' = Some (VString m)" "value_get ?b ''params'' = Some p"
    using Inr assms by (auto simp: rpc_request_def build_request_def http_call_def rpc_map_def Let_def value_get_def)
  moreover have "r \<noteq> Inl (RpcWrongNetwork msg)" "r \<noteq> Inl (NetworkUnverified msg)" "r \<noteq> Inl ReceiptTimeout" for msg
    using Inr assms
    by (auto simp: rpc_request_def build_request_def http_call_def rpc_map_def Let_def map_ureq_error_def
        result_of_def and_then_Inl_iff ok_or_def split: http_answer.splits option.splits if_splits)
  ultimately show ?thesis by (rule sent)
qed

lemma rpc_request_quiet:
  "m \<noteq> ''eth_sendRawTransaction'' \<Longrightarrow> sent_raw (rc_wire (snd (rpc_request R m p c))) = sent_raw (rc_wire c)"
  by (rule rpc_request_cases [of R m p c "fst (rpc_request R m p c)" "snd (rpc_request R m p c)"])
    (auto simp: sent_raw_def)

lemma rpc_request_length: "length (rc_wire (snd (rpc_request R m p c))) \<le> Suc (length (rc_wire c))"
  by (rule rpc_request_cases [of R m p c "fst (rpc_request R m p c)" "snd (rpc_request R m p c)"]) auto

lemma reads_quiet [simp]:
  "sent_raw (rc_wire (snd (chain_id R c))) = sent_raw (rc_wire c)"
  "sent_raw (rc_wire (snd (genesis_hash R c))) = sent_raw (rc_wire c)"
  "sent_raw (rc_wire (snd (pending_nonce R a c))) = sent_raw (rc_wire c)"
  "sent_raw (rc_wire (snd (gas_price R c))) = sent_raw (rc_wire c)"
  "sent_raw (rc_wire (snd (transaction_receipt R h c))) = sent_raw (rc_wire c)"
  by (simp_all add: chain_id_def genesis_hash_def pending_nonce_def gas_price_def transaction_receipt_def
      rpc_map_def rpc_request_quiet)

lemma rpc_then_Inr:
  "rpc_then r f = (Inr y, s') \<longleftrightarrow> (\<exists>x s. r = (Inr x, s) \<and> f x s = (Inr y, s'))"
  by (auto simp: rpc_then_def split: prod.splits sum.splits)

lemma rpc_then_cases:
  assumes "rpc_then p f = (r, s')"
  obtains (failed) e where "p = (Inl e, s')" "r = Inl e"
  | (ok) x s where "p = (Inr x, s)" "f x s = (r, s')"
  using assms by (auto simp: rpc_then_def split: prod.splits sum.splits)

lemma rpc_then_snd: "snd (rpc_then r f) = (case r of (Inl e, s) \<Rightarrow> s | (Inr x, s) \<Rightarrow> snd (f x s))"
  by (auto simp: rpc_then_def split: prod.splits sum.splits)

lemma verify_network_quiet [simp]: "sent_raw (rc_wire (snd (verify_network R e c))) = sent_raw (rc_wire c)"
proof -
  have "sent_raw (rc_wire s) = sent_raw (rc_wire c)" if "chain_id R c = (x, s)" for x s
    using that reads_quiet(1) [of R c] by simp
  moreover have "sent_raw (rc_wire s') = sent_raw (rc_wire s)" if "genesis_hash R s = (x, s')" for x s s'
    using that reads_quiet(2) [of R s] by simp
  ultimately show ?thesis
    by (auto simp: verify_network_def Let_def rpc_then_snd split: option.splits prod.splits sum.splits)
qed

lemma verify_network_Inr:
  assumes "verify_network R e c = (Inr u, c2)"
  obtains id g c1 where "en_chain_id e = Some id" "en_genesis_hash e = Some g" "chain_id R c = (Inr id, c1)"
    "genesis_hash R c1 = (Inr (to_ascii_lowercase g), c2)"
  using assms by (auto simp: verify_network_def Let_def rpc_then_Inr split: option.splits if_splits)

text \<open>
  C35. A gated send either is refused by the gate, and then nothing was sent, or was preceded by a read
  of the endpoint's chain id and block-0 hash that match the expected network, and then the signed
  bytes went out exactly once. A caller can tell the two apart: only the first case answers
  \<open>WrongNetwork\<close> or \<open>NetworkUnverified\<close>.
\<close>

theorem gated_send_checked:
  assumes "send_raw_transaction_gated X R raw (Some e) c = (r, c')"
  shows "(\<exists>m. r = Inl (RpcWrongNetwork m) \<or> r = Inl (NetworkUnverified m)) \<and>
      sent_raw (rc_wire c') = sent_raw (rc_wire c) \<or>
    (\<nexists>m. r = Inl (RpcWrongNetwork m) \<or> r = Inl (NetworkUnverified m)) \<and>
      sent_raw (rc_wire c') = sent_raw (rc_wire c) @ [VArray [VString (''0x'' @ hex_encode X raw)]] \<and>
      (\<exists>id g c1 c2. en_chain_id e = Some id \<and> en_genesis_hash e = Some g \<and> chain_id R c = (Inr id, c1) \<and>
         genesis_hash R c1 = (Inr (to_ascii_lowercase g), c2))"
proof (cases "verify_network R e c")
  case (Pair v c1)
  have quiet: "sent_raw (rc_wire c1) = sent_raw (rc_wire c)" using verify_network_quiet [of R e c] Pair by simp
  show ?thesis
  proof (cases v)
    case (Inl err)
    then have "r = Inl (gate_error err)" "c' = c1"
      using assms Pair by (auto simp: send_raw_transaction_gated_def)
    then show ?thesis using quiet by (auto simp: gate_error_def split: RpcError.splits)
  next
    case (Inr u)
    let ?p = "VArray [VString (''0x'' @ hex_encode X raw)]"
    obtain v2 c2 where q: "rpc_request R ''eth_sendRawTransaction'' ?p c1 = (v2, c2)" by fastforce
    then have r: "r = and_then v2 (\<lambda>v. ok_or (MissingField ''sendRawTransaction hash'') (as_str v))" "c' = c2"
      using assms Pair Inr by (auto simp: send_raw_transaction_gated_def rpc_map_def)
    from q show ?thesis
    proof (cases rule: rpc_request_cases)
      case (refused msg)
      then show ?thesis using r quiet by simp
    next
      case (sent body)
      then have "sent_raw (rc_wire c') = sent_raw (rc_wire c) @ [?p]" using r quiet by (simp add: sent_raw_def)
      moreover have "\<nexists>m. r = Inl (RpcWrongNetwork m) \<or> r = Inl (NetworkUnverified m)"
        using sent(4,5) r(1) by (auto simp: and_then_Inl_iff ok_or_def split: option.splits)
      ultimately show ?thesis
        using verify_network_Inr [OF Pair [unfolded Inr]] by metis
    qed
  qed
qed

lemma receipt_of_hash: "transaction_receipt R h c = (Inr (Some rec), c') \<Longrightarrow> r_tx_hash rec = h"
  by (auto simp: transaction_receipt_def rpc_map_def and_then_Inr_iff split: if_splits)

lemma parse_quantity_bound: "parse_quantity bits v field = Inr n \<Longrightarrow> n < 2 ^ bits"
  by (auto simp: parse_quantity_def and_then_Inr_iff from_str_radix_bound)

lemma receipt_block_bound: "transaction_receipt R h c = (Inr (Some rec), c') \<Longrightarrow> r_block_number rec < 2 ^ 64"
  by (auto simp: transaction_receipt_def rpc_map_def and_then_Inr_iff parse_hex_quantity_def
      dest!: parse_quantity_bound split: if_splits)

lemma ok_or_Inl: "ok_or e x = Inl d \<longleftrightarrow> x = None \<and> e = d"
  by (cases x) auto

lemma parse_quantity_error: "parse_quantity bits v field = Inl e \<Longrightarrow> \<exists>m. e = MissingField m"
  by (auto simp: parse_quantity_def and_then_Inl_iff ok_or_Inl)

lemma receipt_request:
  assumes "transaction_receipt R h c = (r, c')"
  obtains v where "rpc_request R ''eth_getTransactionReceipt'' (VArray [VString h]) c = (v, c')"
    "\<And>e. r = Inl e \<Longrightarrow> v = Inl e \<or> (\<exists>m. e = MissingField m)" "\<And>x. r = Inr x \<Longrightarrow> \<exists>y. v = Inr y"
proof -
  obtain v c1 where v: "rpc_request R ''eth_getTransactionReceipt'' (VArray [VString h]) c = (v, c1)" by fastforce
  then have "c1 = c'" using assms by (simp add: transaction_receipt_def rpc_map_def)
  moreover have "v = Inl e \<or> (\<exists>m. e = MissingField m)" if "r = Inl e" for e
    using that assms v
    by (auto simp: transaction_receipt_def rpc_map_def parse_hex_quantity_def and_then_Inl_iff ok_or_Inl
        dest!: parse_quantity_error split: if_splits)
  moreover have "\<exists>y. v = Inr y" if "r = Inr x" for x
    using that assms v by (cases v) (simp_all add: transaction_receipt_def rpc_map_def)
  ultimately show ?thesis using v that [of v] by simp
qed

lemma receipt_not_timeout:
  assumes "transaction_receipt R h c = (r, c')"
  shows "r \<noteq> Inl ReceiptTimeout"
proof
  assume r: "r = Inl ReceiptTimeout"
  show False
  proof (rule receipt_request [OF assms])
    fix v
    assume v: "rpc_request R ''eth_getTransactionReceipt'' (VArray [VString h]) c = (v, c')"
      and e: "\<And>e. r = Inl e \<Longrightarrow> v = Inl e \<or> (\<exists>m. e = MissingField m)"
    from e [OF r] have "v = Inl ReceiptTimeout" by simp
    with v show False by (cases rule: rpc_request_cases) auto
  qed
qed

lemma receipt_length:
  "transaction_receipt R h c = (r, c') \<Longrightarrow> length (rc_wire c') \<le> Suc (length (rc_wire c))"
  using rpc_request_length [of R "''eth_getTransactionReceipt''" "VArray [VString h]" c]
  by (auto simp: transaction_receipt_def rpc_map_def)

text \<open>
  C40. Polling ends: \<open>poll_receipt\<close> sends at most as many requests as it has attempts, none of them a
  transaction, and returns either a receipt of the transaction it was asked about, with a block
  number in the \<open>u64\<close> range, or an error; a timeout means that every attempt was answered \<open>null\<close>.
\<close>

theorem poll_receipt_bounded:
  assumes "poll_receipt R h n c = (r, c')"
  shows "length (rc_wire c') \<le> length (rc_wire c) + n \<and> sent_raw (rc_wire c') = sent_raw (rc_wire c) \<and>
    (\<forall>rec. r = Inr rec \<longrightarrow> r_tx_hash rec = h \<and> r_block_number rec < 2 ^ 64) \<and>
    (r = Inl ReceiptTimeout \<longrightarrow> length (rc_wire c') = length (rc_wire c) + n)"
  using assms
proof (induction n arbitrary: c)
  case (Suc n)
  obtain v c1 where v: "transaction_receipt R h c = (v, c1)" by fastforce
  have quiet: "sent_raw (rc_wire c1) = sent_raw (rc_wire c)" using reads_quiet(5) [of R h c] v by simp
  show ?case
  proof (cases v)
    case (Inl e)
    then show ?thesis
      using Suc.prems v quiet receipt_length [OF v] receipt_not_timeout [OF v] by (auto simp: rpc_then_def)
  next
    case (Inr o')
    show ?thesis
    proof (cases o')
      case None
      then have p: "poll_receipt R h n c1 = (r, c')" using Suc.prems v Inr by (simp add: rpc_then_def)
      have "length (rc_wire c1) = Suc (length (rc_wire c))"
      proof (rule receipt_request [OF v])
        fix w
        assume w: "rpc_request R ''eth_getTransactionReceipt'' (VArray [VString h]) c = (w, c1)"
          and ok: "\<And>x. v = Inr x \<Longrightarrow> \<exists>y. w = Inr y"
        from w show ?thesis using ok [OF Inr] by (cases rule: rpc_request_cases) auto
      qed
      with Suc.IH [OF p] quiet show ?thesis by auto
    next
      case (Some rec)
      then have "r = Inr rec" "c' = c1" using Suc.prems v Inr by (simp_all add: rpc_then_def)
      then show ?thesis
        using v [unfolded Inr Some] quiet receipt_length [OF v] receipt_of_hash receipt_block_bound by simp
    qed
  qed
qed auto

section \<open>Witnesses\<close>

definition demo_network :: ExpectedNetwork where
  "demo_network =
     \<lparr>en_name = ''alpha'', en_chain_id = Some 40204, en_genesis_hash = Some (''0x'' @ replicate 64 (CHR ''1''))\<rparr>"

definition demo_env :: "http_answer \<Rightarrow> rpc_env" where
  "demo_env a =
     \<lparr>re_gates = \<lparr>ng_installed = None, ng_added = []\<rparr>, re_debug = (\<lambda>s. s), re_node = (\<lambda>bodies. a)\<rparr>"

lemma demo_request:
  "rpc_request (demo_env (HttpOk (VObject [(''result'', v)]))) m p c =
     (Inr v, c\<lparr>rc_next_id := wrap_inc (rc_next_id c),
               rc_wire := rc_wire c @ [fst (build_request m p c)]\<rparr>)"
  by (simp add: rpc_request_def build_request_def http_call_def rpc_map_def demo_env_def check_rpc_allowed_def
      gates_of_def result_of_def value_get_def)

theorem gated_send_checked_witness:
  "\<exists>m. fst (send_raw_transaction_gated ref_deps (demo_env (HttpFailed ''timeout'')) [1, 2] (Some demo_network)
         with_transport) = Inl (NetworkUnverified m) \<and>
     sent_raw (rc_wire (snd (send_raw_transaction_gated ref_deps (demo_env (HttpFailed ''timeout'')) [1, 2]
         (Some demo_network) with_transport))) = []"
proof -
  let ?s = "send_raw_transaction_gated ref_deps (demo_env (HttpFailed ''timeout'')) [1, 2] (Some demo_network) with_transport"
  have low: "to_ascii_lowercase (''0x'' @ replicate 64 (CHR ''1'')) = ''0x'' @ replicate 64 (CHR ''1'')"
    by (simp add: to_ascii_lowercase_def lower_char_def ascii_defs code_def)
  have "is_nonzero_block_hash (''0x'' @ replicate 64 (CHR ''1''))"
    by (simp add: is_nonzero_block_hash_def starts_with_iff ascii_defs code_def list_all_length)
      (rule exI [of _ 0], simp)
  then have "\<exists>m. fst ?s = Inl (NetworkUnverified m)"
    using low
    by (simp add: send_raw_transaction_gated_def verify_network_def demo_network_def chain_id_def rpc_map_def
        rpc_request_def build_request_def http_call_def demo_env_def check_rpc_allowed_def gates_of_def
        rpc_then_def gate_error_def map_ureq_error_def Let_def)
  moreover from this have "sent_raw (rc_wire (snd ?s)) = sent_raw (rc_wire with_transport)"
    using gated_send_checked [OF prod.collapse [symmetric], of ref_deps "demo_env (HttpFailed ''timeout'')" "[1, 2]" demo_network with_transport]
    by auto
  ultimately show ?thesis by (simp add: with_transport_def sent_raw_def)
qed

theorem poll_receipt_bounded_witness:
  "length (rc_wire (snd (poll_receipt (demo_env (HttpOk (VObject [(''result'', VNull)]))) ''0xab'' 3 with_transport))) = 3"
proof -
  let ?p = "poll_receipt (demo_env (HttpOk (VObject [(''result'', VNull)]))) ''0xab'' 3 with_transport"
  have null: "\<exists>c'. transaction_receipt (demo_env (HttpOk (VObject [(''result'', VNull)]))) h c = (Inr None, c')" for h c
    by (simp add: transaction_receipt_def rpc_map_def demo_request)
  have "fst (poll_receipt (demo_env (HttpOk (VObject [(''result'', VNull)]))) ''0xab'' n c) = Inl ReceiptTimeout" for n c
  proof (induction n arbitrary: c)
    case (Suc n)
    obtain c' where "transaction_receipt (demo_env (HttpOk (VObject [(''result'', VNull)]))) ''0xab'' c = (Inr None, c')"
      using null by blast
    with Suc show ?case by (simp add: rpc_then_def)
  qed simp
  then have "?p = (Inl ReceiptTimeout, snd ?p)" by (metis prod.collapse)
  from poll_receipt_bounded [OF this] show ?thesis by (simp add: with_transport_def)
qed

end
