(* ===== verification/TxDecode.thy ===== *)
theory TxDecode
  imports Externals Bytes
begin

text \<open>
  \<open>kit/src/txdecode.rs\<close>: decoding an \<open>eth_sendTransaction\<close> object into the fields that are signed and
  the summary that is shown. The JSON parser, the hex codec and Keccak are parameters. The results:
  the fields signed are the fields the summary was built from, calldata is summarized only for a
  selector on the list, a token approval shows the spender and the amount exactly, an inference
  request is accepted only in its canonical encoding, and amounts are never truncated.
\<close>

section \<open>Definitions\<close>

record ParsedTx =
  tx_from :: "string option"
  tx_to :: "bytes option"
  tx_value :: nat
  tx_data :: bytes
  tx_nonce :: "nat option"
  tx_gas_price :: "nat option"
  tx_gas_limit :: "nat option"

record TxDisplay =
  td_action :: string
  td_cost :: string
  td_destination :: string

text \<open>The fields \<open>citrate_wallet_core\<close> signs.\<close>

record LegacyTxFields =
  lf_nonce :: nat
  lf_gas_price :: nat
  lf_gas_limit :: nat
  lf_to :: "bytes option"
  lf_value :: nat
  lf_data :: bytes

definition DEFAULT_TRANSFER_GAS :: nat where "DEFAULT_TRANSFER_GAS = 21000"

definition UNRECOGNIZED_ACTION :: string where "UNRECOGNIZED_ACTION = ''Unrecognized''"

definition KNOWN_CALL_SIGNATURES :: "(string \<times> string) list" where
  "KNOWN_CALL_SIGNATURES =
     [(''claimRewards()'', ''claimRewards''),
      (''registerModel(bytes32,bytes32,bytes32,bytes32,string)'', ''registerModel''),
      (''registerValidator(bytes32,bytes)'', ''registerValidator''),
      (''activate(bytes32,bytes)'', ''activate''),
      (''transfer(address,uint256)'', ''transfer''),
      (''approve(address,uint256)'', ''approve''),
      (''requestInference(bytes32,bytes,uint256)'', ''requestInference''),
      (''claimRefund()'', ''claimRefund''),
      (''expireRequest(uint256)'', ''expireRequest''),
      (''mintAgentAsMember(bytes32,bytes32)'', ''mintAgentAsMember'')]"

definition selector_of :: "'x deps_scheme \<Rightarrow> string \<Rightarrow> bytes" where
  "selector_of X sig = take 4 (keccak X (as_bytes sig))"

definition known_call_label :: "'x deps_scheme \<Rightarrow> bytes \<Rightarrow> string option" where
  "known_call_label X data =
     (if length data < 4 then None
      else map_option snd
             (find (\<lambda>(sig, label). selector_of X sig = take 4 data) KNOWN_CALL_SIGNATURES))"

text \<open>The slice \<open>xs[a..b]\<close>.\<close>

definition slice :: "nat \<Rightarrow> nat \<Rightarrow> 'a list \<Rightarrow> 'a list" where
  "slice a b xs = take (b - a) (drop a xs)"

definition all_zero :: "bytes \<Rightarrow> bool" where
  "all_zero bs \<longleftrightarrow> list_all (\<lambda>b. b = 0) bs"

definition amount_text :: "'x deps_scheme \<Rightarrow> bytes \<Rightarrow> string" where
  "amount_text X w =
     (if list_all (\<lambda>b. b = 255) w then ''UNLIMITED''
      else if all_zero (take 16 w) then show_nat (be_val (drop 16 w))
      else ''0x'' @ hex_encode X w)"

definition decode_erc20_transfer_or_approve ::
  "'x deps_scheme \<Rightarrow> string \<Rightarrow> string \<Rightarrow> bytes \<Rightarrow> string option" where
  "decode_erc20_transfer_or_approve X label dest data =
     (if length data \<noteq> 68 then None
      else
        (let party = ''0x'' @ hex_encode X (slice 16 36 data);
             amount = amount_text X (slice 36 68 data)
         in if label = ''approve'' then
              Some (''Approve '' @ party @ '' to spend '' @ amount @ '' of token '' @ dest
                      @ '' (approve calldata)'')
            else if label = ''transfer'' then
              Some (''Transfer '' @ amount @ '' to '' @ party @ '' via token '' @ dest
                      @ '' (transfer calldata)'')
            else None))"

definition word_usize :: "bytes \<Rightarrow> nat option" where
  "word_usize w = (if \<not> all_zero (take 24 w) then None else Some (be_val (slice 24 32 w)))"

definition decode_request_inference ::
  "'x deps_scheme \<Rightarrow> string \<Rightarrow> string \<Rightarrow> nat \<Rightarrow> bytes \<Rightarrow> string option" where
  "decode_request_inference X label dest value data =
     (if label \<noteq> ''requestInference'' \<or> length data < 4 + 32 * 4 then None
      else
        (let args = drop 4 data in
         case word_usize (slice 32 64 args) of
           None \<Rightarrow> None
         | Some off \<Rightarrow>
           if off \<noteq> 96 then None
           else
             (case word_usize (slice 96 128 args) of
                None \<Rightarrow> None
              | Some len \<Rightarrow>
                (case checked_add len 31 of
                   None \<Rightarrow> None
                 | Some l31 \<Rightarrow>
                   (case checked_add 128 (l31 div 32 * 32) of
                      None \<Rightarrow> None
                    | Some want \<Rightarrow>
                      if length args \<noteq> want then None
                      else if \<not> all_zero (drop (128 + len) args) then None
                      else if \<not> all_zero (take 16 (slice 64 96 args)) then None
                      else
                        (let max_price = be_val (drop 16 (slice 64 96 args));
                             model = hex_encode X (take 32 args)
                         in Some (''Request inference from registry model 0x'' @ model @ '' via router ''
                              @ dest @ '': '' @ show_nat len
                              @ '' bytes of input, stored publicly on chain; price ceiling ''
                              @ show_nat max_price @ '' wei (paying '' @ show_nat value
                              @ '' wei now, the unused part is credited back to claim later)'')))))))"

text \<open>The em dash of the generic call summary, in UTF-8.\<close>

definition em_dash :: string where "em_dash = [CHR 0xE2, CHR 0x80, CHR 0x94]"

definition build_display :: "'x deps_scheme \<Rightarrow> bytes option \<Rightarrow> nat \<Rightarrow> bytes \<Rightarrow> TxDisplay" where
  "build_display X to value data =
     (let destination = (case to of Some addr \<Rightarrow> ''0x'' @ hex_encode X addr | None \<Rightarrow> ''contract creation'');
          cost = show_nat value @ '' wei'';
          action =
            (case to of
               None \<Rightarrow> ''Deploy contract ('' @ show_nat (length data) @ '' bytes init code)''
             | Some addr \<Rightarrow>
               if data = [] then ''Send '' @ show_nat value @ '' wei to '' @ destination
               else
                 (case known_call_label X data of
                    Some label \<Rightarrow>
                      (case decode_erc20_transfer_or_approve X label destination data of
                         Some t \<Rightarrow> t
                       | None \<Rightarrow>
                         (case decode_request_inference X label destination value data of
                            Some t \<Rightarrow> t
                          | None \<Rightarrow>
                            ''Call '' @ label @ ''() on '' @ destination @ '' '' @ em_dash @ '' ''
                              @ show_nat (length data) @ '' bytes calldata (value '' @ show_nat value
                              @ '' wei)''))
                  | None \<Rightarrow> UNRECOGNIZED_ACTION))
      in \<lparr>td_action = action, td_cost = cost, td_destination = destination\<rparr>)"

definition tx_parse_address :: "'x deps_scheme \<Rightarrow> string \<Rightarrow> bytes option" where
  "tx_parse_address X s =
     (let stripped = (case strip_prefix ''0x'' s of Some r \<Rightarrow> r | None \<Rightarrow> s) in
      case hex_decode X stripped of
        None \<Rightarrow> None
      | Some bytes \<Rightarrow> if length bytes \<noteq> 20 then None else Some bytes)"

definition parse_data :: "'x deps_scheme \<Rightarrow> (string \<times> Value) list \<Rightarrow> bytes" where
  "parse_data X obj =
     (let field = (case (case map_of obj ''data'' of Some v \<Rightarrow> Some v | None \<Rightarrow> map_of obj ''input'') of
                     Some v \<Rightarrow> (case as_str v of Some s \<Rightarrow> s | None \<Rightarrow> [])
                   | None \<Rightarrow> []);
          stripped = (case strip_prefix ''0x'' field of Some r \<Rightarrow> r | None \<Rightarrow> field)
      in case hex_decode X stripped of Some bs \<Rightarrow> bs | None \<Rightarrow> [])"

definition parse_u128_quantity :: "Value option \<Rightarrow> nat option" where
  "parse_u128_quantity v =
     (case v of
        None \<Rightarrow> Some 0
      | Some VNull \<Rightarrow> Some 0
      | Some (VString s) \<Rightarrow>
          (let stripped = (case strip_prefix ''0x'' s of Some r \<Rightarrow> r | None \<Rightarrow> s) in
           if stripped = [] then Some 0 else from_str_radix 128 16 stripped)
      | Some (VNumber n t) \<Rightarrow> n
      | _ \<Rightarrow> None)"

definition parse_u64_opt :: "Value option \<Rightarrow> nat option option" where
  "parse_u64_opt v =
     (case v of
        None \<Rightarrow> Some None
      | Some VNull \<Rightarrow> Some None
      | Some (VString s) \<Rightarrow>
          (let stripped = (case strip_prefix ''0x'' s of Some r \<Rightarrow> r | None \<Rightarrow> s) in
           if stripped = [] then Some None else map_option Some (from_str_radix 64 16 stripped))
      | Some (VNumber n t) \<Rightarrow> map_option Some n
      | _ \<Rightarrow> None)"

text \<open>The recipient: \<open>None\<close> refuses the object, \<open>Some None\<close> is a contract creation.\<close>

definition parse_to :: "'x deps_scheme \<Rightarrow> (string \<times> Value) list \<Rightarrow> bytes option option" where
  "parse_to X obj =
     (case map_of obj ''to'' of
        Some (VString s) \<Rightarrow> if s \<noteq> [] \<and> s \<noteq> ''0x'' then map_option Some (tx_parse_address X s) else None
      | Some VNull \<Rightarrow> Some None
      | None \<Rightarrow> Some None
      | _ \<Rightarrow> None)"

definition decode_transaction :: "'x deps_scheme \<Rightarrow> string \<Rightarrow> (ParsedTx \<times> TxDisplay) option" where
  "decode_transaction X raw =
     (case json_from_str X raw of None \<Rightarrow> None | Some json \<Rightarrow>
      case as_object json of None \<Rightarrow> None | Some obj \<Rightarrow>
      case parse_to X obj of None \<Rightarrow> None | Some to \<Rightarrow>
      let data = parse_data X obj in
      if to = None \<and> data = [] then None else
      case parse_u128_quantity (map_of obj ''value'') of None \<Rightarrow> None | Some value \<Rightarrow>
      case parse_u64_opt (map_of obj ''nonce'') of None \<Rightarrow> None | Some nonce \<Rightarrow>
      case parse_u64_opt (map_of obj ''gasPrice'') of None \<Rightarrow> None | Some gas_price \<Rightarrow>
      case parse_u64_opt (map_of obj ''gas'') of None \<Rightarrow> None | Some gas_limit \<Rightarrow>
      let from = (case map_of obj ''from'' of Some v \<Rightarrow> as_str v | None \<Rightarrow> None) in
      Some (\<lparr>tx_from = from, tx_to = to, tx_value = value, tx_data = data, tx_nonce = nonce,
             tx_gas_price = gas_price, tx_gas_limit = gas_limit\<rparr>,
            build_display X to value data))"

definition finalize :: "ParsedTx \<Rightarrow> nat \<Rightarrow> nat \<Rightarrow> LegacyTxFields option" where
  "finalize tx fetched_nonce fetched_gas_price =
     (let nonce = (case tx_nonce tx of Some n \<Rightarrow> n | None \<Rightarrow> fetched_nonce);
          gas_price = (case tx_gas_price tx of Some g \<Rightarrow> g | None \<Rightarrow> fetched_gas_price);
          gas_limit = (case tx_gas_limit tx of
                         Some g \<Rightarrow> Some g
                       | None \<Rightarrow> if tx_data tx = [] then Some DEFAULT_TRANSFER_GAS else None)
      in case gas_limit of
           None \<Rightarrow> None
         | Some g \<Rightarrow>
           Some \<lparr>lf_nonce = nonce, lf_gas_price = gas_price, lf_gas_limit = g, lf_to = tx_to tx,
                 lf_value = tx_value tx, lf_data = tx_data tx\<rparr>)"

section \<open>What is decoded\<close>

text \<open>\<open>Number::as_u64\<close> returns a \<open>u64\<close>.\<close>

definition json_law :: "'x deps_scheme \<Rightarrow> bool" where
  "json_law X \<longleftrightarrow>
     (\<forall>s kvs k n t. json_from_str X s = Some (VObject kvs) \<and> map_of kvs k = Some (VNumber (Some n) t)
        \<longrightarrow> n < 2 ^ 64)"

lemma as_object_Some: "as_object v = Some kvs \<longleftrightarrow> v = VObject kvs"
  by (cases v) (auto simp: as_object_def)

lemma decode_transaction_Some:
  assumes "decode_transaction X raw = Some (tx, d)"
  obtains obj where "json_from_str X raw = Some (VObject obj)"
    "parse_to X obj = Some (tx_to tx)" "tx_data tx = parse_data X obj"
    "\<not> (tx_to tx = None \<and> tx_data tx = [])"
    "parse_u128_quantity (map_of obj ''value'') = Some (tx_value tx)"
    "parse_u64_opt (map_of obj ''nonce'') = Some (tx_nonce tx)"
    "parse_u64_opt (map_of obj ''gasPrice'') = Some (tx_gas_price tx)"
    "parse_u64_opt (map_of obj ''gas'') = Some (tx_gas_limit tx)"
    "d = build_display X (tx_to tx) (tx_value tx) (tx_data tx)"
  using assms
  by (auto simp: decode_transaction_def Let_def as_object_Some split: option.splits if_splits)

lemma parse_u128_bound:
  "parse_u128_quantity v = Some n \<Longrightarrow> (\<And>m t. v = Some (VNumber (Some m) t) \<Longrightarrow> m < 2 ^ 64) \<Longrightarrow> n < 2 ^ 128"
  by (force simp: parse_u128_quantity_def Let_def split: option.splits Value.splits if_splits
      dest: from_str_radix_bound)

lemma parse_u64_bound:
  "parse_u64_opt v = Some (Some n) \<Longrightarrow> (\<And>m t. v = Some (VNumber (Some m) t) \<Longrightarrow> m < 2 ^ 64) \<Longrightarrow> n < 2 ^ 64"
  by (force simp: parse_u64_opt_def Let_def split: option.splits Value.splits if_splits
      dest: from_str_radix_bound)

lemma parse_to_length: "parse_to X obj = Some (Some a) \<Longrightarrow> length a = 20"
  by (auto simp: parse_to_def tx_parse_address_def Let_def split: option.splits Value.splits if_splits)


text \<open>
  Nothing is truncated: the value fits 128 bits, the nonce, the gas price and the gas limit fit 64
  bits, the recipient has 20 bytes, and there is a recipient or init code. The numbers that do not
  fit make the decoder refuse.
\<close>

theorem decoded_tx_in_range:
  assumes "json_law X" and "decode_transaction X raw = Some (tx, d)"
  shows "tx_value tx < 2 ^ 128 \<and> pred_option (\<lambda>n. n < 2 ^ 64) (tx_nonce tx) \<and>
    pred_option (\<lambda>n. n < 2 ^ 64) (tx_gas_price tx) \<and> pred_option (\<lambda>n. n < 2 ^ 64) (tx_gas_limit tx) \<and>
    pred_option (\<lambda>a. length a = 20) (tx_to tx) \<and> (tx_to tx = None \<longrightarrow> tx_data tx \<noteq> [])"
proof (rule decode_transaction_Some [OF assms(2)])
  fix obj
  assume o: "json_from_str X raw = Some (VObject obj)" "parse_to X obj = Some (tx_to tx)"
    "\<not> (tx_to tx = None \<and> tx_data tx = [])"
    "parse_u128_quantity (map_of obj ''value'') = Some (tx_value tx)"
    "parse_u64_opt (map_of obj ''nonce'') = Some (tx_nonce tx)"
    "parse_u64_opt (map_of obj ''gasPrice'') = Some (tx_gas_price tx)"
    "parse_u64_opt (map_of obj ''gas'') = Some (tx_gas_limit tx)"
  have num: "m < 2 ^ 64" if "map_of obj k = Some (VNumber (Some m) t)" for k m t
    using assms(1) o(1) that unfolding json_law_def by blast
  have "tx_value tx < 2 ^ 128" by (rule parse_u128_bound [OF o(4)]) (rule num)
  moreover have "n < 2 ^ 64" if "parse_u64_opt (map_of obj k) = Some (Some n)" for k n
    using that by (rule parse_u64_bound) (rule num)
  then have "pred_option (\<lambda>n. n < 2 ^ 64) (tx_nonce tx)" "pred_option (\<lambda>n. n < 2 ^ 64) (tx_gas_price tx)"
    "pred_option (\<lambda>n. n < 2 ^ 64) (tx_gas_limit tx)"
    using o(5,6,7) by (auto simp: pred_option_def)
  moreover have "pred_option (\<lambda>a. length a = 20) (tx_to tx)"
    using parse_to_length o(2) by (auto simp: pred_option_def)
  ultimately show ?thesis using o(3) by auto
qed

section \<open>What is shown\<close>

lemma label_not_unrecognized:
  "decode_erc20_transfer_or_approve X l dest data \<noteq> Some UNRECOGNIZED_ACTION"
  "decode_request_inference X l dest v data \<noteq> Some UNRECOGNIZED_ACTION"
  by (auto simp: decode_erc20_transfer_or_approve_def decode_request_inference_def Let_def
      UNRECOGNIZED_ACTION_def split: if_splits option.splits)

lemma action_gated:
  "td_action (build_display X to value data) = UNRECOGNIZED_ACTION \<longleftrightarrow>
     to \<noteq> None \<and> data \<noteq> [] \<and> known_call_label X data = None"
proof (cases to)
  case None
  then show ?thesis by (simp add: build_display_def Let_def UNRECOGNIZED_ACTION_def)
next
  case (Some a)
  let ?d = "''0x'' @ hex_encode X a"
  show ?thesis
  proof (cases "data = [] \<or> known_call_label X data = None")
    case True
    with Some show ?thesis by (auto simp: build_display_def Let_def UNRECOGNIZED_ACTION_def)
  next
    case False
    then obtain l where l: "known_call_label X data = Some l" and "data \<noteq> []" by auto
    consider t where "decode_erc20_transfer_or_approve X l ?d data = Some t"
      | t where "decode_erc20_transfer_or_approve X l ?d data = None"
          "decode_request_inference X l ?d value data = Some t"
      | "decode_erc20_transfer_or_approve X l ?d data = None"
          "decode_request_inference X l ?d value data = None"
      by fastforce
    then show ?thesis
      using Some l \<open>data \<noteq> []\<close> label_not_unrecognized(1) [of X l ?d data]
        label_not_unrecognized(2) [of X l ?d "value" data]
      by cases (auto simp: build_display_def Let_def, simp add: UNRECOGNIZED_ACTION_def)
  qed
qed

text \<open>
  The raw-data gate is exactly for calldata that is not understood: the action of a transaction is
  \<open>Unrecognized\<close> if and only if it has a recipient and calldata, and the calldata is shorter than a
  selector or its selector is that of no listed function.
\<close>

theorem unlisted_calldata_is_gated:
  "td_action (build_display X to value data) = UNRECOGNIZED_ACTION \<longleftrightarrow>
     to \<noteq> None \<and> data \<noteq> [] \<and>
     \<not> (4 \<le> length data \<and> take 4 data \<in> (selector_of X \<circ> fst) ` set KNOWN_CALL_SIGNATURES)"
proof -
  have "known_call_label X data = None \<longleftrightarrow>
      \<not> (4 \<le> length data \<and> take 4 data \<in> (selector_of X \<circ> fst) ` set KNOWN_CALL_SIGNATURES)"
    by (auto simp: known_call_label_def find_None_iff image_iff)
  then show ?thesis by (simp add: action_gated)
qed

lemma show_nat_head: "show_nat n = c # cs \<Longrightarrow> is_ascii_digit c"
  using show_nat_digits [of c n] by simp

lemma show_nat_not_hex: "show_nat n \<noteq> ''0x'' @ s"
proof
  assume "show_nat n = ''0x'' @ s"
  then have "is_ascii_digit (CHR ''x'')" using show_nat_digits [of "CHR ''x''" n] by simp
  then show False by (simp add: is_ascii_digit_def code_def)
qed

lemma show_nat_not_unlimited: "show_nat n \<noteq> ''UNLIMITED''"
proof
  assume "show_nat n = ''UNLIMITED''"
  then have "is_ascii_digit (CHR ''U'')" using show_nat_digits [of "CHR ''U''" n] by simp
  then show False by (simp add: is_ascii_digit_def code_def)
qed

lemma all_zero_replicate: "all_zero bs \<longleftrightarrow> bs = replicate (length bs) 0"
  by (auto simp: all_zero_def list_all_iff replicate_length_same [symmetric]) (metis in_set_replicate)

lemma all_eq_replicate: "list_all (\<lambda>b. b = c) bs \<Longrightarrow> bs = replicate (length bs) c"
  by (induction bs) auto

lemma amount_text_inj:
  assumes hex: "hex_law X" and len: "length v = 32" "length w = 32"
    and eq: "amount_text X v = amount_text X w"
  shows "v = w"
proof -
  consider (max) "list_all (\<lambda>b. b = 255) v" | (dec) "\<not> list_all (\<lambda>b. b = 255) v" "all_zero (take 16 v)"
    | (hex) "\<not> list_all (\<lambda>b. b = 255) v" "\<not> all_zero (take 16 v)" by blast
  then show ?thesis
  proof cases
    case max
    with eq have "list_all (\<lambda>b. b = 255) w"
      using show_nat_not_unlimited by (auto simp: amount_text_def split: if_splits)
    with max len show ?thesis using all_eq_replicate [of 255] by metis
  next
    case dec
    with eq have w: "all_zero (take 16 w)" "be_val (drop 16 v) = be_val (drop 16 w)"
      using show_nat_not_unlimited show_nat_not_hex
      by (auto simp: amount_text_def show_nat_inj split: if_splits)
    then have "drop 16 v = drop 16 w" using len by (simp add: be_val_inj)
    moreover have "take 16 v = take 16 w"
      using dec(2) w(1) len by (metis all_zero_replicate length_take)
    ultimately show ?thesis by (metis append_take_drop_id)
  next
    case hex
    with eq have "hex_encode X v = hex_encode X w"
      using show_nat_not_hex [of _ "hex_encode X v", symmetric]
      by (auto simp: amount_text_def split: if_splits)
    then show ?thesis using \<open>hex_law X\<close> by (simp add: hex_encode_inj)
  qed
qed

text \<open>
  A token approval or transfer is shown exactly. Two calls with the same label and token whose
  summaries read the same have the same spender or recipient and the same 256-bit amount: no two
  amounts share a display, and only the maximal amount shows as \<open>UNLIMITED\<close>.
\<close>

theorem erc20_summary_exact:
  assumes "hex_law X" and "length data = 68" and "length data' = 68"
    and "label = ''approve'' \<or> label = ''transfer''"
    and "decode_erc20_transfer_or_approve X label dest data = decode_erc20_transfer_or_approve X label dest data'"
  shows "slice 16 36 data = slice 16 36 data' \<and> slice 36 68 data = slice 36 68 data'"
proof -
  let ?p = "\<lambda>d. hex_encode X (slice 16 36 d)" and ?a = "\<lambda>d. amount_text X (slice 36 68 d)"
  have len: "length (?p data) = length (?p data')"
    using assms(1-3) by (simp add: hex_encode_length slice_def)
  have "?p data = ?p data' \<and> ?a data = ?a data'"
    using assms(2-5) len by (auto simp: decode_erc20_transfer_or_approve_def Let_def)
  moreover have "length (slice 36 68 data) = 32" "length (slice 36 68 data') = 32"
    using assms(2,3) by (simp_all add: slice_def)
  ultimately show ?thesis
    using amount_text_inj [OF assms(1)] hex_encode_inj [OF assms(1)] by blast
qed

section \<open>Inference requests\<close>

text \<open>The canonical calldata of \<open>requestInference(bytes32,bytes,uint256)\<close>.\<close>

definition encode_request_inference :: "bytes \<Rightarrow> bytes \<Rightarrow> bytes \<Rightarrow> nat \<Rightarrow> bytes" where
  "encode_request_inference sel model input max_price =
     sel @ model @ be_bytes 32 96 @ be_bytes 32 max_price @ be_bytes 32 (length input) @ input
       @ replicate ((length input + 31) div 32 * 32 - length input) 0"

lemma word_usize_Some:
  assumes "word_usize w = Some n" and "length w = 32"
  shows "w = be_bytes 32 n \<and> n < 2 ^ 64"
proof -
  have z: "take 24 w = replicate 24 0" and n: "n = be_val (drop 24 w)"
    using assms by (auto simp: word_usize_def slice_def all_zero_replicate split: if_splits)
  have "n < 256 ^ 8" using be_val_bound [of "drop 24 w"] assms(2) n by simp
  moreover have "be_bytes 8 n = drop 24 w" using be_bytes_be_val' [of "drop 24 w" 8] assms(2) n by simp
  ultimately show ?thesis
    using be_bytes_small [of n 8 24] z append_take_drop_id [of 24 w] by simp
qed

lemma high_zero_word:
  assumes "all_zero (take 16 w)" and "length w = 32"
  shows "w = be_bytes 32 (be_val (drop 16 w))"
proof -
  have "be_val (drop 16 w) < 256 ^ 16" using be_val_bound [of "drop 16 w"] assms(2) by simp
  moreover have "be_bytes 16 (be_val (drop 16 w)) = drop 16 w"
    using be_bytes_be_val' [of "drop 16 w" 16] assms(2) by simp
  moreover have "take 16 w = replicate 16 0" using assms by (simp add: all_zero_replicate)
  ultimately show ?thesis
    using be_bytes_small [of "be_val (drop 16 w)" 16 16] append_take_drop_id [of 16 w] by simp
qed

lemma take_slice: "take a xs @ slice a b xs = take b xs" if "a \<le> b"
  using that by (simp add: slice_def take_add [symmetric] flip: take_add)

definition inference_text :: "'x deps_scheme \<Rightarrow> string \<Rightarrow> nat \<Rightarrow> bytes \<Rightarrow> bytes \<Rightarrow> nat \<Rightarrow> string" where
  "inference_text X dest value model input max_price =
     ''Request inference from registry model 0x'' @ hex_encode X model @ '' via router '' @ dest
       @ '': '' @ show_nat (length input)
       @ '' bytes of input, stored publicly on chain; price ceiling '' @ show_nat max_price
       @ '' wei (paying '' @ show_nat value
       @ '' wei now, the unused part is credited back to claim later)''"

lemma request_inference_Some:
  assumes "decode_request_inference X label dest value data = Some t"
  obtains len where "label = ''requestInference''" "132 \<le> length data"
    "word_usize (slice 32 64 (drop 4 data)) = Some 96"
    "word_usize (slice 96 128 (drop 4 data)) = Some len"
    "length (drop 4 data) = 128 + (len + 31) div 32 * 32" "length (drop 4 data) \<le> u64_max"
    "all_zero (drop (128 + len) (drop 4 data))"
    "all_zero (take 16 (slice 64 96 (drop 4 data)))"
    "t = ''Request inference from registry model 0x'' @ hex_encode X (take 32 (drop 4 data)) @ '' via router ''
        @ dest @ '': '' @ show_nat len @ '' bytes of input, stored publicly on chain; price ceiling ''
        @ show_nat (be_val (drop 16 (slice 64 96 (drop 4 data)))) @ '' wei (paying '' @ show_nat value
        @ '' wei now, the unused part is credited back to claim later)''"
  using assms
  by (auto simp: decode_request_inference_def Let_def checked_add_def split: if_splits option.splits)

lemma request_inference_sound:
  assumes "decode_request_inference X label dest value data = Some t"
  shows "label = ''requestInference'' \<and> length data - 4 \<le> u64_max \<and>
    (\<exists>sel model input p. length sel = 4 \<and> length model = 32 \<and> p < 2 ^ 128 \<and>
       data = encode_request_inference sel model input p \<and>
       t = inference_text X dest value model input p)"
proof (rule request_inference_Some [OF assms])
  fix len
  let ?a = "drop 4 data"
  assume l: "label = ''requestInference''" "length ?a \<le> u64_max"
    and a: "132 \<le> length data" "word_usize (slice 32 64 ?a) = Some 96" "word_usize (slice 96 128 ?a) = Some len"
    "length ?a = 128 + (len + 31) div 32 * 32" "all_zero (drop (128 + len) ?a)"
    "all_zero (take 16 (slice 64 96 ?a))"
    and t: "t = ''Request inference from registry model 0x'' @ hex_encode X (take 32 ?a) @ '' via router ''
        @ dest @ '': '' @ show_nat len @ '' bytes of input, stored publicly on chain; price ceiling ''
        @ show_nat (be_val (drop 16 (slice 64 96 ?a))) @ '' wei (paying '' @ show_nat value
        @ '' wei now, the unused part is credited back to claim later)''"
  let ?p = "be_val (drop 16 (slice 64 96 ?a))" and ?i = "take len (drop 128 ?a)"
  have len32: "length (slice 32 64 ?a) = 32" "length (slice 64 96 ?a) = 32" "length (slice 96 128 ?a) = 32"
    using a(1) by (simp_all add: slice_def)
  have pad: "len \<le> (len + 31) div 32 * 32" by presburger
  have li: "length ?i = len" using a(4) pad by simp
  have w: "slice 32 64 ?a = be_bytes 32 96" "slice 96 128 ?a = be_bytes 32 len" "len < 2 ^ 64"
    using word_usize_Some a(2,3) len32 by blast+
  have p: "slice 64 96 ?a = be_bytes 32 ?p" using high_zero_word a(6) len32 by blast
  have "drop (128 + len) ?a = replicate ((len + 31) div 32 * 32 - len) 0"
    using a(4,5) by (simp add: all_zero_replicate)
  then have "drop 128 ?a = ?i @ replicate ((len + 31) div 32 * 32 - len) 0"
    by (metis append_take_drop_id drop_drop add.commute)
  moreover have "?a = take 32 ?a @ slice 32 64 ?a @ slice 64 96 ?a @ slice 96 128 ?a @ drop 128 ?a"
  proof -
    have "take 32 ?a @ slice 32 64 ?a = take 64 ?a" "take 64 ?a @ slice 64 96 ?a = take 96 ?a"
      "take 96 ?a @ slice 96 128 ?a = take 128 ?a"
      by (simp_all add: take_slice)
    then have "take 32 ?a @ slice 32 64 ?a @ slice 64 96 ?a @ slice 96 128 ?a = take 128 ?a"
      by (metis append.assoc)
    then show ?thesis by (metis append.assoc append_take_drop_id)
  qed
  ultimately have "?a = take 32 ?a @ be_bytes 32 96 @ be_bytes 32 ?p @ be_bytes 32 len @ ?i
      @ replicate ((len + 31) div 32 * 32 - len) 0"
    using w p by simp
  then have "data = encode_request_inference (take 4 data) (take 32 ?a) ?i ?p"
    unfolding encode_request_inference_def li by (metis append_take_drop_id)
  moreover have "?p < 2 ^ 128" using be_val_bound [of "drop 16 (slice 64 96 ?a)"] len32(2) by simp
  moreover have "t = inference_text X dest value (take 32 ?a) ?i ?p"
    using t li by (simp add: inference_text_def)
  ultimately have "\<exists>sel model input p. length sel = 4 \<and> length model = 32 \<and> p < 2 ^ 128 \<and>
       data = encode_request_inference sel model input p \<and> t = inference_text X dest value model input p"
    using a(1) by (intro exI [of _ "take 4 data"] exI [of _ "take 32 ?a"] exI [of _ ?i] exI [of _ ?p]) simp
  then show ?thesis using l by simp
qed

lemma word_usize_be_bytes: "n < 2 ^ 64 \<Longrightarrow> word_usize (be_bytes 32 n) = Some n"
  using be_bytes_small [of n 8 24]
  by (simp add: word_usize_def slice_def all_zero_replicate be_val_be_bytes)

lemma request_inference_complete:
  assumes "length sel = 4" and "length model = 32" and "p < 2 ^ 128"
    and d: "data = encode_request_inference sel model input p" and "length data - 4 \<le> u64_max"
  shows "decode_request_inference X ''requestInference'' dest value data =
    Some (inference_text X dest value model input p)"
proof -
  let ?n = "length input" and ?pad = "(length input + 31) div 32 * 32"
  have pad: "?n \<le> ?pad" by presburger
  have args: "drop 4 data = model @ be_bytes 32 96 @ be_bytes 32 p @ be_bytes 32 ?n @ input
      @ replicate (?pad - ?n) 0"
    using assms(1) by (simp add: d encode_request_inference_def)
  then have len: "length data = 132 + ?pad" using assms(1,2) pad d
    by (simp add: encode_request_inference_def)
  have s: "slice 32 64 (drop 4 data) = be_bytes 32 96" "slice 64 96 (drop 4 data) = be_bytes 32 p"
    "slice 96 128 (drop 4 data) = be_bytes 32 ?n" "take 32 (drop 4 data) = model"
    "drop (128 + ?n) (drop 4 data) = replicate (?pad - ?n) 0"
    unfolding args using assms(2) by (simp_all add: slice_def)
  have p: "be_bytes 32 p = replicate 16 0 @ be_bytes 16 p"
    using be_bytes_small [of p 16 16] assms(3) by simp
  have "128 + ?pad \<le> u64_max" "?n + 31 \<le> u64_max" "?n < 2 ^ 64"
    using assms(5) len pad by (simp_all add: u64_max_def)
  then show ?thesis
    using len s word_usize_be_bytes [of ?n] word_usize_be_bytes [of 96] assms(3)
    by (simp add: decode_request_inference_def Let_def checked_add_def p all_zero_replicate
        be_val_be_bytes inference_text_def)
qed

text \<open>
  An inference request is summarized exactly in its canonical encoding: a summary is given if and
  only if the calldata is the selector followed by the ABI encoding (offset 0x60, the input's length,
  zero padding) of some model hash, input and price ceiling below \<open>2 ^ 128\<close>, and the summary then
  names that model, the input's length and that ceiling. Any other calldata falls back to the
  generic call summary.
\<close>

theorem request_inference_canonical:
  "decode_request_inference X label dest value data = Some t \<longleftrightarrow>
     label = ''requestInference'' \<and> length data - 4 \<le> u64_max \<and>
     (\<exists>sel model input p. length sel = 4 \<and> length model = 32 \<and> p < 2 ^ 128 \<and>
        data = encode_request_inference sel model input p \<and>
        t = inference_text X dest value model input p)"
  using request_inference_sound request_inference_complete by fastforce

section \<open>Witnesses\<close>

text \<open>A parser that reads one object: a transfer of 16 wei.\<close>

definition transfer_object :: "(string \<times> Value) list" where
  "transfer_object =
     [(''to'', VString (''0x'' @ hex_encode_ref (replicate 20 0))), (''value'', VString ''0x10''),
      (''nonce'', VNumber (Some 3) ''3'')]"

definition ref_json :: deps where
  "ref_json = ref_deps\<lparr>json_from_str := (\<lambda>s. Some (VObject transfer_object))\<rparr>"

definition transfer_tx :: ParsedTx where
  "transfer_tx =
     \<lparr>tx_from = None, tx_to = Some (replicate 20 0), tx_value = 16, tx_data = [], tx_nonce = Some 3,
      tx_gas_price = None, tx_gas_limit = None\<rparr>"

lemma ref_json_decode:
  "decode_transaction ref_json [] = Some (transfer_tx, build_display ref_json (Some (replicate 20 0)) 16 [])"
proof -
  have "hex_decode ref_json = hex_decode_ref" by (simp add: ref_json_def)
  moreover have "hex_encode_ref (replicate 20 0) \<noteq> []" using length_hex_encode_ref [of "replicate 20 0"] by force
  ultimately have "parse_to ref_json transfer_object = Some (Some (replicate 20 0))"
    "parse_data ref_json transfer_object = []"
    by (simp_all add: parse_to_def parse_data_def tx_parse_address_def transfer_object_def hex_decode_encode_ref)
  moreover have "parse_u128_quantity (map_of transfer_object ''value'') = Some 16"
    by (simp add: parse_u128_quantity_def transfer_object_def from_str_radix_def digit_val_def code_def ascii_defs)
  moreover have "parse_u64_opt (map_of transfer_object ''nonce'') = Some (Some 3)"
    "parse_u64_opt (map_of transfer_object ''gasPrice'') = Some None"
    "parse_u64_opt (map_of transfer_object ''gas'') = Some None"
    "map_of transfer_object ''from'' = None"
    by (simp_all add: parse_u64_opt_def transfer_object_def)
  ultimately show ?thesis
    by (simp add: decode_transaction_def as_object_def transfer_tx_def Let_def)
      (simp add: ref_json_def as_object_def)
qed


lemma json_law_ref: "json_law ref_json"
  by (auto simp: json_law_def ref_json_def transfer_object_def split: if_splits)

theorem decoded_tx_in_range_witness:
  "tx_value transfer_tx < 2 ^ 128 \<and> pred_option (\<lambda>a. length a = 20) (tx_to transfer_tx)"
  using decoded_tx_in_range [OF json_law_ref ref_json_decode] by blast

theorem erc20_summary_exact_witness:
  "slice 16 36 (replicate 68 (1 :: byte)) = slice 16 36 (replicate 68 1)"
  using erc20_summary_exact [OF hex_law_ref [of "()"], of "replicate 68 1" "replicate 68 1" "''approve''" "[]"]
  by simp

end
