(* ===== verification/Wallet.thy ===== *)
theory Wallet
  imports Rpc TxDecode
begin

text \<open>
  \<open>kit/src/wallet.rs\<close> and \<open>kit/src/wallet_key.rs\<close>: the signers and the one way to the wallet key. The
  vault is seen through the two things the key module reads of it, the wallet slot and whether the
  session is unlocked; \<open>bip39\<close>, \<open>k256\<close>, \<open>hkdf\<close> and \<open>citrate_wallet_core\<close> are the record \<open>wallet_crypto\<close>.
  The results: no signature without a set network, and for a chain-committing signature the right
  chain, decided before the key is read; a locked or empty vault signs nothing; an EIP-191
  signature recovers to the wallet's own address.
\<close>

section \<open>Definitions\<close>

datatype UnifiedKey = Secp256k1 bytes | OtherKey bytes

record SignedTx =
  stx_raw :: bytes
  stx_hash :: bytes

record wallet_crypto =
  k_generate :: "(string \<times> bytes) option"
  k_parse_mnemonic :: "string \<Rightarrow> (string \<times> bytes) option"
  k_phrase_of_entropy :: "bytes \<Rightarrow> string option"
  k_key_of_phrase :: "string \<Rightarrow> nat \<Rightarrow> UnifiedKey option"
  k_derive_address :: "UnifiedKey \<Rightarrow> string"
  k_public_key :: "UnifiedKey \<Rightarrow> bytes"
  k_sign :: "UnifiedKey \<Rightarrow> bytes \<Rightarrow> bytes"
  k_sign_recoverable :: "bytes \<Rightarrow> bytes \<Rightarrow> (bytes \<times> bytes \<times> byte) option"
  k_sign_legacy_tx :: "bytes \<Rightarrow> LegacyTxFields \<Rightarrow> nat \<Rightarrow> SignedTx option"
  k_signature_ok :: "bytes \<Rightarrow> bool"
  k_recovery_id_ok :: "byte \<Rightarrow> bool"
  k_recover :: "bytes \<Rightarrow> bytes \<Rightarrow> byte \<Rightarrow> bytes option"
  k_hkdf_expand :: "bytes \<Rightarrow> bytes \<Rightarrow> bytes \<Rightarrow> bytes option"
  k_scalar_ok :: "bytes \<Rightarrow> bool"

datatype CustodyError = Denied | LockedOut | KeyringUnavailable | Corrupt | VersionUnsupported | Io string

text \<open>The vault as the wallet sees it: what reading the wallet slot answers, and the session.\<close>

record Vault =
  v_wallet_slot :: "CustodyError + bytes"
  v_is_unlocked :: bool

definition WALLET_ENTROPY_SLOT :: string where "WALLET_ENTROPY_SLOT = ''wallet-entropy-0''"

definition DEFAULT_ACCOUNT_INDEX :: nat where "DEFAULT_ACCOUNT_INDEX = 0"

definition SCOPED_SECRET_SALT :: string where "SCOPED_SECRET_SALT = ''citrate/wallet/scoped-secret/v1''"

record WalletCreate =
  wc_address :: string
  wc_public_key_hex :: string
  wc_mnemonic :: string

record WalletInfo =
  wi_address :: string
  wi_public_key_hex :: string

datatype WalletError =
    Custody
  | InvalidMnemonic
  | AlreadyExists
  | WalletNotFound
  | Derivation
  | WalletWrongNetwork string

fun wallet_error_text :: "WalletError \<Rightarrow> string" where
  "wallet_error_text Custody = ''wallet: custody vault locked or unavailable''"
| "wallet_error_text InvalidMnemonic = ''wallet: invalid mnemonic''"
| "wallet_error_text AlreadyExists = ''wallet: a wallet already exists''"
| "wallet_error_text WalletNotFound = ''wallet: no wallet stored''"
| "wallet_error_text Derivation = ''wallet: key derivation failed''"
| "wallet_error_text (WalletWrongNetwork m) = ''wallet: '' @ m @ ''; nothing was signed''"

definition wallet_error_of_custody :: "CustodyError \<Rightarrow> WalletError" where
  "wallet_error_of_custody e = Custody"

definition info_of :: "'x deps_scheme \<Rightarrow> wallet_crypto \<Rightarrow> UnifiedKey \<Rightarrow> WalletInfo" where
  "info_of X K key =
     \<lparr>wi_address = k_derive_address K key, wi_public_key_hex = hex_encode X (k_public_key K key)\<rparr>"

definition read_entropy :: "Vault \<Rightarrow> WalletError + bytes" where
  "read_entropy V =
     (case v_wallet_slot V of
        Inr e \<Rightarrow> Inr e
      | Inl Denied \<Rightarrow> if v_is_unlocked V then Inl WalletNotFound else Inl Custody
      | Inl e \<Rightarrow> Inl (wallet_error_of_custody e))"

definition derive_key_from_entropy :: "wallet_crypto \<Rightarrow> bytes \<Rightarrow> WalletError + UnifiedKey" where
  "derive_key_from_entropy K entropy =
     and_then (ok_or InvalidMnemonic (k_phrase_of_entropy K entropy)) (\<lambda>phrase.
     ok_or Derivation (k_key_of_phrase K phrase DEFAULT_ACCOUNT_INDEX))"

definition refuse_if_present :: "Vault \<Rightarrow> WalletError + unit" where
  "refuse_if_present V =
     (case v_wallet_slot V of
        Inr existing \<Rightarrow> Inl AlreadyExists
      | Inl Denied \<Rightarrow> Inr ()
      | Inl e \<Rightarrow> Inl (wallet_error_of_custody e))"

definition signing_key ::
  "wallet_crypto \<Rightarrow> rpc_env \<Rightarrow> Vault \<Rightarrow> SignatureScope \<Rightarrow> WalletError + UnifiedKey" where
  "signing_key K R V scope =
     and_then (map_err (\<lambda>e. case e of
                           RpcWrongNetwork m \<Rightarrow> WalletWrongNetwork m
                         | other \<Rightarrow> WalletWrongNetwork (rpc_error_text other))
                 (check_wallet_signing (re_debug R) (re_gates R) scope)) (\<lambda>_.
     and_then (read_entropy V) (derive_key_from_entropy K))"

definition stored_info :: "'x deps_scheme \<Rightarrow> wallet_crypto \<Rightarrow> Vault \<Rightarrow> WalletError + WalletInfo" where
  "stored_info X K V =
     and_then (read_entropy V) (\<lambda>entropy.
     and_then (derive_key_from_entropy K entropy) (\<lambda>key. Inr (info_of X K key)))"

text \<open>The search for a valid scalar, over the counters that are left.\<close>

fun scoped_search :: "wallet_crypto \<Rightarrow> bytes \<Rightarrow> bytes \<Rightarrow> nat list \<Rightarrow> WalletError + bytes" where
  "scoped_search K entropy info [] = Inl Derivation"
| "scoped_search K entropy info (counter # rest) =
     (case k_hkdf_expand K (as_bytes SCOPED_SECRET_SALT) entropy
             (info @ [word_of_nat (counter mod 256), word_of_nat (counter div 256)]) of
        None \<Rightarrow> Inl Derivation
      | Some okm \<Rightarrow> if k_scalar_ok K okm then Inr okm else scoped_search K entropy info rest)"

definition scoped_secret :: "wallet_crypto \<Rightarrow> Vault \<Rightarrow> bytes \<Rightarrow> WalletError + bytes" where
  "scoped_secret K V info =
     and_then (read_entropy V) (\<lambda>entropy. scoped_search K entropy info [0..<65536])"

text \<open>\<open>put\<close> is \<open>CustodyVault::put\<close> on the wallet slot.\<close>

definition wallet_create ::
  "'x deps_scheme \<Rightarrow> wallet_crypto \<Rightarrow> (bytes \<Rightarrow> Vault \<Rightarrow> (CustodyError + unit) \<times> Vault) \<Rightarrow> Vault
     \<Rightarrow> (WalletError + WalletCreate) \<times> Vault" where
  "wallet_create X K put V =
     (case refuse_if_present V of
        Inl e \<Rightarrow> (Inl e, V)
      | Inr u \<Rightarrow>
        (case k_generate K of
           None \<Rightarrow> (Inl Derivation, V)
         | Some (phrase, entropy) \<Rightarrow>
           (case k_key_of_phrase K phrase DEFAULT_ACCOUNT_INDEX of
              None \<Rightarrow> (Inl Derivation, V)
            | Some key \<Rightarrow>
              (case put entropy V of
                 (Inl e, V') \<Rightarrow> (Inl (wallet_error_of_custody e), V')
               | (Inr u, V') \<Rightarrow>
                 (Inr \<lparr>wc_address = wi_address (info_of X K key),
                       wc_public_key_hex = wi_public_key_hex (info_of X K key), wc_mnemonic = phrase\<rparr>, V')))))"

definition wallet_import ::
  "'x deps_scheme \<Rightarrow> wallet_crypto \<Rightarrow> (bytes \<Rightarrow> Vault \<Rightarrow> (CustodyError + unit) \<times> Vault) \<Rightarrow> string \<Rightarrow> Vault
     \<Rightarrow> (WalletError + WalletInfo) \<times> Vault" where
  "wallet_import X K put mnemonic V =
     (case refuse_if_present V of
        Inl e \<Rightarrow> (Inl e, V)
      | Inr u \<Rightarrow>
        (case k_parse_mnemonic K (trim mnemonic) of
           None \<Rightarrow> (Inl InvalidMnemonic, V)
         | Some (phrase, entropy) \<Rightarrow>
           (case k_key_of_phrase K phrase DEFAULT_ACCOUNT_INDEX of
              None \<Rightarrow> (Inl Derivation, V)
            | Some key \<Rightarrow>
              (case put entropy V of
                 (Inl e, V') \<Rightarrow> (Inl (wallet_error_of_custody e), V')
               | (Inr u, V') \<Rightarrow> (Inr (info_of X K key), V')))))"

definition address :: "'x deps_scheme \<Rightarrow> wallet_crypto \<Rightarrow> Vault \<Rightarrow> WalletError + WalletInfo" where
  "address X K V = stored_info X K V"

text \<open>\<open>t.get(..9)\<close>: nothing for a shorter string or one with no character boundary there.\<close>

definition get_head :: "nat \<Rightarrow> string \<Rightarrow> string option" where
  "get_head n t =
     (if length t < n then None
      else if n < length t \<and> is_cont (t ! n) then None
      else Some (take n t))"

text \<open>The value of a \<open>Chain ID:\<close> line.\<close>

definition chain_line :: "string \<Rightarrow> string option" where
  "chain_line line =
     (let t = trim line in
      case get_head 9 t of
        None \<Rightarrow> None
      | Some head \<Rightarrow>
        if \<not> eq_ignore_ascii_case head ''chain id:'' then None else Some (trim (drop 9 t)))"

fun scope_of_lines :: "nat option \<Rightarrow> string list \<Rightarrow> SignatureScope" where
  "scope_of_lines found [] = (case found of Some c \<Rightarrow> Chain c | None \<Rightarrow> Unbound)"
| "scope_of_lines found (line # rest) =
     (case chain_line line of
        None \<Rightarrow> scope_of_lines found rest
      | Some v \<Rightarrow>
        (let c = (case parse_u64 v of Some n \<Rightarrow> n | None \<Rightarrow> 0) in
         case found of
           None \<Rightarrow> scope_of_lines (Some c) rest
         | Some prev \<Rightarrow> if prev \<noteq> c then Chain 0 else scope_of_lines found rest))"

definition personal_message_scope :: "bytes \<Rightarrow> SignatureScope" where
  "personal_message_scope message =
     (if \<not> valid_utf8 (of_bytes message) then Unbound
      else scope_of_lines None (lines (of_bytes message)))"

definition sign_message :: "wallet_crypto \<Rightarrow> rpc_env \<Rightarrow> Vault \<Rightarrow> bytes \<Rightarrow> WalletError + bytes" where
  "sign_message K R V message =
     and_then (signing_key K R V (personal_message_scope message)) (\<lambda>key. Inr (k_sign K key message))"

definition sign_transaction ::
  "wallet_crypto \<Rightarrow> rpc_env \<Rightarrow> Vault \<Rightarrow> LegacyTxFields \<Rightarrow> nat \<Rightarrow> WalletError + SignedTx" where
  "sign_transaction K R V fs chain =
     and_then (signing_key K R V (Chain chain)) (\<lambda>key.
     case key of
       Secp256k1 sk \<Rightarrow> ok_or Derivation (k_sign_legacy_tx K sk fs chain)
     | _ \<Rightarrow> Inl Derivation)"

definition eip191_prehash :: "'x deps_scheme \<Rightarrow> bytes \<Rightarrow> bytes" where
  "eip191_prehash X message =
     keccak X (25 # as_bytes (''Ethereum Signed Message:'' @ [CHR 10]) @ as_bytes (show_nat (length message))
       @ message)"

definition sign_personal ::
  "'x deps_scheme \<Rightarrow> wallet_crypto \<Rightarrow> rpc_env \<Rightarrow> Vault \<Rightarrow> bytes \<Rightarrow> WalletError + bytes" where
  "sign_personal X K R V message =
     and_then (signing_key K R V (personal_message_scope message)) (\<lambda>key.
     case key of
       Secp256k1 sk \<Rightarrow>
         and_then (ok_or Derivation (k_sign_recoverable K sk (eip191_prehash X message))) (\<lambda>(r, s, rec).
         Inr (r @ s @ [rec + 27]))
     | _ \<Rightarrow> Inl Derivation)"

definition recover_personal ::
  "'x deps_scheme \<Rightarrow> wallet_crypto \<Rightarrow> bytes \<Rightarrow> bytes \<Rightarrow> WalletError + string" where
  "recover_personal X K message sig =
     (let prehash = eip191_prehash X message;
          raw_v = sig ! 64;
          v = (if raw_v \<ge> 27 then raw_v - 27 else raw_v)
      in if \<not> k_signature_ok K (take 64 sig) then Inl Derivation
         else if \<not> k_recovery_id_ok K v then Inl Derivation
         else
           (case k_recover K (take 64 sig) prehash v of
              None \<Rightarrow> Inl Derivation
            | Some pub_bytes \<Rightarrow> Inr (''0x'' @ hex_encode X (drop 12 (keccak X (drop 1 pub_bytes))))))"

definition recover_personal_hex ::
  "'x deps_scheme \<Rightarrow> wallet_crypto \<Rightarrow> bytes \<Rightarrow> string \<Rightarrow> WalletError + string" where
  "recover_personal_hex X K message sig_hex =
     (let clean = (case strip_prefix ''0x'' sig_hex of Some r \<Rightarrow> r | None \<Rightarrow> sig_hex) in
      and_then (ok_or Derivation (hex_decode X clean)) (\<lambda>bytes.
      if length bytes \<noteq> 65 then Inl Derivation else recover_personal X K message bytes))"

section \<open>The gate in front of the key\<close>

lemma signing_key_gate:
  assumes "signing_key K R V scope = Inr key"
  shows "(\<forall>g\<in>set (gates_of (re_gates R)). is_set g \<and> (\<forall>c. scope = Chain c \<longrightarrow> en_chain_id g = Some c)) \<and>
    (\<exists>entropy. v_wallet_slot V = Inr entropy \<and> derive_key_from_entropy K entropy = Inr key)"
  using assms
  by (auto simp: signing_key_def and_then_Inr_iff check_wallet_signing_Inr read_entropy_def
      split: sum.splits CustodyError.splits if_splits)

lemma signing_key_refused:
  assumes "check_wallet_signing (re_debug R) (re_gates R) scope = Inl e"
  shows "\<exists>m. \<forall>V. signing_key K R V scope = Inl (WalletWrongNetwork m)"
proof -
  obtain m where "e = RpcWrongNetwork m" using check_wallet_signing_Inl [OF assms] by blast
  with assms show ?thesis by (auto simp: signing_key_def)
qed

lemma signing_key_address:
  "signing_key K R V scope = Inr key \<Longrightarrow> address X K V = Inr (info_of X K key)"
  by (auto simp: signing_key_def address_def stored_info_def and_then_Inr_iff)


section \<open>Signatures recover to the wallet\<close>

text \<open>What \<open>k256\<close> documents of recoverable signatures, and \<open>citrate_wallet_core\<close> of addresses: a
  signature has two 32-byte halves and a recovery id 0 or 1, recovering from it yields the signing
  key's public key, and an address is the last 20 bytes of the hash of that key without its tag.\<close>

definition recover_law :: "'x deps_scheme \<Rightarrow> wallet_crypto \<Rightarrow> bool" where
  "recover_law X K \<longleftrightarrow>
     (\<forall>sk prehash r s rec. k_sign_recoverable K sk prehash = Some (r, s, rec) \<longrightarrow>
        length r = 32 \<and> length s = 32 \<and> rec \<in> {0, 1} \<and> k_signature_ok K (r @ s) \<and> k_recovery_id_ok K rec \<and>
        k_recover K (r @ s) prehash rec = Some (k_public_key K (Secp256k1 sk))) \<and>
     (\<forall>sk. k_derive_address K (Secp256k1 sk) =
        ''0x'' @ hex_encode X (drop 12 (keccak X (drop 1 (k_public_key K (Secp256k1 sk))))))"

text \<open>
  C37. Signing and recovering agree: a \<open>personal_sign\<close> signature is 65 bytes ending in 27 or 28, and
  \<open>recover_personal\<close> on the same message returns the address the wallet shows for itself, also when
  the signature travels as hex.
\<close>

theorem personal_sign_recovers:
  assumes "recover_law X K" and "hex_law X" and "sign_personal X K R V message = Inr sig"
  shows "length sig = 65 \<and> last sig \<in> {27, 28} \<and>
    (\<exists>i. address X K V = Inr i \<and> recover_personal X K message sig = Inr (wi_address i) \<and>
       recover_personal_hex X K message (''0x'' @ hex_encode X sig) = Inr (wi_address i))"
proof -
  obtain key where k: "signing_key K R V (personal_message_scope message) = Inr key"
    using assms(3) by (auto simp: sign_personal_def and_then_Inr_iff)
  then obtain sk r s rec where key: "key = Secp256k1 sk"
    and sig: "k_sign_recoverable K sk (eip191_prehash X message) = Some (r, s, rec)" "sig = r @ s @ [rec + 27]"
    using assms(3) by (cases key) (auto simp: sign_personal_def and_then_Inr_iff)
  note law = assms(1) [unfolded recover_law_def]
  have l: "length r = 32" "length s = 32" "rec = 0 \<or> rec = 1" "k_signature_ok K (r @ s)" "k_recovery_id_ok K rec"
    "k_recover K (r @ s) (eip191_prehash X message) rec = Some (k_public_key K (Secp256k1 sk))"
    using law sig(1) by blast+
  then have "sig ! 64 = rec + 27" "take 64 sig = r @ s" by (simp_all add: sig(2) nth_append)
  moreover have "rec + 27 \<ge> 27" using l(3) by auto
  ultimately have "recover_personal X K message sig = Inr (wi_address (info_of X K (Secp256k1 sk)))"
    using l law by (simp add: recover_personal_def info_of_def)
  moreover have "length sig = 65" "last sig \<in> {27, 28}" using l by (auto simp: sig(2))
  ultimately show ?thesis
    using signing_key_address [OF k [unfolded key], of X] assms(2)
    by (simp add: recover_personal_hex_def hex_roundtrip)
qed

text \<open>A locked vault says so, an unlocked one without a wallet too, and neither signs.\<close>

lemma denied_vault_signs_nothing:
  assumes "v_wallet_slot V = Inl Denied" and "check_wallet_signing (re_debug R) (re_gates R) (personal_message_scope m) = Inr u"
  shows "sign_personal X K R V m = Inl (if v_is_unlocked V then WalletNotFound else Custody)"
  using assms by (simp add: sign_personal_def signing_key_def read_entropy_def)

lemma create_never_clobbers:
  assumes "v_wallet_slot V = Inr e"
  shows "wallet_create X K put V = (Inl AlreadyExists, V)" and "wallet_import X K put mn V = (Inl AlreadyExists, V)"
  using assms by (simp_all add: wallet_create_def wallet_import_def refuse_if_present_def)

section \<open>Witnesses\<close>

definition demo_public_key :: bytes where "demo_public_key = 4 # replicate 64 9"

definition demo_crypto :: wallet_crypto where
  "demo_crypto =
     \<lparr>k_generate = Some (''seed'', [1]), k_parse_mnemonic = (\<lambda>m. Some (m, [1])), k_phrase_of_entropy = (\<lambda>e. Some ''seed''),
      k_key_of_phrase = (\<lambda>p i. Some (Secp256k1 [7])),
      k_derive_address = (\<lambda>k. ''0x'' @ hex_encode_ref (drop 12 (digest_ref (drop 1 demo_public_key)))),
      k_public_key = (\<lambda>k. demo_public_key), k_sign = (\<lambda>k m. m),
      k_sign_recoverable = (\<lambda>sk h. Some (replicate 32 1, replicate 32 2, 0)),
      k_sign_legacy_tx = (\<lambda>sk fs c. Some \<lparr>stx_raw = [1, 2, 3], stx_hash = digest_ref [1, 2, 3]\<rparr>),
      k_signature_ok = (\<lambda>s. True), k_recovery_id_ok = (\<lambda>v. v < 4), k_recover = (\<lambda>s h v. Some demo_public_key),
      k_hkdf_expand = (\<lambda>salt e i. Some (replicate 32 1)), k_scalar_ok = (\<lambda>b. True)\<rparr>"

definition demo_vault :: Vault where "demo_vault = \<lparr>v_wallet_slot = Inr [1], v_is_unlocked = True\<rparr>"

lemma demo_recover_law: "recover_law (ref_with m) demo_crypto"
  by (auto simp: recover_law_def demo_crypto_def)

lemma demo_signing_key: "signing_key demo_crypto (demo_env a) demo_vault scope = Inr (Secp256k1 [7])"
  by (simp add: signing_key_def demo_env_def check_wallet_signing_def gates_of_def read_entropy_def demo_vault_def
      derive_key_from_entropy_def demo_crypto_def)

lemma demo_sign:
  "sign_personal (ref_with m) demo_crypto (demo_env a) demo_vault msg = Inr (replicate 32 1 @ replicate 32 2 @ [27])"
  by (simp add: sign_personal_def demo_signing_key) (simp add: demo_crypto_def)

theorem personal_sign_recovers_witness:
  "\<exists>i. address ref_deps demo_crypto demo_vault = Inr i \<and>
     recover_personal ref_deps demo_crypto [104, 105] (replicate 32 1 @ replicate 32 2 @ [27]) = Inr (wi_address i)"
  using personal_sign_recovers [OF demo_recover_law hex_law_ref demo_sign [of "()" "HttpFailed []" "[104, 105]"]] by blast


end
