(* ===== verification/AbiBook.thy ===== *)
theory AbiBook
  imports TxDecode
begin

text \<open>
  \<open>kit/src/abi_book.rs\<close>: calls to a gated contract, decoded from its own ABI. The digit arithmetic of
  the decimal printer and the two's complement are modelled as the source does them. The results:
  what is read from an ABI is well formed; the printers are exact; a call is shown as
  \<open>name(arg=value, ...)\<close> in a way that determines its calldata; the book keeps the newest
  registrations within its capacity.
\<close>

unbundle bit_operations_syntax

section \<open>Definitions\<close>

definition MAX_CONTRACTS :: nat where "MAX_CONTRACTS = 256"

definition MAX_FUNCTIONS :: nat where "MAX_FUNCTIONS = 512"

definition MAX_NAME :: nat where "MAX_NAME = 64"

datatype AbiType = UintN nat | IntN nat | Address | Bool | FixedBytes nat

definition abi_bits :: "string \<Rightarrow> nat option" where
  "abi_bits rest =
     (case (if rest = [] then Some 256 else from_str_radix 16 10 rest) of
        None \<Rightarrow> None
      | Some n \<Rightarrow> if 8 \<le> n \<and> n \<le> 256 \<and> n mod 8 = 0 then Some n else None)"

definition abi_parse :: "string \<Rightarrow> AbiType option" where
  "abi_parse s =
     (if s = ''address'' then Some Address
      else if s = ''bool'' then Some Bool
      else if starts_with ''uint'' s then map_option UintN (abi_bits (drop 4 s))
      else if starts_with ''int'' s then map_option IntN (abi_bits (drop 3 s))
      else if starts_with ''bytes'' s \<and> length s > 5 then
        (case from_str_radix 8 10 (drop 5 s) of
           None \<Rightarrow> None
         | Some n \<Rightarrow> if 1 \<le> n \<and> n \<le> 32 then Some (FixedBytes n) else None)
      else None)"

fun abi_canonical :: "AbiType \<Rightarrow> string" where
  "abi_canonical (UintN n) = ''uint'' @ show_nat n"
| "abi_canonical (IntN n) = ''int'' @ show_nat n"
| "abi_canonical Address = ''address''"
| "abi_canonical Bool = ''bool''"
| "abi_canonical (FixedBytes n) = ''bytes'' @ show_nat n"

text \<open>One pass of \<open>for d in digits.iter_mut()\<close> (least significant digit first): the new digits and the
  carry that is left. The \<open>u32\<close> never overflows: a digit is below 10 and the carry below 256.\<close>

fun scale_digits :: "nat \<Rightarrow> nat list \<Rightarrow> nat list \<times> nat" where
  "scale_digits carry [] = ([], carry)"
| "scale_digits carry (d # ds) =
     (let v = d * 256 + carry; (ds', carry') = scale_digits (v div 10) ds in (v mod 10 # ds', carry'))"

fun carry_digits :: "nat \<Rightarrow> nat list" where
  "carry_digits carry = (if carry > 0 then carry mod 10 # carry_digits (carry div 10) else [])"

declare carry_digits.simps [simp del]

definition push_byte :: "nat list \<Rightarrow> byte \<Rightarrow> nat list" where
  "push_byte digits b = (let (ds, carry) = scale_digits (unat b) digits in ds @ carry_digits carry)"

definition word_decimal :: "bytes \<Rightarrow> string" where
  "word_decimal w = map digit_char (rev (foldl push_byte [0] w))"

text \<open>The two's complement loop, from the last byte to the first, with its carry.\<close>

definition negate_word :: "bytes \<Rightarrow> nat \<times> bytes" where
  "negate_word w =
     foldr (\<lambda>b (carry, m). let v = unat (NOT b) + carry in (v div 256, word_of_nat (v mod 256) # m)) w (1, [])"

definition abi_decode :: "'x deps_scheme \<Rightarrow> AbiType \<Rightarrow> bytes \<Rightarrow> string option" where
  "abi_decode X ty w =
     (case ty of
        Address \<Rightarrow> if all_zero (take 12 w) then Some (''0x'' @ hex_encode X (drop 12 w)) else None
      | Bool \<Rightarrow>
          if all_zero (take 31 w) \<and> w ! 31 \<le> 1 then Some (if w ! 31 = 1 then ''true'' else ''false'') else None
      | FixedBytes n \<Rightarrow> if all_zero (drop n w) then Some (''0x'' @ hex_encode X (take n w)) else None
      | UintN bits \<Rightarrow>
          if \<not> all_zero (take (32 - bits div 8) w) then None else Some (word_decimal w)
      | IntN bits \<Rightarrow>
          (let pad = 32 - bits div 8;
               neg = w ! pad AND 128 \<noteq> 0;
               fill = (if neg then 255 else 0)
           in if \<not> list_all (\<lambda>b. b = fill) (take pad w) then None
              else if \<not> neg then Some (word_decimal w)
              else Some (''-'' @ word_decimal (snd (negate_word w)))))"

record AbiFunction =
  af_name :: string
  af_inputs :: "(string \<times> AbiType) list"
  af_payable :: bool
  af_selector :: bytes

record ContractAbi =
  ca_name :: string
  ca_functions :: "AbiFunction list"

definition safe_name :: "string \<Rightarrow> string option" where
  "safe_name s =
     (if s \<noteq> [] \<and> length s \<le> MAX_NAME
          \<and> list_all (\<lambda>c. is_ascii_alphanumeric c \<or> c = CHR ''_'' \<or> c = CHR ''$'') s
      then Some s else None)"

definition str_field :: "Value \<Rightarrow> string \<Rightarrow> string option" where
  "str_field v k = (case value_get v k of None \<Rightarrow> None | Some x \<Rightarrow> as_str x)"

fun abi_inputs :: "nat \<Rightarrow> Value list \<Rightarrow> (string \<times> AbiType) list option" where
  "abi_inputs i [] = Some []"
| "abi_inputs i (inp # rest) =
     (let ty = (case str_field inp ''type'' of None \<Rightarrow> None | Some t \<Rightarrow> abi_parse t);
          arg = (case (case str_field inp ''name'' of None \<Rightarrow> None | Some n \<Rightarrow> safe_name n) of
                   Some n \<Rightarrow> n | None \<Rightarrow> ''arg'' @ show_nat i)
      in case ty of
           None \<Rightarrow> None
         | Some t \<Rightarrow> (case abi_inputs (Suc i) rest of None \<Rightarrow> None | Some r \<Rightarrow> Some ((arg, t) # r)))"

definition abi_signature :: "string \<Rightarrow> (string \<times> AbiType) list \<Rightarrow> string" where
  "abi_signature fname inputs = fname @ ''('' @ join '','' (map (\<lambda>(a, t). abi_canonical t) inputs) @ '')''"

text \<open>One entry of the ABI array; \<open>None\<close> is \<open>continue\<close>.\<close>

definition abi_entry :: "'x deps_scheme \<Rightarrow> Value \<Rightarrow> AbiFunction option" where
  "abi_entry X e =
     (if str_field e ''type'' \<noteq> Some ''function'' then None else
      case (case str_field e ''stateMutability'' of
              Some m \<Rightarrow> if m = ''payable'' then Some True else if m = ''nonpayable'' then Some False else None
            | None \<Rightarrow> None) of
        None \<Rightarrow> None
      | Some payable \<Rightarrow>
        (case (case str_field e ''name'' of None \<Rightarrow> None | Some n \<Rightarrow> safe_name n) of
           None \<Rightarrow> None
         | Some fname \<Rightarrow>
           (case (case value_get e ''inputs'' of None \<Rightarrow> None | Some v \<Rightarrow> as_array v) of
              None \<Rightarrow> None
            | Some raw_inputs \<Rightarrow>
              (case abi_inputs 0 raw_inputs of
                 None \<Rightarrow> None
               | Some inputs \<Rightarrow>
                 Some \<lparr>af_name = fname, af_inputs = inputs, af_payable = payable,
                       af_selector = selector_of X (abi_signature fname inputs)\<rparr>))))"

definition from_abi_json :: "'x deps_scheme \<Rightarrow> string \<Rightarrow> Value \<Rightarrow> string + ContractAbi" where
  "from_abi_json X name abi =
     and_then (ok_or ''the contract name is not a plain identifier'' (safe_name name)) (\<lambda>name.
     and_then (ok_or ''the ABI is not an array'' (as_array abi)) (\<lambda>entries.
     let functions = List.map_filter (abi_entry X) (take MAX_FUNCTIONS entries);
         seen = (\<lambda>sel. length (filter (\<lambda>f. af_selector f = sel) functions))
     in Inr \<lparr>ca_name = name, ca_functions = filter (\<lambda>f. seen (af_selector f) = 1) functions\<rparr>))"

fun decode_args :: "'x deps_scheme \<Rightarrow> bytes \<Rightarrow> nat \<Rightarrow> (string \<times> AbiType) list \<Rightarrow> string list option" where
  "decode_args X data i [] = Some []"
| "decode_args X data i ((name, ty) # rest) =
     (case abi_decode X ty (slice (4 + 32 * i) (4 + 32 * (i + 1)) data) of
        None \<Rightarrow> None
      | Some v \<Rightarrow>
        (case decode_args X data (Suc i) rest of None \<Rightarrow> None | Some vs \<Rightarrow> Some ((name @ ''='' @ v) # vs)))"

definition decode_call :: "'x deps_scheme \<Rightarrow> ContractAbi \<Rightarrow> bytes \<Rightarrow> nat \<Rightarrow> string option" where
  "decode_call X abi data value =
     (if length data < 4 then None else
      case find (\<lambda>f. af_selector f = take 4 data) (ca_functions abi) of
        None \<Rightarrow> None
      | Some f \<Rightarrow>
        if length data \<noteq> 4 + 32 * length (af_inputs f) \<or> (value > 0 \<and> \<not> af_payable f) then None
        else
          (case decode_args X data 0 (af_inputs f) of
             None \<Rightarrow> None
           | Some args \<Rightarrow> Some (af_name f @ ''('' @ join '', '' args @ '')'')))"

record BookInner =
  ab_seq :: nat
  ab_by_address :: "(bytes \<times> nat \<times> ContractAbi) list"

definition abi_book_default :: BookInner where "abi_book_default = \<lparr>ab_seq = 0, ab_by_address = []\<rparr>"

function evict_contracts :: "(bytes \<times> nat \<times> ContractAbi) list \<Rightarrow> (bytes \<times> nat \<times> ContractAbi) list" where
  "evict_contracts m =
     (if length m > MAX_CONTRACTS then
        (case min_by_key (\<lambda>(k, s, a). s) m of
           Some (k, s, a) \<Rightarrow> evict_contracts (bt_remove k m)
         | None \<Rightarrow> m)
      else m)"
  by pat_completeness simp
termination
proof (relation "measure length")
  fix m :: "(bytes \<times> nat \<times> ContractAbi) list" and x y k z s a
  assume "min_by_key (\<lambda>(k, s, a). s) m = Some x" "(k, z) = x" "(s, a) = z"
  then have "(k, s, a) \<in> set m" using min_by_key_Some [of "\<lambda>(k, s, a). s" m x] by auto
  then have "length (bt_remove k m) < length m" by (intro length_bt_remove) force
  then show "(bt_remove k m, m) \<in> measure length" by simp
qed auto

declare evict_contracts.simps [simp del]

definition register :: "bytes \<Rightarrow> ContractAbi \<Rightarrow> BookInner \<Rightarrow> BookInner" where
  "register addr abi g =
     (let seq = wrap_inc (ab_seq g) in
      \<lparr>ab_seq = seq, ab_by_address = evict_contracts (bt_insert addr (seq, abi) (ab_by_address g))\<rparr>)"

definition book_get :: "BookInner \<Rightarrow> bytes \<Rightarrow> ContractAbi option" where
  "book_get g addr = map_option snd (bt_get addr (ab_by_address g))"

definition book_len :: "BookInner \<Rightarrow> nat" where
  "book_len g = length (ab_by_address g)"

definition book_is_empty :: "BookInner \<Rightarrow> bool" where
  "book_is_empty g \<longleftrightarrow> book_len g = 0"

section \<open>The decimal printer\<close>

text \<open>The value of digits stored least significant first.\<close>

fun digits_nat :: "nat list \<Rightarrow> nat" where
  "digits_nat [] = 0"
| "digits_nat (d # ds) = d + 10 * digits_nat ds"

lemma digits_nat_append: "digits_nat (xs @ ys) = digits_nat xs + 10 ^ length xs * digits_nat ys"
  by (induction xs) (auto simp: algebra_simps)

lemma scale_digits_spec:
  "scale_digits carry ds = (ds', c') \<Longrightarrow>
   length ds' = length ds \<and> list_all (\<lambda>d. d < 10) ds' \<and>
   digits_nat ds' + 10 ^ length ds * c' = 256 * digits_nat ds + carry"
proof (induction ds arbitrary: carry ds' c')
  case (Cons d ds)
  let ?v = "d * 256 + carry"
  obtain es e where e: "scale_digits (?v div 10) ds = (es, e)" by fastforce
  then have ds': "ds' = ?v mod 10 # es" "c' = e" using Cons.prems by (auto simp: Let_def)
  obtain q r where q: "?v div 10 = q" "?v mod 10 = r" "?v = 10 * q + r" using mult_div_mod_eq [of 10 ?v] by metis
  have "digits_nat es + 10 ^ length ds * e = 256 * digits_nat ds + q" using Cons.IH [OF e] q(1) by simp
  then have "10 * digits_nat es + 10 * (10 ^ length ds * e) = 10 * (256 * digits_nat ds) + 10 * q" by simp
  then have "?v mod 10 + 10 * digits_nat es + 10 ^ Suc (length ds) * e = 256 * (d + 10 * digits_nat ds) + carry"
    using q(2,3) by simp
  then show ?case using Cons.IH [OF e] ds' by simp
qed simp

lemma carry_digits_0 [simp]: "carry_digits 0 = []"
  by (simp add: carry_digits.simps [of 0])

lemma carry_digits_spec:
  "digits_nat (carry_digits c) = c \<and> list_all (\<lambda>d. d < 10) (carry_digits c) \<and>
   (c > 0 \<longrightarrow> carry_digits c \<noteq> [] \<and> last (carry_digits c) \<noteq> 0)"
proof (induction c rule: less_induct)
  case (less c)
  show ?case
  proof (cases "c = 0")
    case True
    then show ?thesis by simp
  next
    case False
    then have "c div 10 < c" by simp
    note ih = less.IH [OF this]
    have eq: "carry_digits c = c mod 10 # carry_digits (c div 10)" using False by (simp add: carry_digits.simps [of c])
    show ?thesis
    proof (cases "c div 10 = 0")
      case True
      then have "carry_digits (c div 10) = []" by simp
      then show ?thesis using eq False True by (simp add: div_eq_0_iff)
    next
      case False
      then show ?thesis using eq ih by simp
    qed
  qed
qed

text \<open>Digits are in normal form when they are all below ten and there is no leading zero.\<close>

definition digits_ok :: "nat list \<Rightarrow> bool" where
  "digits_ok ds \<longleftrightarrow> ds \<noteq> [] \<and> list_all (\<lambda>d. d < 10) ds \<and> (length ds = 1 \<or> last ds \<noteq> 0)"

lemma digits_nat_pos: "ds \<noteq> [] \<Longrightarrow> last ds \<noteq> 0 \<Longrightarrow> 10 ^ (length ds - 1) \<le> digits_nat ds"
proof (induction ds)
  case (Cons d ds)
  show ?case
  proof (cases "ds = []")
    case False
    then have "10 ^ (length ds - 1) \<le> digits_nat ds" using Cons by simp
    then have "10 * 10 ^ (length ds - 1) \<le> 10 * digits_nat ds" by simp
    moreover have "10 * 10 ^ (length ds - 1) = (10 :: nat) ^ length ds"
      using False by (cases ds) auto
    ultimately show ?thesis by simp
  qed (use Cons in simp)
qed simp

lemma digits_nat_bound: "list_all (\<lambda>d. d < 10) ds \<Longrightarrow> digits_nat ds < 10 ^ length ds"
  by (induction ds) auto

lemma push_byte_spec:
  assumes "digits_ok ds"
  shows "digits_ok (push_byte ds b) \<and> digits_nat (push_byte ds b) = 256 * digits_nat ds + unat b"
proof -
  obtain es c where e: "scale_digits (unat b) ds = (es, c)" by fastforce
  note s = scale_digits_spec [OF e] and k = carry_digits_spec [of c]
  have eq: "push_byte ds b = es @ carry_digits c" by (simp add: push_byte_def e)
  have val: "digits_nat (push_byte ds b) = 256 * digits_nat ds + unat b"
    using s k by (simp add: eq digits_nat_append)
  have es: "es \<noteq> []" using s assms by (auto simp: digits_ok_def)
  have "length (push_byte ds b) = 1 \<or> last (push_byte ds b) \<noteq> 0"
  proof (cases "c = 0")
    case True
    then have p: "push_byte ds b = es" by (simp add: eq)
    show ?thesis
    proof (cases "length ds = 1")
      case False
      then have "10 ^ (length ds - 1) \<le> digits_nat ds" using assms digits_nat_pos by (simp add: digits_ok_def)
      moreover have "digits_nat es < 10 ^ length es" using s digits_nat_bound by blast
      ultimately have "256 * 10 ^ (length ds - 1) < (10 :: nat) ^ length ds"
        using s True val p by (metis le_add1 le_less_trans less_le_trans mult_le_mono2 le_trans)
      then show ?thesis using False assms by (cases ds) (auto simp: digits_ok_def)
    qed (use s p in simp)
  next
    case False
    then show ?thesis using k eq by simp
  qed
  then show ?thesis using val s k es by (simp add: digits_ok_def eq)
qed

lemma show_digits: "digits_ok ds \<Longrightarrow> map digit_char (rev ds) = show_nat (digits_nat ds)"
proof (induction ds)
  case (Cons d ds)
  show ?case
  proof (cases "ds = []")
    case True
    then show ?thesis using Cons.prems by (simp add: digits_ok_def show_nat.simps [of d])
  next
    case False
    then have ok: "digits_ok ds" and d: "d < 10" and last: "last ds \<noteq> 0"
      using Cons.prems by (auto simp: digits_ok_def)
    have "1 \<le> digits_nat ds" using digits_nat_pos [OF False last] by (meson le_trans one_le_power numeral_One one_le_numeral)
    then have "\<not> d + 10 * digits_nat ds < 10" "(d + 10 * digits_nat ds) div 10 = digits_nat ds"
      "(d + 10 * digits_nat ds) mod 10 = d" using d by auto
    then show ?thesis using Cons.IH [OF ok] by (simp add: show_nat.simps [of "d + 10 * digits_nat ds"])
  qed
qed (simp add: digits_ok_def)

lemma foldl_push_byte:
  "digits_ok ds \<Longrightarrow> digits_ok (foldl push_byte ds w) \<and>
     digits_nat (foldl push_byte ds w) = digits_nat ds * 256 ^ length w + be_val w"
proof (induction w arbitrary: ds)
  case (Cons b w)
  then show ?case using push_byte_spec [OF Cons.prems] by (simp add: be_val_Cons algebra_simps)
qed simp

lemma word_decimal_show: "word_decimal w = show_nat (be_val w)"
  using foldl_push_byte [of "[0]" w] show_digits [of "foldl push_byte [0] w"]
  by (simp add: word_decimal_def digits_ok_def)

section \<open>Two's complement\<close>

lemma unat_not_byte: "unat (NOT b :: byte) = 255 - unat b"
proof -
  have "NOT b = 255 - b" by (simp add: not_eq_complement)
  moreover have "b \<le> 255" using byte_bound [of b] by (simp add: word_le_nat_alt)
  ultimately show ?thesis using unat_sub [of b 255] by simp
qed

lemma negate_word_spec:
  "fst (negate_word w) * 256 ^ length w + be_val (snd (negate_word w)) + be_val w = 256 ^ length w \<and>
   length (snd (negate_word w)) = length w \<and> fst (negate_word w) \<le> 1"
proof (induction w)
  case Nil
  then show ?case by (simp add: negate_word_def)
next
  case (Cons b w)
  obtain c m where n: "negate_word w = (c, m)" by fastforce
  let ?v = "unat (NOT b :: byte) + c"
  have ih: "c * 256 ^ length w + be_val m + be_val w = 256 ^ length w" "length m = length w" "c \<le> 1"
    using Cons n by simp_all
  have eq: "negate_word (b # w) = (?v div 256, word_of_nat (?v mod 256) # m)"
    using n by (simp add: negate_word_def Let_def)
  obtain q r where v: "?v div 256 = q" "?v mod 256 = r" "?v = 256 * q + r" using mult_div_mod_eq [of 256 ?v] by metis
  have u: "unat (word_of_nat r :: byte) = r" using v(2) by (simp add: unat_byte flip: v(2))
  have nb: "unat (NOT b :: byte) + unat b = 255" using byte_bound [of b] by (simp add: unat_not_byte)
  let ?P = "(256 :: nat) ^ length w"
  have "q * (256 * ?P) + (r * ?P + be_val m) + (unat b * ?P + be_val w) = (256 * q + r + unat b) * ?P + be_val m + be_val w"
    by (simp add: algebra_simps)
  also have "256 * q + r + unat b = 255 + c" using v(3) nb by simp
  also have "(255 + c) * ?P + be_val m + be_val w = 255 * ?P + (c * ?P + be_val m + be_val w)" by (simp add: algebra_simps)
  also have "\<dots> = 256 * ?P" using ih by simp
  finally have "q * (256 * ?P) + (r * ?P + be_val m) + (unat b * ?P + be_val w) = 256 * ?P" .
  moreover have "?v div 256 \<le> 1" using ih(3) byte_bound [of "NOT b"] by simp
  ultimately show ?case using ih(2) by (simp add: eq be_val_Cons u v(1,2))
qed

section \<open>What is read from an ABI\<close>

fun type_ok :: "AbiType \<Rightarrow> bool" where
  "type_ok (UintN n) \<longleftrightarrow> 8 \<le> n \<and> n \<le> 256 \<and> n mod 8 = 0"
| "type_ok (IntN n) \<longleftrightarrow> 8 \<le> n \<and> n \<le> 256 \<and> n mod 8 = 0"
| "type_ok (FixedBytes n) \<longleftrightarrow> 1 \<le> n \<and> n \<le> 32"
| "type_ok ty \<longleftrightarrow> True"

definition abi_ok :: "'x deps_scheme \<Rightarrow> ContractAbi \<Rightarrow> bool" where
  "abi_ok X abi \<longleftrightarrow>
     safe_name (ca_name abi) \<noteq> None \<and> distinct (map af_selector (ca_functions abi)) \<and>
     (\<forall>f\<in>set (ca_functions abi). safe_name (af_name f) \<noteq> None \<and>
        list_all (\<lambda>(a, t). type_ok t) (af_inputs f) \<and>
        af_selector f = selector_of X (abi_signature (af_name f) (af_inputs f)))"

lemma abi_bits_ok: "abi_bits s = Some n \<Longrightarrow> 8 \<le> n \<and> n \<le> 256 \<and> n mod 8 = 0"
  by (auto simp: abi_bits_def split: if_splits option.splits)

lemma abi_parse_ok: "abi_parse s = Some t \<Longrightarrow> type_ok t"
  by (auto simp: abi_parse_def dest: abi_bits_ok split: if_splits option.splits)

lemma abi_inputs_ok: "abi_inputs i vs = Some ins \<Longrightarrow> list_all (\<lambda>(a, t). type_ok t) ins"
  by (induction vs arbitrary: i ins) (auto simp: Let_def dest: abi_parse_ok split: option.splits)

lemma abi_entry_ok:
  assumes "abi_entry X e = Some f"
  shows "safe_name (af_name f) \<noteq> None \<and> list_all (\<lambda>(a, t). type_ok t) (af_inputs f) \<and>
    af_selector f = selector_of X (abi_signature (af_name f) (af_inputs f))"
proof -
  have "safe_name n = Some m \<Longrightarrow> safe_name m \<noteq> None" for n m
    by (auto simp: safe_name_def split: if_splits)
  then show ?thesis
    using assms by (auto simp: abi_entry_def abi_inputs_ok split: option.splits if_splits)
qed

lemma distinct_unique_key:
  assumes "\<forall>x\<in>set xs. length (filter (\<lambda>y. f y = f x) xs) = 1"
  shows "distinct (map f xs)"
  using assms
proof (induction xs)
  case (Cons x xs)
  have none: "filter (\<lambda>y. f y = f x) xs = []" using Cons.prems by simp
  then have "f x \<notin> f ` set xs" by (auto simp: filter_empty_conv)
  moreover have "\<forall>z\<in>set xs. length (filter (\<lambda>y. f y = f z) xs) = 1"
  proof
    fix z
    assume z: "z \<in> set xs"
    then have "f z \<noteq> f x" using none by (auto simp: filter_empty_conv)
    then show "length (filter (\<lambda>y. f y = f z) xs) = 1" using Cons.prems z by auto
  qed
  ultimately show ?case using Cons.IH by simp
qed simp

lemma unique_key_filter:
  "distinct (map f (filter (\<lambda>x. length (filter (\<lambda>y. f y = f x) xs) = 1) xs))"
proof (rule distinct_unique_key)
  show "\<forall>x\<in>set (filter (\<lambda>x. length (filter (\<lambda>y. f y = f x) xs) = 1) xs).
      length (filter (\<lambda>y. f y = f x) (filter (\<lambda>x. length (filter (\<lambda>y. f y = f x) xs) = 1) xs)) = 1"
  proof
    fix x
    assume x: "x \<in> set (filter (\<lambda>x. length (filter (\<lambda>y. f y = f x) xs) = 1) xs)"
    then have "filter (\<lambda>y. f y = f x) (filter (\<lambda>x. length (filter (\<lambda>y. f y = f x) xs) = 1) xs)
        = filter (\<lambda>y. f y = f x) xs"
      by (auto intro!: filter_cong)
    with x show "length (filter (\<lambda>y. f y = f x) (filter (\<lambda>x. length (filter (\<lambda>y. f y = f x) xs) = 1) xs)) = 1"
      by simp
  qed
qed

lemma set_map_filter: "x \<in> set (List.map_filter g xs) \<Longrightarrow> \<exists>y\<in>set xs. g y = Some x"
  by (auto simp: List.map_filter_def)


section \<open>A call is shown exactly\<close>

lemma zero_block: "all_zero (take n w) \<Longrightarrow> all_zero (take n w') \<Longrightarrow> length w = length w' \<Longrightarrow> take n w = take n w'"
  by (metis all_zero_replicate length_take)

lemma zero_tail: "all_zero (drop n w) \<Longrightarrow> all_zero (drop n w') \<Longrightarrow> length w = length w' \<Longrightarrow> drop n w = drop n w'"
  by (metis all_zero_replicate length_drop)

lemma bool_word:
  assumes "length w = 32" and "all_zero (take 31 w)"
  shows "w = replicate 31 0 @ [w ! 31]"
proof -
  have "w = take 31 w @ [w ! 31]" using assms(1) take_Suc_conv_app_nth [of 31 w] by simp
  moreover have "take 31 w = replicate 31 0" using assms by (simp add: all_zero_replicate)
  ultimately show ?thesis by simp
qed

lemma negate_word_inj:
  assumes "be_val (snd (negate_word w)) = be_val (snd (negate_word w'))" and "length w = length w'"
  shows "w = w'"
proof -
  have "be_val w = (if be_val (snd (negate_word w)) = 0 then 0 else 256 ^ length w - be_val (snd (negate_word w)))" for w
    using negate_word_spec [of w] be_val_bound [of w]
    by (cases "fst (negate_word w) = 0") (auto simp: le_Suc_eq)
  from this [of w] this [of w'] show ?thesis using assms by (simp add: be_val_inj [symmetric])
qed

lemma minus_not_digits: "show_nat n \<noteq> CHR ''-'' # s"
proof
  assume "show_nat n = CHR ''-'' # s"
  then have "is_ascii_digit (CHR ''-'')" by (rule show_nat_head)
  then show False by (simp add: is_ascii_digit_def code_def)
qed

lemma abi_decode_inj:
  assumes "hex_law X" and len: "length w = 32" "length w' = 32"
    and "abi_decode X ty w = Some v" and "abi_decode X ty w' = Some v"
  shows "w = w'"
proof (cases ty)
  case (UintN n)
  then show ?thesis
    using assms by (auto simp: abi_decode_def word_decimal_show show_nat_inj be_val_inj split: if_splits)
next
  case (IntN n)
  then consider "word_decimal w = word_decimal w'" | "word_decimal (snd (negate_word w)) = word_decimal (snd (negate_word w'))"
    using assms(4,5)
    by (auto simp: abi_decode_def Let_def word_decimal_show minus_not_digits minus_not_digits [symmetric] split: if_splits)
  then show ?thesis
    using negate_word_inj len by cases (auto simp: word_decimal_show show_nat_inj be_val_inj)
next
  case Address
  then have "hex_encode X (drop 12 w) = hex_encode X (drop 12 w')" "all_zero (take 12 w)" "all_zero (take 12 w')"
    using assms(4,5) by (auto simp: abi_decode_def split: if_splits)
  then have "drop 12 w = drop 12 w'" "take 12 w = take 12 w'"
    using hex_encode_inj [OF assms(1)] zero_block len by auto
  then show ?thesis by (metis append_take_drop_id)
next
  case Bool
  then have z: "all_zero (take 31 w)" "all_zero (take 31 w')" "w ! 31 \<le> 1" "w' ! 31 \<le> 1"
    "(w ! 31 = 1) = (w' ! 31 = 1)"
    using assms(4,5) by (auto simp: abi_decode_def split: if_splits)
  have "b = 0 \<or> b = 1" if "b \<le> 1" for b :: byte
    using that by (simp add: word_le_nat_alt le_Suc_eq unat_eq_0) (metis unat_1 word_unat_eq_iff One_nat_def)
  then have "w ! 31 = w' ! 31" using z(3-5) by metis
  then show ?thesis using bool_word [OF len(1) z(1)] bool_word [OF len(2) z(2)] by metis
next
  case (FixedBytes n)
  then have "hex_encode X (take n w) = hex_encode X (take n w')" "all_zero (drop n w)" "all_zero (drop n w')"
    using assms(4,5) by (auto simp: abi_decode_def split: if_splits)
  then have "take n w = take n w'" "drop n w = drop n w'"
    using hex_encode_inj [OF assms(1)] zero_tail len by auto
  then show ?thesis by (metis append_take_drop_id)
qed

text \<open>Two values of a type have the same length, or neither has a comma in it.\<close>

lemma no_comma_decimal: "CHR '','' \<notin> set (show_nat n)"
  using show_nat_digits [of "CHR '',''" n] by (auto simp: is_ascii_digit_def code_def)

lemma abi_value_sep:
  assumes "hex_law X" and "length w = length w'"
    and "abi_decode X ty w = Some v" and "abi_decode X ty w' = Some v'"
  shows "length v = length v' \<or> CHR '','' \<notin> set v \<and> CHR '','' \<notin> set v'"
  using assms
  by (cases ty) (auto simp: abi_decode_def Let_def word_decimal_show no_comma_decimal hex_encode_length split: if_splits)

lemma separated_eq:
  assumes "v @ '', '' @ r = v' @ '', '' @ r'" and "length v = length v' \<or> CHR '','' \<notin> set v \<and> CHR '','' \<notin> set v'"
  shows "v = v' \<and> r = r'"
proof (cases "length v = length v'")
  case True
  then show ?thesis using assms(1) by simp
next
  case False
  then have nc: "CHR '','' \<notin> set v" "CHR '','' \<notin> set v'" using assms(2) by auto
  have "takeWhile (\<lambda>c. c \<noteq> CHR '','') (x @ '', '' @ s) = x" if "CHR '','' \<notin> set x" for x s
    using that by (induction x) auto
  from this [OF nc(1), of r] this [OF nc(2), of r'] show ?thesis using assms(1) by simp
qed

lemma length_decode_args: "decode_args X data i ins = Some vs \<Longrightarrow> length vs = length ins"
  by (induction ins arbitrary: i vs) (auto split: option.splits)

lemma decode_args_inj:
  assumes "hex_law X" and "decode_args X data i ins = Some vs" and "decode_args X data' i ins = Some vs'"
    and "join '', '' vs = join '', '' vs'" and "length data = 4 + 32 * (i + length ins)" and "length data' = length data"
  shows "drop (4 + 32 * i) data = drop (4 + 32 * i) data'"
  using assms(2-)
proof (induction ins arbitrary: i vs vs')
  case (Cons p ins)
  obtain name ty where p: "p = (name, ty)" by fastforce
  let ?s = "\<lambda>d. slice (4 + 32 * i) (4 + 32 * (i + 1)) d"
  obtain v us where v: "abi_decode X ty (?s data) = Some v" "decode_args X data (Suc i) ins = Some us"
    "vs = (name @ ''='' @ v) # us"
    using Cons.prems(1) p by (auto split: option.splits)
  obtain v' us' where v': "abi_decode X ty (?s data') = Some v'" "decode_args X data' (Suc i) ins = Some us'"
    "vs' = (name @ ''='' @ v') # us'"
    using Cons.prems(2) p by (auto split: option.splits)
  have len: "length (?s data) = 32" "length (?s data') = 32" using Cons.prems(4,5) by (simp_all add: slice_def)
  have sep: "length v = length v' \<or> CHR '','' \<notin> set v \<and> CHR '','' \<notin> set v'"
    using abi_value_sep [OF assms(1) _ v(1) v'(1)] len by simp
  have eq: "v = v' \<and> join '', '' us = join '', '' us'"
  proof (cases "ins = []")
    case True
    then have "us = []" "us' = []" using v(2) v'(2) by auto
    then show ?thesis using Cons.prems(3) v(3) v'(3) by simp
  next
    case False
    then have "us \<noteq> []" "us' \<noteq> []" using length_decode_args v(2) v'(2) by force+
    then have "v @ '', '' @ join '', '' us = v' @ '', '' @ join '', '' us'"
      using Cons.prems(3) v(3) v'(3) by (simp add: join_Cons)
    then show ?thesis using separated_eq sep by blast
  qed
  then have "?s data = ?s data'" using abi_decode_inj [OF assms(1) len] v(1) v'(1) by simp
  moreover have "drop (4 + 32 * Suc i) data = drop (4 + 32 * Suc i) data'"
    using Cons.IH [OF v(2) v'(2)] eq Cons.prems(4,5) by simp
  moreover have "drop (4 + 32 * i) d = ?s d @ drop (4 + 32 * Suc i) d" for d :: bytes
    using append_take_drop_id [of 32 "drop (4 + 32 * i) d"] by (simp add: slice_def add.commute)
  ultimately show ?case by metis
qed simp


section \<open>The book\<close>

definition book_ok :: "BookInner \<Rightarrow> bool" where
  "book_ok g \<longleftrightarrow>
     bt_wf (ab_by_address g) \<and> book_len g \<le> MAX_CONTRACTS \<and>
     (\<forall>(k, s, a)\<in>set (ab_by_address g). s \<le> ab_seq g) \<and>
     (\<forall>e\<in>set (ab_by_address g). \<forall>e'\<in>set (ab_by_address g). fst (snd e) = fst (snd e') \<longrightarrow> e = e')"

lemma book_default_ok: "book_ok abi_book_default"
  by (simp add: book_ok_def abi_book_default_def book_len_def)

lemma evict_one:
  assumes "length m \<le> Suc MAX_CONTRACTS" and "m \<noteq> []"
  obtains "evict_contracts m = m" "length m \<le> MAX_CONTRACTS"
    | k s a where "(k, s, a) \<in> set m" "\<forall>(k', s', a')\<in>set m. s \<le> s'" "length m = Suc MAX_CONTRACTS"
        "evict_contracts m = bt_remove k m" "length (bt_remove k m) \<le> MAX_CONTRACTS"
proof (cases "length m > MAX_CONTRACTS")
  case False
  then show ?thesis using that(1) by (simp add: evict_contracts.simps [of m])
next
  case True
  obtain k s a where k: "min_by_key (\<lambda>(k, s, a). s) m = Some (k, s, a)"
    using min_by_key_None [of "\<lambda>(k, s, a). s" m] assms(2) by (metis option.exhaust prod_cases3)
  have mem: "(k, s, a) \<in> set m" "\<forall>(k', s', a')\<in>set m. s \<le> s'"
    using min_by_key_Some [OF k] by auto
  have small: "length (bt_remove k m) \<le> MAX_CONTRACTS"
    using length_bt_remove [of k m] mem(1) assms(1) by force
  have "evict_contracts m = evict_contracts (bt_remove k m)"
    using True k by (simp add: evict_contracts.simps [of m])
  also have "\<dots> = bt_remove k m" using small by (simp add: evict_contracts.simps [of "bt_remove k m"])
  finally show ?thesis using mem small True assms(1) that(2) by simp
qed

lemma inserted_seqs:
  assumes "book_ok g" and "M = bt_insert addr (Suc (ab_seq g), abi) (ab_by_address g)" and "set N \<subseteq> set M"
  shows "(\<forall>(k, s, a)\<in>set N. s \<le> Suc (ab_seq g)) \<and>
    (\<forall>e\<in>set N. \<forall>e'\<in>set N. fst (snd e) = fst (snd e') \<longrightarrow> e = e')"
proof -
  have wf: "bt_wf (ab_by_address g)" using assms(1) by (simp add: book_ok_def)
  have seq: "fst (snd e) \<le> ab_seq g" if "e \<in> set (ab_by_address g)" for e
    using that assms(1) by (cases e) (auto simp: book_ok_def)
  have "e = e'" if "e \<in> set M" "e' \<in> set M" "fst (snd e) = fst (snd e')" for e e'
    using that assms(1) seq [of e] seq [of e']
    by (auto simp: assms(2) set_bt_insert_eq [OF wf] book_ok_def)
  moreover have "fst (snd e) \<le> Suc (ab_seq g)" if "e \<in> set M" for e
    using that seq [of e] by (auto simp: assms(2) set_bt_insert_eq [OF wf])
  ultimately show ?thesis using assms(3) by fastforce
qed

text \<open>
  The book keeps the newest registrations: whatever it holds, it stays within 256 contracts with
  distinct sequence numbers, the contract just registered is found under its address with the ABI
  given, and every other address still has its ABI unless the book was full and that contract was
  the one registered longest ago. (Sequence numbers have not reached the end of \<open>u64\<close>.)
\<close>

theorem book_keeps_newest:
  assumes "book_ok g" and "ab_seq g < u64_max"
  shows "book_ok (register addr abi g) \<and> book_get (register addr abi g) addr = Some abi \<and>
    (\<forall>b. b \<noteq> addr \<longrightarrow> book_get (register addr abi g) b = book_get g b \<or>
       book_len g = MAX_CONTRACTS \<and>
       (\<exists>s x. (b, s, x) \<in> set (ab_by_address g) \<and> (\<forall>(k', s', a')\<in>set (ab_by_address g). s \<le> s')))"
proof -
  let ?m = "ab_by_address g" and ?seq = "Suc (ab_seq g)"
  let ?n = "bt_insert addr (?seq, abi) ?m"
  have wf: "bt_wf ?m" "length ?m \<le> MAX_CONTRACTS" using assms(1) by (auto simp: book_ok_def book_len_def)
  have r: "register addr abi g = \<lparr>ab_seq = ?seq, ab_by_address = evict_contracts ?n\<rparr>"
    using assms(2) by (simp add: register_def wrap_inc_exact)
  have n: "?n \<noteq> []" "length ?n \<le> Suc MAX_CONTRACTS" "bt_wf ?n"
    using length_bt_insert [OF wf(1), of addr "(?seq, abi)"] wf set_bt_insert_eq [OF wf(1), of addr "(?seq, abi)"]
    by (auto simp: bt_wf_insert split: if_splits)
  have get: "bt_get b ?n = (if b = addr then Some (?seq, abi) else bt_get b ?m)" for b
    using bt_get_insert [OF wf(1)] by simp
  have seqs: "(\<forall>(k, s, a)\<in>set N. s \<le> ?seq) \<and> (\<forall>e\<in>set N. \<forall>e'\<in>set N. fst (snd e) = fst (snd e') \<longrightarrow> e = e')"
    if "set N \<subseteq> set ?n" for N
    using inserted_seqs [OF assms(1) refl that] .
  show ?thesis
  proof (rule evict_one [OF n(2,1)])
    assume e: "evict_contracts ?n = ?n" "length ?n \<le> MAX_CONTRACTS"
    then have "book_ok (register addr abi g)"
      using seqs [of ?n] n(3) by (simp add: book_ok_def book_len_def r)
    then show ?thesis using e(1) get by (simp add: book_get_def r)
  next
    fix k s a
    assume k: "(k, s, a) \<in> set ?n" "\<forall>(k', s', a')\<in>set ?n. s \<le> s'" "length ?n = Suc MAX_CONTRACTS"
      and e: "evict_contracts ?n = bt_remove k ?n" "length (bt_remove k ?n) \<le> MAX_CONTRACTS"
    have full: "length ?m = MAX_CONTRACTS" and new: "addr \<notin> fst ` set ?m"
      using k(3) length_bt_insert [OF wf(1), of addr "(?seq, abi)"] wf(2) by (auto split: if_splits)
    then have set: "set ?n = insert (addr, ?seq, abi) (set ?m)" using set_bt_insert_eq [OF wf(1)] by force
    obtain e0 where "e0 \<in> set ?m" using full by (cases ?m) (auto simp: MAX_CONTRACTS_def)
    then have "s \<le> fst (snd e0)" "fst (snd e0) \<le> ab_seq g" using k(2) set assms(1) by (auto simp: book_ok_def)
    then have ka: "k \<noteq> addr" "(k, s, a) \<in> set ?m" using k(1) set new by force+
    have "book_ok (register addr abi g)"
      using seqs [OF set_bt_remove, of k] bt_wf_remove [OF n(3)] e by (simp add: book_ok_def book_len_def r)
    moreover have "book_get (register addr abi g) b = (if b = k then None else if b = addr then Some abi else book_get g b)" for b
      using e(1) get ka(1) by (simp add: book_get_def r bt_get_remove)
    ultimately show ?thesis using ka k(2) full set by (simp add: book_len_def) blast
  qed
qed

section \<open>Witnesses\<close>


definition demo_abi :: ContractAbi where
  "demo_abi =
     \<lparr>ca_name = ''Mint'', ca_functions =
       [\<lparr>af_name = ''mint'', af_inputs = [(''to'', Address)], af_payable = False, af_selector = [1, 2, 3, 4]\<rparr>]\<rparr>"

definition demo_calldata :: bytes where "demo_calldata = [1, 2, 3, 4] @ replicate 32 0"

lemma demo_call:
  "decode_call ref_deps demo_abi demo_calldata 0 = Some (''mint(to=0x'' @ hex_encode_ref (replicate 20 0) @ '')'')"
proof -
  have "slice 4 36 demo_calldata = replicate 32 0" by (simp add: slice_def demo_calldata_def)
  then have "abi_decode ref_deps Address (slice 4 36 demo_calldata) = Some (''0x'' @ hex_encode_ref (replicate 20 0))"
    by (simp add: abi_decode_def all_zero_replicate)
  then show ?thesis by (simp add: decode_call_def demo_abi_def) (simp add: demo_calldata_def)
qed


theorem book_keeps_newest_witness:
  "book_get (register [1] demo_abi abi_book_default) [1] = Some demo_abi"
  using book_keeps_newest [OF book_default_ok, of "[1]" demo_abi] by (simp add: abi_book_default_def u64_max_def)

end
