(* ===== verification/Ceremony.thy ===== *)
theory Ceremony
  imports WebBudget SubmittedLog Wallet AbiBook
begin

text \<open>
  \<open>kit/src/ceremony.rs\<close>: the one signing path. The ceremony is a record; each method is a state
  transformer. A clock reading is an argument of every place that reads the clock, so an operation
  that reads it twice takes two readings. Between \<open>take_live\<close> and the rest of an approval the
  source holds no lock, so \<open>approve\<close> and \<open>sign_consumed\<close> are split there (\<open>approve_taken\<close>,
  \<open>sign_taken\<close>) and other calls may come in between. Durations and monotonic times are in nanoseconds.
\<close>

section \<open>Data\<close>

definition PENDING_TTL_MS :: nat where "PENDING_TTL_MS = 15 * 60 * 1000"

text \<open>\<open>Duration::from_millis\<close>.\<close>

definition from_millis :: "nat \<Rightarrow> nat" where "from_millis ms = ms * 1000000"

definition PENDING_TTL :: nat where "PENDING_TTL = from_millis PENDING_TTL_MS"

record ClockReading =
  cr_mono :: nat
  cr_wall_ms :: nat

datatype IntentKind = PersonalSign | TypedData | Transaction

record DecodedAction =
  da_action :: string
  da_cost :: string
  da_destination :: string

record SignatureIntent =
  si_origin :: string
  si_kind :: IntentKind
  si_chain_id :: nat
  si_raw :: string

record SessionBudget =
  sb_origins :: "string list"
  sb_kinds :: "IntentKind list"
  sb_chain_id :: nat
  sb_max_ops :: nat
  sb_expires_at_ms :: nat
  sb_used_ops :: nat

definition session_budget_new :: "string list \<Rightarrow> IntentKind list \<Rightarrow> nat \<Rightarrow> nat \<Rightarrow> nat \<Rightarrow> SessionBudget" where
  "session_budget_new origins kinds chain max_ops expires =
     \<lparr>sb_origins = origins, sb_kinds = kinds, sb_chain_id = chain, sb_max_ops = max_ops,
      sb_expires_at_ms = expires, sb_used_ops = 0\<rparr>"

definition session_covers :: "SessionBudget \<Rightarrow> SignatureIntent \<Rightarrow> nat \<Rightarrow> bool" where
  "session_covers b intent now_ms \<longleftrightarrow>
     now_ms < sb_expires_at_ms b \<and> sb_used_ops b < sb_max_ops b \<and> si_chain_id intent = sb_chain_id b
       \<and> si_origin intent \<in> set (sb_origins b) \<and> si_kind intent \<in> set (sb_kinds b)"

definition session_consume :: "SessionBudget \<Rightarrow> (string + nat) \<times> SessionBudget" where
  "session_consume b =
     (if sb_used_ops b \<ge> sb_max_ops b then (Inl ''session budget exhausted'', b)
      else
        (let b' = b\<lparr>sb_used_ops := sb_used_ops b + 1\<rparr> in (Inr (sb_max_ops b' - sb_used_ops b'), b')))"

definition session_remaining :: "SessionBudget \<Rightarrow> nat" where
  "session_remaining b = sb_max_ops b - sb_used_ops b"

definition session_is_expired :: "SessionBudget \<Rightarrow> nat \<Rightarrow> bool" where
  "session_is_expired b now_ms \<longleftrightarrow> now_ms \<ge> sb_expires_at_ms b"

record CeremonyView =
  cv_id :: string
  cv_origin :: string
  cv_kind :: IntentKind
  cv_chain_id :: nat
  cv_decoded :: DecodedAction
  cv_requires_raw_ack :: bool

record Signature =
  sg_sig_hex :: string
  sg_kind :: IntentKind

record BroadcastConfig =
  bc_chain_id :: nat
  bc_poll_attempts :: nat

record BroadcastResult =
  br_tx_hash :: string
  br_block_number :: "nat option"
  br_status :: "nat option"
  br_gas_used :: "nat option"
  br_effective_gas_price_wei :: "string option"
  br_value_wei :: "string option"
  br_to :: "string option"
  br_origin :: string

datatype CeremonyError =
    UnknownCeremony
  | RawAckRequired
  | VaultLocked
  | NoWallet
  | SignFailed
  | UndecodableTransaction
  | FromMismatch string string
  | UnsupportedSigningKind
  | Broadcast string
  | PreparedExpired
  | CerWrongNetwork string
  | SubmittedOutcomeUnknown string string
  | CerExpired
  | ChainMismatch nat string

fun ceremony_error_text :: "CeremonyError \<Rightarrow> string" where
  "ceremony_error_text UnknownCeremony = ''ceremony: unknown or already-consumed id''"
| "ceremony_error_text RawAckRequired = ''ceremony: undecodable calldata requires an explicit raw-mode ack''"
| "ceremony_error_text VaultLocked = ''ceremony: vault locked or signing denied''"
| "ceremony_error_text NoWallet = ''ceremony: no wallet stored''"
| "ceremony_error_text SignFailed = ''ceremony: signing failed''"
| "ceremony_error_text UndecodableTransaction = ''ceremony: transaction payload is not signable legacy-tx''"
| "ceremony_error_text (FromMismatch claimed wallet) =
     ''ceremony: tx `from` ('' @ claimed @ '') does not match this wallet ('' @ wallet @ '')''"
| "ceremony_error_text UnsupportedSigningKind =
     ''ceremony: this request type cannot be signed here (typed data needs EIP-712 hashing, which Citrate Core does not implement yet; transactions are signed only when broadcast)''"
| "ceremony_error_text (Broadcast m) = ''ceremony: broadcast failed: '' @ m"
| "ceremony_error_text PreparedExpired =
     ''ceremony: the signed transaction expired before it was sent; nothing was sent''"
| "ceremony_error_text (CerWrongNetwork m) = ''ceremony: '' @ m @ ''; nothing was signed''"
| "ceremony_error_text (SubmittedOutcomeUnknown tx_hash reason) =
     ''ceremony: submitted, outcome unknown (tx '' @ tx_hash @ ''): '' @ reason"
| "ceremony_error_text CerExpired =
     ''ceremony: this request expired before it was approved, so nothing was signed; ask again for a fresh request''"
| "ceremony_error_text (ChainMismatch shown named) =
     ''ceremony: the approval showed chain '' @ show_nat shown @ '' but the request is for chain '' @ named
       @ '', so nothing was signed''"

definition ceremony_error_of_wallet :: "WalletError \<Rightarrow> CeremonyError" where
  "ceremony_error_of_wallet e =
     (case e of
        Custody \<Rightarrow> VaultLocked
      | WalletNotFound \<Rightarrow> NoWallet
      | WalletWrongNetwork m \<Rightarrow> CerWrongNetwork m
      | _ \<Rightarrow> SignFailed)"

record Pending =
  pd_intent :: SignatureIntent
  pd_decoded :: DecodedAction
  pd_requires_raw_ack :: bool
  pd_created :: ClockReading

definition EXPIRED_IDS_KEPT :: nat where "EXPIRED_IDS_KEPT = 4096"

definition WATCHED_IDS_KEPT :: nat where "WATCHED_IDS_KEPT = 64"

text \<open>A \<open>BTreeSet\<close> insert.\<close>

definition bs_insert :: "nat \<Rightarrow> nat list \<Rightarrow> nat list" where
  "bs_insert k xs = (if k \<in> set xs then xs else insort k xs)"

record Book =
  bk_pending :: "(nat \<times> Pending) list"
  bk_expired :: "nat list"
  bk_watched :: "nat list"
  bk_expired_watched :: "nat list"

definition book_default :: Book where
  "book_default = \<lparr>bk_pending = [], bk_expired = [], bk_watched = [], bk_expired_watched = []\<rparr>"

definition remember_expired :: "nat \<Rightarrow> Book \<Rightarrow> Book" where
  "remember_expired key b =
     (if key \<in> set (bk_watched b) then b\<lparr>bk_expired_watched := bs_insert key (bk_expired_watched b)\<rparr>
      else b\<lparr>bk_expired := pop_first_to EXPIRED_IDS_KEPT (bs_insert key (bk_expired b))\<rparr>)"

text \<open>Popping the smallest watched id also forgets that it expired.\<close>

fun evict_watched :: "nat list \<Rightarrow> nat list \<Rightarrow> nat list \<times> nat list" where
  "evict_watched [] ew = ([], ew)"
| "evict_watched (old # ws) ew =
     (if length (old # ws) > WATCHED_IDS_KEPT then evict_watched ws (filter (\<lambda>k. k \<noteq> old) ew)
      else (old # ws, ew))"

definition watch :: "nat \<Rightarrow> Book \<Rightarrow> Book" where
  "watch key b =
     (let (ws, ew) = evict_watched (bs_insert key (bk_watched b)) (bk_expired_watched b) in
      b\<lparr>bk_watched := ws, bk_expired_watched := ew\<rparr>)"

definition book_is_expired :: "Book \<Rightarrow> nat \<Rightarrow> bool" where
  "book_is_expired b key \<longleftrightarrow> key \<in> set (bk_expired b) \<or> key \<in> set (bk_expired_watched b)"

definition PREPARED_TTL_MS :: nat where "PREPARED_TTL_MS = 120 * 1000"

definition EXPIRED_TOMBSTONE_KEEP :: nat where "EXPIRED_TOMBSTONE_KEEP = from_millis (3600 * 1000)"

record Prepared =
  pr_raw :: bytes
  pr_sender :: string
  pr_nonce :: nat
  pr_nonce_source :: NonceSource
  pr_call :: "CallMeta option"
  pr_value :: nat
  pr_to :: "bytes option"
  pr_origin :: string

text \<open>A live signed transaction with its monotonic and wall-clock stamps, or a tombstone.\<close>

datatype Slot = Live Prepared nat nat | Tombstone nat

type_synonym PreparedStore = "(nat \<times> Slot) list"

definition park_signed :: "nat \<Rightarrow> Prepared \<Rightarrow> nat \<Rightarrow> nat \<Rightarrow> PreparedStore \<Rightarrow> PreparedStore" where
  "park_signed key tx at wall m = bt_insert key (Live tx at wall) m"

definition take_signed :: "nat \<Rightarrow> PreparedStore \<Rightarrow> Slot option \<times> PreparedStore" where
  "take_signed key m = (bt_get key m, bt_remove key m)"

definition discard_signed :: "nat \<Rightarrow> PreparedStore \<Rightarrow> bool \<times> PreparedStore" where
  "discard_signed key m = (bt_get key m \<noteq> None, bt_remove key m)"

definition live_len :: "PreparedStore \<Rightarrow> nat" where
  "live_len m = length (filter (\<lambda>(k, s). case s of Live tx at wall \<Rightarrow> True | _ \<Rightarrow> False) m)"

definition sweep_slot :: "nat \<Rightarrow> nat \<Rightarrow> nat \<Rightarrow> Slot \<Rightarrow> Slot" where
  "sweep_slot ttl now_mono now_wall slot =
     (case slot of
        Live tx at w \<Rightarrow> if max (now_mono - at) (now_wall - w) \<ge> ttl then Tombstone at else slot
      | Tombstone at \<Rightarrow> slot)"

definition sweep :: "nat \<Rightarrow> nat \<Rightarrow> nat \<Rightarrow> nat \<Rightarrow> PreparedStore \<Rightarrow> PreparedStore" where
  "sweep ttl keep now_mono now_wall m =
     filter (\<lambda>(k, s). case s of Live tx at w \<Rightarrow> True | Tombstone at \<Rightarrow> now_mono - at < keep)
       (map (\<lambda>(k, s). (k, sweep_slot ttl now_mono now_wall s)) m)"

record SignatureCeremony =
  c_book :: Book
  c_prepared :: PreparedStore
  c_prepared_ttl_ms :: nat
  c_submitted :: SubmittedTxLog
  c_next_id :: nat
  c_first_id :: nat
  c_abis :: BookInner
  c_ttl :: nat

text \<open>\<open>os\<close> is a random \<open>u32\<close>, if the system has randomness.\<close>

definition random_first_id :: "nat option \<Rightarrow> nat \<Rightarrow> nat" where
  "random_first_id os wall_ms =
     (let r = (case os of Some r \<Rightarrow> r | None \<Rightarrow> wall_ms mod 2 ^ 32) in (r div 2 + 1) * 2 ^ 20)"

definition with_clock :: "nat \<Rightarrow> nat option \<Rightarrow> nat \<Rightarrow> SignatureCeremony" where
  "with_clock ttl os wall_ms =
     (let first_id = random_first_id os wall_ms in
      \<lparr>c_book = book_default, c_prepared = [], c_prepared_ttl_ms = PREPARED_TTL_MS, c_submitted = unpersisted,
       c_next_id = first_id, c_first_id = first_id, c_abis = abi_book_default, c_ttl = ttl\<rparr>)"

definition ceremony_new :: "nat option \<Rightarrow> nat \<Rightarrow> SignatureCeremony" where
  "ceremony_new os wall_ms = with_clock PENDING_TTL os wall_ms"

definition with_submitted_log :: "SubmittedTxLog \<Rightarrow> nat option \<Rightarrow> nat \<Rightarrow> SignatureCeremony" where
  "with_submitted_log L os wall_ms = (ceremony_new os wall_ms)\<lparr>c_submitted := L\<rparr>"

section \<open>What a request commits to and shows\<close>

definition payload_bytes :: "'x deps_scheme \<Rightarrow> string \<Rightarrow> bytes option" where
  "payload_bytes X raw = hex_decode X (case strip_prefix ''0x'' raw of Some s \<Rightarrow> s | None \<Rightarrow> raw)"

definition payload_chain_id :: "'x deps_scheme \<Rightarrow> string \<Rightarrow> string + nat option" where
  "payload_chain_id X raw =
     and_then (ok_or ''unreadable payload'' (json_from_str X raw)) (\<lambda>json.
     case value_get json ''chainId'' of
       None \<Rightarrow> Inr None
     | Some v \<Rightarrow>
       (let parsed =
          (case v of
             VNumber n t \<Rightarrow> n
           | VString t \<Rightarrow>
             (case (case strip_prefix ''0x'' t of Some h \<Rightarrow> Some h | None \<Rightarrow> strip_prefix ''0X'' t) of
                Some h \<Rightarrow> if h \<noteq> [] then from_str_radix 64 16 h else None
              | None \<Rightarrow> parse_u64 t)
           | _ \<Rightarrow> None)
        in case parsed of
             Some n \<Rightarrow> Inr (Some n)
           | None \<Rightarrow> Inl (''unreadable ('' @ json_to_string X v @ '')'')))"

fun chain_ids_of_lines :: "nat option \<Rightarrow> string list \<Rightarrow> string + nat list" where
  "chain_ids_of_lines found [] = Inr (case found of Some c \<Rightarrow> [c] | None \<Rightarrow> [])"
| "chain_ids_of_lines found (line # rest) =
     (case chain_line line of
        None \<Rightarrow> chain_ids_of_lines found rest
      | Some v \<Rightarrow>
        (case parse_u64 v of
           None \<Rightarrow> Inl (''unreadable ('' @ v @ '')'')
         | Some c \<Rightarrow>
           (case found of
              Some prev \<Rightarrow>
                if prev \<noteq> c
                then Inl (''ambiguous ('' @ show_nat prev @ '' and '' @ show_nat c @ '')'')
                else chain_ids_of_lines (Some c) rest
            | None \<Rightarrow> chain_ids_of_lines (Some c) rest)))"

definition message_chain_ids :: "bytes \<Rightarrow> string + nat list" where
  "message_chain_ids message =
     (if \<not> valid_utf8 (of_bytes message) then Inr []
      else chain_ids_of_lines None (lines (of_bytes message)))"

definition committed_chain :: "'x deps_scheme \<Rightarrow> SignatureIntent \<Rightarrow> nat option \<Rightarrow> string + nat list" where
  "committed_chain X intent signer_chain =
     (case si_kind intent of
        Transaction \<Rightarrow>
          and_then (ok_or ''unknown (no signer chain)'' signer_chain) (\<lambda>signer.
          and_then (payload_chain_id X (si_raw intent)) (\<lambda>named.
          Inr (signer # (case named of Some c \<Rightarrow> [c] | None \<Rightarrow> []))))
      | PersonalSign \<Rightarrow>
          and_then (ok_or ''unreadable'' (payload_bytes X (si_raw intent))) message_chain_ids
      | TypedData \<Rightarrow> Inl ''typed data (not signed here)'')"

definition unrecognized :: DecodedAction where
  "unrecognized = \<lparr>da_action = UNRECOGNIZED_ACTION, da_cost = [], da_destination = []\<rparr>"

definition MSG_PREVIEW :: nat where "MSG_PREVIEW = 120"

text \<open>The ellipsis of a shortened preview, in UTF-8.\<close>

definition ellipsis :: string where "ellipsis = [CHR 0xE2, CHR 0x80, CHR 0xA6]"

definition decode_personal_sign :: "'x deps_scheme \<Rightarrow> SignatureIntent \<Rightarrow> DecodedAction" where
  "decode_personal_sign X intent =
     (case payload_bytes X (si_raw intent) of
        None \<Rightarrow> unrecognized
      | Some bytes \<Rightarrow>
        if valid_utf8 (of_bytes bytes) then
          (let text = of_bytes bytes;
               preview = utf8_take MSG_PREVIEW text;
               suffix = (if length (utf8_chars text) > MSG_PREVIEW then ellipsis else [])
           in \<lparr>da_action = ''Sign message: '' @ [CHR 34] @ preview @ suffix @ [CHR 34],
               da_cost = ''no funds moved'', da_destination = si_origin intent\<rparr>)
        else
          \<lparr>da_action = ''Sign '' @ show_nat (length bytes) @ '' raw bytes (binary message)'',
           da_cost = ''no funds moved'', da_destination = si_origin intent\<rparr>)"

text \<open>\<open>serde_json::from_slice\<close> reads UTF-8 only.\<close>

definition json_from_slice :: "'x deps_scheme \<Rightarrow> bytes \<Rightarrow> Value option" where
  "json_from_slice X bytes = (if valid_utf8 (of_bytes bytes) then json_from_str X (of_bytes bytes) else None)"

definition str_at :: "Value option \<Rightarrow> string \<Rightarrow> string" where
  "str_at v key =
     (case v of
        None \<Rightarrow> []
      | Some d \<Rightarrow> (case value_get d key of None \<Rightarrow> [] | Some x \<Rightarrow> (case as_str x of Some s \<Rightarrow> s | None \<Rightarrow> [])))"

definition decode_typed_data :: "'x deps_scheme \<Rightarrow> SignatureIntent \<Rightarrow> DecodedAction" where
  "decode_typed_data X intent =
     (case payload_bytes X (si_raw intent) of
        None \<Rightarrow> unrecognized
      | Some bytes \<Rightarrow>
        (case json_from_slice X bytes of
           None \<Rightarrow> unrecognized
         | Some json \<Rightarrow>
           (let primary = str_at (Some json) ''primaryType'';
                domain_name = str_at (value_get json ''domain'') ''name'';
                verifying = str_at (value_get json ''domain'') ''verifyingContract''
            in if primary = [] then unrecognized
               else
                 \<lparr>da_action =
                    (if domain_name = [] then ''Sign typed data ('' @ primary @ '')''
                     else ''Sign typed data: '' @ primary @ '' on '' @ domain_name),
                  da_cost = ''no funds moved'', da_destination = verifying\<rparr>)))"

definition decode_transaction_intent :: "'x deps_scheme \<Rightarrow> SignatureIntent \<Rightarrow> DecodedAction" where
  "decode_transaction_intent X intent =
     (case decode_transaction X (si_raw intent) of
        Some (tx, d) \<Rightarrow>
          \<lparr>da_action = td_action d, da_cost = td_cost d, da_destination = td_destination d\<rparr>
      | None \<Rightarrow> unrecognized)"

definition decode_intent :: "'x deps_scheme \<Rightarrow> SignatureIntent \<Rightarrow> DecodedAction" where
  "decode_intent X intent =
     (case si_kind intent of
        PersonalSign \<Rightarrow> decode_personal_sign X intent
      | TypedData \<Rightarrow> decode_typed_data X intent
      | Transaction \<Rightarrow> decode_transaction_intent X intent)"

definition decode_with_book :: "'x deps_scheme \<Rightarrow> BookInner \<Rightarrow> SignatureIntent \<Rightarrow> DecodedAction" where
  "decode_with_book X abis intent =
     (let decoded = decode_intent X intent in
      if si_kind intent \<noteq> Transaction \<or> da_action decoded \<noteq> UNRECOGNIZED_ACTION then decoded else
      case decode_transaction X (si_raw intent) of
        None \<Rightarrow> decoded
      | Some (tx, d) \<Rightarrow>
        (case tx_to tx of
           None \<Rightarrow> decoded
         | Some to \<Rightarrow>
           (case book_get abis to of
              None \<Rightarrow> decoded
            | Some abi \<Rightarrow>
              (case decode_call X abi (tx_data tx) (tx_value tx) of
                 None \<Rightarrow> decoded
               | Some call \<Rightarrow>
                 \<lparr>da_action = ''Call '' @ call @ '' on '' @ ca_name abi @ '' at '' @ td_destination d
                    @ '' (a contract you deployed from a READY gated build; value '' @ show_nat (tx_value tx) @ '' wei)'',
                  da_cost = td_cost d, da_destination = td_destination d\<rparr>))))"

section \<open>Pending requests\<close>

definition parse_id :: "string \<Rightarrow> nat option" where
  "parse_id s = parse_u64 s"

definition opened :: "SignatureCeremony \<Rightarrow> nat" where
  "opened c = c_next_id c - c_first_id c"

definition outlived :: "nat \<Rightarrow> ClockReading \<Rightarrow> ClockReading \<Rightarrow> bool" where
  "outlived ttl created now \<longleftrightarrow>
     max (cr_mono now - cr_mono created) (from_millis (cr_wall_ms now - cr_wall_ms created)) \<ge> ttl"

definition live :: "ClockReading \<Rightarrow> SignatureCeremony \<Rightarrow> SignatureCeremony" where
  "live now c =
     (let stale = map fst (filter (\<lambda>(k, p). outlived (c_ttl c) (pd_created p) now) (bk_pending (c_book c)))
      in c\<lparr>c_book := foldl (\<lambda>b key. remember_expired key (b\<lparr>bk_pending := bt_remove key (bk_pending b)\<rparr>))
                     (c_book c) stale\<rparr>)"

definition cer_is_expired :: "ClockReading \<Rightarrow> string \<Rightarrow> SignatureCeremony \<Rightarrow> bool \<times> SignatureCeremony" where
  "cer_is_expired now s c =
     (case parse_id s of
        None \<Rightarrow> (False, c)
      | Some key \<Rightarrow> (let c' = live now c in (book_is_expired (c_book c') key, c')))"

definition take_live ::
  "ClockReading \<Rightarrow> nat \<Rightarrow> SignatureCeremony \<Rightarrow> (CeremonyError + Pending) \<times> SignatureCeremony" where
  "take_live now key c =
     (let c' = live now c; b = c_book c' in
      if book_is_expired b key then (Inl CerExpired, c')
      else
        (case bt_get key (bk_pending b) of
           None \<Rightarrow> (Inl UnknownCeremony, c')
         | Some p \<Rightarrow> (Inr p, c'\<lparr>c_book := b\<lparr>bk_pending := bt_remove key (bk_pending b)\<rparr>\<rparr>)))"

definition ready_to_sign ::
  "'x deps_scheme \<Rightarrow> ClockReading \<Rightarrow> nat \<Rightarrow> Pending \<Rightarrow> nat option \<Rightarrow> SignatureCeremony
     \<Rightarrow> (CeremonyError + nat) \<times> SignatureCeremony" where
  "ready_to_sign X now key p signer_chain c =
     (if outlived (c_ttl c) (pd_created p) now
      then (Inl CerExpired, c\<lparr>c_book := remember_expired key (c_book c)\<rparr>)
      else
        (let shown = si_chain_id (pd_intent p) in
         case committed_chain X (pd_intent p) signer_chain of
           Inl named \<Rightarrow> (Inl (ChainMismatch shown named), c)
         | Inr named \<Rightarrow>
           (case find (\<lambda>n. n \<noteq> shown) named of
              Some other \<Rightarrow> (Inl (ChainMismatch shown (show_nat other)), c)
            | None \<Rightarrow> (Inr shown, c))))"

definition register_gated_contract :: "bytes \<Rightarrow> ContractAbi \<Rightarrow> SignatureCeremony \<Rightarrow> SignatureCeremony" where
  "register_gated_contract addr abi c = c\<lparr>c_abis := register addr abi (c_abis c)\<rparr>"

definition gated_contracts :: "SignatureCeremony \<Rightarrow> nat" where
  "gated_contracts c = book_len (c_abis c)"

definition view_of :: "string \<Rightarrow> Pending \<Rightarrow> CeremonyView" where
  "view_of s p =
     \<lparr>cv_id = s, cv_origin = si_origin (pd_intent p), cv_kind = si_kind (pd_intent p),
      cv_chain_id = si_chain_id (pd_intent p), cv_decoded = pd_decoded p,
      cv_requires_raw_ack = pd_requires_raw_ack p\<rparr>"

definition new_pending :: "'x deps_scheme \<Rightarrow> SignatureIntent \<Rightarrow> ClockReading \<Rightarrow> BookInner \<Rightarrow> Pending" where
  "new_pending X intent created abis =
     (let decoded = decode_with_book X abis intent in
      \<lparr>pd_intent = intent, pd_decoded = decoded, pd_requires_raw_ack = (da_action decoded = UNRECOGNIZED_ACTION),
       pd_created = created\<rparr>)"

text \<open>\<open>open\<close>: the id is taken and the request stamped before the book is locked at \<open>now\<close>.\<close>

definition open_request ::
  "'x deps_scheme \<Rightarrow> SignatureIntent \<Rightarrow> bool \<Rightarrow> ClockReading \<Rightarrow> ClockReading \<Rightarrow> SignatureCeremony
     \<Rightarrow> CeremonyView \<times> SignatureCeremony" where
  "open_request X intent watched created now c =
     (let p = new_pending X intent created (c_abis c);
          key = c_next_id c;
          c1 = live now (c\<lparr>c_next_id := wrap_inc key\<rparr>);
          b1 = (if watched then watch key (c_book c1) else c_book c1)
      in (view_of (show_nat key) p, c1\<lparr>c_book := b1\<lparr>bk_pending := bt_insert key p (bk_pending b1)\<rparr>\<rparr>))"

definition request ::
  "'x deps_scheme \<Rightarrow> SignatureIntent \<Rightarrow> ClockReading \<Rightarrow> ClockReading \<Rightarrow> SignatureCeremony
     \<Rightarrow> CeremonyView \<times> SignatureCeremony" where
  "request X intent created now c = open_request X intent False created now c"

definition request_watched ::
  "'x deps_scheme \<Rightarrow> SignatureIntent \<Rightarrow> ClockReading \<Rightarrow> ClockReading \<Rightarrow> SignatureCeremony
     \<Rightarrow> CeremonyView \<times> SignatureCeremony" where
  "request_watched X intent created now c = open_request X intent True created now c"

definition status :: "ClockReading \<Rightarrow> string \<Rightarrow> SignatureCeremony \<Rightarrow> CeremonyView option \<times> SignatureCeremony" where
  "status now s c =
     (case parse_id s of
        None \<Rightarrow> (None, c)
      | Some key \<Rightarrow>
        (let c' = live now c in (map_option (view_of s) (bt_get key (bk_pending (c_book c'))), c')))"

definition reinsert :: "nat \<Rightarrow> Pending \<Rightarrow> SignatureCeremony \<Rightarrow> SignatureCeremony" where
  "reinsert key p c = c\<lparr>c_book := (c_book c)\<lparr>bk_pending := bt_insert key p (bk_pending (c_book c))\<rparr>\<rparr>"

section \<open>Approving a message\<close>

text \<open>What \<open>approve\<close> does with the request it has taken out of the book.\<close>

definition approve_taken ::
  "'x deps_scheme \<Rightarrow> wallet_crypto \<Rightarrow> rpc_env \<Rightarrow> Vault \<Rightarrow> bool \<Rightarrow> ClockReading \<Rightarrow> nat \<Rightarrow> Pending
     \<Rightarrow> SignatureCeremony \<Rightarrow> (CeremonyError + Signature) \<times> SignatureCeremony" where
  "approve_taken X K R V raw_ack now key p c =
     (if pd_requires_raw_ack p \<and> \<not> raw_ack then (Inl RawAckRequired, reinsert key p c)
      else
        (case payload_bytes X (si_raw (pd_intent p)) of
           None \<Rightarrow> (Inl SignFailed, c)
         | Some bytes \<Rightarrow>
           (case si_kind (pd_intent p) of
              PersonalSign \<Rightarrow>
                rpc_then (ready_to_sign X now key p None c) (\<lambda>_ c1.
                rpc_then (map_err ceremony_error_of_wallet (sign_personal X K R V bytes), c1) (\<lambda>sig c1.
                (Inr \<lparr>sg_sig_hex = hex_encode X sig, sg_kind = si_kind (pd_intent p)\<rparr>, c1)))
            | TypedData \<Rightarrow> (Inl UnsupportedSigningKind, c)
            | Transaction \<Rightarrow> (Inl UnsupportedSigningKind, c))))"

definition approve ::
  "'x deps_scheme \<Rightarrow> wallet_crypto \<Rightarrow> rpc_env \<Rightarrow> Vault \<Rightarrow> string \<Rightarrow> bool \<Rightarrow> ClockReading \<Rightarrow> ClockReading
     \<Rightarrow> SignatureCeremony \<Rightarrow> (CeremonyError + Signature) \<times> SignatureCeremony" where
  "approve X K R V s raw_ack now0 now1 c =
     rpc_then (ok_or UnknownCeremony (parse_id s), c) (\<lambda>key c.
     rpc_then (take_live now0 key c) (\<lambda>p c. approve_taken X K R V raw_ack now1 key p c))"

section \<open>Approving a transaction\<close>

definition check_from :: "'x deps_scheme \<Rightarrow> wallet_crypto \<Rightarrow> Vault \<Rightarrow> ParsedTx \<Rightarrow> CeremonyError + unit" where
  "check_from X K V tx =
     (case tx_from tx of
        None \<Rightarrow> Inr ()
      | Some claimed \<Rightarrow>
        and_then (map_err ceremony_error_of_wallet (address X K V)) (\<lambda>i.
        if \<not> eq_ignore_ascii_case claimed (wi_address i) then Inl (FromMismatch claimed (wi_address i))
        else Inr ()))"

definition check_endpoint ::
  "rpc_env \<Rightarrow> ExpectedNetwork option \<Rightarrow> RpcClient \<Rightarrow> (CeremonyError + unit) \<times> RpcClient" where
  "check_endpoint R gate cl =
     (case gate of
        None \<Rightarrow> (Inr (), cl)
      | Some expected \<Rightarrow>
        (let (r, cl') = verify_network R expected cl in
         (map_err (\<lambda>e. Broadcast (rpc_error_text e @ ''; nothing was signed'')) r, cl')))"

definition source_nonce ::
  "rpc_env \<Rightarrow> ParsedTx \<Rightarrow> RpcClient \<Rightarrow> (CeremonyError + nat \<times> NonceSource) \<times> RpcClient" where
  "source_nonce R tx cl =
     (case (tx_nonce tx, tx_from tx) of
        (Some n, _) \<Rightarrow> (Inr (n, Supplied), cl)
      | (None, Some from) \<Rightarrow>
        (let (r, cl') = pending_nonce R from cl in
         (and_then (map_err (Broadcast \<circ> rpc_error_text) r) (\<lambda>n. Inr (n, Fetched)), cl'))
      | (None, None) \<Rightarrow> (Inl UndecodableTransaction, cl))"

definition source_gas_price :: "rpc_env \<Rightarrow> ParsedTx \<Rightarrow> RpcClient \<Rightarrow> (CeremonyError + nat) \<times> RpcClient" where
  "source_gas_price R tx cl =
     (case tx_gas_price tx of
        Some g \<Rightarrow> (Inr g, cl)
      | None \<Rightarrow> (let (r, cl') = gas_price R cl in (map_err (Broadcast \<circ> rpc_error_text) r, cl')))"

text \<open>Everything \<open>sign_consumed\<close> does before its last check: it decodes the payload and completes the
  fields to sign.\<close>

definition complete_tx ::
  "'x deps_scheme \<Rightarrow> wallet_crypto \<Rightarrow> rpc_env \<Rightarrow> Vault \<Rightarrow> ExpectedNetwork option \<Rightarrow> string \<Rightarrow> RpcClient
     \<Rightarrow> (CeremonyError + ParsedTx \<times> LegacyTxFields \<times> NonceSource) \<times> RpcClient" where
  "complete_tx X K R V gate raw cl =
     rpc_then (ok_or UndecodableTransaction (decode_transaction X raw), cl) (\<lambda>(tx, _) cl.
     rpc_then (check_from X K V tx, cl) (\<lambda>_ cl.
     rpc_then (check_endpoint R gate cl) (\<lambda>_ cl.
     rpc_then (source_nonce R tx cl) (\<lambda>(n, source) cl.
     rpc_then (source_gas_price R tx cl) (\<lambda>g cl.
     rpc_then (ok_or UndecodableTransaction (finalize tx n g), cl) (\<lambda>fs cl.
     (Inr (tx, fs, source), cl)))))))"

definition call_meta :: "'x deps_scheme \<Rightarrow> ParsedTx \<Rightarrow> CallMeta option" where
  "call_meta X tx =
     (case tx_to tx of
        Some to \<Rightarrow>
          if length (tx_data tx) < 4 then None
          else Some \<lparr>cm_to = ''0x'' @ hex_encode X to, cm_selector = ''0x'' @ hex_encode X (take 4 (tx_data tx))\<rparr>
      | None \<Rightarrow> None)"

text \<open>The signature itself. The vault is read twice: for the key and for the sender's address.\<close>

definition make_prepared ::
  "'x deps_scheme \<Rightarrow> wallet_crypto \<Rightarrow> rpc_env \<Rightarrow> Vault \<Rightarrow> Vault \<Rightarrow> ParsedTx \<Rightarrow> LegacyTxFields \<Rightarrow> NonceSource
     \<Rightarrow> nat \<Rightarrow> string \<Rightarrow> CeremonyError + Prepared \<times> string" where
  "make_prepared X K R V V' tx fs source bound_chain origin =
     and_then (map_err ceremony_error_of_wallet (sign_transaction K R V fs bound_chain)) (\<lambda>signed.
     and_then (map_err ceremony_error_of_wallet (address X K V')) (\<lambda>i.
     Inr (\<lparr>pr_raw = stx_raw signed, pr_sender = wi_address i, pr_nonce = lf_nonce fs, pr_nonce_source = source,
           pr_call = call_meta X tx, pr_value = tx_value tx, pr_to = tx_to tx, pr_origin = origin\<rparr>,
          ''0x'' @ hex_encode X (stx_hash signed))))"

text \<open>What \<open>sign_consumed\<close> does with the request it has taken out of the book. The vault may change
  between its three reads.\<close>

record vault_reads =
  vr_from :: Vault
  vr_sign :: Vault
  vr_sender :: Vault

definition sign_taken ::
  "'x deps_scheme \<Rightarrow> wallet_crypto \<Rightarrow> rpc_env \<Rightarrow> vault_reads \<Rightarrow> bool \<Rightarrow> nat \<Rightarrow> ExpectedNetwork option
     \<Rightarrow> ClockReading \<Rightarrow> nat \<Rightarrow> Pending \<Rightarrow> SignatureCeremony \<times> RpcClient
     \<Rightarrow> (CeremonyError + nat \<times> Prepared \<times> string) \<times> SignatureCeremony \<times> RpcClient" where
  "sign_taken X K R V raw_ack chain gate now key p st =
     (let (c, cl) = st in
      if pd_requires_raw_ack p \<and> \<not> raw_ack then (Inl RawAckRequired, reinsert key p c, cl)
      else
        (case complete_tx X K R (vr_from V) gate (si_raw (pd_intent p)) cl of
           (Inl e, cl1) \<Rightarrow> (Inl e, c, cl1)
         | (Inr (tx, fs, source), cl1) \<Rightarrow>
           (case ready_to_sign X now key p (Some chain) c of
              (Inl e, c1) \<Rightarrow> (Inl e, c1, cl1)
            | (Inr bound_chain, c1) \<Rightarrow>
              (and_then (make_prepared X K R (vr_sign V) (vr_sender V) tx fs source bound_chain
                           (si_origin (pd_intent p))) (\<lambda>(prep, hash). Inr (key, prep, hash)),
               c1, cl1))))"

definition sign_consumed ::
  "'x deps_scheme \<Rightarrow> wallet_crypto \<Rightarrow> rpc_env \<Rightarrow> vault_reads \<Rightarrow> string \<Rightarrow> bool \<Rightarrow> nat \<Rightarrow> ExpectedNetwork option
     \<Rightarrow> ClockReading \<Rightarrow> ClockReading \<Rightarrow> SignatureCeremony \<times> RpcClient
     \<Rightarrow> (CeremonyError + nat \<times> Prepared \<times> string) \<times> SignatureCeremony \<times> RpcClient" where
  "sign_consumed X K R V s raw_ack chain gate now0 now1 st =
     rpc_then (ok_or UnknownCeremony (parse_id s), st) (\<lambda>key (c, cl).
     case take_live now0 key c of
       (Inl e, c1) \<Rightarrow> (Inl e, c1, cl)
     | (Inr p, c1) \<Rightarrow> sign_taken X K R V raw_ack chain gate now1 key p (c1, cl))"

text \<open>\<open>lock_prepared\<close> expires what outlived its time to live; its readings are the monotonic and
  the wall clock.\<close>

definition lock_prepared :: "nat \<Rightarrow> nat \<Rightarrow> SignatureCeremony \<Rightarrow> SignatureCeremony" where
  "lock_prepared now_mono now_wall c =
     c\<lparr>c_prepared := sweep (from_millis (c_prepared_ttl_ms c)) EXPIRED_TOMBSTONE_KEEP now_mono now_wall
                      (c_prepared c)\<rparr>"

definition park :: "nat \<times> nat \<Rightarrow> nat \<times> nat \<Rightarrow> nat \<Rightarrow> Prepared \<Rightarrow> SignatureCeremony \<Rightarrow> SignatureCeremony" where
  "park swept stamped key prep c =
     (let c1 = lock_prepared (fst swept) (snd swept) c in
      c1\<lparr>c_prepared := park_signed key prep (fst stamped) (snd stamped) (c_prepared c1)\<rparr>)"

definition approve_and_sign ::
  "'x deps_scheme \<Rightarrow> wallet_crypto \<Rightarrow> rpc_env \<Rightarrow> vault_reads \<Rightarrow> string \<Rightarrow> bool \<Rightarrow> nat \<Rightarrow> ClockReading
     \<Rightarrow> ClockReading \<Rightarrow> nat \<times> nat \<Rightarrow> nat \<times> nat \<Rightarrow> SignatureCeremony \<times> RpcClient
     \<Rightarrow> (CeremonyError + string) \<times> SignatureCeremony \<times> RpcClient" where
  "approve_and_sign X K R V s raw_ack chain now0 now1 swept stamped st =
     rpc_then (sign_consumed X K R V s raw_ack chain (ng_installed (re_gates R)) now0 now1 st)
       (\<lambda>(key, prep, hash) (c, cl). (Inr hash, park swept stamped key prep c, cl))"

section \<open>Sending\<close>

definition definitive_exact :: "string list" where
  "definitive_exact =
     [''Rate limit exceeded. Try again later.'', ''Missing transaction data'', ''Invalid tx hex'', ''Invalid hex'',
      ''Failed to submit transaction: Full'', ''Failed to submit transaction: SenderLimitExceeded'',
      ''Failed to submit transaction: InvalidSignature'']"

definition definitive_prefix :: "string list" where
  "definitive_prefix =
     [''Failed to parse transaction: '', ''Insufficient funds: account balance '',
      ''Failed to submit transaction: GasPriceTooLow {'', ''Failed to submit transaction: InsufficientBalance {'',
      ''Failed to submit transaction: InvalidTransaction('', ''Failed to submit transaction: NonceTooLow {'']"

definition is_definitive_send_error :: "RpcError \<Rightarrow> bool" where
  "is_definitive_send_error e =
     (case e of
        RateLimited \<Rightarrow> True
      | RpcWrongNetwork m \<Rightarrow> True
      | NetworkUnverified m \<Rightarrow> True
      | NodeError m \<Rightarrow> m \<in> set definitive_exact \<or> list_ex (\<lambda>p. starts_with p m) definitive_prefix
      | _ \<Rightarrow> False)"

definition local_hash :: "'x deps_scheme \<Rightarrow> bytes \<Rightarrow> string" where
  "local_hash X raw = ''0x'' @ hex_encode X (keccak X raw)"

text \<open>\<open>send_signed\<close> in the three pieces between which it holds no lock: the durable record, what it makes
  of a refused send, and what it makes of an accepted one.\<close>

definition send_record ::
  "'x deps_scheme \<Rightarrow> log_codec \<Rightarrow> log_faults \<Rightarrow> Prepared \<Rightarrow> nat option \<Rightarrow> SignatureCeremony \<times> dir
     \<Rightarrow> (CeremonyError + bool) \<times> SignatureCeremony \<times> dir" where
  "send_record X C F tx now st =
     (let (c, D) = st;
          (r, L, D') = try_record_call C F (local_hash X (pr_raw tx)) (pr_sender tx) (pr_nonce tx)
                         (pr_nonce_source tx) (pr_call tx) now (c_submitted c) D
      in (map_err (\<lambda>e. Broadcast (''the submission could not be recorded durably, so nothing was sent: '' @ e)) r,
          c\<lparr>c_submitted := L\<rparr>, D'))"

definition send_refused ::
  "'x deps_scheme \<Rightarrow> log_codec \<Rightarrow> log_faults \<Rightarrow> Prepared \<Rightarrow> bool \<Rightarrow> RpcError \<Rightarrow> SignatureCeremony \<times> dir
     \<Rightarrow> CeremonyError \<times> SignatureCeremony \<times> dir" where
  "send_refused X C F tx first_submission e st =
     (let (c, D) = st; h = local_hash X (pr_raw tx) in
      if first_submission \<and> sole_attempt (c_submitted c) h \<and> is_definitive_send_error e then
        (let (_, L, D') = forget C F h (c_submitted c) D
         in (Broadcast (rpc_error_text e), c\<lparr>c_submitted := L\<rparr>, D'))
      else (SubmittedOutcomeUnknown h (rpc_error_text e), c, D))"

definition broadcast_result :: "'x deps_scheme \<Rightarrow> Prepared \<Rightarrow> string \<Rightarrow> Receipt option \<Rightarrow> BroadcastResult" where
  "broadcast_result X tx tx_hash mined =
     \<lparr>br_tx_hash = tx_hash, br_block_number = map_option r_block_number mined,
      br_status = Option.bind mined r_status, br_gas_used = Option.bind mined r_gas_used,
      br_effective_gas_price_wei = map_option show_nat (Option.bind mined r_effective_gas_price),
      br_value_wei = Some (show_nat (pr_value tx)),
      br_to = map_option (\<lambda>a. ''0x'' @ hex_encode X a) (pr_to tx), br_origin = pr_origin tx\<rparr>"

definition send_accepted ::
  "'x deps_scheme \<Rightarrow> rpc_env \<Rightarrow> Prepared \<Rightarrow> BroadcastConfig \<Rightarrow> string \<Rightarrow> RpcClient
     \<Rightarrow> (CeremonyError + BroadcastResult) \<times> RpcClient" where
  "send_accepted X R tx cfg tx_hash cl =
     (case poll_receipt R tx_hash (bc_poll_attempts cfg) cl of
        (Inr r, cl') \<Rightarrow> (Inr (broadcast_result X tx tx_hash (Some r)), cl')
      | (Inl ReceiptTimeout, cl') \<Rightarrow> (Inr (broadcast_result X tx tx_hash None), cl')
      | (Inl e, cl') \<Rightarrow> (Inl (SubmittedOutcomeUnknown tx_hash (rpc_error_text e)), cl'))"

definition send_signed ::
  "'x deps_scheme \<Rightarrow> log_codec \<Rightarrow> log_faults \<Rightarrow> log_faults \<Rightarrow> rpc_env \<Rightarrow> Prepared \<Rightarrow> BroadcastConfig
     \<Rightarrow> ExpectedNetwork option \<Rightarrow> nat option \<Rightarrow> SignatureCeremony \<times> RpcClient \<times> dir
     \<Rightarrow> (CeremonyError + BroadcastResult) \<times> SignatureCeremony \<times> RpcClient \<times> dir" where
  "send_signed X C F F' R tx cfg gate now st =
     (let (c, cl, D) = st in
      case send_record X C F tx now (c, D) of
        (Inl e, c1, D1) \<Rightarrow> (Inl e, c1, cl, D1)
      | (Inr first_submission, c1, D1) \<Rightarrow>
        (case send_raw_transaction_gated X R (pr_raw tx) gate cl of
           (Inl e, cl1) \<Rightarrow>
             (let (err, c2, D2) = send_refused X C F' tx first_submission e (c1, D1) in (Inl err, c2, cl1, D2))
         | (Inr tx_hash, cl1) \<Rightarrow>
             (let (r, cl2) = send_accepted X R tx cfg tx_hash cl1 in (r, c1, cl2, D1))))"

definition take_prepared ::
  "nat \<times> nat \<Rightarrow> nat \<Rightarrow> SignatureCeremony \<Rightarrow> (CeremonyError + Prepared) \<times> SignatureCeremony" where
  "take_prepared swept key c =
     (let c1 = lock_prepared (fst swept) (snd swept) c;
          (slot, m) = take_signed key (c_prepared c1)
      in (case slot of
            None \<Rightarrow> Inl UnknownCeremony
          | Some (Live tx at wall) \<Rightarrow> Inr tx
          | Some (Tombstone at) \<Rightarrow> Inl PreparedExpired,
          c1\<lparr>c_prepared := m\<rparr>))"

definition send_prepared ::
  "'x deps_scheme \<Rightarrow> log_codec \<Rightarrow> log_faults \<Rightarrow> log_faults \<Rightarrow> rpc_env \<Rightarrow> string \<Rightarrow> BroadcastConfig
     \<Rightarrow> nat \<times> nat \<Rightarrow> nat option \<Rightarrow> SignatureCeremony \<times> RpcClient \<times> dir
     \<Rightarrow> (CeremonyError + BroadcastResult) \<times> SignatureCeremony \<times> RpcClient \<times> dir" where
  "send_prepared X C F F' R s cfg swept now st =
     rpc_then (ok_or UnknownCeremony (parse_id s), st) (\<lambda>key (c, cl, D).
     case take_prepared swept key c of
       (Inl e, c1) \<Rightarrow> (Inl e, c1, cl, D)
     | (Inr tx, c1) \<Rightarrow> send_signed X C F F' R tx cfg (ng_installed (re_gates R)) now (c1, cl, D))"

definition approve_and_broadcast_gated ::
  "'x deps_scheme \<Rightarrow> wallet_crypto \<Rightarrow> log_codec \<Rightarrow> log_faults \<Rightarrow> log_faults \<Rightarrow> rpc_env \<Rightarrow> vault_reads \<Rightarrow> string
     \<Rightarrow> bool \<Rightarrow> BroadcastConfig \<Rightarrow> ExpectedNetwork option \<Rightarrow> ClockReading \<Rightarrow> ClockReading \<Rightarrow> nat option
     \<Rightarrow> SignatureCeremony \<times> RpcClient \<times> dir
     \<Rightarrow> (CeremonyError + BroadcastResult) \<times> SignatureCeremony \<times> RpcClient \<times> dir" where
  "approve_and_broadcast_gated X K C F F' R V s raw_ack cfg gate now0 now1 now st =
     (let (c, cl, D) = st in
      case sign_consumed X K R V s raw_ack (bc_chain_id cfg) gate now0 now1 (c, cl) of
        (Inl e, c1, cl1) \<Rightarrow> (Inl e, c1, cl1, D)
      | (Inr (_, prep, _), c1, cl1) \<Rightarrow> send_signed X C F F' R prep cfg gate now (c1, cl1, D))"

definition approve_and_broadcast ::
  "'x deps_scheme \<Rightarrow> wallet_crypto \<Rightarrow> log_codec \<Rightarrow> log_faults \<Rightarrow> log_faults \<Rightarrow> rpc_env \<Rightarrow> vault_reads \<Rightarrow> string
     \<Rightarrow> bool \<Rightarrow> BroadcastConfig \<Rightarrow> ClockReading \<Rightarrow> ClockReading \<Rightarrow> nat option
     \<Rightarrow> SignatureCeremony \<times> RpcClient \<times> dir
     \<Rightarrow> (CeremonyError + BroadcastResult) \<times> SignatureCeremony \<times> RpcClient \<times> dir" where
  "approve_and_broadcast X K C F F' R V s raw_ack cfg now0 now1 now st =
     approve_and_broadcast_gated X K C F F' R V s raw_ack cfg (ng_installed (re_gates R)) now0 now1 now st"

definition reject ::
  "string \<Rightarrow> nat \<times> nat \<Rightarrow> ClockReading \<Rightarrow> SignatureCeremony \<Rightarrow> (CeremonyError + unit) \<times> SignatureCeremony" where
  "reject s swept now c =
     rpc_then (ok_or UnknownCeremony (parse_id s), c) (\<lambda>key c.
     let c1 = lock_prepared (fst swept) (snd swept) c;
         (held, m) = discard_signed key (c_prepared c1);
         c2 = c1\<lparr>c_prepared := m\<rparr>
     in if held then (Inr (), c2)
        else rpc_map (take_live now key c2) (\<lambda>_. Inr ()))"

section \<open>The commands\<close>

definition broadcast_err_str :: "CeremonyError \<Rightarrow> string" where
  "broadcast_err_str e =
     (case e of
        SubmittedOutcomeUnknown h r \<Rightarrow> ceremony_error_text e
      | other \<Rightarrow> ''not submitted: '' @ ceremony_error_text other)"

record SendPreparedError =
  sp_code :: string
  sp_message :: string

definition send_prepared_error :: "CeremonyError \<Rightarrow> SendPreparedError" where
  "send_prepared_error e =
     (case e of
        PreparedExpired \<Rightarrow> \<lparr>sp_code = ''signedTxExpired'', sp_message = ceremony_error_text e\<rparr>
      | other \<Rightarrow> \<lparr>sp_code = ''failed'', sp_message = broadcast_err_str other\<rparr>)"

text \<open>The observer is the list of results it was told, if one is installed.\<close>

type_synonym observer = "BroadcastResult list option"

definition set_broadcast_observer :: "observer \<Rightarrow> bool \<times> observer" where
  "set_broadcast_observer ob = (case ob of None \<Rightarrow> (True, Some []) | Some told \<Rightarrow> (False, Some told))"

definition notify_broadcast :: "BroadcastResult \<Rightarrow> observer \<Rightarrow> observer" where
  "notify_broadcast r ob = map_option (\<lambda>told. told @ [r]) ob"

definition approve_broadcast_and_notify ::
  "'x deps_scheme \<Rightarrow> wallet_crypto \<Rightarrow> log_codec \<Rightarrow> log_faults \<Rightarrow> log_faults \<Rightarrow> rpc_env \<Rightarrow> vault_reads \<Rightarrow> string
     \<Rightarrow> bool \<Rightarrow> BroadcastConfig \<Rightarrow> ClockReading \<Rightarrow> ClockReading \<Rightarrow> nat option
     \<Rightarrow> observer \<times> SignatureCeremony \<times> RpcClient \<times> dir
     \<Rightarrow> (CeremonyError + BroadcastResult) \<times> observer \<times> SignatureCeremony \<times> RpcClient \<times> dir" where
  "approve_broadcast_and_notify X K C F F' R V s raw_ack cfg now0 now1 now st =
     (let (ob, st) = st in
      case approve_and_broadcast X K C F F' R V s raw_ack cfg now0 now1 now st of
        (Inl e, st') \<Rightarrow> (Inl e, ob, st')
      | (Inr r, st') \<Rightarrow> (Inr r, notify_broadcast r ob, st'))"

definition production_config :: BroadcastConfig where
  "production_config = \<lparr>bc_chain_id = CITRATE_CHAIN_ID, bc_poll_attempts = 30\<rparr>"

text \<open>The blocking bodies of the commands; a command makes its own RPC client, so the bodies start
  with a fresh one.\<close>

definition sign_and_broadcast_sync ::
  "'x deps_scheme \<Rightarrow> wallet_crypto \<Rightarrow> log_codec \<Rightarrow> log_faults \<Rightarrow> log_faults \<Rightarrow> rpc_env \<Rightarrow> vault_reads \<Rightarrow> string
     \<Rightarrow> bool \<Rightarrow> ClockReading \<Rightarrow> ClockReading \<Rightarrow> nat option \<Rightarrow> observer \<times> SignatureCeremony \<times> dir
     \<Rightarrow> (string + BroadcastResult) \<times> observer \<times> SignatureCeremony \<times> RpcClient \<times> dir" where
  "sign_and_broadcast_sync X K C F F' R V s raw_ack now0 now1 now st =
     (let (ob, c, D) = st;
          (r, st') = approve_broadcast_and_notify X K C F F' R V s raw_ack production_config now0 now1 now
                       (ob, c, with_transport, D)
      in (map_err broadcast_err_str r, st'))"

definition sign_prepare_sync ::
  "'x deps_scheme \<Rightarrow> wallet_crypto \<Rightarrow> rpc_env \<Rightarrow> vault_reads \<Rightarrow> string \<Rightarrow> bool \<Rightarrow> ClockReading
     \<Rightarrow> ClockReading \<Rightarrow> nat \<times> nat \<Rightarrow> nat \<times> nat \<Rightarrow> SignatureCeremony
     \<Rightarrow> (string + string) \<times> SignatureCeremony \<times> RpcClient" where
  "sign_prepare_sync X K R V s raw_ack now0 now1 swept stamped c =
     (let (r, st') = approve_and_sign X K R V s raw_ack CITRATE_CHAIN_ID now0 now1 swept stamped (c, with_transport)
      in (map_err ceremony_error_text r, st'))"

definition sign_send_prepared_sync ::
  "'x deps_scheme \<Rightarrow> log_codec \<Rightarrow> log_faults \<Rightarrow> log_faults \<Rightarrow> rpc_env \<Rightarrow> string \<Rightarrow> nat \<times> nat \<Rightarrow> nat option
     \<Rightarrow> observer \<times> SignatureCeremony \<times> dir
     \<Rightarrow> (SendPreparedError + BroadcastResult) \<times> observer \<times> SignatureCeremony \<times> RpcClient \<times> dir" where
  "sign_send_prepared_sync X C F F' R s swept now st =
     (let (ob, c, D) = st in
      case send_prepared X C F F' R s production_config swept now (c, with_transport, D) of
        (Inl e, st') \<Rightarrow> (Inl (send_prepared_error e), ob, st')
      | (Inr r, st') \<Rightarrow> (Inr r, notify_broadcast r ob, st'))"

definition sign_request_sync ::
  "'x deps_scheme \<Rightarrow> SignatureIntent \<Rightarrow> ClockReading \<Rightarrow> ClockReading \<Rightarrow> SignatureCeremony
     \<Rightarrow> (string + CeremonyView) \<times> SignatureCeremony" where
  "sign_request_sync X intent created now c = (let (v, c') = request X intent created now c in (Inr v, c'))"

definition sign_approve_sync ::
  "'x deps_scheme \<Rightarrow> wallet_crypto \<Rightarrow> rpc_env \<Rightarrow> Vault \<Rightarrow> string \<Rightarrow> bool \<Rightarrow> ClockReading \<Rightarrow> ClockReading
     \<Rightarrow> SignatureCeremony \<Rightarrow> (string + Signature) \<times> SignatureCeremony" where
  "sign_approve_sync X K R V s raw_ack now0 now1 c =
     (let (r, c') = approve X K R V s raw_ack now0 now1 c in (map_err ceremony_error_text r, c'))"

definition sign_reject_sync ::
  "string \<Rightarrow> nat \<times> nat \<Rightarrow> ClockReading \<Rightarrow> SignatureCeremony \<Rightarrow> (string + unit) \<times> SignatureCeremony" where
  "sign_reject_sync s swept now c = (let (r, c') = reject s swept now c in (map_err ceremony_error_text r, c'))"

section \<open>The budgeted path\<close>

record SiweSignRequest =
  sr_message :: string
  sr_attestation :: "OriginAttestation option"
  sr_taint :: TaskTaint
  sr_hic_required :: bool
  sr_principal :: string
  sr_claimed_origin :: string

datatype BudgetedOutcome =
    AutoSigned (ao_signature: Signature) (ao_record_id: nat) (ao_budget_id: nat) (ao_remaining: nat)
      (ao_origin: string)
  | CardPending (ao_ceremony: CeremonyView) (ao_reason: string)

definition siwe_card :: "'x deps_scheme \<Rightarrow> SiweSignRequest \<Rightarrow> SignatureIntent" where
  "siwe_card X req =
     \<lparr>si_origin = (case sr_attestation req of
                     Some a \<Rightarrow> oa_origin a
                   | None \<Rightarrow> sr_claimed_origin req @ '' (site not verified by Citrate Core)''),
      si_kind = PersonalSign, si_chain_id = CITRATE_CHAIN_ID,
      si_raw = hex_encode X (as_bytes (sr_message req))\<rparr>"

definition siwe_fall_through ::
  "'x deps_scheme \<Rightarrow> SiweSignRequest \<Rightarrow> FallThrough \<Rightarrow> ClockReading \<Rightarrow> ClockReading \<Rightarrow> SignatureCeremony
     \<Rightarrow> BudgetedOutcome \<times> SignatureCeremony" where
  "siwe_fall_through X req why created now c =
     (let (v, c') = request X (siwe_card X req) created now c in (CardPending v (fall_through_text why), c'))"

text \<open>The critical section under the budget lock: the outcome is a reason to fall through, or the
  signature with its record.\<close>

record budget_times =
  bt_now :: nat
  bt_again :: nat

definition budget_section ::
  "'x wb_deps_scheme \<Rightarrow> wallet_crypto \<Rightarrow> rpc_env \<Rightarrow> Vault \<Rightarrow> Vault \<Rightarrow> faults \<Rightarrow> faults \<Rightarrow> SiweSignRequest
     \<Rightarrow> budget_times \<Rightarrow> GateInner \<times> world \<Rightarrow> (FallThrough + BudgetedOutcome) \<times> GateInner \<times> world" where
  "budget_section X K R V V' fl fl' req t st =
     (let (g, W) = st;
          wallet_addr = (case address X K V of Inr i \<Rightarrow> Some (wi_address i) | Inl e \<Rightarrow> None);
          input = \<lparr>ei_message = sr_message req, ei_attestation = sr_attestation req, ei_taint = sr_taint req,
                   ei_hic_required = sr_hic_required req, ei_principal = sr_principal req,
                   ei_wallet_address = wallet_addr\<rparr>
      in
      case evaluate_siwe X input (bt_now t) g of
        Inl why \<Rightarrow> (Inl why, g, W)
      | Inr plan \<Rightarrow>
        (case reserve X fl plan (bt_now t) g W of
           (Inl why, g1, W1) \<Rightarrow> (Inl why, g1, W1)
         | (Inr record_id, g1, W1) \<Rightarrow>
           (case still_signable plan (bt_again t) g1 of
              Inl why \<Rightarrow> (Inl why, close X fl' record_id NotSigned g1 W1)
            | Inr _ \<Rightarrow>
              (case sign_personal X K R V' (as_bytes (sr_message req)) of
                 Inr sig \<Rightarrow>
                   (let (g2, W2) = close X fl' record_id Signed g1 W1
                    in (Inr (AutoSigned \<lparr>sg_sig_hex = hex_encode X sig, sg_kind = PersonalSign\<rparr> record_id
                               (sp_budget_id plan) (remaining_of (sp_budget_id plan) g2) (sp_origin plan)), g2, W2))
               | Inl e \<Rightarrow>
                   (Inl (case e of WalletWrongNetwork m \<Rightarrow> FtNetwork m | _ \<Rightarrow> FtSignerUnavailable),
                    close X fl' record_id NotSigned g1 W1)))))"

definition request_siwe_budgeted ::
  "'x wb_deps_scheme \<Rightarrow> wallet_crypto \<Rightarrow> rpc_env \<Rightarrow> Vault \<Rightarrow> Vault \<Rightarrow> faults \<Rightarrow> faults \<Rightarrow> SiweSignRequest
     \<Rightarrow> budget_times \<Rightarrow> ClockReading \<Rightarrow> ClockReading \<Rightarrow> SignatureCeremony \<times> GateInner \<times> world
     \<Rightarrow> BudgetedOutcome \<times> SignatureCeremony \<times> GateInner \<times> world" where
  "request_siwe_budgeted X K R V V' fl fl' req t created now st =
     (let (c, g, W) = st in
      case check_wallet_signing (re_debug R) (re_gates R) (personal_message_scope (as_bytes (sr_message req))) of
        Inl e \<Rightarrow>
          (let (out, c') = siwe_fall_through X req (FtNetwork (rpc_error_text e)) created now c in (out, c', g, W))
      | Inr _ \<Rightarrow>
        (case budget_section X K R V V' fl fl' req t (g, W) of
           (Inr out, g', W') \<Rightarrow> (out, c, g', W')
         | (Inl why, g', W') \<Rightarrow>
           (let (out, c') = siwe_fall_through X req why created now c in (out, c', g', W'))))"

text \<open>The managed state at start-up, with and without a place for the record.\<close>

definition build_ceremony_state_at ::
  "log_codec \<Rightarrow> log_faults \<Rightarrow> string \<Rightarrow> string \<Rightarrow> nat option \<Rightarrow> nat \<Rightarrow> dir \<Rightarrow> SignatureCeremony \<times> dir" where
  "build_ceremony_state_at C F path genesis os wall_ms D =
     (let (L, D') = open_with C F path genesis D in (with_submitted_log L os wall_ms, D'))"

definition build_ceremony_state_unpersisted :: "nat option \<Rightarrow> nat \<Rightarrow> SignatureCeremony" where
  "build_ceremony_state_unpersisted os wall_ms = with_submitted_log unpersisted os wall_ms"

end
