(* ===== verification/CeremonyBook.thy ===== *)
theory CeremonyBook
  imports Ceremony
begin

text \<open>
  The two stores of the ceremony, the book of pending requests and the signed transactions held
  unsent, as single-use stores: what each operation does to the keys it holds, and that what was
  taken once, or outlived its time, is never found again. The contract is the locale \<open>single_use\<close>,
  interpreted on both stores. The results on expiry: a request that outlived its time by either clock
  is not signed, and a watched id that expired is answered as expired while it is among the newest 64.
\<close>

section \<open>Single-use stores\<close>

text \<open>A store of values by key from which a value is taken under a clock reading; taking expires
  what is stale at that reading first.\<close>

locale single_use =
  fixes get :: "'s \<Rightarrow> nat \<Rightarrow> 'v option"
    and stale :: "'t \<Rightarrow> 's \<Rightarrow> nat \<Rightarrow> bool"
    and take :: "'t \<Rightarrow> nat \<Rightarrow> 's \<Rightarrow> ('e + 'v) \<times> 's"
    and invar :: "'s \<Rightarrow> bool"
  assumes take_ok: "invar s \<Longrightarrow> take t k s = (Inr v, s') \<Longrightarrow> get s k = Some v \<and> \<not> stale t s k"
    and take_gone: "invar s \<Longrightarrow> take t k s = (r, s') \<Longrightarrow> get s' k = None"
    and take_shrinks: "invar s \<Longrightarrow> take t k s = (r, s') \<Longrightarrow> get s' j = Some v \<Longrightarrow> get s j = Some v"
    and take_invar: "invar s \<Longrightarrow> take t k s = (r, s') \<Longrightarrow> invar s'"
begin

text \<open>Takes of any keys in sequence, with their answers.\<close>

fun takes :: "('t \<times> nat) list \<Rightarrow> 's \<Rightarrow> (nat \<times> 'v) list \<times> 's" where
  "takes [] s = ([], s)"
| "takes ((t, k) # ts) s =
     (case take t k s of
        (Inl e, s1) \<Rightarrow> takes ts s1
      | (Inr v, s1) \<Rightarrow> (case takes ts s1 of (got, s2) \<Rightarrow> ((k, v) # got, s2)))"

lemma takes_from_store: "invar s \<Longrightarrow> takes ts s = (got, s') \<Longrightarrow> (k, v) \<in> set got \<Longrightarrow> get s k = Some v"
proof (induction ts arbitrary: s got s')
  case (Cons a ts)
  obtain t k1 where a: "a = (t, k1)" by force
  obtain r s1 where r: "take t k1 s = (r, s1)" by force
  have inv: "invar s1" using take_invar [OF Cons.prems(1) r] .
  have up: "get s1 k = Some v \<Longrightarrow> get s k = Some v" using take_shrinks [OF Cons.prems(1) r] .
  show ?case
  proof (cases r)
    case (Inl e)
    then show ?thesis using Cons a r inv up by auto
  next
    case (Inr w)
    obtain got' s2 where g: "takes ts s1 = (got', s2)" by force
    have "got = (k1, w) # got'" using Cons.prems(2) a r Inr g by simp
    then show ?thesis
      using Cons.IH [OF inv g] Cons.prems(3) up take_ok [OF Cons.prems(1)] r Inr by auto
  qed
qed simp

lemma takes_distinct: "invar s \<Longrightarrow> takes ts s = (got, s') \<Longrightarrow> distinct (map fst got)"
proof (induction ts arbitrary: s got s')
  case (Cons a ts)
  obtain t k1 where a: "a = (t, k1)" by force
  obtain r s1 where r: "take t k1 s = (r, s1)" by force
  have inv: "invar s1" using take_invar [OF Cons.prems(1) r] .
  show ?case
  proof (cases r)
    case (Inl e)
    then show ?thesis using Cons a r inv by auto
  next
    case (Inr w)
    obtain got' s2 where g: "takes ts s1 = (got', s2)" by force
    have "got = (k1, w) # got'" using Cons.prems(2) a r Inr g by simp
    moreover have "k1 \<notin> fst ` set got'"
      using takes_from_store [OF inv g] take_gone [OF Cons.prems(1) r] by auto
    ultimately show ?thesis using Cons.IH [OF inv g] by simp
  qed
qed simp

lemma second_take: "invar s \<Longrightarrow> take t k s = (r, s1) \<Longrightarrow> take t' k s1 = (r', s2) \<Longrightarrow> \<exists>e. r' = Inl e"
  using take_gone [of s t k r s1] take_ok [OF take_invar, of s t k r s1 t' k] by (cases r') auto

end

section \<open>The book\<close>

definition expired_ids :: "Book \<Rightarrow> nat set" where
  "expired_ids b = set (bk_expired b) \<union> set (bk_expired_watched b)"

lemma book_is_expired_iff: "book_is_expired b k \<longleftrightarrow> k \<in> expired_ids b"
  by (simp add: book_is_expired_def expired_ids_def)

lemma set_bs_insert [simp]: "set (bs_insert k xs) = insert k (set xs)"
  by (auto simp: bs_insert_def set_insort_key)

lemma bs_insert_wf: "sorted xs \<and> distinct xs \<Longrightarrow> sorted (bs_insert k xs) \<and> distinct (bs_insert k xs)"
  by (auto simp: bs_insert_def sorted_insort distinct_insort)

lemma remember_expired_simps [simp]:
  "bk_pending (remember_expired k b) = bk_pending b" "bk_watched (remember_expired k b) = bk_watched b"
  by (simp_all add: remember_expired_def)

lemma remember_expired_ids: "expired_ids (remember_expired k b) \<subseteq> insert k (expired_ids b)"
  using set_pop_first_to [of EXPIRED_IDS_KEPT "bs_insert k (bk_expired b)"]
  by (auto simp: remember_expired_def expired_ids_def)

lemma remember_expired_watched:
  "set (bk_expired_watched (remember_expired k b)) =
     set (bk_expired_watched b) \<union> ({k} \<inter> set (bk_watched b))"
  by (auto simp: remember_expired_def)

abbreviation expire_one :: "Book \<Rightarrow> nat \<Rightarrow> Book" where
  "expire_one b key \<equiv> remember_expired key (b\<lparr>bk_pending := bt_remove key (bk_pending b)\<rparr>)"

lemma expire_fold:
  "bk_pending (foldl expire_one b ks) = filter (\<lambda>(k, p). k \<notin> set ks) (bk_pending b) \<and>
   bk_watched (foldl expire_one b ks) = bk_watched b \<and>
   set (bk_expired_watched (foldl expire_one b ks)) =
     set (bk_expired_watched b) \<union> (set ks \<inter> set (bk_watched b)) \<and>
   expired_ids (foldl expire_one b ks) \<subseteq> expired_ids b \<union> set ks"
proof (induction ks arbitrary: b)
  case (Cons k ks)
  have "expired_ids (expire_one b k) \<subseteq> insert k (expired_ids b)"
    using remember_expired_ids [of k "b\<lparr>bk_pending := bt_remove k (bk_pending b)\<rparr>"]
    by (simp add: expired_ids_def)
  then show ?case
    using Cons.IH [of "expire_one b k"]
    by (auto simp: bt_remove_def remember_expired_watched conj_commute filter_filter split_def)
qed (auto simp: split_def)

lemma live_simps [simp]:
  "c_prepared (live now c) = c_prepared c" "c_prepared_ttl_ms (live now c) = c_prepared_ttl_ms c"
  "c_submitted (live now c) = c_submitted c" "c_next_id (live now c) = c_next_id c"
  "c_first_id (live now c) = c_first_id c" "c_abis (live now c) = c_abis c" "c_ttl (live now c) = c_ttl c"
  by (simp_all add: live_def)

abbreviation pending_map :: "SignatureCeremony \<Rightarrow> (nat \<times> Pending) list" where
  "pending_map c \<equiv> bk_pending (c_book c)"

definition stale_keys :: "ClockReading \<Rightarrow> SignatureCeremony \<Rightarrow> nat set" where
  "stale_keys now c = {k. \<exists>p. (k, p) \<in> set (pending_map c) \<and> outlived (c_ttl c) (pd_created p) now}"

lemma live_book:
  assumes "bt_wf (pending_map c)"
  shows "pending_map (live now c) = filter (\<lambda>(k, p). \<not> outlived (c_ttl c) (pd_created p) now) (pending_map c)"
    and "bk_watched (c_book (live now c)) = bk_watched (c_book c)"
    and "set (bk_expired_watched (c_book (live now c))) =
      set (bk_expired_watched (c_book c)) \<union> (stale_keys now c \<inter> set (bk_watched (c_book c)))"
    and "expired_ids (c_book (live now c)) \<subseteq> expired_ids (c_book c) \<union> stale_keys now c"
proof -
  let ?ks = "map fst (filter (\<lambda>(k, p). outlived (c_ttl c) (pd_created p) now) (pending_map c))"
  have ks: "set ?ks = stale_keys now c" by (force simp: stale_keys_def)
  have "k \<notin> set ?ks \<longleftrightarrow> \<not> outlived (c_ttl c) (pd_created p) now" if "(k, p) \<in> set (pending_map c)" for k p
    using that bt_wf_distinct [OF assms] unfolding ks stale_keys_def by (auto dest: eq_key_imp_eq_value)
  then have "filter (\<lambda>(k, p). k \<notin> set ?ks) (pending_map c) =
      filter (\<lambda>(k, p). \<not> outlived (c_ttl c) (pd_created p) now) (pending_map c)"
    by (intro filter_cong) auto
  then show "pending_map (live now c) = filter (\<lambda>(k, p). \<not> outlived (c_ttl c) (pd_created p) now) (pending_map c)"
    "bk_watched (c_book (live now c)) = bk_watched (c_book c)"
    "set (bk_expired_watched (c_book (live now c))) =
      set (bk_expired_watched (c_book c)) \<union> (stale_keys now c \<inter> set (bk_watched (c_book c)))"
    "expired_ids (c_book (live now c)) \<subseteq> expired_ids (c_book c) \<union> stale_keys now c"
    using expire_fold [of "c_book c" ?ks] ks by (simp_all add: live_def Let_def)
qed

lemma live_get:
  assumes "bt_wf (pending_map c)"
  shows "bt_get k (pending_map (live now c)) = Some p \<longleftrightarrow>
    bt_get k (pending_map c) = Some p \<and> \<not> outlived (c_ttl c) (pd_created p) now"
  using assms by (auto simp: live_book bt_get_iff bt_wf_filter)

definition pend_ok :: "SignatureCeremony \<Rightarrow> bool" where
  "pend_ok c \<longleftrightarrow> bt_wf (pending_map c) \<and> (\<forall>k\<in>expired_ids (c_book c). bt_get k (pending_map c) = None)"

definition pending_stale :: "ClockReading \<Rightarrow> SignatureCeremony \<Rightarrow> nat \<Rightarrow> bool" where
  "pending_stale now c k \<longleftrightarrow>
     (\<exists>p. bt_get k (pending_map c) = Some p \<and> outlived (c_ttl c) (pd_created p) now)"

lemma stale_keys_get: "bt_wf (pending_map c) \<Longrightarrow> k \<in> stale_keys now c \<longleftrightarrow> pending_stale now c k"
  by (simp add: stale_keys_def pending_stale_def bt_get_iff)

lemma live_get_None: "bt_wf (pending_map c) \<Longrightarrow> bt_get k (pending_map c) = None \<Longrightarrow> bt_get k (pending_map (live now c)) = None"
  by (metis live_get option.exhaust option.distinct(1))

lemma live_ok: "pend_ok c \<Longrightarrow> pend_ok (live now c)"
proof -
  assume ok: "pend_ok c"
  then have wf: "bt_wf (pending_map c)" by (simp add: pend_ok_def)
  have "bt_get k (pending_map (live now c)) = None" if "k \<in> expired_ids (c_book (live now c))" for k
  proof (rule ccontr)
    assume "bt_get k (pending_map (live now c)) \<noteq> None"
    then obtain p where p: "bt_get k (pending_map c) = Some p" "\<not> outlived (c_ttl c) (pd_created p) now"
      using live_get [OF wf] by blast
    then have "k \<notin> stale_keys now c" by (auto simp: stale_keys_get [OF wf] pending_stale_def)
    then have "k \<in> expired_ids (c_book c)" using live_book(4) [OF wf] that by blast
    then show False using ok p by (auto simp: pend_ok_def)
  qed
  then show ?thesis using wf by (simp add: pend_ok_def live_book bt_wf_filter)
qed

lemma take_live_cases:
  assumes "take_live now key c = (r, c')"
  obtains (expired) "r = Inl CerExpired" "c' = live now c" "book_is_expired (c_book c') key"
    | (unknown) "r = Inl UnknownCeremony" "c' = live now c" "bt_get key (pending_map c') = None"
    | (taken) p where "r = Inr p" "bt_get key (pending_map (live now c)) = Some p"
        "c' = (live now c)\<lparr>c_book := (c_book (live now c))
                 \<lparr>bk_pending := bt_remove key (pending_map (live now c))\<rparr>\<rparr>"
proof (cases "book_is_expired (c_book (live now c)) key")
  case True
  then show ?thesis using assms expired by (simp add: take_live_def Let_def)
next
  case False
  show ?thesis
  proof (cases "bt_get key (pending_map (live now c))")
    case None
    then show ?thesis using assms False by (intro unknown) (simp_all add: take_live_def Let_def)
  next
    case (Some p)
    then show ?thesis using assms False by (intro taken [of p]) (simp_all add: take_live_def Let_def)
  qed
qed

lemma take_live_ok:
  assumes "pend_ok c" and "take_live now key c = (r, c')"
  shows "pend_ok c'"
  using assms(2)
proof (cases rule: take_live_cases)
  case (taken p)
  then show ?thesis
    using live_ok [OF assms(1), of now] by (auto simp: pend_ok_def expired_ids_def bt_wf_remove bt_get_remove)
qed (use live_ok [OF assms(1)] in simp_all)

lemma take_live_gone:
  assumes "pend_ok c" and "take_live now key c = (r, c')"
  shows "bt_get key (pending_map c') = None"
  using assms(2)
proof (cases rule: take_live_cases)
  case expired
  then show ?thesis using live_ok [OF assms(1), of now] by (simp add: pend_ok_def book_is_expired_iff)
qed (simp_all add: bt_get_remove)

interpretation pend: single_use "\<lambda>c k. bt_get k (pending_map c)" pending_stale take_live pend_ok
proof
  fix c t k v c' r j
  assume ok: "pend_ok c"
  then have wf: "bt_wf (pending_map c)" by (simp add: pend_ok_def)
  show "bt_get k (pending_map c) = Some v \<and> \<not> pending_stale t c k" if "take_live t k c = (Inr v, c')"
    using that live_get [OF wf] by (cases rule: take_live_cases) (auto simp: pending_stale_def)
  show "bt_get k (pending_map c') = None" if "take_live t k c = (r, c')" using ok that by (rule take_live_gone)
  show "pend_ok c'" if "take_live t k c = (r, c')" using ok that by (rule take_live_ok)
  show "bt_get j (pending_map c) = Some v" if "take_live t k c = (r, c')" "bt_get j (pending_map c') = Some v"
    using that live_get [OF wf] by (cases rule: take_live_cases) (auto simp: bt_get_remove split: if_splits)
qed

section \<open>Signed transactions held unsent\<close>

definition slot_stale :: "nat \<Rightarrow> nat \<times> nat \<Rightarrow> Slot \<Rightarrow> bool" where
  "slot_stale ttl t s = (case s of Live tx at w \<Rightarrow> ttl \<le> max (fst t - at) (snd t - w) | Tombstone at \<Rightarrow> False)"

definition prepared_stale :: "nat \<times> nat \<Rightarrow> SignatureCeremony \<Rightarrow> nat \<Rightarrow> bool" where
  "prepared_stale t c k \<longleftrightarrow>
     pred_option (slot_stale (from_millis (c_prepared_ttl_ms c)) t) (bt_get k (c_prepared c))"

definition live_prepared :: "SignatureCeremony \<Rightarrow> nat \<Rightarrow> Prepared option" where
  "live_prepared c k = (case bt_get k (c_prepared c) of Some (Live tx at w) \<Rightarrow> Some tx | _ \<Rightarrow> None)"

lemma bt_wf_map_values: "bt_wf (map (\<lambda>(k, s). (k, f s)) m) = bt_wf m"
  by (simp add: bt_wf_def comp_def split_def)

lemma sweep_wf: "bt_wf m \<Longrightarrow> bt_wf (sweep ttl keep a b m)"
  by (simp add: sweep_def bt_wf_filter bt_wf_map_values)

lemma sweep_Live:
  assumes "bt_wf m"
  shows "bt_get k (sweep ttl keep a b m) = Some (Live tx at w) \<longleftrightarrow>
    bt_get k m = Some (Live tx at w) \<and> \<not> ttl \<le> max (a - at) (b - w)"
  unfolding bt_get_iff [OF assms] bt_get_iff [OF sweep_wf [OF assms]]
  by (force simp: sweep_def sweep_slot_def split: Slot.splits if_splits)

lemma sweep_keys: "fst ` set (sweep ttl keep a b m) \<subseteq> fst ` set m"
  by (force simp: sweep_def)

lemma lock_prepared_simps [simp]:
  "c_book (lock_prepared a b c) = c_book c" "c_next_id (lock_prepared a b c) = c_next_id c"
  "c_submitted (lock_prepared a b c) = c_submitted c" "c_ttl (lock_prepared a b c) = c_ttl c"
  "c_prepared (lock_prepared a b c) =
     sweep (from_millis (c_prepared_ttl_ms c)) EXPIRED_TOMBSTONE_KEEP a b (c_prepared c)"
  by (simp_all add: lock_prepared_def)

lemma live_prepared_iff: "live_prepared c k = Some tx \<longleftrightarrow> (\<exists>at w. bt_get k (c_prepared c) = Some (Live tx at w))"
  by (auto simp: live_prepared_def split: option.splits Slot.splits)

lemma take_prepared_eq:
  assumes "take_prepared t k c = (r, c')"
  shows "c' = c\<lparr>c_prepared := bt_remove k (sweep (from_millis (c_prepared_ttl_ms c)) EXPIRED_TOMBSTONE_KEEP (fst t) (snd t)
      (c_prepared c))\<rparr>"
    and "r = Inr tx \<longleftrightarrow> (\<exists>at w. bt_get k (sweep (from_millis (c_prepared_ttl_ms c)) EXPIRED_TOMBSTONE_KEEP (fst t) (snd t)
      (c_prepared c)) = Some (Live tx at w))"
  using assms
  by (auto simp: take_prepared_def take_signed_def lock_prepared_def Let_def split: option.splits Slot.splits)

interpretation prep: single_use live_prepared prepared_stale take_prepared "\<lambda>c. bt_wf (c_prepared c)"
proof
  fix c c' :: SignatureCeremony and t k v r j
  assume wf: "bt_wf (c_prepared c)"
  show "live_prepared c k = Some v \<and> \<not> prepared_stale t c k" if "take_prepared t k c = (Inr v, c')"
    using take_prepared_eq(2) [OF that, of v] sweep_Live [OF wf]
    by (auto simp: live_prepared_iff prepared_stale_def slot_stale_def)
  show "live_prepared c' k = None" if "take_prepared t k c = (r, c')"
    using take_prepared_eq(1) [OF that] by (simp add: live_prepared_def bt_get_remove)
  show "bt_wf (c_prepared c')" if "take_prepared t k c = (r, c')"
    using take_prepared_eq(1) [OF that] wf by (simp add: bt_wf_remove sweep_wf)
  show "live_prepared c j = Some v" if "take_prepared t k c = (r, c')" "live_prepared c' j = Some v"
    using take_prepared_eq(1) [OF that(1)] that(2) sweep_Live [OF wf]
    by (auto simp: live_prepared_iff bt_get_remove split: if_splits)
qed

end
