(* ===== verification/CeremonyRun.thy ===== *)
theory CeremonyRun
  imports CeremonyBook
begin

text \<open>
  Runs of the ceremony with calls interleaved. The source holds no lock between taking a request and
  finishing the approval, nor between recording, sending and settling a transaction, so a run is a
  sequence of the atomic pieces of those calls, in any order and for any callers; each method is a
  run of its pieces. The state adds, to the ceremony, what the running calls hold and what was
  signed and sent so far. The result is the invariant behind \<open>one approval, one signature, one send\<close>.
\<close>

section \<open>Steps\<close>

record cer_sys =
  y_cer :: SignatureCeremony
  y_dir :: dir
  y_taken :: "(nat \<times> Pending) list"
  y_held :: "(nat \<times> Prepared) list"
  y_sending :: "(nat \<times> Prepared) list"
  y_signed :: "(nat \<times> Prepared option) list"
  y_sent :: "(nat \<times> bytes) list"

text \<open>\<open>c_next_id < u64_max\<close> excludes only the wrap-around of the id counter.\<close>

inductive cer_step :: "'x deps_scheme \<Rightarrow> wallet_crypto \<Rightarrow> log_codec \<Rightarrow> cer_sys \<Rightarrow> cer_sys \<Rightarrow> bool" for X K C where
  open_req: "open_request X intent watched t0 t1 (y_cer y) = (v, c') \<Longrightarrow> c_next_id (y_cer y) < u64_max \<Longrightarrow>
    cer_step X K C y (y\<lparr>y_cer := c'\<rparr>)"
| look: "cer_step X K C y (y\<lparr>y_cer := live now (y_cer y)\<rparr>)"
| register_abi: "cer_step X K C y (y\<lparr>y_cer := register_gated_contract addr abi (y_cer y)\<rparr>)"
| take_req: "take_live now key (y_cer y) = (Inr p, c') \<Longrightarrow>
    cer_step X K C y (y\<lparr>y_cer := c', y_taken := (key, p) # y_taken y\<rparr>)"
| take_none: "take_live now key (y_cer y) = (Inl e, c') \<Longrightarrow> cer_step X K C y (y\<lparr>y_cer := c'\<rparr>)"
| drop_req: "(key, p) \<in> set (y_taken y) \<Longrightarrow>
    cer_step X K C y (y\<lparr>y_taken := remove1 (key, p) (y_taken y)\<rparr>)"
| finish_message: "(key, p) \<in> set (y_taken y) \<Longrightarrow> approve_taken X K R V ack now key p (y_cer y) = (r, c') \<Longrightarrow>
    cer_step X K C y (y\<lparr>y_cer := c', y_taken := remove1 (key, p) (y_taken y),
      y_signed := (case r of Inl e \<Rightarrow> y_signed y | Inr sig \<Rightarrow> (key, None) # y_signed y)\<rparr>)"
| finish_tx: "(key, p) \<in> set (y_taken y) \<Longrightarrow>
    sign_taken X K R VR ack chain gate now key p (y_cer y, cl) = (r, c', cl') \<Longrightarrow>
    cer_step X K C y (y\<lparr>y_cer := c', y_taken := remove1 (key, p) (y_taken y),
      y_held := (case r of Inl e \<Rightarrow> y_held y | Inr (k, prep, h) \<Rightarrow> (k, prep) # y_held y),
      y_signed := (case r of Inl e \<Rightarrow> y_signed y | Inr (k, prep, h) \<Rightarrow> (k, Some prep) # y_signed y)\<rparr>)"
| park_tx: "(key, prep) \<in> set (y_held y) \<Longrightarrow>
    cer_step X K C y (y\<lparr>y_cer := park swept stamped key prep (y_cer y),
      y_held := remove1 (key, prep) (y_held y)\<rparr>)"
| take_prep: "take_prepared swept key (y_cer y) = (Inr tx, c') \<Longrightarrow>
    cer_step X K C y (y\<lparr>y_cer := c', y_held := (key, tx) # y_held y\<rparr>)"
| take_prep_none: "take_prepared swept key (y_cer y) = (Inl e, c') \<Longrightarrow> cer_step X K C y (y\<lparr>y_cer := c'\<rparr>)"
| discard_prep: "c1 = lock_prepared a b (y_cer y) \<Longrightarrow> discard_signed key (c_prepared c1) = (held, m) \<Longrightarrow>
    cer_step X K C y (y\<lparr>y_cer := c1\<lparr>c_prepared := m\<rparr>\<rparr>)"
| record_tx: "(key, tx) \<in> set (y_held y) \<Longrightarrow> send_record X C F tx at (y_cer y, y_dir y) = (r, c', D') \<Longrightarrow>
    cer_step X K C y (y\<lparr>y_cer := c', y_dir := D', y_held := remove1 (key, tx) (y_held y),
      y_sending := (case r of Inl e \<Rightarrow> y_sending y | Inr first \<Rightarrow> (key, tx) # y_sending y)\<rparr>)"
| transmit: "(key, tx) \<in> set (y_sending y) \<Longrightarrow>
    cer_step X K C y (y\<lparr>y_sending := remove1 (key, tx) (y_sending y),
      y_sent := (key, pr_raw tx) # y_sent y\<rparr>)"
| settle: "send_refused X C F tx first e (y_cer y, y_dir y) = (err, c', D') \<Longrightarrow>
    cer_step X K C y (y\<lparr>y_cer := c', y_dir := D'\<rparr>)"

definition cer_start :: "SignatureCeremony \<Rightarrow> dir \<Rightarrow> cer_sys" where
  "cer_start c D =
     \<lparr>y_cer = c, y_dir = D, y_taken = [], y_held = [], y_sending = [], y_signed = [], y_sent = []\<rparr>"

inductive cer_run :: "'x deps_scheme \<Rightarrow> wallet_crypto \<Rightarrow> log_codec \<Rightarrow> cer_sys \<Rightarrow> bool" for X K C where
  start: "cer_run X K C (cer_start (with_submitted_log L os wall_ms) D)"
| step: "cer_run X K C y \<Longrightarrow> cer_step X K C y y' \<Longrightarrow> cer_run X K C y'"

section \<open>Changes that add nothing\<close>

text \<open>\<open>c'\<close> has no request and no signed transaction that \<open>c\<close> has not, and what expired was pending, or is
  in \<open>A\<close>.\<close>

definition calm :: "nat set \<Rightarrow> SignatureCeremony \<Rightarrow> SignatureCeremony \<Rightarrow> bool" where
  "calm A c c' \<longleftrightarrow>
     pend_ok c' \<and> bt_wf (c_prepared c') \<and> c_next_id c' = c_next_id c \<and>
     (\<forall>k p. bt_get k (pending_map c') = Some p \<longrightarrow> bt_get k (pending_map c) = Some p) \<and>
     (\<forall>k\<in>expired_ids (c_book c'). k \<in> expired_ids (c_book c) \<or> bt_get k (pending_map c) \<noteq> None \<or> k \<in> A) \<and>
     (\<forall>k tx. live_prepared c' k = Some tx \<longrightarrow> live_prepared c k = Some tx)"

definition stores_ok :: "SignatureCeremony \<Rightarrow> bool" where
  "stores_ok c \<longleftrightarrow> pend_ok c \<and> bt_wf (c_prepared c)"

lemma calm_refl: "stores_ok c \<Longrightarrow> calm {} c c"
  by (auto simp: calm_def stores_ok_def)

lemma calm_same:
  "stores_ok c \<Longrightarrow> c_book c' = c_book c \<Longrightarrow> c_prepared c' = c_prepared c \<Longrightarrow> c_next_id c' = c_next_id c \<Longrightarrow> calm {} c c'"
  by (auto simp: calm_def stores_ok_def pend_ok_def live_prepared_def)

lemma calm_live: "stores_ok c \<Longrightarrow> calm {} c (live now c)"
  using live_book(4) [of c now] live_get [of c _ now] live_ok [of c now]
  by (auto simp: calm_def stores_ok_def pend_ok_def live_prepared_def stale_keys_get pending_stale_def)

lemma calm_take_live:
  assumes "stores_ok c" and "take_live now key c = (r, c')"
  shows "calm {} c c'"
  using assms(2)
proof (cases rule: take_live_cases)
  case (taken p)
  have "calm {} c (live now c)" using calm_live [OF assms(1)] .
  moreover have "pend_ok c'" using take_live_ok assms by (auto simp: stores_ok_def)
  ultimately show ?thesis using taken(3)
    by (auto simp: calm_def live_prepared_def bt_get_remove expired_ids_def split: if_splits)
qed (use calm_live [OF assms(1)] in simp_all)

lemma calm_prepared:
  assumes "stores_ok c" and "bt_wf m"
    and "\<And>k tx at w. bt_get k m = Some (Live tx at w) \<Longrightarrow> bt_get k (c_prepared c) = Some (Live tx at w)"
  shows "calm {} c (c\<lparr>c_prepared := m\<rparr>)"
  using assms by (auto simp: calm_def stores_ok_def pend_ok_def live_prepared_iff)

lemma calm_swept:
  assumes "stores_ok c"
  shows "calm {} c (c\<lparr>c_prepared := bt_remove k (sweep ttl keep a b (c_prepared c))\<rparr>)"
  using assms sweep_Live [of "c_prepared c"]
  by (intro calm_prepared) (auto simp: stores_ok_def bt_wf_remove sweep_wf bt_get_remove split: if_splits)

lemma calm_take_prepared: "stores_ok c \<Longrightarrow> take_prepared t k c = (r, c') \<Longrightarrow> calm {} c c'"
  using calm_swept take_prepared_eq(1) by metis

lemma calm_discard:
  assumes "stores_ok c" and "discard_signed key (c_prepared (lock_prepared a b c)) = (held, m)"
  shows "calm {} c ((lock_prepared a b c)\<lparr>c_prepared := m\<rparr>)"
proof -
  have "(lock_prepared a b c)\<lparr>c_prepared := m\<rparr> =
      c\<lparr>c_prepared := bt_remove key (sweep (from_millis (c_prepared_ttl_ms c)) EXPIRED_TOMBSTONE_KEEP a b (c_prepared c))\<rparr>"
    using assms(2) by (simp add: lock_prepared_def discard_signed_def)
  then show ?thesis using calm_swept [OF assms(1)] by simp
qed

lemma calm_ready:
  assumes "stores_ok c" and "bt_get key (pending_map c) = None" and "ready_to_sign X now key p sc c = (r, c')"
  shows "calm {key} c c'"
proof (cases "outlived (c_ttl c) (pd_created p) now")
  case True
  then have c': "c' = c\<lparr>c_book := remember_expired key (c_book c)\<rparr>" using assms(3) by (simp add: ready_to_sign_def)
  show ?thesis
    using assms(1,2) remember_expired_ids [of key "c_book c"]
    by (auto simp: c' calm_def stores_ok_def pend_ok_def live_prepared_def)
next
  case False
  then have "c' = c" using assms(3)
    by (auto simp: ready_to_sign_def Let_def split: sum.splits option.splits)
  then show ?thesis using calm_refl [OF assms(1)] by (auto simp: calm_def)
qed

text \<open>One order for the updates of a state.\<close>

lemma cer_sys_updates:
  "(y :: cer_sys)\<lparr>y_taken := t, y_cer := c\<rparr> = y\<lparr>y_cer := c, y_taken := t\<rparr>"
  "y\<lparr>y_signed := s, y_held := h\<rparr> = y\<lparr>y_held := h, y_signed := s\<rparr>"
  "y\<lparr>y_held := h, y_cer := c\<rparr> = y\<lparr>y_cer := c, y_held := h\<rparr>"
  "y\<lparr>y_cer := y_cer y\<rparr> = y"
  by simp_all

section \<open>The invariant\<close>

text \<open>Requests: one waits in the book or is held by one call, never both, and once it is signed it is
  gone from both.\<close>

definition unsigned_ok :: "cer_sys \<Rightarrow> bool" where
  "unsigned_ok y \<longleftrightarrow>
     stores_ok (y_cer y) \<and> distinct (map fst (y_taken y)) \<and> distinct (map fst (y_signed y)) \<and>
     (\<forall>k. k \<in> fst ` set (y_taken y) \<longrightarrow>
        bt_get k (pending_map (y_cer y)) = None \<and> k \<notin> expired_ids (c_book (y_cer y))) \<and>
     (\<forall>k. k \<in> fst ` set (y_signed y) \<longrightarrow>
        bt_get k (pending_map (y_cer y)) = None \<and> k \<notin> fst ` set (y_taken y)) \<and>
     (\<forall>k. bt_get k (pending_map (y_cer y)) \<noteq> None \<or> k \<in> expired_ids (c_book (y_cer y)) \<or>
        k \<in> fst ` set (y_taken y) \<or> k \<in> fst ` set (y_signed y) \<longrightarrow> k < c_next_id (y_cer y))"

text \<open>Signed transactions: one is held unsent in the store or by one call, or is being sent, or was
  sent; it is the one signed under its id.\<close>

definition signed_ok :: "cer_sys \<Rightarrow> bool" where
  "signed_ok y \<longleftrightarrow>
     distinct (map fst (y_held y @ y_sending y) @ map fst (y_sent y)) \<and>
     (\<forall>k\<in>set (map fst (y_held y @ y_sending y) @ map fst (y_sent y)). live_prepared (y_cer y) k = None) \<and>
     (\<forall>(k, tx)\<in>set (y_held y @ y_sending y). (k, Some tx) \<in> set (y_signed y)) \<and>
     (\<forall>k tx. live_prepared (y_cer y) k = Some tx \<longrightarrow> (k, Some tx) \<in> set (y_signed y)) \<and>
     (\<forall>(k, raw)\<in>set (y_sent y). \<exists>tx. (k, Some tx) \<in> set (y_signed y) \<and> pr_raw tx = raw)"

definition cer_inv :: "cer_sys \<Rightarrow> bool" where
  "cer_inv y \<longleftrightarrow> unsigned_ok y \<and> signed_ok y"

lemma distinct_remove1_fst: "distinct (map fst xs) \<Longrightarrow> distinct (map fst (remove1 e xs))"
  using set_remove1_subset [of e] by (induction xs) fastforce+

lemma remove1_fst_gone: "distinct (map fst xs) \<Longrightarrow> e \<in> set xs \<Longrightarrow> fst e \<notin> fst ` set (remove1 e xs)"
  by (simp add: distinct_map set_remove1_eq) (auto dest: inj_onD)

lemma remove1_subset: "set (remove1 e xs) \<subseteq> set xs"
  by (rule set_remove1_subset)

lemma unsigned_okD:
  assumes "unsigned_ok y"
  shows "stores_ok (y_cer y)" and "distinct (map fst (y_taken y))" and "distinct (map fst (y_signed y))"
    and "k \<in> fst ` set (y_taken y) \<Longrightarrow> bt_get k (pending_map (y_cer y)) = None"
    and "k \<in> fst ` set (y_taken y) \<Longrightarrow> k \<notin> expired_ids (c_book (y_cer y))"
    and "k \<in> fst ` set (y_signed y) \<Longrightarrow> bt_get k (pending_map (y_cer y)) = None"
    and "k \<in> fst ` set (y_signed y) \<Longrightarrow> k \<notin> fst ` set (y_taken y)"
    and "bt_get k (pending_map (y_cer y)) \<noteq> None \<Longrightarrow> k < c_next_id (y_cer y)"
    and "k \<in> expired_ids (c_book (y_cer y)) \<Longrightarrow> k < c_next_id (y_cer y)"
    and "k \<in> fst ` set (y_taken y) \<Longrightarrow> k < c_next_id (y_cer y)"
    and "k \<in> fst ` set (y_signed y) \<Longrightarrow> k < c_next_id (y_cer y)"
  using assms unfolding unsigned_ok_def by simp_all

text \<open>Calls that only drop what they hold.\<close>

lemma unsigned_calm:
  assumes y: "unsigned_ok y" and c: "calm A (y_cer y) c'" and t: "set t \<subseteq> set (y_taken y)" "distinct (map fst t)"
    and A: "\<forall>k\<in>A. k \<notin> fst ` set t \<and> k < c_next_id (y_cer y)"
  shows "unsigned_ok (y\<lparr>y_cer := c', y_taken := t\<rparr>)"
proof -
  have None: "bt_get k (pending_map c') = None" if "bt_get k (pending_map (y_cer y)) = None" for k
    using c that unfolding calm_def by (metis option.exhaust option.distinct(1))
  have sub: "fst ` set t \<subseteq> fst ` set (y_taken y)" using t(1) by blast
  have exp: "k \<in> expired_ids (c_book (y_cer y)) \<or> bt_get k (pending_map (y_cer y)) \<noteq> None \<or> k \<in> A"
    if "k \<in> expired_ids (c_book c')" for k
    using c that by (auto simp: calm_def)
  have next': "c_next_id c' = c_next_id (y_cer y)" "stores_ok c'" using c by (auto simp: calm_def stores_ok_def)
  note held = unsigned_okD(4,5) [OF y] and past = unsigned_okD(6,7) [OF y] and low = unsigned_okD(8-11) [OF y]
  have taken: "bt_get k (pending_map c') = None \<and> k \<notin> expired_ids (c_book c')" if "k \<in> fst ` set t" for k
  proof
    note k = held [OF subsetD [OF sub that]]
    show "bt_get k (pending_map c') = None" using k(1) by (rule None)
    have "k \<notin> A" using A that by auto
    then show "k \<notin> expired_ids (c_book c')" using k exp [of k] by auto
  qed
  have signed: "bt_get k (pending_map c') = None \<and> k \<notin> fst ` set t" if "k \<in> fst ` set (y_signed y)" for k
    using past [OF that] sub None [of k] by auto
  have bound: "k < c_next_id (y_cer y)"
    if "bt_get k (pending_map c') \<noteq> None \<or> k \<in> expired_ids (c_book c') \<or> k \<in> fst ` set t \<or> k \<in> fst ` set (y_signed y)" for k
  proof -
    have "bt_get k (pending_map c') \<noteq> None \<Longrightarrow> bt_get k (pending_map (y_cer y)) \<noteq> None" by (metis None)
    then show ?thesis using that low [of k] exp [of k] A subsetD [OF sub, of k] by (elim disjE) auto
  qed
  show ?thesis
    using y t(2) taken signed bound next' by (simp add: unsigned_ok_def)
qed

lemma signed_calm:
  assumes "signed_ok y" and "calm A (y_cer y) c'"
  shows "signed_ok (y\<lparr>y_cer := c'\<rparr>)"
proof -
  have "live_prepared c' k = None" if "live_prepared (y_cer y) k = None" for k
    using assms(2) that unfolding calm_def by (metis option.exhaust option.distinct(1))
  then show ?thesis using assms by (auto simp: signed_ok_def calm_def)
qed

lemma inv_calm:
  assumes "cer_inv y" and "calm {} (y_cer y) c'"
  shows "cer_inv (y\<lparr>y_cer := c'\<rparr>)"
  using unsigned_calm [of y "{}" c' "y_taken y"] signed_calm [of y "{}" c'] assms
  by (auto simp: cer_inv_def unsigned_ok_def)

lemma inv_stores: "cer_inv y \<Longrightarrow> stores_ok (y_cer y)"
  by (simp add: cer_inv_def unsigned_ok_def)

section \<open>Preservation\<close>

lemma inv_next:
  "cer_inv y \<Longrightarrow> c_next_id (y_cer y) \<le> n \<Longrightarrow> cer_inv (y\<lparr>y_cer := (y_cer y)\<lparr>c_next_id := n\<rparr>\<rparr>)"
proof -
  assume y: "cer_inv y" and n: "c_next_id (y_cer y) \<le> n"
  then have "unsigned_ok y" "signed_ok y" by (simp_all add: cer_inv_def)
  note d = unsigned_okD [OF this(1)]
  have "k < n" if "bt_get k (pending_map (y_cer y)) \<noteq> None \<or> k \<in> expired_ids (c_book (y_cer y)) \<or>
      k \<in> fst ` set (y_taken y) \<or> k \<in> fst ` set (y_signed y)" for k
  proof -
    have "k < c_next_id (y_cer y)" using that by (elim disjE) (rule d(8-11), assumption)+
    then show ?thesis using n by simp
  qed
  then show ?thesis
    using \<open>signed_ok y\<close> d(1-3) d(4-7)
    by (simp add: cer_inv_def unsigned_ok_def signed_ok_def stores_ok_def pend_ok_def live_prepared_def)
qed

text \<open>A request enters the book: a new one, or one a call gives back.\<close>

lemma inv_insert:
  assumes y: "cer_inv y" and b: "bk_pending b = bt_insert key p (pending_map (y_cer y))"
    "expired_ids b \<subseteq> expired_ids (c_book (y_cer y))"
    and key: "key < c_next_id (y_cer y)" "key \<notin> expired_ids (c_book (y_cer y))" "key \<notin> fst ` set (y_taken y)"
      "key \<notin> fst ` set (y_signed y)"
  shows "cer_inv (y\<lparr>y_cer := (y_cer y)\<lparr>c_book := b\<rparr>\<rparr>)"
proof -
  have u: "unsigned_ok y" and s: "signed_ok y" using y by (auto simp: cer_inv_def)
  note d = unsigned_okD [OF u]
  have wf: "bt_wf (pending_map (y_cer y))" using d(1) by (simp add: stores_ok_def pend_ok_def)
  have get: "bt_get k (bk_pending b) = (if k = key then Some p else bt_get k (pending_map (y_cer y)))" for k
    using wf by (simp add: b bt_get_insert)
  have "bt_get k (bk_pending b) = None" if "k \<in> expired_ids b" for k
    using that b(2) key(2) d(1) get by (auto simp: stores_ok_def pend_ok_def)
  then have "stores_ok ((y_cer y)\<lparr>c_book := b\<rparr>)"
    using d(1) wf by (auto simp: stores_ok_def pend_ok_def b(1) bt_wf_insert)
  moreover have "k < c_next_id (y_cer y)"
    if "bt_get k (bk_pending b) \<noteq> None \<or> k \<in> expired_ids b \<or> k \<in> fst ` set (y_taken y) \<or> k \<in> fst ` set (y_signed y)" for k
    using that d(8-11) [of k] get [of k] key(1) b(2) by (auto split: if_splits)
  moreover have "bt_get k (bk_pending b) = None \<and> k \<notin> expired_ids b" if "k \<in> fst ` set (y_taken y)" for k
    using d(4,5) [OF that] that key(3) b(2) get [of k] by auto
  moreover have "bt_get k (bk_pending b) = None \<and> k \<notin> fst ` set (y_taken y)" if "k \<in> fst ` set (y_signed y)" for k
    using d(6,7) [OF that] that key(4) get [of k] by auto
  ultimately have "unsigned_ok (y\<lparr>y_cer := (y_cer y)\<lparr>c_book := b\<rparr>\<rparr>)"
    using d(2,3) by (simp add: unsigned_ok_def)
  then show ?thesis using s by (simp add: cer_inv_def signed_ok_def live_prepared_def)
qed

lemma evict_watched_subset: "evict_watched ws ew = (ws', ew') \<Longrightarrow> set ew' \<subseteq> set ew \<and> set ws' \<subseteq> set ws"
  by (induction ws ew rule: evict_watched.induct) (fastforce split: if_splits)+

lemma watch_facts: "bk_pending (watch k b) = bk_pending b" "expired_ids (watch k b) \<subseteq> expired_ids b"
  using evict_watched_subset [of "bs_insert k (bk_watched b)" "bk_expired_watched b"]
  by (auto simp: watch_def expired_ids_def split: prod.splits)

lemma inv_open:
  assumes y: "cer_inv y" and o: "open_request X intent watched t0 t1 (y_cer y) = (v, c')"
    and n: "c_next_id (y_cer y) < u64_max"
  shows "cer_inv (y\<lparr>y_cer := c'\<rparr>)"
proof -
  let ?c = "y_cer y" and ?key = "c_next_id (y_cer y)"
  let ?y1 = "y\<lparr>y_cer := ?c\<lparr>c_next_id := Suc ?key\<rparr>\<rparr>"
  let ?y2 = "?y1\<lparr>y_cer := live t1 (y_cer ?y1)\<rparr>"
  define b where "b = (if watched then watch ?key (c_book (y_cer ?y2)) else c_book (y_cer ?y2))"
  let ?p = "new_pending X intent t0 (c_abis ?c)"
  have y1: "cer_inv ?y1" using y by (rule inv_next) simp
  have y2: "cer_inv ?y2" using inv_calm [OF y1 calm_live [OF inv_stores [OF y1]]] by simp
  have c': "c' = (y_cer ?y2)\<lparr>c_book := b\<lparr>bk_pending := bt_insert ?key ?p (pending_map (y_cer ?y2))\<rparr>\<rparr>"
    using o n watch_facts(1) by (auto simp: open_request_def Let_def b_def wrap_inc_exact)
  have u: "unsigned_ok y" using y by (simp add: cer_inv_def)
  have new: "?key \<notin> expired_ids (c_book ?c)" "bt_get ?key (pending_map ?c) = None"
    "?key \<notin> fst ` set (y_taken y)" "?key \<notin> fst ` set (y_signed y)"
    using unsigned_okD(8-11) [OF u, of ?key] by (blast intro: less_irrefl [THEN notE])+
  have "expired_ids (c_book (y_cer ?y2)) \<subseteq> expired_ids (c_book ?c) \<union> stale_keys t1 (y_cer ?y1)"
    using live_book(4) [of "y_cer ?y1" t1] unsigned_okD(1) [OF u] by (simp add: stores_ok_def pend_ok_def)
  then have "?key \<notin> expired_ids (c_book (y_cer ?y2))"
    using new(1,2) by (force simp: stale_keys_def bt_get_None)
  then have "cer_inv (?y2\<lparr>y_cer := c'\<rparr>)"
    unfolding c' using y2 new(3,4) watch_facts(2) [of ?key "c_book (y_cer ?y2)"]
    by (intro inv_insert [where key = ?key and p = ?p]) (auto simp: b_def expired_ids_def)
  then show ?thesis by simp
qed

text \<open>A call gives up the request it took, and adds a signature under its id.\<close>

lemma inv_finish:
  assumes y: "cer_inv y" and t: "(key, p) \<in> set (y_taken y)" and c: "calm {key} (y_cer y) c'"
  shows "cer_inv (y\<lparr>y_cer := c', y_taken := remove1 (key, p) (y_taken y)\<rparr>)"
    and "bt_get key (pending_map c') = None" and "key < c_next_id c'"
    and "key \<notin> fst ` set (remove1 (key, p) (y_taken y))" and "key \<notin> fst ` set (y_signed y)"
proof -
  have u: "unsigned_ok y" and s: "signed_ok y" using y by (auto simp: cer_inv_def)
  have in_t: "key \<in> fst ` set (y_taken y)" using t by force
  note d = unsigned_okD [OF u]
  show gone: "key \<notin> fst ` set (remove1 (key, p) (y_taken y))" using remove1_fst_gone [OF d(2) t] by simp
  show "key \<notin> fst ` set (y_signed y)" using d(7) in_t by blast
  show "bt_get key (pending_map c') = None"
    using c d(4) [OF in_t] unfolding calm_def by (metis option.exhaust option.distinct(1))
  show "key < c_next_id c'" using c d(10) [OF in_t] by (simp add: calm_def)
  have "unsigned_ok (y\<lparr>y_cer := c', y_taken := remove1 (key, p) (y_taken y)\<rparr>)"
    using gone d(10) [OF in_t]
    by (intro unsigned_calm [OF u c] set_remove1_subset distinct_remove1_fst d(2)) simp
  moreover have "signed_ok (y\<lparr>y_cer := c', y_taken := remove1 (key, p) (y_taken y)\<rparr>)"
    using signed_calm [OF s c] by (simp add: signed_ok_def)
  ultimately show "cer_inv (y\<lparr>y_cer := c', y_taken := remove1 (key, p) (y_taken y)\<rparr>)"
    by (simp add: cer_inv_def)
qed

lemma unsigned_sign:
  assumes "unsigned_ok y" and "bt_get key (pending_map (y_cer y)) = None" and "key < c_next_id (y_cer y)"
    and "key \<notin> fst ` set (y_taken y)" and "key \<notin> fst ` set (y_signed y)"
  shows "unsigned_ok (y\<lparr>y_signed := (key, x) # y_signed y\<rparr>)"
  using assms by (simp add: unsigned_ok_def)

lemma signed_okD:
  assumes "signed_ok y"
  shows "distinct (map fst (y_held y @ y_sending y) @ map fst (y_sent y))"
    and "k \<in> set (map fst (y_held y @ y_sending y) @ map fst (y_sent y)) \<Longrightarrow> live_prepared (y_cer y) k = None"
    and "(k, tx) \<in> set (y_held y @ y_sending y) \<Longrightarrow> (k, Some tx) \<in> set (y_signed y)"
    and "live_prepared (y_cer y) k = Some tx \<Longrightarrow> (k, Some tx) \<in> set (y_signed y)"
    and "(k, raw) \<in> set (y_sent y) \<Longrightarrow> \<exists>tx. (k, Some tx) \<in> set (y_signed y) \<and> pr_raw tx = raw"
  using assms unfolding signed_ok_def by (blast, blast, blast, blast, fastforce)

lemma signed_okI:
  assumes "distinct (map fst (y_held y @ y_sending y) @ map fst (y_sent y))"
    and "\<And>k. k \<in> set (map fst (y_held y @ y_sending y) @ map fst (y_sent y)) \<Longrightarrow> live_prepared (y_cer y) k = None"
    and "\<And>k tx. (k, tx) \<in> set (y_held y @ y_sending y) \<Longrightarrow> (k, Some tx) \<in> set (y_signed y)"
    and "\<And>k tx. live_prepared (y_cer y) k = Some tx \<Longrightarrow> (k, Some tx) \<in> set (y_signed y)"
    and "\<And>k raw. (k, raw) \<in> set (y_sent y) \<Longrightarrow> \<exists>tx. (k, Some tx) \<in> set (y_signed y) \<and> pr_raw tx = raw"
  shows "signed_ok y"
  unfolding signed_ok_def using assms by (intro conjI ballI allI impI; clarify?; blast)

lemma signed_ids:
  assumes "signed_ok y"
  shows "set (map fst (y_held y @ y_sending y) @ map fst (y_sent y)) \<subseteq> fst ` set (y_signed y)"
    and "live_prepared (y_cer y) k = Some tx \<Longrightarrow> k \<in> fst ` set (y_signed y)"
proof
  fix k
  assume "k \<in> set (map fst (y_held y @ y_sending y) @ map fst (y_sent y))"
  then consider tx where "(k, tx) \<in> set (y_held y @ y_sending y)" | raw where "(k, raw) \<in> set (y_sent y)" by fastforce
  then show "k \<in> fst ` set (y_signed y)"
    using signed_okD(3,5) [OF assms] by cases (metis fst_conv imageI)+
next
  show "live_prepared (y_cer y) k = Some tx \<Longrightarrow> k \<in> fst ` set (y_signed y)"
    using signed_okD(4) [OF assms] by (metis fst_conv imageI)
qed

lemma signed_more:
  assumes "signed_ok y"
  shows "signed_ok (y\<lparr>y_signed := e # y_signed y\<rparr>)"
  using assms by (auto simp: signed_ok_def)

lemma signed_hold:
  assumes "signed_ok y" and "(key, Some tx) \<in> set (y_signed y)" and "live_prepared (y_cer y) key = None"
    and "key \<notin> set (map fst (y_held y @ y_sending y) @ map fst (y_sent y))"
  shows "signed_ok (y\<lparr>y_held := (key, tx) # y_held y\<rparr>)"
  using assms by (auto simp: signed_ok_def)

lemma inv_sign_message:
  assumes "cer_inv y" and "bt_get key (pending_map (y_cer y)) = None" and "key < c_next_id (y_cer y)"
    and "key \<notin> fst ` set (y_taken y)" and "key \<notin> fst ` set (y_signed y)"
  shows "cer_inv (y\<lparr>y_signed := (key, x) # y_signed y\<rparr>)"
  using assms unsigned_sign signed_more by (simp add: cer_inv_def)

lemma inv_sign_tx:
  assumes "cer_inv y" and "bt_get key (pending_map (y_cer y)) = None" and "key < c_next_id (y_cer y)"
    and "key \<notin> fst ` set (y_taken y)" and "key \<notin> fst ` set (y_signed y)"
  shows "cer_inv (y\<lparr>y_held := (key, tx) # y_held y, y_signed := (key, Some tx) # y_signed y\<rparr>)"
proof -
  let ?y = "y\<lparr>y_signed := (key, Some tx) # y_signed y\<rparr>"
  have s: "signed_ok y" using assms(1) by (simp add: cer_inv_def)
  have i: "cer_inv ?y" using inv_sign_message [OF assms] .
  then have "signed_ok (?y\<lparr>y_held := (key, tx) # y_held ?y\<rparr>)"
    using signed_ids(1) [OF s] signed_ids(2) [OF s, of key] assms(5)
    by (intro signed_hold) (auto simp: cer_inv_def)
  moreover have "unsigned_ok (?y\<lparr>y_held := (key, tx) # y_held ?y\<rparr>)"
    using i by (simp add: cer_inv_def unsigned_ok_def)
  ultimately show ?thesis by (simp add: cer_inv_def cer_sys_updates)
qed

lemma inv_reinsert:
  assumes y: "cer_inv y" and t: "(key, p) \<in> set (y_taken y)"
  shows "cer_inv (y\<lparr>y_cer := reinsert key p (y_cer y), y_taken := remove1 (key, p) (y_taken y)\<rparr>)"
proof -
  let ?y = "y\<lparr>y_taken := remove1 (key, p) (y_taken y)\<rparr>"
  have "calm {key} (y_cer y) (y_cer y)" using calm_refl [OF inv_stores [OF y]] by (auto simp: calm_def)
  note f = inv_finish [OF y t this]
  have "key \<notin> expired_ids (c_book (y_cer y))" using unsigned_okD(5) y t by (force simp: cer_inv_def)
  then have "cer_inv (?y\<lparr>y_cer := (y_cer ?y)\<lparr>c_book := (c_book (y_cer ?y))
      \<lparr>bk_pending := bt_insert key p (pending_map (y_cer ?y))\<rparr>\<rparr>\<rparr>)"
    using f by (intro inv_insert) (simp_all add: expired_ids_def)
  then show ?thesis by (simp add: reinsert_def cer_sys_updates)
qed

lemma approve_taken_effect:
  assumes "stores_ok c" and "bt_get key (pending_map c) = None" and "approve_taken X K R V ack now key p c = (r, c')"
  shows "(\<exists>e. r = Inl e) \<and> c' = reinsert key p c \<or> calm {key} c c'"
proof -
  have same: "calm {key} c c" using calm_refl [OF assms(1)] by (auto simp: calm_def)
  obtain r1 c1 where r1: "ready_to_sign X now key p None c = (r1, c1)" by force
  have ready: "calm {key} c c1" using calm_ready [OF assms(1,2) r1] .
  consider "pd_requires_raw_ack p \<and> \<not> ack" | "\<not> (pd_requires_raw_ack p \<and> \<not> ack)" "c' = c"
    | "\<not> (pd_requires_raw_ack p \<and> \<not> ack)" "c' = c1"
    using assms(3) r1
    by (auto simp: approve_taken_def rpc_then_def split: option.splits IntentKind.splits sum.splits if_splits)
  then show ?thesis
    using assms(3) same ready by cases (auto simp: approve_taken_def)
qed

lemma sign_taken_effect:
  assumes "stores_ok c" and "bt_get key (pending_map c) = None"
    and "sign_taken X K R V ack chain gate now key p (c, cl) = (r, c', cl')"
  shows "(\<exists>e. r = Inl e) \<and> c' = reinsert key p c \<or> calm {key} c c'"
    and "r = Inr (k, prep, h) \<Longrightarrow> k = key"
proof -
  have same: "calm {key} c c" using calm_refl [OF assms(1)] by (auto simp: calm_def)
  obtain r1 c1 where r1: "ready_to_sign X now key p (Some chain) c = (r1, c1)" by force
  have ready: "calm {key} c c1" using calm_ready [OF assms(1,2) r1] .
  consider "pd_requires_raw_ack p \<and> \<not> ack" | "\<not> (pd_requires_raw_ack p \<and> \<not> ack)" "c' = c"
    | "\<not> (pd_requires_raw_ack p \<and> \<not> ack)" "c' = c1"
    using assms(3) r1
    by (auto simp: sign_taken_def split: prod.splits sum.splits if_splits)
  then show "(\<exists>e. r = Inl e) \<and> c' = reinsert key p c \<or> calm {key} c c'"
    using assms(3) same ready by cases (auto simp: sign_taken_def)
  show "k = key" if "r = Inr (k, prep, h)"
    using assms(3) that by (auto simp: sign_taken_def and_then_Inr_iff split: prod.splits sum.splits if_splits)
qed

text \<open>A signed transaction is parked, taken out again, recorded and sent.\<close>

lemma inv_unhold:
  assumes "cer_inv y" and "set h \<subseteq> set (y_held y)" and "distinct (map fst h)"
  shows "cer_inv (y\<lparr>y_held := h\<rparr>)"
proof -
  have s: "signed_ok y" and u: "unsigned_ok y" using assms(1) by (simp_all add: cer_inv_def)
  note d = signed_okD [OF s]
  have sub: "fst ` set h \<subseteq> fst ` set (y_held y)" using assms(2) by blast
  have "signed_ok (y\<lparr>y_held := h\<rparr>)"
  proof (rule signed_okI)
    have "fst ` set h \<inter> (fst ` set (y_sending y) \<union> fst ` set (y_sent y)) = {}"
      using d(1) sub by (auto del: imageE)
    then show "distinct (map fst (y_held (y\<lparr>y_held := h\<rparr>) @ y_sending (y\<lparr>y_held := h\<rparr>)) @ map fst (y_sent (y\<lparr>y_held := h\<rparr>)))"
      using d(1) assms(3) by simp
  qed (use d(2-5) assms(2) sub in \<open>auto del: imageE\<close>)
  then show ?thesis using u by (simp add: cer_inv_def unsigned_ok_def)
qed

lemma held_distinct: "cer_inv y \<Longrightarrow> distinct (map fst (y_held y))"
  by (simp add: cer_inv_def signed_ok_def)

lemma inv_unhold1: "cer_inv y \<Longrightarrow> cer_inv (y\<lparr>y_held := remove1 e (y_held y)\<rparr>)"
  by (intro inv_unhold set_remove1_subset distinct_remove1_fst held_distinct)

lemma unheld_key:
  assumes "cer_inv y" and "(key, tx) \<in> set (y_held y)"
  shows "key \<notin> set (map fst (remove1 (key, tx) (y_held y) @ y_sending y) @ map fst (y_sent y))"
    and "(key, Some tx) \<in> set (y_signed y)" and "live_prepared (y_cer y) key = None"
proof -
  have s: "signed_ok y" using assms(1) by (simp add: cer_inv_def)
  note d = signed_okD [OF s]
  have "key \<in> fst ` set (y_held y)" using assms(2) by force
  then show "key \<notin> set (map fst (remove1 (key, tx) (y_held y) @ y_sending y) @ map fst (y_sent y))"
    "live_prepared (y_cer y) key = None"
    using d(1) d(2) [of key] remove1_fst_gone [OF held_distinct [OF assms(1)] assms(2)] by auto
  show "(key, Some tx) \<in> set (y_signed y)" using d(3) assms(2) by simp
qed

lemma inv_park:
  assumes y: "cer_inv y" and h: "(key, prep) \<in> set (y_held y)"
  shows "cer_inv (y\<lparr>y_cer := park swept stamped key prep (y_cer y), y_held := remove1 (key, prep) (y_held y)\<rparr>)"
proof -
  let ?h = "remove1 (key, prep) (y_held y)" and ?c = "park swept stamped key prep (y_cer y)"
  let ?y = "y\<lparr>y_held := ?h\<rparr>"
  have y1: "cer_inv ?y" using inv_unhold1 [OF y] .
  then have s: "signed_ok ?y" and u: "unsigned_ok ?y" by (simp_all add: cer_inv_def)
  have wf: "bt_wf (c_prepared (y_cer y))" using inv_stores [OF y] by (simp add: stores_ok_def)
  have live: "live_prepared ?c k = Some tx \<longrightarrow> k = key \<and> tx = prep \<or> k \<noteq> key \<and> live_prepared (y_cer y) k = Some tx" for k tx
    using sweep_wf [OF wf] sweep_Live [OF wf]
    by (auto simp: park_def live_prepared_iff park_signed_def bt_get_insert Let_def split: if_splits)
  note d = signed_okD [OF s, simplified] and key = unheld_key [OF y h]
  have "live_prepared ?c k = None" if "k \<in> set (map fst (?h @ y_sending y) @ map fst (y_sent y))" for k
  proof -
    have "k \<noteq> key" using that key(1) by blast
    moreover have "live_prepared (y_cer y) k = None" using signed_okD(2) [OF s] that by simp
    ultimately show ?thesis using live [of k] by (cases "live_prepared ?c k") auto
  qed
  moreover have "(k, Some tx) \<in> set (y_signed y)" if "live_prepared ?c k = Some tx" for k tx
    using live [of k tx] that key(2) signed_okD(4) [OF s] by auto
  ultimately have "signed_ok (?y\<lparr>y_cer := ?c\<rparr>)"
    using signed_okD(1,3,5) [OF s] by (intro signed_okI) simp_all
  moreover have "unsigned_ok (?y\<lparr>y_cer := ?c\<rparr>)"
    using u wf by (simp add: unsigned_ok_def stores_ok_def pend_ok_def park_def park_signed_def Let_def bt_wf_insert sweep_wf)
  ultimately show ?thesis by (simp add: cer_inv_def cer_sys_updates)
qed

lemma inv_take_prepared:
  assumes y: "cer_inv y" and t: "take_prepared swept key (y_cer y) = (Inr tx, c')"
  shows "cer_inv (y\<lparr>y_cer := c', y_held := (key, tx) # y_held y\<rparr>)"
proof -
  have st: "stores_ok (y_cer y)" using inv_stores [OF y] .
  have i: "cer_inv (y\<lparr>y_cer := c'\<rparr>)" using inv_calm [OF y calm_take_prepared [OF st t]] .
  have s: "signed_ok y" using y by (simp add: cer_inv_def)
  have had: "live_prepared (y_cer y) key = Some tx" and gone: "live_prepared c' key = None"
    using prep.take_ok [OF _ t] prep.take_gone [OF _ t] st by (simp_all add: stores_ok_def)
  have "key \<notin> set (map fst (y_held y @ y_sending y) @ map fst (y_sent y))"
    using signed_okD(2) [OF s, of key] had by auto
  then have "signed_ok ((y\<lparr>y_cer := c'\<rparr>)\<lparr>y_held := (key, tx) # y_held (y\<lparr>y_cer := c'\<rparr>)\<rparr>)"
    using i gone signed_okD(4) [OF s had] by (intro signed_hold) (simp_all add: cer_inv_def)
  then show ?thesis using i by (simp add: cer_inv_def unsigned_ok_def)
qed

lemma inv_record:
  assumes y: "cer_inv y" and h: "(key, tx) \<in> set (y_held y)"
  shows "cer_inv (y\<lparr>y_held := remove1 (key, tx) (y_held y), y_sending := (key, tx) # y_sending y\<rparr>)"
proof -
  have y1: "cer_inv (y\<lparr>y_held := remove1 (key, tx) (y_held y)\<rparr>)" using inv_unhold1 [OF y] .
  then have s: "signed_ok (y\<lparr>y_held := remove1 (key, tx) (y_held y)\<rparr>)" by (simp add: cer_inv_def)
  note d = signed_okD [OF s] and k = unheld_key [OF y h]
  have "signed_ok (y\<lparr>y_held := remove1 (key, tx) (y_held y), y_sending := (key, tx) # y_sending y\<rparr>)"
    using d(1,5) d(2-4) k by (intro signed_okI) (auto del: imageE)
  then show ?thesis using y1 by (simp add: cer_inv_def unsigned_ok_def)
qed

lemma inv_transmit:
  assumes y: "cer_inv y" and h: "(key, tx) \<in> set (y_sending y)"
  shows "cer_inv (y\<lparr>y_sending := remove1 (key, tx) (y_sending y), y_sent := (key, pr_raw tx) # y_sent y\<rparr>)"
proof -
  let ?s = "remove1 (key, tx) (y_sending y)"
  have s: "signed_ok y" and u: "unsigned_ok y" using y by (simp_all add: cer_inv_def)
  note d = signed_okD [OF s]
  have dist: "distinct (map fst (y_sending y))" using d(1) by simp
  have sub: "set ?s \<subseteq> set (y_sending y)" by (rule set_remove1_subset)
  have key: "key \<in> fst ` set (y_sending y)" "(key, Some tx) \<in> set (y_signed y)" using h d(3) by force+
  have gone: "key \<notin> fst ` set ?s" using remove1_fst_gone [OF dist h] by simp
  have ids: "fst ` set ?s \<subseteq> fst ` set (y_sending y)" using sub by blast
  have "fst ` set (y_held y) \<inter> (insert key (fst ` set ?s) \<union> fst ` set (y_sent y)) = {}"
    "fst ` set ?s \<inter> fst ` set (y_sent y) = {}" "key \<notin> fst ` set (y_sent y)"
    using d(1) ids key(1) by (auto del: imageE)
  then have "distinct (map fst (y_held y @ ?s) @ map fst ((key, pr_raw tx) # y_sent y))"
    using d(1) distinct_remove1_fst [OF dist, of "(key, tx)"] gone by simp
  moreover have "live_prepared (y_cer y) k = None"
    if "k \<in> set (map fst (y_held y @ ?s) @ map fst ((key, pr_raw tx) # y_sent y))" for k
    using that ids key(1) by (intro d(2)) auto
  ultimately have "signed_ok (y\<lparr>y_sending := ?s, y_sent := (key, pr_raw tx) # y_sent y\<rparr>)"
    using d(3-5) sub key(2) by (intro signed_okI) auto
  then show ?thesis using u by (simp add: cer_inv_def unsigned_ok_def)
qed

lemma finish_effect:
  assumes y: "cer_inv y" and t: "(key, p) \<in> set (y_taken y)"
    and eff: "(\<exists>e. r = Inl e) \<and> c' = reinsert key p (y_cer y) \<or> calm {key} (y_cer y) c'"
  shows "cer_inv (y\<lparr>y_cer := c', y_taken := remove1 (key, p) (y_taken y)\<rparr>)"
    and "r = Inr v \<Longrightarrow> cer_inv (y\<lparr>y_cer := c', y_taken := remove1 (key, p) (y_taken y), y_signed := (key, None) # y_signed y\<rparr>)"
    and "r = Inr v \<Longrightarrow> cer_inv (y\<lparr>y_cer := c', y_taken := remove1 (key, p) (y_taken y),
      y_held := (key, tx) # y_held y, y_signed := (key, Some tx) # y_signed y\<rparr>)"
proof -
  show "cer_inv (y\<lparr>y_cer := c', y_taken := remove1 (key, p) (y_taken y)\<rparr>)"
    using eff inv_reinsert [OF y t] inv_finish(1) [OF y t] by auto
next
  assume "r = Inr v"
  then have c: "calm {key} (y_cer y) c'" using eff by auto
  note f = inv_finish [OF y t c]
  show "cer_inv (y\<lparr>y_cer := c', y_taken := remove1 (key, p) (y_taken y), y_signed := (key, None) # y_signed y\<rparr>)"
    using inv_sign_message [OF f(1), of key None] f(2-5) by simp
next
  assume "r = Inr v"
  then have c: "calm {key} (y_cer y) c'" using eff by auto
  note f = inv_finish [OF y t c]
  show "cer_inv (y\<lparr>y_cer := c', y_taken := remove1 (key, p) (y_taken y),
      y_held := (key, tx) # y_held y, y_signed := (key, Some tx) # y_signed y\<rparr>)"
    using inv_sign_tx [OF f(1), of key tx] f(2-5) by simp
qed

lemma inv_take_live:
  assumes y: "cer_inv y" and t: "take_live now key (y_cer y) = (Inr p, c')"
  shows "cer_inv (y\<lparr>y_cer := c', y_taken := (key, p) # y_taken y\<rparr>)"
proof -
  have st: "stores_ok (y_cer y)" using inv_stores [OF y] .
  have ok: "pend_ok (y_cer y)" using st by (simp add: stores_ok_def)
  have i: "cer_inv (y\<lparr>y_cer := c'\<rparr>)" using inv_calm [OF y calm_take_live [OF st t]] .
  have u: "unsigned_ok y" using y by (simp add: cer_inv_def)
  have p: "bt_get key (pending_map (y_cer y)) = Some p" using pend.take_ok [OF ok t] by simp
  have gone: "bt_get key (pending_map c') = None" using take_live_gone [OF ok t] .
  have nexp: "key \<notin> expired_ids (c_book c')"
    using t by (cases rule: take_live_cases)
      (use live_ok [OF ok, of now] in \<open>auto simp: pend_ok_def expired_ids_def book_is_expired_iff\<close>)
  have new: "key \<notin> fst ` set (y_taken y)" "key \<notin> fst ` set (y_signed y)"
    using unsigned_okD(4,6) [OF u, of key] p by auto
  have low: "key < c_next_id c'"
    using unsigned_okD(8) [OF u, of key] p calm_take_live [OF st t] by (simp add: calm_def)
  have "unsigned_ok (y\<lparr>y_cer := c', y_taken := (key, p) # y_taken y\<rparr>)"
    using i gone nexp new low by (simp add: cer_inv_def unsigned_ok_def) blast
  then show ?thesis using i by (simp add: cer_inv_def signed_ok_def)
qed

lemma send_record_calm:
  assumes "stores_ok c" and "send_record X C F tx at (c, D) = (r, c', D')"
  shows "calm {} c c'"
  using assms by (intro calm_same) (auto simp: send_record_def Let_def split: prod.splits)

lemma send_refused_calm:
  assumes "stores_ok c" and "send_refused X C F tx first e (c, D) = (err, c', D')"
  shows "calm {} c c'"
  using assms by (intro calm_same) (auto simp: send_refused_def Let_def split: prod.splits if_splits)

lemma inv_dir [simp]: "cer_inv (y\<lparr>y_dir := D\<rparr>) = cer_inv y"
  by (simp add: cer_inv_def unsigned_ok_def signed_ok_def)

lemma taken_None: "cer_inv y \<Longrightarrow> (key, p) \<in> set (y_taken y) \<Longrightarrow> bt_get key (pending_map (y_cer y)) = None"
  using unsigned_okD(4) by (force simp: cer_inv_def)

lemma cer_step_inv:
  assumes "cer_step X K C y y'" and y: "cer_inv y"
  shows "cer_inv y'"
  using assms(1)
proof cases
  case (finish_message key p R V ack now r c')
  note f = finish_effect [OF y finish_message(2) approve_taken_effect [OF inv_stores [OF y] taken_None [OF y finish_message(2)] finish_message(3)]]
  show ?thesis using f(1,2) finish_message(1) by (cases r) simp_all
next
  case (finish_tx key p R VR ack chain gate now cl r c' cl')
  note e = sign_taken_effect [OF inv_stores [OF y] taken_None [OF y finish_tx(2)] finish_tx(3)]
  note f = finish_effect [OF y finish_tx(2) e(1)]
  show ?thesis
  proof (cases r)
    case (Inr v)
    obtain k prep h where v: "v = (k, prep, h)" by (cases v) auto
    then have "k = key" using e(2) Inr by blast
    then show ?thesis using f(3) [OF Inr, of prep] finish_tx(1) Inr v by simp
  qed (use f(1) finish_tx(1) in simp)
next
  case (record_tx key tx F at r c' D')
  let ?y = "y\<lparr>y_cer := c', y_dir := D'\<rparr>"
  have y1: "cer_inv ?y" using inv_calm [OF y send_record_calm [OF inv_stores [OF y] record_tx(3)]] by simp
  show ?thesis
    using inv_unhold1 [OF y1, of "(key, tx)"] inv_record [OF y1, of key tx] record_tx(1,2) by (cases r) simp_all
next
  case (drop_req key p)
  have "calm {key} (y_cer y) (y_cer y)" using calm_refl [OF inv_stores [OF y]] by (auto simp: calm_def)
  then show ?thesis using inv_finish(1) [OF y drop_req(2), of "y_cer y"] drop_req(1) by (simp add: cer_sys_updates)
next
  case (register_abi addr abi)
  then show ?thesis
    using inv_calm [OF y calm_same [OF inv_stores [OF y]]] by (simp add: register_gated_contract_def)
next
  case (settle F tx first e err c' D')
  then show ?thesis using inv_calm [OF y send_refused_calm [OF inv_stores [OF y] settle(2)]] by simp
next
  case (look now)
  then show ?thesis using inv_calm [OF y calm_live [OF inv_stores [OF y]]] by simp
next
  case (take_none now key e c')
  then show ?thesis using inv_calm [OF y calm_take_live [OF inv_stores [OF y]]] by simp
next
  case (take_prep_none swept key e c')
  then show ?thesis using inv_calm [OF y calm_take_prepared [OF inv_stores [OF y]]] by simp
next
  case (discard_prep c1 a b key held m)
  then show ?thesis using inv_calm [OF y calm_discard [OF inv_stores [OF y]]] by simp
qed (simp_all add: inv_open y inv_take_live inv_park inv_take_prepared inv_transmit)

lemma cer_run_inv: "cer_run X K C y \<Longrightarrow> cer_inv y"
proof (induction rule: cer_run.induct)
  case (start L os wall_ms D)
  show ?case
    by (simp add: cer_inv_def unsigned_ok_def signed_ok_def stores_ok_def pend_ok_def cer_start_def live_prepared_def
        with_submitted_log_def ceremony_new_def with_clock_def Let_def book_default_def expired_ids_def bt_get_def)
qed (rule cer_step_inv)

section \<open>One approval, one signature, one send\<close>

text \<open>
  C1. One approval, one signature, one send. However the calls of any number of callers interleave
  (requests, approvals, rejections, retries after a missing acknowledgement, prepared and direct
  sends), an id is signed at most once and sent at most once, what is sent under an id is exactly
  the transaction signed under it, and a signed id is neither pending nor held by another approval.
\<close>

theorem one_approval_one_signature:
  assumes "cer_run X K C y"
  shows "distinct (map fst (y_signed y)) \<and> distinct (map fst (y_sent y)) \<and>
    (\<forall>(k, raw)\<in>set (y_sent y). \<exists>tx. (k, Some tx) \<in> set (y_signed y) \<and> pr_raw tx = raw) \<and>
    (\<forall>k\<in>fst ` set (y_signed y). bt_get k (pending_map (y_cer y)) = None \<and> k \<notin> fst ` set (y_taken y))"
  using cer_run_inv [OF assms] by (simp add: cer_inv_def unsigned_ok_def signed_ok_def)

abbreviation cer_steps :: "'x deps_scheme \<Rightarrow> wallet_crypto \<Rightarrow> log_codec \<Rightarrow> cer_sys \<Rightarrow> cer_sys \<Rightarrow> bool" where
  "cer_steps X K C \<equiv> rtranclp (cer_step X K C)"

lemma two_steps: "cer_step X K C y y1 \<Longrightarrow> cer_step X K C y1 y2 \<Longrightarrow> cer_steps X K C y y2"
  by (rule converse_rtranclp_into_rtranclp [OF _ r_into_rtranclp])

lemma approve_runs:
  assumes "approve X K R V s ack n0 n1 (y_cer y) = (r, c')"
  shows "\<exists>y'. cer_steps X K C y y' \<and> y_cer y' = c' \<and> length (y_signed y') = length (y_signed y) + (case r of Inl e \<Rightarrow> 0 | Inr sg \<Rightarrow> 1)"
proof (cases "parse_id s")
  case None
  then show ?thesis using assms by (intro exI [of _ y]) (auto simp: approve_def rpc_then_def)
next
  case (Some key)
  obtain t c1 where t: "take_live n0 key (y_cer y) = (t, c1)" by force
  show ?thesis
  proof (cases t)
    case (Inl e)
    then have "cer_step X K C y (y\<lparr>y_cer := c1\<rparr>)" using t take_none by blast
    then show ?thesis using assms Some t Inl by (intro exI [of _ "y\<lparr>y_cer := c1\<rparr>"]) (auto simp: approve_def rpc_then_def)
  next
    case (Inr p)
    let ?y1 = "y\<lparr>y_cer := c1, y_taken := (key, p) # y_taken y\<rparr>"
    have a: "approve_taken X K R V ack n1 key p (y_cer ?y1) = (r, c')"
      using assms Some t Inr by (simp add: approve_def rpc_then_def)
    have s1: "cer_step X K C y ?y1" using t Inr take_req by blast
    let ?y2 = "?y1\<lparr>y_cer := c', y_taken := remove1 (key, p) (y_taken ?y1),
      y_signed := (case r of Inl e \<Rightarrow> y_signed ?y1 | Inr sig \<Rightarrow> (key, None) # y_signed ?y1)\<rparr>"
    have s2: "cer_step X K C ?y1 ?y2" by (rule finish_message [OF _ a]) simp
    have "cer_steps X K C y ?y2" using s1 s2 by (rule two_steps)
    then show ?thesis by (intro exI [of _ ?y2]) (simp split: sum.splits)
  qed
qed

lemma sign_consumed_runs:
  assumes "sign_consumed X K R V s ack chain gate n0 n1 (y_cer y, cl) = (r, c', cl')"
  shows "\<exists>y'. cer_steps X K C y y' \<and> y_cer y' = c' \<and> y_dir y' = y_dir y \<and> y_sent y' = y_sent y \<and>
    y_held y' = (case r of Inl e \<Rightarrow> y_held y | Inr (k, prep, h) \<Rightarrow> (k, prep) # y_held y) \<and>
    y_signed y' = (case r of Inl e \<Rightarrow> y_signed y | Inr (k, prep, h) \<Rightarrow> (k, Some prep) # y_signed y)"
proof (cases "parse_id s")
  case None
  then show ?thesis using assms by (intro exI [of _ y]) (auto simp: sign_consumed_def rpc_then_def)
next
  case (Some key)
  obtain t c1 where t: "take_live n0 key (y_cer y) = (t, c1)" by force
  show ?thesis
  proof (cases t)
    case (Inl e)
    then have "cer_step X K C y (y\<lparr>y_cer := c1\<rparr>)" using t take_none by blast
    then show ?thesis
      using assms Some t Inl by (intro exI [of _ "y\<lparr>y_cer := c1\<rparr>"]) (auto simp: sign_consumed_def rpc_then_def)
  next
    case (Inr p)
    let ?y1 = "y\<lparr>y_cer := c1, y_taken := (key, p) # y_taken y\<rparr>"
    have a: "sign_taken X K R V ack chain gate n1 key p (y_cer ?y1, cl) = (r, c', cl')"
      using assms Some t Inr by (simp add: sign_consumed_def rpc_then_def)
    have s1: "cer_step X K C y ?y1" using t Inr take_req by blast
    let ?y2 = "?y1\<lparr>y_cer := c', y_taken := remove1 (key, p) (y_taken ?y1),
      y_held := (case r of Inl e \<Rightarrow> y_held ?y1 | Inr (k, prep, h) \<Rightarrow> (k, prep) # y_held ?y1),
      y_signed := (case r of Inl e \<Rightarrow> y_signed ?y1 | Inr (k, prep, h) \<Rightarrow> (k, Some prep) # y_signed ?y1)\<rparr>"
    have s2: "cer_step X K C ?y1 ?y2" by (rule finish_tx [OF _ a]) simp
    show ?thesis using two_steps [OF s1 s2] by (intro exI [of _ ?y2]) (simp split: sum.split prod.split)
  qed
qed

lemma send_signed_runs:
  assumes "(key, tx) \<in> set (y_held y)" and "send_signed X C F F' R tx cfg gate at (y_cer y, cl, y_dir y) = (r, c', cl', D')"
  shows "\<exists>y'. cer_steps X K C y y' \<and> y_cer y' = c' \<and> y_dir y' = D' \<and> y_signed y' = y_signed y \<and>
    length (y_sent y') \<le> Suc (length (y_sent y))"
proof -
  obtain q c1 D1 where q: "send_record X C F tx at (y_cer y, y_dir y) = (q, c1, D1)" by (metis prod_cases3)
  let ?y1 = "y\<lparr>y_cer := c1, y_dir := D1, y_held := remove1 (key, tx) (y_held y),
      y_sending := (case q of Inl e \<Rightarrow> y_sending y | Inr first \<Rightarrow> (key, tx) # y_sending y)\<rparr>"
  have s1: "cer_step X K C y ?y1" by (rule record_tx [OF assms(1) q])
  show ?thesis
  proof (cases q)
    case (Inl e)
    then show ?thesis
      using assms(2) q s1 by (intro exI [of _ ?y1]) (simp add: send_signed_def r_into_rtranclp)
  next
    case (Inr first)
    let ?y2 = "?y1\<lparr>y_sending := remove1 (key, tx) (y_sending ?y1), y_sent := (key, pr_raw tx) # y_sent ?y1\<rparr>"
    have s2: "cer_step X K C ?y1 ?y2" by (rule transmit) (simp add: Inr)
    obtain w cl1 where w: "send_raw_transaction_gated X R (pr_raw tx) gate cl = (w, cl1)" by force
    show ?thesis
    proof (cases w)
      case (Inr h)
      then have "c' = c1" "D' = D1"
        using assms(2) q \<open>q = Inr first\<close> w by (auto simp: send_signed_def Let_def split: prod.splits)
      moreover have "cer_steps X K C y ?y2" using s1 s2 by (rule two_steps)
      ultimately show ?thesis by (intro exI [of _ ?y2]) simp
    next
      case (Inl e)
      obtain err c2 D2 where f: "send_refused X C F' tx first e (y_cer ?y2, y_dir ?y2) = (err, c2, D2)" by (metis prod_cases3)
      let ?y3 = "?y2\<lparr>y_cer := c2, y_dir := D2\<rparr>"
      have s3: "cer_step X K C ?y2 ?y3" by (rule settle [OF f])
      have "c' = c2" "D' = D2" using assms(2) q \<open>q = Inr first\<close> w Inl f by (simp_all add: send_signed_def)
      moreover have "cer_steps X K C y ?y3" using two_steps [OF s1 s2] s3 by (rule rtranclp.rtrancl_into_rtrancl)
      ultimately show ?thesis by (intro exI [of _ ?y3]) simp
    qed
  qed
qed

lemma take_prepared_step:
  assumes "take_prepared swept key (y_cer y) = (t, c1)"
  shows "cer_step X K C y (y\<lparr>y_cer := c1, y_held := (case t of Inl e \<Rightarrow> y_held y | Inr tx \<Rightarrow> (key, tx) # y_held y)\<rparr>)"
proof (cases t)
  case (Inl e)
  have "cer_step X K C y (y\<lparr>y_cer := c1\<rparr>)" using take_prep_none assms Inl by blast
  then show ?thesis by (simp add: Inl)
next
  case (Inr tx)
  then show ?thesis using take_prep assms by simp
qed

lemma approve_and_sign_runs:
  assumes a: "approve_and_sign X K R VR s ack chain n0 n1 swept stamped (y_cer y, cl) = (r2, c', cl')"
  shows "\<exists>y'. cer_steps X K C y y' \<and> y_cer y' = c' \<and> y_sent y' = y_sent y \<and>
      length (y_signed y') = length (y_signed y) + (case r2 of Inl e \<Rightarrow> 0 | Inr h \<Rightarrow> 1)"
proof -
  obtain q c1 cl1 where q: "sign_consumed X K R VR s ack chain (ng_installed (re_gates R)) n0 n1 (y_cer y, cl) = (q, c1, cl1)"
    by (metis prod_cases3)
  obtain y1 where y1: "cer_steps X K C y y1" "y_cer y1 = c1" "y_sent y1 = y_sent y"
    "y_held y1 = (case q of Inl e \<Rightarrow> y_held y | Inr (k, prep, h) \<Rightarrow> (k, prep) # y_held y)"
    "y_signed y1 = (case q of Inl e \<Rightarrow> y_signed y | Inr (k, prep, h) \<Rightarrow> (k, Some prep) # y_signed y)"
    using sign_consumed_runs [OF q] by blast
  show ?thesis
  proof (cases q)
    case (Inl e)
    then show ?thesis using a q y1 by (intro exI [of _ y1]) (auto simp: approve_and_sign_def rpc_then_def)
  next
    case (Inr v)
    obtain key prep h where v: "v = (key, prep, h)" by (cases v) auto
    let ?y2 = "y1\<lparr>y_cer := park swept stamped key prep (y_cer y1), y_held := remove1 (key, prep) (y_held y1)\<rparr>"
    have "cer_step X K C y1 ?y2" by (rule park_tx) (simp add: y1(4) Inr v)
    then have "cer_steps X K C y ?y2" using y1(1) by (rule rtranclp.rtrancl_into_rtrancl [rotated])
    then show ?thesis
      using a q y1(2,3,5) Inr v by (intro exI [of _ ?y2]) (auto simp: approve_and_sign_def rpc_then_def)
  qed
qed

lemma send_prepared_runs:
  assumes a: "send_prepared X C F F' R s cfg swept at (y_cer y, cl, y_dir y) = (r3, c', cl', D')"
  shows "\<exists>y'. cer_steps X K C y y' \<and> y_cer y' = c' \<and> y_dir y' = D' \<and> y_signed y' = y_signed y \<and>
      length (y_sent y') \<le> Suc (length (y_sent y))"
proof -
  show ?thesis
  proof (cases "parse_id s")
    case None
    then show ?thesis using a by (intro exI [of _ y]) (auto simp: send_prepared_def rpc_then_def)
  next
    case (Some key)
    obtain t c1 where t: "take_prepared swept key (y_cer y) = (t, c1)" by force
    note s1 = take_prepared_step [OF t, of X K C]
    show ?thesis
    proof (cases t)
      case (Inl e)
      then show ?thesis
        using a Some t s1
        by (intro exI [of _ "y\<lparr>y_cer := c1\<rparr>"]) (auto simp: send_prepared_def rpc_then_def)
    next
      case (Inr tx)
      let ?y1 = "y\<lparr>y_cer := c1, y_held := (key, tx) # y_held y\<rparr>"
      have "send_signed X C F F' R tx cfg (ng_installed (re_gates R)) at (y_cer ?y1, cl, y_dir ?y1) = (r3, c', cl', D')"
        using a Some t Inr by (simp add: send_prepared_def rpc_then_def)
      from send_signed_runs [OF _ this, of key K] obtain y2 where
        "cer_steps X K C ?y1 y2" "y_cer y2 = c'" "y_dir y2 = D'" "y_signed y2 = y_signed ?y1"
        "length (y_sent y2) \<le> Suc (length (y_sent ?y1))" by auto
      moreover have "cer_step X K C y ?y1" using s1 by (simp add: Inr)
      ultimately show ?thesis by (intro exI [of _ y2]) (auto intro: converse_rtranclp_into_rtranclp)
    qed
  qed
qed

lemma broadcast_runs:
  assumes a: "approve_and_broadcast_gated X K C F F' R VR s ack cfg gate n0 n1 at (y_cer y, cl, y_dir y) = (r3, c', cl', D')"
  shows "\<exists>y'. cer_steps X K C y y' \<and> y_cer y' = c' \<and> y_dir y' = D' \<and>
      length (y_signed y') \<le> Suc (length (y_signed y)) \<and> length (y_sent y') \<le> Suc (length (y_sent y))"
proof -
  obtain q c1 cl1 where q: "sign_consumed X K R VR s ack (bc_chain_id cfg) gate n0 n1 (y_cer y, cl) = (q, c1, cl1)"
    by (metis prod_cases3)
  obtain y1 where y1: "cer_steps X K C y y1" "y_cer y1 = c1" "y_dir y1 = y_dir y" "y_sent y1 = y_sent y"
    "y_held y1 = (case q of Inl e \<Rightarrow> y_held y | Inr (k, prep, h) \<Rightarrow> (k, prep) # y_held y)"
    "y_signed y1 = (case q of Inl e \<Rightarrow> y_signed y | Inr (k, prep, h) \<Rightarrow> (k, Some prep) # y_signed y)"
    using sign_consumed_runs [OF q] by blast
  show ?thesis
  proof (cases q)
    case (Inl e)
    then show ?thesis using a q y1 by (intro exI [of _ y1]) (auto simp: approve_and_broadcast_gated_def)
  next
    case (Inr v)
    obtain key prep h where v: "v = (key, prep, h)" by (cases v) auto
    have "send_signed X C F F' R prep cfg gate at (y_cer y1, cl1, y_dir y1) = (r3, c', cl', D')"
      using a q y1 Inr v by (simp add: approve_and_broadcast_gated_def)
    from send_signed_runs [OF _ this, of key K] obtain y2 where
      "cer_steps X K C y1 y2" "y_cer y2 = c'" "y_dir y2 = D'" "y_signed y2 = y_signed y1"
      "length (y_sent y2) \<le> Suc (length (y_sent y1))" using y1(5) Inr v by auto
    then show ?thesis using y1 Inr v by (intro exI [of _ y2]) auto
  qed
qed


end
