(* ===== verification/CeremonyProps.thy ===== *)
theory CeremonyProps
  imports CeremonyRun SubmittedLogProps WebBudgetStore
begin

text \<open>
  The properties of single calls of the ceremony: what a signature of a message or of a transaction
  rests on, what every refusal leaves behind, expiry, that \<open>not submitted\<close> is only said when it is
  true, and that the budgeted path never drops a request.
\<close>

section \<open>Chains a message names\<close>

lemma scope_of_lines_found:
  "scope_of_lines (Some c) ls =
     (case chain_ids_of_lines (Some c) ls of Inl e \<Rightarrow> Chain 0 | Inr cs \<Rightarrow> Chain c)"
  if "c \<noteq> 0 \<or> (\<forall>l\<in>set ls. \<forall>v. chain_line l = Some v \<longrightarrow> parse_u64 v \<noteq> None)"
  using that
proof (induction ls)
  case (Cons l ls)
  show ?case
  proof (cases "chain_line l")
    case None
    then show ?thesis using Cons by simp
  next
    case (Some v)
    then show ?thesis using Cons by (cases "parse_u64 v") auto
  qed
qed simp

lemma scope_of_lines_zero: "scope_of_lines (Some 0) ls = Chain 0"
  by (induction ls) (auto split: option.splits)

lemma ids_of_lines_found: "chain_ids_of_lines (Some c) ls = Inr cs \<Longrightarrow> cs = [c]"
  by (induction ls) (auto split: option.splits if_splits)

lemma scope_of_lines_ids:
  "scope_of_lines None ls =
     (case chain_ids_of_lines None ls of Inl e \<Rightarrow> Chain 0 | Inr [] \<Rightarrow> Unbound | Inr (c # cs) \<Rightarrow> Chain c)"
proof (induction ls)
  case (Cons l ls)
  show ?case
  proof (cases "chain_line l")
    case None
    then show ?thesis using Cons by simp
  next
    case (Some v)
    show ?thesis
    proof (cases "parse_u64 v")
      case None
      then show ?thesis using Some scope_of_lines_zero by simp
    next
      case (Some c)
      have "scope_of_lines (Some c) ls =
          (case chain_ids_of_lines (Some c) ls of Inl e \<Rightarrow> Chain 0 | Inr cs \<Rightarrow> Chain c)"
      proof (cases "c = 0")
        case True
        then show ?thesis using scope_of_lines_zero by (simp split: sum.splits)
      next
        case False
        then show ?thesis by (intro scope_of_lines_found) simp
      qed
      then show ?thesis
        using \<open>chain_line l = Some v\<close> Some ids_of_lines_found [of c ls] by (auto split: sum.splits)
    qed
  qed
qed simp

text \<open>
  The signer's gate and the card agree on the chain a message names: the wallet's scope of a
  message is chain 0, which no network has, exactly when the ceremony finds the chain unreadable or
  ambiguous, it is unbound exactly when the ceremony finds no chain, and otherwise both find the same chain.
\<close>

theorem message_scope_matches_card:
  "personal_message_scope m =
     (case message_chain_ids m of Inl e \<Rightarrow> Chain 0 | Inr [] \<Rightarrow> Unbound | Inr (c # cs) \<Rightarrow> Chain c)"
  by (simp add: personal_message_scope_def message_chain_ids_def scope_of_lines_ids)

section \<open>Message approvals\<close>

lemma run_pend_ok: "cer_run X K C y \<Longrightarrow> pend_ok (y_cer y)"
  using cer_run_inv by (fastforce simp: cer_inv_def unsigned_ok_def stores_ok_def)

lemma ready_to_sign_Inr:
  assumes "ready_to_sign X now key p sc c = (Inr chain, c')"
  shows "c' = c" and "\<not> outlived (c_ttl c) (pd_created p) now" and "chain = si_chain_id (pd_intent p)"
    and "\<exists>named. committed_chain X (pd_intent p) sc = Inr named \<and> set named \<subseteq> {si_chain_id (pd_intent p)}"
proof -
  have o: "\<not> outlived (c_ttl c) (pd_created p) now"
    using assms by (auto simp: ready_to_sign_def)
  obtain named where n: "committed_chain X (pd_intent p) sc = Inr named"
    using assms o by (auto simp: ready_to_sign_def Let_def split: sum.splits)
  have f: "find (\<lambda>n. n \<noteq> si_chain_id (pd_intent p)) named = None"
    using assms o n by (auto simp: ready_to_sign_def Let_def split: option.splits)
  then show "c' = c" "chain = si_chain_id (pd_intent p)"
    using assms o n by (auto simp: ready_to_sign_def Let_def)
  show "\<not> outlived (c_ttl c) (pd_created p) now" by (rule o)
  show "\<exists>named. committed_chain X (pd_intent p) sc = Inr named \<and> set named \<subseteq> {si_chain_id (pd_intent p)}"
    using n f by (auto simp: find_None_iff)
qed

lemma take_live_ttl: "take_live now key c = (r, c') \<Longrightarrow> c_ttl c' = c_ttl c"
  by (cases rule: take_live_cases) auto

text \<open>
  C2. What a message signature rests on. A signature under an id is made only for a request that was
  pending under exactly that id, had not outlived its time at the take nor at the signature by the
  monotonic or the wall clock, was acknowledged in raw form if it could not be decoded, is a
  \<open>personal_sign\<close>, and names no chain other than the one shown on its card; it is the EIP-191 signature of
  exactly the bytes requested, and the request is gone afterwards.
\<close>

theorem approve_sound:
  assumes "cer_run X K C y" and "y_cer y = c" and "approve X K R V s raw_ack now0 now1 c = (Inr sg, c')"
  shows "\<exists>key p message sig. parse_id s = Some key \<and> bt_get key (pending_map c) = Some p \<and>
    \<not> outlived (c_ttl c) (pd_created p) now0 \<and> \<not> outlived (c_ttl c) (pd_created p) now1 \<and>
    (pd_requires_raw_ack p \<longrightarrow> raw_ack) \<and> si_kind (pd_intent p) = PersonalSign \<and>
    payload_bytes X (si_raw (pd_intent p)) = Some message \<and>
    (\<exists>named. message_chain_ids message = Inr named \<and> set named \<subseteq> {si_chain_id (pd_intent p)}) \<and>
    sign_personal X K R V message = Inr sig \<and> sg = \<lparr>sg_sig_hex = hex_encode X sig, sg_kind = PersonalSign\<rparr> \<and>
    bt_get key (pending_map c') = None"
proof -
  have ok: "pend_ok c" using run_pend_ok [OF assms(1)] assms(2) by simp
  obtain key p c1 where k: "parse_id s = Some key" and t: "take_live now0 key c = (Inr p, c1)"
    and a: "approve_taken X K R V raw_ack now1 key p c1 = (Inr sg, c')"
    using assms(3) by (cases "parse_id s") (auto simp: approve_def rpc_then_Inr rpc_then_def split: prod.splits sum.splits)
  have p: "bt_get key (pending_map c) = Some p" "\<not> outlived (c_ttl c) (pd_created p) now0"
    using pend.take_ok [OF ok t] by (auto simp: pending_stale_def)
  have ack: "pd_requires_raw_ack p \<longrightarrow> raw_ack" using a by (cases raw_ack) (auto simp: approve_taken_def)
  obtain m where m: "payload_bytes X (si_raw (pd_intent p)) = Some m"
    using a ack by (cases "payload_bytes X (si_raw (pd_intent p))") (auto simp: approve_taken_def)
  have kind: "si_kind (pd_intent p) = PersonalSign"
    using a ack m by (cases "si_kind (pd_intent p)") (auto simp: approve_taken_def)
  obtain ch c2 sig where r: "ready_to_sign X now1 key p None c1 = (Inr ch, c2)"
    and sig: "sign_personal X K R V m = Inr sig" "sg = \<lparr>sg_sig_hex = hex_encode X sig, sg_kind = PersonalSign\<rparr>" "c' = c2"
    using a ack m kind by (auto simp: approve_taken_def rpc_then_Inr map_err_Inr_iff)
  note rd = ready_to_sign_Inr [OF r]
  have "\<exists>named. message_chain_ids m = Inr named \<and> set named \<subseteq> {si_chain_id (pd_intent p)}"
    using rd(4) kind m by (simp add: committed_chain_def)
  moreover have "bt_get key (pending_map c') = None"
    using rd(1) sig(3) take_live_gone [OF ok t] by simp
  ultimately show ?thesis
    using k p ack m kind sig(1,2) rd(2) take_live_ttl [OF t] by auto
qed

text \<open>What a pending request's card says, and that opening a request makes such a card.\<close>

definition card_ok :: "'x deps_scheme \<Rightarrow> Pending \<Rightarrow> bool" where
  "card_ok X p \<longleftrightarrow> (\<exists>abis. p = new_pending X (pd_intent p) (pd_created p) abis)"

lemma new_pending_card: "card_ok X (new_pending X intent created abis)"
  unfolding card_ok_def by (intro exI [of _ abis]) (simp add: new_pending_def Let_def)

lemma card_transaction:
  assumes "card_ok X p" and "si_kind (pd_intent p) = Transaction" and "decode_transaction X (si_raw (pd_intent p)) = Some (tx, d)"
  shows "da_cost (pd_decoded p) = td_cost d" and "da_destination (pd_decoded p) = td_destination d"
    and "pd_requires_raw_ack p = (da_action (pd_decoded p) = UNRECOGNIZED_ACTION)"
    and "da_action (pd_decoded p) = td_action d \<or>
      td_action d = UNRECOGNIZED_ACTION \<and> (\<exists>abi to call. tx_to tx = Some to \<and>
        decode_call X abi (tx_data tx) (tx_value tx) = Some call \<and>
        da_action (pd_decoded p) = ''Call '' @ call @ '' on '' @ ca_name abi @ '' at '' @ td_destination d
          @ '' (a contract you deployed from a READY gated build; value '' @ show_nat (tx_value tx) @ '' wei)'')"
proof -
  obtain abis where p: "p = new_pending X (pd_intent p) (pd_created p) abis" using assms(1) by (auto simp: card_ok_def)
  have dec: "pd_decoded p = decode_with_book X abis (pd_intent p)"
    and ack: "pd_requires_raw_ack p = (da_action (pd_decoded p) = UNRECOGNIZED_ACTION)"
    by (subst (1) p, simp add: new_pending_def Let_def) (subst (1 2) p, simp add: new_pending_def Let_def)
  have i: "decode_intent X (pd_intent p) =
      \<lparr>da_action = td_action d, da_cost = td_cost d, da_destination = td_destination d\<rparr>"
    using assms(2,3) by (simp add: decode_intent_def decode_transaction_intent_def)
  show "pd_requires_raw_ack p = (da_action (pd_decoded p) = UNRECOGNIZED_ACTION)" by (rule ack)
  show "da_cost (pd_decoded p) = td_cost d" "da_destination (pd_decoded p) = td_destination d"
    unfolding dec decode_with_book_def Let_def using assms(2,3) i by (auto split: option.splits)
  show "da_action (pd_decoded p) = td_action d \<or>
      td_action d = UNRECOGNIZED_ACTION \<and> (\<exists>abi to call. tx_to tx = Some to \<and>
        decode_call X abi (tx_data tx) (tx_value tx) = Some call \<and>
        da_action (pd_decoded p) = ''Call '' @ call @ '' on '' @ ca_name abi @ '' at '' @ td_destination d
          @ '' (a contract you deployed from a READY gated build; value '' @ show_nat (tx_value tx) @ '' wei)'')"
    unfolding dec decode_with_book_def Let_def using assms(2,3) i
    by (cases "td_action d = UNRECOGNIZED_ACTION") (auto split: option.splits)
qed

lemma card_calm:
  assumes "calm A c c'" and "\<forall>k p. bt_get k (pending_map c) = Some p \<longrightarrow> card_ok X p"
  shows "\<forall>k p. bt_get k (pending_map c') = Some p \<longrightarrow> card_ok X p"
  using assms by (auto simp: calm_def)

lemma reinsert_get:
  "bt_wf (pending_map c) \<Longrightarrow> bt_get k (pending_map (reinsert key p c)) = (if k = key then Some p else bt_get k (pending_map c))"
  by (simp add: reinsert_def bt_get_insert)

lemma card_finish:
  assumes y: "cer_inv y" and t: "(key, p) \<in> set (y_taken y)"
    and eff: "(\<exists>e. r = Inl e) \<and> c' = reinsert key p (y_cer y) \<or> calm {key} (y_cer y) c'"
    and cards: "\<forall>k p. bt_get k (pending_map (y_cer y)) = Some p \<longrightarrow> card_ok X p" "\<forall>(k, p)\<in>set (y_taken y). card_ok X p"
  shows "\<forall>k p. bt_get k (pending_map c') = Some p \<longrightarrow> card_ok X p"
    and "\<forall>(k, p)\<in>set (remove1 e (y_taken y)). card_ok X p"
proof -
  have wf: "bt_wf (pending_map (y_cer y))" using inv_stores [OF y] by (simp add: stores_ok_def pend_ok_def)
  have "card_ok X p" using t cards(2) by auto
  then show "\<forall>k p. bt_get k (pending_map c') = Some p \<longrightarrow> card_ok X p"
    using eff cards(1) card_calm [OF _ cards(1)] by (auto simp: reinsert_get [OF wf] split: if_splits)
  show "\<forall>(k, p)\<in>set (remove1 e (y_taken y)). card_ok X p" using cards(2) set_remove1_subset [of e "y_taken y"] by auto
qed

lemma card_open:
  assumes y: "cer_inv y" and o: "open_request X intent w t0 t1 (y_cer y) = (v, c')"
    and cards: "\<forall>k p. bt_get k (pending_map (y_cer y)) = Some p \<longrightarrow> card_ok X p"
  shows "\<forall>k p. bt_get k (pending_map c') = Some p \<longrightarrow> card_ok X p"
proof -
  let ?c = "(y_cer y)\<lparr>c_next_id := wrap_inc (c_next_id (y_cer y))\<rparr>"
  have wf: "bt_wf (pending_map (y_cer y))" using inv_stores [OF y] by (simp add: stores_ok_def pend_ok_def)
  have "pending_map c' = bt_insert (c_next_id (y_cer y)) (new_pending X intent t0 (c_abis (y_cer y))) (pending_map (live t1 ?c))"
    using o by (auto simp: open_request_def Let_def watch_facts)
  moreover have "bt_wf (pending_map (live t1 ?c))" using live_book(1) [of ?c t1] wf by (simp add: bt_wf_filter)
  moreover have "bt_get k (pending_map (live t1 ?c)) = Some p \<Longrightarrow> bt_get k (pending_map (y_cer y)) = Some p" for k p
    using live_get [of ?c k t1 p] wf by simp
  ultimately show ?thesis using cards new_pending_card by (auto simp: bt_get_insert split: if_splits)
qed

lemma step_cards:
  assumes st: "cer_step X K C y y'" and y: "cer_inv y"
    and cards: "\<forall>k p. bt_get k (pending_map (y_cer y)) = Some p \<longrightarrow> card_ok X p" "\<forall>(k, p)\<in>set (y_taken y). card_ok X p"
  shows "(\<forall>k p. bt_get k (pending_map (y_cer y')) = Some p \<longrightarrow> card_ok X p) \<and> (\<forall>(k, p)\<in>set (y_taken y'). card_ok X p)"
proof -
  note ok = inv_stores [OF y]
  from st show ?thesis
  proof cases
    case (open_req intent w t0 t1 v c')
    then show ?thesis using card_open [OF y open_req(2) cards(1)] cards(2) by simp
  next
    case (finish_message key p R V ack now r c')
    note f = card_finish [OF y finish_message(2) approve_taken_effect [OF ok taken_None [OF y finish_message(2)] finish_message(3)] cards]
    show ?thesis using f finish_message(1) by simp
  next
    case (finish_tx key p R VR ack chain gate now cl r c' cl')
    note f = card_finish [OF y finish_tx(2) sign_taken_effect(1) [OF ok taken_None [OF y finish_tx(2)] finish_tx(3)] cards]
    show ?thesis using f finish_tx(1) by simp
  next
    case (take_req now key p c')
    have "bt_get key (pending_map (y_cer y)) = Some p"
      using pend.take_ok [OF _ take_req(2)] ok by (simp add: stores_ok_def)
    then show ?thesis using card_calm [OF calm_take_live [OF ok take_req(2)] cards(1)] cards take_req(1) by simp
  next
    case (drop_req key p)
    then show ?thesis using cards set_remove1_subset [of "(key, p)" "y_taken y"] by auto
  next
    case (park_tx key prep swept stamped)
    then show ?thesis using cards by (simp add: park_def Let_def)
  next
    case (discard_prep c1 a b key held m)
    then show ?thesis using cards by simp
  next
    case (register_abi addr abi)
    then show ?thesis using cards by (simp add: register_gated_contract_def)
  next
    case (look now)
    then show ?thesis using card_calm [OF calm_live [OF ok] cards(1)] cards(2) by simp
  next
    case (take_none now key e c')
    then show ?thesis using card_calm [OF calm_take_live [OF ok take_none(2)] cards(1)] cards(2) by simp
  next
    case (take_prep swept key tx c')
    then show ?thesis using card_calm [OF calm_take_prepared [OF ok take_prep(2)] cards(1)] cards(2) by simp
  next
    case (take_prep_none swept key e c')
    then show ?thesis using card_calm [OF calm_take_prepared [OF ok take_prep_none(2)] cards(1)] cards(2) by simp
  next
    case (record_tx key tx F at r c' D')
    then show ?thesis using card_calm [OF send_record_calm [OF ok record_tx(3)] cards(1)] cards(2) by simp
  next
    case (settle F tx first e err c' D')
    then show ?thesis using card_calm [OF send_refused_calm [OF ok settle(2)] cards(1)] cards(2) by simp
  qed (use cards in simp)
qed

lemma run_cards:
  "cer_run X K C y \<Longrightarrow>
     (\<forall>k p. bt_get k (pending_map (y_cer y)) = Some p \<longrightarrow> card_ok X p) \<and> (\<forall>(k, p)\<in>set (y_taken y). card_ok X p)"
proof (induction rule: cer_run.induct)
  case (start L os wall_ms D)
  show ?case
    by (simp add: cer_start_def with_submitted_log_def ceremony_new_def with_clock_def Let_def book_default_def bt_get_def)
next
  case (step y y')
  then show ?case using step_cards [OF step(2) cer_run_inv [OF step(1)]] by blast
qed

section \<open>Transaction approvals\<close>

text \<open>\<open>hex\<close> reads hexadecimal digits only, and the text of a JSON object has a brace.\<close>

definition payload_law :: "'x deps_scheme \<Rightarrow> bool" where
  "payload_law X \<longleftrightarrow>
     (\<forall>s bs. hex_decode X s = Some bs \<longrightarrow> CHR ''{'' \<notin> set s) \<and>
     (\<forall>s kvs. json_from_str X s = Some (VObject kvs) \<longrightarrow> CHR ''{'' \<in> set s)"

lemma object_not_hex:
  assumes "payload_law X" and "json_from_str X raw = Some (VObject kvs)"
  shows "payload_bytes X raw = None"
proof -
  have brace: "CHR ''{'' \<in> set raw" using assms by (auto simp: payload_law_def)
  let ?s = "case strip_prefix ''0x'' raw of Some s \<Rightarrow> s | None \<Rightarrow> raw"
  have "CHR ''{'' \<in> set ?s" using brace by (auto simp: strip_prefix_Some_iff split: option.splits)
  then show ?thesis using assms(1) unfolding payload_law_def payload_bytes_def by (cases "hex_decode X ?s") auto
qed

lemma approval_reads_quiet:
  "sent_raw (rc_wire (snd (check_endpoint R gate cl))) = sent_raw (rc_wire cl)"
  "sent_raw (rc_wire (snd (source_nonce R tx cl))) = sent_raw (rc_wire cl)"
  "sent_raw (rc_wire (snd (source_gas_price R tx cl))) = sent_raw (rc_wire cl)"
  by (auto simp: check_endpoint_def source_nonce_def source_gas_price_def Let_def split_def split: option.splits)

lemma complete_tx_Inr:
  assumes "complete_tx X K R V gate raw cl = (Inr (tx, fs, source), cl')"
  obtains d n g where "decode_transaction X raw = Some (tx, d)" "check_from X K V tx = Inr ()"
    "finalize tx n g = Some fs" "\<And>e. gate = Some e \<Longrightarrow> fst (verify_network R e cl) = Inr ()"
    "source = Supplied \<and> tx_nonce tx = Some n \<or> source = Fetched \<and> tx_nonce tx = None"
    "sent_raw (rc_wire cl') = sent_raw (rc_wire cl)"
proof -
  obtain d where d: "decode_transaction X raw = Some (tx, d)" and f: "check_from X K V tx = Inr ()"
    using assms by (auto simp: complete_tx_def rpc_then_Inr split: prod.splits)
  obtain cl1 n cl2 g cl3 where e: "check_endpoint R gate cl = (Inr (), cl1)"
    and n: "source_nonce R tx cl1 = (Inr (n, source), cl2)" and g: "source_gas_price R tx cl2 = (Inr g, cl3)"
    and fin: "finalize tx n g = Some fs" "cl' = cl3"
    using assms d f by (auto simp: complete_tx_def rpc_then_Inr)
  have v: "fst (verify_network R x cl) = Inr ()" if "gate = Some x" for x
    using e that by (cases "verify_network R x cl") (auto simp: check_endpoint_def map_err_Inr_iff)
  have q: "sent_raw (rc_wire cl3) = sent_raw (rc_wire cl)"
    using approval_reads_quiet [of R] e n g by (metis snd_conv)
  have src: "source = Supplied \<and> tx_nonce tx = Some n \<or> source = Fetched \<and> tx_nonce tx = None"
    using n by (auto simp: source_nonce_def Let_def and_then_Inr_iff split: option.splits prod.splits)
  show ?thesis using that [OF d f fin(1) v src] q fin(2) by simp
qed

lemma check_from_Inr:
  "check_from X K V tx = Inr () \<Longrightarrow> tx_from tx = Some claimed \<Longrightarrow>
     \<exists>i. address X K V = Inr i \<and> eq_ignore_ascii_case claimed (wi_address i)"
  by (auto simp: check_from_def and_then_Inr_iff map_err_Inr_iff split: if_splits)

lemma finalize_shown:
  assumes "decode_transaction X raw = Some (tx, d)" and "finalize tx n g = Some fs"
  shows "d = build_display X (lf_to fs) (lf_value fs) (lf_data fs)" and "lf_to fs = tx_to tx"
    and "lf_value fs = tx_value tx" and "lf_data fs = tx_data tx"
    and "lf_nonce fs = (case tx_nonce tx of Some m \<Rightarrow> m | None \<Rightarrow> n)"
proof -
  show f: "lf_to fs = tx_to tx" "lf_value fs = tx_value tx" "lf_data fs = tx_data tx"
    "lf_nonce fs = (case tx_nonce tx of Some m \<Rightarrow> m | None \<Rightarrow> n)"
    using assms(2) by (auto simp: finalize_def Let_def split: option.splits if_splits)
  show "d = build_display X (lf_to fs) (lf_value fs) (lf_data fs)"
    using assms(1) f by (auto elim: decode_transaction_Some)
qed

text \<open>What a signed transaction rests on: request \<open>p\<close>, signed with fields \<open>fs\<close> for chain \<open>chain\<close>.\<close>

definition tx_grounds ::
  "'x deps_scheme \<Rightarrow> wallet_crypto \<Rightarrow> rpc_env \<Rightarrow> vault_reads \<Rightarrow> Pending \<Rightarrow> nat \<Rightarrow> LegacyTxFields \<Rightarrow> Prepared \<Rightarrow> string \<Rightarrow> bool" where
  "tx_grounds X K R V p chain fs prep h \<longleftrightarrow>
     si_kind (pd_intent p) = Transaction \<and> si_chain_id (pd_intent p) = chain \<and>
     payload_chain_id X (si_raw (pd_intent p)) \<in> {Inr None, Inr (Some chain)} \<and>
     (\<exists>tx d signed. decode_transaction X (si_raw (pd_intent p)) = Some (tx, d) \<and>
        d = build_display X (lf_to fs) (lf_value fs) (lf_data fs) \<and>
        da_cost (pd_decoded p) = td_cost d \<and> da_destination (pd_decoded p) = td_destination d \<and>
        (\<forall>claimed. tx_from tx = Some claimed \<longrightarrow>
           (\<exists>i. address X K (vr_from V) = Inr i \<and> eq_ignore_ascii_case claimed (wi_address i))) \<and>
        sign_transaction K R (vr_sign V) fs chain = Inr signed \<and>
        pr_raw prep = stx_raw signed \<and> h = ''0x'' @ hex_encode X (stx_hash signed) \<and>
        pr_nonce prep = lf_nonce fs \<and> pr_value prep = lf_value fs \<and> pr_to prep = lf_to fs \<and>
        pr_origin prep = si_origin (pd_intent p) \<and>
        (pr_nonce_source prep = Supplied \<longleftrightarrow> tx_nonce tx \<noteq> None))"

lemma transaction_kind:
  assumes "payload_law X" and "decode_transaction X (si_raw i) = Some (tx, d)" and "committed_chain X i sc = Inr named"
  shows "si_kind i = Transaction"
proof (cases "si_kind i")
  case PersonalSign
  obtain kvs where "json_from_str X (si_raw i) = Some (VObject kvs)"
    using assms(2) by (auto elim: decode_transaction_Some)
  then show ?thesis using assms(3) object_not_hex [OF assms(1)] PersonalSign by (simp add: committed_chain_def)
qed (use assms(3) in \<open>simp_all add: committed_chain_def\<close>)

lemma make_prepared_Inr:
  assumes "make_prepared X K R V V' tx fs source chain origin = Inr (prep, h)"
  shows "\<exists>signed. sign_transaction K R V fs chain = Inr signed \<and> pr_raw prep = stx_raw signed \<and> pr_nonce prep = lf_nonce fs \<and>
    pr_nonce_source prep = source \<and> pr_value prep = tx_value tx \<and> pr_to prep = tx_to tx \<and> pr_origin prep = origin \<and>
    h = ''0x'' @ hex_encode X (stx_hash signed)"
  using assms unfolding make_prepared_def and_then_Inr_iff map_err_Inr_iff by auto

lemma sign_taken_Inr:
  assumes law: "payload_law X" and card: "card_ok X p"
    and s: "sign_taken X K R V raw_ack chain gate now key p (c, cl) = (Inr (k, prep, h), c', cl')"
  shows "k = key" and "c' = c" and "pd_requires_raw_ack p \<longrightarrow> raw_ack" and "\<not> outlived (c_ttl c) (pd_created p) now"
    and "\<And>e. gate = Some e \<Longrightarrow> fst (verify_network R e cl) = Inr ()"
    and "sent_raw (rc_wire cl') = sent_raw (rc_wire cl)" and "\<exists>fs. tx_grounds X K R V p chain fs prep h"
proof -
  let ?i = "pd_intent p"
  show ack: "pd_requires_raw_ack p \<longrightarrow> raw_ack" using s by (cases raw_ack) (auto simp: sign_taken_def)
  obtain tx fs source cl1 where ct: "complete_tx X K R (vr_from V) gate (si_raw ?i) cl = (Inr (tx, fs, source), cl1)"
    using s ack by (auto simp: sign_taken_def split: prod.splits sum.splits if_splits)
  obtain bc c1 where rd: "ready_to_sign X now key p (Some chain) c = (Inr bc, c1)"
    using s ack ct by (auto simp: sign_taken_def split: prod.splits sum.splits if_splits)
  note r = ready_to_sign_Inr [OF rd]
  have mp: "make_prepared X K R (vr_sign V) (vr_sender V) tx fs source bc (si_origin ?i) = Inr (prep, h)"
    and same: "k = key" "c' = c1" "cl' = cl1"
    using s ack ct rd by (auto simp: sign_taken_def and_then_Inr_iff split: if_splits)
  show "k = key" "c' = c" "\<not> outlived (c_ttl c) (pd_created p) now" using same r by simp_all
  from complete_tx_Inr [OF ct] obtain d n g where d: "decode_transaction X (si_raw ?i) = Some (tx, d)"
    "check_from X K (vr_from V) tx = Inr ()" "finalize tx n g = Some fs"
    "\<And>e. gate = Some e \<Longrightarrow> fst (verify_network R e cl) = Inr ()"
    "source = Supplied \<and> tx_nonce tx = Some n \<or> source = Fetched \<and> tx_nonce tx = None"
    "sent_raw (rc_wire cl1) = sent_raw (rc_wire cl)" by blast
  show "\<And>e. gate = Some e \<Longrightarrow> fst (verify_network R e cl) = Inr ()" by (rule d(4))
  show "sent_raw (rc_wire cl') = sent_raw (rc_wire cl)" using d(6) same(3) by simp
  obtain named where named: "committed_chain X ?i (Some chain) = Inr named" "set named \<subseteq> {si_chain_id ?i}"
    using r(4) by blast
  have kind: "si_kind ?i = Transaction" using transaction_kind [OF law d(1) named(1)] .
  obtain nm where nm: "payload_chain_id X (si_raw ?i) = Inr nm"
    "named = chain # (case nm of Some c \<Rightarrow> [c] | None \<Rightarrow> [])"
    using named(1) kind by (auto simp: committed_chain_def and_then_Inr_iff)
  have chain: "si_chain_id ?i = chain" "nm = None \<or> nm = Some chain" "bc = chain"
    using named(2) nm(2) r(3) by (auto split: option.splits)
  note cd = card_transaction [OF card kind d(1)] and fs = finalize_shown [OF d(1,3)]
  obtain signed where signed: "sign_transaction K R (vr_sign V) fs chain = Inr signed"
    "pr_raw prep = stx_raw signed" "pr_nonce prep = lf_nonce fs" "pr_nonce_source prep = source" "pr_value prep = tx_value tx"
    "pr_to prep = tx_to tx" "pr_origin prep = si_origin ?i" "h = ''0x'' @ hex_encode X (stx_hash signed)"
    using make_prepared_Inr [OF mp] chain(3) by blast
  have "tx_grounds X K R V p chain fs prep h"
    unfolding tx_grounds_def using kind chain nm(1) d(1,5) fs cd signed check_from_Inr [OF d(2)] by auto
  then show "\<exists>fs. tx_grounds X K R V p chain fs prep h" by blast
qed

text \<open>
  C3. What a transaction signature rests on. A transaction is signed under an id only for a request
  pending under that id, fresh by both clocks, acknowledged if undecodable, of kind transaction,
  whose card showed the signer's chain; the payload names no other chain; the sender it names is this
  wallet; the endpoint proved to be the expected network first; the signed fields are the very
  ones the card's cost and destination were computed from; and nothing has been sent.
\<close>

theorem tx_signature_sound:
  assumes "payload_law X" and "cer_run X K C y" and "y_cer y = c"
    and "sign_consumed X K R V s raw_ack chain gate now0 now1 (c, cl) = (Inr (key, prep, h), c', cl')"
  shows "\<exists>p fs. parse_id s = Some key \<and> bt_get key (pending_map c) = Some p \<and>
    \<not> outlived (c_ttl c) (pd_created p) now0 \<and> \<not> outlived (c_ttl c) (pd_created p) now1 \<and>
    (pd_requires_raw_ack p \<longrightarrow> raw_ack) \<and> tx_grounds X K R V p chain fs prep h \<and>
    (\<forall>e. gate = Some e \<longrightarrow> fst (verify_network R e cl) = Inr ()) \<and>
    sent_raw (rc_wire cl') = sent_raw (rc_wire cl) \<and> bt_get key (pending_map c') = None"
proof -
  have ok: "pend_ok c" using run_pend_ok [OF assms(2)] assms(3) by simp
  obtain k where k: "parse_id s = Some k" using assms(4) by (cases "parse_id s") (auto simp: sign_consumed_def rpc_then_def)
  obtain p c1 where t: "take_live now0 k c = (Inr p, c1)"
    and st: "sign_taken X K R V raw_ack chain gate now1 k p (c1, cl) = (Inr (key, prep, h), c', cl')"
    using assms(4) k by (auto simp: sign_consumed_def rpc_then_def split: prod.splits sum.splits)
  have p: "bt_get k (pending_map c) = Some p" "\<not> outlived (c_ttl c) (pd_created p) now0"
    using pend.take_ok [OF ok t] by (auto simp: pending_stale_def)
  then have "card_ok X p" using run_cards [OF assms(2)] assms(3) by blast
  note f = sign_taken_Inr [OF assms(1) this st]
  obtain fs where "tx_grounds X K R V p chain fs prep h" using f(7) by blast
  then show ?thesis
    using k p f(1-6) take_live_ttl [OF t] take_live_gone [OF ok t] by (intro exI [of _ p] exI [of _ fs]) simp
qed

section \<open>Not submitted\<close>

lemma gated_send_once:
  assumes "send_raw_transaction_gated X R raw gate cl = (r, cl')"
  shows "sent_raw (rc_wire cl') = sent_raw (rc_wire cl) \<or>
    sent_raw (rc_wire cl') = sent_raw (rc_wire cl) @ [VArray [VString (''0x'' @ hex_encode X raw)]]"
proof -
  have send: "sent_raw (rc_wire c2) = sent_raw (rc_wire c1) \<or>
      sent_raw (rc_wire c2) = sent_raw (rc_wire c1) @ [VArray [VString (''0x'' @ hex_encode X raw)]]"
    if "c2 = snd (rpc_request R ''eth_sendRawTransaction'' (VArray [VString (''0x'' @ hex_encode X raw)]) c1)" for c1 c2
    by (auto simp: that rpc_request_def build_request_def http_call_def rpc_map_def Let_def sent_raw_def value_get_def
        split: sum.splits http_answer.splits)
  show ?thesis
  proof (cases gate)
    case None
    then show ?thesis
      using assms send [OF refl, of cl] by (auto simp: send_raw_transaction_gated_def rpc_then_def rpc_map_def Let_def)
  next
    case (Some e)
    obtain v c1 where v: "verify_network R e cl = (v, c1)" by force
    then have q: "sent_raw (rc_wire c1) = sent_raw (rc_wire cl)" using verify_network_quiet [of R e cl] by simp
    show ?thesis
      using assms Some v q send [OF refl, of c1]
      by (cases v) (auto simp: send_raw_transaction_gated_def rpc_then_def rpc_map_def Let_def)
  qed
qed

lemma poll_quiet: "sent_raw (rc_wire (snd (poll_receipt R h n cl))) = sent_raw (rc_wire cl)"
proof (induction n arbitrary: cl)
  case (Suc n)
  obtain t c1 where t: "transaction_receipt R h cl = (t, c1)" by force
  then have "sent_raw (rc_wire c1) = sent_raw (rc_wire cl)" using reads_quiet(5) [of R h cl] by simp
  then show ?case using Suc t by (cases t) (auto simp: rpc_then_def split: option.splits)
qed simp

lemma rpc_then_quiet:
  assumes "sent_raw (rc_wire (snd r)) = w" and "\<And>x s. sent_raw (rc_wire s) = w \<Longrightarrow> sent_raw (rc_wire (snd (f x s))) = w"
  shows "sent_raw (rc_wire (snd (rpc_then r f))) = w"
  using assms by (auto simp: rpc_then_def split: prod.splits sum.splits)

lemma complete_tx_quiet: "sent_raw (rc_wire (snd (complete_tx X K R V gate raw cl))) = sent_raw (rc_wire cl)"
  unfolding complete_tx_def split_def
  by (intro rpc_then_quiet) (simp_all add: approval_reads_quiet)

lemma sign_consumed_quiet:
  assumes "sign_consumed X K R V s ack chain gate n0 n1 (c, cl) = (r, c', cl')"
  shows "sent_raw (rc_wire cl') = sent_raw (rc_wire cl)"
proof (cases "parse_id s")
  case None
  then show ?thesis using assms by (simp add: sign_consumed_def rpc_then_def)
next
  case (Some key)
  obtain t c1 where t: "take_live n0 key c = (t, c1)" by force
  show ?thesis
  proof (cases t)
    case (Inl e)
    then show ?thesis using assms Some t by (simp add: sign_consumed_def rpc_then_def)
  next
    case (Inr p)
    then have "sign_taken X K R V ack chain gate n1 key p (c1, cl) = (r, c', cl')"
      using assms Some t by (simp add: sign_consumed_def rpc_then_def)
    then have "cl' = cl \<or> cl' = snd (complete_tx X K R (vr_from V) gate (si_raw (pd_intent p)) cl)"
      by (auto simp: sign_taken_def split: prod.splits sum.splits if_splits)
    then show ?thesis using complete_tx_quiet by metis
  qed
qed

lemma sign_consumed_submitted:
  assumes "sign_consumed X K R V s ack chain gate n0 n1 (c, cl) = (r, c', cl')"
  shows "c_submitted c' = c_submitted c"
proof -
  have t: "c_submitted c1 = c_submitted c" if "take_live n0 key c = (t, c1)" for key t c1
    using that by (cases rule: take_live_cases) auto
  have r: "c_submitted c2 = c_submitted c1" if "ready_to_sign X n1 key p sc c1 = (q, c2)" for key p sc q c1 c2
    using that by (auto simp: ready_to_sign_def Let_def split: if_splits sum.splits option.splits)
  show ?thesis
    using assms t r by (auto simp: sign_consumed_def sign_taken_def rpc_then_def reinsert_def split: prod.splits sum.splits if_splits)
qed

lemma map_err_Inl: "map_err f r = Inl x \<longleftrightarrow> (\<exists>e. r = Inl e \<and> x = f e)"
  by (cases r) auto

lemma not_submitted_text:
  "starts_with ''not submitted: '' (broadcast_err_str e) \<longleftrightarrow> (\<forall>h r. e \<noteq> SubmittedOutcomeUnknown h r)"
  by (cases e) (auto simp: broadcast_err_str_def starts_with_def)

text \<open>The bytes of \<open>tx\<close> were never handed to a node before: not by a recorded send, nor by a build that kept
  no record, nor on another network.\<close>

definition never_sent :: "'x deps_scheme \<Rightarrow> SubmittedTxLog \<Rightarrow> sends \<Rightarrow> sends \<Rightarrow> Prepared \<Rightarrow> bool" where
  "never_sent X L S P tx \<longleftrightarrow>
     (let h = to_ascii_lowercase (local_hash X (pr_raw tx)); I = sl_inner L in
      h \<notin> S (in_genesis I) \<and> h \<notin> P (in_genesis I) \<and> (\<forall>(g, s)\<in>set (in_previous I). \<not> contains s h))"

lemma send_signed_not_submitted:
  assumes law: "log_codec_law C" and run: "log_run C orig P \<lparr>ls_log = Some (c_submitted c), ls_dir = D, ls_sent = S\<rparr>"
    and orig: "origin_of orig (local_hash X (pr_raw tx)) (pr_sender tx) (pr_nonce tx)"
    and send: "send_signed X C F F' R tx cfg gate at (c, cl, D) = (Inl e, c', cl', D')"
    and said: "\<forall>h r. e \<noteq> SubmittedOutcomeUnknown h r"
  shows "sent_raw (rc_wire cl') = sent_raw (rc_wire cl) \<or>
    sent_raw (rc_wire cl') = sent_raw (rc_wire cl) @ [VArray [VString (''0x'' @ hex_encode X (pr_raw tx))]] \<and>
    never_sent X (c_submitted c) S P tx \<and>
    (\<exists>err. send_raw_transaction_gated X R (pr_raw tx) gate cl = (Inl err, cl') \<and> is_definitive_send_error err)"
proof -
  obtain q L D1 where q: "record_entry C F (local_hash X (pr_raw tx)) (Some (pr_sender tx, pr_nonce tx))
      (pr_nonce_source tx) (pr_call tx) at (c_submitted c) D = (q, L, D1)" by (metis prod_cases3)
  show ?thesis
  proof (cases q)
    case (Inl m)
    then show ?thesis using send q by (simp add: send_signed_def send_record_def try_record_call_def)
  next
    case (Inr first)
    let ?c1 = "c\<lparr>c_submitted := L\<rparr>"
    have rec: "send_record X C F tx at (c, D) = (Inr first, ?c1, D1)"
      using q Inr by (simp add: send_record_def try_record_call_def)
    obtain w cl1 where w: "send_raw_transaction_gated X R (pr_raw tx) gate cl = (w, cl1)" by force
    show ?thesis
    proof (cases w)
      case (Inr h)
      then have "\<exists>h' r. e = SubmittedOutcomeUnknown h' r"
        using send rec w
        by (auto simp: send_signed_def send_accepted_def split: prod.splits sum.splits RpcError.splits)
      then show ?thesis using said by blast
    next
      case (Inl err)
      have e: "fst (send_refused X C F' tx first err (?c1, D1)) = e" and cl: "cl' = cl1"
        using send rec w Inl by (auto simp: send_signed_def split: prod.splits)
      have def': "first \<and> is_definitive_send_error err"
        using e said by (auto simp: send_refused_def Let_def split: if_splits)
      then have "record_entry C F (local_hash X (pr_raw tx)) (Some (pr_sender tx, pr_nonce tx))
          (pr_nonce_source tx) (pr_call tx) at (c_submitted c) D = (Inr True, L, D1)" using q \<open>q = Inr first\<close> by simp
      note never = first_never_sent [OF law run orig this]
      have "never_sent X (c_submitted c) S P tx" using never by (auto simp: never_sent_def Let_def)
      then show ?thesis using gated_send_once [OF w] def' w Inl cl by auto
    qed
  qed
qed

text \<open>
  C4. \<open>not submitted\<close> is only said when it is true. When the command that approves, signs and broadcasts
  fails with a message that starts with \<open>not submitted: \<close>, in any history of the durable record, then either
  the call handed no transaction to any node, or it handed over one, whose bytes no node had ever
  been given before, and the node's answer proves that it refused them.
\<close>

theorem not_submitted_is_true:
  assumes "log_codec_law C" and "log_run C orig P \<lparr>ls_log = Some (c_submitted c), ls_dir = D, ls_sent = S\<rparr>"
    and "\<And>key prep h c1 cl1. sign_consumed X K R V s raw_ack CITRATE_CHAIN_ID (ng_installed (re_gates R)) now0 now1
        (c, with_transport) = (Inr (key, prep, h), c1, cl1) \<Longrightarrow>
      origin_of orig (local_hash X (pr_raw prep)) (pr_sender prep) (pr_nonce prep)"
    and "sign_and_broadcast_sync X K C F F' R V s raw_ack now0 now1 at (ob, c, D) = (Inl msg, ob', c', cl', D')"
    and "starts_with ''not submitted: '' msg"
  shows "sent_raw (rc_wire cl') = [] \<or>
    (\<exists>tx err cl1. sent_raw (rc_wire cl1) = [] \<and>
       send_raw_transaction_gated X R (pr_raw tx) (ng_installed (re_gates R)) cl1 = (Inl err, cl') \<and>
       sent_raw (rc_wire cl') = [VArray [VString (''0x'' @ hex_encode X (pr_raw tx))]] \<and>
       never_sent X (c_submitted c) S P tx \<and> is_definitive_send_error err)"
proof -
  let ?g = "ng_installed (re_gates R)"
  obtain q c1 cl1 where q: "sign_consumed X K R V s raw_ack CITRATE_CHAIN_ID ?g now0 now1 (c, with_transport) = (q, c1, cl1)"
    by (metis prod_cases3)
  have quiet: "sent_raw (rc_wire cl1) = []" using sign_consumed_quiet [OF q] by (simp add: with_transport_def sent_raw_def)
  obtain e where e: "approve_and_broadcast X K C F F' R V s raw_ack production_config now0 now1 at (c, with_transport, D)
      = (Inl e, c', cl', D')" "msg = broadcast_err_str e"
    using assms(4)
    by (auto simp: sign_and_broadcast_sync_def approve_broadcast_and_notify_def map_err_Inl Let_def split: prod.splits sum.splits)
  have said: "\<forall>h r. e \<noteq> SubmittedOutcomeUnknown h r" using assms(5) e(2) not_submitted_text by blast
  show ?thesis
  proof (cases q)
    case (Inl e')
    then show ?thesis
      using e(1) q quiet by (simp add: approve_and_broadcast_def approve_and_broadcast_gated_def production_config_def)
  next
    case (Inr v)
    obtain key prep h where v: "v = (key, prep, h)" by (cases v) auto
    have send: "send_signed X C F F' R prep production_config ?g at (c1, cl1, D) = (Inl e, c', cl', D')"
      using e(1) q Inr v by (simp add: approve_and_broadcast_def approve_and_broadcast_gated_def production_config_def)
    have sub: "c_submitted c1 = c_submitted c" using sign_consumed_submitted [OF q] .
    have "origin_of orig (local_hash X (pr_raw prep)) (pr_sender prep) (pr_nonce prep)"
      using assms(3) q Inr v by blast
    from send_signed_not_submitted [OF assms(1) assms(2) [folded sub] this send said]
    show ?thesis using quiet sub by auto
  qed
qed

section \<open>Expiry\<close>

text \<open>
  C19. Expiry fails closed. A request that outlived its time by either clock, so also when the machine slept
  or the wall clock was set back, is signed by no call that names it: the answer is that it expired
  or, when more than 4096 later ids expired too, that it is unknown. When the id is watched the
  answer is always that it expired, and \<open>is_expired\<close> says so. Afterwards the request is gone.
\<close>

theorem expired_request_refused:
  assumes "cer_run X K C y" and "y_cer y = c" and "parse_id s = Some key" and "bt_get key (pending_map c) = Some p"
    and "c_ttl c \<le> cr_mono now - cr_mono (pd_created p) \<or>
      c_ttl c \<le> from_millis (cr_wall_ms now - cr_wall_ms (pd_created p))"
  shows "\<exists>e\<in>{CerExpired, UnknownCeremony}.
    (fst (approve X K R V s ack now now1 c) = Inl e \<and>
     fst (sign_consumed X K R VR s ack chain gate now now1 (c, cl)) = Inl e \<and>
     bt_get key (pending_map (snd (approve X K R V s ack now now1 c))) = None) \<and>
    (key \<in> set (bk_watched (c_book c)) \<longrightarrow> e = CerExpired \<and> fst (cer_is_expired now s c))"
proof -
  have ok: "pend_ok c" using run_pend_ok [OF assms(1)] assms(2) by simp
  then have wf: "bt_wf (pending_map c)" by (simp add: pend_ok_def)
  have out: "outlived (c_ttl c) (pd_created p) now" using assms(5) by (auto simp: outlived_def)
  have gone: "bt_get key (pending_map (live now c)) = None"
  proof (rule ccontr)
    assume "bt_get key (pending_map (live now c)) \<noteq> None"
    then obtain q where "bt_get key (pending_map (live now c)) = Some q" by blast
    then have "bt_get key (pending_map c) = Some q \<and> \<not> outlived (c_ttl c) (pd_created q) now"
      unfolding live_get [OF wf] .
    then show False using assms(4) out by simp
  qed
  obtain r c1 where t: "take_live now key c = (r, c1)" by force
  define e where "e = (if book_is_expired (c_book (live now c)) key then CerExpired else UnknownCeremony)"
  have r: "r = Inl e" "c1 = live now c" using t gone by (auto simp: take_live_def Let_def e_def split: if_splits)
  have w: "book_is_expired (c_book (live now c)) key" if "key \<in> set (bk_watched (c_book c))"
  proof -
    have "key \<in> stale_keys now c" using assms(4) out by (auto simp: stale_keys_get [OF wf] pending_stale_def)
    then show ?thesis using live_book(3) [OF wf, of now] that by (auto simp: book_is_expired_def)
  qed
  have "fst (approve X K R V s ack now now1 c) = Inl e" "snd (approve X K R V s ack now now1 c) = live now c"
    "fst (sign_consumed X K R VR s ack chain gate now now1 (c, cl)) = Inl e"
    using t r assms(3) by (simp_all add: approve_def sign_consumed_def rpc_then_def)
  moreover have "fst (cer_is_expired now s c) = book_is_expired (c_book (live now c)) key"
    using assms(3) by (simp add: cer_is_expired_def Let_def)
  moreover have "e \<in> {CerExpired, UnknownCeremony}" by (simp add: e_def)
  ultimately show ?thesis using gone w by (intro bexI [of _ e]) (auto simp: e_def)
qed

section \<open>The budgeted path\<close>

text \<open>\<open>hex\<close> writes no \<open>x\<close>, so that the text it writes never looks prefixed.\<close>

definition hex_text_law :: "'x deps_scheme \<Rightarrow> bool" where
  "hex_text_law X \<longleftrightarrow> (\<forall>bs. CHR ''x'' \<notin> set (hex_encode X bs))"

lemma payload_of_hex:
  assumes "hex_law X" and "hex_text_law X"
  shows "payload_bytes X (hex_encode X bs) = Some bs"
proof -
  have "strip_prefix ''0x'' (hex_encode X bs) = None"
    using assms(2) by (auto simp: strip_prefix_None_iff hex_text_law_def dest: spec [of _ bs])
  then show ?thesis using assms(1) by (simp add: payload_bytes_def hex_roundtrip)
qed

lemma open_request_pending:
  assumes "pend_ok c" and "open_request X intent w created now c = (v, c')"
  shows "v = view_of (show_nat (c_next_id c)) (new_pending X intent created (c_abis c))"
    and "bt_get (c_next_id c) (pending_map c') = Some (new_pending X intent created (c_abis c))"
proof -
  let ?c = "c\<lparr>c_next_id := wrap_inc (c_next_id c)\<rparr>"
  have "bt_wf (pending_map (live now ?c))"
    using assms(1) live_book(1) [of ?c now] by (simp add: pend_ok_def bt_wf_filter)
  then show "v = view_of (show_nat (c_next_id c)) (new_pending X intent created (c_abis c))"
    "bt_get (c_next_id c) (pending_map c') = Some (new_pending X intent created (c_abis c))"
    using assms(2) by (auto simp: open_request_def Let_def watch_facts bt_get_insert)
qed

lemma budget_section_Inr:
  assumes "budget_section X K R V V' fl fl' req t (g, W) = (Inr out, g', W')"
  obtains plan rid g1 W1 sig where "reserve X fl plan (bt_now t) g W = (Inr rid, g1, W1)"
    "evaluate_siwe X \<lparr>ei_message = sr_message req, ei_attestation = sr_attestation req, ei_taint = sr_taint req,
        ei_hic_required = sr_hic_required req, ei_principal = sr_principal req,
        ei_wallet_address = (case address X K V of Inr i \<Rightarrow> Some (wi_address i) | Inl e \<Rightarrow> None)\<rparr> (bt_now t) g = Inr plan"
    "still_signable plan (bt_again t) g1 = Inr ()" "sign_personal X K R V' (as_bytes (sr_message req)) = Inr sig"
    "(g', W') = close X fl' rid Signed g1 W1"
    "out = AutoSigned \<lparr>sg_sig_hex = hex_encode X sig, sg_kind = PersonalSign\<rparr> rid (sp_budget_id plan)
       (remaining_of (sp_budget_id plan) g') (sp_origin plan)"
proof -
  define inp where "inp = \<lparr>ei_message = sr_message req, ei_attestation = sr_attestation req, ei_taint = sr_taint req,
        ei_hic_required = sr_hic_required req, ei_principal = sr_principal req,
        ei_wallet_address = (case address X K V of Inr i \<Rightarrow> Some (wi_address i) | Inl e \<Rightarrow> None)\<rparr>"
  note b = assms [unfolded budget_section_def Let_def prod.case, folded inp_def]
  obtain plan where plan: "evaluate_siwe X inp (bt_now t) g = Inr plan"
    using b by (cases "evaluate_siwe X inp (bt_now t) g") auto
  obtain r g1 W1 where r: "reserve X fl plan (bt_now t) g W = (r, g1, W1)" by (metis prod_cases3)
  then obtain rid where rid: "r = Inr rid" using b plan by (cases r) auto
  have ss: "still_signable plan (bt_again t) g1 = Inr ()"
    using b plan r rid by (cases "still_signable plan (bt_again t) g1") auto
  obtain sig where sig: "sign_personal X K R V' (as_bytes (sr_message req)) = Inr sig"
    using b plan r rid ss by (cases "sign_personal X K R V' (as_bytes (sr_message req))") auto
  obtain g2 W2 where cl: "close X fl' rid Signed g1 W1 = (g2, W2)" by force
  have e: "g' = g2" "W' = W2" "out = AutoSigned \<lparr>sg_sig_hex = hex_encode X sig, sg_kind = PersonalSign\<rparr> rid
      (sp_budget_id plan) (remaining_of (sp_budget_id plan) g2) (sp_origin plan)"
    using b by (auto simp: plan r rid ss sig cl)
  show ?thesis
    by (rule that [of plan rid g1 W1 sig]) (use e plan r rid ss sig cl in \<open>simp_all add: inp_def\<close>)
qed

text \<open>
  C20. A budgeted sign-in is signed or becomes a card, never dropped. It is signed without a card only when the
  network gate passed, every check of the budget decision passed, the reservation was saved before
  the signature and the second clock reading still allowed it, and then what is signed is exactly
  the message and no request is opened. In every other case a request is pending under the id of
  the returned card, it is a \<open>personal_sign\<close> of exactly the same message, and its id can be approved.
\<close>

theorem budgeted_never_dropped:
  assumes "hex_law X" and "hex_text_law X" and "cer_run X' K C y" and "y_cer y = c" and "c_next_id c < 2 ^ 64"
    and "request_siwe_budgeted X K R V V' fl fl' req t created now (c, g, W) = (out, c', g', W')"
  shows "(\<exists>plan rid g1 W1 sig. c' = c \<and>
      check_wallet_signing (re_debug R) (re_gates R) (personal_message_scope (as_bytes (sr_message req))) = Inr () \<and>
      evaluate_siwe X \<lparr>ei_message = sr_message req, ei_attestation = sr_attestation req, ei_taint = sr_taint req,
        ei_hic_required = sr_hic_required req, ei_principal = sr_principal req,
        ei_wallet_address = (case address X K V of Inr i \<Rightarrow> Some (wi_address i) | Inl e \<Rightarrow> None)\<rparr> (bt_now t) g = Inr plan \<and>
      reserve X fl plan (bt_now t) g W = (Inr rid, g1, W1) \<and> still_signable plan (bt_again t) g1 = Inr () \<and>
      sign_personal X K R V' (as_bytes (sr_message req)) = Inr sig \<and> (g', W') = close X fl' rid Signed g1 W1 \<and>
      out = AutoSigned \<lparr>sg_sig_hex = hex_encode X sig, sg_kind = PersonalSign\<rparr> rid (sp_budget_id plan)
        (remaining_of (sp_budget_id plan) g') (sp_origin plan)) \<or>
    (\<exists>v why key p. out = CardPending v (fall_through_text why) \<and> parse_id (cv_id v) = Some key \<and>
      bt_get key (pending_map c') = Some p \<and> v = view_of (cv_id v) p \<and> si_kind (pd_intent p) = PersonalSign \<and>
      payload_bytes X (si_raw (pd_intent p)) = Some (as_bytes (sr_message req)))"
proof -
  have ok: "pend_ok c" using run_pend_ok [OF assms(3)] assms(4) by simp
  have card: "\<exists>v key p. o1 = CardPending v (fall_through_text why) \<and> parse_id (cv_id v) = Some key \<and>
      bt_get key (pending_map c1) = Some p \<and> v = view_of (cv_id v) p \<and> si_kind (pd_intent p) = PersonalSign \<and>
      payload_bytes X (si_raw (pd_intent p)) = Some (as_bytes (sr_message req))"
    if f: "siwe_fall_through X req why created now c = (o1, c1)" for why o1 c1
  proof -
    let ?p = "new_pending X (siwe_card X req) created (c_abis c)"
    obtain v where o: "open_request X (siwe_card X req) False created now c = (v, c1)" "o1 = CardPending v (fall_through_text why)"
      using f by (auto simp: siwe_fall_through_def request_def Let_def split: prod.splits)
    note p = open_request_pending [OF ok o(1)]
    have i: "pd_intent ?p = siwe_card X req" by (simp add: new_pending_def Let_def)
    have "parse_id (show_nat (c_next_id c)) = Some (c_next_id c)"
      using assms(5) by (simp add: parse_id_def parse_u64_show_nat)
    moreover have "payload_bytes X (si_raw (siwe_card X req)) = Some (as_bytes (sr_message req))"
      using payload_of_hex [OF assms(1,2)] by (simp add: siwe_card_def)
    ultimately show ?thesis
      using o(2) p i by (intro exI [of _ v] exI [of _ "c_next_id c"] exI [of _ ?p]) (simp add: siwe_card_def view_of_def)
  qed
  obtain cw where cw: "check_wallet_signing (re_debug R) (re_gates R) (personal_message_scope (as_bytes (sr_message req))) = cw" by blast
  obtain b g2 W2 where b: "budget_section X K R V V' fl fl' req t (g, W) = (b, g2, W2)" by (metis prod_cases3)
  have fall: "\<exists>why. siwe_fall_through X req why created now c = (out, c')" if "(\<exists>e. cw = Inl e) \<or> (\<exists>why. b = Inl why)"
    using assms(6) cw b that by (cases cw) (auto simp: request_siwe_budgeted_def split: prod.splits sum.splits)
  show ?thesis
  proof (cases "(\<exists>e. cw = Inl e) \<or> (\<exists>why. b = Inl why)")
    case True
    then show ?thesis using fall card by metis
  next
    case False
    then obtain o1 where "cw = Inr ()" "b = Inr o1" by (cases cw; cases b) auto
    moreover from this have "out = o1" "c' = c" "g' = g2" "W' = W2"
      using assms(6) cw b by (auto simp: request_siwe_budgeted_def)
    ultimately show ?thesis using budget_section_Inr [of X K R V V' fl fl' req t g W out g' W'] cw b by metis
  qed
qed

end
