(* ===== verification/CeremonyDemo.thy ===== *)
theory CeremonyDemo
  imports CeremonyProps WebBudgetProps
begin

text \<open>
  The ceremony on concrete inputs: a run that opens one request, for a message and for a transaction, and the
  theorems about runs applied to it.
\<close>

section \<open>One open request\<close>

definition demo_time :: ClockReading where "demo_time = \<lparr>cr_mono = 5, cr_wall_ms = 7\<rparr>"

definition demo_late :: ClockReading where "demo_late = \<lparr>cr_mono = 6, cr_wall_ms = 7 + PENDING_TTL_MS\<rparr>"

abbreviation demo_key :: nat where "demo_key \<equiv> 1048576"

abbreviation demo_id :: string where "demo_id \<equiv> show_nat demo_key"

definition demo_fresh :: SignatureCeremony where "demo_fresh = with_submitted_log demo_log (Some 0) 0"

definition demo_pending :: "'x deps_scheme \<Rightarrow> SignatureIntent \<Rightarrow> Pending" where
  "demo_pending X intent = new_pending X intent demo_time abi_book_default"

definition demo_book :: "bool \<Rightarrow> (nat \<times> Pending) list \<Rightarrow> Book" where
  "demo_book w ps = \<lparr>bk_pending = ps, bk_expired = [], bk_watched = (if w then [demo_key] else []), bk_expired_watched = []\<rparr>"

definition demo_open_cer :: "'x deps_scheme \<Rightarrow> SignatureIntent \<Rightarrow> bool \<Rightarrow> SignatureCeremony" where
  "demo_open_cer X intent w =
     demo_fresh\<lparr>c_next_id := 1048577, c_book := demo_book w [(demo_key, demo_pending X intent)]\<rparr>"

definition demo_sys :: "'x deps_scheme \<Rightarrow> SignatureIntent \<Rightarrow> bool \<Rightarrow> cer_sys" where
  "demo_sys X intent w = (cer_start demo_fresh demo_dir)\<lparr>y_cer := demo_open_cer X intent w\<rparr>"

lemma demo_fresh_simps:
  "c_next_id demo_fresh = demo_key" "c_book demo_fresh = book_default" "c_ttl demo_fresh = PENDING_TTL"
  "c_submitted demo_fresh = demo_log" "c_abis demo_fresh = abi_book_default"
  by (simp_all add: demo_fresh_def with_submitted_log_def ceremony_new_def with_clock_def random_first_id_def Let_def)

lemma parse_demo_id: "parse_id demo_id = Some demo_key"
  by (simp add: parse_id_def parse_u64_show_nat)

lemma demo_opened:
  "open_request X intent w demo_time demo_time demo_fresh =
     (view_of demo_id (demo_pending X intent), demo_open_cer X intent w)"
  by (simp add: open_request_def Let_def live_def demo_fresh_simps book_default_def watch_def bs_insert_def
      wrap_inc_def u64_max_def demo_open_cer_def demo_pending_def demo_book_def WATCHED_IDS_KEPT_def)

lemma demo_cer_run: "cer_run X K C (demo_sys X intent w)"
proof -
  have "cer_step X K C (cer_start demo_fresh demo_dir) (demo_sys X intent w)"
    unfolding demo_sys_def by (rule cer_step.open_req [where ?t0.0 = demo_time and ?t1.0 = demo_time])
      (simp_all add: cer_start_def demo_opened demo_fresh_simps u64_max_def)
  then show ?thesis using cer_run.step [OF cer_run.start] unfolding demo_fresh_def by blast
qed

lemma demo_sys_simps [simp]:
  "y_cer (demo_sys X intent w) = demo_open_cer X intent w" "y_signed (demo_sys X intent w) = []"
  "y_sent (demo_sys X intent w) = []" "y_dir (demo_sys X intent w) = demo_dir"
  by (simp_all add: demo_sys_def cer_start_def)

lemma demo_open_simps [simp]:
  "c_book (demo_open_cer X intent w) = demo_book w [(demo_key, demo_pending X intent)]"
  "c_ttl (demo_open_cer X intent w) = PENDING_TTL" "c_submitted (demo_open_cer X intent w) = demo_log"
  "c_next_id (demo_open_cer X intent w) = 1048577"
  by (simp_all add: demo_open_cer_def demo_fresh_simps)

lemma demo_pending_simps [simp]:
  "pd_intent (demo_pending X intent) = intent" "pd_created (demo_pending X intent) = demo_time"
  by (simp_all add: demo_pending_def new_pending_def Let_def)

lemma demo_not_outlived [simp]: "\<not> outlived PENDING_TTL demo_time demo_time"
  by (simp add: outlived_def PENDING_TTL_def PENDING_TTL_MS_def from_millis_def)

definition demo_taken_cer :: "'x deps_scheme \<Rightarrow> SignatureIntent \<Rightarrow> bool \<Rightarrow> SignatureCeremony" where
  "demo_taken_cer X intent w = (demo_open_cer X intent w)\<lparr>c_book := demo_book w []\<rparr>"

lemma demo_take:
  "take_live demo_time demo_key (demo_open_cer X intent w) = (Inr (demo_pending X intent), demo_taken_cer X intent w)"
proof -
  have "live demo_time (demo_open_cer X intent w) = demo_open_cer X intent w"
    by (simp add: live_def demo_book_def)
  then show ?thesis
    by (simp add: take_live_def Let_def book_is_expired_def demo_book_def bt_get_def bt_remove_def demo_taken_cer_def)
qed

lemma demo_taken_simps [simp]:
  "c_ttl (demo_taken_cer X intent w) = PENDING_TTL" "c_submitted (demo_taken_cer X intent w) = demo_log"
  by (simp_all add: demo_taken_cer_def)

lemma demo_ready:
  assumes "committed_chain X intent sc = Inr named" and "set named \<subseteq> {si_chain_id intent}"
  shows "ready_to_sign X demo_time demo_key (demo_pending X intent) sc (demo_taken_cer X intent w) =
    (Inr (si_chain_id intent), demo_taken_cer X intent w)"
proof -
  have "find (\<lambda>n. n \<noteq> si_chain_id intent) named = None" using assms(2) by (auto simp: find_None_iff)
  then show ?thesis using assms(1) by (simp add: ready_to_sign_def)
qed

section \<open>A message\<close>

definition demo_message :: SignatureIntent where
  "demo_message = \<lparr>si_origin = ''site'', si_kind = PersonalSign, si_chain_id = 40204, si_raw = ''6869''\<rparr>"

lemma demo_payload: "payload_bytes ref_deps ''6869'' = Some [104, 105]"
  by (simp add: payload_bytes_def digit_val_def code_def ascii_defs)

lemma length_trim_with: "length (trim_with ps s) \<le> length s"
proof (induction ps s rule: trim_with.induct)
  case (1 ps s)
  then show ?case by (subst trim_with.simps) (auto split: option.splits intro: le_trans)
qed

lemma length_trim: "length (trim s) \<le> length s"
  using length_trim_with [of ws_encodings s] length_trim_with [of "map rev ws_encodings" "rev (trim_with ws_encodings s)"]
  by (simp add: trim_def)

lemma chain_line_short: "length s < 9 \<Longrightarrow> chain_line s = None"
  using length_trim [of s] by (simp add: chain_line_def get_head_def Let_def)

lemma demo_chains: "message_chain_ids [104, 105] = Inr []"
proof -
  have "message_chain_ids (as_bytes ''hi'') = Inr []"
    by (simp add: message_chain_ids_def lines_def chomp_cr_def chain_line_short code_def)
  then show ?thesis by (simp add: as_bytes_def code_def)
qed

definition demo_signature :: Signature where
  "demo_signature = \<lparr>sg_sig_hex = hex_encode_ref (replicate 32 1 @ replicate 32 2 @ [27]), sg_kind = PersonalSign\<rparr>"

abbreviation demo_R :: rpc_env where "demo_R \<equiv> demo_env (HttpFailed [])"

lemma demo_approve:
  "approve ref_deps demo_crypto demo_R demo_vault demo_id True demo_time demo_time (demo_open_cer ref_deps demo_message w) =
     (Inr demo_signature, demo_taken_cer ref_deps demo_message w)"
proof -
  have "committed_chain ref_deps demo_message None = Inr []"
    by (simp add: committed_chain_def demo_message_def demo_payload demo_chains)
  note r = demo_ready [OF this, of w]
  have "approve_taken ref_deps demo_crypto demo_R demo_vault True demo_time demo_key (demo_pending ref_deps demo_message)
      (demo_taken_cer ref_deps demo_message w) = (Inr demo_signature, demo_taken_cer ref_deps demo_message w)"
    using r by (simp add: approve_taken_def rpc_then_def demo_message_def demo_payload demo_sign demo_signature_def)
  then show ?thesis by (simp add: approve_def parse_demo_id demo_take rpc_then_def)
qed

definition demo_signed_sys :: cer_sys where
  "demo_signed_sys = (demo_sys ref_deps demo_message False)\<lparr>y_cer := demo_taken_cer ref_deps demo_message False,
     y_signed := [(demo_key, None)]\<rparr>"

lemma demo_approve_taken:
  "approve_taken ref_deps demo_crypto demo_R demo_vault True demo_time demo_key (demo_pending ref_deps demo_message)
      (demo_taken_cer ref_deps demo_message w) = (Inr demo_signature, demo_taken_cer ref_deps demo_message w)"
  using demo_approve [of w] by (simp add: approve_def parse_demo_id demo_take rpc_then_def)

lemma demo_signed_run: "cer_run ref_deps demo_crypto demo_codec demo_signed_sys"
proof -
  let ?y = "demo_sys ref_deps demo_message False" and ?p = "demo_pending ref_deps demo_message"
  let ?y1 = "?y\<lparr>y_cer := demo_taken_cer ref_deps demo_message False, y_taken := [(demo_key, ?p)]\<rparr>"
  have "cer_step ref_deps demo_crypto demo_codec ?y ?y1"
    using cer_step.take_req [of demo_time demo_key ?y ?p "demo_taken_cer ref_deps demo_message False" ref_deps
        demo_crypto demo_codec] by (simp add: demo_take demo_sys_def cer_start_def)
  moreover have "cer_step ref_deps demo_crypto demo_codec ?y1 demo_signed_sys"
    using cer_step.finish_message [of demo_key ?p ?y1 ref_deps demo_crypto demo_R demo_vault True demo_time
        "Inr demo_signature" "demo_taken_cer ref_deps demo_message False" demo_codec]
    by (simp add: demo_approve_taken demo_signed_sys_def demo_sys_def cer_start_def)
  ultimately show ?thesis using demo_cer_run cer_run.step by blast
qed

theorem one_approval_one_signature_witness:
  "y_signed demo_signed_sys = [(demo_key, None)] \<and> distinct (map fst (y_signed demo_signed_sys)) \<and>
     bt_get demo_key (pending_map (y_cer demo_signed_sys)) = None"
  using one_approval_one_signature [OF demo_signed_run] by (simp add: demo_signed_sys_def)


theorem approve_sound_witness:
  "\<exists>p. bt_get demo_key (pending_map (demo_open_cer ref_deps demo_message False)) = Some p \<and>
     si_kind (pd_intent p) = PersonalSign \<and> payload_bytes ref_deps (si_raw (pd_intent p)) = Some [104, 105] \<and>
     bt_get demo_key (pending_map (demo_taken_cer ref_deps demo_message False)) = None"
  using approve_sound [OF demo_cer_run [of ref_deps demo_crypto demo_codec demo_message False] demo_sys_simps(1) demo_approve]
  by (auto simp: parse_demo_id demo_book_def bt_get_def demo_message_def demo_payload)

theorem expired_request_refused_witness:
  "fst (approve ref_deps demo_crypto demo_R demo_vault demo_id True demo_late demo_late
      (demo_open_cer ref_deps demo_message True)) = Inl CerExpired"
proof -
  let ?c = "demo_open_cer ref_deps demo_message True"
  have g: "bt_get demo_key (pending_map ?c) = Some (demo_pending ref_deps demo_message)"
    by (simp add: demo_book_def bt_get_def)
  have t: "c_ttl ?c \<le> cr_mono demo_late - cr_mono (pd_created (demo_pending ref_deps demo_message)) \<or>
      c_ttl ?c \<le> from_millis (cr_wall_ms demo_late - cr_wall_ms (pd_created (demo_pending ref_deps demo_message)))"
    by (simp add: demo_late_def demo_time_def PENDING_TTL_def)
  have w: "demo_key \<in> set (bk_watched (c_book ?c))" by (simp add: demo_book_def)
  from expired_request_refused [OF demo_cer_run [of ref_deps demo_crypto demo_codec demo_message True] demo_sys_simps(1)
      parse_demo_id g t, of demo_R demo_vault True demo_late] w
  show ?thesis by metis
qed

section \<open>A transaction\<close>

text \<open>A parser that reads one object, the creation of a contract of one byte.\<close>

definition demo_object :: "(string \<times> Value) list" where
  "demo_object =
     [(''data'', VString ''07''), (''nonce'', VNumber (Some 3) ''3''), (''gasPrice'', VNumber (Some 5) ''5''),
      (''gas'', VNumber (Some 90000) ''90000'')]"

definition tx_deps :: deps where
  "tx_deps = ref_deps\<lparr>json_from_str := (\<lambda>s. if CHR ''{'' \<in> set s then Some (VObject demo_object) else None)\<rparr>"

lemma hex_ref_no_brace: "hex_decode_ref s = Some bs \<Longrightarrow> CHR ''{'' \<notin> set s"
proof (induction s arbitrary: bs rule: hex_decode_ref.induct)
  case (3 c d s)
  have "digit_val 16 (CHR ''{'') = None" by (simp add: digit_val_def code_def ascii_defs)
  then have "c \<noteq> CHR ''{''" "d \<noteq> CHR ''{''" using 3(2) by (auto split: option.splits)
  then show ?case using 3 by (auto split: option.splits)
qed simp_all

lemma payload_law_tx: "payload_law tx_deps"
  using hex_ref_no_brace by (auto simp: payload_law_def tx_deps_def split: if_splits)

definition demo_tx :: SignatureIntent where
  "demo_tx = \<lparr>si_origin = ''site'', si_kind = Transaction, si_chain_id = 40204, si_raw = ''{}''\<rparr>"

definition demo_parsed :: ParsedTx where
  "demo_parsed =
     \<lparr>tx_from = None, tx_to = None, tx_value = 0, tx_data = [7], tx_nonce = Some 3, tx_gas_price = Some 5,
      tx_gas_limit = Some 90000\<rparr>"

lemma demo_decode: "decode_transaction tx_deps ''{}'' = Some (demo_parsed, build_display tx_deps None 0 [7])"
proof -
  have "parse_data tx_deps demo_object = [7]"
    by (simp add: parse_data_def demo_object_def as_str_def tx_deps_def digit_val_def code_def ascii_defs)
  moreover have "json_from_str tx_deps ''{}'' = Some (VObject demo_object)" by (simp add: tx_deps_def)
  moreover have "parse_to tx_deps demo_object = Some None" "parse_u128_quantity (map_of demo_object ''value'') = Some 0"
    "parse_u64_opt (map_of demo_object ''nonce'') = Some (Some 3)"
    "parse_u64_opt (map_of demo_object ''gasPrice'') = Some (Some 5)"
    "parse_u64_opt (map_of demo_object ''gas'') = Some (Some 90000)" "map_of demo_object ''from'' = None"
    by (simp_all add: parse_to_def parse_u128_quantity_def parse_u64_opt_def demo_object_def)
  ultimately show ?thesis by (simp add: decode_transaction_def as_object_def demo_parsed_def Let_def)
qed

definition demo_reads :: vault_reads where
  "demo_reads = \<lparr>vr_from = demo_vault, vr_sign = demo_vault, vr_sender = demo_vault\<rparr>"

definition demo_fields :: LegacyTxFields where
  "demo_fields = \<lparr>lf_nonce = 3, lf_gas_price = 5, lf_gas_limit = 90000, lf_to = None, lf_value = 0, lf_data = [7]\<rparr>"

lemma demo_complete:
  "complete_tx tx_deps demo_crypto demo_R demo_vault None ''{}'' cl = (Inr (demo_parsed, demo_fields, Supplied), cl)"
  by (simp add: complete_tx_def demo_decode rpc_then_def check_from_def check_endpoint_def source_nonce_def
      source_gas_price_def finalize_def demo_parsed_def demo_fields_def)

lemma demo_address: "\<exists>i. address tx_deps demo_crypto demo_vault = Inr i"
  by (simp add: address_def stored_info_def read_entropy_def demo_vault_def derive_key_from_entropy_def demo_crypto_def)

lemma demo_sign_tx:
  "\<exists>prep h. sign_consumed tx_deps demo_crypto demo_R demo_reads demo_id True 40204 None demo_time demo_time
      (demo_open_cer tx_deps demo_tx False, with_transport) =
     (Inr (demo_key, prep, h), demo_taken_cer tx_deps demo_tx False, with_transport)"
proof -
  have "payload_chain_id tx_deps ''{}'' = Inr None"
    by (simp add: payload_chain_id_def tx_deps_def value_get_def demo_object_def)
  then have "committed_chain tx_deps demo_tx (Some 40204) = Inr [40204]"
    by (simp add: committed_chain_def demo_tx_def)
  note r = demo_ready [OF this, of False]
  have "\<exists>s. sign_transaction demo_crypto demo_R demo_vault demo_fields 40204 = Inr s"
    by (simp add: sign_transaction_def demo_signing_key) (simp add: demo_crypto_def)
  then have "\<exists>prep h. make_prepared tx_deps demo_crypto demo_R demo_vault demo_vault demo_parsed demo_fields Supplied 40204 ''site''
      = Inr (prep, h)"
    using demo_address by (auto simp: make_prepared_def)
  then show ?thesis
    using r by (auto simp: sign_consumed_def parse_demo_id rpc_then_def demo_take sign_taken_def demo_tx_def demo_reads_def
        demo_complete)
qed

theorem tx_signature_sound_witness:
  "\<exists>p fs prep h. bt_get demo_key (pending_map (demo_open_cer tx_deps demo_tx False)) = Some p \<and>
     tx_grounds tx_deps demo_crypto demo_R demo_reads p 40204 fs prep h"
proof -
  obtain prep h where s: "sign_consumed tx_deps demo_crypto demo_R demo_reads demo_id True 40204 None demo_time demo_time
      (demo_open_cer tx_deps demo_tx False, with_transport) =
     (Inr (demo_key, prep, h), demo_taken_cer tx_deps demo_tx False, with_transport)" using demo_sign_tx by blast
  from tx_signature_sound [OF payload_law_tx demo_cer_run [of tx_deps demo_crypto demo_codec demo_tx False]
      demo_sys_simps(1) s] show ?thesis by blast
qed

lemma demo_unknown: "take_live demo_time demo_key demo_fresh = (Inl UnknownCeremony, demo_fresh)"
  by (simp add: take_live_def Let_def live_def demo_fresh_simps book_default_def book_is_expired_def bt_get_def)

theorem not_submitted_is_true_witness:
  "sign_and_broadcast_sync tx_deps demo_crypto demo_codec demo_faults demo_faults demo_R demo_reads demo_id True demo_time
     demo_time (Some 5) (Some [], demo_fresh, demo_dir) =
     (Inl (''not submitted: '' @ ceremony_error_text UnknownCeremony), Some [], demo_fresh, with_transport, demo_dir) \<and>
   sent_raw (rc_wire with_transport) = []"
proof -
  have s: "sign_consumed tx_deps demo_crypto demo_R demo_reads demo_id True CITRATE_CHAIN_ID g demo_time demo_time
      (demo_fresh, with_transport) = (Inl UnknownCeremony, demo_fresh, with_transport)" for g
    by (simp add: sign_consumed_def parse_demo_id rpc_then_def demo_unknown)
  have b: "sign_and_broadcast_sync tx_deps demo_crypto demo_codec demo_faults demo_faults demo_R demo_reads demo_id True
      demo_time demo_time (Some 5) (Some [], demo_fresh, demo_dir) =
     (Inl (''not submitted: '' @ ceremony_error_text UnknownCeremony), Some [], demo_fresh, with_transport, demo_dir)"
    using s by (simp add: sign_and_broadcast_sync_def approve_broadcast_and_notify_def approve_and_broadcast_def
        approve_and_broadcast_gated_def production_config_def broadcast_err_str_def)
  have l: "log_run demo_codec demo_orig (\<lambda>_. {}) \<lparr>ls_log = Some (c_submitted demo_fresh), ls_dir = demo_dir, ls_sent = \<lambda>_. {}\<rparr>"
    using demo_run by (simp add: demo_fresh_simps)
  have "sent_raw (rc_wire with_transport) = [] \<or> (\<exists>x. sent_raw (rc_wire with_transport) = [x])"
    using not_submitted_is_true [OF docs_codec_law l _ b] s by (simp add: starts_with_iff) blast
  then show ?thesis using b by (simp add: with_transport_def sent_raw_def)
qed

section \<open>A budgeted sign-in\<close>

lemma hex_text_ref: "CHR ''x'' \<notin> set (hex_encode_ref bs)"
proof (induction bs)
  case (Cons b bs)
  have "nibble_char n \<noteq> CHR ''x''" if "n < 16" for n
    using digit_val_nibble [OF that] by (auto simp: digit_val_def code_def ascii_defs)
  moreover have "unat b div 16 < 16" using unat_byte_less [of b] by simp
  ultimately have "nibble_char (unat b div 16) \<noteq> CHR ''x''" "nibble_char (unat b mod 16) \<noteq> CHR ''x''" by auto
  then show ?case using Cons by auto
qed simp

definition demo_sign_in :: SiweSignRequest where
  "demo_sign_in =
     \<lparr>sr_message = ''hi'', sr_attestation = None, sr_taint = Clean, sr_hic_required = False, sr_principal = ''hermes'',
      sr_claimed_origin = ''https://app.example''\<rparr>"

theorem budgeted_never_dropped_witness:
  "\<exists>v why key c'. request_siwe_budgeted ref_wb demo_crypto demo_R demo_vault demo_vault fl_ok fl_ok demo_sign_in
      \<lparr>bt_now = 5, bt_again = 6\<rparr> demo_time demo_time (demo_open_cer ref_deps demo_message False, failed_gate, sample_world) =
      (CardPending v (fall_through_text why), c', failed_gate, sample_world) \<and>
     parse_id (cv_id v) = Some key \<and> bt_get key (pending_map c') \<noteq> None"
proof -
  let ?c = "demo_open_cer ref_deps demo_message False"
  obtain out c' g' W' where r: "request_siwe_budgeted ref_wb demo_crypto demo_R demo_vault demo_vault fl_ok fl_ok demo_sign_in
      \<lparr>bt_now = 5, bt_again = 6\<rparr> demo_time demo_time (?c, failed_gate, sample_world) = (out, c', g', W')"
    by (metis prod_cases4)
  have e: "evaluate_siwe ref_wb inp 5 failed_gate = Inl FtStoreUnavailable" for inp
    by (simp add: evaluate_siwe_def failed_gate_def Let_def)
  have "budget_section ref_wb demo_crypto demo_R demo_vault demo_vault fl_ok fl_ok demo_sign_in \<lparr>bt_now = 5, bt_again = 6\<rparr>
      (failed_gate, sample_world) = (Inl FtStoreUnavailable, failed_gate, sample_world)"
    by (simp add: budget_section_def Let_def e)
  then have g: "g' = failed_gate" "W' = sample_world"
    using r by (auto simp: request_siwe_budgeted_def Let_def split: sum.splits prod.splits)
  have "hex_law ref_wb" "hex_text_law ref_wb"
    using hex_law_ref hex_text_ref by (auto simp: ref_wb_def hex_text_law_def)
  from budgeted_never_dropped [OF this demo_cer_run [of ref_deps demo_crypto demo_codec demo_message False] demo_sys_simps(1) _ r]
  show ?thesis using r e g by (simp add: u64_max_def) blast
qed


end
