(* ===== verification/Custody.thy ===== *)
theory Custody
  imports Wallet
begin

text \<open>
  \<open>kit/src/custody.rs\<close>: the vault. The state of the vault and of what it talks to is one record: the
  key ring, the envelope file and its temporary file, the session. Every interaction with
  the outside (a key-ring call, a random number, a file operation, a clock reading) is numbered, and
  the environment \<open>E\<close> says how the n-th one went; \<open>cw_trace\<close> lists what was handed to the file system.
  Argon2id, AES-256-GCM and the JSON encodings are the record \<open>custody_lib\<close>.
\<close>

section \<open>Data\<close>

definition KEY_LEN :: nat where "KEY_LEN = 32"
definition NONCE_LEN :: nat where "NONCE_LEN = 12"
definition SALT_LEN :: nat where "SALT_LEN = 16"
definition MAX_ATTEMPTS :: nat where "MAX_ATTEMPTS = 5"
definition LOCKOUT_COOLOFF_MS :: nat where "LOCKOUT_COOLOFF_MS = 5 * 60 * 1000"
definition ENVELOPE_VERSION :: nat where "ENVELOPE_VERSION = 2"
definition AUTO_PASSPHRASE_LEN :: nat where "AUTO_PASSPHRASE_LEN = 32"

definition AAD_WRAPPED_DK :: string where "AAD_WRAPPED_DK = ''wrapped_dk''"
definition AAD_HEADER :: string where "AAD_HEADER = ''header''"
definition AAD_LOCKOUT :: string where "AAD_LOCKOUT = ''lockout''"

definition is_reserved_domain_tag :: "string \<Rightarrow> bool" where
  "is_reserved_domain_tag name \<longleftrightarrow> name = AAD_WRAPPED_DK \<or> name = AAD_HEADER \<or> name = AAD_LOCKOUT"

definition KEYRING_MASTER_ACCOUNT :: string where "KEYRING_MASTER_ACCOUNT = ''custody-master-key''"
definition KEYRING_GENERATION_ACCOUNT :: string where "KEYRING_GENERATION_ACCOUNT = ''custody-generation''"
definition KEYRING_LOCKOUT_GEN_ACCOUNT :: string where
  "KEYRING_LOCKOUT_GEN_ACCOUNT = ''custody-lockout-generation''"
definition KEYRING_AUTO_PASSPHRASE_ACCOUNT :: string where
  "KEYRING_AUTO_PASSPHRASE_ACCOUNT = ''custody-auto-passphrase''"

definition BACKEND_SLOT_PREFIXES :: "string list" where
  "BACKEND_SLOT_PREFIXES = [''oidc-'', ''wallet-'', ''connection-'', ''social.'']"

definition is_backend_reserved_slot :: "string \<Rightarrow> bool" where
  "is_backend_reserved_slot slot \<longleftrightarrow> list_ex (\<lambda>p. starts_with p slot) BACKEND_SLOT_PREFIXES"

definition WALLET_SLOT_PREFIX :: string where "WALLET_SLOT_PREFIX = ''wallet-''"

definition NUL :: char where "NUL = CHR 0x00"

definition CHECK_SLOT :: string where "CHECK_SLOT = NUL # ''custody-check''"
definition CHECK_PLAINTEXT :: bytes where "CHECK_PLAINTEXT = as_bytes ''citrate-core custody check-slot v1''"

fun custody_error_text :: "CustodyError \<Rightarrow> string" where
  "custody_error_text Denied = ''denied''"
| "custody_error_text LockedOut = ''locked out: too many attempts, retry later''"
| "custody_error_text KeyringUnavailable = ''keyring unavailable''"
| "custody_error_text Corrupt = ''custody envelope corrupt or tampered''"
| "custody_error_text VersionUnsupported = ''custody envelope version unsupported or downgraded''"
| "custody_error_text (Io m) = ''custody io error: '' @ m"

record SealedSlot =
  ss_nonce :: bytes
  ss_ct :: bytes

record CustodyEnvelope =
  ev_version :: nat
  ev_salt :: bytes
  ev_wrapped_dk :: SealedSlot
  ev_header :: SealedSlot
  ev_lockout :: SealedSlot
  ev_slots :: "(string \<times> SealedSlot) list"

record Header =
  hd_generation :: nat
  hd_slots :: "(string \<times> bytes) list"

definition fingerprint :: "(string \<times> SealedSlot) list \<Rightarrow> (string \<times> bytes) list" where
  "fingerprint slots = map (\<lambda>(name, s). (name, ss_nonce s)) slots"

record LockoutState =
  lk_failures :: nat
  lk_locked_until_ms :: "nat option"
  lk_generation :: nat
  lk_anchor_initialized :: "bool option"

definition lockout_default :: LockoutState where
  "lockout_default =
     \<lparr>lk_failures = 0, lk_locked_until_ms = None, lk_generation = 0, lk_anchor_initialized = None\<rparr>"

record Session =
  se_data_key :: bytes
  se_unlocked_at :: nat

record SlotInfo =
  sli_name :: string
  sli_bytes :: nat

section \<open>The crates and the environment\<close>

record custody_lib =
  q_params_error :: "string option"
  q_hash_password :: "bytes \<Rightarrow> bytes \<Rightarrow> bytes option"
  q_encrypt :: "bytes \<Rightarrow> bytes \<Rightarrow> bytes \<Rightarrow> bytes \<Rightarrow> bytes option"
  q_decrypt :: "bytes \<Rightarrow> bytes \<Rightarrow> bytes \<Rightarrow> bytes \<Rightarrow> bytes option"
  q_header_to_vec :: "Header \<Rightarrow> string + bytes"
  q_header_from_slice :: "bytes \<Rightarrow> Header option"
  q_lockout_to_vec :: "LockoutState \<Rightarrow> string + bytes"
  q_lockout_from_slice :: "bytes \<Rightarrow> LockoutState option"
  q_envelope_to_vec :: "CustodyEnvelope \<Rightarrow> string + bytes"
  q_envelope_from_slice :: "bytes \<Rightarrow> CustodyEnvelope option"

text \<open>How a save can go wrong; a failed write leaves some bytes in the temporary file.\<close>

datatype save_fault =
    NoDir string
  | NoCreate string
  | WriteFailed string bytes
  | SyncFailed string
  | RenameFailed string

text \<open>\<open>ce_stored\<close> says whether a key-ring write that answers with an error was made all the same.\<close>

record custody_env =
  ce_keyring_ok :: "nat \<Rightarrow> bool"
  ce_stored :: "nat \<Rightarrow> bool"
  ce_random :: "nat \<Rightarrow> nat \<Rightarrow> bytes"
  ce_read_ok :: "nat \<Rightarrow> bool"
  ce_save :: "nat \<Rightarrow> save_fault option"
  ce_now_ms :: "nat \<Rightarrow> nat"
  ce_instant :: "nat \<Rightarrow> nat"

record custody_world =
  cw_tick :: nat
  cw_keyring :: "string \<Rightarrow> bytes option"
  cw_file :: "bytes option"
  cw_tmp :: "bytes option"
  cw_trace :: "bytes list"
  cw_session :: "Session option"
  cw_autolock_secs :: nat
  cw_kdf :: nat

definition tick :: "custody_world \<Rightarrow> custody_world" where
  "tick w = w\<lparr>cw_tick := Suc (cw_tick w)\<rparr>"

text \<open>\<open>OsKeyring\<close>.\<close>

definition keyring_get :: "custody_env \<Rightarrow> string \<Rightarrow> custody_world \<Rightarrow> (CustodyError + bytes option) \<times> custody_world" where
  "keyring_get E account w =
     (if ce_keyring_ok E (cw_tick w) then Inr (cw_keyring w account) else Inl KeyringUnavailable, tick w)"

definition keyring_set :: "custody_env \<Rightarrow> string \<Rightarrow> bytes \<Rightarrow> custody_world \<Rightarrow> (CustodyError + unit) \<times> custody_world" where
  "keyring_set E account secret w =
     (let ok = ce_keyring_ok E (cw_tick w);
          w' = (if ok \<or> ce_stored E (cw_tick w) then w\<lparr>cw_keyring := (cw_keyring w)(account \<mapsto> secret)\<rparr> else w)
      in (if ok then Inr () else Inl KeyringUnavailable, tick w'))"

definition keyring_delete :: "custody_env \<Rightarrow> string \<Rightarrow> custody_world \<Rightarrow> (CustodyError + unit) \<times> custody_world" where
  "keyring_delete E account w =
     (let ok = ce_keyring_ok E (cw_tick w);
          w' = (if ok \<or> ce_stored E (cw_tick w) then w\<lparr>cw_keyring := (cw_keyring w)(account := None)\<rparr> else w)
      in (if ok then Inr () else Inl KeyringUnavailable, tick w'))"

text \<open>\<open>fill_bytes\<close> of \<open>n\<close> bytes.\<close>

definition fill_bytes :: "custody_env \<Rightarrow> nat \<Rightarrow> custody_world \<Rightarrow> bytes \<times> custody_world" where
  "fill_bytes E n w = (ce_random E (cw_tick w) n, tick w)"

definition vault_new :: "(string \<Rightarrow> bytes option) \<Rightarrow> bytes option \<Rightarrow> nat \<Rightarrow> custody_world" where
  "vault_new keyring file autolock_mins =
     \<lparr>cw_tick = 0, cw_keyring = keyring, cw_file = file, cw_tmp = None, cw_trace = [], cw_session = None,
      cw_autolock_secs = autolock_mins * 60, cw_kdf = 0\<rparr>"

definition is_initialized :: "custody_world \<Rightarrow> bool" where
  "is_initialized w \<longleftrightarrow> cw_file w \<noteq> None"

definition set_autolock_mins :: "nat \<Rightarrow> custody_world \<Rightarrow> custody_world" where
  "set_autolock_mins mins w = w\<lparr>cw_autolock_secs := mins * 60\<rparr>"

section \<open>Sealing\<close>

definition derive_key :: "custody_lib \<Rightarrow> bytes \<Rightarrow> bytes \<Rightarrow> CustodyError + bytes" where
  "derive_key Q passphrase salt =
     (case q_params_error Q of
        Some e \<Rightarrow> Inl (Io (''argon2 params: '' @ e))
      | None \<Rightarrow> ok_or Denied (q_hash_password Q passphrase salt))"

definition derive_passphrase_key :: "custody_lib \<Rightarrow> bytes \<Rightarrow> bytes \<Rightarrow> CustodyError + bytes" where
  "derive_passphrase_key Q passphrase salt = derive_key Q passphrase salt"

definition derive_key_counted ::
  "custody_lib \<Rightarrow> bytes \<Rightarrow> bytes \<Rightarrow> custody_world \<Rightarrow> (CustodyError + bytes) \<times> custody_world" where
  "derive_key_counted Q passphrase salt w = (derive_key Q passphrase salt, w\<lparr>cw_kdf := Suc (cw_kdf w)\<rparr>)"

definition aad :: "nat \<Rightarrow> string \<Rightarrow> bytes" where
  "aad version context = word_of_nat version # as_bytes context"

definition seal ::
  "custody_lib \<Rightarrow> custody_env \<Rightarrow> bytes \<Rightarrow> bytes \<Rightarrow> bytes \<Rightarrow> custody_world \<Rightarrow> (CustodyError + SealedSlot) \<times> custody_world" where
  "seal Q E key plaintext ad w =
     (let (nonce, w') = fill_bytes E NONCE_LEN w
      in (case q_encrypt Q key nonce ad plaintext of
            None \<Rightarrow> Inl Corrupt
          | Some ct \<Rightarrow> Inr \<lparr>ss_nonce = nonce, ss_ct = ct\<rparr>, w'))"

definition unseal :: "custody_lib \<Rightarrow> bytes \<Rightarrow> SealedSlot \<Rightarrow> bytes \<Rightarrow> CustodyError + bytes" where
  "unseal Q key slot ad =
     (if length (ss_nonce slot) \<noteq> NONCE_LEN then Inl Corrupt
      else ok_or Denied (q_decrypt Q key (ss_nonce slot) ad (ss_ct slot)))"

section \<open>The envelope file\<close>

definition load_envelope ::
  "custody_lib \<Rightarrow> custody_env \<Rightarrow> custody_world \<Rightarrow> (CustodyError + CustodyEnvelope) \<times> custody_world" where
  "load_envelope Q E w =
     (and_then (ok_or Denied (if ce_read_ok E (cw_tick w) then cw_file w else None)) (\<lambda>bytes.
      and_then (ok_or Corrupt (q_envelope_from_slice Q bytes)) (\<lambda>env.
      if ev_version env \<noteq> ENVELOPE_VERSION then Inl VersionUnsupported else Inr env)), tick w)"

definition save_envelope ::
  "custody_lib \<Rightarrow> custody_env \<Rightarrow> CustodyEnvelope \<Rightarrow> custody_world \<Rightarrow> (CustodyError + unit) \<times> custody_world" where
  "save_envelope Q E env w =
     (let w0 = tick w in
      case ce_save E (cw_tick w) of
        Some (NoDir e) \<Rightarrow> (Inl (Io e), w0)
      | fault \<Rightarrow>
        (case q_envelope_to_vec Q env of
           Inl e \<Rightarrow> (Inl (Io e), w0)
         | Inr bytes \<Rightarrow>
           (let w1 = w0\<lparr>cw_trace := bytes # cw_trace w0\<rparr> in
            case fault of
              Some (NoCreate e) \<Rightarrow> (Inl (Io e), w0)
            | Some (WriteFailed e part) \<Rightarrow> (Inl (Io e), w1\<lparr>cw_tmp := Some part\<rparr>)
            | Some (SyncFailed e) \<Rightarrow> (Inl (Io e), w1\<lparr>cw_tmp := Some bytes\<rparr>)
            | Some (RenameFailed e) \<Rightarrow> (Inl (Io e), w1\<lparr>cw_tmp := Some bytes\<rparr>)
            | _ \<Rightarrow> (Inr (), w1\<lparr>cw_tmp := None, cw_file := Some bytes\<rparr>))))"

section \<open>The key ring\<close>

definition master_key :: "custody_env \<Rightarrow> custody_world \<Rightarrow> (CustodyError + bytes) \<times> custody_world" where
  "master_key E w =
     rpc_map (keyring_get E KEYRING_MASTER_ACCOUNT w) (\<lambda>r.
       case r of
         Some bytes \<Rightarrow> if length bytes \<noteq> KEY_LEN then Inl KeyringUnavailable else Inr bytes
       | None \<Rightarrow> Inl KeyringUnavailable)"

definition read_anchor :: "custody_env \<Rightarrow> string \<Rightarrow> custody_world \<Rightarrow> (CustodyError + nat option) \<times> custody_world" where
  "read_anchor E account w =
     rpc_map (keyring_get E account w) (\<lambda>r.
       case r of
         Some bytes \<Rightarrow> if length bytes \<noteq> 8 then Inl Corrupt else Inr (Some (be_val bytes))
       | None \<Rightarrow> Inr None)"

definition bump_anchor :: "custody_env \<Rightarrow> string \<Rightarrow> nat \<Rightarrow> custody_world \<Rightarrow> (CustodyError + unit) \<times> custody_world" where
  "bump_anchor E account gen w =
     rpc_then (read_anchor E account w) (\<lambda>r w.
     let cur = (case r of Some n \<Rightarrow> n | None \<Rightarrow> 0) in
     if gen > cur then keyring_set E account (be_bytes 8 gen) w else (Inr (), w))"

definition seed_anchor :: "custody_env \<Rightarrow> string \<Rightarrow> nat \<Rightarrow> custody_world \<Rightarrow> (CustodyError + unit) \<times> custody_world" where
  "seed_anchor E account gen w =
     rpc_then (read_anchor E account w) (\<lambda>r w.
     if r = None then keyring_set E account (be_bytes 8 gen) w else bump_anchor E account gen w)"

definition read_high_water :: "custody_env \<Rightarrow> custody_world \<Rightarrow> (CustodyError + nat option) \<times> custody_world" where
  "read_high_water E w = read_anchor E KEYRING_GENERATION_ACCOUNT w"

definition bump_high_water :: "custody_env \<Rightarrow> nat \<Rightarrow> custody_world \<Rightarrow> (CustodyError + unit) \<times> custody_world" where
  "bump_high_water E gen w = bump_anchor E KEYRING_GENERATION_ACCOUNT gen w"

definition read_lockout_hw :: "custody_env \<Rightarrow> custody_world \<Rightarrow> (CustodyError + nat option) \<times> custody_world" where
  "read_lockout_hw E w = read_anchor E KEYRING_LOCKOUT_GEN_ACCOUNT w"

definition bump_lockout_hw :: "custody_env \<Rightarrow> nat \<Rightarrow> custody_world \<Rightarrow> (CustodyError + unit) \<times> custody_world" where
  "bump_lockout_hw E gen w = bump_anchor E KEYRING_LOCKOUT_GEN_ACCOUNT gen w"

definition enforce_high_water :: "custody_env \<Rightarrow> nat \<Rightarrow> custody_world \<Rightarrow> (CustodyError + unit) \<times> custody_world" where
  "enforce_high_water E generation w =
     rpc_then (read_high_water E w) (\<lambda>r w.
     case r of
       Some hw \<Rightarrow> if generation < hw then (Inl Corrupt, w) else bump_high_water E generation w
     | None \<Rightarrow> bump_high_water E generation w)"

section \<open>The sealed blocks\<close>

definition seal_header ::
  "custody_lib \<Rightarrow> custody_env \<Rightarrow> bytes \<Rightarrow> nat \<Rightarrow> nat \<Rightarrow> (string \<times> SealedSlot) list \<Rightarrow> custody_world
     \<Rightarrow> (CustodyError + SealedSlot) \<times> custody_world" where
  "seal_header Q E dek version generation slots w =
     rpc_then (map_err Io (q_header_to_vec Q \<lparr>hd_generation = generation, hd_slots = fingerprint slots\<rparr>), w)
       (\<lambda>pt w. seal Q E dek pt (aad version AAD_HEADER) w)"

definition open_and_verify_header :: "custody_lib \<Rightarrow> bytes \<Rightarrow> CustodyEnvelope \<Rightarrow> CustodyError + nat" where
  "open_and_verify_header Q dek env =
     and_then (map_err (\<lambda>_. Corrupt) (unseal Q dek (ev_header env) (aad (ev_version env) AAD_HEADER))) (\<lambda>pt.
     and_then (ok_or Corrupt (q_header_from_slice Q pt)) (\<lambda>header.
     if hd_slots header \<noteq> fingerprint (ev_slots env) then Inl Corrupt else Inr (hd_generation header)))"

text \<open>Every access checks the header against the slots and its generation against the anchor.\<close>

definition guard_fresh ::
  "custody_lib \<Rightarrow> custody_env \<Rightarrow> bytes \<Rightarrow> CustodyEnvelope \<Rightarrow> custody_world \<Rightarrow> (CustodyError + nat) \<times> custody_world" where
  "guard_fresh Q E data_key env w =
     rpc_then (open_and_verify_header Q data_key env, w) (\<lambda>generation w.
     rpc_then (enforce_high_water E generation w) (\<lambda>_ w.
     (Inr generation, w)))"

definition seal_lockout ::
  "custody_lib \<Rightarrow> custody_env \<Rightarrow> bytes \<Rightarrow> nat \<Rightarrow> LockoutState \<Rightarrow> custody_world
     \<Rightarrow> (CustodyError + SealedSlot) \<times> custody_world" where
  "seal_lockout Q E mek version state w =
     rpc_then (map_err Io (q_lockout_to_vec Q state), w)
       (\<lambda>pt w. seal Q E mek pt (aad version AAD_LOCKOUT) w)"

definition open_lockout :: "custody_lib \<Rightarrow> bytes \<Rightarrow> CustodyEnvelope \<Rightarrow> CustodyError + LockoutState" where
  "open_lockout Q mek env =
     and_then (map_err (\<lambda>_. Corrupt) (unseal Q mek (ev_lockout env) (aad (ev_version env) AAD_LOCKOUT))) (\<lambda>pt.
     ok_or Corrupt (q_lockout_from_slice Q pt))"

definition heal_legacy_anchor ::
  "custody_lib \<Rightarrow> custody_env \<Rightarrow> LockoutState \<Rightarrow> CustodyEnvelope \<Rightarrow> bytes \<Rightarrow> custody_world
     \<Rightarrow> (CustodyError + unit) \<times> custody_world" where
  "heal_legacy_anchor Q E lockout env mek w =
     rpc_then (seal_lockout Q E mek (ev_version env) (lockout\<lparr>lk_anchor_initialized := Some True\<rparr>) w) (\<lambda>sealed w.
     save_envelope Q E (env\<lparr>ev_lockout := sealed\<rparr>) w)"

definition enforce_anchor_initialized ::
  "custody_lib \<Rightarrow> custody_env \<Rightarrow> LockoutState \<Rightarrow> CustodyEnvelope \<Rightarrow> bytes \<Rightarrow> custody_world
     \<Rightarrow> (CustodyError + unit) \<times> custody_world" where
  "enforce_anchor_initialized Q E lockout env mek w =
     rpc_then (read_high_water E w) (\<lambda>r w.
     case (lk_anchor_initialized lockout, r \<noteq> None) of
       (Some True, False) \<Rightarrow> (Inl Corrupt, w)
     | (Some _, _) \<Rightarrow> (Inr (), w)
     | (None, True) \<Rightarrow> heal_legacy_anchor Q E lockout env mek w
     | (None, False) \<Rightarrow> (Inl Corrupt, w))"

definition mint_master_key :: "custody_env \<Rightarrow> custody_world \<Rightarrow> (CustodyError + bytes) \<times> custody_world" where
  "mint_master_key E w =
     rpc_then (keyring_get E KEYRING_MASTER_ACCOUNT w) (\<lambda>r w.
     if r \<noteq> None then (Inl Corrupt, w)
     else
       (let (k, w1) = fill_bytes E KEY_LEN w
        in rpc_then (keyring_set E KEYRING_MASTER_ACCOUNT k w1) (\<lambda>_ w. (Inr k, w))))"

definition combine_keys :: "bytes \<Rightarrow> bytes \<Rightarrow> bytes" where
  "combine_keys mek kek = map2 xor mek kek"

section \<open>Creating the vault\<close>

definition init_inner :: "custody_lib \<Rightarrow> custody_env \<Rightarrow> bytes \<Rightarrow> custody_world \<Rightarrow> (CustodyError + unit) \<times> custody_world" where
  "init_inner Q E passphrase w =
     (if is_initialized w then (Inl (Io ''vault already initialized''), w)
      else
        rpc_then (mint_master_key E w) (\<lambda>mek w.
        let (salt, w) = fill_bytes E SALT_LEN w in
        rpc_then (derive_key_counted Q passphrase salt w) (\<lambda>kek w.
        let wrap_key = combine_keys mek kek; (dek, w) = fill_bytes E KEY_LEN w; v = ENVELOPE_VERSION in
        rpc_then (seal Q E wrap_key dek (aad v AAD_WRAPPED_DK) w) (\<lambda>wrapped_dk w.
        rpc_then (seal Q E dek CHECK_PLAINTEXT (aad v CHECK_SLOT) w) (\<lambda>check w.
        let slots = bt_insert CHECK_SLOT check [] in
        rpc_then (seal_header Q E dek v 0 slots w) (\<lambda>header w.
        rpc_then (seal_lockout Q E mek v (lockout_default\<lparr>lk_anchor_initialized := Some True\<rparr>) w) (\<lambda>lockout w.
        rpc_then (save_envelope Q E
            \<lparr>ev_version = v, ev_salt = salt, ev_wrapped_dk = wrapped_dk, ev_header = header,
             ev_lockout = lockout, ev_slots = slots\<rparr> w) (\<lambda>_ w.
        seed_anchor E KEYRING_GENERATION_ACCOUNT 0 w))))))))"

definition vault_init :: "custody_lib \<Rightarrow> custody_env \<Rightarrow> bytes \<Rightarrow> custody_world \<Rightarrow> (CustodyError + unit) \<times> custody_world" where
  "vault_init Q E passphrase w = init_inner Q E passphrase w"

section \<open>Unlocking\<close>

definition DUMMY_SALT :: bytes where "DUMMY_SALT = replicate SALT_LEN 0x5A"

definition now_unix_ms :: "custody_env \<Rightarrow> custody_world \<Rightarrow> nat \<times> custody_world" where
  "now_unix_ms E w = (ce_now_ms E (cw_tick w), tick w)"

definition verify_session ::
  "custody_lib \<Rightarrow> custody_env \<Rightarrow> bytes \<Rightarrow> CustodyEnvelope \<Rightarrow> custody_world \<Rightarrow> (CustodyError + Session) \<times> custody_world" where
  "verify_session Q E dek env w =
     (if length dek \<noteq> KEY_LEN then (Inl Corrupt, w)
      else
        rpc_then (guard_fresh Q E dek env w) (\<lambda>_ w.
        rpc_then (ok_or Corrupt (bt_get CHECK_SLOT (ev_slots env)), w) (\<lambda>check w.
        rpc_then (unseal Q dek check (aad (ev_version env) CHECK_SLOT), w) (\<lambda>pt w.
        if pt \<noteq> CHECK_PLAINTEXT then (Inl Denied, w)
        else (Inr \<lparr>se_data_key = dek, se_unlocked_at = ce_instant E (cw_tick w)\<rparr>, tick w)))))"

definition try_derive_session ::
  "custody_lib \<Rightarrow> custody_env \<Rightarrow> bytes \<Rightarrow> bytes \<Rightarrow> CustodyEnvelope \<Rightarrow> custody_world
     \<Rightarrow> (CustodyError + Session) \<times> custody_world" where
  "try_derive_session Q E passphrase mek env w =
     rpc_then (derive_key_counted Q passphrase (ev_salt env) w) (\<lambda>kek w.
     rpc_then (unseal Q (combine_keys mek kek) (ev_wrapped_dk env) (aad (ev_version env) AAD_WRAPPED_DK), w) (\<lambda>dek w.
     verify_session Q E dek env w))"

definition write_lockout ::
  "custody_lib \<Rightarrow> custody_env \<Rightarrow> bytes \<Rightarrow> CustodyEnvelope \<Rightarrow> LockoutState \<Rightarrow> custody_world
     \<Rightarrow> (CustodyError + unit) \<times> custody_world" where
  "write_lockout Q E mek env state w =
     rpc_then (read_lockout_hw E w) (\<lambda>r w.
     let next = wrap_inc (case r of Some n \<Rightarrow> n | None \<Rightarrow> 0) in
     rpc_then (bump_lockout_hw E next w) (\<lambda>_ w.
     rpc_then (seal_lockout Q E mek (ev_version env)
                 (state\<lparr>lk_generation := next, lk_anchor_initialized := Some True\<rparr>) w) (\<lambda>sealed w.
     save_envelope Q E (env\<lparr>ev_lockout := sealed\<rparr>) w)))"

text \<open>What a failed trial does to the throttle.\<close>

definition count_failure ::
  "custody_env \<Rightarrow> LockoutState \<Rightarrow> custody_world \<Rightarrow> LockoutState \<times> custody_world" where
  "count_failure E lockout w =
     (let lockout = lockout\<lparr>lk_failures := (lk_failures lockout + 1) mod 2 ^ 32\<rparr> in
      if lk_failures lockout \<ge> MAX_ATTEMPTS
      then (let (now, w) = now_unix_ms E w
            in (lockout\<lparr>lk_locked_until_ms := Some ((now + LOCKOUT_COOLOFF_MS) mod 2 ^ 64)\<rparr>, w))
      else (lockout, w))"

text \<open>The trial itself, once the throttle lets it happen; \<open>elapsed\<close> says that a cool-off just ended.\<close>

definition unlock_trial ::
  "custody_lib \<Rightarrow> custody_env \<Rightarrow> bytes \<Rightarrow> bytes \<Rightarrow> CustodyEnvelope \<Rightarrow> LockoutState \<Rightarrow> bool \<Rightarrow> custody_world
     \<Rightarrow> (CustodyError + unit) \<times> custody_world" where
  "unlock_trial Q E passphrase mek env lockout elapsed w =
     (case try_derive_session Q E passphrase mek env w of
        (Inr session, w) \<Rightarrow>
          rpc_then (if lk_failures lockout \<noteq> 0 \<or> lk_locked_until_ms lockout \<noteq> None \<or> elapsed
                    then write_lockout Q E mek env lockout_default w else (Inr (), w)) (\<lambda>_ w.
          (Inr (), w\<lparr>cw_session := Some session\<rparr>))
      | (Inl e, w) \<Rightarrow>
          if e = Denied \<or> e = Corrupt
          then (let (lockout, w) = count_failure E lockout w
                in (Inl e, snd (write_lockout Q E mek env lockout w)))
          else (Inl e, w))"

text \<open>The throttle: a block older than its anchor is refused, then a running cool-off.\<close>

definition unlock_throttled ::
  "custody_lib \<Rightarrow> custody_env \<Rightarrow> bytes \<Rightarrow> bytes \<Rightarrow> CustodyEnvelope \<Rightarrow> LockoutState \<Rightarrow> custody_world
     \<Rightarrow> (CustodyError + unit) \<times> custody_world" where
  "unlock_throttled Q E passphrase mek env lockout w =
     rpc_then (read_lockout_hw E w) (\<lambda>hw w.
     if (case hw of Some n \<Rightarrow> lk_generation lockout < n | None \<Rightarrow> False) then (Inl Corrupt, w) else
     case lk_locked_until_ms lockout of
       None \<Rightarrow> unlock_trial Q E passphrase mek env lockout False w
     | Some until_ms \<Rightarrow>
       (let (now, w) = now_unix_ms E w in
        if now < until_ms then (Inl LockedOut, w)
        else unlock_trial Q E passphrase mek env (lockout\<lparr>lk_failures := 0, lk_locked_until_ms := None\<rparr>) True w))"

definition unlock_inner :: "custody_lib \<Rightarrow> custody_env \<Rightarrow> bytes \<Rightarrow> custody_world \<Rightarrow> (CustodyError + unit) \<times> custody_world" where
  "unlock_inner Q E passphrase w =
     (if \<not> is_initialized w then (Inl Denied, snd (derive_key_counted Q passphrase DUMMY_SALT w))
      else
        rpc_then (master_key E w) (\<lambda>mek w.
        rpc_then (load_envelope Q E w) (\<lambda>env w.
        rpc_then (open_lockout Q mek env, w) (\<lambda>lockout w.
        rpc_then (enforce_anchor_initialized Q E lockout env mek w) (\<lambda>_ w.
        unlock_throttled Q E passphrase mek env lockout w)))))"

definition vault_unlock :: "custody_lib \<Rightarrow> custody_env \<Rightarrow> bytes \<Rightarrow> custody_world \<Rightarrow> (CustodyError + unit) \<times> custody_world" where
  "vault_unlock Q E passphrase w = unlock_inner Q E passphrase w"

section \<open>The session\<close>

text \<open>An \<open>Instant\<close> is read only when there is a session and auto-lock is on.\<close>

definition expire_if_stale :: "custody_env \<Rightarrow> custody_world \<Rightarrow> custody_world" where
  "expire_if_stale E w =
     (if cw_autolock_secs w = 0 then w
      else
        (case cw_session w of
           None \<Rightarrow> w
         | Some s \<Rightarrow>
           if ce_instant E (cw_tick w) - se_unlocked_at s \<ge> cw_autolock_secs w * 1000000000
           then tick (w\<lparr>cw_session := None\<rparr>) else tick w))"

definition is_unlocked :: "custody_env \<Rightarrow> custody_world \<Rightarrow> bool \<times> custody_world" where
  "is_unlocked E w = (let w = expire_if_stale E w in (cw_session w \<noteq> None, w))"

definition vault_lock :: "custody_world \<Rightarrow> custody_world" where
  "vault_lock w = w\<lparr>cw_session := None\<rparr>"

definition with_session_key :: "custody_env \<Rightarrow> custody_world \<Rightarrow> (CustodyError + bytes) \<times> custody_world" where
  "with_session_key E w =
     (let w = expire_if_stale E w in
      (case cw_session w of Some s \<Rightarrow> Inr (se_data_key s) | None \<Rightarrow> Inl Denied, w))"

definition get_or_create_auto_passphrase ::
  "custody_env \<Rightarrow> custody_world \<Rightarrow> (CustodyError + bytes) \<times> custody_world" where
  "get_or_create_auto_passphrase E w =
     rpc_then (keyring_get E KEYRING_AUTO_PASSPHRASE_ACCOUNT w) (\<lambda>r w.
     case r of
       Some bytes \<Rightarrow> (if length bytes = AUTO_PASSPHRASE_LEN then Inr bytes else Inl Corrupt, w)
     | None \<Rightarrow>
       if is_initialized w then (Inl KeyringUnavailable, w)
       else
         (let (pass, w) = fill_bytes E AUTO_PASSPHRASE_LEN w
          in rpc_then (keyring_set E KEYRING_AUTO_PASSPHRASE_ACCOUNT pass w) (\<lambda>_ w. (Inr pass, w))))"

definition ensure_auto_unlocked :: "custody_lib \<Rightarrow> custody_env \<Rightarrow> custody_world \<Rightarrow> (CustodyError + unit) \<times> custody_world" where
  "ensure_auto_unlocked Q E w =
     (let (unlocked, w) = is_unlocked E w in
      if unlocked then (Inr (), w)
      else
        rpc_then (get_or_create_auto_passphrase E w) (\<lambda>pass w.
        rpc_then (if \<not> is_initialized w then vault_init Q E pass w else (Inr (), w)) (\<lambda>_ w.
        vault_unlock Q E pass w)))"

section \<open>Slots\<close>

text \<open>The master-sealed block of a loaded envelope, checked against the anchor.\<close>

definition guard_anchor ::
  "custody_lib \<Rightarrow> custody_env \<Rightarrow> CustodyEnvelope \<Rightarrow> custody_world \<Rightarrow> (CustodyError + bytes \<times> LockoutState) \<times> custody_world" where
  "guard_anchor Q E env w =
     rpc_then (master_key E w) (\<lambda>mek w.
     rpc_then (open_lockout Q mek env, w) (\<lambda>lockout w.
     rpc_then (enforce_anchor_initialized Q E lockout env mek w) (\<lambda>_ w.
     (Inr (mek, lockout), w))))"

text \<open>A mutation carries a healed block into the envelope it saves.\<close>

definition carry_heal ::
  "custody_lib \<Rightarrow> custody_env \<Rightarrow> bytes \<Rightarrow> LockoutState \<Rightarrow> CustodyEnvelope \<Rightarrow> custody_world
     \<Rightarrow> (CustodyError + CustodyEnvelope) \<times> custody_world" where
  "carry_heal Q E mek lockout env w =
     (if lk_anchor_initialized lockout \<noteq> Some True
      then rpc_then (seal_lockout Q E mek (ev_version env) (lockout\<lparr>lk_anchor_initialized := Some True\<rparr>) w)
             (\<lambda>sealed w. (Inr (env\<lparr>ev_lockout := sealed\<rparr>), w))
      else (Inr env, w))"

text \<open>The end of a mutation: the new header, the anchor, then the file.\<close>

definition commit_slots ::
  "custody_lib \<Rightarrow> custody_env \<Rightarrow> bytes \<Rightarrow> CustodyEnvelope \<Rightarrow> (string \<times> SealedSlot) list \<Rightarrow> nat \<Rightarrow> custody_world
     \<Rightarrow> (CustodyError + unit) \<times> custody_world" where
  "commit_slots Q E data_key env slots generation w =
     rpc_then (ok_or Corrupt (checked_add generation 1), w) (\<lambda>next_gen w.
     rpc_then (seal_header Q E data_key (ev_version env) next_gen slots w) (\<lambda>header w.
     rpc_then (bump_high_water E next_gen w) (\<lambda>_ w.
     save_envelope Q E (env\<lparr>ev_slots := slots, ev_header := header\<rparr>) w)))"

definition reserved_name :: "string \<Rightarrow> bool" where
  "reserved_name slot \<longleftrightarrow> starts_with [NUL] slot"

definition put_inner ::
  "custody_lib \<Rightarrow> custody_env \<Rightarrow> string \<Rightarrow> bytes \<Rightarrow> custody_world \<Rightarrow> (CustodyError + unit) \<times> custody_world" where
  "put_inner Q E slot bytes w =
     (if reserved_name slot then (Inl (Io ''reserved slot name''), w)
      else if is_reserved_domain_tag slot then (Inl (Io ''reserved slot name''), w)
      else
        rpc_then (with_session_key E w) (\<lambda>data_key w.
        rpc_then (load_envelope Q E w) (\<lambda>env w.
        rpc_then (guard_anchor Q E env w) (\<lambda>(mek, lockout) w.
        rpc_then (carry_heal Q E mek lockout env w) (\<lambda>env w.
        rpc_then (seal Q E data_key bytes (aad (ev_version env) slot) w) (\<lambda>sealed w.
        rpc_then (guard_fresh Q E data_key env w) (\<lambda>generation w.
        commit_slots Q E data_key env (bt_insert slot sealed (ev_slots env)) generation w)))))))"

definition vault_put ::
  "custody_lib \<Rightarrow> custody_env \<Rightarrow> string \<Rightarrow> bytes \<Rightarrow> custody_world \<Rightarrow> (CustodyError + unit) \<times> custody_world" where
  "vault_put Q E slot bytes w = put_inner Q E slot bytes w"

definition clear_slot :: "custody_lib \<Rightarrow> custody_env \<Rightarrow> string \<Rightarrow> custody_world \<Rightarrow> (CustodyError + unit) \<times> custody_world" where
  "clear_slot Q E slot w =
     (if reserved_name slot then (Inl Denied, w)
      else
        rpc_then (with_session_key E w) (\<lambda>data_key w.
        rpc_then (load_envelope Q E w) (\<lambda>env w.
        if bt_get slot (ev_slots env) = None then (Inr (), w) else
        rpc_then (guard_anchor Q E env w) (\<lambda>(mek, lockout) w.
        rpc_then (carry_heal Q E mek lockout env w) (\<lambda>env w.
        rpc_then (guard_fresh Q E data_key env w) (\<lambda>generation w.
        commit_slots Q E data_key env (bt_remove slot (ev_slots env)) generation w))))))"

text \<open>What \<open>read_slot\<close> does with the session key and the envelope it loaded; the vault is not locked
  meanwhile.\<close>

definition read_loaded ::
  "custody_lib \<Rightarrow> custody_env \<Rightarrow> string \<Rightarrow> bytes \<Rightarrow> CustodyEnvelope \<Rightarrow> custody_world
     \<Rightarrow> (CustodyError + bytes) \<times> custody_world" where
  "read_loaded Q E slot data_key env w =
     rpc_then (guard_anchor Q E env w) (\<lambda>_ w.
     rpc_then (guard_fresh Q E data_key env w) (\<lambda>_ w.
     rpc_then (ok_or Denied (bt_get slot (ev_slots env)), w) (\<lambda>sealed w.
     (unseal Q data_key sealed (aad (ev_version env) slot), w))))"

definition read_slot :: "custody_lib \<Rightarrow> custody_env \<Rightarrow> string \<Rightarrow> custody_world \<Rightarrow> (CustodyError + bytes) \<times> custody_world" where
  "read_slot Q E slot w =
     (if reserved_name slot then (Inl Denied, w)
      else
        rpc_then (with_session_key E w) (\<lambda>data_key w.
        rpc_then (load_envelope Q E w) (\<lambda>env w. read_loaded Q E slot data_key env w)))"

definition custody_get :: "custody_lib \<Rightarrow> custody_env \<Rightarrow> string \<Rightarrow> custody_world \<Rightarrow> (CustodyError + bytes) \<times> custody_world" where
  "custody_get Q E slot w =
     (if starts_with WALLET_SLOT_PREFIX slot then (Inl Denied, w) else read_slot Q E slot w)"

definition wallet_slot_get ::
  "custody_lib \<Rightarrow> custody_env \<Rightarrow> string \<Rightarrow> custody_world \<Rightarrow> (CustodyError + bytes) \<times> custody_world" where
  "wallet_slot_get Q E slot w =
     (if \<not> starts_with WALLET_SLOT_PREFIX slot then (Inl Denied, w) else read_slot Q E slot w)"

definition vault_list :: "custody_lib \<Rightarrow> custody_env \<Rightarrow> custody_world \<Rightarrow> (CustodyError + SlotInfo list) \<times> custody_world" where
  "vault_list Q E w =
     (if \<not> is_initialized w then (Inr [], w)
      else
        rpc_map (load_envelope Q E w) (\<lambda>env.
          Inr (map (\<lambda>(name, s). \<lparr>sli_name = name, sli_bytes = length (ss_ct s)\<rparr>)
                 (filter (\<lambda>(name, s). \<not> reserved_name name) (ev_slots env)))))"

section \<open>The commands\<close>

record CustodyStatus =
  cst_initialized :: bool
  cst_unlocked :: bool
  cst_autolock_mins :: nat
  cst_keyring_status :: string

text \<open>\<open>probe\<close> is the answer of the probe of the platform's key ring.\<close>

definition custody_status_sync :: "custody_env \<Rightarrow> string \<Rightarrow> custody_world \<Rightarrow> (string + CustodyStatus) \<times> custody_world" where
  "custody_status_sync E probe w =
     (let (unlocked, w') = is_unlocked E w
      in (Inr \<lparr>cst_initialized = is_initialized w, cst_unlocked = unlocked,
               cst_autolock_mins = (cw_autolock_secs w div 60) mod 2 ^ 32, cst_keyring_status = probe\<rparr>, w'))"

definition custody_err :: "(CustodyError + 'a) \<times> custody_world \<Rightarrow> (string + 'a) \<times> custody_world" where
  "custody_err r = (map_err custody_error_text (fst r), snd r)"

definition custody_init_sync :: "custody_lib \<Rightarrow> custody_env \<Rightarrow> string \<Rightarrow> custody_world \<Rightarrow> (string + unit) \<times> custody_world" where
  "custody_init_sync Q E passphrase w = custody_err (vault_init Q E (as_bytes passphrase) w)"

definition custody_unlock_sync :: "custody_lib \<Rightarrow> custody_env \<Rightarrow> string \<Rightarrow> custody_world \<Rightarrow> (string + unit) \<times> custody_world" where
  "custody_unlock_sync Q E passphrase w = custody_err (vault_unlock Q E (as_bytes passphrase) w)"

definition custody_ensure_unlocked ::
  "custody_lib \<Rightarrow> custody_env \<Rightarrow> string \<Rightarrow> custody_world \<Rightarrow> (string + CustodyStatus) \<times> custody_world" where
  "custody_ensure_unlocked Q E probe w =
     rpc_then (custody_err (ensure_auto_unlocked Q E w)) (\<lambda>_ w. custody_status_sync E probe w)"

definition invoke_put ::
  "custody_lib \<Rightarrow> custody_env \<Rightarrow> string \<Rightarrow> bytes \<Rightarrow> custody_world \<Rightarrow> (string + unit) \<times> custody_world" where
  "invoke_put Q E slot bytes w =
     (if is_backend_reserved_slot slot then (Inl ''reserved slot name'', w)
      else custody_err (vault_put Q E slot bytes w))"

definition custody_put_sync ::
  "custody_lib \<Rightarrow> custody_env \<Rightarrow> string \<Rightarrow> bytes \<Rightarrow> custody_world \<Rightarrow> (string + unit) \<times> custody_world" where
  "custody_put_sync Q E slot bytes w = invoke_put Q E slot bytes w"

definition custody_list_sync :: "custody_lib \<Rightarrow> custody_env \<Rightarrow> custody_world \<Rightarrow> (string + SlotInfo list) \<times> custody_world" where
  "custody_list_sync Q E w = custody_err (vault_list Q E w)"

section \<open>The wallet's view of the vault\<close>

text \<open>The wallet reads its slot and, when that is denied, asks whether the vault is unlocked.\<close>

definition wallet_view :: "custody_lib \<Rightarrow> custody_env \<Rightarrow> custody_world \<Rightarrow> Vault \<times> custody_world" where
  "wallet_view Q E w =
     (let (slot, w) = wallet_slot_get Q E WALLET_ENTROPY_SLOT w in
      case slot of
        Inl Denied \<Rightarrow> (let (unlocked, w) = is_unlocked E w in (\<lparr>v_wallet_slot = slot, v_is_unlocked = unlocked\<rparr>, w))
      | _ \<Rightarrow> (\<lparr>v_wallet_slot = slot, v_is_unlocked = True\<rparr>, w))"

definition address_auto_unlocked ::
  "'x deps_scheme \<Rightarrow> wallet_crypto \<Rightarrow> custody_lib \<Rightarrow> custody_env \<Rightarrow> custody_world
     \<Rightarrow> (WalletError + WalletInfo) \<times> custody_world" where
  "address_auto_unlocked X K Q E w =
     rpc_then (map_err wallet_error_of_custody (fst (ensure_auto_unlocked Q E w)), snd (ensure_auto_unlocked Q E w))
       (\<lambda>_ w. let (V, w) = wallet_view Q E w in (address X K V, w))"


end
