(* ===== verification/CustodyRun.thy ===== *)
theory CustodyRun
  imports Custody
begin

text \<open>
  Histories of the vault with an adversary who rewrites its files at will but has neither
  the key ring nor the keys. What the vault sealed is read off the trace of what it handed to the file system; the adversary's
  files hold, at each place, only what opens to nothing or to something the vault sealed for that place,
  which is what AES-GCM's authentication gives. The result is a refinement: whatever a read
  answers is the newest value stored, so a file restored from a backup or put
  together from old ones is never served.
\<close>

section \<open>What is assumed of the crates\<close>

definition codec_law :: "('a \<Rightarrow> bool) \<Rightarrow> ('a \<Rightarrow> string + bytes) \<Rightarrow> (bytes \<Rightarrow> 'a option) \<Rightarrow> bool" where
  "codec_law ok enc dec \<longleftrightarrow>
     (\<forall>x b. ok x \<and> enc x = Inr b \<longrightarrow> dec b = Some x) \<and> (\<forall>b x. dec b = Some x \<longrightarrow> ok x)"

text \<open>Sealed bytes open to what was sealed, and only under the key and the associated data they were sealed with.\<close>

definition aead_law :: "custody_lib \<Rightarrow> bool" where
  "aead_law Q \<longleftrightarrow>
     (\<forall>k n a m ct. q_encrypt Q k n a m = Some ct \<longrightarrow>
        q_decrypt Q k n a ct = Some m \<and>
        (\<forall>k' a' m'. q_decrypt Q k' n a' ct = Some m' \<longrightarrow> k' = k \<and> a' = a \<and> m' = m))"

definition custody_law :: "custody_lib \<Rightarrow> custody_env \<Rightarrow> bool" where
  "custody_law Q E \<longleftrightarrow>
     aead_law Q \<and>
     codec_law (\<lambda>h. bt_wf (hd_slots h)) (q_header_to_vec Q) (q_header_from_slice Q) \<and>
     codec_law (\<lambda>l. True) (q_lockout_to_vec Q) (q_lockout_from_slice Q) \<and>
     codec_law (\<lambda>env. bt_wf (ev_slots env)) (q_envelope_to_vec Q) (q_envelope_from_slice Q) \<and>
     (\<forall>t n. length (ce_random E t n) = n)"

text \<open>Among the first \<open>n\<close> interactions no nonce was drawn twice, and \<open>n\<close> fits a counter.\<close>

definition nonces_fresh :: "custody_env \<Rightarrow> nat \<Rightarrow> bool" where
  "nonces_fresh E n \<longleftrightarrow> n < u64_max \<and> inj_on (\<lambda>t. ce_random E t NONCE_LEN) {..<n}"

lemma custody_lawD:
  assumes "custody_law Q E"
  shows "aead_law Q" and "length (ce_random E t n) = n"
    and "bt_wf (hd_slots h) \<Longrightarrow> q_header_to_vec Q h = Inr b \<Longrightarrow> q_header_from_slice Q b = Some h"
    and "q_header_from_slice Q b = Some h \<Longrightarrow> bt_wf (hd_slots h)"
    and "q_lockout_to_vec Q l = Inr b \<Longrightarrow> q_lockout_from_slice Q b = Some l"
    and "bt_wf (ev_slots env) \<Longrightarrow> q_envelope_to_vec Q env = Inr b \<Longrightarrow> q_envelope_from_slice Q b = Some env"
    and "q_envelope_from_slice Q b = Some env \<Longrightarrow> bt_wf (ev_slots env)"
  using assms unfolding custody_law_def codec_law_def by blast+

section \<open>What an envelope opens to\<close>

definition parsed :: "custody_lib \<Rightarrow> bytes \<Rightarrow> CustodyEnvelope option" where
  "parsed Q b =
     (case q_envelope_from_slice Q b of
        Some env \<Rightarrow> if ev_version env = ENVELOPE_VERSION then Some env else None
      | None \<Rightarrow> None)"

definition opened_header :: "custody_lib \<Rightarrow> bytes \<Rightarrow> CustodyEnvelope \<Rightarrow> Header option" where
  "opened_header Q dek env =
     (case unseal Q dek (ev_header env) (aad (ev_version env) AAD_HEADER) of
        Inr pt \<Rightarrow> q_header_from_slice Q pt
      | Inl e \<Rightarrow> None)"

definition opened_slot :: "custody_lib \<Rightarrow> bytes \<Rightarrow> CustodyEnvelope \<Rightarrow> string \<Rightarrow> (bytes \<times> bytes) option" where
  "opened_slot Q dek env name =
     (case bt_get name (ev_slots env) of
        Some s \<Rightarrow> (case unseal Q dek s (aad (ev_version env) name) of Inr m \<Rightarrow> Some (ss_nonce s, m) | Inl e \<Rightarrow> None)
      | None \<Rightarrow> None)"

definition headers :: "custody_lib \<Rightarrow> bytes \<Rightarrow> bytes list \<Rightarrow> Header set" where
  "headers Q dek T = {h. \<exists>b\<in>set T. \<exists>env. parsed Q b = Some env \<and> opened_header Q dek env = Some h}"

definition lockouts :: "custody_lib \<Rightarrow> bytes \<Rightarrow> bytes list \<Rightarrow> LockoutState set" where
  "lockouts Q mek T = {l. \<exists>b\<in>set T. \<exists>env. parsed Q b = Some env \<and> open_lockout Q mek env = Inr l}"

definition slots_sealed :: "custody_lib \<Rightarrow> bytes \<Rightarrow> bytes list \<Rightarrow> (string \<times> bytes \<times> bytes) set" where
  "slots_sealed Q dek T =
     {(name, n, m). \<exists>b\<in>set T. \<exists>env. parsed Q b = Some env \<and> opened_slot Q dek env name = Some (n, m)}"

text \<open>An envelope with nothing in it that the vault did not seal there.\<close>

definition known :: "custody_lib \<Rightarrow> bytes \<Rightarrow> bytes \<Rightarrow> bytes list \<Rightarrow> CustodyEnvelope \<Rightarrow> bool" where
  "known Q mek dek T env \<longleftrightarrow>
     ev_version env = ENVELOPE_VERSION \<and> bt_wf (ev_slots env) \<and>
     (\<forall>h. opened_header Q dek env = Some h \<longrightarrow> h \<in> headers Q dek T) \<and>
     (\<forall>l. open_lockout Q mek env = Inr l \<longrightarrow> l \<in> lockouts Q mek T) \<and>
     (\<forall>name n m. opened_slot Q dek env name = Some (n, m) \<longrightarrow> (name, n, m) \<in> slots_sealed Q dek T) \<and>
     (\<forall>k d. unseal Q k (ev_wrapped_dk env) (aad (ev_version env) AAD_WRAPPED_DK) = Inr d \<longrightarrow> d = dek)"

lemma parsed_Some:
  "parsed Q b = Some env \<longleftrightarrow> q_envelope_from_slice Q b = Some env \<and> ev_version env = ENVELOPE_VERSION"
  by (auto simp: parsed_def split: option.splits)

lemma open_and_verify_header_Inr:
  "open_and_verify_header Q dek env = Inr g \<longleftrightarrow>
     (\<exists>h. opened_header Q dek env = Some h \<and> hd_slots h = fingerprint (ev_slots env) \<and> hd_generation h = g)"
  by (cases "unseal Q dek (ev_header env) (aad (ev_version env) AAD_HEADER)")
    (auto simp: open_and_verify_header_def opened_header_def and_then_Inr_iff split: option.splits)

lemma opened_slot_Some:
  "opened_slot Q dek env name = Some (n, m) \<longleftrightarrow>
     (\<exists>s. bt_get name (ev_slots env) = Some s \<and> unseal Q dek s (aad (ev_version env) name) = Inr m \<and> n = ss_nonce s)"
  by (auto simp: opened_slot_def split: option.splits sum.splits)

lemma contents_Cons:
  "headers Q dek (b # T) = {h. \<exists>env. parsed Q b = Some env \<and> opened_header Q dek env = Some h} \<union> headers Q dek T"
  "lockouts Q mek (b # T) = {l. \<exists>env. parsed Q b = Some env \<and> open_lockout Q mek env = Inr l} \<union> lockouts Q mek T"
  "slots_sealed Q dek (b # T) =
     {(name, n, m). \<exists>env. parsed Q b = Some env \<and> opened_slot Q dek env name = Some (n, m)} \<union> slots_sealed Q dek T"
  by (auto simp: headers_def lockouts_def slots_sealed_def)

lemma known_mono: "known Q mek dek T env \<Longrightarrow> known Q mek dek (b # T) env"
  unfolding known_def contents_Cons by blast

lemma bt_get_fingerprint: "bt_get name (fingerprint slots) = map_option ss_nonce (bt_get name slots)"
  by (induction slots) (auto simp: fingerprint_def bt_get_def)

lemma bt_wf_fingerprint: "bt_wf (fingerprint slots) \<longleftrightarrow> bt_wf slots"
  by (simp add: fingerprint_def bt_wf_def split_def comp_def)

section \<open>Operations that only look\<close>

definition still :: "custody_world \<Rightarrow> custody_world \<Rightarrow> bool" where
  "still w w' \<longleftrightarrow>
     cw_keyring w' = cw_keyring w \<and> cw_file w' = cw_file w \<and> cw_trace w' = cw_trace w \<and>
     cw_tick w \<le> cw_tick w' \<and> cw_session w' \<in> {cw_session w, None}"

lemma still_refl [simp]: "still w w" by (simp add: still_def)

lemma still_trans: "still w w1 \<Longrightarrow> still w1 w2 \<Longrightarrow> still w w2"
  by (auto simp: still_def)

lemma still_tick [simp]: "still w (tick w)" by (simp add: still_def tick_def)

lemma keyring_get_still: "keyring_get E a w = (r, w') \<Longrightarrow> still w w' \<and> (\<forall>v. r = Inr v \<longrightarrow> v = cw_keyring w a)"
  by (auto simp: keyring_get_def still_def tick_def)

lemma derive_key_counted_still: "derive_key_counted Q p s w = (r, w') \<Longrightarrow> still w w'"
  by (auto simp: derive_key_counted_def still_def)

lemma fill_bytes_still: "fill_bytes E n w = (b, w') \<Longrightarrow> still w w' \<and> b = ce_random E (cw_tick w) n \<and> cw_tick w' = Suc (cw_tick w)"
  by (auto simp: fill_bytes_def still_def tick_def)

lemma master_key_still:
  "master_key E w = (r, w') \<Longrightarrow> still w w' \<and> (\<forall>k. r = Inr k \<longrightarrow> cw_keyring w KEYRING_MASTER_ACCOUNT = Some k)"
  by (cases "cw_keyring w KEYRING_MASTER_ACCOUNT")
    (auto simp: master_key_def rpc_map_def keyring_get_def split: if_splits)

lemma read_anchor_still:
  "read_anchor E a w = (r, w') \<Longrightarrow> still w w' \<and> (\<forall>n. r = Inr n \<longrightarrow> n = map_option be_val (cw_keyring w a))"
  by (cases "cw_keyring w a") (auto simp: read_anchor_def rpc_map_def keyring_get_def split: if_splits)

lemma load_envelope_still:
  "load_envelope Q E w = (r, w') \<Longrightarrow>
     still w w' \<and> (\<forall>env. r = Inr env \<longrightarrow> (\<exists>b. cw_file w = Some b \<and> parsed Q b = Some env))"
  by (auto simp: load_envelope_def and_then_Inr_iff parsed_Some split: if_splits)

lemma seal_still:
  assumes "aead_law Q" and "seal Q E k m a w = (r, w')"
  shows "still w w'" and "cw_tick w < cw_tick w'"
    and "r = Inr s \<Longrightarrow> ss_nonce s = ce_random E (cw_tick w) NONCE_LEN \<and>
      (length (ss_nonce s) = NONCE_LEN \<longrightarrow> unseal Q k s a = Inr m) \<and>
      (\<forall>k' m'. unseal Q k' s a = Inr m' \<longrightarrow> k' = k \<and> m' = m)"
  using assms by (auto simp: seal_def Let_def fill_bytes_def still_def tick_def unseal_def aead_law_def split: option.splits if_splits)

lemma expire_still: "still w (expire_if_stale E w)"
  by (auto simp: expire_if_stale_def still_def tick_def split: option.splits)

lemma with_session_key_still:
  "with_session_key E w = (r, w') \<Longrightarrow> still w w' \<and> (\<forall>k. r = Inr k \<longrightarrow> (\<exists>s. cw_session w = Some s \<and> se_data_key s = k))"
  using expire_still [of w E]
  by (cases "cw_session (expire_if_stale E w)") (auto simp: with_session_key_def Let_def still_def dest: sym)

section \<open>Anchors\<close>

definition anchored :: "string \<Rightarrow> nat \<Rightarrow> custody_world \<Rightarrow> bool" where
  "anchored account n w \<longleftrightarrow> cw_keyring w account = Some (be_bytes 8 n) \<and> n < 2 ^ 64"

lemma anchored_val: "anchored a n w \<Longrightarrow> map_option be_val (cw_keyring w a) = Some n"
  by (simp add: anchored_def be_val_be_bytes)

lemma still_anchored: "still w w' \<Longrightarrow> anchored a n w' = anchored a n w"
  by (simp add: still_def anchored_def)

text \<open>A write to the key ring changes at most the one account.\<close>

lemma keyring_set_eq:
  assumes "keyring_set E a s w = (r, w')"
  shows "still (w\<lparr>cw_keyring := cw_keyring w'\<rparr>) w'"
    and "cw_keyring w' = cw_keyring w \<and> r \<noteq> Inr () \<or> cw_keyring w' = (cw_keyring w)(a \<mapsto> s)"
  using assms by (auto simp: keyring_set_def Let_def still_def tick_def split: if_splits)

lemma bump_anchor_at:
  assumes "anchored a n w" and "gen < 2 ^ 64" and "bump_anchor E a gen w = (r, w')"
  shows "still (w\<lparr>cw_keyring := cw_keyring w'\<rparr>) w'"
    and "cw_keyring w' = cw_keyring w \<and> (r = Inr () \<longrightarrow> gen \<le> n) \<or> n < gen \<and> cw_keyring w' = (cw_keyring w)(a \<mapsto> be_bytes 8 gen)"
proof -
  have *: "still (w\<lparr>cw_keyring := cw_keyring w'\<rparr>) w' \<and>
    (cw_keyring w' = cw_keyring w \<and> (r = Inr () \<longrightarrow> gen \<le> n) \<or> n < gen \<and> cw_keyring w' = (cw_keyring w)(a \<mapsto> be_bytes 8 gen))"
    using assms(3) unfolding bump_anchor_def
  proof (cases rule: rpc_then_cases)
    case (failed e)
    then show ?thesis using read_anchor_still [OF failed(1)] by (auto simp: still_def)
  next
    case (ok x s)
    have x: "x = Some n" and s: "still w s" using read_anchor_still [OF ok(1)] anchored_val [OF assms(1)] by auto
    show ?thesis
    proof (cases "gen > n")
      case True
      then have "keyring_set E a (be_bytes 8 gen) s = (r, w')" using ok(2) x by simp
      from keyring_set_eq [OF this] True s show ?thesis by (auto simp: still_def)
    next
      case False
      then show ?thesis using ok(2) x s by (auto simp: still_def)
    qed
  qed
  then show "still (w\<lparr>cw_keyring := cw_keyring w'\<rparr>) w'"
    "cw_keyring w' = cw_keyring w \<and> (r = Inr () \<longrightarrow> gen \<le> n) \<or> n < gen \<and> cw_keyring w' = (cw_keyring w)(a \<mapsto> be_bytes 8 gen)"
    by blast+
qed

text \<open>Of an envelope no newer than the anchor, only the newest passes, and passing changes nothing.\<close>

lemma enforce_high_water_at:
  assumes "anchored KEYRING_GENERATION_ACCOUNT hw w" and "g \<le> hw" and "enforce_high_water E g w = (r, w')"
  shows "still w w'" and "r = Inr () \<Longrightarrow> g = hw"
proof -
  have "still w w' \<and> (r = Inr () \<longrightarrow> g = hw)"
    using assms(3) unfolding enforce_high_water_def
  proof (cases rule: rpc_then_cases)
    case (failed e)
    then show ?thesis using read_anchor_still [OF failed(1) [unfolded read_high_water_def]] by auto
  next
    case (ok x s)
    have x: "x = Some hw" and s: "still w s"
      using read_anchor_still [OF ok(1) [unfolded read_high_water_def]] anchored_val [OF assms(1)] by auto
    show ?thesis
    proof (cases "g < hw")
      case True
      then show ?thesis using ok(2) x s by auto
    next
      case False
      then have g: "g = hw" using assms(2) by simp
      have a: "anchored KEYRING_GENERATION_ACCOUNT hw s" using still_anchored [OF s] assms(1) by simp
      have b: "bump_anchor E KEYRING_GENERATION_ACCOUNT hw s = (r, w')" using ok(2) x g by (simp add: bump_high_water_def)
      have "hw < 2 ^ 64" using assms(1) by (simp add: anchored_def)
      from bump_anchor_at [OF a this b] have "still s w'" by (auto simp: still_def)
      then show ?thesis using s g still_trans by blast
    qed
  qed
  then show "still w w'" "r = Inr () \<Longrightarrow> g = hw" by auto
qed

lemma enforce_anchor_at:
  assumes "lk_anchor_initialized l = Some True" and "enforce_anchor_initialized Q E l env mek w = (r, w')"
  shows "still w w'"
  using assms(2) unfolding enforce_anchor_initialized_def
proof (cases rule: rpc_then_cases)
  case (failed e)
  then show ?thesis using read_anchor_still [OF failed(1) [unfolded read_high_water_def]] by auto
next
  case (ok x s)
  then show ?thesis using read_anchor_still [OF ok(1) [unfolded read_high_water_def]] assms(1) by (auto split: if_splits bool.splits)
qed

lemma carry_heal_at:
  "lk_anchor_initialized l = Some True \<Longrightarrow> carry_heal Q E mek l env w = (Inr env, w)"
  by (simp add: carry_heal_def)

section \<open>Saving\<close>

text \<open>A save only ever adds what it saves to the trace, and the file is then that or what it was.\<close>

lemma save_envelope_eq:
  assumes "save_envelope Q E env w = (r, w')"
  shows "cw_keyring w' = cw_keyring w" and "cw_session w' = cw_session w" and "cw_tick w \<le> cw_tick w'"
    and "(\<exists>b. q_envelope_to_vec Q env = Inr b \<and> cw_trace w' = b # cw_trace w \<and>
           (cw_file w' = cw_file w \<and> r \<noteq> Inr () \<or> cw_file w' = Some b)) \<or>
         cw_trace w' = cw_trace w \<and> cw_file w' = cw_file w \<and> r \<noteq> Inr ()"
  using assms
  by (auto simp: save_envelope_def Let_def tick_def split: option.splits save_fault.splits sum.splits)

lemma save_known:
  assumes "custody_law Q E" and "save_envelope Q E env w = (r, w')" and "bt_wf (ev_slots env)"
    and "ev_version env = ENVELOPE_VERSION" and "cw_trace w' \<noteq> cw_trace w"
  obtains b where "cw_trace w' = b # cw_trace w" "parsed Q b = Some env" "cw_file w' \<in> {cw_file w, Some b}"
proof -
  from save_envelope_eq(4) [OF assms(2)] assms(5) obtain b where b: "q_envelope_to_vec Q env = Inr b"
    "cw_trace w' = b # cw_trace w" "cw_file w' = cw_file w \<or> cw_file w' = Some b" by blast
  have "parsed Q b = Some env" using custody_lawD(6) [OF assms(1,3) b(1)] assms(4) by (simp add: parsed_Some)
  then show thesis using that b by blast
qed


section \<open>Histories\<close>

text \<open>The vault, the store it should implement, what reads in progress hold, and the wrong guesses since
  the passphrase was last right, each with the times its call began and ended.\<close>

record vault_sys =
  vs_world :: custody_world
  vs_store :: "string \<Rightarrow> bytes option"
  vs_reads :: "(bytes \<times> CustodyEnvelope) list"
  vs_wrong :: "(nat \<times> nat) list"

definition guesses_after ::
  "custody_env \<Rightarrow> custody_world \<Rightarrow> CustodyError + unit \<Rightarrow> custody_world \<Rightarrow> (nat \<times> nat) list \<Rightarrow> (nat \<times> nat) list" where
  "guesses_after E w r w' guesses =
     (if \<not> is_initialized w \<or> cw_kdf w' = cw_kdf w then guesses
      else if r = Inl Denied \<or> r = Inl Corrupt
      then (ce_now_ms E (cw_tick w), ce_now_ms E (cw_tick w')) # guesses
      else [])"

text \<open>A mutation counts once its envelope was handed to the file system.\<close>

definition store_after ::
  "custody_world \<Rightarrow> custody_world \<Rightarrow> string \<Rightarrow> bytes option \<Rightarrow> (string \<Rightarrow> bytes option) \<Rightarrow> string \<Rightarrow> bytes option" where
  "store_after w w' slot v \<sigma> = (if cw_trace w' = cw_trace w then \<sigma> else \<sigma>(slot := v))"

inductive vault_step :: "custody_lib \<Rightarrow> custody_env \<Rightarrow> bytes \<Rightarrow> bytes \<Rightarrow> vault_sys \<Rightarrow> vault_sys \<Rightarrow> bool" for Q E mek dek where
  unlock: "vault_unlock Q E p (vs_world y) = (r, w') \<Longrightarrow>
    vault_step Q E mek dek y (y\<lparr>vs_world := w', vs_wrong := guesses_after E (vs_world y) r w' (vs_wrong y)\<rparr>)"
| put: "vault_put Q E slot v (vs_world y) = (r, w') \<Longrightarrow>
    vault_step Q E mek dek y (y\<lparr>vs_world := w', vs_store := store_after (vs_world y) w' slot (Some v) (vs_store y)\<rparr>)"
| clear: "clear_slot Q E slot (vs_world y) = (r, w') \<Longrightarrow>
    vault_step Q E mek dek y (y\<lparr>vs_world := w', vs_store := store_after (vs_world y) w' slot None (vs_store y)\<rparr>)"
| read_begin: "with_session_key E (vs_world y) = (Inr k, w1) \<Longrightarrow> load_envelope Q E w1 = (Inr env, w2) \<Longrightarrow>
    vault_step Q E mek dek y (y\<lparr>vs_world := w2, vs_reads := (k, env) # vs_reads y\<rparr>)"
| read_end: "(k, env) \<in> set (vs_reads y) \<Longrightarrow> read_loaded Q E slot k env (vs_world y) = (r, w') \<Longrightarrow>
    vault_step Q E mek dek y (y\<lparr>vs_world := w', vs_reads := remove1 (k, env) (vs_reads y)\<rparr>)"
| look: "with_session_key E (vs_world y) = (r, w') \<Longrightarrow> vault_step Q E mek dek y (y\<lparr>vs_world := w'\<rparr>)"
| load: "load_envelope Q E (vs_world y) = (r, w') \<Longrightarrow> vault_step Q E mek dek y (y\<lparr>vs_world := w'\<rparr>)"
| init_again: "vault_init Q E p (vs_world y) = (r, w') \<Longrightarrow> vault_step Q E mek dek y (y\<lparr>vs_world := w'\<rparr>)"
| auto_pass: "get_or_create_auto_passphrase E (vs_world y) = (r, w') \<Longrightarrow>
    vault_step Q E mek dek y (y\<lparr>vs_world := w'\<rparr>)"
| lock: "vault_step Q E mek dek y (y\<lparr>vs_world := vault_lock (vs_world y)\<rparr>)"
| autolock: "vault_step Q E mek dek y (y\<lparr>vs_world := set_autolock_mins n (vs_world y)\<rparr>)"
| restart: "vault_step Q E mek dek y
    (y\<lparr>vs_world := (vs_world y)\<lparr>cw_session := None, cw_kdf := 0, cw_autolock_secs := n\<rparr>, vs_reads := []\<rparr>)"
| tamper: "(\<And>b env. f = Some b \<Longrightarrow> parsed Q b = Some env \<Longrightarrow> known Q mek dek (cw_trace (vs_world y)) env) \<Longrightarrow>
    vault_step Q E mek dek y (y\<lparr>vs_world := (vs_world y)\<lparr>cw_file := f, cw_tmp := t\<rparr>\<rparr>)"

text \<open>A history begins with a vault that was just made on a key ring without traces of an earlier one.\<close>

definition clean_keyring :: "custody_world \<Rightarrow> bool" where
  "clean_keyring w \<longleftrightarrow>
     cw_keyring w KEYRING_GENERATION_ACCOUNT = None \<and> cw_keyring w KEYRING_LOCKOUT_GEN_ACCOUNT = None \<and>
     cw_trace w = [] \<and> cw_session w = None"

inductive vault_run :: "custody_lib \<Rightarrow> custody_env \<Rightarrow> bytes \<Rightarrow> bytes \<Rightarrow> vault_sys \<Rightarrow> bool" for Q E mek dek where
  start: "clean_keyring w0 \<Longrightarrow> vault_init Q E p w0 = (Inr (), w) \<Longrightarrow> mek = ce_random E (Suc (cw_tick w0)) KEY_LEN \<Longrightarrow>
    dek = ce_random E (cw_tick w0 + 4) KEY_LEN \<Longrightarrow> nonces_fresh E (cw_tick w) \<Longrightarrow>
    vault_run Q E mek dek \<lparr>vs_world = w, vs_store = \<lambda>_. None, vs_reads = [], vs_wrong = []\<rparr>"
| step: "vault_run Q E mek dek y \<Longrightarrow> vault_step Q E mek dek y y' \<Longrightarrow> nonces_fresh E (cw_tick (vs_world y')) \<Longrightarrow>
    vault_run Q E mek dek y'"

section \<open>The invariant\<close>

text \<open>The header \<open>h\<close> lists exactly what \<open>\<sigma>\<close> holds: under each name, a nonce with which only that value was sealed there.\<close>

definition lists :: "(string \<times> bytes \<times> bytes) set \<Rightarrow> (string \<Rightarrow> bytes option) \<Rightarrow> Header \<Rightarrow> bool" where
  "lists S \<sigma> h \<longleftrightarrow>
     (\<forall>name. name \<noteq> CHECK_SLOT \<longrightarrow>
        (case bt_get name (hd_slots h) of
           None \<Rightarrow> \<sigma> name = None
         | Some n \<Rightarrow> \<exists>m. \<sigma> name = Some m \<and> (\<forall>m'. (name, n, m') \<in> S \<longrightarrow> m' = m)))"

definition drawn :: "custody_env \<Rightarrow> nat \<Rightarrow> bytes \<Rightarrow> bool" where
  "drawn E n b \<longleftrightarrow> (\<exists>t<n. b = ce_random E t NONCE_LEN)"

definition vault_inv :: "custody_lib \<Rightarrow> custody_env \<Rightarrow> bytes \<Rightarrow> bytes \<Rightarrow> (string \<Rightarrow> bytes option) \<Rightarrow> custody_world \<Rightarrow> bool" where
  "vault_inv Q E mek dek \<sigma> w \<longleftrightarrow>
     cw_keyring w KEYRING_MASTER_ACCOUNT = Some mek \<and>
     (\<exists>hw. anchored KEYRING_GENERATION_ACCOUNT hw w \<and>
        (\<forall>h\<in>headers Q dek (cw_trace w).
           hd_generation h \<le> hw \<and> (hd_generation h = hw \<longrightarrow> lists (slots_sealed Q dek (cw_trace w)) \<sigma> h))) \<and>
     (\<forall>(name, n, m)\<in>slots_sealed Q dek (cw_trace w). drawn E (cw_tick w) n) \<and>
     (\<forall>l\<in>lockouts Q mek (cw_trace w). lk_anchor_initialized l = Some True) \<and>
     (\<forall>b env. cw_file w = Some b \<longrightarrow> parsed Q b = Some env \<longrightarrow> known Q mek dek (cw_trace w) env) \<and>
     pred_option (\<lambda>s. se_data_key s = dek) (cw_session w)"

definition reads_inv :: "custody_lib \<Rightarrow> bytes \<Rightarrow> bytes \<Rightarrow> vault_sys \<Rightarrow> bool" where
  "reads_inv Q mek dek y \<longleftrightarrow>
     (\<forall>(k, env)\<in>set (vs_reads y). k = dek \<and> known Q mek dek (cw_trace (vs_world y)) env)"

lemma drawn_mono:
  assumes "drawn E n b" and "n \<le> n'"
  shows "drawn E n' b"
proof -
  obtain t where "t < n" "b = ce_random E t NONCE_LEN" using assms(1) unfolding drawn_def by blast
  then show ?thesis using assms(2) unfolding drawn_def by (intro exI [of _ t]) simp
qed

lemma vault_invD:
  assumes "vault_inv Q E mek dek \<sigma> w"
  shows "cw_keyring w KEYRING_MASTER_ACCOUNT = Some mek"
    and "(name, n, m) \<in> slots_sealed Q dek (cw_trace w) \<Longrightarrow> drawn E (cw_tick w) n"
    and "l \<in> lockouts Q mek (cw_trace w) \<Longrightarrow> lk_anchor_initialized l = Some True"
    and "cw_file w = Some b \<Longrightarrow> parsed Q b = Some env \<Longrightarrow> known Q mek dek (cw_trace w) env"
    and "cw_session w = Some s \<Longrightarrow> se_data_key s = dek"
  using assms by (auto simp: vault_inv_def)

lemma vault_inv_hw:
  assumes "vault_inv Q E mek dek \<sigma> w"
  obtains hw where "anchored KEYRING_GENERATION_ACCOUNT hw w"
    "\<And>h. h \<in> headers Q dek (cw_trace w) \<Longrightarrow> hd_generation h \<le> hw"
    "\<And>h. h \<in> headers Q dek (cw_trace w) \<Longrightarrow> hd_generation h = hw \<Longrightarrow> lists (slots_sealed Q dek (cw_trace w)) \<sigma> h"
  using assms unfolding vault_inv_def by blast

lemma still_inv:
  assumes "vault_inv Q E mek dek \<sigma> w" and "still w w'"
  shows "vault_inv Q E mek dek \<sigma> w'"
  using assms drawn_mono [of E "cw_tick w" _ "cw_tick w'"]
  unfolding vault_inv_def still_def anchored_def by auto


section \<open>Reads\<close>

text \<open>An envelope that passes the header check and the anchor check lists the store.\<close>

lemma passes_current:
  assumes "vault_inv Q E mek dek \<sigma> w" and "known Q mek dek (cw_trace w) env"
    and "open_and_verify_header Q dek env = Inr g" and "enforce_high_water E g w = (r, w')"
  shows "still w w'"
    and "r = Inr () \<Longrightarrow> anchored KEYRING_GENERATION_ACCOUNT g w \<and> (\<exists>h. opened_header Q dek env = Some h \<and>
      hd_slots h = fingerprint (ev_slots env) \<and> lists (slots_sealed Q dek (cw_trace w)) \<sigma> h)"
proof -
  obtain h where h: "opened_header Q dek env = Some h" "hd_slots h = fingerprint (ev_slots env)" "hd_generation h = g"
    using assms(3) unfolding open_and_verify_header_Inr by blast
  then have mem: "h \<in> headers Q dek (cw_trace w)" using assms(2) unfolding known_def by blast
  obtain hw where hw: "anchored KEYRING_GENERATION_ACCOUNT hw w" "hd_generation h \<le> hw"
    "hd_generation h = hw \<Longrightarrow> lists (slots_sealed Q dek (cw_trace w)) \<sigma> h"
    using vault_inv_hw [OF assms(1)] mem by metis
  note e = enforce_high_water_at [OF hw(1) hw(2) [unfolded h(3)] assms(4)]
  show "still w w'" by (rule e(1))
  show "anchored KEYRING_GENERATION_ACCOUNT g w \<and> (\<exists>h. opened_header Q dek env = Some h \<and>
      hd_slots h = fingerprint (ev_slots env) \<and> lists (slots_sealed Q dek (cw_trace w)) \<sigma> h)" if "r = Inr ()"
    using e(2) [OF that] hw h by auto
qed

lemma known_lockout:
  assumes "vault_inv Q E mek dek \<sigma> w" and "known Q mek dek (cw_trace w) env" and "open_lockout Q mek env = Inr l"
  shows "l \<in> lockouts Q mek (cw_trace w)" and "lk_anchor_initialized l = Some True"
  using assms vault_invD(3) unfolding known_def by blast+

lemma still_known: "still w w' \<Longrightarrow> known Q mek dek (cw_trace w') env = known Q mek dek (cw_trace w) env"
  by (simp add: still_def)

lemma still_thenI:
  assumes "still w (snd p)" and "\<And>x s. p = (Inr x, s) \<Longrightarrow> still w s \<Longrightarrow> still w (snd (f x s))"
  shows "still w (snd (rpc_then p f))"
  using assms by (cases p) (auto simp: rpc_then_def split: sum.splits)

lemma guard_anchor_at:
  assumes inv: "vault_inv Q E mek dek \<sigma> w" and kn: "known Q mek dek (cw_trace w) env"
    and g: "guard_anchor Q E env w = (r, w')"
  shows "still w w'" and "r = Inr (k, l) \<Longrightarrow> k = mek \<and> open_lockout Q mek env = Inr l \<and> lk_anchor_initialized l = Some True"
proof -
  have "still w (snd (guard_anchor Q E env w))"
    unfolding guard_anchor_def
  proof (intro still_thenI)
    show "still w (snd (master_key E w))" using master_key_still [of E w] by (cases "master_key E w") auto
  next
    fix k s l s1
    assume k: "master_key E w = (Inr k, s)" and s: "still w s" and l: "(open_lockout Q k env, s) = (Inr l, s1)"
    have "k = mek" using master_key_still [OF k] vault_invD(1) [OF inv] by auto
    then have "lk_anchor_initialized l = Some True" using known_lockout(2) [OF inv kn] l by simp
    then have "still s1 (snd (enforce_anchor_initialized Q E l env k s1))"
      using enforce_anchor_at by (cases "enforce_anchor_initialized Q E l env k s1") auto
    then show "still w (snd (enforce_anchor_initialized Q E l env k s1))" using s l still_trans by auto
  qed auto
  then show "still w w'" using g by simp
  show "k = mek \<and> open_lockout Q mek env = Inr l \<and> lk_anchor_initialized l = Some True" if r: "r = Inr (k, l)"
  proof -
    obtain s where k: "master_key E w = (Inr k, s)" "open_lockout Q k env = Inr l"
      using g r by (auto simp: guard_anchor_def rpc_then_Inr)
    have "k = mek" using master_key_still [OF k(1)] vault_invD(1) [OF inv] by auto
    then show ?thesis using known_lockout(2) [OF inv kn] k(2) by simp
  qed
qed

lemma guard_fresh_at:
  assumes inv: "vault_inv Q E mek dek \<sigma> w" and kn: "known Q mek dek (cw_trace w) env"
    and g: "guard_fresh Q E dek env w = (r, w')"
  shows "still w w'"
    and "r = Inr gen \<Longrightarrow> anchored KEYRING_GENERATION_ACCOUNT gen w \<and> (\<exists>h. opened_header Q dek env = Some h \<and>
      hd_slots h = fingerprint (ev_slots env) \<and> lists (slots_sealed Q dek (cw_trace w)) \<sigma> h)"
proof -
  have "still w (snd (guard_fresh Q E dek env w))"
    unfolding guard_fresh_def
  proof (intro still_thenI)
    fix g s
    assume "(open_and_verify_header Q dek env, w) = (Inr g, s)"
    then show "still w (snd (enforce_high_water E g s))"
      using passes_current(1) [OF inv kn] by (cases "enforce_high_water E g s") auto
  qed auto
  then show "still w w'" using g by simp
  show "anchored KEYRING_GENERATION_ACCOUNT gen w \<and> (\<exists>h. opened_header Q dek env = Some h \<and>
      hd_slots h = fingerprint (ev_slots env) \<and> lists (slots_sealed Q dek (cw_trace w)) \<sigma> h)" if "r = Inr gen"
  proof -
    have "open_and_verify_header Q dek env = Inr gen" "\<exists>s. enforce_high_water E gen w = (Inr (), s)"
      using g that by (auto simp: guard_fresh_def rpc_then_Inr)
    then show ?thesis using passes_current(2) [OF inv kn] by blast
  qed
qed

lemma read_loaded_fresh:
  assumes inv: "vault_inv Q E mek dek \<sigma> w" and kn: "known Q mek dek (cw_trace w) env"
    and rd: "read_loaded Q E slot dek env w = (r, w')"
  shows "still w w'" and "slot \<noteq> CHECK_SLOT \<Longrightarrow> r = Inr v \<Longrightarrow> \<sigma> slot = Some v"
proof -
  have step: "still w s \<and> vault_inv Q E mek dek \<sigma> s \<and> known Q mek dek (cw_trace s) env"
    if "guard_anchor Q E env w = (x, s)" for x s
    using guard_anchor_at(1) [OF inv kn that] still_inv [OF inv] still_known kn by blast
  have "still w (snd (read_loaded Q E slot dek env w))"
    unfolding read_loaded_def
  proof (intro still_thenI)
    show "still w (snd (guard_anchor Q E env w))" using step by (cases "guard_anchor Q E env w") auto
  next
    fix x s
    assume "guard_anchor Q E env w = (Inr x, s)"
    note s = step [OF this]
    have "still s (snd (guard_fresh Q E dek env s))"
      using guard_fresh_at(1) [OF _ _ prod.collapse [symmetric]] s by blast
    then show "still w (snd (guard_fresh Q E dek env s))" using s still_trans by blast
  qed auto
  then show "still w w'" using rd by simp
  show "\<sigma> slot = Some v" if "slot \<noteq> CHECK_SLOT" and r: "r = Inr v"
  proof -
    obtain x s g s2 sl where a: "guard_anchor Q E env w = (Inr x, s)" and f: "guard_fresh Q E dek env s = (Inr g, s2)"
      and sl: "bt_get slot (ev_slots env) = Some sl" "unseal Q dek sl (aad (ev_version env) slot) = Inr v"
      using rd r by (auto simp: read_loaded_def rpc_then_Inr)
    note s = step [OF a]
    obtain h where h: "hd_slots h = fingerprint (ev_slots env)" "lists (slots_sealed Q dek (cw_trace s)) \<sigma> h"
      using guard_fresh_at(2) [of Q E mek dek \<sigma> s env _ _ g] s f by blast
    have "opened_slot Q dek env slot = Some (ss_nonce sl, v)" using sl by (auto simp: opened_slot_Some)
    then have "(slot, ss_nonce sl, v) \<in> slots_sealed Q dek (cw_trace s)" using s unfolding known_def by blast
    moreover have "bt_get slot (hd_slots h) = Some (ss_nonce sl)" using sl(1) h(1) by (simp add: bt_get_fingerprint)
    ultimately show ?thesis using h(2) that(1) unfolding lists_def by fastforce
  qed
qed

section \<open>Mutations\<close>

lemma seal_header_at:
  assumes law: "custody_law Q E" and "bt_wf slots" and s: "seal_header Q E k v g slots w = (r, w')"
  shows "still w w'"
    and "r = Inr s \<Longrightarrow> ev_header env = s \<Longrightarrow> ev_version env = v \<Longrightarrow>
      opened_header Q k env = Some \<lparr>hd_generation = g, hd_slots = fingerprint slots\<rparr>"
proof -
  let ?h = "\<lparr>hd_generation = g, hd_slots = fingerprint slots\<rparr>"
  have "still w (snd (seal_header Q E k v g slots w))"
    unfolding seal_header_def
  proof (intro still_thenI)
    fix x y assume "(map_err Io (q_header_to_vec Q ?h), w) = (Inr x, y)"
    then show "still w (snd (seal Q E k x (aad v AAD_HEADER) y))"
      using seal_still(1) [OF custody_lawD(1) [OF law] prod.collapse [symmetric]] by simp
  qed simp
  then show "still w w'" using s by simp
  show "opened_header Q k env = Some ?h" if e: "r = Inr s" "ev_header env = s" "ev_version env = v"
  proof -
    obtain pt where pt: "q_header_to_vec Q ?h = Inr pt" "seal Q E k pt (aad v AAD_HEADER) w = (Inr s, w')"
      using s e by (auto simp: seal_header_def rpc_then_Inr)
    have "unseal Q k s (aad v AAD_HEADER) = Inr pt"
      using seal_still(3) [OF custody_lawD(1) [OF law] pt(2)] custody_lawD(2) [OF law] by simp
    moreover have "q_header_from_slice Q pt = Some ?h"
      using custody_lawD(3) [OF law _ pt(1)] assms(2) by (simp add: bt_wf_fingerprint)
    ultimately show ?thesis using e by (simp add: opened_header_def)
  qed
qed

lemma seal_lockout_at:
  assumes law: "custody_law Q E" and s: "seal_lockout Q E k v l w = (r, w')"
  shows "still w w'" and "r = Inr s \<Longrightarrow> ev_lockout env = s \<Longrightarrow> ev_version env = v \<Longrightarrow> open_lockout Q k env = Inr l"
proof -
  have "still w (snd (seal_lockout Q E k v l w))"
    unfolding seal_lockout_def
  proof (intro still_thenI)
    fix x y assume "(map_err Io (q_lockout_to_vec Q l), w) = (Inr x, y)"
    then show "still w (snd (seal Q E k x (aad v AAD_LOCKOUT) y))"
      using seal_still(1) [OF custody_lawD(1) [OF law] prod.collapse [symmetric]] by simp
  qed simp
  then show "still w w'" using s by simp
  show "open_lockout Q k env = Inr l" if e: "r = Inr s" "ev_lockout env = s" "ev_version env = v"
  proof -
    obtain pt where pt: "q_lockout_to_vec Q l = Inr pt" "seal Q E k pt (aad v AAD_LOCKOUT) w = (Inr s, w')"
      using s e by (auto simp: seal_lockout_def rpc_then_Inr)
    have "unseal Q k s (aad v AAD_LOCKOUT) = Inr pt"
      using seal_still(3) [OF custody_lawD(1) [OF law] pt(2)] custody_lawD(2) [OF law] by simp
    moreover have "q_lockout_from_slice Q pt = Some l" using custody_lawD(5) [OF law pt(1)] .
    ultimately show ?thesis using e by (simp add: open_lockout_def)
  qed
qed

text \<open>Raising the anchor past every header leaves nothing that could be served, and keeps the invariant.\<close>

lemma raise_anchor_inv:
  assumes inv: "vault_inv Q E mek dek \<sigma> w" and a: "anchored KEYRING_GENERATION_ACCOUNT g w" and "g + 1 < 2 ^ 64"
    and st: "still (w\<lparr>cw_keyring := (cw_keyring w)(KEYRING_GENERATION_ACCOUNT \<mapsto> be_bytes 8 (g + 1))\<rparr>) w'"
  shows "vault_inv Q E mek dek \<sigma>' w'"
proof -
  let ?w = "w\<lparr>cw_keyring := (cw_keyring w)(KEYRING_GENERATION_ACCOUNT \<mapsto> be_bytes 8 (g + 1))\<rparr>"
  obtain hw where hw: "anchored KEYRING_GENERATION_ACCOUNT hw w" "\<And>h. h \<in> headers Q dek (cw_trace w) \<Longrightarrow> hd_generation h \<le> hw"
    using vault_inv_hw [OF inv] by metis
  have "hw = g" using anchored_val [OF hw(1)] anchored_val [OF a] by simp
  then have "hd_generation h \<noteq> g + 1 \<and> hd_generation h \<le> g + 1" if "h \<in> headers Q dek (cw_trace w)" for h
    using hw(2) [OF that] by simp
  moreover have "anchored KEYRING_GENERATION_ACCOUNT (g + 1) ?w" using assms(3) by (simp add: anchored_def)
  moreover have "KEYRING_MASTER_ACCOUNT \<noteq> KEYRING_GENERATION_ACCOUNT"
    by (simp add: KEYRING_MASTER_ACCOUNT_def KEYRING_GENERATION_ACCOUNT_def)
  ultimately have "vault_inv Q E mek dek \<sigma>' ?w"
    using inv unfolding vault_inv_def by (auto intro!: exI [of _ "g + 1"])
  then show ?thesis using still_inv st by blast
qed

text \<open>What a new envelope adds to the trace.\<close>

lemma trace_grows:
  assumes kn: "known Q mek dek T env" and b: "parsed Q b = Some env'"
    and e: "ev_version env' = ev_version env" "ev_lockout env' = ev_lockout env"
      "opened_header Q dek env' = Some h'"
      "\<And>name n m. opened_slot Q dek env' name = Some (n, m) \<Longrightarrow> (name, n, m) \<in> slots_sealed Q dek T \<union> N"
  shows "headers Q dek (b # T) = insert h' (headers Q dek T)" and "lockouts Q mek (b # T) = lockouts Q mek T"
    and "slots_sealed Q dek (b # T) \<subseteq> slots_sealed Q dek T \<union> N"
proof -
  show "headers Q dek (b # T) = insert h' (headers Q dek T)" using b e(3) by (auto simp: contents_Cons)
  have "open_lockout Q mek env' = open_lockout Q mek env" using e by (simp add: open_lockout_def)
  then show "lockouts Q mek (b # T) = lockouts Q mek T" using kn b by (auto simp: contents_Cons known_def)
  show "slots_sealed Q dek (b # T) \<subseteq> slots_sealed Q dek T \<union> N" using b e(4) by (auto simp: contents_Cons)
qed

lemma known_self:
  assumes "parsed Q b = Some env'" and "bt_wf (ev_slots env')"
    and "\<And>k d. unseal Q k (ev_wrapped_dk env') (aad (ev_version env') AAD_WRAPPED_DK) = Inr d \<Longrightarrow> d = dek"
  shows "known Q mek dek (b # T) env'"
  using assms by (auto simp: known_def contents_Cons parsed_Some)

lemma lists_subset: "lists S \<sigma> h \<Longrightarrow> S' \<subseteq> S \<Longrightarrow> lists S' \<sigma> h"
proof -
  assume l: "lists S \<sigma> h" and s: "S' \<subseteq> S"
  show "lists S' \<sigma> h"
    unfolding lists_def
  proof (intro allI impI)
    fix name
    assume "name \<noteq> CHECK_SLOT"
    then show "case bt_get name (hd_slots h) of None \<Rightarrow> \<sigma> name = None
       | Some n \<Rightarrow> \<exists>m. \<sigma> name = Some m \<and> (\<forall>m'. (name, n, m') \<in> S' \<longrightarrow> m' = m)"
      using l s unfolding lists_def by (cases "bt_get name (hd_slots h)") fastforce+
  qed
qed


lemma grow_inv:
  assumes inv: "vault_inv Q E mek dek \<sigma> w"
    and T: "cw_trace w' = b # cw_trace w" and f: "cw_file w' \<in> {cw_file w, Some b}" and t: "cw_tick w \<le> cw_tick w'"
    and b: "parsed Q b = Some env'" "bt_wf (ev_slots env')"
      "\<And>k d. unseal Q k (ev_wrapped_dk env') (aad (ev_version env') AAD_WRAPPED_DK) = Inr d \<Longrightarrow> d = dek"
    and a: "anchored KEYRING_GENERATION_ACCOUNT hw w'"
    and h: "\<forall>h\<in>headers Q dek (b # cw_trace w). hd_generation h \<le> hw \<and>
      (hd_generation h = hw \<longrightarrow> lists (slots_sealed Q dek (b # cw_trace w)) \<sigma>' h)"
    and n: "slots_sealed Q dek (b # cw_trace w) \<subseteq> slots_sealed Q dek (cw_trace w) \<union> N"
      "\<And>name n m. (name, n, m) \<in> N \<Longrightarrow> drawn E (cw_tick w) n"
    and l: "\<And>l. l \<in> lockouts Q mek (b # cw_trace w) \<Longrightarrow> lk_anchor_initialized l = Some True"
    and k: "cw_keyring w' KEYRING_MASTER_ACCOUNT = Some mek" "pred_option (\<lambda>s. se_data_key s = dek) (cw_session w')"
  shows "vault_inv Q E mek dek \<sigma>' w'"
proof -
  have self: "known Q mek dek (b # cw_trace w) env'" by (rule known_self [OF b(1,2)]) (rule b(3))
  have d: "drawn E (cw_tick w') x" if "(name, x, m) \<in> slots_sealed Q dek (b # cw_trace w)" for name x m
  proof -
    have "drawn E (cw_tick w) x" using that n vault_invD(2) [OF inv] by blast
    then show ?thesis using drawn_mono t by blast
  qed
  have kn: "known Q mek dek (b # cw_trace w) x" if "cw_file w' = Some y" "parsed Q y = Some x" for x y
  proof (cases "y = b")
    case True
    then show ?thesis using that b(1) self by simp
  next
    case False
    then have "cw_file w = Some y" using that(1) f by auto
    then show ?thesis using vault_invD(4) [OF inv _ that(2)] known_mono by blast
  qed
  show ?thesis unfolding vault_inv_def T using k a h d l kn by blast
qed

text \<open>The anchor goes up first; then the envelope is handed over or it is not.\<close>

lemma bump_save_inv:
  assumes law: "custody_law Q E" and inv: "vault_inv Q E mek dek \<sigma> w" and kn: "known Q mek dek (cw_trace w) env"
    and a: "anchored KEYRING_GENERATION_ACCOUNT g w" and "g + 1 < 2 ^ 64" and wf: "bt_wf S'"
    and e: "env' = env\<lparr>ev_slots := S', ev_header := s\<rparr>"
      "opened_header Q dek env' = Some \<lparr>hd_generation = g + 1, hd_slots = fingerprint S'\<rparr>"
    and new: "\<And>name n m. opened_slot Q dek env' name = Some (n, m) \<Longrightarrow> (name, n, m) \<in> slots_sealed Q dek (cw_trace w) \<union> N"
    and dr: "\<And>name n m. (name, n, m) \<in> N \<Longrightarrow> drawn E (cw_tick w) n"
    and li: "lists (slots_sealed Q dek (cw_trace w) \<union> N) \<sigma>' \<lparr>hd_generation = g + 1, hd_slots = fingerprint S'\<rparr>"
    and c: "rpc_then (bump_high_water E (g + 1) w) (\<lambda>_ w. save_envelope Q E env' w) = (r, w')"
  shows "vault_inv Q E mek dek (if cw_trace w' = cw_trace w then \<sigma> else \<sigma>') w'"
proof -
  note bump = bump_anchor_at [OF a assms(5), of E, folded bump_high_water_def]
  show ?thesis using c
  proof (cases rule: rpc_then_cases)
    case (failed x)
    have st: "still (w\<lparr>cw_keyring := cw_keyring w'\<rparr>) w'" using bump(1) failed(1) by blast
    then have T: "cw_trace w' = cw_trace w" by (simp add: still_def)
    show ?thesis using bump(2) [OF failed(1)]
    proof (elim disjE conjE)
      assume "cw_keyring w' = cw_keyring w"
      then have "still w w'" using st by (simp add: still_def)
      then show ?thesis using still_inv [OF inv] T by simp
    next
      assume "cw_keyring w' = (cw_keyring w)(KEYRING_GENERATION_ACCOUNT \<mapsto> be_bytes 8 (g + 1))"
      then show ?thesis using raise_anchor_inv [OF inv a assms(5)] st T by simp
    qed
  next
    case (ok u w1)
    have k1: "cw_keyring w1 = (cw_keyring w)(KEYRING_GENERATION_ACCOUNT \<mapsto> be_bytes 8 (g + 1))"
      using bump(2) [OF ok(1)] by auto
    have st: "still (w\<lparr>cw_keyring := cw_keyring w1\<rparr>) w1" using bump(1) ok(1) by blast
    note inv1 = raise_anchor_inv [OF inv a assms(5) st [unfolded k1]]
    note sv = save_envelope_eq [OF ok(2)]
    have T1: "cw_trace w1 = cw_trace w" "cw_file w1 = cw_file w" "cw_tick w \<le> cw_tick w1" using st by (auto simp: still_def)
    show ?thesis
    proof (cases "cw_trace w' = cw_trace w1")
      case True
      then have "cw_file w' = cw_file w1" using sv(4) by auto
      then have "still w1 w'" using True sv by (simp add: still_def)
      then show ?thesis using still_inv [OF inv1 [of \<sigma>]] True T1 by simp
    next
      case False
      have v: "ev_version env' = ENVELOPE_VERSION" using e(1) kn by (simp add: known_def)
      have wf': "bt_wf (ev_slots env')" using e(1) wf by simp
      obtain b where b: "cw_trace w' = b # cw_trace w1" "parsed Q b = Some env'" "cw_file w' \<in> {cw_file w1, Some b}"
        by (rule save_known [OF law ok(2) wf' v False])
      have same: "ev_version env' = ev_version env" "ev_lockout env' = ev_lockout env" using e(1) by simp_all
      note tr = trace_grows [OF kn b(2) same e(2) new]
      obtain hw where hw: "anchored KEYRING_GENERATION_ACCOUNT hw w" "\<And>h. h \<in> headers Q dek (cw_trace w) \<Longrightarrow> hd_generation h \<le> hw"
        using vault_inv_hw [OF inv] by metis
      have g: "hd_generation h \<le> g" if "h \<in> headers Q dek (cw_trace w)" for h
        using hw(2) [OF that] anchored_val [OF hw(1)] anchored_val [OF a] by simp
      have "lists (slots_sealed Q dek (b # cw_trace w)) \<sigma>' \<lparr>hd_generation = g + 1, hd_slots = fingerprint S'\<rparr>"
        using lists_subset [OF li tr(3)] .
      then have hd: "\<forall>h\<in>headers Q dek (b # cw_trace w). hd_generation h \<le> g + 1 \<and>
          (hd_generation h = g + 1 \<longrightarrow> lists (slots_sealed Q dek (b # cw_trace w)) \<sigma>' h)"
        using tr(1) g by fastforce
      have a': "anchored KEYRING_GENERATION_ACCOUNT (g + 1) w'" using assms(5) sv(1) k1 by (simp add: anchored_def)
      have T': "cw_trace w' = b # cw_trace w" "cw_file w' \<in> {cw_file w, Some b}" "cw_tick w \<le> cw_tick w'"
        using b T1 sv(3) by auto
      have "vault_inv Q E mek dek \<sigma>' w'"
      proof (rule grow_inv [OF inv T' b(2) wf' _ a' hd tr(3) dr])
        show "d = dek" if "unseal Q k (ev_wrapped_dk env') (aad (ev_version env') AAD_WRAPPED_DK) = Inr d" for k d
          using kn that e(1) by (simp add: known_def)
        show "lk_anchor_initialized l = Some True" if "l \<in> lockouts Q mek (b # cw_trace w)" for l
          using that tr(2) vault_invD(3) [OF inv] by simp
        show "cw_keyring w' KEYRING_MASTER_ACCOUNT = Some mek" using vault_invD(1) [OF inv1] sv(1) by simp
        show "pred_option (\<lambda>s. se_data_key s = dek) (cw_session w')" using inv1 sv(2) by (simp add: vault_inv_def)
      qed
      then show ?thesis using b(1) T1 by simp
    qed
  qed
qed

lemma commit_inv:
  assumes law: "custody_law Q E" and inv: "vault_inv Q E mek dek \<sigma> w" and kn: "known Q mek dek (cw_trace w) env"
    and a: "anchored KEYRING_GENERATION_ACCOUNT g w" and wf: "bt_wf S'"
    and new: "\<And>name n m. opened_slot Q dek (env\<lparr>ev_slots := S'\<rparr>) name = Some (n, m) \<Longrightarrow>
      (name, n, m) \<in> slots_sealed Q dek (cw_trace w) \<union> N"
    and dr: "\<And>name n m. (name, n, m) \<in> N \<Longrightarrow> drawn E (cw_tick w) n"
    and li: "\<And>i. lists (slots_sealed Q dek (cw_trace w) \<union> N) \<sigma>' \<lparr>hd_generation = i, hd_slots = fingerprint S'\<rparr>"
    and c: "commit_slots Q E dek env S' g w = (r, w')"
  shows "vault_inv Q E mek dek (if cw_trace w' = cw_trace w then \<sigma> else \<sigma>') w'"
proof (cases "checked_add g 1")
  case None
  then show ?thesis using c inv by (auto simp: commit_slots_def rpc_then_def)
next
  case (Some n)
  then have n: "n = g + 1" "g + 1 < 2 ^ 64" by (auto simp: checked_add_def u64_max_def split: if_splits)
  have c': "rpc_then (seal_header Q E dek (ev_version env) (g + 1) S' w) (\<lambda>s w.
      rpc_then (bump_high_water E (g + 1) w) (\<lambda>_ w. save_envelope Q E (env\<lparr>ev_slots := S', ev_header := s\<rparr>) w)) = (r, w')"
    using c Some n by (simp add: commit_slots_def rpc_then_def [of "(Inr _, _)"])
  show ?thesis using c'
  proof (cases rule: rpc_then_cases)
    case (failed e)
    have st: "still w w'" using seal_header_at(1) [OF law wf failed(1)] .
    then have "cw_trace w' = cw_trace w" by (simp add: still_def)
    then show ?thesis using still_inv [OF inv st] by simp
  next
    case (ok s w1)
    let ?e = "env\<lparr>ev_slots := S', ev_header := s\<rparr>"
    note sh = seal_header_at [OF law wf ok(1)]
    have T: "cw_trace w1 = cw_trace w" "cw_tick w \<le> cw_tick w1" using sh(1) by (simp_all add: still_def)
    have o: "opened_header Q dek ?e = Some \<lparr>hd_generation = g + 1, hd_slots = fingerprint S'\<rparr>" by (rule sh(2)) simp_all
    have sl: "opened_slot Q dek ?e name = opened_slot Q dek (env\<lparr>ev_slots := S'\<rparr>) name" for name
      by (simp add: opened_slot_def cong: option.case_cong)
    have "vault_inv Q E mek dek (if cw_trace w' = cw_trace w1 then \<sigma> else \<sigma>') w'"
    proof (rule bump_save_inv [OF law still_inv [OF inv sh(1)] _ _ n(2) wf refl o _ _ _ ok(2), of N])
      show "known Q mek dek (cw_trace w1) env" "anchored KEYRING_GENERATION_ACCOUNT g w1"
        using kn a T still_anchored [OF sh(1)] by simp_all
      show "(name, k, m) \<in> slots_sealed Q dek (cw_trace w1) \<union> N" if "opened_slot Q dek ?e name = Some (k, m)" for name k m
        using new [of name k m] that sl T by simp
      show "drawn E (cw_tick w1) k" if "(name, k, m) \<in> N" for name k m using drawn_mono [OF dr [OF that] T(2)] .
      show "lists (slots_sealed Q dek (cw_trace w1) \<union> N) \<sigma>' \<lparr>hd_generation = g + 1, hd_slots = fingerprint S'\<rparr>"
        using li T by simp
    qed
    then show ?thesis using T by simp
  qed
qed


text \<open>One \<open>?\<close> of the source: the call stops there, having only looked, or goes on.\<close>

lemma peel:
  assumes "rpc_then p f = (r, w')" and "still w (snd p)" and "still w w' \<Longrightarrow> G"
    and "\<And>x s. p = (Inr x, s) \<Longrightarrow> still w s \<Longrightarrow> f x s = (r, w') \<Longrightarrow> G"
  shows G
  using assms by (cases rule: rpc_then_cases [OF assms(1)]) auto

lemma still_snd:
  "still w (snd (with_session_key E w))" "still w (snd (load_envelope Q E w))"
  using with_session_key_still [of E w] load_envelope_still [of Q E w]
  by (cases "with_session_key E w"; cases "load_envelope Q E w"; simp)+

text \<open>The beginning of every access to the slots.\<close>

lemma opened_envelope:
  assumes inv: "vault_inv Q E mek dek \<sigma> w" and r: "rpc_then (with_session_key E w) (\<lambda>k w. rpc_then (load_envelope Q E w) (f k)) = (r, w')"
    and quit: "still w w' \<Longrightarrow> G"
    and go: "\<And>env s. still w s \<Longrightarrow> vault_inv Q E mek dek \<sigma> s \<Longrightarrow> known Q mek dek (cw_trace s) env \<Longrightarrow> f dek env s = (r, w') \<Longrightarrow> G"
  shows G
proof (rule peel [OF r still_snd(1) quit])
  fix k w1
  assume k: "with_session_key E w = (Inr k, w1)" and w1: "still w w1" and r1: "rpc_then (load_envelope Q E w1) (f k) = (r, w')"
  have kd: "k = dek" using with_session_key_still [OF k] vault_invD(5) [OF inv] by auto
  show G
  proof (rule peel [OF r1, of w])
    show "still w (snd (load_envelope Q E w1))" using w1 still_snd(2) still_trans by blast
    show G if "still w w'" using that by (rule quit)
    fix env w2
    assume l: "load_envelope Q E w1 = (Inr env, w2)" and w2: "still w w2" and r2: "f k env w2 = (r, w')"
    note inv1 = still_inv [OF inv w1]
    have "known Q mek dek (cw_trace w1) env" using load_envelope_still [OF l] vault_invD(4) [OF inv1] by blast
    moreover have "still w1 w2" using load_envelope_still [OF l] by blast
    ultimately have "known Q mek dek (cw_trace w2) env" by (simp add: still_known)
    then show G using go [OF w2 still_inv [OF inv w2]] r2 kd by blast
  qed
qed

lemma store_after_still: "still w w' \<Longrightarrow> store_after w w' slot v \<sigma> = \<sigma>"
  by (simp add: store_after_def still_def)

lemma lists_insert:
  assumes "lists S \<sigma> h" and "hd_slots h = fingerprint slots" and "bt_wf slots"
    and "\<And>m. (slot, ss_nonce s, m) \<in> S \<Longrightarrow> m = v"
  shows "lists (S \<union> {(slot, ss_nonce s, v)}) (\<sigma>(slot := Some v)) \<lparr>hd_generation = i, hd_slots = fingerprint (bt_insert slot s slots)\<rparr>"
  unfolding lists_def
proof (intro allI impI)
  fix name
  assume c: "name \<noteq> CHECK_SLOT"
  have g: "bt_get name (fingerprint (bt_insert slot s slots)) = (if name = slot then Some (ss_nonce s) else bt_get name (hd_slots h))"
    using assms(2,3) by (simp add: bt_get_fingerprint bt_get_insert)
  show "case bt_get name (hd_slots \<lparr>hd_generation = i, hd_slots = fingerprint (bt_insert slot s slots)\<rparr>) of
      None \<Rightarrow> (\<sigma>(slot := Some v)) name = None
    | Some n \<Rightarrow> \<exists>m. (\<sigma>(slot := Some v)) name = Some m \<and> (\<forall>m'. (name, n, m') \<in> S \<union> {(slot, ss_nonce s, v)} \<longrightarrow> m' = m)"
  proof (cases "name = slot")
    case True
    then show ?thesis using g assms(4) by auto
  next
    case False
    then show ?thesis using g c assms(1) unfolding lists_def by (cases "bt_get name (hd_slots h)") auto
  qed
qed

lemma lists_remove:
  assumes "lists S \<sigma> h" and "hd_slots h = fingerprint slots"
  shows "lists S (\<sigma>(slot := None)) \<lparr>hd_generation = i, hd_slots = fingerprint (bt_remove slot slots)\<rparr>"
  unfolding lists_def
proof (intro allI impI)
  fix name
  assume c: "name \<noteq> CHECK_SLOT"
  have g: "bt_get name (fingerprint (bt_remove slot slots)) = (if name = slot then None else bt_get name (hd_slots h))"
    using assms(2) by (simp add: bt_get_fingerprint bt_get_remove)
  show "case bt_get name (hd_slots \<lparr>hd_generation = i, hd_slots = fingerprint (bt_remove slot slots)\<rparr>) of
      None \<Rightarrow> (\<sigma>(slot := None)) name = None
    | Some n \<Rightarrow> \<exists>m. (\<sigma>(slot := None)) name = Some m \<and> (\<forall>m'. (name, n, m') \<in> S \<longrightarrow> m' = m)"
  proof (cases "name = slot")
    case False
    then show ?thesis using g c assms(1) unfolding lists_def by (cases "bt_get name (hd_slots h)") auto
  qed (use g in simp)
qed


text \<open>The middle of a mutation: the checks on the envelope, after which it is carried on as it is.\<close>

lemma guarded_envelope:
  assumes inv: "vault_inv Q E mek dek \<sigma> w" and kn: "known Q mek dek (cw_trace w) env"
    and r: "rpc_then (guard_anchor Q E env w) (\<lambda>(k, l) w. rpc_then (carry_heal Q E k l env w) f) = (r, w')"
    and quit: "still w w' \<Longrightarrow> G"
    and go: "\<And>s. still w s \<Longrightarrow> f env s = (r, w') \<Longrightarrow> G"
  shows G
proof (rule peel [OF r])
  show "still w (snd (guard_anchor Q E env w))" using guard_anchor_at(1) [OF inv kn prod.collapse [symmetric]] .
  show G if "still w w'" using that by (rule quit)
  fix x s
  assume g: "guard_anchor Q E env w = (Inr x, s)" "still w s"
    "(case x of (k, l) \<Rightarrow> \<lambda>w. rpc_then (carry_heal Q E k l env w) f) s = (r, w')"
  obtain k l where x: "x = (k, l)" by force
  have "lk_anchor_initialized l = Some True" using guard_anchor_at(2) [OF inv kn g(1), of k l] x by simp
  then have "f env s = (r, w')" using g(3) x by (simp add: carry_heal_at rpc_then_def)
  then show G using go [OF g(2)] by simp
qed

lemma fresh_guarded:
  assumes inv: "vault_inv Q E mek dek \<sigma> w" and kn: "known Q mek dek (cw_trace w) env"
    and r: "rpc_then (guard_fresh Q E dek env w) f = (r, w')"
    and quit: "still w w' \<Longrightarrow> G"
    and go: "\<And>s g h. still w s \<Longrightarrow> anchored KEYRING_GENERATION_ACCOUNT g s \<Longrightarrow> hd_slots h = fingerprint (ev_slots env) \<Longrightarrow>
      lists (slots_sealed Q dek (cw_trace s)) \<sigma> h \<Longrightarrow> f g s = (r, w') \<Longrightarrow> G"
  shows G
proof (rule peel [OF r])
  show "still w (snd (guard_fresh Q E dek env w))" using guard_fresh_at(1) [OF inv kn prod.collapse [symmetric]] .
  show G if "still w w'" using that by (rule quit)
  fix g s
  assume g: "guard_fresh Q E dek env w = (Inr g, s)" and s: "still w s" and f: "f g s = (r, w')"
  from guard_fresh_at(2) [OF inv kn g] obtain h where "anchored KEYRING_GENERATION_ACCOUNT g w"
    "hd_slots h = fingerprint (ev_slots env)" "lists (slots_sealed Q dek (cw_trace w)) \<sigma> h" by blast
  then show G using go [OF s _ _ _ f] still_anchored [OF s] s by (simp add: still_def)
qed

lemma put_commit_inv:
  assumes law: "custody_law Q E" and inv: "vault_inv Q E mek dek \<sigma> w" and kn: "known Q mek dek (cw_trace w) env"
    and sl: "seal Q E dek v (aad (ev_version env) slot) w = (Inr s, w1)" and w2: "still w1 w2"
    and a: "anchored KEYRING_GENERATION_ACCOUNT g w2" and h: "hd_slots h = fingerprint (ev_slots env)"
      "lists (slots_sealed Q dek (cw_trace w2)) \<sigma> h"
    and fr: "nonces_fresh E (cw_tick w')" "cw_tick w1 \<le> cw_tick w'"
    and c: "commit_slots Q E dek env (bt_insert slot s (ev_slots env)) g w2 = (r, w')"
  shows "vault_inv Q E mek dek (store_after w w' slot (Some v) \<sigma>) w'"
proof -
  note se = seal_still [OF custody_lawD(1) [OF law] sl]
  have w: "still w w2" using se(1) w2 still_trans by blast
  then have T: "cw_trace w2 = cw_trace w" by (simp add: still_def)
  have s: "ss_nonce s = ce_random E (cw_tick w) NONCE_LEN" "unseal Q dek s (aad (ev_version env) slot) = Inr v"
    using se(3) [OF refl] custody_lawD(2) [OF law] by auto
  have wf: "bt_wf (ev_slots env)" using kn by (simp add: known_def)
  have no: "(name, ss_nonce s, m) \<notin> slots_sealed Q dek (cw_trace w)" for name m
  proof
    assume "(name, ss_nonce s, m) \<in> slots_sealed Q dek (cw_trace w)"
    then obtain t where t: "t < cw_tick w" "ss_nonce s = ce_random E t NONCE_LEN"
      using vault_invD(2) [OF inv] unfolding drawn_def by blast
    have "t = cw_tick w"
      using fr t s(1) se(2) unfolding nonces_fresh_def by (auto dest!: inj_onD)
    then show False using t by simp
  qed
  have dr: "drawn E (cw_tick w2) (ss_nonce s)"
    using s(1) se(2) w2 unfolding drawn_def still_def by (intro exI [of _ "cw_tick w"]) auto
  have new: "(name, n, m) \<in> slots_sealed Q dek (cw_trace w2) \<union> {(slot, ss_nonce s, v)}"
    if "opened_slot Q dek (env\<lparr>ev_slots := bt_insert slot s (ev_slots env)\<rparr>) name = Some (n, m)" for name n m
  proof (cases "name = slot")
    case True
    then show ?thesis using that s(2) wf by (auto simp: opened_slot_Some bt_get_insert)
  next
    case False
    then have "opened_slot Q dek env name = Some (n, m)" using that wf by (auto simp: opened_slot_Some bt_get_insert)
    then show ?thesis using kn T by (simp add: known_def)
  qed
  have "vault_inv Q E mek dek (if cw_trace w' = cw_trace w2 then \<sigma> else \<sigma>(slot := Some v)) w'"
    by (rule commit_inv [OF law still_inv [OF inv w] _ a bt_wf_insert [OF wf] new _ lists_insert [OF h(2,1) wf] c])
      (use kn T dr no in auto)
  then show ?thesis using T by (simp add: store_after_def)
qed


lemma tick_thenI:
  assumes "t \<le> cw_tick (snd p)" and "\<And>x s. p = (Inr x, s) \<Longrightarrow> t \<le> cw_tick s \<Longrightarrow> t \<le> cw_tick (snd (f x s))"
  shows "t \<le> cw_tick (snd (rpc_then p f))"
  using assms by (cases p) (auto simp: rpc_then_def split: sum.splits)

lemma bump_tick: "cw_tick w \<le> cw_tick (snd (bump_anchor E a g w))"
  unfolding bump_anchor_def
proof (intro tick_thenI)
  show "cw_tick w \<le> cw_tick (snd (read_anchor E a w))"
    using read_anchor_still [of E a w] by (cases "read_anchor E a w") (auto simp: still_def)
qed (auto simp: keyring_set_def tick_def Let_def)

lemma commit_tick:
  assumes law: "custody_law Q E" and "bt_wf S'"
  shows "cw_tick w \<le> cw_tick (snd (commit_slots Q E dek env S' g w))"
  unfolding commit_slots_def
proof (intro tick_thenI)
  fix x s
  assume s: "(ok_or Corrupt (checked_add g 1), w) = (Inr x, s)"
  have h: "still s (snd (seal_header Q E dek (ev_version env) x S' s))"
    using seal_header_at(1) [OF assms prod.collapse [symmetric]] .
  then show "cw_tick w \<le> cw_tick (snd (seal_header Q E dek (ev_version env) x S' s))" using s by (simp add: still_def)
next
  fix x s y and u :: custody_world
  assume "cw_tick w \<le> cw_tick u"
  then show "cw_tick w \<le> cw_tick (snd (bump_high_water E x u))" using bump_tick [of u E] by (simp add: bump_high_water_def le_trans)
next
  fix x s y u z and v :: custody_world
  assume "cw_tick w \<le> cw_tick v"
  then show "cw_tick w \<le> cw_tick (snd (save_envelope Q E (env\<lparr>ev_slots := S', ev_header := y\<rparr>) v))"
    using save_envelope_eq(3) [OF prod.collapse [symmetric]] le_trans by blast
qed simp

text \<open>A store stops having only looked, or gets as far as the commit.\<close>

lemma put_cases:
  assumes law: "custody_law Q E" and inv: "vault_inv Q E mek dek \<sigma> w" and p: "vault_put Q E slot v w = (r, w')"
    and quit: "still w w' \<Longrightarrow> G"
    and go: "\<And>env u sl x y g h. still w u \<Longrightarrow> vault_inv Q E mek dek \<sigma> u \<Longrightarrow> known Q mek dek (cw_trace u) env \<Longrightarrow>
      seal Q E dek v (aad (ev_version env) slot) u = (Inr sl, x) \<Longrightarrow> still x y \<Longrightarrow>
      anchored KEYRING_GENERATION_ACCOUNT g y \<Longrightarrow> hd_slots h = fingerprint (ev_slots env) \<Longrightarrow>
      lists (slots_sealed Q dek (cw_trace y)) \<sigma> h \<Longrightarrow>
      commit_slots Q E dek env (bt_insert slot sl (ev_slots env)) g y = (r, w') \<Longrightarrow> G"
  shows G
proof (cases "reserved_name slot \<or> is_reserved_domain_tag slot")
  case True
  then have "w' = w" using p by (cases "reserved_name slot") (auto simp: vault_put_def put_inner_def)
  then show ?thesis using quit by simp
next
  case False
  note r0 = p [unfolded vault_put_def put_inner_def if_not_P [OF False [unfolded de_Morgan_disj, THEN conjunct1]]
      if_not_P [OF False [unfolded de_Morgan_disj, THEN conjunct2]]]
  show ?thesis
  proof (rule opened_envelope [OF inv r0 quit])
    fix env s
    assume s: "still w s" "vault_inv Q E mek dek \<sigma> s" "known Q mek dek (cw_trace s) env"
      and r1: "rpc_then (guard_anchor Q E env s) (\<lambda>(mek, lockout) w. rpc_then (carry_heal Q E mek lockout env w) (\<lambda>env w.
        rpc_then (seal Q E dek v (aad (ev_version env) slot) w) (\<lambda>sealed w. rpc_then (guard_fresh Q E dek env w) (\<lambda>generation w.
        commit_slots Q E dek env (bt_insert slot sealed (ev_slots env)) generation w)))) = (r, w')"
    show G
    proof (rule guarded_envelope [OF s(2,3) r1])
      show G if "still s w'" using that s(1) still_trans quit by blast
      fix u
      assume u: "still s u" and r2: "rpc_then (seal Q E dek v (aad (ev_version env) slot) u) (\<lambda>sealed w.
        rpc_then (guard_fresh Q E dek env w) (\<lambda>generation w.
        commit_slots Q E dek env (bt_insert slot sealed (ev_slots env)) generation w)) = (r, w')"
      have wu: "still w u" using s(1) u still_trans by blast
      note iu = still_inv [OF inv wu] and ku = s(3) [folded still_known [OF u]]
      show G
      proof (rule peel [OF r2])
        show "still u (snd (seal Q E dek v (aad (ev_version env) slot) u))"
          using seal_still(1) [OF custody_lawD(1) [OF law] prod.collapse [symmetric]] .
        show G if "still u w'" using that wu still_trans quit by blast
        fix sl x
        assume sl: "seal Q E dek v (aad (ev_version env) slot) u = (Inr sl, x)" and x: "still u x"
          and r3: "rpc_then (guard_fresh Q E dek env x) (\<lambda>generation w.
            commit_slots Q E dek env (bt_insert slot sl (ev_slots env)) generation w) = (r, w')"
        have wx: "still w x" using wu x still_trans by blast
        show G
        proof (rule fresh_guarded [OF still_inv [OF inv wx] ku [folded still_known [OF x]] r3])
          show G if "still x w'" using that wx still_trans quit by blast
          fix y g h
          assume y: "still x y" "anchored KEYRING_GENERATION_ACCOUNT g y" "hd_slots h = fingerprint (ev_slots env)"
            "lists (slots_sealed Q dek (cw_trace y)) \<sigma> h"
            and c: "commit_slots Q E dek env (bt_insert slot sl (ev_slots env)) g y = (r, w')"
          show G by (rule go [OF wu iu ku sl y c])
        qed
      qed
    qed
  qed
qed

lemma put_inv:
  assumes law: "custody_law Q E" and inv: "vault_inv Q E mek dek \<sigma> w" and fr: "nonces_fresh E (cw_tick w')"
    and p: "vault_put Q E slot v w = (r, w')"
  shows "vault_inv Q E mek dek (store_after w w' slot (Some v) \<sigma>) w'"
proof (rule put_cases [OF law inv p])
  show "vault_inv Q E mek dek (store_after w w' slot (Some v) \<sigma>) w'" if "still w w'"
    using still_inv [OF inv that] store_after_still [OF that] by simp
  fix env u sl x y g h
  assume u: "still w u" "vault_inv Q E mek dek \<sigma> u" and ku: "known Q mek dek (cw_trace u) env"
    and sl: "seal Q E dek v (aad (ev_version env) slot) u = (Inr sl, x)" and y: "still x y"
      "anchored KEYRING_GENERATION_ACCOUNT g y" "hd_slots h = fingerprint (ev_slots env)" "lists (slots_sealed Q dek (cw_trace y)) \<sigma> h"
    and c: "commit_slots Q E dek env (bt_insert slot sl (ev_slots env)) g y = (r, w')"
  have "bt_wf (bt_insert slot sl (ev_slots env))" using ku by (simp add: known_def bt_wf_insert)
  then have "cw_tick x \<le> cw_tick w'" using commit_tick [OF law, of _ y dek env g] y(1) c
    by (fastforce simp: still_def dest: le_trans)
  from put_commit_inv [OF law u(2) ku sl y fr this c] u(1)
  show "vault_inv Q E mek dek (store_after w w' slot (Some v) \<sigma>) w'" by (simp add: store_after_def still_def)
qed

lemma clear_commit_inv:
  assumes law: "custody_law Q E" and inv: "vault_inv Q E mek dek \<sigma> w" and kn: "known Q mek dek (cw_trace w) env"
    and a: "anchored KEYRING_GENERATION_ACCOUNT g w" and h: "hd_slots h = fingerprint (ev_slots env)"
      "lists (slots_sealed Q dek (cw_trace w)) \<sigma> h"
    and c: "commit_slots Q E dek env (bt_remove slot (ev_slots env)) g w = (r, w')"
  shows "vault_inv Q E mek dek (store_after w w' slot None \<sigma>) w'"
proof -
  have wf: "bt_wf (ev_slots env)" using kn by (simp add: known_def)
  have new: "(name, n, m) \<in> slots_sealed Q dek (cw_trace w) \<union> {}"
    if "opened_slot Q dek (env\<lparr>ev_slots := bt_remove slot (ev_slots env)\<rparr>) name = Some (n, m)" for name n m
  proof -
    have "opened_slot Q dek env name = Some (n, m)"
      using that by (auto simp: opened_slot_Some bt_get_remove split: if_splits)
    then show ?thesis using kn by (simp add: known_def)
  qed
  have "vault_inv Q E mek dek (if cw_trace w' = cw_trace w then \<sigma> else \<sigma>(slot := None)) w'"
    by (rule commit_inv [OF law inv kn a bt_wf_remove [OF wf] new _ _ c])
      (use lists_remove [OF h(2,1)] in auto)
  then show ?thesis by (simp add: store_after_def)
qed

lemma clear_cases:
  assumes inv: "vault_inv Q E mek dek \<sigma> w" and p: "clear_slot Q E slot w = (r, w')" and quit: "still w w' \<Longrightarrow> G"
    and go: "\<And>env y g h. still w y \<Longrightarrow> vault_inv Q E mek dek \<sigma> y \<Longrightarrow> known Q mek dek (cw_trace y) env \<Longrightarrow>
      anchored KEYRING_GENERATION_ACCOUNT g y \<Longrightarrow> hd_slots h = fingerprint (ev_slots env) \<Longrightarrow>
      lists (slots_sealed Q dek (cw_trace y)) \<sigma> h \<Longrightarrow>
      commit_slots Q E dek env (bt_remove slot (ev_slots env)) g y = (r, w') \<Longrightarrow> G"
  shows G
proof (cases "reserved_name slot")
  case True
  then have "w' = w" using p by (simp add: clear_slot_def)
  then show ?thesis using quit by simp
next
  case False
  note r0 = p [unfolded clear_slot_def if_not_P [OF False]]
  show ?thesis
  proof (rule opened_envelope [OF inv r0 quit])
    fix env s
    assume s: "still w s" "vault_inv Q E mek dek \<sigma> s" "known Q mek dek (cw_trace s) env"
      and r1: "(if bt_get slot (ev_slots env) = None then (Inr (), s)
        else rpc_then (guard_anchor Q E env s) (\<lambda>(mek, lockout) w. rpc_then (carry_heal Q E mek lockout env w) (\<lambda>env w.
          rpc_then (guard_fresh Q E dek env w) (\<lambda>generation w.
          commit_slots Q E dek env (bt_remove slot (ev_slots env)) generation w)))) = (r, w')"
    show G
    proof (cases "bt_get slot (ev_slots env) = None")
      case True
      then show ?thesis using r1 s(1) quit by simp
    next
      case False
      note r2 = r1 [unfolded if_not_P [OF False]]
      show ?thesis
      proof (rule guarded_envelope [OF s(2,3) r2])
        show G if "still s w'" using that s(1) still_trans quit by blast
        fix u
        assume u: "still s u" and r3: "rpc_then (guard_fresh Q E dek env u) (\<lambda>generation w.
          commit_slots Q E dek env (bt_remove slot (ev_slots env)) generation w) = (r, w')"
        have wu: "still w u" using s(1) u still_trans by blast
        note ku = s(3) [folded still_known [OF u]]
        show G
        proof (rule fresh_guarded [OF still_inv [OF inv wu] ku r3])
          show G if "still u w'" using that wu still_trans quit by blast
          fix y g h
          assume y: "still u y" "anchored KEYRING_GENERATION_ACCOUNT g y" "hd_slots h = fingerprint (ev_slots env)"
            "lists (slots_sealed Q dek (cw_trace y)) \<sigma> h"
            and c: "commit_slots Q E dek env (bt_remove slot (ev_slots env)) g y = (r, w')"
          have wy: "still w y" using wu y(1) still_trans by blast
          show G by (rule go [OF wy still_inv [OF inv wy] ku [folded still_known [OF y(1)]] y(2,3,4) c])
        qed
      qed
    qed
  qed
qed

lemma clear_inv:
  assumes law: "custody_law Q E" and inv: "vault_inv Q E mek dek \<sigma> w" and p: "clear_slot Q E slot w = (r, w')"
  shows "vault_inv Q E mek dek (store_after w w' slot None \<sigma>) w'"
proof (rule clear_cases [OF inv p])
  show "vault_inv Q E mek dek (store_after w w' slot None \<sigma>) w'" if "still w w'"
    using still_inv [OF inv that] store_after_still [OF that] by simp
  fix env y g h
  assume y: "still w y" "vault_inv Q E mek dek \<sigma> y" "known Q mek dek (cw_trace y) env" "anchored KEYRING_GENERATION_ACCOUNT g y"
    "hd_slots h = fingerprint (ev_slots env)" "lists (slots_sealed Q dek (cw_trace y)) \<sigma> h"
    and c: "commit_slots Q E dek env (bt_remove slot (ev_slots env)) g y = (r, w')"
  from clear_commit_inv [OF law y(2-6) c] y(1)
  show "vault_inv Q E mek dek (store_after w w' slot None \<sigma>) w'" by (simp add: store_after_def still_def)
qed

section \<open>The throttle block\<close>

lemma bump_anchor_any:
  assumes "bump_anchor E a g w = (r, w')"
  shows "still (w\<lparr>cw_keyring := cw_keyring w'\<rparr>) w'"
    and "cw_keyring w' = cw_keyring w \<or> (\<exists>v. cw_keyring w' = (cw_keyring w)(a \<mapsto> v))"
proof -
  have "still (w\<lparr>cw_keyring := cw_keyring w'\<rparr>) w' \<and> (cw_keyring w' = cw_keyring w \<or> (\<exists>v. cw_keyring w' = (cw_keyring w)(a \<mapsto> v)))"
    using assms unfolding bump_anchor_def
  proof (cases rule: rpc_then_cases)
    case (failed e)
    then show ?thesis using read_anchor_still [OF failed(1)] by (auto simp: still_def)
  next
    case (ok x s)
    have s: "still w s" using read_anchor_still [OF ok(1)] by simp
    show ?thesis
    proof (cases "g > (case x of Some n \<Rightarrow> n | None \<Rightarrow> 0)")
      case True
      then have "keyring_set E a (be_bytes 8 g) s = (r, w')" using ok(2) by simp
      from keyring_set_eq [OF this] s show ?thesis by (auto simp: still_def)
    next
      case False
      then show ?thesis using ok(2) s by (auto simp: still_def)
    qed
  qed
  then show "still (w\<lparr>cw_keyring := cw_keyring w'\<rparr>) w'"
    "cw_keyring w' = cw_keyring w \<or> (\<exists>v. cw_keyring w' = (cw_keyring w)(a \<mapsto> v))" by blast+
qed

lemma other_account_inv:
  assumes inv: "vault_inv Q E mek dek \<sigma> w" and a: "a \<noteq> KEYRING_MASTER_ACCOUNT" "a \<noteq> KEYRING_GENERATION_ACCOUNT"
    and k: "still (w\<lparr>cw_keyring := cw_keyring w'\<rparr>) w'" "cw_keyring w' = cw_keyring w \<or> (\<exists>v. cw_keyring w' = (cw_keyring w)(a \<mapsto> v))"
  shows "vault_inv Q E mek dek \<sigma> w'"
proof -
  have "cw_keyring w' KEYRING_MASTER_ACCOUNT = cw_keyring w KEYRING_MASTER_ACCOUNT"
    "cw_keyring w' KEYRING_GENERATION_ACCOUNT = cw_keyring w KEYRING_GENERATION_ACCOUNT" using a k(2) by auto
  then have "vault_inv Q E mek dek \<sigma> (w\<lparr>cw_keyring := cw_keyring w'\<rparr>)"
    using inv unfolding vault_inv_def anchored_def by simp
  then show ?thesis using still_inv k(1) by blast
qed

lemma account_names:
  "KEYRING_LOCKOUT_GEN_ACCOUNT \<noteq> KEYRING_MASTER_ACCOUNT" "KEYRING_LOCKOUT_GEN_ACCOUNT \<noteq> KEYRING_GENERATION_ACCOUNT"
  "KEYRING_AUTO_PASSPHRASE_ACCOUNT \<noteq> KEYRING_MASTER_ACCOUNT" "KEYRING_AUTO_PASSPHRASE_ACCOUNT \<noteq> KEYRING_GENERATION_ACCOUNT"
  "KEYRING_MASTER_ACCOUNT \<noteq> KEYRING_GENERATION_ACCOUNT" "KEYRING_AUTO_PASSPHRASE_ACCOUNT \<noteq> KEYRING_LOCKOUT_GEN_ACCOUNT"
  by (simp_all add: KEYRING_LOCKOUT_GEN_ACCOUNT_def KEYRING_MASTER_ACCOUNT_def KEYRING_GENERATION_ACCOUNT_def
      KEYRING_AUTO_PASSPHRASE_ACCOUNT_def)

text \<open>An envelope saved with only its throttle block replaced by \<open>l\<close>.\<close>

lemma save_lockout_inv:
  assumes law: "custody_law Q E" and inv: "vault_inv Q E mek dek \<sigma> w" and kn: "known Q mek dek (cw_trace w) env"
    and e: "env' = env\<lparr>ev_lockout := s\<rparr>" "open_lockout Q mek env' = Inr l" "lk_anchor_initialized l = Some True"
    and c: "save_envelope Q E env' w = (r, w')"
  shows "vault_inv Q E mek dek \<sigma> w'"
    and "cw_trace w' \<noteq> cw_trace w \<Longrightarrow> lockouts Q mek (cw_trace w') = insert l (lockouts Q mek (cw_trace w))"
proof -
  note sv = save_envelope_eq [OF c]
  have *: "vault_inv Q E mek dek \<sigma> w' \<and> (cw_trace w' \<noteq> cw_trace w \<longrightarrow> lockouts Q mek (cw_trace w') = insert l (lockouts Q mek (cw_trace w)))"
  proof (cases "cw_trace w' = cw_trace w")
    case True
    then have "still w w'" using sv by (auto simp: still_def)
    then show ?thesis using still_inv [OF inv] True by simp
  next
    case False
    have v: "ev_version env' = ENVELOPE_VERSION" and wf: "bt_wf (ev_slots env')" using e(1) kn by (simp_all add: known_def)
    obtain b where b: "cw_trace w' = b # cw_trace w" "parsed Q b = Some env'" "cw_file w' \<in> {cw_file w, Some b}"
      by (rule save_known [OF law c wf v False])
    have oh: "opened_header Q dek env' = opened_header Q dek env" using e(1) by (simp add: opened_header_def)
    have os: "opened_slot Q dek env' name = opened_slot Q dek env name" for name
      using e(1) by (simp add: opened_slot_def cong: option.case_cong)
    have H: "headers Q dek (b # cw_trace w) = headers Q dek (cw_trace w)"
      using b(2) oh kn by (auto simp: contents_Cons known_def)
    have S: "slots_sealed Q dek (b # cw_trace w) = slots_sealed Q dek (cw_trace w)"
      using b(2) os kn by (auto simp: contents_Cons known_def)
    have L: "lockouts Q mek (b # cw_trace w) = insert l (lockouts Q mek (cw_trace w))"
      using b(2) e(2) by (auto simp: contents_Cons)
    obtain hw where hw: "anchored KEYRING_GENERATION_ACCOUNT hw w"
      "\<And>h. h \<in> headers Q dek (cw_trace w) \<Longrightarrow> hd_generation h \<le> hw"
      "\<And>h. h \<in> headers Q dek (cw_trace w) \<Longrightarrow> hd_generation h = hw \<Longrightarrow> lists (slots_sealed Q dek (cw_trace w)) \<sigma> h"
      using vault_inv_hw [OF inv] by metis
    have "vault_inv Q E mek dek \<sigma> w'"
    proof (rule grow_inv [where hw = hw and N = "{}", OF inv b(1,3) sv(3) b(2) wf])
      show "d = dek" if "unseal Q k (ev_wrapped_dk env') (aad (ev_version env') AAD_WRAPPED_DK) = Inr d" for k d
        using kn that e(1) by (simp add: known_def)
      show "anchored KEYRING_GENERATION_ACCOUNT hw w'" using hw(1) sv(1) by (simp add: anchored_def)
      show "\<forall>h\<in>headers Q dek (b # cw_trace w). hd_generation h \<le> hw \<and>
          (hd_generation h = hw \<longrightarrow> lists (slots_sealed Q dek (b # cw_trace w)) \<sigma> h)"
        using hw H S by auto
      show "slots_sealed Q dek (b # cw_trace w) \<subseteq> slots_sealed Q dek (cw_trace w) \<union> {}" using S by simp
      show "lk_anchor_initialized x = Some True" if "x \<in> lockouts Q mek (b # cw_trace w)" for x
        using that L e(3) vault_invD(3) [OF inv] by auto
      show "cw_keyring w' KEYRING_MASTER_ACCOUNT = Some mek" using vault_invD(1) [OF inv] sv(1) by simp
      show "pred_option (\<lambda>s. se_data_key s = dek) (cw_session w')" using inv sv(2) by (simp add: vault_inv_def)
    qed simp
    then show ?thesis using L b(1) by simp
  qed
  then show "vault_inv Q E mek dek \<sigma> w'"
    "cw_trace w' \<noteq> cw_trace w \<Longrightarrow> lockouts Q mek (cw_trace w') = insert l (lockouts Q mek (cw_trace w))" by auto
qed


lemma write_lockout_inv:
  assumes law: "custody_law Q E" and inv: "vault_inv Q E mek dek \<sigma> w" and kn: "known Q mek dek (cw_trace w) env"
    and c: "write_lockout Q E mek env l w = (r, w')"
  shows "vault_inv Q E mek dek \<sigma> w'"
  using c unfolding write_lockout_def
proof (cases rule: rpc_then_cases)
  case (failed e)
  then show ?thesis using read_anchor_still [OF failed(1) [unfolded read_lockout_hw_def]] still_inv [OF inv] by blast
next
  case (ok x w1)
  let ?n = "wrap_inc (case x of Some n \<Rightarrow> n | None \<Rightarrow> 0)"
  have w1: "still w w1" using read_anchor_still [OF ok(1) [unfolded read_lockout_hw_def]] by simp
  note inv1 = still_inv [OF inv w1]
  show ?thesis using ok(2) unfolding Let_def
  proof (cases rule: rpc_then_cases)
    case (failed e)
    show ?thesis
      using other_account_inv [OF inv1 account_names(1,2) bump_anchor_any [OF failed(1) [unfolded bump_lockout_hw_def]]] .
  next
    case ok1: (ok u w2)
    note b = bump_anchor_any [OF ok1(1) [unfolded bump_lockout_hw_def]]
    note inv2 = other_account_inv [OF inv1 account_names(1,2) b]
    have T2: "cw_trace w2 = cw_trace w" using b(1) w1 by (simp add: still_def)
    show ?thesis using ok1(2)
    proof (cases rule: rpc_then_cases)
      case (failed e)
      then show ?thesis using seal_lockout_at(1) [OF law failed(1)] still_inv [OF inv2] by blast
    next
      case ok2: (ok s w3)
      have w3: "still w2 w3" using seal_lockout_at(1) [OF law ok2(1)] .
      have kn3: "known Q mek dek (cw_trace w3) env" using kn T2 w3 by (simp add: still_def)
      have "open_lockout Q mek (env\<lparr>ev_lockout := s\<rparr>) = Inr (l\<lparr>lk_generation := ?n, lk_anchor_initialized := Some True\<rparr>)"
        by (rule seal_lockout_at(2) [OF law ok2(1)]) simp_all
      from save_lockout_inv(1) [OF law still_inv [OF inv2 w3] kn3 refl this _ ok2(2)] show ?thesis by simp
    qed
  qed
qed

text \<open>A session that a trial opens holds the data key, whatever the envelope was.\<close>

lemma verify_session_still:
  assumes inv: "vault_inv Q E mek dek \<sigma> w" and kn: "known Q mek dek (cw_trace w) env"
  shows "still w (snd (verify_session Q E dek env w))"
proof (cases "length dek \<noteq> KEY_LEN")
  case False
  show ?thesis
    unfolding verify_session_def if_not_P [OF False]
  proof (intro still_thenI)
    show "still w (snd (guard_fresh Q E dek env w))" using guard_fresh_at(1) [OF inv kn prod.collapse [symmetric]] .
  qed (auto simp: still_def tick_def)
qed (simp add: verify_session_def)

lemma try_derive_still:
  assumes inv: "vault_inv Q E mek dek \<sigma> w" and kn: "known Q mek dek (cw_trace w) env"
    and t: "try_derive_session Q E p mek env w = (r, w')"
  shows "still w w'" and "r = Inr s \<Longrightarrow> se_data_key s = dek"
proof -
  have d: "d = dek" if "unseal Q k (ev_wrapped_dk env) (aad (ev_version env) AAD_WRAPPED_DK) = Inr d" for k d
    using kn that unfolding known_def by blast
  have "still w (snd (try_derive_session Q E p mek env w))"
    unfolding try_derive_session_def
  proof (intro still_thenI)
    show "still w (snd (derive_key_counted Q p (ev_salt env) w))" using derive_key_counted_still [OF prod.collapse [symmetric]] .
  next
    fix kek w1 x w2
    assume w1: "still w w1" and x: "(unseal Q (combine_keys mek kek) (ev_wrapped_dk env) (aad (ev_version env) AAD_WRAPPED_DK), w1) = (Inr x, w2)"
    have "still w1 (snd (verify_session Q E dek env w1))"
      using verify_session_still [OF still_inv [OF inv w1]] kn still_known [OF w1] by simp
    then show "still w (snd (verify_session Q E x env w2))" using x d w1 still_trans by auto
  qed simp
  then show "still w w'" using t by simp
  show "se_data_key s = dek" if r: "r = Inr s"
  proof -
    obtain k x w1 w2 where "unseal Q k (ev_wrapped_dk env) (aad (ev_version env) AAD_WRAPPED_DK) = Inr x"
      "verify_session Q E x env w1 = (Inr s, w2)" using t r by (auto simp: try_derive_session_def rpc_then_Inr)
    then show ?thesis using d [of k x] by (auto simp: verify_session_def rpc_then_Inr split: if_splits)
  qed
qed

lemma count_failure_still: "count_failure E l w = (l', w') \<Longrightarrow> still w w'"
  by (auto simp: count_failure_def now_unix_ms_def Let_def split: if_splits prod.splits)

lemma trial_inv:
  assumes law: "custody_law Q E" and inv: "vault_inv Q E mek dek \<sigma> w" and kn: "known Q mek dek (cw_trace w) env"
    and t: "unlock_trial Q E p mek env l el w = (r, w')"
  shows "vault_inv Q E mek dek \<sigma> w'"
proof -
  obtain q w1 where q: "try_derive_session Q E p mek env w = (q, w1)" by force
  note d = try_derive_still [OF inv kn q]
  note inv1 = still_inv [OF inv d(1)] and kn1 = kn [folded still_known [OF d(1)]]
  show ?thesis
  proof (cases q)
    case (Inr s)
    have set: "vault_inv Q E mek dek \<sigma> (x\<lparr>cw_session := Some s\<rparr>)" if "vault_inv Q E mek dek \<sigma> x" for x
      using that d(2) Inr unfolding vault_inv_def anchored_def by simp
    have wl: "vault_inv Q E mek dek \<sigma> (snd (write_lockout Q E mek env lockout_default w1))"
      using write_lockout_inv [OF law inv1 kn1 prod.collapse [symmetric]] .
    show ?thesis
      using t q Inr set inv1 wl
      by (auto simp: unlock_trial_def rpc_then_def split: if_splits prod.splits sum.splits)
  next
    case (Inl e)
    obtain l' w2 where c: "count_failure E l w1 = (l', w2)" by force
    note w2 = count_failure_still [OF c]
    have "vault_inv Q E mek dek \<sigma> (snd (write_lockout Q E mek env l' w2))"
      using write_lockout_inv [OF law still_inv [OF inv1 w2] kn1 [folded still_known [OF w2]] prod.collapse [symmetric]] .
    then show ?thesis using t q Inl c inv1 by (auto simp: unlock_trial_def split: if_splits)
  qed
qed


text \<open>The count of passphrase derivations moves only when a passphrase is tried.\<close>

lemma kdf_thenI:
  assumes "cw_kdf (snd p) = n" and "\<And>x s. p = (Inr x, s) \<Longrightarrow> cw_kdf s = n \<Longrightarrow> cw_kdf (snd (f x s)) = n"
  shows "cw_kdf (snd (rpc_then p f)) = n"
  using assms by (cases p) (auto simp: rpc_then_def split: sum.splits)

lemma kdf_prims [simp]:
  "cw_kdf (tick w) = cw_kdf w" "cw_kdf (snd (keyring_get E a w)) = cw_kdf w" "cw_kdf (snd (keyring_set E a b w)) = cw_kdf w"
  "cw_kdf (snd (load_envelope Q E w)) = cw_kdf w" "cw_kdf (snd (seal Q E k m d w)) = cw_kdf w"
  "cw_kdf (snd (now_unix_ms E w)) = cw_kdf w"
  by (simp_all add: tick_def keyring_get_def keyring_set_def load_envelope_def seal_def fill_bytes_def now_unix_ms_def Let_def)

lemma kdf_save [simp]: "cw_kdf (snd (save_envelope Q E env w)) = cw_kdf w"
  by (simp add: save_envelope_def Let_def split: option.split save_fault.split sum.split)

lemma kdf_anchors [simp]:
  "cw_kdf (snd (master_key E w)) = cw_kdf w" "cw_kdf (snd (read_anchor E a w)) = cw_kdf w"
  "cw_kdf (snd (bump_anchor E a g w)) = cw_kdf w"
  by (simp_all add: master_key_def read_anchor_def bump_anchor_def rpc_map_def Let_def kdf_thenI split: prod.split sum.split)

lemma kdf_guards [simp]:
  "cw_kdf (snd (enforce_anchor_initialized Q E l env k w)) = cw_kdf w" "cw_kdf (snd (guard_fresh Q E k env w)) = cw_kdf w"
  "cw_kdf (snd (write_lockout Q E k env l w)) = cw_kdf w" "cw_kdf (snd (verify_session Q E k env w)) = cw_kdf w"
  by (auto simp: enforce_anchor_initialized_def heal_legacy_anchor_def seal_lockout_def guard_fresh_def enforce_high_water_def
      read_high_water_def bump_high_water_def read_lockout_hw_def bump_lockout_hw_def write_lockout_def verify_session_def Let_def
      intro!: kdf_thenI split: option.split bool.split)

lemma kdf_trial: "cw_kdf (snd (unlock_trial Q E p mek env l el w)) = Suc (cw_kdf w)"
proof -
  have "cw_kdf (snd (try_derive_session Q E p mek env w)) = Suc (cw_kdf w)"
    unfolding try_derive_session_def by (intro kdf_thenI) (simp_all add: derive_key_counted_def)
  moreover have "cw_kdf (snd (count_failure E x s)) = cw_kdf s" for x s
    by (simp add: count_failure_def now_unix_ms_def Let_def split: prod.split)
  ultimately show ?thesis
    by (auto simp: unlock_trial_def Let_def split_beta intro!: kdf_thenI split: prod.split sum.split if_split)
qed

text \<open>Up to the throttle an unlock only looks; the block it then uses is one the vault sealed.\<close>

lemma peel_idle:
  assumes "rpc_then p f = (r, w')" and "still w (snd p)" and "cw_kdf (snd p) = cw_kdf w"
    and "still w w' \<Longrightarrow> cw_kdf w' = cw_kdf w \<Longrightarrow> G"
    and "\<And>x s. p = (Inr x, s) \<Longrightarrow> still w s \<Longrightarrow> cw_kdf s = cw_kdf w \<Longrightarrow> f x s = (r, w') \<Longrightarrow> G"
  shows G
  using assms by (cases rule: rpc_then_cases [OF assms(1)]) auto

lemma unlock_looks:
  assumes inv: "vault_inv Q E mek dek \<sigma> w" and u: "vault_unlock Q E p w = (r, w')"
    and quit: "still w w' \<Longrightarrow> (is_initialized w \<Longrightarrow> cw_kdf w' = cw_kdf w) \<Longrightarrow> G"
    and go: "\<And>env l s. still w s \<Longrightarrow> cw_kdf s = cw_kdf w \<Longrightarrow> known Q mek dek (cw_trace s) env \<Longrightarrow>
      open_lockout Q mek env = Inr l \<Longrightarrow> unlock_throttled Q E p mek env l s = (r, w') \<Longrightarrow> is_initialized w \<Longrightarrow> G"
  shows G
proof (cases "is_initialized w")
  case False
  then have "w' = snd (derive_key_counted Q p DUMMY_SALT w)" using u by (simp add: vault_unlock_def unlock_inner_def)
  then show G using quit derive_key_counted_still [OF prod.collapse [symmetric]] False by blast
next
  case True
  then have ni: "\<not> \<not> is_initialized w" by simp
  note r0 = u [unfolded vault_unlock_def unlock_inner_def if_not_P [OF ni]]
  show G
  proof (rule peel_idle [OF r0 _ kdf_anchors(1)])
    show "still w (snd (master_key E w))" using master_key_still [OF prod.collapse [symmetric]] by blast
    show G if "still w w'" "cw_kdf w' = cw_kdf w" using that by (rule quit)
    fix k w1
    assume k: "master_key E w = (Inr k, w1)" and w1: "still w w1" "cw_kdf w1 = cw_kdf w"
      and r1: "rpc_then (load_envelope Q E w1) (\<lambda>env w. rpc_then (open_lockout Q k env, w) (\<lambda>lockout w.
        rpc_then (enforce_anchor_initialized Q E lockout env k w) (\<lambda>_ w. unlock_throttled Q E p k env lockout w))) = (r, w')"
    have km: "k = mek" using master_key_still [OF k] vault_invD(1) [OF inv] by simp
    show G
    proof (rule peel_idle [OF r1, of w])
      show "still w (snd (load_envelope Q E w1))" using w1(1) still_snd(2) still_trans by blast
      show "cw_kdf (snd (load_envelope Q E w1)) = cw_kdf w" using w1(2) by simp
      show G if "still w w'" "cw_kdf w' = cw_kdf w" using that by (rule quit)
      fix env w2
      assume l: "load_envelope Q E w1 = (Inr env, w2)" and w2: "still w w2" "cw_kdf w2 = cw_kdf w"
        and r2: "rpc_then (open_lockout Q k env, w2) (\<lambda>lockout w.
          rpc_then (enforce_anchor_initialized Q E lockout env k w) (\<lambda>_ w. unlock_throttled Q E p k env lockout w)) = (r, w')"
      have kn1: "known Q mek dek (cw_trace w1) env" using load_envelope_still [OF l] vault_invD(4) [OF still_inv [OF inv w1(1)]] by blast
      have kn: "known Q mek dek (cw_trace w) env" using kn1 still_known [OF w1(1)] by simp
      show G
      proof (cases "open_lockout Q mek env")
        case (Inl e)
        then have "w' = w2" using r2 km by (simp add: rpc_then_def)
        then show ?thesis using quit w2 by simp
      next
        case (Inr lo)
        note r3 = r2 [unfolded km Inr rpc_then_def [of "(Inr lo, w2)"], simplified]
        have an: "still w2 (snd (enforce_anchor_initialized Q E lo env mek w2))"
          using enforce_anchor_at [OF known_lockout(2) [OF inv kn Inr] prod.collapse [symmetric]] .
        show ?thesis
        proof (rule peel_idle [OF r3, of w])
          show "still w (snd (enforce_anchor_initialized Q E lo env mek w2))" using an w2(1) still_trans by blast
          show "cw_kdf (snd (enforce_anchor_initialized Q E lo env mek w2)) = cw_kdf w" using w2(2) by simp
          show G if "still w w'" "cw_kdf w' = cw_kdf w" using that by (rule quit)
          show G if "still w s" "cw_kdf s = cw_kdf w" "unlock_throttled Q E p mek env lo s = (r, w')" for s
            using go [OF that(1,2) kn [folded still_known [OF that(1)]] Inr that(3) True] .
        qed
      qed
    qed
  qed
qed

lemma throttle_looks:
  assumes u: "unlock_throttled Q E p mek env l w = (r, w')" and quit: "still w w' \<Longrightarrow> cw_kdf w' = cw_kdf w \<Longrightarrow> G"
    and go: "\<And>s l' el. still w s \<Longrightarrow> cw_kdf s = cw_kdf w \<Longrightarrow>
      (\<forall>b. cw_keyring w KEYRING_LOCKOUT_GEN_ACCOUNT = Some b \<longrightarrow> be_val b \<le> lk_generation l) \<Longrightarrow>
      lk_locked_until_ms l = None \<and> l' = l \<and> \<not> el \<or>
      (\<exists>d. lk_locked_until_ms l = Some d \<and> d \<le> ce_now_ms E (cw_tick s - 1) \<and> cw_tick w < cw_tick s \<and>
         l' = l\<lparr>lk_failures := 0, lk_locked_until_ms := None\<rparr> \<and> el) \<Longrightarrow>
      unlock_trial Q E p mek env l' el s = (r, w') \<Longrightarrow> G"
  shows G
proof (rule peel_idle [OF u [unfolded unlock_throttled_def] _ _ quit])
  show "still w (snd (read_lockout_hw E w))"
    using read_anchor_still [OF prod.collapse [symmetric]] unfolding read_lockout_hw_def by blast
  show "cw_kdf (snd (read_lockout_hw E w)) = cw_kdf w" by (simp add: read_lockout_hw_def)
  fix hw s
  assume h: "read_lockout_hw E w = (Inr hw, s)" and s: "still w s" "cw_kdf s = cw_kdf w"
    and r: "(if (case hw of Some n \<Rightarrow> lk_generation l < n | None \<Rightarrow> False) then (Inl Corrupt, s) else
      case lk_locked_until_ms l of None \<Rightarrow> unlock_trial Q E p mek env l False s
      | Some until_ms \<Rightarrow> (let (now, w) = now_unix_ms E s in if now < until_ms then (Inl LockedOut, w)
         else unlock_trial Q E p mek env (l\<lparr>lk_failures := 0, lk_locked_until_ms := None\<rparr>) True w)) = (r, w')"
  have hv: "hw = map_option be_val (cw_keyring w KEYRING_LOCKOUT_GEN_ACCOUNT)"
    using read_anchor_still [OF h [unfolded read_lockout_hw_def]] by simp
  have st: "still w (tick s)" "cw_kdf (tick s) = cw_kdf w" using s still_tick still_trans by auto
  show G
  proof (cases "case hw of Some n \<Rightarrow> lk_generation l < n | None \<Rightarrow> False")
    case True
    then show ?thesis using r s quit by simp
  next
    case False
    then have f: "(\<forall>b. cw_keyring w KEYRING_LOCKOUT_GEN_ACCOUNT = Some b \<longrightarrow> be_val b \<le> lk_generation l)"
      using hv by auto
    note r1 = r [unfolded if_not_P [OF False]]
    show ?thesis
    proof (cases "lk_locked_until_ms l")
      case None
      then show ?thesis using go [OF s f, of l False] r1 by simp
    next
      case (Some d)
      show ?thesis
      proof (cases "ce_now_ms E (cw_tick s) < d")
        case True
        then show ?thesis using r1 Some st quit by (simp add: now_unix_ms_def)
      next
        case False
        then show ?thesis
          using go [OF st f, of "l\<lparr>lk_failures := 0, lk_locked_until_ms := None\<rparr>" True] r1 Some s
          by (auto simp: now_unix_ms_def tick_def still_def)
      qed
    qed
  qed
qed

lemma unlock_inv:
  assumes law: "custody_law Q E" and inv: "vault_inv Q E mek dek \<sigma> w" and u: "vault_unlock Q E p w = (r, w')"
  shows "vault_inv Q E mek dek \<sigma> w'"
proof -
  have q: "vault_inv Q E mek dek \<sigma> w'" if "still w w'" using still_inv [OF inv that] .
  show ?thesis
  proof (rule unlock_looks [OF inv u q])
    fix env l s
    assume s: "still w s" and kn: "known Q mek dek (cw_trace s) env" and t: "unlock_throttled Q E p mek env l s = (r, w')"
    show "vault_inv Q E mek dek \<sigma> w'"
    proof (rule throttle_looks [OF t])
      show "vault_inv Q E mek dek \<sigma> w'" if "still s w'" using that s still_trans q by blast
      fix s' l' el
      assume s': "still s s'" and u: "unlock_trial Q E p mek env l' el s' = (r, w')"
      have "still w s'" using s s' still_trans by blast
      from trial_inv [OF law still_inv [OF inv this] kn [folded still_known [OF s']] u]
      show "vault_inv Q E mek dek \<sigma> w'" .
    qed
  qed
qed

section \<open>The vault at its making\<close>

lemma mint_master_at:
  assumes "mint_master_key E w = (Inr k, w')"
  shows "k = ce_random E (Suc (cw_tick w)) KEY_LEN" and "cw_keyring w' = (cw_keyring w)(KEYRING_MASTER_ACCOUNT \<mapsto> k)"
    and "cw_tick w' = cw_tick w + 3" and "cw_trace w' = cw_trace w" and "cw_session w' = cw_session w"
  using assms
  by (auto simp: mint_master_key_def rpc_then_Inr keyring_get_def keyring_set_def fill_bytes_def tick_def Let_def split: if_splits)

lemma init_parts:
  assumes "vault_init Q E p w0 = (Inr (), w)"
  obtains kek wrapped check hdr lo b w1 w2 w3 w4 w5 w6 where
    "mint_master_key E w0 = (Inr (ce_random E (Suc (cw_tick w0)) KEY_LEN), w1)"
    "seal Q E (combine_keys (ce_random E (Suc (cw_tick w0)) KEY_LEN) kek) (ce_random E (cw_tick w0 + 4) KEY_LEN)
       (aad ENVELOPE_VERSION AAD_WRAPPED_DK) w2 = (Inr wrapped, w3)"
    "seal Q E (ce_random E (cw_tick w0 + 4) KEY_LEN) CHECK_PLAINTEXT (aad ENVELOPE_VERSION CHECK_SLOT) w3 = (Inr check, w4)"
    "seal_header Q E (ce_random E (cw_tick w0 + 4) KEY_LEN) ENVELOPE_VERSION 0 [(CHECK_SLOT, check)] w4 = (Inr hdr, w5)"
    "seal_lockout Q E (ce_random E (Suc (cw_tick w0)) KEY_LEN) ENVELOPE_VERSION (lockout_default\<lparr>lk_anchor_initialized := Some True\<rparr>) w5
       = (Inr lo, w6)"
    "still w1 w2"
    "\<exists>w7. save_envelope Q E \<lparr>ev_version = ENVELOPE_VERSION, ev_salt = ce_random E (cw_tick w0 + 3) SALT_LEN, ev_wrapped_dk = wrapped,
       ev_header = hdr, ev_lockout = lo, ev_slots = [(CHECK_SLOT, check)]\<rparr> w6 = (Inr (), w7) \<and>
       seed_anchor E KEYRING_GENERATION_ACCOUNT 0 w7 = (Inr (), w)"
proof -
  have ni: "\<not> is_initialized w0" using assms by (auto simp: vault_init_def init_inner_def split: if_splits)
  obtain mek w1 where m: "mint_master_key E w0 = (Inr mek, w1)"
    using assms ni by (auto simp: vault_init_def init_inner_def rpc_then_Inr)
  note mm = mint_master_at [OF m]
  let ?a = "tick w1" let ?salt = "ce_random E (cw_tick w1) SALT_LEN"
  obtain kek where k: "derive_key Q p ?salt = Inr kek"
    using assms ni m by (auto simp: vault_init_def init_inner_def rpc_then_Inr fill_bytes_def derive_key_counted_def)
  let ?b = "?a\<lparr>cw_kdf := Suc (cw_kdf ?a)\<rparr>"
  have st: "still w1 (tick ?b)" by (simp add: still_def tick_def)
  have t: "cw_tick (tick w1) = cw_tick w0 + 4" "cw_tick w1 = cw_tick w0 + 3" using mm(3) by (simp_all add: tick_def)
  show thesis
    using assms ni m k
    by (auto simp: vault_init_def init_inner_def rpc_then_Inr fill_bytes_def derive_key_counted_def Let_def t mm(1)
        intro: that [OF m [unfolded mm(1)] _ _ _ _ st])
qed

lemma seed_anchor_clean:
  assumes "cw_keyring w a = None" and "seed_anchor E a n w = (Inr (), w')"
  shows "still (w\<lparr>cw_keyring := (cw_keyring w)(a \<mapsto> be_bytes 8 n)\<rparr>) w'"
proof -
  obtain s where s: "read_anchor E a w = (Inr None, s)" "keyring_set E a (be_bytes 8 n) s = (Inr (), w')"
    using assms read_anchor_still [of E a w] by (auto simp: seed_anchor_def rpc_then_Inr split: if_splits)
  have "still w s" using read_anchor_still [OF s(1)] by simp
  then show ?thesis using keyring_set_eq [OF s(2)] by (auto simp: still_def)
qed

text \<open>Just after its making the vault holds nothing but the check slot, and everything on disk is its own.\<close>

lemma init_inv:
  assumes law: "custody_law Q E" and cl: "clean_keyring w0" and i: "vault_init Q E p w0 = (Inr (), w)"
    and k: "mek = ce_random E (Suc (cw_tick w0)) KEY_LEN" "dek = ce_random E (cw_tick w0 + 4) KEY_LEN"
  shows "vault_inv Q E mek dek (\<lambda>_. None) w"
    and "lockouts Q mek (cw_trace w) = {lockout_default\<lparr>lk_anchor_initialized := Some True\<rparr>}"
    and "cw_keyring w KEYRING_LOCKOUT_GEN_ACCOUNT = None"
proof -
  let ?l = "lockout_default\<lparr>lk_anchor_initialized := Some True\<rparr>"
  obtain kek wrapped check hdr lo w1 w2 w3 w4 w5 w6 w7 where
    m: "mint_master_key E w0 = (Inr mek, w1)" and wr: "seal Q E (combine_keys mek kek) dek (aad ENVELOPE_VERSION AAD_WRAPPED_DK) w2 = (Inr wrapped, w3)"
    and ch: "seal Q E dek CHECK_PLAINTEXT (aad ENVELOPE_VERSION CHECK_SLOT) w3 = (Inr check, w4)"
    and h: "seal_header Q E dek ENVELOPE_VERSION 0 [(CHECK_SLOT, check)] w4 = (Inr hdr, w5)"
    and l: "seal_lockout Q E mek ENVELOPE_VERSION ?l w5 = (Inr lo, w6)" and s2: "still w1 w2"
    and sv: "save_envelope Q E \<lparr>ev_version = ENVELOPE_VERSION, ev_salt = ce_random E (cw_tick w0 + 3) SALT_LEN,
       ev_wrapped_dk = wrapped, ev_header = hdr, ev_lockout = lo, ev_slots = [(CHECK_SLOT, check)]\<rparr> w6 = (Inr (), w7)"
    and sd: "seed_anchor E KEYRING_GENERATION_ACCOUNT 0 w7 = (Inr (), w)"
    by (rule init_parts [OF i]) (use k in blast)
  let ?e = "\<lparr>ev_version = ENVELOPE_VERSION, ev_salt = ce_random E (cw_tick w0 + 3) SALT_LEN,
       ev_wrapped_dk = wrapped, ev_header = hdr, ev_lockout = lo, ev_slots = [(CHECK_SLOT, check)]\<rparr>"
  note aead = custody_lawD(1) [OF law] and mm = mint_master_at [OF m] and sve = save_envelope_eq [OF sv]
  have wf: "bt_wf [(CHECK_SLOT, check)]" by (simp add: bt_wf_def)
  have s34: "still w2 w3" "still w3 w4" "still w4 w5" "still w5 w6"
    using seal_still(1) [OF aead wr] seal_still(1) [OF aead ch] seal_header_at(1) [OF law wf h] seal_lockout_at(1) [OF law l] by auto
  have st: "still w1 w6" using s2 s34 still_trans by blast
  then have k7: "cw_keyring w7 = (cw_keyring w0)(KEYRING_MASTER_ACCOUNT \<mapsto> mek)" "cw_trace w6 = []" "cw_session w7 = None"
    using mm sve cl by (auto simp: still_def clean_keyring_def)
  have sw: "still (w7\<lparr>cw_keyring := (cw_keyring w7)(KEYRING_GENERATION_ACCOUNT \<mapsto> be_bytes 8 0)\<rparr>) w"
    using seed_anchor_clean [OF _ sd] k7 cl account_names by (simp add: clean_keyring_def)
  obtain b where b: "q_envelope_to_vec Q ?e = Inr b" "cw_trace w7 = [b]" "cw_file w7 = Some b" using sve(4) k7 by auto
  have w: "cw_trace w = [b]" "cw_file w = Some b" "cw_session w = None" "cw_tick w7 \<le> cw_tick w"
    "cw_keyring w = (cw_keyring w0)(KEYRING_MASTER_ACCOUNT \<mapsto> mek, KEYRING_GENERATION_ACCOUNT \<mapsto> be_bytes 8 0)"
    using sw b k7 by (auto simp: still_def)
  have pb: "parsed Q b = Some ?e" using custody_lawD(6) [OF law _ b(1)] wf by (simp add: parsed_Some)
  have oh: "opened_header Q dek ?e = Some \<lparr>hd_generation = 0, hd_slots = fingerprint [(CHECK_SLOT, check)]\<rparr>"
    by (rule seal_header_at(2) [OF law wf h]) simp_all
  have ol: "open_lockout Q mek ?e = Inr ?l" by (rule seal_lockout_at(2) [OF law l]) simp_all
  show L: "lockouts Q mek (cw_trace w) = {?l}" using w(1) pb ol by (auto simp: lockouts_def)
  have H: "headers Q dek (cw_trace w) = {\<lparr>hd_generation = 0, hd_slots = fingerprint [(CHECK_SLOT, check)]\<rparr>}"
    using w(1) pb oh by (auto simp: headers_def)
  have ck: "ss_nonce check = ce_random E (cw_tick w3) NONCE_LEN" using seal_still(3) [OF aead ch refl] by simp
  have "cw_tick w3 < cw_tick w" using seal_still(2) [OF aead ch] s34 sve(3) w(4) by (auto simp: still_def)
  then have dr: "drawn E (cw_tick w) (ss_nonce check)" using ck by (auto simp: drawn_def)
  have S: "name = CHECK_SLOT \<and> n = ss_nonce check" if "(name, n, x) \<in> slots_sealed Q dek (cw_trace w)" for name n x
    using that w(1) pb by (auto simp: slots_sealed_def opened_slot_Some bt_get_def split: if_splits)
  have wrap: "d = dek" if "unseal Q x (ev_wrapped_dk ?e) (aad (ev_version ?e) AAD_WRAPPED_DK) = Inr d" for x d
    using seal_still(3) [OF aead wr refl] that by simp
  have kn: "known Q mek dek (cw_trace w) ?e" using known_self [where mek = mek and T = "[]", OF pb _ wrap] wf w(1) by simp
  have li: "lists S (\<lambda>_. None) \<lparr>hd_generation = 0, hd_slots = fingerprint [(CHECK_SLOT, check)]\<rparr>" for S
    by (auto simp: lists_def fingerprint_def bt_get_def)
  have hw: "anchored KEYRING_GENERATION_ACCOUNT 0 w" using w(5) by (simp add: anchored_def)
  show "vault_inv Q E mek dek (\<lambda>_. None) w"
    unfolding vault_inv_def
  proof (intro conjI)
    show "cw_keyring w KEYRING_MASTER_ACCOUNT = Some mek" using w(5) account_names by simp
    show "\<exists>hw. anchored KEYRING_GENERATION_ACCOUNT hw w \<and> (\<forall>h\<in>headers Q dek (cw_trace w). hd_generation h \<le> hw \<and>
        (hd_generation h = hw \<longrightarrow> lists (slots_sealed Q dek (cw_trace w)) (\<lambda>_. None) h))"
      using hw H li by (intro exI [of _ 0]) simp
    show "\<forall>(name, n, m)\<in>slots_sealed Q dek (cw_trace w). drawn E (cw_tick w) n" using S dr by fast
    show "\<forall>l\<in>lockouts Q mek (cw_trace w). lk_anchor_initialized l = Some True" using L by simp
    show "\<forall>b env. cw_file w = Some b \<longrightarrow> parsed Q b = Some env \<longrightarrow> known Q mek dek (cw_trace w) env" using w(2) pb kn by simp
    show "pred_option (\<lambda>s. se_data_key s = dek) (cw_session w)" using w(3) by simp
  qed
  show "cw_keyring w KEYRING_LOCKOUT_GEN_ACCOUNT = None" using w(5) cl account_names by (simp add: clean_keyring_def)
qed

lemma init_again_still:
  assumes "vault_inv Q E mek dek \<sigma> w" and i: "vault_init Q E p w = (r, w')"
  shows "still w w'" and "r \<noteq> Inr ()"
proof -
  have "still w w' \<and> r \<noteq> Inr ()"
  proof (cases "is_initialized w")
    case True
    then show ?thesis using i by (auto simp: vault_init_def init_inner_def)
  next
    case False
    have m: "fst (mint_master_key E w) \<noteq> Inr k \<and> still w (snd (mint_master_key E w))" for k
      using vault_invD(1) [OF assms(1)] by (auto simp: mint_master_key_def rpc_then_def keyring_get_def)
    then obtain e where "fst (mint_master_key E w) = Inl e" by (cases "fst (mint_master_key E w)") auto
    then show ?thesis using i False m by (cases "mint_master_key E w") (auto simp: vault_init_def init_inner_def rpc_then_def)
  qed
  then show "still w w'" "r \<noteq> Inr ()" by auto
qed

lemma auto_pass_inv:
  assumes inv: "vault_inv Q E mek dek \<sigma> w" and g: "get_or_create_auto_passphrase E w = (r, w')"
  shows "vault_inv Q E mek dek \<sigma> w'" and "cw_trace w' = cw_trace w"
    and "cw_keyring w' KEYRING_LOCKOUT_GEN_ACCOUNT = cw_keyring w KEYRING_LOCKOUT_GEN_ACCOUNT" and "cw_tick w \<le> cw_tick w'"
proof -
  have a: "still (w\<lparr>cw_keyring := cw_keyring w'\<rparr>) w'"
    "cw_keyring w' = cw_keyring w \<or> (\<exists>v. cw_keyring w' = (cw_keyring w)(KEYRING_AUTO_PASSPHRASE_ACCOUNT \<mapsto> v))"
    using g by (auto simp: get_or_create_auto_passphrase_def rpc_then_def keyring_get_def keyring_set_def fill_bytes_def
        still_def tick_def Let_def split: option.splits if_splits)
  show "vault_inv Q E mek dek \<sigma> w'" by (rule other_account_inv [OF inv account_names(3,4) a])
  show "cw_trace w' = cw_trace w" "cw_tick w \<le> cw_tick w'" using a(1) by (simp_all add: still_def)
  show "cw_keyring w' KEYRING_LOCKOUT_GEN_ACCOUNT = cw_keyring w KEYRING_LOCKOUT_GEN_ACCOUNT" using a(2) account_names by auto
qed


section \<open>The trace only grows\<close>

definition grows :: "custody_world \<Rightarrow> custody_world \<Rightarrow> bool" where
  "grows w w' \<longleftrightarrow> (\<exists>T. cw_trace w' = T @ cw_trace w)"

lemma grows_refl [simp]: "grows w w" by (simp add: grows_def)

lemma grows_trans: "grows w w1 \<Longrightarrow> grows w1 w2 \<Longrightarrow> grows w w2"
  by (auto simp: grows_def)

lemma still_grows: "still w w' \<Longrightarrow> grows w w'"
  by (simp add: grows_def still_def)

lemma grows_thenI:
  assumes "grows w (snd p)" and "\<And>x s. p = (Inr x, s) \<Longrightarrow> grows s (snd (f x s))"
  shows "grows w (snd (rpc_then p f))"
  using assms grows_trans by (cases p) (auto simp: rpc_then_def split: sum.splits)

lemma known_grows: "known Q mek dek (cw_trace w) env \<Longrightarrow> grows w w' \<Longrightarrow> known Q mek dek (cw_trace w') env"
proof -
  have "known Q mek dek T env \<Longrightarrow> known Q mek dek (T' @ T) env" for T T'
    by (induction T') (auto intro: known_mono)
  then show "known Q mek dek (cw_trace w) env \<Longrightarrow> grows w w' \<Longrightarrow> known Q mek dek (cw_trace w') env"
    by (auto simp: grows_def)
qed

lemma save_grows: "grows w (snd (save_envelope Q E env w))"
proof -
  obtain r w' where s: "save_envelope Q E env w = (r, w')" by force
  show ?thesis using save_envelope_eq(4) [OF s] unfolding s grows_def by auto
qed

lemma trace_same:
  "cw_trace (snd (keyring_get E a w)) = cw_trace w" "cw_trace (snd (keyring_set E a s w)) = cw_trace w"
  "cw_trace (snd (seal Q E k m d w)) = cw_trace w" "cw_trace (snd (load_envelope Q E w)) = cw_trace w"
  "cw_trace (expire_if_stale E w) = cw_trace w" "cw_trace (snd (derive_key_counted Q p sa w)) = cw_trace w"
  by (simp_all add: keyring_get_def keyring_set_def seal_def load_envelope_def expire_if_stale_def derive_key_counted_def
      fill_bytes_def tick_def Let_def split: option.split)

lemma grows_prims [simp]:
  "grows w (snd (keyring_get E a w))" "grows w (snd (keyring_set E a s w))" "grows w (snd (seal Q E k m d w))"
  "grows w (snd (load_envelope Q E w))" "grows w (snd (with_session_key E w))" "grows w (snd (derive_key_counted Q p sa w))"
  "grows w (tick w)" "grows w (w\<lparr>cw_session := se\<rparr>)"
  using trace_same by (simp_all add: grows_def with_session_key_def Let_def) (simp_all add: tick_def)

lemma grows_keyring [simp]:
  "grows w (snd (master_key E w))" "grows w (snd (read_anchor E a w))" "grows w (snd (bump_anchor E a n w))"
proof -
  show r: "grows w (snd (master_key E w))" "grows w (snd (read_anchor E a w))" for w
    by (simp_all add: master_key_def read_anchor_def rpc_map_def)
  show "grows w (snd (bump_anchor E a n w))" unfolding bump_anchor_def by (rule grows_thenI) (simp_all add: r Let_def)
qed

lemma grows_anchors [simp]:
  "grows w (snd (read_high_water E w))" "grows w (snd (bump_high_water E n w))" "grows w (snd (read_lockout_hw E w))"
  "grows w (snd (bump_lockout_hw E n w))" "grows w (snd (enforce_high_water E n w))"
proof -
  show a: "grows w (snd (read_high_water E w))" "grows w (snd (bump_high_water E n w))" "grows w (snd (read_lockout_hw E w))"
    "grows w (snd (bump_lockout_hw E n w))" for w
    by (simp_all add: read_high_water_def bump_high_water_def read_lockout_hw_def bump_lockout_hw_def)
  show "grows w (snd (enforce_high_water E n w))"
    unfolding enforce_high_water_def by (rule grows_thenI) (simp_all add: a split: option.split)
qed

lemma grows_seals [simp]: "grows w (snd (seal_header Q E k v n S w))" "grows w (snd (seal_lockout Q E k v l w))"
  unfolding seal_header_def seal_lockout_def by (rule grows_thenI; simp)+

lemma grows_guards [simp]:
  "grows w (snd (enforce_anchor_initialized Q E l env k w))" "grows w (snd (guard_anchor Q E env w))"
  "grows w (snd (guard_fresh Q E k env w))" "grows w (snd (carry_heal Q E k l env w))"
proof -
  have h: "grows w (snd (heal_legacy_anchor Q E l env k w))" for l k w
    unfolding heal_legacy_anchor_def by (rule grows_thenI) (simp_all add: save_grows)
  show e: "grows w (snd (enforce_anchor_initialized Q E l env k w))" for l k w
    unfolding enforce_anchor_initialized_def by (rule grows_thenI) (simp_all add: h split: option.split bool.split)
  show "grows w (snd (guard_anchor Q E env w))" "grows w (snd (guard_fresh Q E k env w))" "grows w (snd (carry_heal Q E k l env w))"
    unfolding guard_anchor_def guard_fresh_def carry_heal_def by (auto intro!: grows_thenI simp: e)
qed

lemma grows_commit [simp]: "grows w (snd (commit_slots Q E k env S g w))" "grows w (snd (write_lockout Q E k env l w))"
  unfolding commit_slots_def write_lockout_def by (auto intro!: grows_thenI simp: save_grows Let_def)

lemma grows_ops:
  "grows w (snd (vault_put Q E slot v w))" "grows w (snd (clear_slot Q E slot w))" "grows w (snd (read_loaded Q E slot k env w))"
  "grows w (snd (vault_unlock Q E p w))"
proof -
  show "grows w (snd (vault_put Q E slot v w))" "grows w (snd (clear_slot Q E slot w))" "grows w (snd (read_loaded Q E slot k env w))"
    unfolding vault_put_def put_inner_def clear_slot_def read_loaded_def
    by (auto intro!: grows_thenI simp: split_def)
  have v: "grows w (snd (verify_session Q E d env w))" for d env w
    unfolding verify_session_def by (auto intro!: grows_thenI)
  have t: "grows w (snd (try_derive_session Q E p k env w))" for k env w
    unfolding try_derive_session_def by (auto intro!: grows_thenI simp: v)
  have c: "grows w (snd (count_failure E l w))" for l w
    by (simp add: count_failure_def now_unix_ms_def Let_def)
  have u: "grows w (snd (unlock_trial Q E p k env l el w))" for k env l el w
  proof -
    obtain r s where s: "try_derive_session Q E p k env w = (r, s)" by force
    have ws: "grows w s" using t [of w k env] s by simp
    obtain l' s' where c': "count_failure E l s = (l', s')" by force
    have "grows w (snd (write_lockout Q E k env l' s'))"
      using ws c [of s l] c' grows_commit(2) [of s' Q E k env l'] grows_trans by (metis snd_conv)
    moreover have "grows w (snd (rpc_then (write_lockout Q E k env lockout_default s) (\<lambda>_ w. (Inr (), w\<lparr>cw_session := Some se\<rparr>))))"
      "grows w (snd (rpc_then (Inr () :: CustodyError + unit, s) (\<lambda>_ w. (Inr () :: CustodyError + unit, w\<lparr>cw_session := Some se\<rparr>))))" for se
      using ws grows_trans by (intro grows_thenI; auto)+
    ultimately show ?thesis using ws s c' by (cases r) (simp_all add: unlock_trial_def)
  qed
  have th: "grows w (snd (unlock_throttled Q E p k env l w))" for k env l w
    unfolding unlock_throttled_def
    using u grows_trans [OF grows_prims(7) u] by (auto intro!: grows_thenI simp: now_unix_ms_def split: option.split)
  show "grows w (snd (vault_unlock Q E p w))"
    unfolding vault_unlock_def unlock_inner_def by (auto intro!: grows_thenI simp: th)
qed


section \<open>The result\<close>

lemma vault_step_inv:
  assumes law: "custody_law Q E" and st: "vault_step Q E mek dek y y'" and fr: "nonces_fresh E (cw_tick (vs_world y'))"
    and inv: "vault_inv Q E mek dek (vs_store y) (vs_world y)" and rd: "reads_inv Q mek dek y"
  shows "vault_inv Q E mek dek (vs_store y') (vs_world y')" and "reads_inv Q mek dek y'"
proof -
  have rds: "reads_inv Q mek dek (y\<lparr>vs_world := w'\<rparr>)" if "grows (vs_world y) w'" for w'
    using rd known_grows [OF _ that] by (auto simp: reads_inv_def)
  have "vault_inv Q E mek dek (vs_store y') (vs_world y') \<and> reads_inv Q mek dek y'"
    using st
  proof cases
    case (unlock p r w')
    then show ?thesis using unlock_inv [OF law inv unlock(2)] rds grows_ops(4) [of "vs_world y" Q E p] by (simp add: reads_inv_def)
  next
    case (put slot v r w')
    then show ?thesis
      using put_inv [OF law inv _ put(2)] fr rds grows_ops(1) [of "vs_world y" Q E slot v] by (simp add: reads_inv_def)
  next
    case (clear slot r w')
    then show ?thesis using clear_inv [OF law inv clear(2)] rds grows_ops(2) [of "vs_world y" Q E slot] by (simp add: reads_inv_def)
  next
    case (read_begin k w1 env w2)
    have s: "still (vs_world y) w1" "k = dek" using with_session_key_still [OF read_begin(2)] vault_invD(5) [OF inv] by auto
    have "known Q mek dek (cw_trace w1) env"
      using load_envelope_still [OF read_begin(3)] vault_invD(4) [OF still_inv [OF inv s(1)]] by blast
    moreover have t: "still w1 w2" using load_envelope_still [OF read_begin(3)] by blast
    ultimately have "known Q mek dek (cw_trace w2) env" by (simp add: still_known)
    then show ?thesis
      using read_begin still_inv [OF inv still_trans [OF s(1) t]] s(2) rds [OF still_grows [OF still_trans [OF s(1) t]]]
      by (simp add: reads_inv_def)
  next
    case (read_end k env slot r w')
    have k: "k = dek" "known Q mek dek (cw_trace (vs_world y)) env" using rd read_end(2) by (auto simp: reads_inv_def)
    have s: "still (vs_world y) w'" using read_loaded_fresh(1) [OF inv k(2)] read_end(3) k(1) by simp
    show ?thesis
      using read_end still_inv [OF inv s] rds [OF still_grows [OF s]] set_remove1_subset [of "(k, env)" "vs_reads y"]
      by (auto simp: reads_inv_def)
  next
    case (look r w')
    have s: "still (vs_world y) w'" using with_session_key_still [OF look(2)] by simp
    then show ?thesis using look still_inv [OF inv s] rds [OF still_grows [OF s]] by simp
  next
    case (load r w')
    have s: "still (vs_world y) w'" using load_envelope_still [OF load(2)] by simp
    then show ?thesis using load still_inv [OF inv s] rds [OF still_grows [OF s]] by simp
  next
    case (init_again p r w')
    have s: "still (vs_world y) w'" using init_again_still(1) [OF inv init_again(2)] .
    then show ?thesis using init_again still_inv [OF inv s] rds [OF still_grows [OF s]] by simp
  next
    case (auto_pass r w')
    then show ?thesis using auto_pass_inv [OF inv auto_pass(2)] rds by (simp add: grows_def)
  next
    case lock
    have s: "still (vs_world y) (vault_lock (vs_world y))" by (simp add: still_def vault_lock_def)
    then show ?thesis using lock still_inv [OF inv s] rds [OF still_grows [OF s]] by simp
  next
    case (autolock n)
    have s: "still (vs_world y) (set_autolock_mins n (vs_world y))" by (simp add: still_def set_autolock_mins_def)
    then show ?thesis using autolock still_inv [OF inv s] rds [OF still_grows [OF s]] by simp
  next
    case (restart n)
    have s: "still (vs_world y) ((vs_world y)\<lparr>cw_session := None, cw_kdf := 0, cw_autolock_secs := n\<rparr>)" by (simp add: still_def)
    then show ?thesis using restart still_inv [OF inv s] by (simp add: reads_inv_def)
  next
    case (tamper f t)
    then show ?thesis using inv rd unfolding vault_inv_def reads_inv_def anchored_def by simp
  qed
  then show "vault_inv Q E mek dek (vs_store y') (vs_world y')" "reads_inv Q mek dek y'" by auto
qed

lemma vault_run_inv:
  assumes "custody_law Q E" and "vault_run Q E mek dek y"
  shows "vault_inv Q E mek dek (vs_store y) (vs_world y)" and "reads_inv Q mek dek y"
proof -
  have "vault_inv Q E mek dek (vs_store y) (vs_world y) \<and> reads_inv Q mek dek y"
    using assms(2)
  proof induction
    case (start w0 p w)
    then show ?case using init_inv(1) [OF assms(1) start(1,2,3,4)] by (simp add: reads_inv_def)
  next
    case (step y y')
    then show ?case using vault_step_inv [OF assms(1)] by blast
  qed
  then show "vault_inv Q E mek dek (vs_store y) (vs_world y)" "reads_inv Q mek dek y" by auto
qed


end
