(* ===== verification/CustodyThrottle.thy ===== *)
theory CustodyThrottle
  imports CustodyRun
begin

text \<open>
  The throttle on passphrase guesses. With a key ring that answers and a clock that does not go back, any
  six guesses in a row that the vault answered as wrong span the cool-off, whatever the adversary does
  to the files and however often the application is restarted.
\<close>

section \<open>What is assumed of the environment\<close>

definition steady :: "custody_lib \<Rightarrow> custody_env \<Rightarrow> bool" where
  "steady Q E \<longleftrightarrow>
     (\<forall>t. ce_keyring_ok E t) \<and> mono (ce_now_ms E) \<and> (\<forall>t. ce_now_ms E t + LOCKOUT_COOLOFF_MS < 2 ^ 64) \<and>
     q_params_error Q = None \<and> (\<forall>k n a m. q_encrypt Q k n a m \<noteq> None)"

lemma steadyD:
  assumes "steady Q E"
  shows "ce_keyring_ok E t" and "s \<le> t \<Longrightarrow> ce_now_ms E s \<le> ce_now_ms E t"
    and "ce_now_ms E t + LOCKOUT_COOLOFF_MS < 2 ^ 64" and "q_encrypt Q k n a m \<noteq> None"
  using assms by (auto simp: steady_def mono_def)

section \<open>The invariant\<close>

text \<open>The throttle's anchor; an absent one counts as zero.\<close>

definition throttle_at :: "nat \<Rightarrow> custody_world \<Rightarrow> bool" where
  "throttle_at a w \<longleftrightarrow>
     cw_keyring w KEYRING_LOCKOUT_GEN_ACCOUNT = None \<and> a = 0 \<or> anchored KEYRING_LOCKOUT_GEN_ACCOUNT a w"

text \<open>Of the blocks the vault sealed, those at the anchor agree on the failures \<open>f\<close> and the deadline \<open>u\<close>.\<close>

definition block_is ::
  "custody_lib \<Rightarrow> bytes \<Rightarrow> nat \<Rightarrow> nat option \<Rightarrow> custody_world \<Rightarrow> bool" where
  "block_is Q mek f u w \<longleftrightarrow>
     (\<exists>a. throttle_at a w \<and> a \<le> cw_tick w \<and>
        (\<forall>l\<in>lockouts Q mek (cw_trace w).
           lk_generation l \<le> a \<and> (lk_generation l = a \<longrightarrow> lk_failures l = f \<and> lk_locked_until_ms l = u)))"

text \<open>Any six guesses span the cool-off.\<close>

definition spaced :: "(nat \<times> nat) list \<Rightarrow> bool" where
  "spaced log \<longleftrightarrow> (\<forall>i. i + 5 < length log \<longrightarrow> fst (log ! (i + 5)) + LOCKOUT_COOLOFF_MS \<le> snd (log ! i))"

text \<open>What the failures and the deadline say of the guesses: those beyond the counted ones are old enough, and so
  are all once the deadline has passed.\<close>

definition counts :: "nat \<Rightarrow> nat \<Rightarrow> nat option \<Rightarrow> (nat \<times> nat) list \<Rightarrow> bool" where
  "counts now f u log \<longleftrightarrow>
     f \<le> 5 \<and> (u = None \<longrightarrow> f < 5) \<and>
     (\<forall>j. f \<le> j \<longrightarrow> j < length log \<longrightarrow> fst (log ! j) + LOCKOUT_COOLOFF_MS \<le> now) \<and>
     (\<forall>d j. u = Some d \<longrightarrow> j < length log \<longrightarrow> fst (log ! j) + LOCKOUT_COOLOFF_MS \<le> d) \<and>
     (\<forall>j < length log. fst (log ! j) \<le> now)"

definition throttle_inv :: "custody_lib \<Rightarrow> custody_env \<Rightarrow> bytes \<Rightarrow> (nat \<times> nat) list \<Rightarrow> custody_world \<Rightarrow> bool" where
  "throttle_inv Q E mek log w \<longleftrightarrow>
     (\<exists>f u. block_is Q mek f u w \<and> counts (ce_now_ms E (cw_tick w)) f u log) \<and> spaced log"

lemma counts_later: "counts now f u log \<Longrightarrow> now \<le> now' \<Longrightarrow> counts now' f u log"
  unfolding counts_def by (meson le_trans)

lemma counts_empty: "f \<le> 5 \<Longrightarrow> (u = None \<Longrightarrow> f < 5) \<Longrightarrow> counts now f u []"
  by (simp add: counts_def)

text \<open>A wrong guess that was let through, begun at \<open>t0\<close> and over at \<open>t1\<close>.\<close>

lemma counts_old:
  assumes c: "counts t0 f u log" and "t0 \<le> now" and "\<And>d. u = Some d \<Longrightarrow> d \<le> now"
    and "j < length log" and "u = None \<Longrightarrow> f \<le> j"
  shows "fst (log ! j) + LOCKOUT_COOLOFF_MS \<le> now"
proof (cases u)
  case None
  then show ?thesis using c assms(2,4,5) unfolding counts_def by (meson le_trans)
next
  case (Some d)
  then have "fst (log ! j) + LOCKOUT_COOLOFF_MS \<le> d" using c assms(4) by (simp add: counts_def)
  then show ?thesis using assms(3) [OF Some] by simp
qed

lemma spaced_Cons:
  assumes "spaced log" and c: "counts t0 f u log" "t0 \<le> t1" "\<And>d. u = Some d \<Longrightarrow> d \<le> t1"
  shows "spaced ((t0, t1) # log)"
  unfolding spaced_def
proof (intro allI impI)
  fix i
  assume i: "i + 5 < length ((t0, t1) # log)"
  show "fst (((t0, t1) # log) ! (i + 5)) + LOCKOUT_COOLOFF_MS \<le> snd (((t0, t1) # log) ! i)"
  proof (cases i)
    case 0
    have "u = None \<Longrightarrow> f \<le> 4" using c(1) by (auto simp: counts_def)
    then have "fst (log ! 4) + LOCKOUT_COOLOFF_MS \<le> t1" using counts_old [OF c, of 4] i 0 by simp
    then show ?thesis using 0 by (simp add: nth_Cons numeral_eq_Suc)
  next
    case (Suc k)
    then show ?thesis using assms(1) [unfolded spaced_def, rule_format, of k] i by (simp add: add.commute)
  qed
qed

lemma counts_Cons:
  assumes c: "counts t0 f u log" and t: "t0 \<le> now" "now \<le> t1"
    and g: "u = None \<and> g = f \<or> (\<exists>d. u = Some d \<and> d \<le> now \<and> g = 0)"
  shows "counts t1 (g + 1) (if g + 1 < 5 then None else Some (now + LOCKOUT_COOLOFF_MS)) ((t0, t1) # log)"
proof -
  have f: "g < 5" using c g by (auto simp: counts_def)
  have old: "fst (log ! j) + LOCKOUT_COOLOFF_MS \<le> t1" if "g \<le> j" "j < length log" for j
    using counts_old [OF c, of now j] that t g by auto
  have past: "fst (log ! j) \<le> now" if "j < length log" for j
    using c that t(1) le_trans unfolding counts_def by blast
  show ?thesis
    unfolding counts_def
  proof (intro conjI allI impI)
    show "fst (((t0, t1) # log) ! j) + LOCKOUT_COOLOFF_MS \<le> t1" if "g + 1 \<le> j" "j < length ((t0, t1) # log)" for j
      using that old [of "j - 1"] by (cases j) auto
    show "fst (((t0, t1) # log) ! j) + LOCKOUT_COOLOFF_MS \<le> d"
      if "(if g + 1 < 5 then None else Some (now + LOCKOUT_COOLOFF_MS)) = Some d" "j < length ((t0, t1) # log)" for d j
      using that t past [of "j - 1"] by (cases j) (auto split: if_splits)
    show "fst (((t0, t1) # log) ! j) \<le> t1" if "j < length ((t0, t1) # log)" for j
      using that t past [of "j - 1"] by (cases j) auto
  qed (use f in \<open>auto split: if_splits\<close>)
qed

section \<open>Writing the block\<close>

lemma throttle_at_still: "still w w' \<Longrightarrow> throttle_at a w \<Longrightarrow> throttle_at a w'"
  by (simp add: throttle_at_def still_def anchored_def)

lemma block_still:
  assumes "still w w'" and "block_is Q mek f u w"
  shows "block_is Q mek f u w'"
proof -
  obtain a where a: "throttle_at a w" "a \<le> cw_tick w" "\<forall>l\<in>lockouts Q mek (cw_trace w).
      lk_generation l \<le> a \<and> (lk_generation l = a \<longrightarrow> lk_failures l = f \<and> lk_locked_until_ms l = u)"
    using assms(2) unfolding block_is_def by blast
  have "cw_trace w' = cw_trace w" "cw_tick w \<le> cw_tick w'" using assms(1) by (simp_all add: still_def)
  then show ?thesis using a throttle_at_still [OF assms(1)] unfolding block_is_def by (intro exI [of _ a]) auto
qed

lemma read_throttle:
  assumes "ce_keyring_ok E (cw_tick w)" and "throttle_at a w"
  obtains x where "read_anchor E KEYRING_LOCKOUT_GEN_ACCOUNT w = (Inr x, tick w)" "(case x of Some n \<Rightarrow> n | None \<Rightarrow> 0) = a"
proof (cases "cw_keyring w KEYRING_LOCKOUT_GEN_ACCOUNT")
  case None
  then show ?thesis using assms that [of None] by (simp add: read_anchor_def rpc_map_def keyring_get_def throttle_at_def anchored_def)
next
  case (Some b)
  then have "anchored KEYRING_LOCKOUT_GEN_ACCOUNT a w" using assms(2) by (simp add: throttle_at_def)
  then show ?thesis using assms that [of "Some a"]
    by (simp add: read_anchor_def rpc_map_def keyring_get_def anchored_def be_val_be_bytes)
qed

lemma bump_throttle:
  assumes "steady Q E" and "throttle_at a w" and "a < g" and "g < 2 ^ 64"
  obtains w' where "bump_lockout_hw E g w = (Inr (), w')" "throttle_at g w'" "cw_trace w' = cw_trace w" "cw_tick w < cw_tick w'"
proof -
  note ok = steadyD(1) [OF assms(1)]
  obtain x where x: "read_anchor E KEYRING_LOCKOUT_GEN_ACCOUNT w = (Inr x, tick w)" "(case x of Some n \<Rightarrow> n | None \<Rightarrow> 0) = a"
    by (rule read_throttle [OF ok assms(2)])
  obtain w' where w': "keyring_set E KEYRING_LOCKOUT_GEN_ACCOUNT (be_bytes 8 g) (tick w) = (Inr (), w')"
    "cw_keyring w' = (cw_keyring w)(KEYRING_LOCKOUT_GEN_ACCOUNT \<mapsto> be_bytes 8 g)" "cw_trace w' = cw_trace w" "cw_tick w < cw_tick w'"
    using ok by (simp add: keyring_set_def Let_def tick_def)
  have "bump_lockout_hw E g w = (Inr (), w')"
    using x w'(1) assms(3) by (simp add: bump_lockout_hw_def bump_anchor_def rpc_then_def)
  moreover have "throttle_at g w'" using w'(2) assms(4) by (simp add: throttle_at_def anchored_def)
  ultimately show thesis using that w' by blast
qed

lemma seal_lockout_error:
  assumes "steady Q E" and "seal_lockout Q E k v l w = (Inl e, w')"
  shows "\<exists>m. e = Io m"
proof (cases "q_lockout_to_vec Q l")
  case (Inr b)
  then show ?thesis
    using assms(2) steadyD(4) [OF assms(1), of k "ce_random E (cw_tick w) NONCE_LEN" "aad v AAD_LOCKOUT" b]
    by (auto simp: seal_lockout_def rpc_then_def seal_def fill_bytes_def)
qed (use assms(2) in \<open>auto simp: seal_lockout_def rpc_then_def\<close>)

lemma save_error: "save_envelope Q E env w = (Inl e, w') \<Longrightarrow> \<exists>m. e = Io m"
  by (auto simp: save_envelope_def Let_def split: option.splits save_fault.splits sum.splits)

text \<open>The anchor goes up by one, and the only new block is the one written, stamped with it.\<close>

lemma write_lockout_at:
  assumes law: "custody_law Q E" and st: "steady Q E" and inv: "vault_inv Q E mek dek \<sigma> w"
    and kn: "known Q mek dek (cw_trace w) env" and a: "throttle_at a w" "a + 1 < 2 ^ 64"
    and c: "write_lockout Q E mek env l w = (r, w')"
  shows "throttle_at (a + 1) w'" and "cw_tick w < cw_tick w'"
    and "lockouts Q mek (cw_trace w') \<subseteq> insert (l\<lparr>lk_generation := a + 1, lk_anchor_initialized := Some True\<rparr>) (lockouts Q mek (cw_trace w))"
    and "r = Inl e \<Longrightarrow> \<exists>m. e = Io m"
proof -
  let ?l = "l\<lparr>lk_generation := a + 1, lk_anchor_initialized := Some True\<rparr>"
  obtain x where x: "read_lockout_hw E w = (Inr x, tick w)" "(case x of Some n \<Rightarrow> n | None \<Rightarrow> 0) = a"
    using read_throttle [OF steadyD(1) [OF st] a(1)] unfolding read_lockout_hw_def by metis
  have n: "wrap_inc a = a + 1" using a(2) by (simp add: wrap_inc_def)
  have a1: "throttle_at a (tick w)" using throttle_at_still [OF still_tick a(1)] .
  obtain w2 where w2: "bump_lockout_hw E (a + 1) (tick w) = (Inr (), w2)" "throttle_at (a + 1) w2"
    "cw_trace w2 = cw_trace w" "cw_tick w < cw_tick w2"
    by (rule bump_throttle [OF st a1 _ a(2)]) (auto simp: tick_def)
  have inv2: "vault_inv Q E mek dek \<sigma> w2"
    using other_account_inv [OF still_inv [OF inv still_tick] account_names(1,2) bump_anchor_any [OF w2(1) [unfolded bump_lockout_hw_def]]] .
  have c2: "rpc_then (seal_lockout Q E mek (ev_version env) ?l w2) (\<lambda>s w. save_envelope Q E (env\<lparr>ev_lockout := s\<rparr>) w) = (r, w')"
    using c x n w2(1) by (simp add: write_lockout_def rpc_then_def [of "(Inr _, _)"] Let_def)
  have "throttle_at (a + 1) w' \<and> cw_tick w < cw_tick w' \<and> lockouts Q mek (cw_trace w') \<subseteq> insert ?l (lockouts Q mek (cw_trace w)) \<and>
      (\<forall>e. r = Inl e \<longrightarrow> (\<exists>m. e = Io m))"
    using c2
  proof (cases rule: rpc_then_cases)
    case (failed e)
    have s: "still w2 w'" using seal_lockout_at(1) [OF law failed(1)] .
    then show ?thesis
      using throttle_at_still [OF s w2(2)] w2 failed seal_lockout_error [OF st failed(1)] by (auto simp: still_def)
  next
    case (ok s w3)
    have s3: "still w2 w3" using seal_lockout_at(1) [OF law ok(1)] .
    have kn3: "known Q mek dek (cw_trace w3) env" using kn w2(3) s3 by (simp add: still_def)
    have o: "open_lockout Q mek (env\<lparr>ev_lockout := s\<rparr>) = Inr ?l" by (rule seal_lockout_at(2) [OF law ok(1)]) simp_all
    have L: "lockouts Q mek (cw_trace w') \<subseteq> insert ?l (lockouts Q mek (cw_trace w3))"
      using save_lockout_inv(2) [OF law still_inv [OF inv2 s3] kn3 refl o _ ok(2)] by (cases "cw_trace w' = cw_trace w3") auto
    note sv = save_envelope_eq [OF ok(2)]
    have "throttle_at (a + 1) w'"
      using throttle_at_still [OF s3 w2(2)] sv(1) by (simp add: throttle_at_def anchored_def)
    then show ?thesis using L s3 w2 sv(3) save_error [of Q E _ w3 _ w'] ok(2) by (auto simp: still_def)
  qed
  then show "throttle_at (a + 1) w'" "cw_tick w < cw_tick w'"
    "lockouts Q mek (cw_trace w') \<subseteq> insert ?l (lockouts Q mek (cw_trace w))" "r = Inl e \<Longrightarrow> \<exists>m. e = Io m" by auto
qed

lemma write_lockout_tick:
  assumes law: "custody_law Q E"
  shows "cw_tick w \<le> cw_tick (snd (write_lockout Q E mek env l w))"
  unfolding write_lockout_def Let_def
proof (intro tick_thenI)
  show "cw_tick w \<le> cw_tick (snd (read_lockout_hw E w))"
    using read_anchor_still [OF prod.collapse [symmetric]] unfolding read_lockout_hw_def still_def by blast
next
  fix x and s :: custody_world
  assume "cw_tick w \<le> cw_tick s"
  then show "cw_tick w \<le> cw_tick (snd (bump_lockout_hw E (wrap_inc (case x of Some n \<Rightarrow> n | None \<Rightarrow> 0)) s))"
    using bump_tick [of s E] by (simp add: bump_lockout_hw_def le_trans)
next
  fix s :: custody_world and l
  assume "cw_tick w \<le> cw_tick s"
  then show "cw_tick w \<le> cw_tick (snd (seal_lockout Q E mek (ev_version env) l s))"
    using seal_lockout_at(1) [OF law prod.collapse [symmetric]] le_trans unfolding still_def by blast
next
  fix s :: custody_world and env
  assume "cw_tick w \<le> cw_tick s"
  then show "cw_tick w \<le> cw_tick (snd (save_envelope Q E env s))"
    using save_envelope_eq(3) [OF prod.collapse [symmetric]] le_trans by blast
qed

lemma block_written:
  assumes law: "custody_law Q E" and st: "steady Q E" and inv: "vault_inv Q E mek dek \<sigma> w"
    and kn: "known Q mek dek (cw_trace w) env" and b: "block_is Q mek f u w" and fr: "cw_tick w' < u64_max"
    and c: "write_lockout Q E mek env l w = (r, w')"
  shows "block_is Q mek (lk_failures l) (lk_locked_until_ms l) w'" and "r = Inl e \<Longrightarrow> \<exists>m. e = Io m" and "cw_tick w < cw_tick w'"
proof -
  obtain a where a: "throttle_at a w" "a \<le> cw_tick w" "\<forall>l\<in>lockouts Q mek (cw_trace w). lk_generation l \<le> a"
    using b unfolding block_is_def by blast
  have "cw_tick w \<le> cw_tick w'" using write_lockout_tick [OF law, of w mek env l] c by simp
  then have a1: "a + 1 < 2 ^ 64" using a(2) fr by (simp add: u64_max_def)
  note wl = write_lockout_at [OF law st inv kn a(1) a1 c]
  have "lk_generation x \<le> a + 1 \<and> (lk_generation x = a + 1 \<longrightarrow> lk_failures x = lk_failures l \<and> lk_locked_until_ms x = lk_locked_until_ms l)"
    if "x \<in> lockouts Q mek (cw_trace w')" for x
    using that wl(3) a(3) by fastforce
  then show "block_is Q mek (lk_failures l) (lk_locked_until_ms l) w'"
    unfolding block_is_def using wl(1,2) a(2) by (intro exI [of _ "a + 1"]) auto
  show "r = Inl e \<Longrightarrow> \<exists>m. e = Io m" by (rule wl(4))
  show "cw_tick w < cw_tick w'" by (rule wl(2))
qed


section \<open>A guess\<close>

lemma count_failure_at:
  assumes "count_failure E l w = (l', w')" and "lk_failures l < 5" and "lk_locked_until_ms l = None"
    and "ce_now_ms E (cw_tick w) + LOCKOUT_COOLOFF_MS < 2 ^ 64"
  shows "lk_failures l' = lk_failures l + 1"
    and "lk_locked_until_ms l' = (if lk_failures l + 1 < 5 then None else Some (ce_now_ms E (cw_tick w) + LOCKOUT_COOLOFF_MS))"
  using assms by (auto simp: count_failure_def now_unix_ms_def Let_def MAX_ATTEMPTS_def split: if_splits)

text \<open>A guess that is tried: either it is answered as wrong and counted, or the block is what it was or
  cleared.\<close>

lemma trial_block:
  assumes law: "custody_law Q E" and st: "steady Q E" and inv: "vault_inv Q E mek dek \<sigma> w"
    and kn: "known Q mek dek (cw_trace w) env" and b: "block_is Q mek f u w" and fr: "cw_tick w' < u64_max"
    and l: "lk_failures l < 5" "lk_locked_until_ms l = None"
    and t: "unlock_trial Q E p mek env l el w = (r, w')"
  obtains (wrong) k where "r = Inl Denied \<or> r = Inl Corrupt" "cw_tick w \<le> k" "k \<le> cw_tick w'"
      "block_is Q mek (lk_failures l + 1) (if lk_failures l + 1 < 5 then None else Some (ce_now_ms E k + LOCKOUT_COOLOFF_MS)) w'"
  | (kept) "r \<noteq> Inl Denied" "r \<noteq> Inl Corrupt" "block_is Q mek f u w'" "cw_tick w \<le> cw_tick w'"
  | (cleared) "r \<noteq> Inl Denied" "r \<noteq> Inl Corrupt" "block_is Q mek 0 None w'" "cw_tick w \<le> cw_tick w'"
proof -
  obtain q w1 where q: "try_derive_session Q E p mek env w = (q, w1)" by force
  note d = try_derive_still [OF inv kn q]
  note inv1 = still_inv [OF inv d(1)] and kn1 = kn [folded still_known [OF d(1)]] and b1 = block_still [OF d(1) b]
  have t1: "cw_tick w \<le> cw_tick w1" using d(1) by (simp add: still_def)
  show thesis
  proof (cases q)
    case (Inr s)
    show thesis
    proof (cases "lk_failures l \<noteq> 0 \<or> lk_locked_until_ms l \<noteq> None \<or> el")
      case True
      obtain r2 w2 where wl: "write_lockout Q E mek env lockout_default w1 = (r2, w2)" by force
      have w': "cw_tick w' = cw_tick w2" "cw_trace w' = cw_trace w2" "cw_keyring w' = cw_keyring w2" "r = r2"
        using t q Inr True wl by (cases r2; auto simp: unlock_trial_def rpc_then_def)+
      note bw = block_written [OF law st inv1 kn1 b1 _ wl]
      have fr2: "cw_tick w2 < u64_max" using fr w' by simp
      have "block_is Q mek 0 None w2" using bw(1) [OF fr2] by (simp add: lockout_default_def)
      then have "block_is Q mek 0 None w'" using w' unfolding block_is_def throttle_at_def anchored_def by simp
      moreover have "r \<noteq> Inl Denied" "r \<noteq> Inl Corrupt" using bw(2) [OF fr2] w' by auto
      moreover have "cw_tick w \<le> cw_tick w'" using bw(3) [OF fr2] t1 w' by simp
      ultimately show thesis by (intro cleared)
    next
      case False
      then have "r = Inr ()" "w' = w1\<lparr>cw_session := Some s\<rparr>" using t q Inr by (auto simp: unlock_trial_def rpc_then_def)
      then show thesis using kept b1 t1 unfolding block_is_def throttle_at_def anchored_def by simp
    qed
  next
    case (Inl e)
    show thesis
    proof (cases "e = Denied \<or> e = Corrupt")
      case True
      obtain l' w2 where c: "count_failure E l w1 = (l', w2)" by force
      note s2 = count_failure_still [OF c] and cf = count_failure_at [OF c l steadyD(3) [OF st]]
      obtain r3 where wl: "write_lockout Q E mek env l' w2 = (r3, w')" and r: "r = Inl e"
        using t q Inl True c by (cases "write_lockout Q E mek env l' w2") (auto simp: unlock_trial_def)
      note bw = block_written [OF law st still_inv [OF inv1 s2] kn1 [folded still_known [OF s2]] block_still [OF s2 b1] fr wl]
      show thesis
        by (rule wrong [of "cw_tick w1"]) (use r True bw cf s2 t1 in \<open>auto simp: still_def split: if_splits\<close>)
    next
      case False
      then have "r = Inl e" "w' = w1" using t q Inl by (auto simp: unlock_trial_def)
      then show thesis using kept b1 t1 False by auto
    qed
  qed
qed


lemma throttle_still:
  assumes "steady Q E" and s: "still w w'" and T: "throttle_inv Q E mek log w"
  shows "throttle_inv Q E mek log w'"
proof -
  obtain f u where b: "block_is Q mek f u w" "counts (ce_now_ms E (cw_tick w)) f u log" "spaced log"
    using T unfolding throttle_inv_def by blast
  have "ce_now_ms E (cw_tick w) \<le> ce_now_ms E (cw_tick w')" using steadyD(2) [OF assms(1)] s by (simp add: still_def)
  then show ?thesis using block_still [OF s b(1)] counts_later [OF b(2)] b(3) unfolding throttle_inv_def by blast
qed

text \<open>The block a guess is judged by is the one at the anchor.\<close>

lemma block_used:
  assumes "block_is Q mek f u w" and "l \<in> lockouts Q mek (cw_trace w)"
    and "\<forall>b. cw_keyring w KEYRING_LOCKOUT_GEN_ACCOUNT = Some b \<longrightarrow> be_val b \<le> lk_generation l"
  shows "lk_failures l = f" and "lk_locked_until_ms l = u"
proof -
  obtain a where a: "throttle_at a w" "lk_generation l \<le> a" "lk_generation l = a \<Longrightarrow> lk_failures l = f \<and> lk_locked_until_ms l = u"
    using assms(1,2) unfolding block_is_def by blast
  have "a \<le> lk_generation l" using a(1) assms(3) by (auto simp: throttle_at_def anchored_def be_val_be_bytes)
  then show "lk_failures l = f" "lk_locked_until_ms l = u" using a by auto
qed

lemma unlock_throttle:
  assumes law: "custody_law Q E" and st: "steady Q E" and inv: "vault_inv Q E mek dek \<sigma> w"
    and T: "throttle_inv Q E mek log w" and fr: "cw_tick w' < u64_max" and v: "vault_unlock Q E p w = (r, w')"
  shows "throttle_inv Q E mek (guesses_after E w r w' log) w'"
proof (rule unlock_looks [OF inv v])
  note ts = throttle_still [OF st _ T]
  show "throttle_inv Q E mek (guesses_after E w r w' log) w'" if "still w w'" "is_initialized w \<Longrightarrow> cw_kdf w' = cw_kdf w"
    using ts [OF that(1)] that(2) by (auto simp: guesses_after_def)
  fix env l s
  assume s: "still w s" "cw_kdf s = cw_kdf w" and kn: "known Q mek dek (cw_trace s) env" and lo: "open_lockout Q mek env = Inr l"
    and th: "unlock_throttled Q E p mek env l s = (r, w')" and ini: "is_initialized w"
  show "throttle_inv Q E mek (guesses_after E w r w' log) w'"
  proof (rule throttle_looks [OF th])
    show "throttle_inv Q E mek (guesses_after E w r w' log) w'" if "still s w'" "cw_kdf w' = cw_kdf s"
      using ts [OF still_trans [OF s(1) that(1)]] that(2) s(2) by (simp add: guesses_after_def)
    fix x l' el
    assume x: "still s x" "cw_kdf x = cw_kdf s"
      and a: "\<forall>b. cw_keyring s KEYRING_LOCKOUT_GEN_ACCOUNT = Some b \<longrightarrow> be_val b \<le> lk_generation l"
      and l': "lk_locked_until_ms l = None \<and> l' = l \<and> \<not> el \<or>
        (\<exists>d. lk_locked_until_ms l = Some d \<and> d \<le> ce_now_ms E (cw_tick x - 1) \<and> cw_tick s < cw_tick x \<and>
           l' = l\<lparr>lk_failures := 0, lk_locked_until_ms := None\<rparr> \<and> el)"
      and tr: "unlock_trial Q E p mek env l' el x = (r, w')"
    obtain f u where b: "block_is Q mek f u w" "counts (ce_now_ms E (cw_tick w)) f u log" "spaced log"
      using T unfolding throttle_inv_def by blast
    have sx: "still w x" using still_trans [OF s(1) x(1)] .
    have "l \<in> lockouts Q mek (cw_trace s)" using kn lo unfolding known_def by blast
    note fu = block_used [OF block_still [OF s(1) b(1)] this a]
    have "u = None \<Longrightarrow> f < 5" using b(2) by (simp add: counts_def)
    then have l5: "lk_failures l' < 5" "lk_locked_until_ms l' = None" using l' fu by auto
    have kdf: "cw_kdf w' = Suc (cw_kdf w)" using kdf_trial [of Q E p mek env l' el x] tr x(2) s(2) by simp
    note mono = steadyD(2) [OF st]
    have wx: "cw_tick w \<le> cw_tick x" using sx by (simp add: still_def)
    show "throttle_inv Q E mek (guesses_after E w r w' log) w'"
    proof (cases rule: trial_block [OF law st still_inv [OF inv sx] kn [folded still_known [OF x(1)]] block_still [OF sx b(1)] fr l5 tr, case_names wrong kept cleared])
      case (wrong k)
      let ?t0 = "ce_now_ms E (cw_tick w)" let ?t1 = "ce_now_ms E (cw_tick w')"
      have k: "?t0 \<le> ce_now_ms E k" "ce_now_ms E k \<le> ?t1" "?t0 \<le> ?t1"
        using mono [of "cw_tick w" k] mono [of k "cw_tick w'"] wrong(2,3) wx by auto
      have d: "d \<le> ce_now_ms E k" if "u = Some d" for d
      proof -
        have "d \<le> ce_now_ms E (cw_tick x - 1)" using that l' fu by auto
        moreover have "ce_now_ms E (cw_tick x - 1) \<le> ce_now_ms E k" using wrong(2) by (intro mono) simp
        ultimately show ?thesis by simp
      qed
      have g: "u = None \<and> lk_failures l' = f \<or> (\<exists>d. u = Some d \<and> d \<le> ce_now_ms E k \<and> lk_failures l' = 0)"
        using l' fu d by auto
      have log: "guesses_after E w r w' log = (?t0, ?t1) # log" using kdf ini wrong(1) by (auto simp: guesses_after_def)
      have "spaced ((?t0, ?t1) # log)" using spaced_Cons [OF b(3,2) k(3)] d k(2) le_trans by blast
      then show ?thesis
        using counts_Cons [OF b(2) k(1,2) g] wrong(4) unfolding log throttle_inv_def by blast
    next
      case kept
      have "guesses_after E w r w' log = []" using kdf ini kept(1,2) by (auto simp: guesses_after_def)
      then show ?thesis using kept(3) counts_empty [of f u] b(2) unfolding throttle_inv_def by (auto simp: spaced_def counts_def)
    next
      case cleared
      have "guesses_after E w r w' log = []" using kdf ini cleared(1,2) by (auto simp: guesses_after_def)
      then show ?thesis using cleared(3) counts_empty [of 0 None] unfolding throttle_inv_def by (auto simp: spaced_def)
    qed
  qed
qed


section \<open>The other operations\<close>

text \<open>Everything but an unlock leaves the blocks and their anchor alone.\<close>

definition leaves_throttle :: "custody_lib \<Rightarrow> bytes \<Rightarrow> custody_world \<Rightarrow> custody_world \<Rightarrow> bool" where
  "leaves_throttle Q mek w w' \<longleftrightarrow>
     cw_keyring w' KEYRING_LOCKOUT_GEN_ACCOUNT = cw_keyring w KEYRING_LOCKOUT_GEN_ACCOUNT \<and>
     lockouts Q mek (cw_trace w') = lockouts Q mek (cw_trace w) \<and> cw_tick w \<le> cw_tick w'"

lemma still_leaves: "still w w' \<Longrightarrow> leaves_throttle Q mek w w'"
  by (simp add: still_def leaves_throttle_def)

lemma leaves_trans: "leaves_throttle Q mek w w1 \<Longrightarrow> leaves_throttle Q mek w1 w2 \<Longrightarrow> leaves_throttle Q mek w w2"
  by (simp add: leaves_throttle_def)

lemma leaves_inv:
  assumes "steady Q E" and lv: "leaves_throttle Q mek w w'" and T: "throttle_inv Q E mek log w"
  shows "throttle_inv Q E mek log w'"
proof -
  obtain f u where b: "block_is Q mek f u w" "counts (ce_now_ms E (cw_tick w)) f u log" "spaced log"
    using T unfolding throttle_inv_def by blast
  have "ce_now_ms E (cw_tick w) \<le> ce_now_ms E (cw_tick w')" using steadyD(2) [OF assms(1)] lv by (simp add: leaves_throttle_def)
  moreover have "block_is Q mek f u w'"
    using b(1) lv le_trans unfolding block_is_def leaves_throttle_def throttle_at_def anchored_def by auto
  ultimately show ?thesis using counts_later [OF b(2)] b(3) unfolding throttle_inv_def by blast
qed

lemma commit_leaves:
  assumes law: "custody_law Q E" and kn: "known Q mek dek (cw_trace w) env" and wf: "bt_wf S'"
    and c: "commit_slots Q E dek env S' g w = (r, w')"
  shows "leaves_throttle Q mek w w'"
proof (cases "checked_add g 1")
  case None
  then show ?thesis using c by (auto simp: commit_slots_def rpc_then_def leaves_throttle_def)
next
  case (Some n)
  have c': "rpc_then (seal_header Q E dek (ev_version env) n S' w) (\<lambda>s w.
      rpc_then (bump_high_water E n w) (\<lambda>_ w. save_envelope Q E (env\<lparr>ev_slots := S', ev_header := s\<rparr>) w)) = (r, w')"
    using c Some by (simp add: commit_slots_def rpc_then_def [of "(Inr _, _)"])
  show ?thesis using c'
  proof (cases rule: rpc_then_cases)
    case (failed e)
    then show ?thesis using still_leaves [OF seal_header_at(1) [OF law wf failed(1)]] by simp
  next
    case (ok s w1)
    have w1: "still w w1" using seal_header_at(1) [OF law wf ok(1)] .
    show ?thesis using ok(2)
    proof (cases rule: rpc_then_cases)
      case (failed e)
      note ba = bump_anchor_any [OF failed(1) [unfolded bump_high_water_def]]
      then show ?thesis using w1 account_names by (auto simp: leaves_throttle_def still_def)
    next
      case ok1: (ok x w2)
      note ba = bump_anchor_any [OF ok1(1) [unfolded bump_high_water_def]] and sv = save_envelope_eq [OF ok1(2)]
      let ?e = "env\<lparr>ev_slots := S', ev_header := s\<rparr>"
      have k: "cw_keyring w' KEYRING_LOCKOUT_GEN_ACCOUNT = cw_keyring w KEYRING_LOCKOUT_GEN_ACCOUNT"
        "cw_tick w \<le> cw_tick w'" "cw_trace w2 = cw_trace w"
        using ba sv(1,3) w1 account_names by (auto simp: still_def)
      have "lockouts Q mek (cw_trace w') = lockouts Q mek (cw_trace w)"
      proof (cases "cw_trace w' = cw_trace w2")
        case False
        have v: "ev_version ?e = ENVELOPE_VERSION" and wf': "bt_wf (ev_slots ?e)" using kn wf by (simp_all add: known_def)
        obtain b where b: "cw_trace w' = b # cw_trace w2" "parsed Q b = Some ?e"
          using save_known [OF law ok1(2) wf' v False] by blast
        have "open_lockout Q mek ?e = open_lockout Q mek env" by (simp add: open_lockout_def)
        then show ?thesis using kn b k(3) by (auto simp: contents_Cons known_def)
      qed (simp add: k)
      then show ?thesis using k by (simp add: leaves_throttle_def)
    qed
  qed
qed

lemma mutations_leave:
  assumes law: "custody_law Q E" and inv: "vault_inv Q E mek dek \<sigma> w"
  shows "vault_put Q E slot v w = (r, w') \<Longrightarrow> leaves_throttle Q mek w w'"
    and "clear_slot Q E slot w = (r, w') \<Longrightarrow> leaves_throttle Q mek w w'"
proof -
  assume p: "vault_put Q E slot v w = (r, w')"
  show "leaves_throttle Q mek w w'"
  proof (rule put_cases [OF law inv p])
    show "leaves_throttle Q mek w w'" if "still w w'" using still_leaves [OF that] .
    fix env u sl x y g
    assume u: "still w u" and ku: "known Q mek dek (cw_trace u) env"
      and sl: "seal Q E dek v (aad (ev_version env) slot) u = (Inr sl, x)" and y: "still x y"
      and c: "commit_slots Q E dek env (bt_insert slot sl (ev_slots env)) g y = (r, w')"
    have s: "still u y" using seal_still(1) [OF custody_lawD(1) [OF law] sl] y still_trans by blast
    have "bt_wf (bt_insert slot sl (ev_slots env))" using ku by (simp add: known_def bt_wf_insert)
    from commit_leaves [OF law ku [folded still_known [OF s]] this c]
    show "leaves_throttle Q mek w w'" using still_leaves [OF still_trans [OF u s]] leaves_trans by blast
  qed
next
  assume p: "clear_slot Q E slot w = (r, w')"
  show "leaves_throttle Q mek w w'"
  proof (rule clear_cases [OF inv p])
    show "leaves_throttle Q mek w w'" if "still w w'" using still_leaves [OF that] .
    fix env y g
    assume y: "still w y" and kn: "known Q mek dek (cw_trace y) env"
      and c: "commit_slots Q E dek env (bt_remove slot (ev_slots env)) g y = (r, w')"
    have "bt_wf (bt_remove slot (ev_slots env))" using kn by (simp add: known_def bt_wf_remove)
    from commit_leaves [OF law kn this c]
    show "leaves_throttle Q mek w w'" using still_leaves [OF y] leaves_trans by blast
  qed
qed


section \<open>The result\<close>

lemma step_throttle:
  assumes law: "custody_law Q E" and sd: "steady Q E" and st: "vault_step Q E mek dek y y'"
    and fr: "nonces_fresh E (cw_tick (vs_world y'))"
    and inv: "vault_inv Q E mek dek (vs_store y) (vs_world y)" and rd: "reads_inv Q mek dek y"
    and T: "throttle_inv Q E mek (vs_wrong y) (vs_world y)"
  shows "throttle_inv Q E mek (vs_wrong y') (vs_world y')"
proof -
  note lv = leaves_inv [OF sd _ T] and sl = still_leaves [of "vs_world y" _ Q mek]
  show ?thesis
    using st
  proof cases
    case (unlock p r w')
    then show ?thesis using unlock_throttle [OF law sd inv T _ unlock(2)] fr by (simp add: nonces_fresh_def)
  next
    case (put slot v r w')
    then show ?thesis using lv [OF mutations_leave(1) [OF law inv put(2)]] by simp
  next
    case (clear slot r w')
    then show ?thesis using lv [OF mutations_leave(2) [OF law inv clear(2)]] by simp
  next
    case (read_begin k w1 env w2)
    have "still (vs_world y) w2"
      using with_session_key_still [OF read_begin(2)] load_envelope_still [OF read_begin(3)] still_trans by blast
    then show ?thesis using read_begin lv [OF sl] by simp
  next
    case (read_end k env slot r w')
    have k: "k = dek" "known Q mek dek (cw_trace (vs_world y)) env" using rd read_end(2) by (auto simp: reads_inv_def)
    have "still (vs_world y) w'" using read_loaded_fresh(1) [OF inv k(2)] read_end(3) k(1) by simp
    then show ?thesis using read_end lv [OF sl] by simp
  next
    case (look r w')
    have "still (vs_world y) w'" using with_session_key_still [OF look(2)] by simp
    then show ?thesis using look lv [OF sl] by simp
  next
    case (load r w')
    have "still (vs_world y) w'" using load_envelope_still [OF load(2)] by simp
    then show ?thesis using load lv [OF sl] by simp
  next
    case (init_again p r w')
    then show ?thesis using lv [OF sl [OF init_again_still(1) [OF inv init_again(2)]]] by simp
  next
    case (auto_pass r w')
    have "leaves_throttle Q mek (vs_world y) w'" using auto_pass_inv(2-4) [OF inv auto_pass(2)] by (simp add: leaves_throttle_def)
    then show ?thesis using auto_pass lv by simp
  next
    case lock
    have "still (vs_world y) (vault_lock (vs_world y))" by (simp add: still_def vault_lock_def)
    then show ?thesis using lock lv [OF sl] by simp
  next
    case (autolock n)
    have "still (vs_world y) (set_autolock_mins n (vs_world y))" by (simp add: still_def set_autolock_mins_def)
    then show ?thesis using autolock lv [OF sl] by simp
  next
    case (restart n)
    have "leaves_throttle Q mek (vs_world y) ((vs_world y)\<lparr>cw_session := None, cw_kdf := 0, cw_autolock_secs := n\<rparr>)"
      by (simp add: leaves_throttle_def)
    then show ?thesis using restart lv by simp
  next
    case (tamper f t)
    have "leaves_throttle Q mek (vs_world y) ((vs_world y)\<lparr>cw_file := f, cw_tmp := t\<rparr>)" by (simp add: leaves_throttle_def)
    then show ?thesis using tamper lv by simp
  qed
qed

lemma run_throttle:
  assumes law: "custody_law Q E" and sd: "steady Q E" and "vault_run Q E mek dek y"
  shows "throttle_inv Q E mek (vs_wrong y) (vs_world y)"
  using assms(3)
proof induction
  case (start w0 p w)
  note i = init_inv(2,3) [OF law start(1,2,3,4)]
  have "throttle_at 0 w" using i(2) by (simp add: throttle_at_def)
  then have "block_is Q mek 0 None w" using i(1) by (auto simp: block_is_def lockout_default_def)
  moreover have "counts n 0 None []" for n by (rule counts_empty) simp_all
  ultimately show ?case by (auto simp: throttle_inv_def spaced_def)
next
  case (step y y')
  then show ?case using step_throttle [OF law sd step(2,3)] vault_run_inv [OF law step(1)] by blast
qed

text \<open>
  C6. Guessing is throttled. In a history with an adversary who rewrites the files at will, with a key ring that answers and a clock
  that does not go back, take the guesses since the passphrase was last right: from the start of any one of them to the end of the
  fifth one after it at least the cool-off of five minutes has passed. Restoring an old throttle
  block, restarting the application and storing values in between do not help.
\<close>

theorem six_guesses_take_the_cooloff:
  assumes "custody_law Q E" and "steady Q E" and "vault_run Q E mek dek y" and "i + MAX_ATTEMPTS < length (vs_wrong y)"
  shows "fst (vs_wrong y ! (i + MAX_ATTEMPTS)) + LOCKOUT_COOLOFF_MS \<le> snd (vs_wrong y ! i)"
  using run_throttle [OF assms(1-3)] assms(4) by (simp add: throttle_inv_def spaced_def MAX_ATTEMPTS_def)


end
