(* ===== verification/CustodyLive.thy ===== *)
theory CustodyLive
  imports CustodyThrottle
begin

text \<open>
  The vault with a key ring, a disk and crates that work: what each operation answers, not only what it may not
  answer. \<open>intact\<close> describes a vault by the store it holds and its throttle; the operations are then those of a
  plain store.
\<close>

section \<open>An environment without faults\<close>

definition fault_free :: "custody_lib \<Rightarrow> custody_env \<Rightarrow> bool" where
  "fault_free Q E \<longleftrightarrow>
     (\<forall>t. ce_keyring_ok E t \<and> ce_read_ok E t \<and> ce_save E t = None) \<and>
     q_params_error Q = None \<and> (\<forall>k n a m. q_encrypt Q k n a m \<noteq> None) \<and>
     (\<forall>h. \<exists>b. q_header_to_vec Q h = Inr b) \<and> (\<forall>l. \<exists>b. q_lockout_to_vec Q l = Inr b) \<and>
     (\<forall>env. \<exists>b. q_envelope_to_vec Q env = Inr b)"

text \<open>The passphrase \<open>p\<close> gives the key \<open>k\<close> under the salt.\<close>

definition derives :: "custody_lib \<Rightarrow> bytes \<Rightarrow> bytes \<Rightarrow> bytes \<Rightarrow> bool" where
  "derives Q p salt k \<longleftrightarrow> q_hash_password Q p salt = Some k \<and> length k = KEY_LEN"

definition intact_env ::
  "custody_lib \<Rightarrow> bytes \<Rightarrow> bytes \<Rightarrow> bytes \<Rightarrow> nat \<Rightarrow> LockoutState \<Rightarrow> (string \<Rightarrow> bytes option) \<Rightarrow> CustodyEnvelope \<Rightarrow> bool" where
  "intact_env Q mek dek kek g l \<sigma> env \<longleftrightarrow>
     ev_version env = ENVELOPE_VERSION \<and> bt_wf (ev_slots env) \<and>
     opened_header Q dek env = Some \<lparr>hd_generation = g, hd_slots = fingerprint (ev_slots env)\<rparr> \<and>
     open_lockout Q mek env = Inr l \<and> lk_anchor_initialized l = Some True \<and>
     (\<forall>k d. unseal Q k (ev_wrapped_dk env) (aad ENVELOPE_VERSION AAD_WRAPPED_DK) = Inr d \<longleftrightarrow> k = combine_keys mek kek \<and> d = dek) \<and>
     (\<exists>c. bt_get CHECK_SLOT (ev_slots env) = Some c \<and> unseal Q dek c (aad ENVELOPE_VERSION CHECK_SLOT) = Inr CHECK_PLAINTEXT) \<and>
     (\<forall>name. name \<noteq> CHECK_SLOT \<longrightarrow>
        (case bt_get name (ev_slots env) of
           None \<Rightarrow> \<sigma> name = None
         | Some s \<Rightarrow> \<exists>m. unseal Q dek s (aad ENVELOPE_VERSION name) = Inr m \<and> \<sigma> name = Some m))"

text \<open>The vault holds \<open>\<sigma>\<close> at generation \<open>g\<close> with the throttle block \<open>l\<close>, and \<open>p\<close> opens it.\<close>

definition intact ::
  "custody_lib \<Rightarrow> bytes \<Rightarrow> bytes \<Rightarrow> bytes \<Rightarrow> nat \<Rightarrow> LockoutState \<Rightarrow> (string \<Rightarrow> bytes option) \<Rightarrow> custody_world \<Rightarrow> bool" where
  "intact Q mek dek p g l \<sigma> w \<longleftrightarrow>
     cw_keyring w KEYRING_MASTER_ACCOUNT = Some mek \<and> length mek = KEY_LEN \<and> length dek = KEY_LEN \<and>
     anchored KEYRING_GENERATION_ACCOUNT g w \<and> throttle_at (lk_generation l) w \<and>
     (\<exists>b env kek. cw_file w = Some b \<and> q_envelope_from_slice Q b = Some env \<and> derives Q p (ev_salt env) kek \<and>
        intact_env Q mek dek kek g l \<sigma> env)"

lemma fault_freeD:
  assumes "fault_free Q E"
  shows "ce_keyring_ok E t" and "ce_read_ok E t" and "ce_save E t = None" and "q_params_error Q = None"
    and "\<exists>ct. q_encrypt Q k n a m = Some ct" and "\<exists>b. q_header_to_vec Q h = Inr b" and "\<exists>b. q_lockout_to_vec Q l = Inr b"
    and "\<exists>b. q_envelope_to_vec Q env = Inr b"
  using assms unfolding fault_free_def by (auto simp: not_None_eq)

lemma intact_cong:
  assumes "intact Q mek dek p g l \<sigma> w" and "cw_keyring w' = cw_keyring w" and "cw_file w' = cw_file w"
  shows "intact Q mek dek p g l \<sigma> w'"
  using assms by (simp add: intact_def anchored_def throttle_at_def)

lemma intact_still: "intact Q mek dek p g l \<sigma> w \<Longrightarrow> still w w' \<Longrightarrow> intact Q mek dek p g l \<sigma> w'"
  by (rule intact_cong) (simp_all add: still_def)

section \<open>The calls that cannot fail\<close>

lemma then_Inr [simp]: "rpc_then (Inr x, s) f = f x s"
  by (simp add: rpc_then_def)

lemma then_Inl [simp]: "rpc_then (Inl e, s) f = (Inl e, s)"
  by (simp add: rpc_then_def)

lemma read_anchor_works:
  assumes "fault_free Q E" and "anchored a n w"
  shows "read_anchor E a w = (Inr (Some n), tick w)"
  using assms fault_freeD(1) [OF assms(1)] by (simp add: read_anchor_def rpc_map_def keyring_get_def anchored_def be_val_be_bytes)

lemma anchored_tick [simp]: "anchored a n (tick w) = anchored a n w"
  by (simp add: anchored_def tick_def)

lemma enforce_high_water_works:
  assumes "fault_free Q E" and "anchored KEYRING_GENERATION_ACCOUNT g w"
  shows "enforce_high_water E g w = (Inr (), tick (tick w))"
  using read_anchor_works [OF assms] read_anchor_works [OF assms(1), of KEYRING_GENERATION_ACCOUNT g "tick w"] assms(2)
  by (simp add: enforce_high_water_def read_high_water_def bump_high_water_def bump_anchor_def)

lemma bump_high_water_works:
  assumes "fault_free Q E" and "anchored KEYRING_GENERATION_ACCOUNT g w" and "g < n"
  shows "bump_high_water E n w =
    (Inr (), tick (tick (w\<lparr>cw_keyring := (cw_keyring w)(KEYRING_GENERATION_ACCOUNT \<mapsto> be_bytes 8 n)\<rparr>)))"
  using read_anchor_works [OF assms(1,2)] assms(3) fault_freeD(1) [OF assms(1)]
  by (simp add: bump_high_water_def bump_anchor_def keyring_set_def Let_def tick_def)

lemma enforce_anchor_works:
  assumes "fault_free Q E" and "anchored KEYRING_GENERATION_ACCOUNT g w" and "lk_anchor_initialized l = Some True"
  shows "enforce_anchor_initialized Q E l env mek w = (Inr (), tick w)"
  using read_anchor_works [OF assms(1,2)] assms(3) by (simp add: enforce_anchor_initialized_def read_high_water_def)

lemma seal_works:
  assumes "fault_free Q E"
  obtains s where "seal Q E k m a w = (Inr s, tick w)"
  using fault_freeD(5) [OF assms, of k "ce_random E (cw_tick w) NONCE_LEN" a m] that by (auto simp: seal_def fill_bytes_def)

lemma seal_header_works:
  assumes "fault_free Q E"
  obtains s where "seal_header Q E k v g slots w = (Inr s, tick w)"
proof -
  obtain b where b: "q_header_to_vec Q \<lparr>hd_generation = g, hd_slots = fingerprint slots\<rparr> = Inr b" using fault_freeD(6) [OF assms] by blast
  obtain s where "seal Q E k b (aad v AAD_HEADER) w = (Inr s, tick w)" by (rule seal_works [OF assms])
  then show thesis using that b by (simp add: seal_header_def)
qed

lemma seal_lockout_works:
  assumes "fault_free Q E"
  obtains s where "seal_lockout Q E k v l w = (Inr s, tick w)"
proof -
  obtain b where b: "q_lockout_to_vec Q l = Inr b" using fault_freeD(7) [OF assms] by blast
  obtain s where "seal Q E k b (aad v AAD_LOCKOUT) w = (Inr s, tick w)" by (rule seal_works [OF assms])
  then show thesis using that b by (simp add: seal_lockout_def)
qed

lemma save_works:
  assumes "fault_free Q E"
  obtains b where "q_envelope_to_vec Q env = Inr b"
    "save_envelope Q E env w = (Inr (), (tick w)\<lparr>cw_trace := b # cw_trace w, cw_tmp := None, cw_file := Some b\<rparr>)"
proof -
  obtain b where "q_envelope_to_vec Q env = Inr b" using fault_freeD(8) [OF assms] by blast
  then show thesis using that fault_freeD(3) [OF assms] by (simp add: save_envelope_def Let_def tick_def)
qed

section \<open>The session\<close>

text \<open>A session that holds the data key and does not run out.\<close>

definition awake :: "custody_env \<Rightarrow> bytes \<Rightarrow> custody_world \<Rightarrow> bool" where
  "awake E dek w \<longleftrightarrow>
     (\<exists>s. cw_session w = Some s \<and> se_data_key s = dek \<and>
        (cw_autolock_secs w = 0 \<or>
         (\<forall>t\<ge>cw_tick w. ce_instant E t - se_unlocked_at s < cw_autolock_secs w * 1000000000)))"

definition waits :: "custody_world \<Rightarrow> custody_world \<Rightarrow> bool" where
  "waits w w' \<longleftrightarrow>
     cw_keyring w' = cw_keyring w \<and> cw_file w' = cw_file w \<and> cw_session w' = cw_session w \<and>
     cw_autolock_secs w' = cw_autolock_secs w \<and> cw_tick w \<le> cw_tick w'"

lemma waits_refl [simp]: "waits w w" by (simp add: waits_def)

lemma waits_tick [simp]: "waits w w' \<Longrightarrow> waits w (tick w')" by (simp add: waits_def tick_def)

lemma awake_waits: "awake E dek w \<Longrightarrow> waits w w' \<Longrightarrow> awake E dek w'"
  unfolding awake_def waits_def by (metis le_trans)

lemma intact_waits: "intact Q mek dek p g l \<sigma> w \<Longrightarrow> waits w w' \<Longrightarrow> intact Q mek dek p g l \<sigma> w'"
  by (rule intact_cong) (simp_all add: waits_def)

lemma with_session_key_works:
  assumes "awake E dek w"
  obtains w' where "with_session_key E w = (Inr dek, w')" "waits w w'" "cw_tick w' \<le> cw_tick w + 1"
proof -
  obtain s where s: "cw_session w = Some s" "se_data_key s = dek"
    "cw_autolock_secs w = 0 \<or> ce_instant E (cw_tick w) - se_unlocked_at s < cw_autolock_secs w * 1000000000"
    using assms unfolding awake_def by blast
  then have e: "expire_if_stale E w \<in> {w, tick w}" by (auto simp: expire_if_stale_def)
  have "cw_session (expire_if_stale E w) = Some s" using e s(1) by (auto simp: tick_def)
  then have "with_session_key E w = (Inr dek, expire_if_stale E w)" using s(2) by (simp add: with_session_key_def Let_def)
  moreover have "waits w (expire_if_stale E w)" "cw_tick (expire_if_stale E w) \<le> cw_tick w + 1" using e by (auto simp: tick_def waits_def)
  ultimately show thesis by (rule that)
qed

section \<open>Looking into an intact vault\<close>

lemma intact_envelope:
  assumes "fault_free Q E" and "intact Q mek dek p g l \<sigma> w"
  obtains env kek where "load_envelope Q E w = (Inr env, tick w)" "derives Q p (ev_salt env) kek"
    "intact_env Q mek dek kek g l \<sigma> env"
proof -
  obtain b env kek where b: "cw_file w = Some b" "q_envelope_from_slice Q b = Some env" "derives Q p (ev_salt env) kek"
    "intact_env Q mek dek kek g l \<sigma> env" using assms(2) unfolding intact_def by blast
  then have "load_envelope Q E w = (Inr env, tick w)"
    using fault_freeD(2) [OF assms(1)] by (simp add: load_envelope_def intact_env_def and_then_def)
  then show thesis using that b by blast
qed

lemma intact_envD:
  assumes "intact_env Q mek dek kek g l \<sigma> env"
  shows "ev_version env = ENVELOPE_VERSION" and "bt_wf (ev_slots env)"
    and "open_and_verify_header Q dek env = Inr g" and "open_lockout Q mek env = Inr l" and "lk_anchor_initialized l = Some True"
  using assms by (auto simp: intact_env_def open_and_verify_header_Inr)

lemma master_key_works:
  assumes "fault_free Q E" and "intact Q mek dek p g l \<sigma> w"
  shows "master_key E w = (Inr mek, tick w)"
  using assms fault_freeD(1) [OF assms(1)] by (simp add: master_key_def rpc_map_def keyring_get_def intact_def and_then_def)

lemma intact_anchored: "intact Q mek dek p g l \<sigma> w \<Longrightarrow> anchored KEYRING_GENERATION_ACCOUNT g w"
  by (simp add: intact_def)

lemma guard_anchor_works:
  assumes "fault_free Q E" and "intact Q mek dek p g l \<sigma> w" and "intact_env Q mek dek kek g l \<sigma> env"
  shows "guard_anchor Q E env w = (Inr (mek, l), tick (tick w))"
  using master_key_works [OF assms(1,2)] intact_envD [OF assms(3)]
    enforce_anchor_works [OF assms(1), of g "tick w" l env mek] intact_anchored [OF assms(2)]
  by (simp add: guard_anchor_def)

lemma guard_fresh_works:
  assumes "fault_free Q E" and "intact Q mek dek p g l \<sigma> w" and "intact_env Q mek dek kek g l \<sigma> env"
  shows "guard_fresh Q E dek env w = (Inr g, tick (tick w))"
  using enforce_high_water_works [OF assms(1) intact_anchored [OF assms(2)]] intact_envD [OF assms(3)]
  by (simp add: guard_fresh_def)

text \<open>A read answers what the store holds.\<close>

lemma read_works:
  assumes ff: "fault_free Q E" and i: "intact Q mek dek p g l \<sigma> w" and a: "awake E dek w" and n: "\<not> reserved_name slot"
  obtains w' where "read_slot Q E slot w = (ok_or Denied (\<sigma> slot), w')" "waits w w'"
proof -
  obtain w1 where w1: "with_session_key E w = (Inr dek, w1)" "waits w w1" "cw_tick w1 \<le> cw_tick w + 1" by (rule with_session_key_works [OF a])
  note i1 = intact_waits [OF i w1(2)]
  obtain env kek where e: "load_envelope Q E w1 = (Inr env, tick w1)" "intact_env Q mek dek kek g l \<sigma> env"
    by (rule intact_envelope [OF ff i1])
  have i2: "intact Q mek dek p g l \<sigma> (tick w1)" "intact Q mek dek p g l \<sigma> (tick (tick (tick w1)))"
    using i1 intact_waits by (auto intro: intact_waits)
  have ns: "slot \<noteq> CHECK_SLOT" using n by (auto simp: reserved_name_def CHECK_SLOT_def starts_with_def)
  have v: "(case bt_get slot (ev_slots env) of None \<Rightarrow> \<sigma> slot = None
      | Some s \<Rightarrow> \<exists>m. unseal Q dek s (aad ENVELOPE_VERSION slot) = Inr m \<and> \<sigma> slot = Some m)"
    using e(2) ns unfolding intact_env_def by blast
  have "read_slot Q E slot w = (ok_or Denied (\<sigma> slot), tick (tick (tick (tick (tick w1)))))"
    using n w1 e guard_anchor_works [OF ff i2(1) e(2)] guard_fresh_works [OF ff i2(2) e(2)] v intact_envD(1) [OF e(2)]
    by (cases "bt_get slot (ev_slots env)") (auto simp: read_slot_def read_loaded_def)
  then show thesis using that w1(2) by simp
qed


section \<open>Changing an intact vault\<close>

text \<open>The slots \<open>S\<close> open to the store \<open>\<sigma>\<close>.\<close>

definition slots_hold :: "custody_lib \<Rightarrow> bytes \<Rightarrow> (string \<times> SealedSlot) list \<Rightarrow> (string \<Rightarrow> bytes option) \<Rightarrow> bool" where
  "slots_hold Q dek S \<sigma> \<longleftrightarrow>
     (\<forall>name. name \<noteq> CHECK_SLOT \<longrightarrow>
        (case bt_get name S of
           None \<Rightarrow> \<sigma> name = None
         | Some s \<Rightarrow> \<exists>m. unseal Q dek s (aad ENVELOPE_VERSION name) = Inr m \<and> \<sigma> name = Some m))"

lemma intact_slots_hold: "intact_env Q mek dek kek g l \<sigma> env \<Longrightarrow> slots_hold Q dek (ev_slots env) \<sigma>"
  unfolding intact_env_def slots_hold_def by blast

lemma slots_holdD:
  assumes "slots_hold Q dek S \<sigma>" and "name \<noteq> CHECK_SLOT"
  shows "case bt_get name S of None \<Rightarrow> \<sigma> name = None
    | Some s \<Rightarrow> \<exists>m. unseal Q dek s (aad ENVELOPE_VERSION name) = Inr m \<and> \<sigma> name = Some m"
  using assms unfolding slots_hold_def by blast

lemma slots_hold_insert:
  assumes "slots_hold Q dek S \<sigma>" and "bt_wf S" and "unseal Q dek s (aad ENVELOPE_VERSION slot) = Inr v"
  shows "slots_hold Q dek (bt_insert slot s S) (\<sigma>(slot \<mapsto> v))"
  unfolding slots_hold_def
proof (intro allI impI)
  fix name
  assume "name \<noteq> CHECK_SLOT"
  from slots_holdD [OF assms(1) this]
  show "case bt_get name (bt_insert slot s S) of None \<Rightarrow> (\<sigma>(slot \<mapsto> v)) name = None
    | Some s \<Rightarrow> \<exists>m. unseal Q dek s (aad ENVELOPE_VERSION name) = Inr m \<and> (\<sigma>(slot \<mapsto> v)) name = Some m"
    using assms(3) by (cases "name = slot"; cases "bt_get name S") (simp_all add: bt_get_insert [OF assms(2)])
qed

lemma slots_hold_remove:
  assumes "slots_hold Q dek S \<sigma>"
  shows "slots_hold Q dek (bt_remove slot S) (\<sigma>(slot := None))"
  unfolding slots_hold_def
proof (intro allI impI)
  fix name
  assume "name \<noteq> CHECK_SLOT"
  from slots_holdD [OF assms(1) this]
  show "case bt_get name (bt_remove slot S) of None \<Rightarrow> (\<sigma>(slot := None)) name = None
    | Some s \<Rightarrow> \<exists>m. unseal Q dek s (aad ENVELOPE_VERSION name) = Inr m \<and> (\<sigma>(slot := None)) name = Some m"
    by (cases "name = slot"; cases "bt_get name S") (simp_all add: bt_get_remove)
qed

lemma intact_commit:
  assumes law: "custody_law Q E" and i: "intact_env Q mek dek kek g l \<sigma> env"
    and S: "bt_wf S'" "bt_get CHECK_SLOT S' = bt_get CHECK_SLOT (ev_slots env)" "slots_hold Q dek S' \<sigma>'"
    and h: "seal_header Q E dek ENVELOPE_VERSION g' S' w = (Inr s, w')"
  shows "intact_env Q mek dek kek g' l \<sigma>' (env\<lparr>ev_slots := S', ev_header := s\<rparr>)"
proof -
  let ?e = "env\<lparr>ev_slots := S', ev_header := s\<rparr>"
  have "opened_header Q dek ?e = Some \<lparr>hd_generation = g', hd_slots = fingerprint S'\<rparr>"
    by (rule seal_header_at(2) [OF law S(1) h]) (use intact_envD(1) [OF i] in simp_all)
  moreover have "open_lockout Q mek ?e = open_lockout Q mek env" by (simp add: open_lockout_def)
  ultimately show ?thesis using i S unfolding intact_env_def slots_hold_def by simp
qed

text \<open>An intact envelope in the file, with the anchors at its numbers, makes the vault intact.\<close>

lemma intactI:
  assumes law: "custody_law Q E" and i: "intact Q mek dek p g l \<sigma> w" and e: "intact_env Q mek dek kek g' l' \<sigma>' env"
    and d: "derives Q p (ev_salt env) kek" and b: "q_envelope_to_vec Q env = Inr b" "cw_file w' = Some b"
    and k: "cw_keyring w' KEYRING_MASTER_ACCOUNT = cw_keyring w KEYRING_MASTER_ACCOUNT"
      "anchored KEYRING_GENERATION_ACCOUNT g' w'" "throttle_at (lk_generation l') w'"
  shows "intact Q mek dek p g' l' \<sigma>' w'"
proof -
  have "q_envelope_from_slice Q b = Some env" using custody_lawD(6) [OF law intact_envD(2) [OF e] b(1)] .
  then show ?thesis using i e d b(2) k unfolding intact_def by auto
qed

lemma commit_works:
  assumes law: "custody_law Q E" and ff: "fault_free Q E" and i: "intact Q mek dek p g l \<sigma> w" and a: "awake E dek w"
    and e: "intact_env Q mek dek kek g l \<sigma> env" "derives Q p (ev_salt env) kek" and g: "g < u64_max"
    and S: "bt_wf S'" "bt_get CHECK_SLOT S' = bt_get CHECK_SLOT (ev_slots env)" "slots_hold Q dek S' \<sigma>'"
  obtains w' where "commit_slots Q E dek env S' g w = (Inr (), w')" "intact Q mek dek p (g + 1) l \<sigma>' w'" "awake E dek w'"
    "cw_tick w' = cw_tick w + 4"
proof -
  have g1: "checked_add g 1 = Some (g + 1)" "g + 1 < 2 ^ 64" using g by (auto simp: checked_add_def u64_max_def)
  note v = intact_envD(1) [OF e(1)]
  obtain s where s: "seal_header Q E dek ENVELOPE_VERSION (g + 1) S' w = (Inr s, tick w)" by (rule seal_header_works [OF ff])
  let ?e = "env\<lparr>ev_slots := S', ev_header := s\<rparr>"
  define w2 where "w2 = tick (tick ((tick w)\<lparr>cw_keyring := (cw_keyring w)(KEYRING_GENERATION_ACCOUNT \<mapsto> be_bytes 8 (g + 1))\<rparr>))"
  have b: "bump_high_water E (g + 1) (tick w) = (Inr (), w2)"
    using bump_high_water_works [OF ff, of g "tick w" "g + 1"] intact_anchored [OF i] unfolding w2_def anchored_tick
    by (simp add: tick_def)
  obtain bs where bs: "q_envelope_to_vec Q ?e = Inr bs"
    "save_envelope Q E ?e w2 = (Inr (), (tick w2)\<lparr>cw_trace := bs # cw_trace w2, cw_tmp := None, cw_file := Some bs\<rparr>)"
    by (rule save_works [OF ff])
  let ?w = "(tick w2)\<lparr>cw_trace := bs # cw_trace w2, cw_tmp := None, cw_file := Some bs\<rparr>"
  have "commit_slots Q E dek env S' g w = (Inr (), ?w)" using g1(1) s b bs(2) v by (simp add: commit_slots_def)
  moreover have "intact Q mek dek p (g + 1) l \<sigma>' ?w"
  proof (rule intactI [OF law i intact_commit [OF law e(1) S s] _ bs(1)])
    show "throttle_at (lk_generation l) ?w"
      using i account_names by (simp add: intact_def throttle_at_def anchored_def w2_def tick_def)
  qed (use e(2) g1(2) account_names in \<open>simp_all add: anchored_def w2_def tick_def\<close>)
  moreover have "awake E dek ?w" "cw_tick ?w = cw_tick w + 4" using a unfolding awake_def w2_def by (auto simp: tick_def)
  ultimately show thesis by (rule that)
qed

lemma reserved_check: "\<not> reserved_name slot \<Longrightarrow> slot \<noteq> CHECK_SLOT"
  by (auto simp: reserved_name_def CHECK_SLOT_def starts_with_def)

text \<open>A store succeeds and the vault then holds the new value.\<close>

lemma put_works:
  assumes law: "custody_law Q E" and ff: "fault_free Q E" and i: "intact Q mek dek p g l \<sigma> w" and a: "awake E dek w"
    and n: "\<not> reserved_name slot" "\<not> is_reserved_domain_tag slot" and g: "g < u64_max"
  obtains w' where "vault_put Q E slot v w = (Inr (), w')" "intact Q mek dek p (g + 1) l (\<sigma>(slot \<mapsto> v)) w'" "awake E dek w'"
    "cw_tick w' \<le> cw_tick w + 11"
proof -
  obtain w1 where w1: "with_session_key E w = (Inr dek, w1)" "waits w w1" "cw_tick w1 \<le> cw_tick w + 1" by (rule with_session_key_works [OF a])
  obtain env kek where e: "load_envelope Q E w1 = (Inr env, tick w1)" "derives Q p (ev_salt env) kek"
    "intact_env Q mek dek kek g l \<sigma> env"
    by (rule intact_envelope [OF ff intact_waits [OF i w1(2)]])
  note d = intact_envD [OF e(3)]
  define w2 where "w2 = tick (tick (tick w1))"
  define w3 where "w3 = tick (tick (tick w2))"
  have ws: "waits w (tick w1)" "waits w (tick w2)" "waits w w3" using w1(2) by (simp_all add: w2_def w3_def)
  obtain s where s: "seal Q E dek v (aad ENVELOPE_VERSION slot) w2 = (Inr s, tick w2)" by (rule seal_works [OF ff])
  let ?S = "bt_insert slot s (ev_slots env)"
  have un: "unseal Q dek s (aad ENVELOPE_VERSION slot) = Inr v"
    using seal_still(3) [OF custody_lawD(1) [OF law] s refl] custody_lawD(2) [OF law] by simp
  have hold: "slots_hold Q dek ?S (\<sigma>(slot \<mapsto> v))"
    using slots_hold_insert [OF intact_slots_hold [OF e(3)] d(2) un] .
  obtain w' where c: "commit_slots Q E dek env ?S g w3 = (Inr (), w')" "intact Q mek dek p (g + 1) l (\<sigma>(slot \<mapsto> v)) w'" "awake E dek w'"
    "cw_tick w' = cw_tick w3 + 4"
  proof (rule commit_works [OF law ff intact_waits [OF i ws(3)] awake_waits [OF a ws(3)] e(3,2) g _ _ hold])
    show "bt_wf ?S" using bt_wf_insert [OF d(2)] .
    show "bt_get CHECK_SLOT ?S = bt_get CHECK_SLOT (ev_slots env)" using reserved_check [OF n(1)] by (auto simp: bt_get_insert [OF d(2)])
  qed
  have "vault_put Q E slot v w = (Inr (), w')"
    using n w1(1) e(1) guard_anchor_works [OF ff intact_waits [OF i ws(1)] e(3)] carry_heal_at [OF d(5)]
      s guard_fresh_works [OF ff intact_waits [OF i ws(2)] e(3)] c(1) d(1)
    by (simp add: vault_put_def put_inner_def w2_def w3_def)
  moreover have "cw_tick w' \<le> cw_tick w + 11" using c(4) w1(3) by (simp add: w3_def w2_def tick_def)
  ultimately show thesis using that c by blast
qed

lemma clear_works:
  assumes law: "custody_law Q E" and ff: "fault_free Q E" and i: "intact Q mek dek p g l \<sigma> w" and a: "awake E dek w"
    and n: "\<not> reserved_name slot" and g: "g < u64_max"
  obtains w' g' where "clear_slot Q E slot w = (Inr (), w')" "intact Q mek dek p g' l (\<sigma>(slot := None)) w'" "awake E dek w'" "g' \<le> g + 1"
proof -
  obtain w1 where w1: "with_session_key E w = (Inr dek, w1)" "waits w w1" "cw_tick w1 \<le> cw_tick w + 1" by (rule with_session_key_works [OF a])
  obtain env kek where e: "load_envelope Q E w1 = (Inr env, tick w1)" "derives Q p (ev_salt env) kek"
    "intact_env Q mek dek kek g l \<sigma> env"
    by (rule intact_envelope [OF ff intact_waits [OF i w1(2)]])
  note d = intact_envD [OF e(3)] and hold = intact_slots_hold [OF e(3)]
  define w2 where "w2 = tick (tick (tick w1))"
  define w3 where "w3 = tick (tick w2)"
  have ws: "waits w (tick w1)" "waits w w2" "waits w w3" using w1(2) by (simp_all add: w2_def w3_def)
  show thesis
  proof (cases "bt_get slot (ev_slots env)")
    case None
    then have "\<sigma> slot = None" using slots_holdD [OF hold reserved_check [OF n]] by simp
    then have "\<sigma>(slot := None) = \<sigma>" by auto
    moreover have "clear_slot Q E slot w = (Inr (), tick w1)" using n w1(1) e(1) None by (simp add: clear_slot_def)
    ultimately show thesis using that [of "tick w1" g] intact_waits [OF i ws(1)] awake_waits [OF a ws(1)] by simp
  next
    case (Some s)
    let ?S = "bt_remove slot (ev_slots env)"
    have hold': "slots_hold Q dek ?S (\<sigma>(slot := None))"
      using slots_hold_remove [OF hold] .
    obtain w' where c: "commit_slots Q E dek env ?S g w3 = (Inr (), w')" "intact Q mek dek p (g + 1) l (\<sigma>(slot := None)) w'" "awake E dek w'"
    proof (rule commit_works [OF law ff intact_waits [OF i ws(3)] awake_waits [OF a ws(3)] e(3,2) g _ _ hold'])
      show "bt_wf ?S" using bt_wf_remove [OF d(2)] .
      show "bt_get CHECK_SLOT ?S = bt_get CHECK_SLOT (ev_slots env)" using reserved_check [OF n] by (auto simp: bt_get_remove)
    qed
    have "clear_slot Q E slot w = (Inr (), w')"
      using n w1(1) e(1) Some guard_anchor_works [OF ff intact_waits [OF i ws(1)] e(3)] carry_heal_at [OF d(5)]
        guard_fresh_works [OF ff intact_waits [OF i ws(2)] e(3)] c(1)
      by (simp add: clear_slot_def w2_def w3_def)
    then show thesis using that c by blast
  qed
qed


section \<open>Unlocking an intact vault\<close>

text \<open>Two passphrases that give different keys under every salt.\<close>

definition differs :: "custody_lib \<Rightarrow> bytes \<Rightarrow> bytes \<Rightarrow> bool" where
  "differs Q p p' \<longleftrightarrow> (\<forall>salt. \<exists>k. derives Q p' salt k \<and> \<not> derives Q p salt k)"

lemma combine_keys_inj:
  assumes "combine_keys mek k = combine_keys mek k'" and "length k = length mek" and "length k' = length mek"
  shows "k = k'"
proof (rule nth_equalityI)
  show "length k = length k'" using assms by simp
  fix i
  assume i: "i < length k"
  then have "xor (mek ! i) (k ! i) = xor (mek ! i) (k' ! i)"
    using arg_cong [OF assms(1), of "\<lambda>xs. xs ! i"] assms(2,3) by (simp add: combine_keys_def)
  then show "k ! i = k' ! i" by (metis bit.xor_left_self)
qed

lemma throttle_tick [simp]: "throttle_at a (tick w) = throttle_at a w"
  by (simp add: throttle_at_def tick_def anchored_def)

text \<open>Writing a new throttle block.\<close>

lemma write_lockout_works:
  assumes law: "custody_law Q E" and ff: "fault_free Q E" and i: "intact Q mek dek p g l \<sigma> w"
    and e: "intact_env Q mek dek kek g l \<sigma> env" "derives Q p (ev_salt env) kek" and g: "lk_generation l < u64_max"
  obtains w' where "write_lockout Q E mek env l' w = (Inr (), w')"
    "intact Q mek dek p g (l'\<lparr>lk_generation := lk_generation l + 1, lk_anchor_initialized := Some True\<rparr>) \<sigma> w'"
    "cw_session w' = cw_session w" "cw_autolock_secs w' = cw_autolock_secs w" "cw_kdf w' = cw_kdf w" "cw_tick w' = cw_tick w + 5"
proof -
  let ?a = "lk_generation l"
  let ?l = "l'\<lparr>lk_generation := ?a + 1, lk_anchor_initialized := Some True\<rparr>"
  have n: "wrap_inc ?a = ?a + 1" "?a + 1 < 2 ^ 64" using g wrap_inc_exact by (auto simp: u64_max_def)
  have t: "throttle_at ?a w" using i by (simp add: intact_def)
  note ok = fault_freeD(1) [OF ff]
  obtain x where x: "read_anchor E KEYRING_LOCKOUT_GEN_ACCOUNT w = (Inr x, tick w)" "(case x of Some n \<Rightarrow> n | None \<Rightarrow> 0) = ?a"
    by (rule read_throttle [OF ok t])
  obtain y where y: "read_anchor E KEYRING_LOCKOUT_GEN_ACCOUNT (tick w) = (Inr y, tick (tick w))" "(case y of Some n \<Rightarrow> n | None \<Rightarrow> 0) = ?a"
    using read_throttle [OF ok throttle_tick [THEN iffD2, OF t]] by blast
  define w2 where "w2 = tick ((tick (tick w))\<lparr>cw_keyring := (cw_keyring w)(KEYRING_LOCKOUT_GEN_ACCOUNT \<mapsto> be_bytes 8 (?a + 1))\<rparr>)"
  have b: "bump_lockout_hw E (?a + 1) (tick w) = (Inr (), w2)"
    using y ok by (simp add: bump_lockout_hw_def bump_anchor_def keyring_set_def w2_def tick_def)
  obtain s where s: "seal_lockout Q E mek ENVELOPE_VERSION ?l w2 = (Inr s, tick w2)" by (rule seal_lockout_works [OF ff])
  let ?e = "env\<lparr>ev_lockout := s\<rparr>"
  obtain bs where bs: "q_envelope_to_vec Q ?e = Inr bs"
    "save_envelope Q E ?e (tick w2) = (Inr (), (tick (tick w2))\<lparr>cw_trace := bs # cw_trace (tick w2), cw_tmp := None, cw_file := Some bs\<rparr>)"
    by (rule save_works [OF ff])
  let ?w = "(tick (tick w2))\<lparr>cw_trace := bs # cw_trace (tick w2), cw_tmp := None, cw_file := Some bs\<rparr>"
  note v = intact_envD(1) [OF e(1)]
  have o: "open_lockout Q mek ?e = Inr ?l" by (rule seal_lockout_at(2) [OF law s]) (simp_all add: v)
  have ie: "intact_env Q mek dek kek g ?l \<sigma> ?e"
  proof -
    have "opened_header Q dek ?e = opened_header Q dek env" by (simp add: opened_header_def)
    then show ?thesis using e(1) o unfolding intact_env_def by simp
  qed
  have "write_lockout Q E mek env l' w = (Inr (), ?w)"
    using x n(1) b s bs(2) v by (simp add: write_lockout_def read_lockout_hw_def)
  moreover have "intact Q mek dek p g ?l \<sigma> ?w"
  proof (rule intactI [OF law i ie _ bs(1)])
    show "anchored KEYRING_GENERATION_ACCOUNT g ?w" using intact_anchored [OF i] account_names by (simp add: anchored_def w2_def tick_def)
    show "throttle_at (lk_generation ?l) ?w" using n(2) by (simp add: throttle_at_def anchored_def w2_def tick_def)
  qed (use e(2) account_names in \<open>simp_all add: w2_def tick_def\<close>)
  ultimately show thesis using that by (simp add: w2_def tick_def)
qed

text \<open>Up to the trial an unlock of an intact vault only looks.\<close>

lemma unlock_reaches_throttle:
  assumes ff: "fault_free Q E" and i: "intact Q mek dek p g l \<sigma> w" and e: "load_envelope Q E (tick w) = (Inr env, tick (tick w))"
    "intact_env Q mek dek kek g l \<sigma> env"
  shows "vault_unlock Q E p' w =
    (case lk_locked_until_ms l of
       None \<Rightarrow> unlock_trial Q E p' mek env l False ((tick ^^ 4) w)
     | Some d \<Rightarrow>
         if ce_now_ms E (cw_tick w + 4) < d then (Inl LockedOut, (tick ^^ 5) w)
         else unlock_trial Q E p' mek env (l\<lparr>lk_failures := 0, lk_locked_until_ms := None\<rparr>) True ((tick ^^ 5) w))"
proof -
  note d = intact_envD [OF e(2)] and an = intact_anchored [OF i]
  have ini: "is_initialized w" using i by (auto simp: intact_def is_initialized_def)
  have t: "throttle_at (lk_generation l) (tick (tick (tick w)))" using i by (simp add: intact_def)
  obtain x where x: "read_anchor E KEYRING_LOCKOUT_GEN_ACCOUNT (tick (tick (tick w))) = (Inr x, tick (tick (tick (tick w))))"
    "(case x of Some n \<Rightarrow> n | None \<Rightarrow> 0) = lk_generation l"
    by (rule read_throttle [OF fault_freeD(1) [OF ff] t])
  have np: "\<not> (case x of Some n \<Rightarrow> lk_generation l < n | None \<Rightarrow> False)" using x(2) by (cases x) auto
  have "vault_unlock Q E p' w = unlock_throttled Q E p' mek env l (tick (tick (tick w)))"
    using ini master_key_works [OF ff i] e(1) d(4) enforce_anchor_works [OF ff, of g "tick (tick w)" l env mek] an d(5)
    by (simp add: vault_unlock_def unlock_inner_def)
  also have "\<dots> = (case lk_locked_until_ms l of
       None \<Rightarrow> unlock_trial Q E p' mek env l False ((tick ^^ 4) w)
     | Some d \<Rightarrow>
         if ce_now_ms E (cw_tick w + 4) < d then (Inl LockedOut, (tick ^^ 5) w)
         else unlock_trial Q E p' mek env (l\<lparr>lk_failures := 0, lk_locked_until_ms := None\<rparr>) True ((tick ^^ 5) w))"
  proof -
    have tk: "cw_tick (tick (tick (tick (tick w)))) = cw_tick w + 4" by (simp add: tick_def)
    show ?thesis
      using x(1) np tk by (simp add: unlock_throttled_def read_lockout_hw_def now_unix_ms_def numeral_eq_Suc split: option.split)
  qed
  finally show ?thesis .
qed


text \<open>The trial with a passphrase of its own key.\<close>

lemma trial_right:
  assumes law: "custody_law Q E" and ff: "fault_free Q E" and i: "intact Q mek dek p g l \<sigma> w"
    and e: "intact_env Q mek dek kek g l \<sigma> env" "derives Q p (ev_salt env) kek"
  obtains s w' where "try_derive_session Q E p mek env w = (Inr s, w')" "se_data_key s = dek" "waits w w'" "cw_kdf w' = Suc (cw_kdf w)"
    "cw_tick w' = cw_tick w + 3"
proof -
  note d = intact_envD [OF e(1)]
  let ?w = "w\<lparr>cw_kdf := Suc (cw_kdf w)\<rparr>"
  have k: "derive_key_counted Q p (ev_salt env) w = (Inr kek, ?w)"
    using e(2) fault_freeD(4) [OF ff] by (simp add: derive_key_counted_def derive_key_def derives_def)
  have u: "unseal Q (combine_keys mek kek) (ev_wrapped_dk env) (aad ENVELOPE_VERSION AAD_WRAPPED_DK) = Inr dek"
    using e(1) by (simp add: intact_env_def)
  obtain c where c: "bt_get CHECK_SLOT (ev_slots env) = Some c" "unseal Q dek c (aad ENVELOPE_VERSION CHECK_SLOT) = Inr CHECK_PLAINTEXT"
    using e(1) unfolding intact_env_def by blast
  have iw: "intact Q mek dek p g l \<sigma> ?w" by (rule intact_cong [OF i]) simp_all
  have len: "length dek = KEY_LEN" using i by (simp add: intact_def)
  let ?v = "tick (tick ?w)"
  have "try_derive_session Q E p mek env w = (Inr \<lparr>se_data_key = dek, se_unlocked_at = ce_instant E (cw_tick ?v)\<rparr>, tick ?v)"
    using k u c len guard_fresh_works [OF ff iw e(1)] d(1) by (simp add: try_derive_session_def verify_session_def)
  then show thesis using that by (simp add: waits_def tick_def)
qed

lemma trial_wrong:
  assumes ff: "fault_free Q E" and i: "intact Q mek dek p g l \<sigma> w"
    and e: "intact_env Q mek dek kek g l \<sigma> env" "derives Q p (ev_salt env) kek" and k: "derives Q p' (ev_salt env) k" "k \<noteq> kek"
  shows "try_derive_session Q E p' mek env w = (Inl Denied, w\<lparr>cw_kdf := Suc (cw_kdf w)\<rparr>)"
proof -
  have len: "length k = length mek" "length kek = length mek" using e(2) k(1) i by (simp_all add: derives_def intact_def)
  then have "combine_keys mek k \<noteq> combine_keys mek kek" using combine_keys_inj [of mek k kek] k(2) by auto
  then have nd: "unseal Q (combine_keys mek k) (ev_wrapped_dk env) (aad ENVELOPE_VERSION AAD_WRAPPED_DK) \<noteq> Inr d" for d
    using e(1) unfolding intact_env_def by blast
  have "length (ss_nonce (ev_wrapped_dk env)) = NONCE_LEN"
    using e(1) unfolding intact_env_def unseal_def by (metis Inl_Inr_False)
  then have "unseal Q (combine_keys mek k) (ev_wrapped_dk env) (aad ENVELOPE_VERSION AAD_WRAPPED_DK) = Inl Denied"
    using nd unfolding unseal_def by (cases "q_decrypt Q (combine_keys mek k) (ss_nonce (ev_wrapped_dk env)) (aad ENVELOPE_VERSION AAD_WRAPPED_DK) (ss_ct (ev_wrapped_dk env))") auto
  then show ?thesis
    using k(1) fault_freeD(4) [OF ff] intact_envD(1) [OF e(1)]
    by (simp add: try_derive_session_def derive_key_counted_def derive_key_def derives_def)
qed

lemma tick_pow [simp]: "cw_keyring ((tick ^^ n) w) = cw_keyring w" "cw_file ((tick ^^ n) w) = cw_file w"
  "cw_session ((tick ^^ n) w) = cw_session w" "cw_autolock_secs ((tick ^^ n) w) = cw_autolock_secs w"
  "cw_kdf ((tick ^^ n) w) = cw_kdf w" "cw_tick ((tick ^^ n) w) = cw_tick w + n" "cw_trace ((tick ^^ n) w) = cw_trace w"
  by (induction n) (simp_all add: tick_def)

text \<open>The right passphrase opens the vault when no cool-off runs.\<close>

lemma unlock_works:
  assumes law: "custody_law Q E" and ff: "fault_free Q E" and i: "intact Q mek dek p g l \<sigma> w"
    and n: "lk_locked_until_ms l = None" and g: "lk_generation l < u64_max"
  obtains w' s l' where "vault_unlock Q E p w = (Inr (), w')" "intact Q mek dek p g l' \<sigma> w'"
    "cw_session w' = Some s" "se_data_key s = dek" "cw_autolock_secs w' = cw_autolock_secs w"
    "lk_failures l' = 0" "lk_locked_until_ms l' = None" "lk_failures l = 0 \<Longrightarrow> l' = l" "cw_tick w' \<le> cw_tick w + 12"
proof -
  have it: "intact Q mek dek p g l \<sigma> (tick w)" by (rule intact_waits [OF i]) simp
  obtain env kek where e: "load_envelope Q E (tick w) = (Inr env, tick (tick w))" "derives Q p (ev_salt env) kek"
    "intact_env Q mek dek kek g l \<sigma> env"
    by (rule intact_envelope [OF ff it])
  define x where "x = (tick ^^ 4) w"
  have ix: "intact Q mek dek p g l \<sigma> x" by (rule intact_cong [OF i]) (simp_all add: x_def)
  have u: "vault_unlock Q E p w = unlock_trial Q E p mek env l False x"
    using unlock_reaches_throttle [OF ff i e(1,3), of p] n by (simp add: x_def)
  obtain s w1 where s: "try_derive_session Q E p mek env x = (Inr s, w1)" "se_data_key s = dek" "waits x w1" "cw_tick w1 = cw_tick x + 3"
    by (rule trial_right [OF law ff ix e(3,2)])
  show thesis
  proof (cases "lk_failures l = 0")
    case True
    have "vault_unlock Q E p w = (Inr (), w1\<lparr>cw_session := Some s\<rparr>)" using u s(1) True n by (simp add: unlock_trial_def)
    moreover have "intact Q mek dek p g l \<sigma> (w1\<lparr>cw_session := Some s\<rparr>)"
      by (rule intact_cong [OF intact_waits [OF ix s(3)]]) simp_all
    ultimately show thesis
      by (rule that [where s = s and l' = l]) (use s True n in \<open>simp_all add: waits_def x_def\<close>)
  next
    case False
    let ?l = "lockout_default\<lparr>lk_generation := lk_generation l + 1, lk_anchor_initialized := Some True\<rparr>"
    obtain w2 where w2: "write_lockout Q E mek env lockout_default w1 = (Inr (), w2)" "intact Q mek dek p g ?l \<sigma> w2"
      "cw_session w2 = cw_session w1" "cw_autolock_secs w2 = cw_autolock_secs w1" "cw_tick w2 = cw_tick w1 + 5"
      by (rule write_lockout_works [OF law ff intact_waits [OF ix s(3)] e(3,2) g])
    have "vault_unlock Q E p w = (Inr (), w2\<lparr>cw_session := Some s\<rparr>)" using u s(1) False w2(1) by (simp add: unlock_trial_def)
    moreover have "intact Q mek dek p g ?l \<sigma> (w2\<lparr>cw_session := Some s\<rparr>)" by (rule intact_cong [OF w2(2)]) simp_all
    ultimately show thesis
      by (rule that [where s = s and l' = ?l]) (use s w2 False in \<open>simp_all add: waits_def x_def lockout_default_def\<close>)
  qed
qed

text \<open>A wrong passphrase is denied and counted. The block \<open>l\<close> is what the throttle starts from: the one on
  disk, or that one cleared once its cool-off is over.\<close>

definition counted :: "custody_env \<Rightarrow> nat \<Rightarrow> nat \<Rightarrow> LockoutState \<Rightarrow> LockoutState" where
  "counted E t a l = l\<lparr>lk_failures := lk_failures l + 1,
     lk_locked_until_ms := (if lk_failures l + 1 < MAX_ATTEMPTS then None else Some ((ce_now_ms E t + LOCKOUT_COOLOFF_MS) mod 2 ^ 64)),
     lk_generation := a, lk_anchor_initialized := Some True\<rparr>"

lemma wrong_counted:
  assumes law: "custody_law Q E" and ff: "fault_free Q E" and i: "intact Q mek dek p g b \<sigma> w"
    and e: "intact_env Q mek dek kek g b \<sigma> env" "derives Q p (ev_salt env) kek" and d: "differs Q p p'"
    and n: "lk_locked_until_ms l = None" "lk_failures l < MAX_ATTEMPTS" and g: "lk_generation b < u64_max"
  obtains w' where "unlock_trial Q E p' mek env l el w = (Inl Denied, w')"
    "intact Q mek dek p g (counted E (cw_tick w) (lk_generation b + 1) l) \<sigma> w'"
    "cw_session w' = cw_session w" "cw_autolock_secs w' = cw_autolock_secs w" "cw_kdf w' = Suc (cw_kdf w)" "cw_tick w' \<le> cw_tick w + 6" "cw_tick w \<le> cw_tick w'"
proof -
  obtain k where k: "derives Q p' (ev_salt env) k" "k \<noteq> kek" using d e(2) unfolding differs_def by metis
  let ?x = "w\<lparr>cw_kdf := Suc (cw_kdf w)\<rparr>"
  obtain l' w2 where c: "count_failure E l ?x = (l', w2)" by force
  have w2: "w2 \<in> {?x, tick ?x}" "l'\<lparr>lk_generation := lk_generation b + 1, lk_anchor_initialized := Some True\<rparr> =
    counted E (cw_tick w) (lk_generation b + 1) l"
    using c n by (auto simp: count_failure_def counted_def now_unix_ms_def Let_def MAX_ATTEMPTS_def split: if_splits)
  have i2: "intact Q mek dek p g b \<sigma> w2" by (rule intact_cong [OF i]) (use w2(1) in \<open>auto simp: tick_def\<close>)
  obtain w3 where w3: "write_lockout Q E mek env l' w2 = (Inr (), w3)"
    "intact Q mek dek p g (l'\<lparr>lk_generation := lk_generation b + 1, lk_anchor_initialized := Some True\<rparr>) \<sigma> w3"
    "cw_session w3 = cw_session w2" "cw_autolock_secs w3 = cw_autolock_secs w2" "cw_kdf w3 = cw_kdf w2" "cw_tick w3 = cw_tick w2 + 5"
    by (rule write_lockout_works [OF law ff i2 e g])
  have "unlock_trial Q E p' mek env l el w = (Inl Denied, w3)"
    using trial_wrong [OF ff i e k] c w3(1) by (simp add: unlock_trial_def)
  then show thesis using that [of w3] w3 w2 by (auto simp: tick_def)
qed

lemma unlock_wrong:
  assumes law: "custody_law Q E" and ff: "fault_free Q E" and i: "intact Q mek dek p g b \<sigma> w" and d: "differs Q p p'"
    and l: "lk_locked_until_ms b = None \<and> lk_failures b < MAX_ATTEMPTS \<and> l = b \<or>
      (\<exists>t. lk_locked_until_ms b = Some t \<and> t \<le> ce_now_ms E (cw_tick w + 4) \<and> l = b\<lparr>lk_failures := 0, lk_locked_until_ms := None\<rparr>)"
    and g: "lk_generation b < u64_max"
  obtains w' t where "vault_unlock Q E p' w = (Inl Denied, w')" "intact Q mek dek p g (counted E t (lk_generation b + 1) l) \<sigma> w'"
    "cw_session w' = cw_session w" "cw_autolock_secs w' = cw_autolock_secs w" "cw_kdf w' = Suc (cw_kdf w)"
    "t = (if lk_locked_until_ms b = None then cw_tick w + 4 else cw_tick w + 5)" "cw_tick w' \<le> cw_tick w + 11" "t \<le> cw_tick w'"
proof -
  have it: "intact Q mek dek p g b \<sigma> (tick w)" by (rule intact_waits [OF i]) simp
  obtain env kek where e: "load_envelope Q E (tick w) = (Inr env, tick (tick w))" "derives Q p (ev_salt env) kek"
    "intact_env Q mek dek kek g b \<sigma> env"
    by (rule intact_envelope [OF ff it])
  define x where "x = (tick ^^ (if lk_locked_until_ms b = None then 4 else 5)) w"
  have ix: "intact Q mek dek p g b \<sigma> x" by (rule intact_cong [OF i]) (simp_all add: x_def)
  have n: "lk_locked_until_ms l = None" "lk_failures l < MAX_ATTEMPTS" using l by (auto simp: MAX_ATTEMPTS_def)
  have u: "vault_unlock Q E p' w = unlock_trial Q E p' mek env l (lk_locked_until_ms b \<noteq> None) x"
    using unlock_reaches_throttle [OF ff i e(1,3), of p'] l by (auto simp: x_def)
  obtain w' where w': "unlock_trial Q E p' mek env l (lk_locked_until_ms b \<noteq> None) x = (Inl Denied, w')"
    "intact Q mek dek p g (counted E (cw_tick x) (lk_generation b + 1) l) \<sigma> w'" "cw_session w' = cw_session x"
    "cw_autolock_secs w' = cw_autolock_secs x" "cw_kdf w' = Suc (cw_kdf x)" "cw_tick w' \<le> cw_tick x + 6" "cw_tick x \<le> cw_tick w'"
    by (rule wrong_counted [OF law ff ix e(3,2) d n g])
  show thesis by (rule that [of w' "cw_tick x"]) (use u w' in \<open>auto simp: x_def split: if_splits\<close>)
qed

section \<open>Making a vault\<close>

lemma seed_works:
  assumes "fault_free Q E" and "cw_keyring w a = None"
  shows "seed_anchor E a n w = (Inr (), tick (tick (w\<lparr>cw_keyring := (cw_keyring w)(a \<mapsto> be_bytes 8 n)\<rparr>)))"
  using assms(2) fault_freeD(1) [OF assms(1)]
  by (simp add: seed_anchor_def read_anchor_def rpc_map_def keyring_get_def keyring_set_def Let_def tick_def)

lemma mint_works:
  assumes "fault_free Q E" and "cw_keyring w KEYRING_MASTER_ACCOUNT = None"
  shows "mint_master_key E w =
    (Inr (ce_random E (Suc (cw_tick w)) KEY_LEN),
     (tick ^^ 3) (w\<lparr>cw_keyring := (cw_keyring w)(KEYRING_MASTER_ACCOUNT \<mapsto> ce_random E (Suc (cw_tick w)) KEY_LEN)\<rparr>))"
  using assms(2) fault_freeD(1) [OF assms(1)]
  by (simp add: mint_master_key_def keyring_get_def keyring_set_def fill_bytes_def Let_def tick_def numeral_eq_Suc)

lemma init_works:
  assumes law: "custody_law Q E" and ff: "fault_free Q E" and f: "cw_file w0 = None" "cw_keyring w0 KEYRING_MASTER_ACCOUNT = None"
    and cl: "clean_keyring w0" and p: "\<And>salt. \<exists>k. derives Q p salt k"
  obtains w where "vault_init Q E p w0 = (Inr (), w)"
    "intact Q (ce_random E (Suc (cw_tick w0)) KEY_LEN) (ce_random E (cw_tick w0 + 4) KEY_LEN) p 0
       (lockout_default\<lparr>lk_anchor_initialized := Some True\<rparr>) (\<lambda>_. None) w"
    "cw_session w = None" "cw_autolock_secs w = cw_autolock_secs w0" "cw_tick w = cw_tick w0 + 12"
proof -
  let ?mek = "ce_random E (Suc (cw_tick w0)) KEY_LEN" let ?dek = "ce_random E (cw_tick w0 + 4) KEY_LEN"
  let ?salt = "ce_random E (cw_tick w0 + 3) SALT_LEN" let ?l = "lockout_default\<lparr>lk_anchor_initialized := Some True\<rparr>"
  note aead = custody_lawD(1) [OF law] and rl = custody_lawD(2) [OF law]
  define w1 where "w1 = (tick ^^ 3) (w0\<lparr>cw_keyring := (cw_keyring w0)(KEYRING_MASTER_ACCOUNT \<mapsto> ?mek)\<rparr>)"
  have m: "mint_master_key E w0 = (Inr ?mek, w1)" using mint_works [OF ff f(2)] by (simp add: w1_def)
  obtain kek where k: "derives Q p ?salt kek" using p by blast
  define w2 where "w2 = tick ((tick w1)\<lparr>cw_kdf := Suc (cw_kdf w1)\<rparr>)"
  obtain wr where wr: "seal Q E (combine_keys ?mek kek) ?dek (aad ENVELOPE_VERSION AAD_WRAPPED_DK) w2 = (Inr wr, tick w2)"
    by (rule seal_works [OF ff])
  obtain ch where ch: "seal Q E ?dek CHECK_PLAINTEXT (aad ENVELOPE_VERSION CHECK_SLOT) (tick w2) = (Inr ch, tick (tick w2))"
    by (rule seal_works [OF ff])
  let ?S = "[(CHECK_SLOT, ch)]"
  obtain h where h: "seal_header Q E ?dek ENVELOPE_VERSION 0 ?S (tick (tick w2)) = (Inr h, tick (tick (tick w2)))"
    by (rule seal_header_works [OF ff])
  obtain lo where lo: "seal_lockout Q E ?mek ENVELOPE_VERSION ?l (tick (tick (tick w2))) = (Inr lo, tick (tick (tick (tick w2))))"
    by (rule seal_lockout_works [OF ff])
  let ?e = "\<lparr>ev_version = ENVELOPE_VERSION, ev_salt = ?salt, ev_wrapped_dk = wr, ev_header = h, ev_lockout = lo, ev_slots = ?S\<rparr>"
  let ?x = "tick (tick (tick (tick w2)))"
  obtain b where b: "q_envelope_to_vec Q ?e = Inr b"
    "save_envelope Q E ?e ?x = (Inr (), (tick ?x)\<lparr>cw_trace := b # cw_trace ?x, cw_tmp := None, cw_file := Some b\<rparr>)"
    by (rule save_works [OF ff])
  define w3 where "w3 = (tick ?x)\<lparr>cw_trace := b # cw_trace ?x, cw_tmp := None, cw_file := Some b\<rparr>"
  have ks: "cw_keyring w3 = (cw_keyring w0)(KEYRING_MASTER_ACCOUNT \<mapsto> ?mek)" "cw_file w3 = Some b" "cw_tick w3 = cw_tick w0 + 10"
    "cw_session w3 = cw_session w0" "cw_autolock_secs w3 = cw_autolock_secs w0"
    by (simp_all add: w3_def w2_def w1_def tick_def)
  let ?w = "tick (tick (w3\<lparr>cw_keyring := (cw_keyring w3)(KEYRING_GENERATION_ACCOUNT \<mapsto> be_bytes 8 0)\<rparr>))"
  have sd: "seed_anchor E KEYRING_GENERATION_ACCOUNT 0 w3 = (Inr (), ?w)"
    by (rule seed_works [OF ff]) (use cl ks account_names in \<open>simp add: clean_keyring_def\<close>)
  have t1: "cw_tick w1 = cw_tick w0 + 3" "cw_tick (tick w1) = cw_tick w0 + 4" by (simp_all add: w1_def tick_def)
  have ni: "\<not> is_initialized w0" using f(1) by (simp add: is_initialized_def)
  have fb: "fill_bytes E SALT_LEN w1 = (?salt, tick w1)"
    "fill_bytes E KEY_LEN ((tick w1)\<lparr>cw_kdf := Suc (cw_kdf w1)\<rparr>) = (?dek, w2)"
    using t1 by (simp_all add: fill_bytes_def w2_def)
  have dk: "derive_key_counted Q p ?salt (tick w1) = (Inr kek, (tick w1)\<lparr>cw_kdf := Suc (cw_kdf w1)\<rparr>)"
    using k fault_freeD(4) [OF ff] by (simp add: derive_key_counted_def derive_key_def derives_def)
  have "vault_init Q E p w0 = (Inr (), ?w)"
    using ni m fb dk wr ch h lo b(2) sd by (simp add: vault_init_def init_inner_def Let_def w3_def [symmetric])
  moreover have "intact Q ?mek ?dek p 0 ?l (\<lambda>_. None) ?w"
  proof -
    have wf: "bt_wf ?S" by (simp add: bt_wf_def)
    have oh: "opened_header Q ?dek ?e = Some \<lparr>hd_generation = 0, hd_slots = fingerprint ?S\<rparr>"
      by (rule seal_header_at(2) [OF law wf h]) simp_all
    have ol: "open_lockout Q ?mek ?e = Inr ?l" by (rule seal_lockout_at(2) [OF law lo]) simp_all
    have un: "unseal Q x wr (aad ENVELOPE_VERSION AAD_WRAPPED_DK) = Inr d \<longleftrightarrow> x = combine_keys ?mek kek \<and> d = ?dek" for x d
      using seal_still(3) [OF aead wr refl] rl [of "cw_tick w2" NONCE_LEN] by auto
    have uc: "unseal Q ?dek ch (aad ENVELOPE_VERSION CHECK_SLOT) = Inr CHECK_PLAINTEXT"
      using seal_still(3) [OF aead ch refl] rl by simp
    have "intact_env Q ?mek ?dek kek 0 ?l (\<lambda>_. None) ?e"
      unfolding intact_env_def using wf oh ol un uc by (simp add: bt_get_def)
    moreover have "q_envelope_from_slice Q b = Some ?e" using custody_lawD(6) [OF law _ b(1)] wf by simp
    ultimately show ?thesis
      using k ks cl account_names rl unfolding intact_def
      by (auto simp: tick_def anchored_def throttle_at_def lockout_default_def clean_keyring_def)
  qed
  ultimately show thesis
    by (rule that) (use ks cl in \<open>simp_all add: tick_def clean_keyring_def\<close>)
qed


end
