(* ===== verification/CustodyProps.thy ===== *)
theory CustodyProps
  imports CustodyLive
begin

text \<open>
  What the vault promises: it serves only what was stored last, it is a plain store while nothing fails, a webview cannot reach
  the backend's slots, an unlock tells a guesser nothing, an existing vault is never replaced; and
  what the loss of the throttle's anchor does.
\<close>

section \<open>Freshness\<close>

lemma read_slot_fresh:
  assumes inv: "vault_inv Q E mek dek \<sigma> w" and r: "read_slot Q E slot w = (Inr v, w')"
  shows "\<sigma> slot = Some v"
proof -
  have n: "\<not> reserved_name slot" using r by (auto simp: read_slot_def split: if_splits)
  obtain k w1 env w2 where k: "with_session_key E w = (Inr k, w1)" and l: "load_envelope Q E w1 = (Inr env, w2)"
    and rl: "read_loaded Q E slot k env w2 = (Inr v, w')"
    using r n by (auto simp: read_slot_def rpc_then_Inr)
  have s: "still w w1" "k = dek" using with_session_key_still [OF k] vault_invD(5) [OF inv] by auto
  have "known Q mek dek (cw_trace w1) env" using load_envelope_still [OF l] vault_invD(4) [OF still_inv [OF inv s(1)]] by blast
  moreover have t: "still w1 w2" using load_envelope_still [OF l] by blast
  ultimately have "known Q mek dek (cw_trace w2) env" by (simp add: still_known)
  then show ?thesis
    using read_loaded_fresh(2) [OF still_inv [OF inv still_trans [OF s(1) t]] _ rl [unfolded s(2)] reserved_check [OF n] refl] by blast
qed

text \<open>
  C5. The vault never serves a stale or a forged value. Take any history of a vault: unlocks, stores, deletions, reads in progress
  while other calls run, restarts, failures of the key ring and of the disk at any point, and an adversary who replaces the files at
  will with whatever opens to nothing or to something the vault itself once sealed for that place (old
  files and pieces of old files included). If a read answers with bytes, they are the newest value stored under that name,
  also when the read loaded its envelope earlier in the history.
\<close>

theorem vault_reads_fresh:
  assumes "custody_law Q E" and "vault_run Q E mek dek y"
  shows "(read_slot Q E slot (vs_world y) = (Inr v, w') \<longrightarrow> vs_store y slot = Some v) \<and>
    (\<forall>(k, env)\<in>set (vs_reads y). \<not> reserved_name slot \<longrightarrow>
       read_loaded Q E slot k env (vs_world y) = (Inr v, w') \<longrightarrow> vs_store y slot = Some v)"
proof -
  note inv = vault_run_inv [OF assms]
  have "vs_store y slot = Some v"
    if "(k, env) \<in> set (vs_reads y)" "\<not> reserved_name slot" "read_loaded Q E slot k env (vs_world y) = (Inr v, w')" for k env
  proof -
    have "k = dek" "known Q mek dek (cw_trace (vs_world y)) env" using inv(2) that(1) by (auto simp: reads_inv_def)
    then show ?thesis using read_loaded_fresh(2) [OF inv(1) _ _ reserved_check [OF that(2)] refl] that(3) by blast
  qed
  then show ?thesis using read_slot_fresh [OF inv(1)] by blast
qed

text \<open>
  C7. The webview cannot plant or overwrite a backend secret. After any history, whatever a webview asks \<open>custody_put\<close> to store,
  a later read of a slot reserved for the backend answers only what the backend had stored there.
\<close>

theorem webview_cannot_plant:
  assumes "custody_law Q E" and "vault_run Q E mek dek y" and "nonces_fresh E (cw_tick w')"
    and "custody_put_sync Q E slot v (vs_world y) = (r, w')" and "is_backend_reserved_slot secret"
    and "read_slot Q E secret w' = (Inr x, w'')"
  shows "vs_store y secret = Some x"
proof (cases "is_backend_reserved_slot slot")
  case True
  then have "w' = vs_world y" using assms(4) by (simp add: custody_put_sync_def invoke_put_def)
  then show ?thesis using read_slot_fresh [OF vault_run_inv(1) [OF assms(1,2)]] assms(6) by blast
next
  case False
  obtain q where p: "vault_put Q E slot v (vs_world y) = (q, w')"
    using assms(4) False by (cases "vault_put Q E slot v (vs_world y)") (auto simp: custody_put_sync_def invoke_put_def custody_err_def)
  have "store_after (vs_world y) w' slot (Some v) (vs_store y) secret = Some x"
    using read_slot_fresh [OF put_inv [OF assms(1) vault_run_inv(1) [OF assms(1,2)] assms(3) p] assms(6)] .
  moreover have "secret \<noteq> slot" using assms(5) False by auto
  ultimately show ?thesis by (simp add: store_after_def split: if_splits)
qed

section \<open>A plain store\<close>

text \<open>
  C26. While the key ring, the disk and the crates work, an unlocked vault is a store: a value put under a name is accepted, every
  name then reads what the updated store holds (an absent one is denied), and clearing the name removes it and nothing else.
\<close>

theorem vault_is_a_store:
  assumes law: "custody_law Q E" and ff: "fault_free Q E" and i: "intact Q mek dek p g l \<sigma> w" and a: "awake E dek w"
    and n: "\<not> reserved_name slot" "\<not> is_reserved_domain_tag slot" and g: "g + 1 < u64_max"
  shows "\<exists>w1 w2. vault_put Q E slot v w = (Inr (), w1) \<and>
    (\<forall>name. \<not> reserved_name name \<longrightarrow> fst (read_slot Q E name w1) = ok_or Denied ((\<sigma>(slot \<mapsto> v)) name)) \<and>
    clear_slot Q E slot w1 = (Inr (), w2) \<and>
    (\<forall>name. \<not> reserved_name name \<longrightarrow> fst (read_slot Q E name w2) = ok_or Denied ((\<sigma>(slot := None)) name))"
proof -
  obtain w1 where w1: "vault_put Q E slot v w = (Inr (), w1)" "intact Q mek dek p (g + 1) l (\<sigma>(slot \<mapsto> v)) w1" "awake E dek w1"
    by (rule put_works [OF law ff i a n]) (use g in simp)
  obtain w2 g' where w2: "clear_slot Q E slot w1 = (Inr (), w2)" "intact Q mek dek p g' l (\<sigma>(slot \<mapsto> v, slot := None)) w2" "awake E dek w2"
    by (rule clear_works [OF law ff w1(2,3) n(1) g])
  have "fst (read_slot Q E name w1) = ok_or Denied ((\<sigma>(slot \<mapsto> v)) name)" if "\<not> reserved_name name" for name
    using read_works [OF ff w1(2,3) that] by fastforce
  moreover have "fst (read_slot Q E name w2) = ok_or Denied ((\<sigma>(slot := None)) name)" if "\<not> reserved_name name" for name
    using read_works [OF ff w2(2,3) that] by (metis fst_conv fun_upd_upd)
  ultimately show ?thesis using w1(1) w2(1) by blast
qed

section \<open>What a guesser learns\<close>

text \<open>
  C27. No oracle. An unlock with a wrong passphrase and an unlock of a vault that does not exist give the same answer, the opaque
  denial, and cost the same one derivation of a key; the right passphrase opens the vault, also after wrong guesses below
  the limit; and after the fifth wrong one in a row the vault is locked out, which costs no derivation.
\<close>

theorem unlock_answers:
  assumes law: "custody_law Q E" and ff: "fault_free Q E" and i: "intact Q mek dek p g l \<sigma> w" and d: "differs Q p p'"
    and g: "lk_generation l < u64_max" and f: "lk_failures l < MAX_ATTEMPTS" "lk_locked_until_ms l = None"
    and e: "cw_file w0 = None"
  shows "\<exists>w1 w2. vault_unlock Q E p' w = (Inl Denied, w1) \<and> cw_kdf w1 = Suc (cw_kdf w) \<and>
    vault_unlock Q E p' w0 = (Inl Denied, w0\<lparr>cw_kdf := Suc (cw_kdf w0)\<rparr>) \<and>
    vault_unlock Q E p w = (Inr (), w2) \<and> (\<exists>s. cw_session w2 = Some s \<and> se_data_key s = dek) \<and>
    (lk_failures l + 1 = MAX_ATTEMPTS \<and> ce_now_ms E (cw_tick w1 + 4) < (ce_now_ms E (cw_tick w + 4) + LOCKOUT_COOLOFF_MS) mod 2 ^ 64 \<longrightarrow>
       (\<forall>q. fst (vault_unlock Q E q w1) = Inl LockedOut \<and> cw_kdf (snd (vault_unlock Q E q w1)) = cw_kdf w1))"
proof -
  obtain w1 t where w1: "vault_unlock Q E p' w = (Inl Denied, w1)" "cw_kdf w1 = Suc (cw_kdf w)"
    "intact Q mek dek p g (counted E t (lk_generation l + 1) l) \<sigma> w1" "t = cw_tick w + 4"
    by (rule unlock_wrong [OF law ff i d, of l]) (use f g in auto)
  obtain w2 s where w2: "vault_unlock Q E p w = (Inr (), w2)" "cw_session w2 = Some s" "se_data_key s = dek"
    by (rule unlock_works [OF law ff i f(2) g])
  have "vault_unlock Q E p' w0 = (Inl Denied, w0\<lparr>cw_kdf := Suc (cw_kdf w0)\<rparr>)"
    using e by (simp add: vault_unlock_def unlock_inner_def is_initialized_def derive_key_counted_def)
  moreover have "fst (vault_unlock Q E q w1) = Inl LockedOut \<and> cw_kdf (snd (vault_unlock Q E q w1)) = cw_kdf w1"
    if "lk_failures l + 1 = MAX_ATTEMPTS" "ce_now_ms E (cw_tick w1 + 4) < (ce_now_ms E (cw_tick w + 4) + LOCKOUT_COOLOFF_MS) mod 2 ^ 64" for q
  proof -
    have it: "intact Q mek dek p g (counted E (cw_tick w + 4) (lk_generation l + 1) l) \<sigma> w1" (is "intact Q mek dek p g ?l \<sigma> w1")
      using w1(3,4) by simp
    obtain env kek where ek: "load_envelope Q E (tick w1) = (Inr env, tick (tick w1))" "intact_env Q mek dek kek g ?l \<sigma> env"
      using intact_envelope [OF ff intact_waits [OF it waits_tick [OF waits_refl]]] by blast
    show ?thesis using unlock_reaches_throttle [OF ff it ek, of q] that by (simp add: counted_def)
  qed
  ultimately show ?thesis using w1(1,2) w2 by blast
qed

section \<open>An existing vault\<close>

text \<open>
  Making a vault never replaces one. If there is an envelope file, or only a master key is left in the key ring, \<open>init\<close> fails
  and leaves the key ring, the file and what was handed to the disk as they were, whatever the passphrase and whichever calls fail.
\<close>

theorem init_replaces_nothing:
  assumes "is_initialized w \<or> cw_keyring w KEYRING_MASTER_ACCOUNT \<noteq> None" and "vault_init Q E p w = (r, w')"
  shows "(\<exists>e. r = Inl e) \<and> cw_keyring w' = cw_keyring w \<and> cw_file w' = cw_file w \<and> cw_trace w' = cw_trace w"
proof (cases "is_initialized w")
  case True
  then show ?thesis using assms(2) by (auto simp: vault_init_def init_inner_def)
next
  case False
  then obtain k where k: "cw_keyring w KEYRING_MASTER_ACCOUNT = Some k" using assms(1) by auto
  have m: "\<exists>e. mint_master_key E w = (Inl e, tick w)"
    using k by (cases "ce_keyring_ok E (cw_tick w)") (auto simp: mint_master_key_def keyring_get_def)
  then show ?thesis using assms(2) False by (auto simp: vault_init_def init_inner_def tick_def)
qed

section \<open>The loss of the throttle's anchor\<close>

text \<open>
  C28. Deleting the throttle's anchor is not noticed. Let a vault be locked out after wrong guesses. Someone who
  deletes the one key-ring entry \<open>custody-lockout-generation\<close> and puts back the envelope from before the guesses gets the throttle
  reset: a further wrong guess is tried (one derivation, denied) instead of being refused, and the
  right passphrase opens the vault at once. The master-sealed bit does not help, since it is checked
  against the other anchor only.
\<close>

theorem lost_throttle_anchor_resets_the_throttle:
  assumes law: "custody_law Q E" and ff: "fault_free Q E" and d: "differs Q p p'"
    and before: "intact Q mek dek p g l \<sigma> w" "lk_generation l = 0" "lk_failures l = 0" "lk_locked_until_ms l = None"
    and locked: "intact Q mek dek p g l' \<sigma> w'" "lk_locked_until_ms l' = Some t" "ce_now_ms E (cw_tick w' + 4) < t"
    and evil: "w'' = w'\<lparr>cw_file := cw_file w, cw_keyring := (cw_keyring w')(KEYRING_LOCKOUT_GEN_ACCOUNT := None)\<rparr>"
  shows "fst (vault_unlock Q E p w') = Inl LockedOut \<and>
    (\<exists>x. vault_unlock Q E p' w'' = (Inl Denied, x) \<and> cw_kdf x = Suc (cw_kdf w'')) \<and> fst (vault_unlock Q E p w'') = Inr ()"
proof -
  have i: "intact Q mek dek p g l \<sigma> w''"
    using before(1,2) locked(1) account_names unfolding intact_def evil by (auto simp: anchored_def throttle_at_def)
  have g: "lk_generation l < u64_max" using before(2) by (simp add: u64_max_def)
  obtain env kek where ek: "load_envelope Q E (tick w') = (Inr env, tick (tick w'))" "intact_env Q mek dek kek g l' \<sigma> env"
    using intact_envelope [OF ff intact_waits [OF locked(1) waits_tick [OF waits_refl]]] by blast
  have "fst (vault_unlock Q E p w') = Inl LockedOut"
    using unlock_reaches_throttle [OF ff locked(1) ek, of p] locked(2,3) by simp
  moreover have "\<exists>x. vault_unlock Q E p' w'' = (Inl Denied, x) \<and> cw_kdf x = Suc (cw_kdf w'')"
    by (rule unlock_wrong [OF law ff i d, of l]) (use before(3,4) g in \<open>auto simp: MAX_ATTEMPTS_def\<close>)
  moreover have "fst (vault_unlock Q E p w'') = Inr ()"
    by (rule unlock_works [OF law ff i before(4) g]) simp
  ultimately show ?thesis by blast
qed

end
