(* ===== verification/CustodyDemo.thy ===== *)
theory CustodyDemo
  imports CustodyProps "HOL-Library.Countable"
begin

text \<open>
  The results about the vault on concrete inputs: crates that satisfy the laws, an environment without faults, a
  vault that is made, guessed at, opened, written and read.
\<close>

section \<open>Concrete crates\<close>

text \<open>What the vault encodes is finite data over bytes and numbers, so it can be numbered; an encoding is a row of as many
  zero bytes as its number says. A sealed message carries the number of its key, nonce, associated data and text.\<close>

instance SealedSlot_ext :: (countable) countable
  by (rule countable_classI [of "\<lambda>r. to_nat (ss_nonce r, ss_ct r, SealedSlot.more r)"]) simp

instance CustodyEnvelope_ext :: (countable) countable
  by (rule countable_classI [of "\<lambda>r. to_nat (ev_version r, ev_salt r, ev_wrapped_dk r, ev_header r, ev_lockout r, ev_slots r,
       CustodyEnvelope.more r)"]) simp

instance Header_ext :: (countable) countable
  by (rule countable_classI [of "\<lambda>r. to_nat (hd_generation r, hd_slots r, Header.more r)"]) simp

instance LockoutState_ext :: (countable) countable
  by (rule countable_classI [of "\<lambda>r. to_nat (lk_failures r, lk_locked_until_ms r, lk_generation r, lk_anchor_initialized r,
       LockoutState.more r)"]) simp

definition demo_enc :: "'a::countable \<Rightarrow> bytes" where
  "demo_enc x = replicate (to_nat x) 0"

definition demo_dec :: "bytes \<Rightarrow> 'a::countable" where
  "demo_dec b = from_nat (length b)"

lemma demo_dec_enc [simp]: "demo_dec (demo_enc x) = x"
  by (simp add: demo_dec_def demo_enc_def)

lemma demo_enc_inj [simp]: "demo_enc x = demo_enc y \<longleftrightarrow> x = y"
  by (metis demo_dec_enc)

definition demo_right :: bytes where "demo_right = as_bytes ''correct horse''"
definition demo_wrong :: bytes where "demo_wrong = as_bytes ''battery staple''"

definition demo_lib :: custody_lib where
  "demo_lib =
     \<lparr>q_params_error = None,
      q_hash_password = \<lambda>p salt. Some (replicate KEY_LEN (if p = demo_right then 1 else 0)),
      q_encrypt = \<lambda>k n a m. Some (demo_enc (k, n, a, m)),
      q_decrypt = \<lambda>k n a ct. (let (k', n', a', m) = demo_dec ct in
        if (k', n', a') = (k, n, a) \<and> ct = demo_enc (k, n, a, m) then Some m else None),
      q_header_to_vec = \<lambda>h. Inr (demo_enc h),
      q_header_from_slice = \<lambda>b. if bt_wf (hd_slots (demo_dec b :: Header)) then Some (demo_dec b) else None,
      q_lockout_to_vec = \<lambda>l. Inr (demo_enc l),
      q_lockout_from_slice = \<lambda>b. Some (demo_dec b),
      q_envelope_to_vec = \<lambda>env. Inr (demo_enc env),
      q_envelope_from_slice = \<lambda>b. if bt_wf (ev_slots (demo_dec b :: CustodyEnvelope)) then Some (demo_dec b) else None\<rparr>"

text \<open>Random bytes count the interactions, and the clock advances by \<open>rate\<close> milliseconds with each.\<close>

definition demo_world :: "nat \<Rightarrow> custody_env" where
  "demo_world rate =
     \<lparr>ce_keyring_ok = \<lambda>_. True, ce_stored = \<lambda>_. True, ce_random = \<lambda>t n. be_bytes n t, ce_read_ok = \<lambda>_. True,
      ce_save = \<lambda>_. None, ce_now_ms = \<lambda>t. min (rate * t) (2 ^ 62), ce_instant = \<lambda>t. t\<rparr>"

lemma demo_law: "custody_law demo_lib (demo_world r)"
proof -
  have "aead_law demo_lib"
    by (auto simp: aead_law_def demo_lib_def Let_def split: prod.splits if_splits)
  moreover have "codec_law (\<lambda>h. bt_wf (hd_slots h)) (q_header_to_vec demo_lib) (q_header_from_slice demo_lib)"
    "codec_law (\<lambda>l. True) (q_lockout_to_vec demo_lib) (q_lockout_from_slice demo_lib)"
    "codec_law (\<lambda>env. bt_wf (ev_slots env)) (q_envelope_to_vec demo_lib) (q_envelope_from_slice demo_lib)"
    by (auto simp: codec_law_def demo_lib_def split: if_splits)
  ultimately show ?thesis by (simp add: custody_law_def demo_world_def)
qed

lemma demo_fault_free: "fault_free demo_lib (demo_world r)"
  by (simp add: fault_free_def demo_lib_def demo_world_def)

lemma demo_steady: "steady demo_lib (demo_world r)"
proof -
  have "mono (\<lambda>t. min (r * t) (2 ^ 62))" by (intro monoI min.mono) simp_all
  then show ?thesis by (auto simp: steady_def demo_lib_def demo_world_def LOCKOUT_COOLOFF_MS_def min_def)
qed

lemma demo_fresh: "n < u64_max \<Longrightarrow> nonces_fresh (demo_world r) n"
proof -
  assume n: "n < u64_max"
  have "s = t" if "be_bytes NONCE_LEN s = be_bytes NONCE_LEN t" "s < n" "t < n" for s t
  proof -
    have "s mod 256 ^ 12 = t mod 256 ^ 12" using arg_cong [OF that(1), of be_val] by (simp add: be_val_be_bytes NONCE_LEN_def)
    then show ?thesis using that(2,3) n by (simp add: u64_max_def)
  qed
  then show "nonces_fresh (demo_world r) n" using n by (auto simp: nonces_fresh_def inj_on_def demo_world_def)
qed

lemma demo_derives: "\<exists>k. derives demo_lib p salt k"
  by (simp add: derives_def demo_lib_def KEY_LEN_def)

lemma demo_differs: "differs demo_lib demo_right demo_wrong"
proof -
  have "demo_wrong \<noteq> demo_right" by code_simp
  then show ?thesis by (simp add: differs_def derives_def demo_lib_def KEY_LEN_def)
qed

section \<open>A vault\<close>

definition demo_start :: custody_world where
  "demo_start = vault_new (\<lambda>_. None) None 0"

definition demo_mek :: bytes where "demo_mek = be_bytes KEY_LEN 1"
definition demo_dek :: bytes where "demo_dek = be_bytes KEY_LEN 4"

abbreviation "demo_new \<equiv> lockout_default\<lparr>lk_anchor_initialized := Some True\<rparr>"

lemma demo_made:
  obtains w where "vault_init demo_lib (demo_world r) demo_right demo_start = (Inr (), w)"
    "intact demo_lib demo_mek demo_dek demo_right 0 demo_new (\<lambda>_. None) w" "cw_autolock_secs w = 0" "cw_tick w = 12"
    "vault_run demo_lib (demo_world r) demo_mek demo_dek \<lparr>vs_world = w, vs_store = \<lambda>_. None, vs_reads = [], vs_wrong = []\<rparr>"
proof -
  have c: "clean_keyring demo_start" "cw_file demo_start = None" "cw_keyring demo_start KEYRING_MASTER_ACCOUNT = None"
    "cw_tick demo_start = 0" "cw_autolock_secs demo_start = 0"
    by (simp_all add: clean_keyring_def demo_start_def vault_new_def)
  obtain w where w: "vault_init demo_lib (demo_world r) demo_right demo_start = (Inr (), w)"
    "intact demo_lib demo_mek demo_dek demo_right 0 demo_new (\<lambda>_. None) w" "cw_autolock_secs w = 0" "cw_tick w = 12"
    by (rule init_works [OF demo_law demo_fault_free c(2,3,1) demo_derives])
      (use c in \<open>auto simp: demo_mek_def demo_dek_def demo_world_def\<close>)
  have "nonces_fresh (demo_world r) (cw_tick w)" by (rule demo_fresh) (simp add: w(4) u64_max_def)
  then have "vault_run demo_lib (demo_world r) demo_mek demo_dek \<lparr>vs_world = w, vs_store = \<lambda>_. None, vs_reads = [], vs_wrong = []\<rparr>"
    using vault_run.start [OF c(1) w(1)] c(4) by (simp add: demo_mek_def demo_dek_def demo_world_def)
  then show thesis using that w by blast
qed

section \<open>A vault with a secret\<close>

definition demo_token :: bytes where "demo_token = as_bytes ''token''"

lemma demo_stored:
  obtains y l where "vault_run demo_lib (demo_world r) demo_mek demo_dek y"
    "intact demo_lib demo_mek demo_dek demo_right 1 l [''oidc-refresh'' \<mapsto> demo_token] (vs_world y)"
    "awake (demo_world r) demo_dek (vs_world y)" "cw_tick (vs_world y) \<le> 35"
proof -
  note law = demo_law [of r] and ff = demo_fault_free [of r]
  obtain w where w: "intact demo_lib demo_mek demo_dek demo_right 0 demo_new (\<lambda>_. None) w" "cw_autolock_secs w = 0" "cw_tick w = 12"
    "vault_run demo_lib (demo_world r) demo_mek demo_dek \<lparr>vs_world = w, vs_store = \<lambda>_. None, vs_reads = [], vs_wrong = []\<rparr>"
    by (rule demo_made [of r])
  have n: "lk_locked_until_ms demo_new = None" "lk_generation demo_new < u64_max" by (simp_all add: lockout_default_def u64_max_def)
  obtain w1 s l where w1: "vault_unlock demo_lib (demo_world r) demo_right w = (Inr (), w1)"
    "intact demo_lib demo_mek demo_dek demo_right 0 l (\<lambda>_. None) w1" "cw_session w1 = Some s" "se_data_key s = demo_dek"
    "cw_autolock_secs w1 = cw_autolock_secs w" "cw_tick w1 \<le> cw_tick w + 12"
    by (rule unlock_works [OF law ff w(1) n])
  have aw: "awake (demo_world r) demo_dek w1" using w1 w(2) by (simp add: awake_def)
  have nr: "\<not> reserved_name ''oidc-refresh''" "\<not> is_reserved_domain_tag ''oidc-refresh''" by code_simp+
  obtain w2 where w2: "vault_put demo_lib (demo_world r) ''oidc-refresh'' demo_token w1 = (Inr (), w2)"
    "intact demo_lib demo_mek demo_dek demo_right (0 + 1) l [''oidc-refresh'' \<mapsto> demo_token] w2" "awake (demo_world r) demo_dek w2"
    "cw_tick w2 \<le> cw_tick w1 + 11"
    by (rule put_works [OF law ff w1(2) aw nr]) (simp add: u64_max_def)
  have t: "cw_tick w1 < u64_max" "cw_tick w2 < u64_max" using w(3) w1(6) w2(4) by (simp_all add: u64_max_def)
  have r1: "vault_run demo_lib (demo_world r) demo_mek demo_dek
      (\<lparr>vs_world = w1, vs_store = \<lambda>_. None, vs_reads = [], vs_wrong = guesses_after (demo_world r) w (Inr ()) w1 []\<rparr>)"
    using vault_run.step [OF w(4) vault_step.unlock, of demo_right "Inr ()" w1] w1(1) demo_fresh [OF t(1)] by simp
  have r2: "vault_run demo_lib (demo_world r) demo_mek demo_dek
      (\<lparr>vs_world = w2, vs_store = store_after w1 w2 ''oidc-refresh'' (Some demo_token) (\<lambda>_. None), vs_reads = [],
        vs_wrong = guesses_after (demo_world r) w (Inr ()) w1 []\<rparr>)"
    using vault_run.step [OF r1 vault_step.put, of "''oidc-refresh''" demo_token "Inr ()" w2] w2(1) demo_fresh [OF t(2)] by simp
  show thesis by (rule that [OF r2, of l]) (use w w1(6) w2 in simp_all)
qed

theorem vault_reads_fresh_witness:
  "\<exists>y w'. vault_run demo_lib (demo_world 0) demo_mek demo_dek y \<and>
    read_slot demo_lib (demo_world 0) ''oidc-refresh'' (vs_world y) = (Inr demo_token, w') \<and>
    vs_store y ''oidc-refresh'' = Some demo_token"
proof -
  obtain y l where y: "vault_run demo_lib (demo_world 0) demo_mek demo_dek y"
    "intact demo_lib demo_mek demo_dek demo_right 1 l [''oidc-refresh'' \<mapsto> demo_token] (vs_world y)"
    "awake (demo_world 0) demo_dek (vs_world y)" by (rule demo_stored [of 0])
  have nr: "\<not> reserved_name ''oidc-refresh''" by code_simp
  obtain w' where "read_slot demo_lib (demo_world 0) ''oidc-refresh'' (vs_world y) = (Inr demo_token, w')"
    by (rule read_works [OF demo_fault_free y(2,3) nr]) simp
  then show ?thesis using vault_reads_fresh [OF demo_law y(1), of "''oidc-refresh''" demo_token w'] y(1) by blast
qed

theorem webview_cannot_plant_witness:
  "\<exists>y w' w''. vault_run demo_lib (demo_world 0) demo_mek demo_dek y \<and>
    custody_put_sync demo_lib (demo_world 0) ''page'' [7] (vs_world y) = (Inr (), w') \<and>
    read_slot demo_lib (demo_world 0) ''oidc-refresh'' w' = (Inr demo_token, w'') \<and> vs_store y ''oidc-refresh'' = Some demo_token"
proof -
  obtain y l where y: "vault_run demo_lib (demo_world 0) demo_mek demo_dek y"
    "intact demo_lib demo_mek demo_dek demo_right 1 l [''oidc-refresh'' \<mapsto> demo_token] (vs_world y)"
    "awake (demo_world 0) demo_dek (vs_world y)" "cw_tick (vs_world y) \<le> 35" by (rule demo_stored [of 0])
  have nr: "\<not> reserved_name ''page''" "\<not> is_reserved_domain_tag ''page''" "\<not> is_backend_reserved_slot ''page''"
    "is_backend_reserved_slot ''oidc-refresh''" "\<not> reserved_name ''oidc-refresh''" by code_simp+
  obtain w' where w': "vault_put demo_lib (demo_world 0) ''page'' [7] (vs_world y) = (Inr (), w')"
    "intact demo_lib demo_mek demo_dek demo_right (1 + 1) l ([''oidc-refresh'' \<mapsto> demo_token](''page'' \<mapsto> [7])) w'"
    "awake (demo_world 0) demo_dek w'" "cw_tick w' \<le> cw_tick (vs_world y) + 11"
    by (rule put_works [OF demo_law demo_fault_free y(2,3) nr(1,2)]) (simp add: u64_max_def)
  have p: "custody_put_sync demo_lib (demo_world 0) ''page'' [7] (vs_world y) = (Inr (), w')"
    using w'(1) nr(3) by (simp add: custody_put_sync_def invoke_put_def custody_err_def)
  have fr: "nonces_fresh (demo_world 0) (cw_tick w')" by (rule demo_fresh) (use w'(4) y(4) in \<open>simp add: u64_max_def\<close>)
  obtain w'' where r: "read_slot demo_lib (demo_world 0) ''oidc-refresh'' w' = (Inr demo_token, w'')"
    by (rule read_works [OF demo_fault_free w'(2,3) nr(5)]) simp
  show ?thesis using webview_cannot_plant [OF demo_law y(1) fr p nr(4) r] y(1) p r by blast
qed

theorem vault_is_a_store_witness:
  "\<exists>w w1 w2. vault_put demo_lib (demo_world 0) ''wallet-entropy-0'' [1, 2] w = (Inr (), w1) \<and>
    fst (read_slot demo_lib (demo_world 0) ''wallet-entropy-0'' w1) = Inr [1, 2] \<and>
    clear_slot demo_lib (demo_world 0) ''wallet-entropy-0'' w1 = (Inr (), w2) \<and>
    fst (read_slot demo_lib (demo_world 0) ''wallet-entropy-0'' w2) = Inl Denied \<and>
    fst (read_slot demo_lib (demo_world 0) ''oidc-refresh'' w2) = Inr demo_token"
proof -
  obtain y :: vault_sys and l where y: "intact demo_lib demo_mek demo_dek demo_right 1 l [''oidc-refresh'' \<mapsto> demo_token] (vs_world y)"
    "awake (demo_world 0) demo_dek (vs_world y)" by (rule demo_stored [of 0])
  have nr: "\<not> reserved_name ''wallet-entropy-0''" "\<not> is_reserved_domain_tag ''wallet-entropy-0''" "\<not> reserved_name ''oidc-refresh''"
    by code_simp+
  obtain w1 w2 where w: "vault_put demo_lib (demo_world 0) ''wallet-entropy-0'' [1, 2] (vs_world y) = (Inr (), w1)"
    "\<And>name. \<not> reserved_name name \<Longrightarrow> fst (read_slot demo_lib (demo_world 0) name w1)
       = ok_or Denied (([''oidc-refresh'' \<mapsto> demo_token](''wallet-entropy-0'' \<mapsto> [1, 2])) name)"
    "clear_slot demo_lib (demo_world 0) ''wallet-entropy-0'' w1 = (Inr (), w2)"
    "\<And>name. \<not> reserved_name name \<Longrightarrow> fst (read_slot demo_lib (demo_world 0) name w2)
       = ok_or Denied (([''oidc-refresh'' \<mapsto> demo_token](''wallet-entropy-0'' := None)) name)"
    using vault_is_a_store [OF demo_law demo_fault_free y nr(1,2), of "[1, 2]"] by (auto simp: u64_max_def)
  show ?thesis using w(1,3) w(2) [OF nr(1)] w(4) [OF nr(1)] w(4) [OF nr(3)] by auto
qed


section \<open>Guesses\<close>

theorem unlock_answers_witness:
  "\<exists>w w1 w2. vault_unlock demo_lib (demo_world 0) demo_wrong w = (Inl Denied, w1) \<and> cw_kdf w1 = Suc (cw_kdf w) \<and>
    fst (vault_unlock demo_lib (demo_world 0) demo_wrong demo_start) = Inl Denied \<and>
    vault_unlock demo_lib (demo_world 0) demo_right w = (Inr (), w2) \<and> cw_session w2 \<noteq> None"
proof -
  obtain w where w: "intact demo_lib demo_mek demo_dek demo_right 0 demo_new (\<lambda>_. None) w" by (rule demo_made [of 0])
  have "cw_file demo_start = None" by (simp add: demo_start_def vault_new_def)
  note ans = unlock_answers [OF demo_law [of 0] demo_fault_free w demo_differs _ _ _ this]
  obtain w1 w2 s where "vault_unlock demo_lib (demo_world 0) demo_wrong w = (Inl Denied, w1)" "cw_kdf w1 = Suc (cw_kdf w)"
    "vault_unlock demo_lib (demo_world 0) demo_wrong demo_start = (Inl Denied, demo_start\<lparr>cw_kdf := Suc (cw_kdf demo_start)\<rparr>)"
    "vault_unlock demo_lib (demo_world 0) demo_right w = (Inr (), w2)" "cw_session w2 = Some s"
    using ans by (auto simp: lockout_default_def u64_max_def MAX_ATTEMPTS_def)
  then show ?thesis by (intro exI [of _ w] exI [of _ w1] exI [of _ w2]) simp
qed

theorem init_replaces_nothing_witness:
  "fst (vault_init demo_lib (demo_world 0) demo_right (vault_new [KEYRING_MASTER_ACCOUNT \<mapsto> demo_mek] None 0)) \<noteq> Inr () \<and>
   cw_keyring (snd (vault_init demo_lib (demo_world 0) demo_right (vault_new [KEYRING_MASTER_ACCOUNT \<mapsto> demo_mek] None 0)))
     KEYRING_MASTER_ACCOUNT = Some demo_mek"
  using init_replaces_nothing [of "vault_new [KEYRING_MASTER_ACCOUNT \<mapsto> demo_mek] None 0" demo_lib "demo_world 0" demo_right,
      OF _ prod.collapse [symmetric]]
  by (auto simp: vault_new_def)

text \<open>A wrong guess as a step of a history.\<close>

lemma demo_guess:
  assumes y: "vault_run demo_lib (demo_world r) demo_mek demo_dek y"
    and i: "intact demo_lib demo_mek demo_dek demo_right g b \<sigma> (vs_world y)"
    and l: "lk_locked_until_ms b = None \<and> lk_failures b < MAX_ATTEMPTS \<and> l = b \<or>
      (\<exists>t. lk_locked_until_ms b = Some t \<and> t \<le> ce_now_ms (demo_world r) (cw_tick (vs_world y) + 4) \<and>
        l = b\<lparr>lk_failures := 0, lk_locked_until_ms := None\<rparr>)"
    and n: "lk_generation b < 100" "cw_tick (vs_world y) < 100"
  obtains y' t where "vault_run demo_lib (demo_world r) demo_mek demo_dek y'"
    "intact demo_lib demo_mek demo_dek demo_right g (counted (demo_world r) t (lk_generation b + 1) l) \<sigma> (vs_world y')"
    "length (vs_wrong y') = Suc (length (vs_wrong y))" "cw_tick (vs_world y') \<le> cw_tick (vs_world y) + 11" "t \<le> cw_tick (vs_world y')"
proof -
  have gm: "lk_generation b < u64_max" using n by (simp add: u64_max_def)
  obtain w' t where w': "vault_unlock demo_lib (demo_world r) demo_wrong (vs_world y) = (Inl Denied, w')"
    "intact demo_lib demo_mek demo_dek demo_right g (counted (demo_world r) t (lk_generation b + 1) l) \<sigma> w'"
    "cw_kdf w' = Suc (cw_kdf (vs_world y))" "cw_tick w' \<le> cw_tick (vs_world y) + 11" "t \<le> cw_tick w'"
    by (rule unlock_wrong [OF demo_law demo_fault_free i demo_differs l gm])
  have "is_initialized (vs_world y)" using i by (auto simp: intact_def is_initialized_def)
  then have len: "length (guesses_after (demo_world r) (vs_world y) (Inl Denied) w' (vs_wrong y)) = Suc (length (vs_wrong y))"
    using w'(3) by (simp add: guesses_after_def)
  have fr: "nonces_fresh (demo_world r) (cw_tick w')" by (rule demo_fresh) (use w'(4) n in \<open>simp add: u64_max_def\<close>)
  let ?y = "y\<lparr>vs_world := w', vs_wrong := guesses_after (demo_world r) (vs_world y) (Inl Denied) w' (vs_wrong y)\<rparr>"
  have "vault_run demo_lib (demo_world r) demo_mek demo_dek ?y"
    using vault_run.step [OF y vault_step.unlock [OF w'(1)]] fr by simp
  then show thesis by (rule that) (use w' len in simp_all)
qed

text \<open>Five of them lock the vault.\<close>

lemma demo_locked:
  obtains w y t where "intact demo_lib demo_mek demo_dek demo_right 0 demo_new (\<lambda>_. None) w"
    "vault_run demo_lib (demo_world r) demo_mek demo_dek y" "length (vs_wrong y) = 5" "t \<le> cw_tick (vs_world y)" "cw_tick (vs_world y) \<le> 67"
    "intact demo_lib demo_mek demo_dek demo_right 0
       \<lparr>lk_failures = 5, lk_locked_until_ms = Some ((ce_now_ms (demo_world r) t + LOCKOUT_COOLOFF_MS) mod 2 ^ 64),
        lk_generation = 5, lk_anchor_initialized = Some True\<rparr> (\<lambda>_. None) (vs_world y)"
proof -
  let ?b = "\<lambda>n. \<lparr>lk_failures = n, lk_locked_until_ms = None, lk_generation = n, lk_anchor_initialized = Some True\<rparr>"
  obtain w where w: "intact demo_lib demo_mek demo_dek demo_right 0 demo_new (\<lambda>_. None) w" "cw_tick w = 12"
    "vault_run demo_lib (demo_world r) demo_mek demo_dek \<lparr>vs_world = w, vs_store = \<lambda>_. None, vs_reads = [], vs_wrong = []\<rparr>"
    by (rule demo_made [of r])
  have "\<exists>y. vault_run demo_lib (demo_world r) demo_mek demo_dek y \<and> intact demo_lib demo_mek demo_dek demo_right 0 (?b n) (\<lambda>_. None) (vs_world y) \<and>
      length (vs_wrong y) = n \<and> cw_tick (vs_world y) \<le> 12 + 11 * n" if "n < 5" for n
    using that
  proof (induction n)
    case 0
    have "demo_new = ?b 0" by (simp add: lockout_default_def)
    then show ?case
      using w by (intro exI [of _ "\<lparr>vs_world = w, vs_store = \<lambda>_. None, vs_reads = [], vs_wrong = []\<rparr>"]) simp
  next
    case (Suc n)
    then obtain y where y: "vault_run demo_lib (demo_world r) demo_mek demo_dek y"
      "intact demo_lib demo_mek demo_dek demo_right 0 (?b n) (\<lambda>_. None) (vs_world y)" "length (vs_wrong y) = n" "cw_tick (vs_world y) \<le> 12 + 11 * n"
      by auto
    have c: "counted (demo_world r) t (n + 1) (?b n) = ?b (Suc n)" for t using Suc.prems by (simp add: counted_def MAX_ATTEMPTS_def)
    have h: "lk_locked_until_ms (?b n) = None \<and> lk_failures (?b n) < MAX_ATTEMPTS \<and> ?b n = ?b n" "lk_generation (?b n) < 100"
      "cw_tick (vs_world y) < 100" using Suc.prems y(4) by (simp_all add: MAX_ATTEMPTS_def)
    obtain y' t where y': "vault_run demo_lib (demo_world r) demo_mek demo_dek y'"
      "intact demo_lib demo_mek demo_dek demo_right 0 (counted (demo_world r) t (lk_generation (?b n) + 1) (?b n)) (\<lambda>_. None) (vs_world y')"
      "length (vs_wrong y') = Suc (length (vs_wrong y))" "cw_tick (vs_world y') \<le> cw_tick (vs_world y) + 11"
      by (rule demo_guess [OF y(1,2) disjI1 [OF h(1)] h(2,3)])
    then show ?case using c y(3,4) by (intro exI [of _ y']) simp
  qed
  from this [of 4] obtain y where y: "vault_run demo_lib (demo_world r) demo_mek demo_dek y"
    "intact demo_lib demo_mek demo_dek demo_right 0 (?b 4) (\<lambda>_. None) (vs_world y)" "length (vs_wrong y) = 4" "cw_tick (vs_world y) \<le> 56"
    by auto
  have h: "lk_locked_until_ms (?b 4) = None \<and> lk_failures (?b 4) < MAX_ATTEMPTS \<and> ?b 4 = ?b 4" "lk_generation (?b 4) < 100"
    "cw_tick (vs_world y) < 100" using y(4) by (simp_all add: MAX_ATTEMPTS_def)
  obtain y' t where y': "vault_run demo_lib (demo_world r) demo_mek demo_dek y'"
    "intact demo_lib demo_mek demo_dek demo_right 0 (counted (demo_world r) t (lk_generation (?b 4) + 1) (?b 4)) (\<lambda>_. None) (vs_world y')"
    "length (vs_wrong y') = Suc (length (vs_wrong y))" "cw_tick (vs_world y') \<le> cw_tick (vs_world y) + 11" "t \<le> cw_tick (vs_world y')"
    by (rule demo_guess [OF y(1,2) disjI1 [OF h(1)] h(2,3)])
  show thesis by (rule that [OF w(1) y'(1) _ y'(5)]) (use y y' in \<open>simp_all add: counted_def MAX_ATTEMPTS_def\<close>)
qed

theorem six_guesses_take_the_cooloff_witness:
  "\<exists>y. vault_run demo_lib (demo_world 300000) demo_mek demo_dek y \<and> length (vs_wrong y) = 6 \<and>
    fst (vs_wrong y ! 5) + LOCKOUT_COOLOFF_MS \<le> snd (vs_wrong y ! 0)"
proof -
  let ?E = "demo_world 300000"
  obtain y t where y: "vault_run demo_lib ?E demo_mek demo_dek y" "length (vs_wrong y) = 5" "t \<le> cw_tick (vs_world y)" "cw_tick (vs_world y) \<le> 67"
    "intact demo_lib demo_mek demo_dek demo_right 0
       \<lparr>lk_failures = 5, lk_locked_until_ms = Some ((ce_now_ms ?E t + LOCKOUT_COOLOFF_MS) mod 2 ^ 64),
        lk_generation = 5, lk_anchor_initialized = Some True\<rparr> (\<lambda>_. None) (vs_world y)"
    (is "intact _ _ _ _ _ ?b _ _")
    by (rule demo_locked [of 300000])
  have "(ce_now_ms ?E t + LOCKOUT_COOLOFF_MS) mod 2 ^ 64 \<le> ce_now_ms ?E (cw_tick (vs_world y) + 4)"
    using y(3,4) by (simp add: demo_world_def LOCKOUT_COOLOFF_MS_def min_def)
  then have l: "\<exists>s. lk_locked_until_ms ?b = Some s \<and> s \<le> ce_now_ms ?E (cw_tick (vs_world y) + 4) \<and>
    ?b\<lparr>lk_failures := 0, lk_locked_until_ms := None\<rparr> = ?b\<lparr>lk_failures := 0, lk_locked_until_ms := None\<rparr>" by simp
  obtain y' where y': "vault_run demo_lib ?E demo_mek demo_dek y'" "length (vs_wrong y') = Suc (length (vs_wrong y))"
    by (rule demo_guess [OF y(1,5) disjI2 [OF l]]) (use y(4) in simp_all)
  show ?thesis
    using six_guesses_take_the_cooloff [OF demo_law demo_steady y'(1), of 0] y' y(2) by (auto simp: MAX_ATTEMPTS_def)
qed

theorem lost_throttle_anchor_resets_the_throttle_witness:
  "\<exists>(w :: custody_world) w'. fst (vault_unlock demo_lib (demo_world 0) demo_right w') = Inl LockedOut \<and>
    fst (vault_unlock demo_lib (demo_world 0) demo_right
      (w'\<lparr>cw_file := cw_file w, cw_keyring := (cw_keyring w')(KEYRING_LOCKOUT_GEN_ACCOUNT := None)\<rparr>)) = Inr ()"
proof -
  let ?E = "demo_world 0"
  obtain w y t where w: "intact demo_lib demo_mek demo_dek demo_right 0 demo_new (\<lambda>_. None) w" and y:
    "intact demo_lib demo_mek demo_dek demo_right 0
       \<lparr>lk_failures = 5, lk_locked_until_ms = Some ((ce_now_ms ?E t + LOCKOUT_COOLOFF_MS) mod 2 ^ 64),
        lk_generation = 5, lk_anchor_initialized = Some True\<rparr> (\<lambda>_. None) (vs_world (y :: vault_sys))"
    by (rule demo_locked [of 0])
  have n: "lk_generation demo_new = 0" "lk_failures demo_new = 0" "lk_locked_until_ms demo_new = None" by (simp_all add: lockout_default_def)
  have k: "ce_now_ms ?E (cw_tick (vs_world y) + 4) < (ce_now_ms ?E t + LOCKOUT_COOLOFF_MS) mod 2 ^ 64"
    by (simp add: demo_world_def LOCKOUT_COOLOFF_MS_def)
  show ?thesis
    using lost_throttle_anchor_resets_the_throttle [OF demo_law [of 0] demo_fault_free demo_differs w n y _ k refl]
    by (intro exI [of _ w] exI [of _ "vs_world y"]) simp
qed


end
