(* ===== verification/Anchor.thy ===== *)
theory Anchor
  imports Ceremony Custody
begin

text \<open>
  \<open>kit/src/ceremony/anchor.rs\<close>: the nightly anchor. A day's commitment waits on a card until a member approves it;
  an approval consumes the card, signs one fixed call with a key of its own from the key ring,
  has the transaction recorded as in flight, and sends it. The state of a call is one record:
  the pending anchors, the vault with its key ring, the RPC client with what it put on the wire, the
  directory of the submitted-transaction record, and the guards' callbacks in the order they were made.
\<close>

section \<open>Constants and errors\<close>

definition ANCHOR_KEY_ACCOUNT :: string where "ANCHOR_KEY_ACCOUNT = ''hermes-anchor-key-v1''"
definition ANCHOR_SELECTOR :: bytes where "ANCHOR_SELECTOR = [0x9e, 0x62, 0x1f, 0x4c]"
definition NIGHTLY_MERKLE :: byte where "NIGHTLY_MERKLE = 2"
definition ANCHOR_CHAIN_ID :: nat where "ANCHOR_CHAIN_ID = CITRATE_CHAIN_ID"
definition ANCHOR_ORIGIN :: string where "ANCHOR_ORIGIN = ''hermes:nightly-anchor''"

datatype AnchorError =
    Keyring
  | KeyCorrupt
  | NoAnchorKey
  | NotAnchorCall string
  | RegistryMismatch
  | DayConflict
  | UnknownAnchor
  | AnchorRpc string
  | Sign
  | AnchorLocked
  | GasOverCap string
  | NotRecorded string

fun anchor_error_text :: "AnchorError \<Rightarrow> string" where
  "anchor_error_text Keyring = ''the OS keyring is unavailable''"
| "anchor_error_text KeyCorrupt = ''the stored anchor key is not usable''"
| "anchor_error_text NoAnchorKey = ''no anchor key has been created yet''"
| "anchor_error_text (NotAnchorCall m) = ''not a nightly anchor call: '' @ m"
| "anchor_error_text RegistryMismatch = ''the destination is not the pinned AnchorRegistry''"
| "anchor_error_text DayConflict = ''another commitment is already pending for that day''"
| "anchor_error_text UnknownAnchor = ''no pending anchor with that id''"
| "anchor_error_text (AnchorRpc m) = ''chain RPC failed: '' @ m"
| "anchor_error_text Sign = ''signing failed''"
| "anchor_error_text AnchorLocked = ''unlock your wallet first; nothing was signed''"
| "anchor_error_text (GasOverCap m) = m @ ''; nothing was signed''"
| "anchor_error_text (NotRecorded m) =
     ''the anchor could not be recorded before sending ('' @ m @ ''); nothing was sent''"

section \<open>The call\<close>

definition anchor_calldata :: "bytes \<Rightarrow> bytes" where
  "anchor_calldata root = ANCHOR_SELECTOR @ (replicate 31 0 @ [NIGHTLY_MERKLE]) @ root"

definition decode_anchor_calldata :: "bytes \<Rightarrow> AnchorError + bytes" where
  "decode_anchor_calldata data =
     (if length data \<noteq> 68 then Inl (NotAnchorCall (''expected 68 bytes, got '' @ show_nat (length data)))
      else if take 4 data \<noteq> ANCHOR_SELECTOR then Inl (NotAnchorCall ''wrong selector'')
      else if list_ex (\<lambda>b. b \<noteq> 0) (take 31 (drop 4 data)) \<or> data ! 35 \<noteq> NIGHTLY_MERKLE
      then Inl (NotAnchorCall ''kind is not NightlyMerkle'')
      else Inr (take 32 (drop 36 data)))"

definition MAX_ANCHOR_DAY :: nat where "MAX_ANCHOR_DAY = 2932896"

definition date_of_day :: "nat \<Rightarrow> string option" where
  "date_of_day day =
     (if day > MAX_ANCHOR_DAY then None
      else
        (let z = day + 719468;
             era = z div 146097;
             doe = z - era * 146097;
             yoe = (doe - doe div 1460 + doe div 36524 - doe div 146096) div 365;
             doy = doe - (365 * yoe + yoe div 4 - yoe div 100);
             mp = (5 * doy + 2) div 153;
             d = doy - (153 * mp + 2) div 5 + 1;
             m = (if mp < 10 then mp + 3 else mp - 9);
             y = yoe + era * 400 + (if m \<le> 2 then 1 else 0)
         in Some (pad_left 4 (show_nat y) @ ''-'' @ pad_left 2 (show_nat m) @ ''-'' @ pad_left 2 (show_nat d))))"

definition anchor_parse_address :: "'x deps_scheme \<Rightarrow> string \<Rightarrow> bytes option" where
  "anchor_parse_address X s =
     (case strip_prefix ''0x'' s of
        None \<Rightarrow> None
      | Some h \<Rightarrow> if length h \<noteq> 40 then None else hex_decode X h)"

section \<open>The anchor key\<close>

text \<open>Of \<open>k256\<close>: whether bytes are a secret key, the key the generator makes at an interaction, and the uncompressed
  public point.\<close>

record anchor_crypto =
  ac_key_ok :: "bytes \<Rightarrow> bool"
  ac_random_key :: "nat \<Rightarrow> bytes"
  ac_point :: "bytes \<Rightarrow> bytes"

definition address_of :: "'x deps_scheme \<Rightarrow> anchor_crypto \<Rightarrow> bytes \<Rightarrow> string" where
  "address_of X A sk = ''0x'' @ hex_encode X (drop 12 (keccak X (drop 1 (ac_point A sk))))"

definition load_key ::
  "anchor_crypto \<Rightarrow> custody_env \<Rightarrow> custody_world \<Rightarrow> (AnchorError + bytes option) \<times> custody_world" where
  "load_key A E w =
     (let (r, w') = keyring_get E ANCHOR_KEY_ACCOUNT w in
      (case r of
         Inl e \<Rightarrow> Inl Keyring
       | Inr None \<Rightarrow> Inr None
       | Inr (Some bytes) \<Rightarrow>
           if length bytes \<noteq> 32 then Inl KeyCorrupt
           else if ac_key_ok A bytes then Inr (Some bytes) else Inl KeyCorrupt, w'))"

definition anchor_address ::
  "'x deps_scheme \<Rightarrow> anchor_crypto \<Rightarrow> custody_env \<Rightarrow> custody_world \<Rightarrow> (AnchorError + string option) \<times> custody_world" where
  "anchor_address X A E w = rpc_map (load_key A E w) (\<lambda>k. Inr (map_option (address_of X A) k))"

definition ensure_anchor_key ::
  "'x deps_scheme \<Rightarrow> anchor_crypto \<Rightarrow> custody_env \<Rightarrow> custody_world \<Rightarrow> (AnchorError + string) \<times> custody_world" where
  "ensure_anchor_key X A E w =
     rpc_then (load_key A E w) (\<lambda>k w.
     case k of
       Some sk \<Rightarrow> (Inr (address_of X A sk), w)
     | None \<Rightarrow>
       (let sk = ac_random_key A (cw_tick w); (r, w') = keyring_set E ANCHOR_KEY_ACCOUNT sk (tick w)
        in (and_then (map_err (\<lambda>_. Keyring) r) (\<lambda>_. Inr (address_of X A sk)), w')))"

section \<open>Requests, cards and receipts\<close>

record AnchorRequest =
  aq_day :: nat
  aq_date :: string
  aq_commitment :: bytes
  aq_to :: string
  aq_chain_id :: nat
  aq_value :: nat
  aq_data :: bytes

record AnchorCeremonyView =
  av_id :: string
  av_origin :: string
  av_day :: nat
  av_date :: string
  av_commitment :: string
  av_registry :: string
  av_chain_id :: nat
  av_decoded :: DecodedAction

definition PLACEHOLDER_MAX_GAS_PRICE_WEI :: nat where "PLACEHOLDER_MAX_GAS_PRICE_WEI = 50000000000"
definition PLACEHOLDER_MAX_GAS_LIMIT :: nat where "PLACEHOLDER_MAX_GAS_LIMIT = 400000"

text \<open>The interval of the poll is not modelled.\<close>

record AnchorTxConfig =
  at_poll_attempts :: nat
  at_max_gas_price_wei :: nat
  at_max_gas_limit :: nat

definition with_placeholder_caps :: "nat \<Rightarrow> AnchorTxConfig" where
  "with_placeholder_caps poll_attempts =
     \<lparr>at_poll_attempts = poll_attempts, at_max_gas_price_wei = PLACEHOLDER_MAX_GAS_PRICE_WEI,
      at_max_gas_limit = PLACEHOLDER_MAX_GAS_LIMIT\<rparr>"

record AnchorReceipt =
  ar_day :: nat
  ar_commitment :: bytes
  ar_tx_hash :: string
  ar_block_number :: "nat option"
  ar_status :: "nat option"
  ar_nonce :: "nat option"
  ar_from :: "string option"
  ar_gas_used :: "nat option"
  ar_effective_gas_price_wei :: "string option"

definition receipt_confirms :: "AnchorReceipt \<Rightarrow> bool" where
  "receipt_confirms r \<longleftrightarrow> ar_block_number r \<noteq> None \<and> ar_status r = Some 1"

definition anchor_send_refused :: "RpcError \<Rightarrow> bool" where
  "anchor_send_refused e \<longleftrightarrow> is_definitive_send_error e"

record AnchorPending =
  ap_req :: AnchorRequest
  ap_registry :: bytes

record AnchorCeremony =
  an_pending :: "(nat \<times> AnchorPending) list"
  an_next_id :: nat
  an_submitted :: SubmittedTxLog

definition anchor_new :: AnchorCeremony where
  "anchor_new = \<lparr>an_pending = [], an_next_id = 1, an_submitted = unpersisted\<rparr>"

definition use_submitted_log :: "SubmittedTxLog \<Rightarrow> AnchorCeremony \<Rightarrow> AnchorCeremony" where
  "use_submitted_log log c = c\<lparr>an_submitted := log\<rparr>"

definition anchor_view :: "'x deps_scheme \<Rightarrow> nat \<Rightarrow> AnchorPending \<Rightarrow> AnchorCeremonyView" where
  "anchor_view X key p =
     (let registry = ''0x'' @ hex_encode X (ap_registry p) in
      \<lparr>av_id = show_nat key, av_origin = ANCHOR_ORIGIN, av_day = aq_day (ap_req p), av_date = aq_date (ap_req p),
       av_commitment = ''0x'' @ hex_encode X (aq_commitment (ap_req p)), av_registry = registry, av_chain_id = ANCHOR_CHAIN_ID,
       av_decoded = \<lparr>da_action = ''Anchor the decision records of '' @ aq_date (ap_req p) @ '' (UTC) to AnchorRegistry'',
                     da_cost = ''0 SALT value; gas is paid by the anchor key'', da_destination = registry\<rparr>\<rparr>)"

text \<open>The checks \<open>request\<close> makes before it takes the lock; they answer the pinned registry.\<close>

definition check_request :: "'x deps_scheme \<Rightarrow> AnchorRequest \<Rightarrow> string \<Rightarrow> AnchorError + bytes" where
  "check_request X req pinned_registry =
     (if aq_chain_id req \<noteq> ANCHOR_CHAIN_ID
      then Inl (NotAnchorCall (''chain '' @ show_nat (aq_chain_id req) @ '' is not '' @ show_nat ANCHOR_CHAIN_ID))
      else if aq_value req \<noteq> 0 then Inl (NotAnchorCall ''an anchor moves no value'')
      else
        and_then (ok_or RegistryMismatch (anchor_parse_address X (to_ascii_lowercase pinned_registry))) (\<lambda>pinned.
        and_then (ok_or RegistryMismatch (anchor_parse_address X (to_ascii_lowercase (aq_to req)))) (\<lambda>to.
        if to \<noteq> pinned then Inl RegistryMismatch
        else if date_of_day (aq_day req) \<noteq> Some (aq_date req) then Inl (NotAnchorCall ''the date does not match the day'')
        else
          and_then (decode_anchor_calldata (aq_data req)) (\<lambda>root.
          if root \<noteq> aq_commitment req
          then Inl (NotAnchorCall ''the calldata does not anchor the stated commitment'') else Inr pinned))))"

definition anchor_request ::
  "'x deps_scheme \<Rightarrow> AnchorRequest \<Rightarrow> string \<Rightarrow> AnchorCeremony \<Rightarrow> (AnchorError + AnchorCeremonyView) \<times> AnchorCeremony" where
  "anchor_request X req pinned_registry c =
     rpc_then (check_request X req pinned_registry, c) (\<lambda>pinned c.
     case find (\<lambda>(k, p). aq_day (ap_req p) = aq_day req) (an_pending c) of
       Some (key, p) \<Rightarrow>
         (if aq_commitment (ap_req p) = aq_commitment req then Inr (anchor_view X key p) else Inl DayConflict, c)
     | None \<Rightarrow>
       (let key = an_next_id c; p = \<lparr>ap_req = req, ap_registry = pinned\<rparr>
        in (Inr (anchor_view X key p), c\<lparr>an_next_id := wrap_inc key, an_pending := bt_insert key p (an_pending c)\<rparr>)))"

definition anchor_pending :: "'x deps_scheme \<Rightarrow> AnchorCeremony \<Rightarrow> AnchorCeremonyView list" where
  "anchor_pending X c = map (\<lambda>(key, p). anchor_view X key p) (an_pending c)"

definition anchor_reject :: "string \<Rightarrow> AnchorCeremony \<Rightarrow> (AnchorError + unit) \<times> AnchorCeremony" where
  "anchor_reject s c =
     rpc_then (ok_or UnknownAnchor (parse_u64 s), c) (\<lambda>key c.
     (if bt_get key (an_pending c) = None then Inl UnknownAnchor else Inr (),
      c\<lparr>an_pending := bt_remove key (an_pending c)\<rparr>))"

section \<open>Approval\<close>

text \<open>The calls of the guards, newest first; \<open>G\<close> says whether a call of \<open>before_send\<close> failed.\<close>

datatype guard_call = BeforeSend AnchorReceipt | NotSent AnchorReceipt

record anchor_world =
  aw_ceremony :: AnchorCeremony
  aw_custody :: custody_world
  aw_client :: RpcClient
  aw_dir :: dir
  aw_calls :: "guard_call list"

definition on_client ::
  "(RpcClient \<Rightarrow> (RpcError + 'a) \<times> RpcClient) \<Rightarrow> anchor_world \<Rightarrow> (AnchorError + 'a) \<times> anchor_world" where
  "on_client f st =
     (let (r, cl) = f (aw_client st) in (map_err (AnchorRpc \<circ> rpc_error_text) r, st\<lparr>aw_client := cl\<rparr>))"

definition keep :: "nat \<Rightarrow> AnchorPending \<Rightarrow> AnchorError \<Rightarrow> anchor_world \<Rightarrow> (AnchorError + 'a) \<times> anchor_world" where
  "keep key p e st =
     (Inl e, st\<lparr>aw_ceremony := (aw_ceremony st)\<lparr>an_pending := bt_insert key p (an_pending (aw_ceremony st))\<rparr>\<rparr>)"

definition anchor_take ::
  "custody_env \<Rightarrow> string \<Rightarrow> anchor_world \<Rightarrow> (AnchorError + nat \<times> AnchorPending) \<times> anchor_world" where
  "anchor_take E s st =
     rpc_then (ok_or UnknownAnchor (parse_u64 s), st) (\<lambda>key st.
     let (unlocked, w) = is_unlocked E (aw_custody st); st = st\<lparr>aw_custody := w\<rparr>; c = aw_ceremony st in
     if \<not> unlocked then (Inl (if bt_get key (an_pending c) \<noteq> None then AnchorLocked else UnknownAnchor), st)
     else
       (case bt_get key (an_pending c) of
          None \<Rightarrow> (Inl UnknownAnchor, st)
        | Some p \<Rightarrow> (Inr (key, p), st\<lparr>aw_ceremony := c\<lparr>an_pending := bt_remove key (an_pending c)\<rparr>\<rparr>)))"

definition anchor_gate ::
  "rpc_env \<Rightarrow> ExpectedNetwork option \<Rightarrow> nat \<Rightarrow> AnchorPending \<Rightarrow> anchor_world \<Rightarrow> (AnchorError + unit) \<times> anchor_world" where
  "anchor_gate R gate key p st =
     (case gate of
        None \<Rightarrow> (Inr (), st)
      | Some expected \<Rightarrow>
        (case verify_network R expected (aw_client st) of
           (Inl e, cl) \<Rightarrow> keep key p (AnchorRpc (rpc_error_text e @ ''; nothing was signed'')) (st\<lparr>aw_client := cl\<rparr>)
         | (Inr u, cl) \<Rightarrow> (Inr (), st\<lparr>aw_client := cl\<rparr>)))"

definition anchor_signer :: "anchor_crypto \<Rightarrow> custody_env \<Rightarrow> anchor_world \<Rightarrow> (AnchorError + bytes) \<times> anchor_world" where
  "anchor_signer A E st =
     (let (r, w) = load_key A E (aw_custody st)
      in (and_then r (ok_or NoAnchorKey), st\<lparr>aw_custody := w\<rparr>))"

definition in_flight_of :: "'x deps_scheme \<Rightarrow> AnchorPending \<Rightarrow> SignedTx \<Rightarrow> nat \<Rightarrow> string \<Rightarrow> AnchorReceipt" where
  "in_flight_of X p stx nonce from =
     \<lparr>ar_day = aq_day (ap_req p), ar_commitment = aq_commitment (ap_req p), ar_tx_hash = ''0x'' @ hex_encode X (stx_hash stx),
      ar_block_number = None, ar_status = None, ar_nonce = Some nonce, ar_from = Some from, ar_gas_used = None,
      ar_effective_gas_price_wei = None\<rparr>"

definition anchor_fields :: "AnchorPending \<Rightarrow> nat \<Rightarrow> nat \<Rightarrow> nat \<Rightarrow> LegacyTxFields" where
  "anchor_fields p nonce price limit =
     \<lparr>lf_nonce = nonce, lf_gas_price = price, lf_gas_limit = limit, lf_to = Some (ap_registry p), lf_value = 0,
      lf_data = anchor_calldata (aq_commitment (ap_req p))\<rparr>"

text \<open>The caps and the signature.\<close>

definition anchor_cap_and_sign ::
  "wallet_crypto \<Rightarrow> AnchorTxConfig \<Rightarrow> nat \<Rightarrow> AnchorPending \<Rightarrow> bytes \<Rightarrow> string \<Rightarrow> nat \<Rightarrow> nat \<Rightarrow> nat \<Rightarrow> anchor_world
     \<Rightarrow> (AnchorError + SignedTx \<times> nat \<times> string) \<times> anchor_world" where
  "anchor_cap_and_sign K cfg key p sk from nonce price limit st =
     (if price > at_max_gas_price_wei cfg then
        keep key p (GasOverCap (''the network gas price ('' @ show_nat price @ '' wei) is over the anchor cap (''
          @ show_nat (at_max_gas_price_wei cfg) @ '' wei)'')) st
      else if limit > at_max_gas_limit cfg then
        keep key p (GasOverCap (''the gas estimate ('' @ show_nat limit @ '') is over the anchor cap (''
          @ show_nat (at_max_gas_limit cfg) @ '')'')) st
      else
        (case k_sign_legacy_tx K sk (anchor_fields p nonce price limit) ANCHOR_CHAIN_ID of
           None \<Rightarrow> (Inl Sign, st)
         | Some stx \<Rightarrow> (Inr (stx, nonce, from), st)))"

text \<open>From the consumed card to the signed transaction.\<close>

definition anchor_sign ::
  "'x deps_scheme \<Rightarrow> anchor_crypto \<Rightarrow> wallet_crypto \<Rightarrow> custody_env \<Rightarrow> rpc_env \<Rightarrow> ExpectedNetwork option \<Rightarrow> string
     \<Rightarrow> AnchorTxConfig \<Rightarrow> nat \<Rightarrow> AnchorPending \<Rightarrow> anchor_world
     \<Rightarrow> (AnchorError + SignedTx \<times> nat \<times> string) \<times> anchor_world" where
  "anchor_sign X A K E R gate pinned_registry cfg key p st =
     rpc_then (ok_or RegistryMismatch (anchor_parse_address X (to_ascii_lowercase pinned_registry)), st) (\<lambda>pinned st.
     if pinned \<noteq> ap_registry p then (Inl RegistryMismatch, st) else
     rpc_then (anchor_gate R gate key p st) (\<lambda>_ st.
     rpc_then (anchor_signer A E st) (\<lambda>sk st.
     let from = address_of X A sk in
     rpc_then (on_client (pending_nonce R from) st) (\<lambda>nonce st.
     rpc_then (on_client (gas_price R) st) (\<lambda>price st.
     rpc_then (on_client (estimate_gas R (VObject
         [(''data'', VString (''0x'' @ hex_encode X (anchor_calldata (aq_commitment (ap_req p))))), (''from'', VString from),
          (''to'', VString (''0x'' @ hex_encode X (ap_registry p))), (''value'', VString ''0x0'')])) st) (\<lambda>limit st.
     anchor_cap_and_sign K cfg key p sk from nonce price limit st))))))"

text \<open>The two records that come before the send.\<close>

definition anchor_record ::
  "'x deps_scheme \<Rightarrow> log_codec \<Rightarrow> log_faults \<Rightarrow> (guard_call list \<Rightarrow> string option) \<Rightarrow> nat option \<Rightarrow> nat \<Rightarrow> AnchorPending
     \<Rightarrow> SignedTx \<Rightarrow> nat \<Rightarrow> string \<Rightarrow> anchor_world \<Rightarrow> (AnchorError + bool) \<times> anchor_world" where
  "anchor_record X C F G now key p stx nonce from st =
     (let fl = in_flight_of X p stx nonce from; st = st\<lparr>aw_calls := BeforeSend fl # aw_calls st\<rparr> in
      case G (aw_calls st) of
        Some e \<Rightarrow> keep key p (NotRecorded e) st
      | None \<Rightarrow>
        (let (r, L, D) = try_record_for C F (ar_tx_hash fl) from nonce now (an_submitted (aw_ceremony st)) (aw_dir st);
             st = st\<lparr>aw_ceremony := (aw_ceremony st)\<lparr>an_submitted := L\<rparr>, aw_dir := D\<rparr>
         in case r of
              Inr first \<Rightarrow> (Inr first, st)
            | Inl e \<Rightarrow>
              keep key p (NotRecorded (''the submission could not be recorded durably, so nothing was sent: '' @ e))
                (st\<lparr>aw_calls := NotSent fl # aw_calls st\<rparr>)))"

text \<open>What is made of a send that failed.\<close>

definition anchor_send_failed ::
  "'x deps_scheme \<Rightarrow> rpc_env \<Rightarrow> nat \<Rightarrow> AnchorPending \<Rightarrow> SignedTx \<Rightarrow> nat \<Rightarrow> string \<Rightarrow> bool \<Rightarrow> RpcError
     \<Rightarrow> anchor_world \<Rightarrow> (AnchorError + string) \<times> anchor_world" where
  "anchor_send_failed X R key p stx nonce from first_submission e st =
     (let fl = in_flight_of X p stx nonce from; err = AnchorRpc (rpc_error_text e) in
      if first_submission \<and> sole_attempt (an_submitted (aw_ceremony st)) (ar_tx_hash fl) \<and> anchor_send_refused e then
        (case transaction_known R (ar_tx_hash fl) (aw_client st) of
           (Inr False, cl) \<Rightarrow> keep key p err (st\<lparr>aw_client := cl, aw_calls := NotSent fl # aw_calls st\<rparr>)
         | (_, cl) \<Rightarrow> (Inl err, st\<lparr>aw_client := cl\<rparr>))
      else (Inl err, st))"

definition anchor_send ::
  "'x deps_scheme \<Rightarrow> rpc_env \<Rightarrow> ExpectedNetwork option \<Rightarrow> nat \<Rightarrow> AnchorPending \<Rightarrow> SignedTx \<Rightarrow> nat \<Rightarrow> string \<Rightarrow> bool
     \<Rightarrow> anchor_world \<Rightarrow> (AnchorError + string) \<times> anchor_world" where
  "anchor_send X R gate key p stx nonce from first_submission st =
     (case send_raw_transaction_gated X R (stx_raw stx) gate (aw_client st) of
        (Inr h, cl) \<Rightarrow> (Inr h, st\<lparr>aw_client := cl\<rparr>)
      | (Inl e, cl) \<Rightarrow> anchor_send_failed X R key p stx nonce from first_submission e (st\<lparr>aw_client := cl\<rparr>))"

definition anchor_outcome ::
  "rpc_env \<Rightarrow> AnchorTxConfig \<Rightarrow> AnchorPending \<Rightarrow> nat \<Rightarrow> string \<Rightarrow> string \<Rightarrow> anchor_world
     \<Rightarrow> (AnchorError + AnchorReceipt) \<times> anchor_world" where
  "anchor_outcome R cfg p nonce from tx_hash st =
     (let (polled, cl) = poll_receipt R tx_hash (at_poll_attempts cfg) (aw_client st);
          mined = (case polled of Inr r \<Rightarrow> Some r | Inl e \<Rightarrow> None)
      in (Inr \<lparr>ar_day = aq_day (ap_req p), ar_commitment = aq_commitment (ap_req p), ar_tx_hash = tx_hash,
               ar_block_number = map_option r_block_number mined, ar_status = Option.bind mined r_status,
               ar_nonce = Some nonce, ar_from = Some from, ar_gas_used = Option.bind mined r_gas_used,
               ar_effective_gas_price_wei = map_option show_nat (Option.bind mined r_effective_gas_price)\<rparr>,
          st\<lparr>aw_client := cl\<rparr>))"

definition anchor_approve_gated ::
  "'x deps_scheme \<Rightarrow> anchor_crypto \<Rightarrow> wallet_crypto \<Rightarrow> custody_env \<Rightarrow> rpc_env \<Rightarrow> log_codec \<Rightarrow> log_faults
     \<Rightarrow> (guard_call list \<Rightarrow> string option) \<Rightarrow> nat option \<Rightarrow> string \<Rightarrow> string \<Rightarrow> AnchorTxConfig \<Rightarrow> ExpectedNetwork option
     \<Rightarrow> anchor_world \<Rightarrow> (AnchorError + AnchorReceipt) \<times> anchor_world" where
  "anchor_approve_gated X A K E R C F G now s pinned_registry cfg gate st =
     rpc_then (anchor_take E s st) (\<lambda>(key, p) st.
     rpc_then (anchor_sign X A K E R gate pinned_registry cfg key p st) (\<lambda>(stx, nonce, from) st.
     rpc_then (anchor_record X C F G now key p stx nonce from st) (\<lambda>first_submission st.
     rpc_then (anchor_send X R gate key p stx nonce from first_submission st) (\<lambda>tx_hash st.
     anchor_outcome R cfg p nonce from tx_hash st))))"

definition anchor_approve ::
  "'x deps_scheme \<Rightarrow> anchor_crypto \<Rightarrow> wallet_crypto \<Rightarrow> custody_env \<Rightarrow> rpc_env \<Rightarrow> log_codec \<Rightarrow> log_faults
     \<Rightarrow> (guard_call list \<Rightarrow> string option) \<Rightarrow> nat option \<Rightarrow> string \<Rightarrow> string \<Rightarrow> AnchorTxConfig
     \<Rightarrow> anchor_world \<Rightarrow> (AnchorError + AnchorReceipt) \<times> anchor_world" where
  "anchor_approve X A K E R C F G now s pinned_registry cfg st =
     anchor_approve_gated X A K E R C F G now s pinned_registry cfg (ng_installed (re_gates R)) st"

section \<open>Hex fields\<close>

definition hex32_serialize :: "'x deps_scheme \<Rightarrow> bytes \<Rightarrow> string" where
  "hex32_serialize X v = ''0x'' @ hex_encode X v"

definition hex32_deserialize :: "'x deps_scheme \<Rightarrow> string \<Rightarrow> bytes option" where
  "hex32_deserialize X s =
     (let h = (case strip_prefix ''0x'' s of Some r \<Rightarrow> r | None \<Rightarrow> s)
      in if length h \<noteq> 64 then None else hex_decode X h)"

definition hex_bytes_serialize :: "'x deps_scheme \<Rightarrow> bytes \<Rightarrow> string" where
  "hex_bytes_serialize X v = ''0x'' @ hex_encode X v"

definition hex_bytes_deserialize :: "'x deps_scheme \<Rightarrow> string \<Rightarrow> bytes option" where
  "hex_bytes_deserialize X s = hex_decode X (case strip_prefix ''0x'' s of Some r \<Rightarrow> r | None \<Rightarrow> s)"


end
