(* ===== verification/AnchorProps.thy ===== *)
theory AnchorProps
  imports Anchor CeremonyProps
begin

text \<open>
  What the anchor ceremony keeps: its call is read back exactly, the date on a card is the day's own date, the cards
  of any sequence of calls passed the checks and are one per day, the only transaction an approval sends is
  the card's, and what becomes of the card at each refusal.
\<close>

section \<open>Definitions\<close>

text \<open>A date as \<open>YYYY-MM-DD\<close>.\<close>

definition iso_date :: "int \<Rightarrow> int \<Rightarrow> int \<Rightarrow> string" where
  "iso_date y m d =
     pad_left 4 (show_nat (nat y)) @ ''-'' @ pad_left 2 (show_nat (nat m)) @ ''-'' @ pad_left 2 (show_nat (nat d))"

text \<open>The transactions put on the wire.\<close>

abbreviation anchor_sent :: "anchor_world \<Rightarrow> Value list" where
  "anchor_sent st \<equiv> sent_raw (rc_wire (aw_client st))"

abbreviation anchor_cards :: "anchor_world \<Rightarrow> (nat \<times> AnchorPending) list" where
  "anchor_cards st \<equiv> an_pending (aw_ceremony st)"

text \<open>What the anchor key signs: the one call of the card, to the registry the card and the caller both name, on the anchor
  chain, with no value, the nonce and the price read from the node and both gas figures within the caps; the node was
  checked against the gate when there is one.\<close>

definition signed_for_card ::
  "'x deps_scheme \<Rightarrow> anchor_crypto \<Rightarrow> wallet_crypto \<Rightarrow> rpc_env \<Rightarrow> (string \<Rightarrow> bytes option) \<Rightarrow> ExpectedNetwork option \<Rightarrow> string
     \<Rightarrow> AnchorTxConfig \<Rightarrow> AnchorPending \<Rightarrow> SignedTx \<Rightarrow> nat \<Rightarrow> string \<Rightarrow> bool" where
  "signed_for_card X A K R keyring gate pinned_registry cfg p stx nonce from \<longleftrightarrow>
     anchor_parse_address X (to_ascii_lowercase pinned_registry) = Some (ap_registry p) \<and>
     (\<forall>e. gate = Some e \<longrightarrow> (\<exists>cl. fst (verify_network R e cl) = Inr ())) \<and>
     (\<exists>sk price limit cl1 cl2.
        keyring ANCHOR_KEY_ACCOUNT = Some sk \<and> from = address_of X A sk \<and>
        fst (pending_nonce R from cl1) = Inr nonce \<and> fst (gas_price R cl2) = Inr price \<and>
        price \<le> at_max_gas_price_wei cfg \<and> limit \<le> at_max_gas_limit cfg \<and>
        k_sign_legacy_tx K sk
          \<lparr>lf_nonce = nonce, lf_gas_price = price, lf_gas_limit = limit, lf_to = Some (ap_registry p), lf_value = 0,
           lf_data = anchor_calldata (aq_commitment (ap_req p))\<rparr> ANCHOR_CHAIN_ID = Some stx)"

text \<open>Nothing sent, recorded or announced, and the key ring as it was.\<close>

definition silent :: "anchor_world \<Rightarrow> anchor_world \<Rightarrow> bool" where
  "silent st st' \<longleftrightarrow>
     anchor_sent st' = anchor_sent st \<and> aw_dir st' = aw_dir st \<and> aw_calls st' = aw_calls st \<and>
     an_submitted (aw_ceremony st') = an_submitted (aw_ceremony st) \<and>
     cw_keyring (aw_custody st') = cw_keyring (aw_custody st) \<and> an_next_id (aw_ceremony st') = an_next_id (aw_ceremony st)"

text \<open>The stage before the records: it signs for the card, or refuses, and then puts the card back only for a refused
  network and a gas figure over its cap.\<close>

definition sign_outcome ::
  "(SignedTx \<Rightarrow> nat \<Rightarrow> string \<Rightarrow> bool) \<Rightarrow> nat \<Rightarrow> AnchorPending \<Rightarrow> anchor_world
     \<Rightarrow> (AnchorError + SignedTx \<times> nat \<times> string) \<times> anchor_world \<Rightarrow> bool" where
  "sign_outcome Q key p st res \<longleftrightarrow>
     silent st (snd res) \<and>
     (case fst res of
        Inr (stx, nonce, from) \<Rightarrow> Q stx nonce from \<and> anchor_cards (snd res) = anchor_cards st
      | Inl e \<Rightarrow>
          anchor_cards (snd res) = anchor_cards st \<and>
            ((\<exists>m. e = AnchorRpc m) \<or> e \<in> {RegistryMismatch, Keyring, KeyCorrupt, NoAnchorKey, Sign}) \<or>
          anchor_cards (snd res) = bt_insert key p (anchor_cards st) \<and> (\<exists>m. e = AnchorRpc m \<or> e = GasOverCap m))"

text \<open>What a card states: the one anchor call, for the registry it was raised for and the day whose date it shows.\<close>

definition anchor_card_ok :: "'x deps_scheme \<Rightarrow> AnchorPending \<Rightarrow> bool" where
  "anchor_card_ok X p \<longleftrightarrow>
     aq_chain_id (ap_req p) = ANCHOR_CHAIN_ID \<and> aq_value (ap_req p) = 0 \<and>
     anchor_parse_address X (to_ascii_lowercase (aq_to (ap_req p))) = Some (ap_registry p) \<and>
     date_of_day (aq_day (ap_req p)) = Some (aq_date (ap_req p)) \<and>
     length (aq_commitment (ap_req p)) = 32 \<and> aq_data (ap_req p) = anchor_calldata (aq_commitment (ap_req p))"

text \<open>The invariant of the pending cards.\<close>

definition anchor_inv :: "'x deps_scheme \<Rightarrow> (nat \<times> AnchorPending) list \<Rightarrow> bool" where
  "anchor_inv X m \<longleftrightarrow>
     bt_wf m \<and> (\<forall>e \<in> set m. anchor_card_ok X (snd e)) \<and>
     (\<forall>e \<in> set m. \<forall>e' \<in> set m. aq_day (ap_req (snd e)) = aq_day (ap_req (snd e')) \<longrightarrow> e = e')"

text \<open>The ceremonies any sequence of calls leads to; the vault, the node, the record and the guards may differ from call to
  call.\<close>

inductive anchor_reach :: "'x deps_scheme \<Rightarrow> AnchorCeremony \<Rightarrow> bool" for X where
  reach_new: "anchor_reach X anchor_new"
| reach_log: "anchor_reach X c \<Longrightarrow> anchor_reach X (use_submitted_log L c)"
| reach_request: "anchor_reach X c \<Longrightarrow> anchor_reach X (snd (anchor_request X req pinned_registry c))"
| reach_reject: "anchor_reach X c \<Longrightarrow> anchor_reach X (snd (anchor_reject s c))"
| reach_approve: "anchor_reach X (aw_ceremony st) \<Longrightarrow>
    anchor_reach X (aw_ceremony (snd (anchor_approve_gated X A K E R C F G now s pinned_registry cfg gate st)))"

text \<open>Whether a refused approval leaves the card in place; a failure of the node may do either.\<close>

fun keeps_card :: "AnchorError \<Rightarrow> bool option" where
  "keeps_card AnchorLocked = Some True"
| "keeps_card UnknownAnchor = Some True"
| "keeps_card (GasOverCap m) = Some True"
| "keeps_card (NotRecorded m) = Some True"
| "keeps_card (AnchorRpc m) = None"
| "keeps_card e = Some False"

section \<open>The call\<close>

text \<open>The strict decoder accepts exactly the calldata the signer builds, and answers its root.\<close>

lemma decode_anchor_iff:
  "decode_anchor_calldata data = Inr root \<longleftrightarrow> data = anchor_calldata root \<and> length root = 32"
proof
  assume "decode_anchor_calldata data = Inr root"
  then have len: "length data = 68" and sel: "take 4 data = ANCHOR_SELECTOR" and kind: "data ! 35 = NIGHTLY_MERKLE"
    and clean: "\<And>b. b \<in> set (take 31 (drop 4 data)) \<Longrightarrow> b = 0" and root: "take 32 (drop 36 data) = root"
    by (auto simp: decode_anchor_calldata_def list_ex_iff split: if_splits)
  have zeros: "take 31 (drop 4 data) = replicate 31 0"
    using replicate_length_same [of "take 31 (drop 4 data)" 0] clean len by simp
  have "data = take 4 data @ take 31 (drop 4 data) @ drop 35 data"
    using append_take_drop_id [of 31 "drop 4 data"] by simp
  moreover have "drop 35 data = data ! 35 # drop 36 data" using Cons_nth_drop_Suc [of 35 data] len by simp
  moreover have "drop 36 data = root" "length root = 32" using root len by auto
  ultimately show "data = anchor_calldata root \<and> length root = 32"
    unfolding anchor_calldata_def using sel zeros kind by simp
next
  assume "data = anchor_calldata root \<and> length root = 32"
  then show "decode_anchor_calldata data = Inr root"
    by (simp add: decode_anchor_calldata_def anchor_calldata_def ANCHOR_SELECTOR_def list_ex_iff nth_append)
qed

section \<open>The date on a card\<close>

lemma year_days_mono:
  fixes a b :: int
  assumes "a \<le> b"
  shows "365 * a + a div 4 - a div 100 + a div 400 \<le> 365 * b + b div 4 - b div 100 + b div 400"
  using assms
proof (induction b rule: int_ge_induct)
  case (step b)
  have "(b + 1) div 4 - (b + 1) div 100 + (b + 1) div 400 \<ge> b div 4 - b div 100 + b div 400"
    using leap_day_count [of "b + 1"] by simp
  with step show ?case by simp
qed simp

lemma anchor_years:
  assumes "valid_date y m d" and "days_from_civil y m d = int n"
  shows "y \<le> 9999 \<longleftrightarrow> n \<le> MAX_ANCHOR_DAY"
proof -
  have m: "1 \<le> m" "m \<le> 12" and d: "1 \<le> d" "d \<le> 31"
    using assms(1) days_in_month_le [of y m] by (auto simp: valid_date_def)
  define z q where "z = (if m \<le> 2 then y - 1 else y)" and "q = (153 * ((m + 9) mod 12) + 2) div 5"
  have n: "int n = 365 * z + z div 4 - z div 100 + z div 400 + q + d - 719469"
    using days_from_civil_closed [OF m, of y d] assms(2) by (simp add: z_def q_def Let_def)
  have q: "if m \<le> 2 then 306 \<le> q \<and> q \<le> 337 else 0 \<le> q \<and> q \<le> 275"
    unfolding q_def using month_cases [OF m] by (elim disjE) simp_all
  show ?thesis
  proof
    assume y: "y \<le> 9999"
    show "n \<le> MAX_ANCHOR_DAY"
    proof (cases "m \<le> 2")
      case True
      then have "z \<le> 9998" using y by (simp add: z_def)
      then show ?thesis using year_days_mono [of z 9998] n q True d by (simp add: MAX_ANCHOR_DAY_def)
    next
      case False
      then have "z \<le> 9999" using y by (simp add: z_def)
      then show ?thesis using year_days_mono [of z 9999] n q False d by (simp add: MAX_ANCHOR_DAY_def)
    qed
  next
    assume le: "n \<le> MAX_ANCHOR_DAY"
    show "y \<le> 9999"
    proof (rule ccontr)
      assume y: "\<not> y \<le> 9999"
      show False
      proof (cases "m \<le> 2")
        case True
        then have "9999 \<le> z" using y by (simp add: z_def)
        then show ?thesis using year_days_mono [of 9999 z] n q True d le by (simp add: MAX_ANCHOR_DAY_def)
      next
        case False
        then have "10000 \<le> z" using y by (simp add: z_def)
        then show ?thesis using year_days_mono [of 10000 z] n q False d le by (simp add: MAX_ANCHOR_DAY_def)
      qed
    qed
  qed
qed

lemma days_in_month_pos: "1 \<le> days_in_month y m"
  by (simp add: days_in_month_def)

lemma next_day_valid: "valid_date y m d \<Longrightarrow> next_day (y, m, d) = (y', m', d') \<Longrightarrow> valid_date y' m' d'"
  by (auto simp: valid_date_def next_day_def days_in_month_pos split: if_splits)

text \<open>Every day number is the number of a date.\<close>

lemma every_day_has_a_date: "\<exists>y m d. valid_date y m d \<and> days_from_civil y m d = int n"
proof (induction n)
  case 0
  have "valid_date 1970 1 1" by (simp add: valid_date_def days_in_month_def)
  then show ?case using days_from_civil_epoch by (intro exI [of _ 1970] exI [of _ 1]) simp
next
  case (Suc n)
  then obtain y m d where v: "valid_date y m d" "days_from_civil y m d = int n" by blast
  obtain y' m' d' where "next_day (y, m, d) = (y', m', d')" by (metis prod_cases3)
  then have "valid_date y' m' d'" "days_from_civil y' m' d' = int (Suc n)"
    using v next_day_valid days_from_civil_next_day by simp_all
  then show ?case by blast
qed

lemma int_sum_diff: "b \<le> D \<Longrightarrow> c \<le> D - b + a \<Longrightarrow> int (D - b + a - c) = int D - int b + int a - int c"
  by simp

lemma int_div_int: "int a div int b = int c \<Longrightarrow> a div b = c"
  by (simp flip: zdiv_int)

lemma date_of_day_eq:
  assumes v: "valid_date (int y) (int m) (int d)" and n: "days_from_civil (int y) (int m) (int d) = int n"
    and le: "n \<le> MAX_ANCHOR_DAY"
  shows "date_of_day n = Some (iso_date (int y) (int m) (int d))"
  using v
proof (rule civil_parts)
  fix z yoe doy doe :: int
  assume days: "days_from_civil (int y) (int m) (int d) + 719468 = 146097 * (z div 400) + doe"
    and doe_b: "0 \<le> doe" "doe < 146097" and yoe: "0 \<le> yoe" and doy: "0 \<le> doy"
    and doe: "doe = 365 * yoe + yoe div 4 - yoe div 100 + doy"
    and yoe_eq: "(doe - doe div 1460 + doe div 36524 - doe div 146096) div 365 = yoe"
    and mp: "(5 * doy + 2) div 153 = (int m + 9) mod 12" and dd: "doy - (153 * ((int m + 9) mod 12) + 2) div 5 + 1 = int d"
    and mm: "(if (int m + 9) mod 12 < 10 then (int m + 9) mod 12 + 3 else (int m + 9) mod 12 - 9) = int m"
    and yy: "yoe + z div 400 * 400 + (if int m \<le> 2 then 1 else 0) = int y"
  have "0 \<le> z div 400" using days n doe_b by simp
  then obtain e where e: "z div 400 = int e" using zero_le_imp_eq_int by blast
  obtain D where D: "doe = int D" using doe_b zero_le_imp_eq_int by blast
  obtain Y where Y: "yoe = int Y" using yoe zero_le_imp_eq_int by blast
  obtain O' where O: "doy = int O'" using doy zero_le_imp_eq_int by blast
  define M where "M = (m + 9) mod 12"
  have M: "(int m + 9) mod 12 = int M" by (simp add: M_def zmod_int)
  have zn: "n + 719468 = 146097 * e + D" "D < 146097" using days n e D doe_b by simp_all
  then have era: "(n + 719468) div 146097 = e" by simp
  then have D': "n + 719468 - e * 146097 = D" using zn by simp
  have "D div 146096 \<le> D - D div 1460 + D div 36524" using div_le_mono2 [of 36524 146096 D] by simp
  from div_le_dividend [of D 1460] this
  have "int (D - D div 1460 + D div 36524 - D div 146096) = doe - doe div 1460 + doe div 36524 - doe div 146096"
    by (rule int_sum_diff [THEN trans]) (simp only: D zdiv_int of_nat_numeral)
  then have Y': "(D - D div 1460 + D div 36524 - D div 146096) div 365 = Y"
    using yoe_eq unfolding Y by (intro int_div_int) (simp only: of_nat_numeral)
  have "Y div 100 \<le> 365 * Y + Y div 4" using div_le_mono2 [of 4 100 Y] by simp
  then have "D = 365 * Y + Y div 4 - Y div 100 + O'"
    using doe zdiv_int [of Y 4] zdiv_int [of Y 100] unfolding D Y O of_nat_numeral by linarith
  then have O'': "D - (365 * Y + Y div 4 - Y div 100) = O'" by simp
  have M': "(5 * O' + 2) div 153 = M" using mp unfolding M O by linarith
  have "d \<ge> 1" using v by (simp add: valid_date_def)
  then have d': "O' - (153 * M + 2) div 5 + 1 = d" using dd unfolding M O by linarith
  have m': "(if M < 10 then M + 3 else M - 9) = m" using mm unfolding M by (auto split: if_splits)
  have y': "Y + e * 400 + (if m \<le> 2 then 1 else 0) = y" using yy unfolding Y e by (auto split: if_splits)
  show ?thesis
    unfolding date_of_day_def Let_def era D' Y' O'' M' d' m' y' iso_date_def using le by simp
qed

text \<open>
  C33. The date of a day number is the calendar date with that day count, and a day has one exactly up to 9999-12-31:
  the counter of the parser and the inverse on the card agree on every day.
\<close>

theorem card_date_is_the_days_date:
  "date_of_day n = Some s \<longleftrightarrow>
     (\<exists>y m d. valid_date y m d \<and> y \<le> 9999 \<and> days_from_civil y m d = int n \<and> s = iso_date y m d)"
proof -
  have eq: "date_of_day n = Some (iso_date y m d)"
    if "valid_date y m d" "days_from_civil y m d = int n" "n \<le> MAX_ANCHOR_DAY" for y m d
  proof -
    have "0 \<le> y" "0 \<le> m" "0 \<le> d" using that by (auto simp: valid_date_def)
    then show ?thesis using date_of_day_eq [of "nat y" "nat m" "nat d" n] that by simp
  qed
  obtain y m d where v: "valid_date y m d" "days_from_civil y m d = int n" using every_day_has_a_date by blast
  show ?thesis
  proof (cases "n \<le> MAX_ANCHOR_DAY")
    case True
    then show ?thesis using eq v anchor_years by (metis option.inject)
  next
    case False
    then have "date_of_day n = None" by (simp add: date_of_day_def)
    then show ?thesis using False anchor_years by auto
  qed
qed

section \<open>The stages of an approval\<close>

lemma silent_refl [simp]: "silent st st"
  by (simp add: silent_def)

lemma silent_trans [trans]: "silent a b \<Longrightarrow> silent b c \<Longrightarrow> silent a c"
  by (simp add: silent_def)

lemma keep_kept:
  assumes "keep key p e st = (r, st')"
  shows "r = Inl e" "silent st st'" "anchor_cards st' = bt_insert key p (anchor_cards st)"
  using assms by (auto simp: keep_def silent_def)

lemma on_client_silent:
  assumes "on_client f st = (r, st')" and "\<And>cl. sent_raw (rc_wire (snd (f cl))) = sent_raw (rc_wire cl)"
  shows "silent st st'" "aw_ceremony st' = aw_ceremony st"
    "\<And>x. r = Inr x \<Longrightarrow> fst (f (aw_client st)) = Inr x" "\<And>e. r = Inl e \<Longrightarrow> \<exists>m. e = AnchorRpc m"
  using assms(1) assms(2) [of "aw_client st"]
  by (auto simp: on_client_def silent_def map_err_def split: prod.splits sum.splits)

lemma more_reads_quiet [simp]:
  "sent_raw (rc_wire (snd (estimate_gas R v c))) = sent_raw (rc_wire c)"
  "sent_raw (rc_wire (snd (transaction_known R h c))) = sent_raw (rc_wire c)"
  by (simp_all add: estimate_gas_def transaction_known_def rpc_map_def rpc_request_quiet)

lemma anchor_take_cases:
  assumes "anchor_take E s st = (r, st')"
  obtains (err) e where "r = Inl e" "e = AnchorLocked \<or> e = UnknownAnchor" "silent st st'" "anchor_cards st' = anchor_cards st"
  | (ok) key p where "r = Inr (key, p)" "parse_u64 s = Some key" "bt_get key (anchor_cards st) = Some p"
      "fst (is_unlocked E (aw_custody st))" "silent st st'" "anchor_cards st' = bt_remove key (anchor_cards st)"
proof -
  obtain b w where u: "is_unlocked E (aw_custody st) = (b, w)" by force
  then have k: "cw_keyring w = cw_keyring (aw_custody st)"
    by (auto simp: is_unlocked_def Let_def expire_if_stale_def tick_def split: option.splits if_splits)
  show thesis
  proof (cases "parse_u64 s")
    case None
    then show thesis using assms by (intro err [of UnknownAnchor]) (auto simp: anchor_take_def rpc_then_def ok_or_def)
  next
    case (Some key)
    show thesis
    proof (cases "bt_get key (anchor_cards st)")
      case None
      then show thesis
        using assms Some u k
        by (intro err [of UnknownAnchor]) (auto simp: anchor_take_def rpc_then_def ok_or_def Let_def silent_def split: if_splits)
    next
      case p: (Some p)
      show thesis
      proof (cases b)
        case True
        then show thesis
          using assms Some u k p
          by (intro ok [of key p]) (auto simp: anchor_take_def rpc_then_def ok_or_def Let_def silent_def)
      next
        case False
        then show thesis
          using assms Some u k p
          by (intro err [of AnchorLocked]) (auto simp: anchor_take_def rpc_then_def ok_or_def Let_def silent_def)
      qed
    qed
  qed
qed

lemma anchor_gate_cases:
  assumes "anchor_gate R gate key p st = (r, st')"
  obtains (err) m where "r = Inl (AnchorRpc m)" "silent st st'" "anchor_cards st' = bt_insert key p (anchor_cards st)"
  | (ok) "r = Inr ()" "silent st st'" "anchor_cards st' = anchor_cards st"
      "\<forall>e. gate = Some e \<longrightarrow> (\<exists>cl. fst (verify_network R e cl) = Inr ())"
proof (cases gate)
  case None
  then show thesis using assms ok by (auto simp: anchor_gate_def)
next
  case (Some e)
  obtain v cl where v: "verify_network R e (aw_client st) = (v, cl)" by force
  then have q: "sent_raw (rc_wire cl) = anchor_sent st" using verify_network_quiet [of R e "aw_client st"] by simp
  show thesis
  proof (cases v)
    case (Inl x)
    then show thesis
      using assms Some v q err by (auto simp: anchor_gate_def keep_def silent_def)
  next
    case (Inr u)
    then have "fst (verify_network R e (aw_client st)) = Inr ()" using v by simp
    then have "\<forall>e'. gate = Some e' \<longrightarrow> (\<exists>cl. fst (verify_network R e' cl) = Inr ())" using Some by blast
    then show thesis
      using assms Some v q Inr by (intro ok) (auto simp: anchor_gate_def silent_def)
  qed
qed

lemma anchor_signer_cases:
  assumes "anchor_signer A E st = (r, st')"
  obtains (err) e where "r = Inl e" "e \<in> {Keyring, KeyCorrupt, NoAnchorKey}" "silent st st'" "anchor_cards st' = anchor_cards st"
  | (ok) sk where "r = Inr sk" "silent st st'" "anchor_cards st' = anchor_cards st"
      "cw_keyring (aw_custody st) ANCHOR_KEY_ACCOUNT = Some sk"
proof -
  have "silent st st'" "anchor_cards st' = anchor_cards st"
    using assms by (auto simp: anchor_signer_def load_key_def keyring_get_def silent_def tick_def Let_def)
  moreover have "(\<exists>e. r = Inl e \<and> e \<in> {Keyring, KeyCorrupt, NoAnchorKey}) \<or>
      (\<exists>sk. r = Inr sk \<and> cw_keyring (aw_custody st) ANCHOR_KEY_ACCOUNT = Some sk)"
    using assms
    by (auto simp: anchor_signer_def load_key_def keyring_get_def Let_def and_then_def ok_or_def
        split: option.splits if_splits)
  ultimately show thesis using err ok by metis
qed

lemma sign_outcome_err:
  assumes "silent st st'" and "anchor_cards st' = anchor_cards st"
    and "(\<exists>m. e = AnchorRpc m) \<or> e \<in> {RegistryMismatch, Keyring, KeyCorrupt, NoAnchorKey, Sign}"
  shows "sign_outcome Q key p st (Inl e, st')"
  using assms by (simp add: sign_outcome_def)

lemma sign_outcome_kept:
  assumes "silent st st'" and "anchor_cards st' = bt_insert key p (anchor_cards st)" and "\<exists>m. e = AnchorRpc m \<or> e = GasOverCap m"
  shows "sign_outcome Q key p st (Inl e, st')"
  using assms by (simp add: sign_outcome_def)

lemma sign_outcome_keep:
  assumes "silent st st1" and "anchor_cards st1 = anchor_cards st"
  shows "sign_outcome Q key p st (keep key p (GasOverCap m) st1)"
proof -
  obtain r :: "AnchorError + SignedTx \<times> nat \<times> string" and st2 where k: "keep key p (GasOverCap m) st1 = (r, st2)" by force
  note f = keep_kept [OF k]
  show ?thesis
    unfolding k f(1) by (rule sign_outcome_kept) (use f assms silent_trans in auto)
qed

lemma sign_outcome_step:
  assumes "silent st s0" and "anchor_cards s0 = anchor_cards st"
    and "\<And>e s1. r = (Inl e, s1) \<Longrightarrow> silent s0 s1 \<and> anchor_cards s1 = anchor_cards s0 \<and>
      ((\<exists>m. e = AnchorRpc m) \<or> e \<in> {RegistryMismatch, Keyring, KeyCorrupt, NoAnchorKey, Sign})"
    and "\<And>x s1. r = (Inr x, s1) \<Longrightarrow> silent s0 s1 \<and> anchor_cards s1 = anchor_cards s0"
    and "\<And>x s1. r = (Inr x, s1) \<Longrightarrow> silent st s1 \<Longrightarrow> anchor_cards s1 = anchor_cards st \<Longrightarrow> sign_outcome Q key p st (f x s1)"
  shows "sign_outcome Q key p st (rpc_then r f)"
proof (cases r)
  case (Pair a s1)
  show ?thesis
  proof (cases a)
    case (Inl e)
    have "silent s0 s1" "anchor_cards s1 = anchor_cards s0"
      "(\<exists>m. e = AnchorRpc m) \<or> e \<in> {RegistryMismatch, Keyring, KeyCorrupt, NoAnchorKey, Sign}"
      using assms(3) [of e s1] Pair Inl by blast+
    then have "sign_outcome Q key p st (Inl e, s1)"
      using assms(1,2) silent_trans by (intro sign_outcome_err) auto
    then show ?thesis unfolding Pair Inl rpc_then_def by simp
  next
    case (Inr x)
    have "silent st s1" "anchor_cards s1 = anchor_cards st"
      using assms(4) [of x s1] Pair Inr assms(1,2) silent_trans by auto
    then show ?thesis using assms(5) [of x s1] Pair Inr by (simp add: rpc_then_def)
  qed
qed

lemma on_client_step:
  assumes "silent st s0" and "anchor_cards s0 = anchor_cards st"
    and "\<And>cl. sent_raw (rc_wire (snd (g cl))) = sent_raw (rc_wire cl)"
    and "\<And>x s1. fst (g (aw_client s0)) = Inr x \<Longrightarrow> silent st s1 \<Longrightarrow> anchor_cards s1 = anchor_cards st \<Longrightarrow> sign_outcome Q key p st (f x s1)"
  shows "sign_outcome Q key p st (rpc_then (on_client g s0) f)"
proof (rule sign_outcome_step [OF assms(1,2)])
  fix e s1
  assume r: "on_client g s0 = (Inl e, s1)"
  show "silent s0 s1 \<and> anchor_cards s1 = anchor_cards s0 \<and>
      ((\<exists>m. e = AnchorRpc m) \<or> e \<in> {RegistryMismatch, Keyring, KeyCorrupt, NoAnchorKey, Sign})"
    using on_client_silent [OF r assms(3)] by simp
next
  fix x s1
  assume r: "on_client g s0 = (Inr x, s1)"
  then show "silent s0 s1 \<and> anchor_cards s1 = anchor_cards s0" using on_client_silent(1,2) [OF r assms(3)] by simp
  assume "silent st s1" "anchor_cards s1 = anchor_cards st"
  then show "sign_outcome Q key p st (f x s1)" using assms(4) on_client_silent(3) [OF r assms(3) refl] by blast
qed

lemma sign_outcome_gate:
  assumes "silent st s0" and "anchor_cards s0 = anchor_cards st"
    and "\<And>s1. silent st s1 \<Longrightarrow> anchor_cards s1 = anchor_cards st \<Longrightarrow>
      \<forall>e. gate = Some e \<longrightarrow> (\<exists>cl. fst (verify_network R e cl) = Inr ()) \<Longrightarrow> sign_outcome Q key p st (f () s1)"
  shows "sign_outcome Q key p st (rpc_then (anchor_gate R gate key p s0) f)"
proof -
  obtain r s1 where g: "anchor_gate R gate key p s0 = (r, s1)" by force
  from g show ?thesis
  proof (cases rule: anchor_gate_cases)
    case (err m)
    then have "sign_outcome Q key p st (Inl (AnchorRpc m), s1)"
      using assms(1,2) silent_trans by (intro sign_outcome_kept) auto
    then show ?thesis using g err(1) by (simp add: rpc_then_def)
  next
    case ok
    then have "sign_outcome Q key p st (f () s1)" using assms silent_trans by auto
    then show ?thesis using g ok(1) by (simp add: rpc_then_def)
  qed
qed

lemma sign_outcome_signer:
  assumes "silent st s0" and "anchor_cards s0 = anchor_cards st"
    and "\<And>sk s1. silent st s1 \<Longrightarrow> anchor_cards s1 = anchor_cards st \<Longrightarrow>
      cw_keyring (aw_custody st) ANCHOR_KEY_ACCOUNT = Some sk \<Longrightarrow> sign_outcome Q key p st (f sk s1)"
  shows "sign_outcome Q key p st (rpc_then (anchor_signer A E s0) f)"
proof -
  obtain r s1 where g: "anchor_signer A E s0 = (r, s1)" by force
  from g show ?thesis
  proof (cases rule: anchor_signer_cases)
    case (err e)
    then have "sign_outcome Q key p st (Inl e, s1)"
      using assms(1,2) silent_trans by (intro sign_outcome_err) auto
    then show ?thesis using g err(1) by (simp add: rpc_then_def)
  next
    case (ok sk)
    moreover have "cw_keyring (aw_custody s0) = cw_keyring (aw_custody st)" using assms(1) by (simp add: silent_def)
    ultimately have "sign_outcome Q key p st (f sk s1)" using assms silent_trans by auto
    then show ?thesis using g ok(1) by (simp add: rpc_then_def)
  qed
qed

lemma cap_and_sign_outcome:
  assumes "silent st s" and "anchor_cards s = anchor_cards st"
    and "\<And>stx. price \<le> at_max_gas_price_wei cfg \<Longrightarrow> limit \<le> at_max_gas_limit cfg \<Longrightarrow>
      k_sign_legacy_tx K sk (anchor_fields p nonce price limit) ANCHOR_CHAIN_ID = Some stx \<Longrightarrow> Q stx nonce from"
  shows "sign_outcome Q key p st (anchor_cap_and_sign K cfg key p sk from nonce price limit s)"
proof -
  note kept = sign_outcome_keep [OF assms(1,2)]
  show ?thesis
  proof (cases "price \<le> at_max_gas_price_wei cfg \<and> limit \<le> at_max_gas_limit cfg")
    case True
    then show ?thesis
      using assms by (auto simp: anchor_cap_and_sign_def sign_outcome_def split: option.splits)
  next
    case False
    then show ?thesis unfolding anchor_cap_and_sign_def using kept by (auto simp only: if_True if_False not_le split: if_splits)
  qed
qed

lemma anchor_sign_outcome:
  "sign_outcome (signed_for_card X A K R (cw_keyring (aw_custody st)) gate pinned_registry cfg p) key p st
     (anchor_sign X A K E R gate pinned_registry cfg key p st)"
proof (cases "anchor_parse_address X (to_ascii_lowercase pinned_registry) = Some (ap_registry p)")
  case False
  then show ?thesis
    by (cases "anchor_parse_address X (to_ascii_lowercase pinned_registry)")
      (simp_all add: anchor_sign_def rpc_then_def ok_or_def sign_outcome_err)
next
  case a: True
  let ?P = "signed_for_card X A K R (cw_keyring (aw_custody st)) gate pinned_registry cfg p"
  have sound: "?P stx nonce (address_of X A sk)"
    if "\<forall>e. gate = Some e \<longrightarrow> (\<exists>cl. fst (verify_network R e cl) = Inr ())"
      "cw_keyring (aw_custody st) ANCHOR_KEY_ACCOUNT = Some sk" "fst (pending_nonce R (address_of X A sk) cl1) = Inr nonce"
      "fst (gas_price R cl2) = Inr price" "price \<le> at_max_gas_price_wei cfg" "limit \<le> at_max_gas_limit cfg"
      "k_sign_legacy_tx K sk (anchor_fields p nonce price limit) ANCHOR_CHAIN_ID = Some stx"
    for sk nonce price limit cl1 cl2 stx
    unfolding signed_for_card_def using a that unfolding anchor_fields_def by blast
  have "anchor_sign X A K E R gate pinned_registry cfg key p st = rpc_then (anchor_gate R gate key p st) (\<lambda>_ st.
     rpc_then (anchor_signer A E st) (\<lambda>sk st.
     let from = address_of X A sk in
     rpc_then (on_client (pending_nonce R from) st) (\<lambda>nonce st.
     rpc_then (on_client (gas_price R) st) (\<lambda>price st.
     rpc_then (on_client (estimate_gas R (VObject
         [(''data'', VString (''0x'' @ hex_encode X (anchor_calldata (aq_commitment (ap_req p))))), (''from'', VString from),
          (''to'', VString (''0x'' @ hex_encode X (ap_registry p))), (''value'', VString ''0x0'')])) st) (\<lambda>limit st.
     anchor_cap_and_sign K cfg key p sk from nonce price limit st)))))" (is "_ = ?rest")
    using a by (simp add: anchor_sign_def rpc_then_def ok_or_def)
  moreover have "sign_outcome ?P key p st ?rest"
    unfolding Let_def
    by (rule sign_outcome_gate, simp, simp, rule sign_outcome_signer, assumption, assumption,
        (rule on_client_step, assumption, assumption, simp)+, rule cap_and_sign_outcome, assumption, assumption)
      (rule sound; assumption)
  ultimately show ?thesis by simp
qed

lemma anchor_record_cases:
  assumes "anchor_record X C F G now key p stx nonce from st = (r, st')"
  obtains (err) m where "r = Inl (NotRecorded m)" "anchor_sent st' = anchor_sent st"
      "anchor_cards st' = bt_insert key p (anchor_cards st)" "an_next_id (aw_ceremony st') = an_next_id (aw_ceremony st)"
  | (ok) first where "r = Inr first" "G (BeforeSend (in_flight_of X p stx nonce from) # aw_calls st) = None"
      "aw_calls st' = BeforeSend (in_flight_of X p stx nonce from) # aw_calls st" "aw_client st' = aw_client st"
      "try_record_for C F (ar_tx_hash (in_flight_of X p stx nonce from)) from nonce now (an_submitted (aw_ceremony st)) (aw_dir st)
        = (Inr first, an_submitted (aw_ceremony st'), aw_dir st')"
      "anchor_cards st' = anchor_cards st" "an_next_id (aw_ceremony st') = an_next_id (aw_ceremony st)"
proof -
  let ?fl = "in_flight_of X p stx nonce from"
  obtain q L D where t: "try_record_for C F (ar_tx_hash ?fl) from nonce now (an_submitted (aw_ceremony st)) (aw_dir st) = (q, L, D)"
    by (metis prod_cases3)
  consider (refused) g where "G (BeforeSend ?fl # aw_calls st) = Some g"
    | (unwritten) e where "G (BeforeSend ?fl # aw_calls st) = None" "q = Inl e"
    | (written) first where "G (BeforeSend ?fl # aw_calls st) = None" "q = Inr first"
    by (cases "G (BeforeSend ?fl # aw_calls st)"; cases q) auto
  then show thesis
  proof cases
    case refused
    then show thesis using assms err by (auto simp: anchor_record_def Let_def keep_def)
  next
    case unwritten
    then show thesis using assms t err by (auto simp: anchor_record_def Let_def keep_def)
  next
    case written
    then show thesis using assms t ok by (auto simp: anchor_record_def Let_def)
  qed
qed

text \<open>The card goes back after a send only when these bytes were never submitted before, the node refused them for good and
  says it does not hold them.\<close>

lemma anchor_send_cases:
  assumes "anchor_send X R gate key p stx nonce from first st = (r, st')"
  obtains (kept) e cl where "r = Inl (AnchorRpc (rpc_error_text e))" "anchor_cards st' = bt_insert key p (anchor_cards st)"
      "first" "sole_attempt (an_submitted (aw_ceremony st)) (ar_tx_hash (in_flight_of X p stx nonce from))"
      "is_definitive_send_error e" "fst (transaction_known R (ar_tx_hash (in_flight_of X p stx nonce from)) cl) = Inr False"
  | (dropped) e where "r = Inl (AnchorRpc (rpc_error_text e))" "anchor_cards st' = anchor_cards st"
  | (sent) h where "r = Inr h" "anchor_cards st' = anchor_cards st"
proof -
  let ?h = "ar_tx_hash (in_flight_of X p stx nonce from)"
  obtain q cl where s: "send_raw_transaction_gated X R (stx_raw stx) gate (aw_client st) = (q, cl)" by force
  show thesis
  proof (cases q)
    case (Inr h)
    then show thesis using assms s sent by (auto simp: anchor_send_def)
  next
    case (Inl e)
    then have f: "anchor_send_failed X R key p stx nonce from first e (st\<lparr>aw_client := cl\<rparr>) = (r, st')"
      using assms s by (simp add: anchor_send_def)
    obtain t cl2 where t: "transaction_known R ?h cl = (t, cl2)" by force
    show thesis
    proof (cases "first \<and> sole_attempt (an_submitted (aw_ceremony st)) ?h \<and> is_definitive_send_error e \<and> t = Inr False")
      case True
      then show thesis
        using f t by (intro kept [of e cl]) (auto simp: anchor_send_failed_def anchor_send_refused_def Let_def keep_def)
    next
      case False
      then show thesis
        using f t dropped [of e]
        by (auto simp: anchor_send_failed_def anchor_send_refused_def Let_def split: if_splits sum.splits bool.splits)
    qed
  qed
qed

lemma anchor_send_frame:
  assumes "anchor_send X R gate key p stx nonce from first st = (r, st')"
  shows "anchor_sent st' = anchor_sent st \<or>
      anchor_sent st' = anchor_sent st @ [VArray [VString (''0x'' @ hex_encode X (stx_raw stx))]]"
    and "an_submitted (aw_ceremony st') = an_submitted (aw_ceremony st)" and "aw_dir st' = aw_dir st"
    and "set (aw_calls st) \<subseteq> set (aw_calls st')" and "an_next_id (aw_ceremony st') = an_next_id (aw_ceremony st)"
proof -
  let ?h = "ar_tx_hash (in_flight_of X p stx nonce from)"
  obtain q cl where s: "send_raw_transaction_gated X R (stx_raw stx) gate (aw_client st) = (q, cl)" by force
  obtain t cl2 where t: "transaction_known R ?h cl = (t, cl2)" by force
  have q: "sent_raw (rc_wire cl2) = sent_raw (rc_wire cl)" using more_reads_quiet(2) [of R ?h cl] t by simp
  note defs = anchor_send_def anchor_send_failed_def Let_def keep_def
  show "anchor_sent st' = anchor_sent st \<or>
      anchor_sent st' = anchor_sent st @ [VArray [VString (''0x'' @ hex_encode X (stx_raw stx))]]"
    using gated_send_once [OF s] assms s t q
    by (auto simp: defs split: sum.splits if_splits bool.splits)
  show "an_submitted (aw_ceremony st') = an_submitted (aw_ceremony st)" "aw_dir st' = aw_dir st"
    "set (aw_calls st) \<subseteq> set (aw_calls st')" "an_next_id (aw_ceremony st') = an_next_id (aw_ceremony st)"
    using assms s t by (auto simp: defs split: sum.splits if_splits bool.splits)
qed

lemma anchor_outcome_frame:
  assumes "anchor_outcome R cfg p nonce from h st = (r, st')"
  shows "anchor_sent st' = anchor_sent st" "aw_ceremony st' = aw_ceremony st" "aw_dir st' = aw_dir st"
    "aw_calls st' = aw_calls st" "\<exists>x. r = Inr x"
  using assms poll_quiet [of R h "at_poll_attempts cfg" "aw_client st"]
  by (auto simp: anchor_outcome_def Let_def split: prod.splits)

section \<open>A whole approval\<close>

text \<open>The endings of an approval: refused with the card in place, refused after it was consumed but before anything was sent,
  and past the records, where the send itself decides.\<close>

lemma anchor_approve_cases:
  assumes "anchor_approve_gated X A K E R C F G now s pinned_registry cfg gate st = (r, st')"
  obtains (untaken) e where "r = Inl e" "e = AnchorLocked \<or> e = UnknownAnchor" "anchor_sent st' = anchor_sent st"
      "anchor_cards st' = anchor_cards st" "an_next_id (aw_ceremony st') = an_next_id (aw_ceremony st)"
  | (dropped) key p e where "r = Inl e" "parse_u64 s = Some key" "bt_get key (anchor_cards st) = Some p"
      "(\<exists>m. e = AnchorRpc m) \<or> e \<in> {RegistryMismatch, Keyring, KeyCorrupt, NoAnchorKey, Sign}"
      "anchor_sent st' = anchor_sent st" "anchor_cards st' = bt_remove key (anchor_cards st)"
      "an_next_id (aw_ceremony st') = an_next_id (aw_ceremony st)"
  | (kept) key p e where "r = Inl e" "parse_u64 s = Some key" "bt_get key (anchor_cards st) = Some p"
      "\<exists>m. e = AnchorRpc m \<or> e = GasOverCap m \<or> e = NotRecorded m" "anchor_sent st' = anchor_sent st"
      "anchor_cards st' = bt_insert key p (bt_remove key (anchor_cards st))"
      "an_next_id (aw_ceremony st') = an_next_id (aw_ceremony st)"
  | (tried) key p stx nonce addr first where "parse_u64 s = Some key" "bt_get key (anchor_cards st) = Some p"
      "fst (is_unlocked E (aw_custody st))"
      "signed_for_card X A K R (cw_keyring (aw_custody st)) gate pinned_registry cfg p stx nonce addr"
      "G (BeforeSend (in_flight_of X p stx nonce addr) # aw_calls st) = None"
      "BeforeSend (in_flight_of X p stx nonce addr) \<in> set (aw_calls st')"
      "try_record_for C F (ar_tx_hash (in_flight_of X p stx nonce addr)) addr nonce now (an_submitted (aw_ceremony st)) (aw_dir st)
        = (Inr first, an_submitted (aw_ceremony st'), aw_dir st')"
      "anchor_sent st' = anchor_sent st \<or>
       anchor_sent st' = anchor_sent st @ [VArray [VString (''0x'' @ hex_encode X (stx_raw stx))]]"
      "an_next_id (aw_ceremony st') = an_next_id (aw_ceremony st)"
      "(\<exists>e cl. r = Inl (AnchorRpc (rpc_error_text e)) \<and> first \<and>
          sole_attempt (an_submitted (aw_ceremony st')) (ar_tx_hash (in_flight_of X p stx nonce addr)) \<and>
          is_definitive_send_error e \<and> fst (transaction_known R (ar_tx_hash (in_flight_of X p stx nonce addr)) cl) = Inr False \<and>
          anchor_cards st' = bt_insert key p (bt_remove key (anchor_cards st))) \<or>
       anchor_cards st' = bt_remove key (anchor_cards st) \<and>
         ((\<exists>m. r = Inl (AnchorRpc m)) \<or>
          (\<exists>h st4. anchor_outcome R cfg p nonce addr h st4 = (r, st')))"
proof -
  from assms [unfolded anchor_approve_gated_def] show thesis
  proof (cases rule: rpc_then_cases)
    case err: (failed e)
    from err(1) show thesis
      by (cases rule: anchor_take_cases) (use err(2) in \<open>auto intro: untaken simp: silent_def\<close>)
  next
    case (ok kp s1)
    obtain key p where kp: "kp = (key, p)" by force
    from ok(1) have t: "parse_u64 s = Some key" "bt_get key (anchor_cards st) = Some p" "fst (is_unlocked E (aw_custody st))"
      "silent st s1" "anchor_cards s1 = bt_remove key (anchor_cards st)"
      unfolding kp by (cases rule: anchor_take_cases; simp)+
    have kr: "cw_keyring (aw_custody s1) = cw_keyring (aw_custody st)" using t(4) by (simp add: silent_def)
    note so = anchor_sign_outcome [of X A K R s1 gate pinned_registry cfg p key E, unfolded kr]
    from ok(2) [unfolded kp prod.case] show thesis
    proof (cases rule: rpc_then_cases)
      case err: (failed e)
      from so t(4) have q: "anchor_sent st' = anchor_sent st" "an_next_id (aw_ceremony st') = an_next_id (aw_ceremony st)"
        unfolding err(1) by (auto simp: sign_outcome_def silent_def)
      from so have "anchor_cards st' = anchor_cards s1 \<and>
          ((\<exists>m. e = AnchorRpc m) \<or> e \<in> {RegistryMismatch, Keyring, KeyCorrupt, NoAnchorKey, Sign}) \<or>
          anchor_cards st' = bt_insert key p (anchor_cards s1) \<and> (\<exists>m. e = AnchorRpc m \<or> e = GasOverCap m)"
        unfolding err(1) by (simp add: sign_outcome_def)
      then show thesis using dropped [OF err(2) t(1,2)] kept [OF err(2) t(1,2)] q t(5) by auto
    next
      case (ok sx s2)
      obtain stx nonce addr where sx: "sx = (stx, nonce, addr)" by (metis prod_cases3)
      from so have sg: "silent s1 s2" "anchor_cards s2 = anchor_cards s1"
        "signed_for_card X A K R (cw_keyring (aw_custody st)) gate pinned_registry cfg p stx nonce addr"
        unfolding ok(1) sx by (auto simp: sign_outcome_def)
      have s2: "silent st s2" "anchor_cards s2 = bt_remove key (anchor_cards st)"
        using silent_trans [OF t(4) sg(1)] sg(2) t(5) by simp_all
      from ok(2) [unfolded sx prod.case] show thesis
      proof (cases rule: rpc_then_cases)
        case err: (failed e)
        from err(1) show thesis
          by (cases rule: anchor_record_cases) (use err(2) kept [OF _ t(1,2)] s2 in \<open>auto simp: silent_def\<close>)
      next
        case (ok first s3)
        from ok(1) have rc: "G (BeforeSend (in_flight_of X p stx nonce addr) # aw_calls st) = None"
          "aw_calls s3 = BeforeSend (in_flight_of X p stx nonce addr) # aw_calls st" "anchor_sent s3 = anchor_sent st"
          "try_record_for C F (ar_tx_hash (in_flight_of X p stx nonce addr)) addr nonce now (an_submitted (aw_ceremony st)) (aw_dir st)
            = (Inr first, an_submitted (aw_ceremony s3), aw_dir s3)"
          "anchor_cards s3 = bt_remove key (anchor_cards st)" "an_next_id (aw_ceremony s3) = an_next_id (aw_ceremony st)"
          using s2 by (cases rule: anchor_record_cases; simp add: silent_def)+
        note base = tried [OF t(1-3) sg(3) rc(1)]
        from ok(2) show thesis
        proof (cases rule: rpc_then_cases)
          case err: (failed e)
          note fr = anchor_send_frame [OF err(1)]
          from err(1) show thesis
            by (cases rule: anchor_send_cases) (rule base; use fr rc err(2) in auto)+
        next
          case (ok h s4)
          note fr = anchor_send_frame [OF ok(1)]
          have c4: "anchor_cards s4 = anchor_cards s3" using ok(1) by (cases rule: anchor_send_cases) auto
          note o = anchor_outcome_frame [OF ok(2)]
          show thesis by (rule base) (use fr rc o c4 ok(2) in auto)
        qed
      qed
    qed
  qed
qed

lemma bt_reinsert:
  assumes "bt_wf m" and "bt_get k m = Some v"
  shows "bt_insert k v (bt_remove k m) = m"
  using assms
proof (induction m)
  case (Cons e m)
  obtain k' v' where e: "e = (k', v')" by force
  have gt: "\<And>x. x \<in> fst ` set m \<Longrightarrow> k' < x" and m: "bt_wf m" using Cons.prems(1) e by (auto simp: bt_wf_def)
  show ?case
  proof (cases "k' = k")
    case True
    then have "bt_remove k m = m" using gt by (fastforce simp: bt_remove_def filter_id_conv)
    moreover have "bt_insert k v m = (k, v) # m" using gt True by (cases m) auto
    moreover have "v' = v" using Cons.prems(2) e True by (simp add: bt_get_def)
    ultimately show ?thesis using e True by (simp add: bt_remove_def)
  next
    case False
    then have g: "bt_get k m = Some v" using Cons.prems(2) e by (simp add: bt_get_def)
    then have "k \<in> fst ` set m" by (metis bt_get_None option.distinct(1))
    then have "k' < k" by (rule gt)
    then show ?thesis using Cons.IH [OF m g] e False by (simp add: bt_remove_def)
  qed
qed (simp add: bt_get_def)

text \<open>
  C29. An approval puts at most one transaction on the wire, and only this one: a card with that id was pending, the
  vault was unlocked, and the anchor key, read from its own account of the key ring, signed the card's commitment to the
  registry that both the card and the caller name, on chain 40204, with no value, within the gas caps and after the network
  gate. The transaction was announced to the caller and accepted, and written to the record of submitted
  transactions, before it went out.
\<close>

theorem anchor_sends_only_the_card:
  "case anchor_approve_gated X A K E R C F G now s pinned_registry cfg gate st of (r, st') \<Rightarrow>
     anchor_sent st' = anchor_sent st \<or>
     (\<exists>key p stx nonce addr first.
        parse_u64 s = Some key \<and> bt_get key (anchor_cards st) = Some p \<and> fst (is_unlocked E (aw_custody st)) \<and>
        signed_for_card X A K R (cw_keyring (aw_custody st)) gate pinned_registry cfg p stx nonce addr \<and>
        G (BeforeSend (in_flight_of X p stx nonce addr) # aw_calls st) = None \<and>
        BeforeSend (in_flight_of X p stx nonce addr) \<in> set (aw_calls st') \<and>
        try_record_for C F (ar_tx_hash (in_flight_of X p stx nonce addr)) addr nonce now (an_submitted (aw_ceremony st)) (aw_dir st)
          = (Inr first, an_submitted (aw_ceremony st'), aw_dir st') \<and>
        anchor_sent st' = anchor_sent st @ [VArray [VString (''0x'' @ hex_encode X (stx_raw stx))]])"
proof -
  obtain r st' where a: "anchor_approve_gated X A K E R C F G now s pinned_registry cfg gate st = (r, st')" by force
  from a show ?thesis
  proof (cases rule: anchor_approve_cases)
    case (tried key p stx nonce addr first)
    from tried(8) show ?thesis
    proof
      assume "anchor_sent st' = anchor_sent st"
      then show ?thesis by (simp add: a)
    next
      assume w: "anchor_sent st' = anchor_sent st @ [VArray [VString (''0x'' @ hex_encode X (stx_raw stx))]]"
      show ?thesis unfolding a prod.case using tried(1-7) w by blast
    qed
  qed (simp_all add: a)
qed


section \<open>Receipts\<close>

lemma poll_receipt_of_hash: "fst (poll_receipt R h n cl) = Inr rc \<Longrightarrow> r_tx_hash rc = h"
proof (induction n arbitrary: cl)
  case (Suc n)
  obtain t c1 where t: "transaction_receipt R h cl = (t, c1)" by force
  then show ?case
    using Suc receipt_of_hash [of R h cl rc c1] by (cases t) (auto simp: rpc_then_def split: option.splits)
qed simp

text \<open>
  C32. A day counts as anchored only on a mined receipt of status 1: an approval whose receipt confirms was of a pending
  card of that day and commitment, the node answered the receipt of the transaction it names, in that block and with status
  1, and the card is gone, so no second approval finds it.
\<close>

theorem anchored_only_when_mined:
  assumes "anchor_approve_gated X A K E R C F G now s pinned_registry cfg gate st = (Inr rcpt, st')" and "receipt_confirms rcpt"
  shows "\<exists>key p rc cl.
      parse_u64 s = Some key \<and> bt_get key (anchor_cards st) = Some p \<and> bt_get key (anchor_cards st') = None \<and>
      ar_day rcpt = aq_day (ap_req p) \<and> ar_commitment rcpt = aq_commitment (ap_req p) \<and>
      fst (poll_receipt R (ar_tx_hash rcpt) (at_poll_attempts cfg) cl) = Inr rc \<and> r_tx_hash rc = ar_tx_hash rcpt \<and>
      r_status rc = Some 1 \<and> ar_block_number rcpt = Some (r_block_number rc)"
  using assms(1)
proof (cases rule: anchor_approve_cases)
  case (tried key p stx nonce addr first)
  from tried(10) obtain h st4 where o: "anchor_outcome R cfg p nonce addr h st4 = (Inr rcpt, st')"
    and c: "anchor_cards st' = bt_remove key (anchor_cards st)" by auto
  obtain q cl where q: "poll_receipt R h (at_poll_attempts cfg) (aw_client st4) = (q, cl)" by force
  have f: "ar_tx_hash rcpt = h" "ar_day rcpt = aq_day (ap_req p)" "ar_commitment rcpt = aq_commitment (ap_req p)"
    using o q by (auto simp: anchor_outcome_def Let_def)
  obtain rc where rc: "q = Inr rc" "r_status rc = Some 1" "ar_block_number rcpt = Some (r_block_number rc)"
    using o q assms(2) by (cases q) (auto simp: anchor_outcome_def Let_def receipt_confirms_def)
  have "fst (poll_receipt R (ar_tx_hash rcpt) (at_poll_attempts cfg) (aw_client st4)) = Inr rc" using q rc(1) f(1) by simp
  then show ?thesis
    using tried(1,2) f rc c poll_receipt_of_hash [of R "ar_tx_hash rcpt"] by (metis bt_get_remove)
qed simp_all

section \<open>Cards\<close>

lemma anchor_inv_remove: "anchor_inv X m \<Longrightarrow> anchor_inv X (bt_remove key m)"
  by (auto simp: anchor_inv_def bt_wf_remove dest!: subsetD [OF set_bt_remove])

lemma anchor_inv_insert:
  assumes "anchor_inv X m" and "anchor_card_ok X p" and "\<And>e. e \<in> set m \<Longrightarrow> aq_day (ap_req (snd e)) \<noteq> aq_day (ap_req p)"
  shows "anchor_inv X (bt_insert key p m)"
proof -
  have wf: "bt_wf m" using assms(1) by (simp add: anchor_inv_def)
  have days: "e = e'" if e: "e \<in> insert (key, p) {e \<in> set m. fst e \<noteq> key}" "e' \<in> insert (key, p) {e \<in> set m. fst e \<noteq> key}"
    and same: "aq_day (ap_req (snd e)) = aq_day (ap_req (snd e'))" for e e'
  proof -
    consider "e = (key, p)" "e' = (key, p)" | "e \<in> set m" "e' = (key, p)" | "e = (key, p)" "e' \<in> set m" | "e \<in> set m" "e' \<in> set m"
      using e by auto
    then show ?thesis
    proof cases
      case 4
      then show ?thesis using assms(1) same by (simp add: anchor_inv_def)
    qed (use assms(3) [of e] assms(3) [of e'] same in auto)
  qed
  show ?thesis
    unfolding anchor_inv_def set_bt_insert_eq [OF wf]
    using days assms(1,2) bt_wf_insert [OF wf] by (auto simp: anchor_inv_def)
qed

lemma check_request_card:
  assumes "check_request X req pinned_registry = Inr a"
  shows "anchor_card_ok X \<lparr>ap_req = req, ap_registry = a\<rparr>"
  using assms
  by (auto simp: check_request_def anchor_card_ok_def and_then_Inr_iff ok_or_def decode_anchor_iff split: if_splits option.splits)

lemma anchor_request_inv:
  assumes "anchor_inv X (an_pending c)"
  shows "anchor_inv X (an_pending (snd (anchor_request X req pinned_registry c)))"
proof (cases "check_request X req pinned_registry")
  case (Inl e)
  then show ?thesis using assms by (simp add: anchor_request_def rpc_then_def)
next
  case (Inr a)
  show ?thesis
  proof (cases "find (\<lambda>(k, p). aq_day (ap_req p) = aq_day req) (an_pending c)")
    case None
    then have "aq_day (ap_req (snd e)) \<noteq> aq_day req" if "e \<in> set (an_pending c)" for e
      using that by (cases e) (auto simp: find_None_iff)
    then have "anchor_inv X (bt_insert (an_next_id c) \<lparr>ap_req = req, ap_registry = a\<rparr> (an_pending c))"
      using anchor_inv_insert [OF assms check_request_card [OF Inr]] by simp
    then show ?thesis using Inr None by (simp add: anchor_request_def rpc_then_def Let_def)
  next
    case (Some e)
    then show ?thesis using Inr assms by (cases e) (simp add: anchor_request_def rpc_then_def)
  qed
qed

lemma anchor_approve_cards:
  assumes "bt_wf (anchor_cards st)"
  shows "anchor_cards (snd (anchor_approve_gated X A K E R C F G now s pinned_registry cfg gate st)) = anchor_cards st \<or>
    (\<exists>key. anchor_cards (snd (anchor_approve_gated X A K E R C F G now s pinned_registry cfg gate st)) = bt_remove key (anchor_cards st))"
proof -
  obtain r st' where a: "anchor_approve_gated X A K E R C F G now s pinned_registry cfg gate st = (r, st')" by force
  from a show ?thesis
    by (cases rule: anchor_approve_cases) (use a bt_reinsert [OF assms] in auto)
qed

lemma anchor_reach_inv: "anchor_reach X c \<Longrightarrow> anchor_inv X (an_pending c)"
proof (induction rule: anchor_reach.induct)
  case reach_new
  then show ?case by (simp add: anchor_new_def anchor_inv_def)
next
  case (reach_reject c s)
  then show ?case
    by (cases "parse_u64 s") (auto simp: anchor_reject_def rpc_then_def ok_or_def anchor_inv_remove)
next
  case (reach_approve st A K E R C F G now s pinned_registry cfg gate)
  have "bt_wf (anchor_cards st)" using reach_approve.IH by (simp add: anchor_inv_def)
  from anchor_approve_cards [OF this, of X A K E R C F G now s pinned_registry cfg gate] reach_approve.IH
  show ?case by (elim disjE exE) (simp_all add: anchor_inv_remove)
qed (simp_all add: use_submitted_log_def anchor_request_inv)

text \<open>
  C30. After any sequence of requests, rejections and approvals the pending cards are filed under distinct ids, no two are for one
  day, and each states exactly the anchor call: chain 40204, no value, the destination its card shows,
  the date of its day, and calldata that carries its commitment and nothing else.
\<close>

theorem one_sound_card_per_day:
  assumes "anchor_reach X c"
  shows "distinct (map fst (an_pending c)) \<and> distinct (map (aq_day \<circ> ap_req \<circ> snd) (an_pending c)) \<and>
    list_all (anchor_card_ok X \<circ> snd) (an_pending c)"
proof -
  have i: "anchor_inv X (an_pending c)" using anchor_reach_inv [OF assms] .
  then have d: "distinct (map fst (an_pending c))" by (simp add: anchor_inv_def bt_wf_distinct)
  then have "distinct (an_pending c)" by (simp add: distinct_map)
  moreover have "inj_on (aq_day \<circ> ap_req \<circ> snd) (set (an_pending c))" using i by (auto simp: anchor_inv_def inj_on_def)
  ultimately show ?thesis using d i by (auto simp: distinct_map anchor_inv_def list_all_iff)
qed

text \<open>The rule of one card per day holds between calls, not during an approval: the card is out of the map while the node is
  asked, so a request for its day raises a second one, and a refusal then puts the first back beside it.\<close>

theorem request_during_approval_doubles_the_day:
  assumes "bt_wf (anchor_cards st)" and take: "anchor_take E s st = (Inr (key, p), st1)"
    and days: "list_all (\<lambda>e. fst e = key \<or> aq_day (ap_req (snd e)) \<noteq> aq_day (ap_req p)) (anchor_cards st)"
    and req: "check_request X req pinned_registry = Inr a" "aq_day req = aq_day (ap_req p)" "an_next_id (aw_ceremony st) \<noteq> key"
    and put: "keep key p e (st1\<lparr>aw_ceremony := snd (anchor_request X req pinned_registry (aw_ceremony st1))\<rparr>) = (r, st2)"
  shows "bt_get key (anchor_cards st2) = Some p \<and>
    bt_get (an_next_id (aw_ceremony st)) (anchor_cards st2) = Some \<lparr>ap_req = req, ap_registry = a\<rparr> \<and>
    aq_day (ap_req p) = aq_day req"
proof -
  let ?q = "\<lparr>ap_req = req, ap_registry = a\<rparr>"
  from take have t: "anchor_cards st1 = bt_remove key (anchor_cards st)" "an_next_id (aw_ceremony st1) = an_next_id (aw_ceremony st)"
    by (cases rule: anchor_take_cases; simp add: silent_def)+
  have wf: "bt_wf (anchor_cards st1)" using assms(1) t(1) bt_wf_remove by simp
  have "find (\<lambda>(k, p). aq_day (ap_req p) = aq_day req) (anchor_cards st1) = None"
    using days req(2) by (auto simp: t(1) bt_remove_def find_None_iff list_all_iff)
  then have r: "an_pending (snd (anchor_request X req pinned_registry (aw_ceremony st1)))
      = bt_insert (an_next_id (aw_ceremony st)) ?q (anchor_cards st1)"
    using req(1) t(2) by (simp add: anchor_request_def rpc_then_def Let_def)
  have "anchor_cards st2 = bt_insert key p (bt_insert (an_next_id (aw_ceremony st)) ?q (anchor_cards st1))"
    using keep_kept(3) [OF put] r by simp
  then show ?thesis using wf bt_wf_insert [OF wf] req(2,3) by (simp add: bt_get_insert)
qed

section \<open>The anchor key\<close>

text \<open>
  Making sure there is an anchor key touches no other account of the key ring and never replaces a key: the ring is
  as before, or had no anchor key and now holds the one just generated. The address it answers is that of the key the
  ring holds, and a key that is stored but unusable is reported.
\<close>

theorem anchor_key_never_replaced:
  "case ensure_anchor_key X A E w of (r, w') \<Rightarrow>
     (cw_keyring w' = cw_keyring w \<or>
      cw_keyring w ANCHOR_KEY_ACCOUNT = None \<and>
        (\<exists>t. cw_keyring w' = (cw_keyring w)(ANCHOR_KEY_ACCOUNT \<mapsto> ac_random_key A t))) \<and>
     (case r of
        Inr addr \<Rightarrow> \<exists>sk. cw_keyring w' ANCHOR_KEY_ACCOUNT = Some sk \<and> addr = address_of X A sk
      | Inl e \<Rightarrow> e = Keyring \<or> e = KeyCorrupt \<and> cw_keyring w' = cw_keyring w \<and> cw_keyring w ANCHOR_KEY_ACCOUNT \<noteq> None)"
proof (cases "ce_keyring_ok E (cw_tick w)")
  case False
  then show ?thesis
    by (simp add: ensure_anchor_key_def load_key_def keyring_get_def rpc_then_def tick_def Let_def)
next
  case True
  show ?thesis
  proof (cases "cw_keyring w ANCHOR_KEY_ACCOUNT")
    case None
    then show ?thesis
      using True
      by (auto simp: ensure_anchor_key_def load_key_def keyring_get_def keyring_set_def rpc_then_def tick_def Let_def
          map_err_def and_then_def)
  next
    case (Some sk)
    then show ?thesis
      using True by (simp add: ensure_anchor_key_def load_key_def keyring_get_def rpc_then_def tick_def Let_def)
  qed
qed

end
