(* ===== verification/AnchorDemo.thy ===== *)
theory AnchorDemo
  imports AnchorProps CustodyDemo CeremonyDemo
begin

text \<open>
  The anchor ceremony on concrete inputs: the card of the first day, approved against a node that mines at
  once, and refused when the registry is no longer the pinned one.
\<close>

definition anchor_zero :: string where "anchor_zero = ''0x0000000000000000000000000000000000000000''"

definition anchor_req0 :: AnchorRequest where
  "anchor_req0 =
     \<lparr>aq_day = 0, aq_date = ''1970-01-01'', aq_commitment = replicate 32 5, aq_to = anchor_zero, aq_chain_id = 40204,
      aq_value = 0, aq_data = anchor_calldata (replicate 32 5)\<rparr>"

definition anchor_card0 :: AnchorPending where
  "anchor_card0 = \<lparr>ap_req = anchor_req0, ap_registry = replicate 20 0\<rparr>"

definition anchor_cer0 :: AnchorCeremony where
  "anchor_cer0 = \<lparr>an_pending = [(1, anchor_card0)], an_next_id = 2, an_submitted = unpersisted\<rparr>"

definition anchor_lib0 :: anchor_crypto where
  "anchor_lib0 = \<lparr>ac_key_ok = \<lambda>b. True, ac_random_key = \<lambda>t. be_bytes 32 t, ac_point = \<lambda>sk. 4 # sk\<rparr>"

text \<open>A node that answers every read, and has mined what it is asked about in block 9.\<close>

definition anchor_answer :: "string \<Rightarrow> Value" where
  "anchor_answer method =
     (if method = ''eth_getTransactionReceipt''
      then VObject [(''blockNumber'', VString ''0x9''), (''status'', VString ''0x1'')] else VString ''0x1'')"

definition anchor_node :: rpc_env where
  "anchor_node =
     \<lparr>re_gates = \<lparr>ng_installed = None, ng_added = []\<rparr>, re_debug = (\<lambda>s. s),
      re_node = (\<lambda>bodies. case value_get (last bodies) ''method'' of
         Some (VString m) \<Rightarrow> HttpOk (VObject [(''result'', anchor_answer m)]) | _ \<Rightarrow> HttpFailed ''no method'')\<rparr>"

definition anchor_world0 :: anchor_world where
  "anchor_world0 =
     \<lparr>aw_ceremony = anchor_cer0,
      aw_custody = demo_start\<lparr>cw_session := Some \<lparr>se_data_key = demo_dek, se_unlocked_at = 0\<rparr>,
                              cw_keyring := [ANCHOR_KEY_ACCOUNT \<mapsto> replicate 32 1]\<rparr>,
      aw_client = with_transport, aw_dir = demo_dir, aw_calls = []\<rparr>"

abbreviation anchor_approve0 :: "string \<Rightarrow> (AnchorError + AnchorReceipt) \<times> anchor_world" where
  "anchor_approve0 registry \<equiv>
     anchor_approve_gated ref_deps anchor_lib0 demo_crypto (demo_world 0) anchor_node demo_codec demo_faults (\<lambda>_. None) None (show_nat 1)
       registry (with_placeholder_caps 3) None anchor_world0"

lemma anchor_zero_address: "anchor_parse_address ref_deps (to_ascii_lowercase anchor_zero) = Some (replicate 20 0)"
proof -
  have "to_ascii_lowercase anchor_zero = anchor_zero" by code_simp
  moreover have "hex_decode_ref (drop 2 anchor_zero) = Some (replicate 20 0)" by code_simp
  moreover have "strip_prefix ''0x'' anchor_zero = Some (drop 2 anchor_zero)" "length (drop 2 anchor_zero) = 40" by code_simp+
  ultimately show ?thesis by (simp add: anchor_parse_address_def)
qed

lemma anchor_date0: "date_of_day 0 = Some ''1970-01-01''"
proof -
  have "show_nat 1970 = ''1970''" "show_nat 1 = ''1''"
    by (simp_all add: show_nat.simps [of 1970] show_nat.simps [of 197] show_nat.simps [of 19] show_nat.simps [of "Suc 0"]
        digit_char_def char_of_def bit_0)
  moreover have "date_of_day 0 = Some (iso_date (int 1970) (int 1) (int 1))"
    by (rule date_of_day_eq) (simp_all add: valid_date_def days_in_month_def days_from_civil_epoch)
  ultimately show ?thesis by (simp add: iso_date_def pad_left_def)
qed

lemma anchor_check0: "check_request ref_deps anchor_req0 anchor_zero = Inr (replicate 20 0)"
proof -
  have "decode_anchor_calldata (anchor_calldata (replicate 32 5)) = Inr (replicate 32 5)"
    by (rule decode_anchor_iff [THEN iffD2]) simp
  then show ?thesis
    by (simp add: check_request_def anchor_req0_def ANCHOR_CHAIN_ID_def CITRATE_CHAIN_ID_def anchor_zero_address ok_or_def
        and_then_def anchor_date0)
qed

lemma anchor_id0: "parse_u64 (show_nat 1) = Some 1"
  by (rule parse_u64_show_nat) simp

lemma anchor_node_request:
  "rpc_request anchor_node m p c =
     (Inr (anchor_answer m), c\<lparr>rc_next_id := wrap_inc (rc_next_id c), rc_wire := rc_wire c @ [fst (build_request m p c)]\<rparr>)"
  by (simp add: rpc_request_def build_request_def http_call_def rpc_map_def anchor_node_def check_rpc_allowed_def
      gates_of_def result_of_def value_get_def)

lemma anchor_quantity [simp]: "parse_hex_quantity (VString ''0x1'') f = Inr 1" "parse_hex_quantity (VString ''0x9'') f = Inr 9"
  by (simp_all add: parse_hex_quantity_def parse_quantity_def as_str_def ok_or_def and_then_def from_str_radix_def digit_val_def
      ascii_defs code_def)

theorem one_sound_card_per_day_witness:
  "an_pending (snd (anchor_request ref_deps anchor_req0 anchor_zero anchor_new)) = [(1, anchor_card0)] \<and>
   anchor_card_ok ref_deps anchor_card0"
proof -
  let ?c = "snd (anchor_request ref_deps anchor_req0 anchor_zero anchor_new)"
  have "anchor_reach ref_deps ?c" by (intro anchor_reach.intros)
  moreover have "an_pending ?c = [(1, anchor_card0)]"
    by (simp add: anchor_request_def anchor_check0 rpc_then_def anchor_new_def Let_def anchor_card0_def)
  ultimately show ?thesis using one_sound_card_per_day [of ref_deps ?c] by simp
qed

lemma anchor_take0:
  "anchor_take (demo_world 0) (show_nat 1) anchor_world0 =
     (Inr (1, anchor_card0), anchor_world0\<lparr>aw_ceremony := anchor_cer0\<lparr>an_pending := []\<rparr>\<rparr>)"
proof -
  have u: "is_unlocked (demo_world 0) (aw_custody anchor_world0) = (True, aw_custody anchor_world0)"
    by (simp add: is_unlocked_def expire_if_stale_def anchor_world0_def demo_start_def vault_new_def)
  have "bt_get 1 (anchor_cards anchor_world0) = Some anchor_card0" "bt_remove 1 (anchor_cards anchor_world0) = []"
    by (simp_all add: anchor_world0_def anchor_cer0_def bt_get_def bt_remove_def)
  then show ?thesis
    unfolding anchor_take_def anchor_id0 ok_or_def by (simp add: rpc_then_def u Let_def) (simp add: anchor_world0_def)
qed


section \<open>A mined anchor\<close>

definition anchor_signed0 :: SignedTx where
  "anchor_signed0 = \<lparr>stx_raw = [1, 2, 3], stx_hash = digest_ref [1, 2, 3]\<rparr>"

lemma on_client0:
  assumes "f (aw_client st) = (Inr x, cl)"
  shows "on_client f st = (Inr x, st\<lparr>aw_client := cl\<rparr>)"
  using assms by (simp add: on_client_def map_err_def)

lemma anchor_reads0:
  "\<exists>cl'. pending_nonce anchor_node a cl = (Inr 1, cl')" "\<exists>cl'. gas_price anchor_node cl = (Inr 1, cl')"
  "\<exists>cl'. estimate_gas anchor_node v cl = (Inr 1, cl')"
  "\<exists>cl'. send_raw_transaction_gated ref_deps anchor_node raw None cl = (Inr ''0x1'', cl')"
  "\<exists>cl'. poll_receipt anchor_node h (Suc n) cl =
     (Inr \<lparr>r_tx_hash = h, r_block_number = 9, r_status = Some 1, r_gas_used = None, r_effective_gas_price = None\<rparr>, cl')"
  by (simp_all add: pending_nonce_def gas_price_def estimate_gas_def send_raw_transaction_gated_def transaction_receipt_def
      rpc_map_def rpc_then_def anchor_node_request anchor_answer_def and_then_def ok_or_def as_str_def value_get_def quantity_field_def Let_def)

lemma anchor_signs0:
  assumes "anchor_cards st = []" and "cw_keyring (aw_custody st) ANCHOR_KEY_ACCOUNT = Some (replicate 32 1)"
  obtains st' where "anchor_sign ref_deps anchor_lib0 demo_crypto (demo_world 0) anchor_node None anchor_zero
      (with_placeholder_caps 3) 1 anchor_card0 st = (Inr (anchor_signed0, 1, address_of ref_deps anchor_lib0 (replicate 32 1)), st')"
    "aw_ceremony st' = aw_ceremony st"
proof -
  let ?a = "address_of ref_deps anchor_lib0 (replicate 32 1)"
  let ?v = "VObject
         [(''data'', VString (''0x'' @ hex_encode ref_deps (anchor_calldata (aq_commitment (ap_req anchor_card0))))),
          (''from'', VString ?a), (''to'', VString (''0x'' @ hex_encode ref_deps (ap_registry anchor_card0))), (''value'', VString ''0x0'')]"
  obtain s1 where s1: "anchor_signer anchor_lib0 (demo_world 0) st = (Inr (replicate 32 1), s1)" "aw_ceremony s1 = aw_ceremony st"
    using assms(2)
    by (simp add: anchor_signer_def load_key_def keyring_get_def demo_world_def anchor_lib0_def and_then_def ok_or_def)
  obtain c1 where c1: "pending_nonce anchor_node ?a (aw_client s1) = (Inr 1, c1)" using anchor_reads0(1) by blast
  obtain c2 where c2: "gas_price anchor_node c1 = (Inr 1, c2)" using anchor_reads0(2) by blast
  obtain c3 where c3: "estimate_gas anchor_node ?v c2 = (Inr 1, c3)" using anchor_reads0(3) by blast
  have g: "anchor_gate anchor_node None 1 anchor_card0 st = (Inr (), st)" by (simp add: anchor_gate_def)
  have r: "ap_registry anchor_card0 = replicate 20 0" by (simp add: anchor_card0_def)
  have k: "anchor_cap_and_sign demo_crypto (with_placeholder_caps 3) 1 anchor_card0 (replicate 32 1) ?a 1 1 1 s
      = (Inr (anchor_signed0, 1, ?a), s)" for s
    by (simp add: anchor_cap_and_sign_def with_placeholder_caps_def PLACEHOLDER_MAX_GAS_PRICE_WEI_def
        PLACEHOLDER_MAX_GAS_LIMIT_def demo_crypto_def anchor_signed0_def)
  have "anchor_sign ref_deps anchor_lib0 demo_crypto (demo_world 0) anchor_node None anchor_zero (with_placeholder_caps 3) 1
      anchor_card0 st = (Inr (anchor_signed0, 1, ?a), s1\<lparr>aw_client := c3\<rparr>)"
    unfolding anchor_sign_def anchor_zero_address ok_or_def Let_def option.case r [symmetric]
    using s1 on_client0 [where st = s1, of "pending_nonce anchor_node ?a" 1 c1] c1 on_client0 [where st = "s1\<lparr>aw_client := c1\<rparr>", of "gas_price anchor_node" 1 c2]
      on_client0 [where st = "s1\<lparr>aw_client := c2\<rparr>", of "estimate_gas anchor_node ?v" 1 c3] c2 c3 k g
    by (simp add: rpc_then_def)
  then show thesis using s1(2) that by simp
qed

lemma anchor_records0:
  assumes "an_submitted (aw_ceremony st) = unpersisted"
  obtains first st' where "anchor_record ref_deps demo_codec demo_faults (\<lambda>_. None) None 1 anchor_card0 anchor_signed0 n a st = (Inr first, st')"
proof -
  have "\<exists>first L D. try_record_for demo_codec demo_faults h a n None unpersisted (aw_dir st) = (Inr first, L, D)" for h
    by (simp add: try_record_for_def record_entry_def unpersisted_def log_persist_def contains_def inner_new_def damaged_def Let_def)
  then obtain first L D where
    "try_record_for demo_codec demo_faults (ar_tx_hash (in_flight_of ref_deps anchor_card0 anchor_signed0 n a)) a n None unpersisted
       (aw_dir st) = (Inr first, L, D)" by blast
  then show thesis by (intro that) (simp add: anchor_record_def Let_def assms)
qed

text \<open>The receipt of the mined anchor, which confirms its day.\<close>

theorem anchored_only_when_mined_witness:
  "\<exists>rcpt. fst (anchor_approve0 anchor_zero) = Inr rcpt \<and> receipt_confirms rcpt \<and> ar_day rcpt = 0 \<and>
     ar_commitment rcpt = replicate 32 5 \<and> bt_get 1 (anchor_cards (snd (anchor_approve0 anchor_zero))) = None"
proof -
  let ?a = "address_of ref_deps anchor_lib0 (replicate 32 1)"
  let ?s0 = "anchor_world0\<lparr>aw_ceremony := anchor_cer0\<lparr>an_pending := []\<rparr>\<rparr>"
  obtain s1 where s1: "anchor_sign ref_deps anchor_lib0 demo_crypto (demo_world 0) anchor_node None anchor_zero
      (with_placeholder_caps 3) 1 anchor_card0 ?s0 = (Inr (anchor_signed0, 1, ?a), s1)" "aw_ceremony s1 = aw_ceremony ?s0"
    by (rule anchor_signs0 [of ?s0]) (simp_all add: anchor_world0_def)
  obtain first s2 where s2: "anchor_record ref_deps demo_codec demo_faults (\<lambda>_. None) None 1 anchor_card0 anchor_signed0 1 ?a s1
      = (Inr first, s2)"
    by (rule anchor_records0 [of s1 1 ?a]) (simp_all add: s1(2) anchor_cer0_def)
  obtain c3 where c3: "send_raw_transaction_gated ref_deps anchor_node (stx_raw anchor_signed0) None (aw_client s2) = (Inr ''0x1'', c3)"
    using anchor_reads0(4) by blast
  have s3: "anchor_send ref_deps anchor_node None 1 anchor_card0 anchor_signed0 1 ?a first s2 = (Inr ''0x1'', s2\<lparr>aw_client := c3\<rparr>)"
    by (simp add: anchor_send_def c3)
  obtain c4 where c4: "poll_receipt anchor_node ''0x1'' (at_poll_attempts (with_placeholder_caps 3)) c3 =
     (Inr \<lparr>r_tx_hash = ''0x1'', r_block_number = 9, r_status = Some 1, r_gas_used = None, r_effective_gas_price = None\<rparr>, c4)"
    using anchor_reads0(5) [of "''0x1''" 2 c3] by (auto simp: with_placeholder_caps_def numeral_3_eq_3)
  obtain rcpt s4 where s4: "anchor_outcome anchor_node (with_placeholder_caps 3) anchor_card0 1 ?a ''0x1'' (s2\<lparr>aw_client := c3\<rparr>)
      = (Inr rcpt, s4)" "receipt_confirms rcpt"
    by (simp add: anchor_outcome_def c4 receipt_confirms_def)
  have a: "anchor_approve0 anchor_zero = (Inr rcpt, s4)"
    unfolding anchor_approve_gated_def anchor_take0 by (simp add: rpc_then_def s1(1) [simplified] s2 [simplified] s3 [simplified] s4(1) [simplified])
  have c: "anchor_cards anchor_world0 = [(1, anchor_card0)]" by (simp add: anchor_world0_def anchor_cer0_def)
  have "bt_get 1 [(1, anchor_card0)] = Some anchor_card0" by (simp add: bt_get_def)
  then have "ar_day rcpt = 0 \<and> ar_commitment rcpt = replicate 32 5 \<and> bt_get 1 (anchor_cards s4) = None"
    using anchored_only_when_mined [OF a s4(2)] unfolding c anchor_id0 by (auto simp: bt_get_def anchor_card0_def anchor_req0_def)
  then show ?thesis using a s4(2) by (intro exI [of _ rcpt]) (simp only: a fst_conv snd_conv simp_thms)
qed

end
